(* ===== verification/Go_Prelude.thy ===== *)
theory Go_Prelude
  imports Complex_Main "HOL-Library.Word" "HOL-Library.AList" "HOL-Library.Sublist"
begin

text \<open>
  The part of Go and of its standard library that every component of the two
  applications uses, and the generic lemmas the component theories share.

  \<^item> Strings are byte sequences, as in Go: the type \<open>string\<close> of HOL (a \<open>char\<close> is one
    byte). \<open>trim_space\<close> is \<^verbatim>\<open>strings.TrimSpace\<close> with the Unicode white space of
    \<^verbatim>\<open>unicode.IsSpace\<close> spelt as UTF-8 byte sequences. \<open>to_lower\<close>, \<open>to_upper\<close> and
    \<open>equal_fold\<close> are \<^verbatim>\<open>strings.ToLower\<close>, \<^verbatim>\<open>ToUpper\<close> and \<^verbatim>\<open>EqualFold\<close> on ASCII
    letters; other bytes are left as they are (Go also maps non-ASCII letters).
  \<^item> An instant (\<^verbatim>\<open>time.Time\<close>) is the number of nanoseconds since Go's zero time, so
    \<^verbatim>\<open>IsZero\<close> is \<open>t = 0\<close>; a duration is a number of nanoseconds; \<^verbatim>\<open>Time.Sub\<close> saturates.
  \<^item> A Go map is an association list with distinct keys (the list order is one of the
    iteration orders Go may choose); the locale \<open>finite_map\<close> states the laws its
    clients rely on, and it is interpreted on the association lists.
  \<^item> \<open>path_clean\<close> is \<^verbatim>\<open>path.Clean\<close>.
  \<^item> \<open>float64\<close> values are modelled by exact real numbers.
\<close>

named_theorems go_string_simps \<open>unfolding rules for the string operations\<close>
named_theorems go_map_simps \<open>lookup and length of updated association lists\<close>

section \<open>Time and machine integers\<close>

type_synonym time = int
type_synonym duration = int

definition millisecond :: duration where "millisecond = 1000000"
definition second :: duration where "second = 1000000000"
definition minute :: duration where "minute = 60000000000"

lemmas time_units = millisecond_def second_def minute_def

definition max_int64 :: int where "max_int64 = 2 ^ 63 - 1"
definition min_int64 :: int where "min_int64 = - (2 ^ 63)"

definition time_sub :: "time \<Rightarrow> time \<Rightarrow> duration" where
  "time_sub a b = max min_int64 (min max_int64 (a - b))"

text \<open>The result of an \<^verbatim>\<open>int64\<close> operation: two's complement wrap-around.\<close>

definition wrap_int64 :: "int \<Rightarrow> int" where
  "wrap_int64 x = (x + 2 ^ 63) mod 2 ^ 64 - 2 ^ 63"

lemma wrap_int64_id: "min_int64 \<le> x \<Longrightarrow> x \<le> max_int64 \<Longrightarrow> wrap_int64 x = x"
  by (simp add: wrap_int64_def min_int64_def max_int64_def)

lemma wrap_int64_range: "min_int64 \<le> wrap_int64 x \<and> wrap_int64 x \<le> max_int64"
  by (simp add: wrap_int64_def min_int64_def max_int64_def)

lemma time_sub_range: "min_int64 \<le> time_sub a b \<and> time_sub a b \<le> max_int64"
  by (simp add: time_sub_def min_int64_def max_int64_def)

lemma time_sub_small: "\<bar>a - b\<bar> \<le> max_int64 \<Longrightarrow> time_sub a b = a - b"
  by (auto simp: time_sub_def max_int64_def min_int64_def)

lemma time_sub_nonneg: "0 \<le> time_sub a b \<longleftrightarrow> b \<le> a"
  by (auto simp: time_sub_def max_int64_def min_int64_def)

lemma time_sub_le: "b \<le> a \<Longrightarrow> time_sub a b \<le> a - b"
  by (auto simp: time_sub_def max_int64_def min_int64_def)

lemma time_sub_mono: "a \<le> a' \<Longrightarrow> time_sub a b \<le> time_sub a' b"
  by (auto simp: time_sub_def)

section \<open>Strings\<close>

definition has_prefix :: "string \<Rightarrow> string \<Rightarrow> bool" where
  "has_prefix s p = (take (length p) s = p)"

definition has_suffix :: "string \<Rightarrow> string \<Rightarrow> bool" where
  "has_suffix s p = (length p \<le> length s \<and> drop (length s - length p) s = p)"

definition trim_prefix :: "string \<Rightarrow> string \<Rightarrow> string" where
  "trim_prefix s p = (if has_prefix s p then drop (length p) s else s)"

definition trim_suffix :: "string \<Rightarrow> string \<Rightarrow> string" where
  "trim_suffix s p = (if has_suffix s p then take (length s - length p) s else s)"

fun contains_str :: "string \<Rightarrow> string \<Rightarrow> bool" where
  "contains_str [] p = (p = [])"
| "contains_str (c # s) p = (has_prefix (c # s) p \<or> contains_str s p)"

definition contains_any :: "string \<Rightarrow> string \<Rightarrow> bool" where
  "contains_any s cs = list_ex (\<lambda>c. c \<in> set cs) s"

fun index_byte :: "string \<Rightarrow> char \<Rightarrow> nat option" where
  "index_byte [] b = None"
| "index_byte (c # s) b = (if c = b then Some 0 else map_option Suc (index_byte s b))"

fun split_on :: "char \<Rightarrow> string \<Rightarrow> string list" where
  "split_on sep [] = [[]]"
| "split_on sep (c # s) =
     (if c = sep then [] # split_on sep s
      else (case split_on sep s of [] \<Rightarrow> [[c]] | w # ws \<Rightarrow> (c # w) # ws))"

fun join_with :: "string \<Rightarrow> string list \<Rightarrow> string" where
  "join_with sep [] = []"
| "join_with sep [w] = w"
| "join_with sep (w # v # ws) = w @ sep @ join_with sep (v # ws)"

text \<open>\<^verbatim>\<open>strings.Cut\<close> and \<^verbatim>\<open>strings.SplitN(s, sep, 2)\<close> at one byte.\<close>

fun cut :: "char \<Rightarrow> string \<Rightarrow> string \<times> string option" where
  "cut sep [] = ([], None)"
| "cut sep (c # s) =
     (if c = sep then ([], Some s) else (case cut sep s of (a, b) \<Rightarrow> (c # a, b)))"

text \<open>White space of \<^verbatim>\<open>unicode.IsSpace\<close>, each rune as its UTF-8 bytes.\<close>

definition space_seqs :: "string list" where
  "space_seqs =
    [[CHR 0x20], [CHR 0x09], [CHR 0x0A], [CHR 0x0B], [CHR 0x0C], [CHR 0x0D],
     [CHR 0xC2, CHR 0x85], [CHR 0xC2, CHR 0xA0], [CHR 0xE1, CHR 0x9A, CHR 0x80],
     [CHR 0xE2, CHR 0x80, CHR 0x80], [CHR 0xE2, CHR 0x80, CHR 0x81],
     [CHR 0xE2, CHR 0x80, CHR 0x82], [CHR 0xE2, CHR 0x80, CHR 0x83],
     [CHR 0xE2, CHR 0x80, CHR 0x84], [CHR 0xE2, CHR 0x80, CHR 0x85],
     [CHR 0xE2, CHR 0x80, CHR 0x86], [CHR 0xE2, CHR 0x80, CHR 0x87],
     [CHR 0xE2, CHR 0x80, CHR 0x88], [CHR 0xE2, CHR 0x80, CHR 0x89],
     [CHR 0xE2, CHR 0x80, CHR 0x8A], [CHR 0xE2, CHR 0x80, CHR 0xA8],
     [CHR 0xE2, CHR 0x80, CHR 0xA9], [CHR 0xE2, CHR 0x80, CHR 0xAF],
     [CHR 0xE2, CHR 0x81, CHR 0x9F], [CHR 0xE3, CHR 0x80, CHR 0x80]]"

definition strip_seq :: "string list \<Rightarrow> string \<Rightarrow> string option" where
  "strip_seq seqs s =
     map_option (\<lambda>p. drop (length p) s) (find (\<lambda>p. p \<noteq> [] \<and> has_prefix s p) seqs)"

lemma strip_seq_Some:
  assumes "strip_seq seqs s = Some r"
  shows "\<exists>p. p \<noteq> [] \<and> s = p @ r"
proof -
  from assms obtain p where "p \<noteq> []" "take (length p) s = p" "r = drop (length p) s"
    by (auto simp: strip_seq_def find_Some_iff has_prefix_def)
  then show ?thesis by (metis append_take_drop_id)
qed

function trim_left_seqs :: "string list \<Rightarrow> string \<Rightarrow> string" where
  "trim_left_seqs seqs s =
     (case strip_seq seqs s of None \<Rightarrow> s | Some r \<Rightarrow> trim_left_seqs seqs r)"
  by pat_completeness auto
termination
  by (relation "measure (\<lambda>(seqs, s). length s)") (auto dest!: strip_seq_Some)

declare trim_left_seqs.simps [simp del]

definition trim_space :: "string \<Rightarrow> string" where
  "trim_space s =
     rev (trim_left_seqs (map rev space_seqs) (rev (trim_left_seqs space_seqs s)))"

definition lower_char :: "char \<Rightarrow> char" where
  "lower_char c = (let n = of_char c :: nat in if 65 \<le> n \<and> n \<le> 90 then char_of (n + 32) else c)"

definition upper_char :: "char \<Rightarrow> char" where
  "upper_char c = (let n = of_char c :: nat in if 97 \<le> n \<and> n \<le> 122 then char_of (n - 32) else c)"

definition to_lower :: "string \<Rightarrow> string" where "to_lower s = map lower_char s"
definition to_upper :: "string \<Rightarrow> string" where "to_upper s = map upper_char s"
definition equal_fold :: "string \<Rightarrow> string \<Rightarrow> bool" where
  "equal_fold a b = (to_lower a = to_lower b)"

definition is_digit :: "char \<Rightarrow> bool" where
  "is_digit c = (let n = of_char c :: nat in 48 \<le> n \<and> n \<le> 57)"

definition is_lower_letter :: "char \<Rightarrow> bool" where
  "is_lower_letter c = (let n = of_char c :: nat in 97 \<le> n \<and> n \<le> 122)"

definition is_upper_letter :: "char \<Rightarrow> bool" where
  "is_upper_letter c = (let n = of_char c :: nat in 65 \<le> n \<and> n \<le> 90)"

definition digit_value :: "char \<Rightarrow> int" where
  "digit_value c = of_char c - 48"

text \<open>\<^verbatim>\<open>strconv.ParseInt(s, 10, 64)\<close>: an optional sign, decimal digits, the int64 range.\<close>

definition parse_int64 :: "string \<Rightarrow> int option" where
  "parse_int64 s =
     (let neg = has_prefix s ''-'';
          ds = (if neg \<or> has_prefix s ''+'' then tl s else s);
          v = foldl (\<lambda>acc c. acc * 10 + digit_value c) 0 ds;
          r = (if neg then - v else v)
      in if ds = [] \<or> \<not> list_all is_digit ds then None
         else if r < min_int64 \<or> r > max_int64 then None else Some r)"

section \<open>\<^verbatim>\<open>path.Clean\<close>\<close>

fun clean_segs :: "bool \<Rightarrow> string list \<Rightarrow> string list \<Rightarrow> string list" where
  "clean_segs rooted st [] = rev st"
| "clean_segs rooted st (x # xs) =
     (if x = [] \<or> x = ''.'' then clean_segs rooted st xs
      else if x = ''..'' then
        (case st of
           [] \<Rightarrow> if rooted then clean_segs rooted [] xs else clean_segs rooted [''..''] xs
         | y # ys \<Rightarrow> if y = ''..'' then clean_segs rooted (''..'' # st) xs
                      else clean_segs rooted ys xs)
      else clean_segs rooted (x # st) xs)"

definition path_clean :: "string \<Rightarrow> string" where
  "path_clean s =
     (if s = [] then ''.''
      else let rooted = (hd s = CHR ''/'');
               body = join_with ''/'' (clean_segs rooted [] (split_on (CHR ''/'') s))
           in if rooted then CHR ''/'' # body else if body = [] then ''.'' else body)"

section \<open>Go maps as association lists\<close>

type_synonym ('k, 'v) gomap = "('k \<times> 'v) list"

definition gm_get :: "('k, 'v) gomap \<Rightarrow> 'k \<Rightarrow> 'v option" where
  "gm_get m = map_of m"

definition gm_put :: "'k \<Rightarrow> 'v \<Rightarrow> ('k, 'v) gomap \<Rightarrow> ('k, 'v) gomap" where
  "gm_put k v m = AList.update k v m"

definition gm_del :: "'k \<Rightarrow> ('k, 'v) gomap \<Rightarrow> ('k, 'v) gomap" where
  "gm_del k m = AList.delete k m"

definition gm_inv :: "('k, 'v) gomap \<Rightarrow> bool" where
  "gm_inv m = distinct (map fst m)"

text \<open>A \<^verbatim>\<open>range\<close> loop that keeps the entries satisfying \<open>P\<close> and rewrites the kept values.\<close>

definition gm_filter :: "('k \<Rightarrow> 'v \<Rightarrow> bool) \<Rightarrow> ('k, 'v) gomap \<Rightarrow> ('k, 'v) gomap" where
  "gm_filter P m = filter (\<lambda>(k, v). P k v) m"

definition gm_map :: "('k \<Rightarrow> 'v \<Rightarrow> 'w) \<Rightarrow> ('k, 'v) gomap \<Rightarrow> ('k, 'w) gomap" where
  "gm_map f m = map (\<lambda>(k, v). (k, f k v)) m"

locale finite_map =
  fixes get :: "'m \<Rightarrow> 'k \<Rightarrow> 'v option"
    and put :: "'k \<Rightarrow> 'v \<Rightarrow> 'm \<Rightarrow> 'm"
    and del :: "'k \<Rightarrow> 'm \<Rightarrow> 'm"
    and len :: "'m \<Rightarrow> nat"
    and empty :: 'm
    and inv :: "'m \<Rightarrow> bool"
  assumes get_empty: "get empty k = None"
    and get_put: "inv m \<Longrightarrow> get (put k v m) = (get m)(k \<mapsto> v)"
    and get_del: "inv m \<Longrightarrow> get (del k m) = (get m)(k := None)"
    and len_card: "inv m \<Longrightarrow> len m = card (dom (get m))"
    and finite_dom: "inv m \<Longrightarrow> finite (dom (get m))"
    and inv_empty: "inv empty"
    and inv_put: "inv m \<Longrightarrow> inv (put k v m)"
    and inv_del: "inv m \<Longrightarrow> inv (del k m)"
begin

lemma len_put_new: "inv m \<Longrightarrow> get m k = None \<Longrightarrow> len (put k v m) = Suc (len m)"
  by (simp add: len_card inv_put get_put finite_dom domIff)

lemma len_put_old: "inv m \<Longrightarrow> get m k = Some w \<Longrightarrow> len (put k v m) = len m"
  by (simp add: len_card inv_put get_put insert_absorb domI)

lemma len_del_le: "inv m \<Longrightarrow> len (del k m) \<le> len m"
  by (simp add: len_card inv_del get_del card_mono finite_dom)

lemma len_del_old: "inv m \<Longrightarrow> get m k = Some w \<Longrightarrow> Suc (len (del k m)) = len m"
  by (simp add: len_card inv_del get_del) (metis card_Suc_Diff1 domI finite_dom)

lemma get_put_same: "inv m \<Longrightarrow> get (put k v m) k = Some v"
  by (simp add: get_put)

lemma get_put_other: "inv m \<Longrightarrow> j \<noteq> k \<Longrightarrow> get (put k v m) j = get m j"
  by (simp add: get_put)

end

section \<open>Shared lemmas\<close>

subsection \<open>Association lists\<close>

lemma gm_get_put [go_map_simps]: "gm_get (gm_put k v m) = (gm_get m)(k \<mapsto> v)"
  by (simp add: gm_get_def gm_put_def update_conv')

lemma gm_get_del [go_map_simps]: "gm_get (gm_del k m) = (gm_get m)(k := None)"
  by (simp add: gm_get_def gm_del_def delete_conv')

lemma gm_inv_put [simp, intro]: "gm_inv m \<Longrightarrow> gm_inv (gm_put k v m)"
  by (simp add: gm_inv_def gm_put_def distinct_update)

lemma gm_inv_del [simp, intro]: "gm_inv m \<Longrightarrow> gm_inv (gm_del k m)"
  by (simp add: gm_inv_def gm_del_def distinct_delete)

lemma gm_inv_Nil [simp]: "gm_inv []"
  by (simp add: gm_inv_def)

lemma gm_get_Nil [simp]: "gm_get [] k = None"
  by (simp add: gm_get_def)

lemma dom_gm_get: "dom (gm_get m) = fst ` set m"
  by (simp add: gm_get_def dom_map_of_conv_image_fst)

lemma length_gm_card: "gm_inv m \<Longrightarrow> length m = card (dom (gm_get m))"
  by (metis dom_gm_get distinct_card gm_inv_def length_map list.set_map)

interpretation gm: finite_map gm_get gm_put gm_del length "[]" gm_inv
  by unfold_locales
    (auto simp: gm_get_put gm_get_del length_gm_card dom_gm_get)

lemma gm_inv_filter [simp, intro]: "gm_inv m \<Longrightarrow> gm_inv (gm_filter P m)"
  by (simp add: gm_inv_def gm_filter_def distinct_map_filter)

lemma gm_inv_map [simp]: "gm_inv (gm_map f m) = gm_inv m"
  by (simp add: gm_inv_def gm_map_def comp_def case_prod_beta)

lemma length_gm_map [simp]: "length (gm_map f m) = length m"
  by (simp add: gm_map_def)

lemma length_gm_filter_le: "length (gm_filter P m) \<le> length m"
  by (simp add: gm_filter_def)

lemma gm_get_filter [go_map_simps]:
  "gm_inv m \<Longrightarrow> gm_get (gm_filter P m) k =
     (case gm_get m k of None \<Rightarrow> None | Some v \<Rightarrow> if P k v then Some v else None)"
proof (induction m)
  case (Cons e m)
  have "k \<notin> fst ` set m \<Longrightarrow> map_of (filter (\<lambda>(x, y). P x y) m) k = None"
    by (auto simp: map_of_eq_None_iff)
  with Cons show ?case
    by (cases e) (auto simp: gm_get_def gm_filter_def gm_inv_def split: option.splits)
qed (simp add: gm_get_def gm_filter_def)

lemma gm_get_map [go_map_simps]: "gm_get (gm_map f m) k = map_option (f k) (gm_get m k)"
  by (induction m) (auto simp: gm_get_def gm_map_def)

lemma gm_get_Some_in: "gm_get m k = Some v \<Longrightarrow> (k, v) \<in> set m"
  by (simp add: gm_get_def map_of_SomeD)

lemma gm_get_iff_in: "gm_inv m \<Longrightarrow> gm_get m k = Some v \<longleftrightarrow> (k, v) \<in> set m"
  by (simp add: gm_get_def gm_inv_def)

subsection \<open>Prefixes, suffixes, splitting and joining\<close>

lemma has_prefix_iff [go_string_simps]: "has_prefix s p \<longleftrightarrow> (\<exists>r. s = p @ r)"
  by (metis append_eq_conv_conj append_take_drop_id has_prefix_def)

lemma has_suffix_iff [go_string_simps]: "has_suffix s p \<longleftrightarrow> (\<exists>r. s = r @ p)"
  by (auto simp: has_suffix_def) (metis append_take_drop_id)

lemma has_prefix_refl [simp]: "has_prefix s s" and has_suffix_refl [simp]: "has_suffix s s"
  by (simp_all add: has_prefix_def has_suffix_def)

lemma has_prefix_Nil [simp]: "has_prefix s []" and has_suffix_Nil [simp]: "has_suffix s []"
  by (simp_all add: has_prefix_def has_suffix_def)

lemma has_suffix_single: "has_suffix s [c] \<longleftrightarrow> s \<noteq> [] \<and> last s = c"
  by (auto simp: has_suffix_iff) (metis append_butlast_last_id)

lemma has_prefix_single: "has_prefix s [c] \<longleftrightarrow> s \<noteq> [] \<and> hd s = c"
  by (cases s) (auto simp: has_prefix_def)

lemma split_on_not_Nil [simp]: "split_on sep s \<noteq> []"
  by (cases s) (auto split: list.splits)

lemma split_on_no_sep: "w \<in> set (split_on sep s) \<Longrightarrow> sep \<notin> set w"
proof (induction s arbitrary: w)
  case (Cons c s)
  then show ?case by (cases "split_on sep s") (auto split: if_splits)
qed simp

lemma split_on_append_word:
  "sep \<notin> set w \<Longrightarrow> split_on sep (w @ sep # s) = w # split_on sep s"
  by (induction w) auto

lemma split_on_append: "split_on sep (a @ sep # b) = split_on sep a @ split_on sep b"
proof (induction a)
  case (Cons c a)
  then show ?case by (cases "split_on sep a") auto
qed simp

lemma append_sep_eq:
  "a @ sep # x = b @ sep # y \<Longrightarrow> sep \<notin> set a \<Longrightarrow> sep \<notin> set b \<Longrightarrow> a = b \<and> x = y"
proof (induction a arbitrary: b)
  case Nil
  then show ?case by (cases b) auto
next
  case (Cons c a)
  then show ?case by (cases b) auto
qed

lemma split_on_word: "sep \<notin> set w \<Longrightarrow> split_on sep w = [w]"
  by (induction w) auto

lemma split_join:
  assumes "ws \<noteq> []" "\<And>w. w \<in> set ws \<Longrightarrow> sep \<notin> set w"
  shows "split_on sep (join_with [sep] ws) = ws"
  using assms
  by (induction "[sep]" ws rule: join_with.induct)
    (auto simp: split_on_word split_on_append_word)

lemma split_join_trailing:
  assumes "ws \<noteq> []" "\<And>w. w \<in> set ws \<Longrightarrow> sep \<notin> set w"
  shows "split_on sep (join_with [sep] ws @ [sep]) = ws @ [[]]"
  using assms
proof (induction "[sep]" ws rule: join_with.induct)
  case (2 w)
  then show ?case using split_on_append_word [of sep w "[]"] by simp
qed (auto simp: split_on_append_word)

lemma join_split: "join_with [sep] (split_on sep s) = s"
proof (induction s)
  case (Cons c s)
  then show ?case
    by (cases "split_on sep s"; cases "tl (split_on sep s)") auto
qed simp

lemma join_with_eq_Nil:
  "[] \<notin> set ws \<Longrightarrow> join_with sep ws = [] \<longleftrightarrow> ws = []"
  by (induction sep ws rule: join_with.induct) auto

lemma last_join_with:
  "ws \<noteq> [] \<Longrightarrow> [] \<notin> set ws \<Longrightarrow> last (join_with sep ws) = last (last ws)"
  by (induction sep ws rule: join_with.induct) (auto simp: join_with_eq_Nil)

lemma length_to_lower [simp]: "length (to_lower s) = length s"
  by (simp add: to_lower_def)

lemma lower_char_idem [simp]: "lower_char (lower_char c) = lower_char c"
  by (auto simp: lower_char_def Let_def)

lemma to_lower_idem [simp]: "to_lower (to_lower s) = to_lower s"
  by (simp add: to_lower_def)

lemma to_lower_Nil [simp]: "to_lower [] = []"
  by (simp add: to_lower_def)

lemma to_lower_append: "to_lower (a @ b) = to_lower a @ to_lower b"
  by (simp add: to_lower_def)

lemma equal_fold_refl [simp]: "equal_fold a a"
  by (simp add: equal_fold_def)

subsection \<open>Trimming\<close>

lemma trim_left_seqs_suffix: "\<exists>p. s = p @ trim_left_seqs seqs s"
proof (induction seqs s rule: trim_left_seqs.induct)
  case (1 seqs s)
  show ?case
  proof (cases "strip_seq seqs s")
    case None
    then show ?thesis by (simp add: trim_left_seqs.simps [of seqs s])
  next
    case (Some r)
    then obtain q where "s = q @ r" by (auto dest: strip_seq_Some)
    moreover obtain p where "r = p @ trim_left_seqs seqs r" using "1" Some by blast
    moreover have "trim_left_seqs seqs s = trim_left_seqs seqs r"
      using Some by (simp add: trim_left_seqs.simps [of seqs s])
    ultimately have "s = (q @ p) @ trim_left_seqs seqs s" by simp
    then show ?thesis by blast
  qed
qed

lemma trim_left_seqs_done: "strip_seq seqs (trim_left_seqs seqs s) = None"
proof (induction seqs s rule: trim_left_seqs.induct)
  case (1 seqs s)
  then show ?case
    by (cases "strip_seq seqs s") (auto simp: trim_left_seqs.simps [of seqs s])
qed

lemma trim_left_seqs_fix: "strip_seq seqs s = None \<Longrightarrow> trim_left_seqs seqs s = s"
  by (simp add: trim_left_seqs.simps)

lemma trim_space_infix: "\<exists>a b. s = a @ trim_space s @ b"
proof -
  obtain a where a: "s = a @ trim_left_seqs space_seqs s"
    using trim_left_seqs_suffix by blast
  obtain b where "rev (trim_left_seqs space_seqs s) =
      b @ trim_left_seqs (map rev space_seqs) (rev (trim_left_seqs space_seqs s))"
    using trim_left_seqs_suffix by blast
  then have "trim_left_seqs space_seqs s = trim_space s @ rev b"
    by (metis rev_append rev_rev_ident trim_space_def)
  with a show ?thesis by metis
qed

lemma set_trim_space: "set (trim_space s) \<subseteq> set s"
  using trim_space_infix [of s] by (metis Un_iff set_append subsetI)

lemma length_trim_space: "length (trim_space s) \<le> length s"
  using trim_space_infix [of s] by (metis le_add1 le_add2 length_append order_trans)

lemma trim_space_Nil [simp]: "trim_space [] = []"
  using length_trim_space [of "[]"] by simp

definition plain_char :: "char \<Rightarrow> bool" where
  "plain_char c \<longleftrightarrow> c \<notin> set (concat space_seqs)"

lemma strip_seq_plain:
  assumes "s \<noteq> []" "hd s \<notin> set (concat seqs)"
  shows "strip_seq seqs s = None"
proof -
  have "\<not> (p \<noteq> [] \<and> has_prefix s p)" if "p \<in> set seqs" for p
  proof
    assume p: "p \<noteq> [] \<and> has_prefix s p"
    then have "hd s \<in> set p" by (cases p) (auto simp: has_prefix_iff)
    with that assms(2) show False by auto
  qed
  then show ?thesis by (simp add: strip_seq_def find_None_iff)
qed

lemma trim_space_plain:
  assumes "s \<noteq> []" "plain_char (hd s)" "plain_char (last s)"
  shows "trim_space s = s"
proof -
  have "strip_seq space_seqs s = None"
    using assms by (intro strip_seq_plain) (simp_all add: plain_char_def)
  moreover have "strip_seq (map rev space_seqs) (rev s) = None"
    using assms by (intro strip_seq_plain) (simp_all add: plain_char_def hd_rev)
  ultimately show ?thesis by (simp add: trim_space_def trim_left_seqs_fix)
qed

lemma strip_seq_prefix: "strip_seq seqs (a @ b) = None \<Longrightarrow> strip_seq seqs a = None"
  by (auto simp: strip_seq_def find_None_iff has_prefix_def min_absorb2 split: if_splits)

lemma trim_space_idem [simp]: "trim_space (trim_space s) = trim_space s"
proof -
  let ?l = "trim_left_seqs space_seqs s"
  have r: "strip_seq (map rev space_seqs) (rev (trim_space s)) = None"
    unfolding trim_space_def by (simp add: trim_left_seqs_done)
  obtain b where "rev ?l = b @ trim_left_seqs (map rev space_seqs) (rev ?l)" using trim_left_seqs_suffix by blast
  then have "?l = trim_space s @ rev b" unfolding trim_space_def by (metis rev_append rev_rev_ident)
  then have "strip_seq space_seqs (trim_space s @ rev b) = None" using trim_left_seqs_done [of space_seqs s] by simp
  then have "strip_seq space_seqs (trim_space s) = None" by (rule strip_seq_prefix)
  with r show ?thesis unfolding trim_space_def [of "trim_space s"] by (simp add: trim_left_seqs_fix)
qed

subsection \<open>Evaluation of characters\<close>

text \<open>Code equations on the bits of a character, so that examples are evaluated without the generic conversions.\<close>

lemma is_digit_code [code]:
  "is_digit (Char b0 b1 b2 b3 b4 b5 b6 b7) \<longleftrightarrow> \<not> b7 \<and> \<not> b6 \<and> b5 \<and> b4 \<and> \<not> (b3 \<and> (b1 \<or> b2))"
  by (cases b0; cases b1; cases b2; cases b3; cases b4; cases b5; cases b6; cases b7) (simp_all add: is_digit_def)

lemma is_lower_letter_code [code]:
  "is_lower_letter (Char b0 b1 b2 b3 b4 b5 b6 b7) \<longleftrightarrow>
     \<not> b7 \<and> b6 \<and> b5 \<and> (b0 \<or> b1 \<or> b2 \<or> b3 \<or> b4) \<and> \<not> (b4 \<and> b3 \<and> (b2 \<or> b1 \<and> b0))"
  by (cases b0; cases b1; cases b2; cases b3; cases b4; cases b5; cases b6; cases b7) (simp_all add: is_lower_letter_def)

lemma is_upper_letter_code [code]:
  "is_upper_letter (Char b0 b1 b2 b3 b4 b5 b6 b7) \<longleftrightarrow>
     \<not> b7 \<and> b6 \<and> \<not> b5 \<and> (b0 \<or> b1 \<or> b2 \<or> b3 \<or> b4) \<and> \<not> (b4 \<and> b3 \<and> (b2 \<or> b1 \<and> b0))"
  by (cases b0; cases b1; cases b2; cases b3; cases b4; cases b5; cases b6; cases b7) (simp_all add: is_upper_letter_def)

lemma lower_char_code [code]:
  "lower_char (Char b0 b1 b2 b3 b4 b5 b6 b7) =
     (if is_upper_letter (Char b0 b1 b2 b3 b4 b5 b6 b7) then Char b0 b1 b2 b3 b4 True b6 b7 else Char b0 b1 b2 b3 b4 b5 b6 b7)"
  by (cases b0; cases b1; cases b2; cases b3; cases b4; cases b5; cases b6; cases b7)
    (simp_all add: lower_char_def is_upper_letter_code char_of_def bit_iff_odd)

lemma upper_char_code [code]:
  "upper_char (Char b0 b1 b2 b3 b4 b5 b6 b7) =
     (if is_lower_letter (Char b0 b1 b2 b3 b4 b5 b6 b7) then Char b0 b1 b2 b3 b4 False b6 b7 else Char b0 b1 b2 b3 b4 b5 b6 b7)"
  by (cases b0; cases b1; cases b2; cases b3; cases b4; cases b5; cases b6; cases b7)
    (simp_all add: upper_char_def is_lower_letter_code char_of_def bit_iff_odd)

lemma char_of_int_unfold [code_unfold]:
  "(char_of (k :: int) :: char) =
     Char (k mod 2 = 1) (k div 2 mod 2 = 1) (k div 4 mod 2 = 1) (k div 8 mod 2 = 1) (k div 16 mod 2 = 1) (k div 32 mod 2 = 1)
       (k div 64 mod 2 = 1) (k div 128 mod 2 = 1)"
  by (simp add: char_of_def bit_iff_odd odd_iff_mod_2_eq_one)

definition char_code :: "char \<Rightarrow> int" where "char_code c = of_char c"

lemma char_code_code [code]:
  "char_code (Char b0 b1 b2 b3 b4 b5 b6 b7) =
     (if b0 then 1 else 0) + (if b1 then 2 else 0) + (if b2 then 4 else 0) + (if b3 then 8 else 0) +
     (if b4 then 16 else 0) + (if b5 then 32 else 0) + (if b6 then 64 else 0) + (if b7 then 128 else 0)"
  by (cases b0; cases b1; cases b2; cases b3; cases b4; cases b5; cases b6; cases b7) (simp_all add: char_code_def)

lemma of_char_unfold [code_unfold]: "(of_char c :: int) = char_code c" "(of_char c :: nat) = nat (char_code c)"
  by (simp_all add: char_code_def flip: of_nat_of_char [where 'a = int])

lemma letter_plain:
  assumes "is_lower_letter c \<or> is_upper_letter c \<or> is_digit c"
  shows "plain_char c"
proof -
  have "list_all (\<lambda>d. (of_char d :: nat) < 48 \<or> 122 < (of_char d :: nat)) (concat space_seqs)" by code_simp
  then have "c \<in> set (concat space_seqs) \<Longrightarrow> (of_char c :: nat) < 48 \<or> 122 < (of_char c :: nat)" unfolding list_all_iff by blast
  then show ?thesis
    using assms by (auto simp: plain_char_def is_lower_letter_def is_upper_letter_def is_digit_def Let_def simp del: set_concat)
qed

lemma case_same: "\<not> is_lower_letter c \<Longrightarrow> upper_char c = c" "\<not> is_upper_letter c \<Longrightarrow> lower_char c = c"
  by (auto simp: is_lower_letter_def is_upper_letter_def upper_char_def lower_char_def Let_def)

lemma letter_case: "is_lower_letter c \<Longrightarrow> \<not> is_upper_letter c"
  by (auto simp: is_lower_letter_def is_upper_letter_def Let_def)

subsection \<open>Cleaned paths\<close>

definition good_seg :: "string \<Rightarrow> bool" where
  "good_seg w \<longleftrightarrow> w \<noteq> [] \<and> w \<noteq> ''.'' \<and> w \<noteq> ''..'' \<and> CHR ''/'' \<notin> set w"

lemma clean_segs_good:
  assumes "\<And>w. w \<in> set st \<Longrightarrow> good_seg w" "\<And>w. w \<in> set ws \<Longrightarrow> CHR ''/'' \<notin> set w"
    and "w \<in> set (clean_segs True st ws)"
  shows "good_seg w"
  using assms
proof (induction True st ws rule: clean_segs.induct)
  case (2 st x xs)
  then show ?case
    by (cases st) (auto simp: good_seg_def split: if_splits)
qed auto

lemma clean_segs_id:
  "(\<And>w. w \<in> set ws \<Longrightarrow> good_seg w) \<Longrightarrow> clean_segs True st ws = rev st @ ws"
  by (induction ws arbitrary: st) (auto simp: good_seg_def)

lemma clean_segs_no_dots:
  "\<forall>w \<in> set ws. w \<noteq> ''.'' \<and> w \<noteq> ''..'' \<Longrightarrow>
     clean_segs rooted st ws = rev st @ filter (\<lambda>w. w \<noteq> []) ws"
  by (induction ws arbitrary: st) auto

lemma clean_segs_snoc_empty:
  "clean_segs rooted st (ws @ [[]]) = clean_segs rooted st ws"
  by (induction rooted st ws rule: clean_segs.induct) (auto split: list.splits)

lemma path_clean_rooted:
  "path_clean (CHR ''/'' # s) =
     CHR ''/'' # join_with ''/'' (clean_segs True [] (split_on (CHR ''/'') s))"
  by (simp add: path_clean_def)

lemma path_clean_rooted_segs:
  obtains ws where "path_clean (CHR ''/'' # s) = CHR ''/'' # join_with ''/'' ws"
    "\<And>w. w \<in> set ws \<Longrightarrow> good_seg w"
proof
  show "path_clean (CHR ''/'' # s) =
      CHR ''/'' # join_with ''/'' (clean_segs True [] (split_on (CHR ''/'') s))"
    by (rule path_clean_rooted)
  show "\<And>w. w \<in> set (clean_segs True [] (split_on (CHR ''/'') s)) \<Longrightarrow> good_seg w"
    by (rule clean_segs_good) (auto dest: split_on_no_sep)
qed

lemma clean_split_join:
  assumes "\<And>w. w \<in> set ws \<Longrightarrow> good_seg w"
  shows "clean_segs True [] (split_on (CHR ''/'') (join_with ''/'' ws)) = ws"
proof (cases "ws = []")
  case False
  then have "split_on (CHR ''/'') (join_with ''/'' ws) = ws"
    using assms by (intro split_join) (auto simp: good_seg_def)
  then show ?thesis using clean_segs_id [of ws "[]"] assms by simp
qed simp

lemma clean_split_join_trailing:
  assumes "\<And>w. w \<in> set ws \<Longrightarrow> good_seg w"
  shows "clean_segs True [] (split_on (CHR ''/'') (join_with ''/'' ws @ ''/'')) = ws"
proof (cases "ws = []")
  case False
  then have "split_on (CHR ''/'') (join_with ''/'' ws @ ''/'') = ws @ [[]]"
    using assms by (intro split_join_trailing) (auto simp: good_seg_def)
  then show ?thesis using clean_segs_id [of ws "[]"] assms by (simp add: clean_segs_snoc_empty)
qed simp

end
