(* ===== verification/Http_Header.thy ===== *)
theory Http_Header
  imports Go_Prelude
begin

text \<open>
  \<^verbatim>\<open>net/http.Header\<close>: a map from canonical field names to the list of field values, with
  \<^verbatim>\<open>CanonicalHeaderKey\<close> applied by every accessor. The lemmas are the accessor laws the
  proxy and gateway theories use. The records \<open>go_url\<close> and \<open>http_request\<close> hold the fields
  of \<^verbatim>\<open>url.URL\<close> and \<^verbatim>\<open>http.Request\<close> that the modelled code reads, with the two
  values EdgeProxy keeps in the request context.
\<close>

named_theorems header_simps \<open>reading a header map after an update\<close>

type_synonym header = "(string, string list) gomap"

definition is_token_char :: "char \<Rightarrow> bool" where
  "is_token_char c \<longleftrightarrow> is_lower_letter c \<or> is_upper_letter c \<or> is_digit c
     \<or> c \<in> set ''!#$%&*+-.^_|~'' \<or> c = CHR 0x27 \<or> c = CHR 0x60"

fun canon_walk :: "bool \<Rightarrow> string \<Rightarrow> string" where
  "canon_walk upper [] = []"
| "canon_walk upper (c # s) =
     (if upper then upper_char c else lower_char c) # canon_walk (c = CHR ''-'') s"

definition canonical_header_key :: "string \<Rightarrow> string" where
  "canonical_header_key s = (if list_all is_token_char s then canon_walk True s else s)"

definition h_values :: "header \<Rightarrow> string \<Rightarrow> string list" where
  "h_values h k = (case gm_get h (canonical_header_key k) of None \<Rightarrow> [] | Some vs \<Rightarrow> vs)"

definition h_get :: "header \<Rightarrow> string \<Rightarrow> string" where
  "h_get h k = (case h_values h k of [] \<Rightarrow> [] | v # _ \<Rightarrow> v)"

definition h_set :: "string \<Rightarrow> string \<Rightarrow> header \<Rightarrow> header" where
  "h_set k v h = gm_put (canonical_header_key k) [v] h"

definition h_add :: "string \<Rightarrow> string \<Rightarrow> header \<Rightarrow> header" where
  "h_add k v h = gm_put (canonical_header_key k) (h_values h k @ [v]) h"

definition h_del :: "string \<Rightarrow> header \<Rightarrow> header" where
  "h_del k h = gm_del (canonical_header_key k) h"

text \<open>\<^verbatim>\<open>headerHasToken\<close> of \<^verbatim>\<open>apps/edgeproxy/internal/proxy/cache_policy.go\<close>.\<close>

definition header_has_token :: "string list \<Rightarrow> string \<Rightarrow> bool" where
  "header_has_token vals token =
     list_ex (\<lambda>v. list_ex (\<lambda>raw. equal_fold (trim_space raw) token) (split_on (CHR '','') v)) vals"

record go_url =
  u_scheme :: string
  u_opaque :: string
  u_host :: string
  u_path :: string
  u_raw_path :: string
  u_force_query :: bool
  u_raw_query :: string
  u_fragment :: string

record http_request =
  rq_method :: string
  rq_host :: string
  rq_url :: go_url
  rq_header :: header
  rq_remote_addr :: string
  rq_content_length :: int
  rq_proto :: string
  rq_ctx_client_ip :: "string option"
  rq_ctx_probe :: bool

definition user_agent :: "http_request \<Rightarrow> string" where
  "user_agent req = h_get (rq_header req) ''User-Agent''"

text \<open>\<^verbatim>\<open>URL.RequestURI\<close> for a URL whose \<^verbatim>\<open>RawPath\<close> is empty: the path is
  percent-encoded byte by byte (upper-case hexadecimal digits).\<close>

definition upper_hex :: "nat \<Rightarrow> char" where
  "upper_hex d = ''0123456789ABCDEF'' ! (d mod 16)"

definition path_char_plain :: "char \<Rightarrow> bool" where
  "path_char_plain c \<longleftrightarrow> is_lower_letter c \<or> is_upper_letter c \<or> is_digit c
     \<or> c \<in> set ''-_.~$&+,/:;=@''"

definition escape_path :: "string \<Rightarrow> string" where
  "escape_path s =
     concat (map (\<lambda>c. if path_char_plain c then [c]
       else [CHR ''%'', upper_hex (of_char c div 16), upper_hex (of_char c)]) s)"

definition url_request_uri :: "go_url \<Rightarrow> string" where
  "url_request_uri u =
     (let p = (if u_opaque u = [] then
                 (let e = (if u_path u = ''*'' then ''*'' else escape_path (u_path u))
                  in if e = [] then ''/'' else e)
               else if has_prefix (u_opaque u) ''//'' then u_scheme u @ '':'' @ u_opaque u
               else u_opaque u)
      in if u_force_query u \<or> u_raw_query u \<noteq> [] then p @ ''?'' @ u_raw_query u else p)"

lemma h_values_set [header_simps]:
  "h_values (h_set k v h) j =
     (if canonical_header_key j = canonical_header_key k then [v] else h_values h j)"
  by (simp add: h_values_def h_set_def go_map_simps)

lemma h_values_add [header_simps]:
  "h_values (h_add k v h) j =
     (if canonical_header_key j = canonical_header_key k then h_values h k @ [v]
      else h_values h j)"
  by (simp add: h_values_def h_add_def go_map_simps)

lemma h_values_del [header_simps]:
  "h_values (h_del k h) j =
     (if canonical_header_key j = canonical_header_key k then [] else h_values h j)"
  by (simp add: h_values_def h_del_def go_map_simps)

lemma h_inv_updates [simp]:
  "gm_inv h \<Longrightarrow> gm_inv (h_set k v h)"
  "gm_inv h \<Longrightarrow> gm_inv (h_add k v h)"
  "gm_inv h \<Longrightarrow> gm_inv (h_del k h)"
  by (simp_all add: h_set_def h_add_def h_del_def)

end
