(* ===== verification/Request_Path.thy ===== *)
theory Request_Path
  imports Go_Prelude
begin

text \<open>
  Canonical request paths and segment-aware prefix matching. The Go function
  \<^verbatim>\<open>canonicalRequestPath\<close> is written out, with the same body, in the cache, router and
  proxy packages of EdgeProxy and in the routes and waf packages of SecurityEdge;
  \<^verbatim>\<open>pathPrefixMatches\<close> in router and routes. Here each is one definition. The lemmas show that
  a canonical path is a fixed point, holds no dot segment, and that a prefix match is a
  match of whole path segments.
\<close>

definition canonical_request_path :: "string \<Rightarrow> string" where
  "canonical_request_path value =
     (if value = [] then ''/''
      else let trailing = has_suffix value ''/'';
               cleaned = path_clean (''/'' @ trim_prefix value ''/'')
           in if trailing \<and> cleaned \<noteq> ''/'' then cleaned @ ''/'' else cleaned)"

definition path_prefix_matches :: "string \<Rightarrow> string \<Rightarrow> bool" where
  "path_prefix_matches request_path pre =
     (if pre = ''/'' then True
      else if request_path = pre then True
      else has_prefix request_path pre \<and> length request_path > length pre
           \<and> request_path ! length pre = CHR ''/'')"

lemma canonical_request_path_cases:
  obtains ws where "\<And>w. w \<in> set ws \<Longrightarrow> good_seg w"
    "canonical_request_path value = CHR ''/'' # join_with ''/'' ws
     \<or> ws \<noteq> [] \<and> canonical_request_path value = CHR ''/'' # join_with ''/'' ws @ ''/''"
proof -
  obtain ws where ws: "path_clean (CHR ''/'' # trim_prefix value ''/'') = CHR ''/'' # join_with ''/'' ws"
    and good: "\<And>w. w \<in> set ws \<Longrightarrow> good_seg w"
    by (rule path_clean_rooted_segs [of "trim_prefix value ''/''"]) blast
  show thesis
  proof (cases "value = []")
    case True
    then show ?thesis
      by (intro that [of "[]"]) (simp_all add: canonical_request_path_def)
  next
    case False
    then show ?thesis
      using ws good by (intro that [of ws]) (auto simp: canonical_request_path_def Let_def)
  qed
qed

lemma canonical_segs_fixed:
  assumes "\<And>w. w \<in> set ws \<Longrightarrow> good_seg w"
  shows "canonical_request_path (CHR ''/'' # join_with ''/'' ws) = CHR ''/'' # join_with ''/'' ws"
proof (cases "ws = []")
  case False
  let ?s = "CHR ''/'' # join_with ''/'' ws"
  have "[] \<notin> set ws" using assms by (auto simp: good_seg_def)
  then have "last ?s = last (last ws)" and "last ws \<in> set ws"
    using False by (auto simp: join_with_eq_Nil last_join_with)
  then have "\<not> has_suffix ?s ''/''"
    using assms [of "last ws"] by (auto simp: has_suffix_single good_seg_def) (metis last_in_set)
  then show ?thesis
    using assms by (simp add: canonical_request_path_def trim_prefix_def has_prefix_single
        path_clean_rooted clean_split_join)
qed (simp add: canonical_request_path_def trim_prefix_def has_prefix_single path_clean_rooted
    has_suffix_single)

lemma canonical_segs_trailing_fixed:
  assumes "\<And>w. w \<in> set ws \<Longrightarrow> good_seg w" "ws \<noteq> []"
  shows "canonical_request_path (CHR ''/'' # join_with ''/'' ws @ ''/'') =
    CHR ''/'' # join_with ''/'' ws @ ''/''"
proof -
  have "join_with ''/'' ws \<noteq> []"
    using assms by (subst join_with_eq_Nil) (auto simp: good_seg_def)
  then show ?thesis
    using assms by (simp add: canonical_request_path_def trim_prefix_def has_prefix_single
        path_clean_rooted clean_split_join_trailing has_suffix_single)
qed

lemma canonical_request_path_idem:
  "canonical_request_path (canonical_request_path value) = canonical_request_path value"
proof -
  obtain ws where "\<And>w. w \<in> set ws \<Longrightarrow> good_seg w"
    "canonical_request_path value = CHR ''/'' # join_with ''/'' ws
     \<or> ws \<noteq> [] \<and> canonical_request_path value = CHR ''/'' # join_with ''/'' ws @ ''/''"
    by (rule canonical_request_path_cases) blast
  then show ?thesis
    by (auto simp: canonical_segs_fixed canonical_segs_trailing_fixed)
qed

lemma canonical_request_path_split:
  obtains ws where "\<And>w. w \<in> set ws \<Longrightarrow> good_seg w"
    "split_on (CHR ''/'') (canonical_request_path value) \<in> {[] # ws, [] # ws @ [[]]}"
proof -
  obtain ws where good: "\<And>w. w \<in> set ws \<Longrightarrow> good_seg w"
    and c: "canonical_request_path value = CHR ''/'' # join_with ''/'' ws
     \<or> ws \<noteq> [] \<and> canonical_request_path value = CHR ''/'' # join_with ''/'' ws @ ''/''"
    by (rule canonical_request_path_cases) blast
  show thesis
  proof (cases "ws = []")
    case True
    with c show ?thesis by (intro that [of "[]"]) auto
  next
    case False
    then have "split_on (CHR ''/'') (join_with ''/'' ws) = ws"
      "split_on (CHR ''/'') (join_with ''/'' ws @ ''/'') = ws @ [[]]"
      using good by (auto intro!: split_join split_join_trailing simp: good_seg_def)
    with c good show ?thesis by (intro that [of ws]) auto
  qed
qed

lemma canonical_request_path_no_dots:
  assumes "w \<in> set (split_on (CHR ''/'') (canonical_request_path value))"
  shows "w \<noteq> ''.'' \<and> w \<noteq> ''..''"
proof -
  obtain ws where "\<And>w. w \<in> set ws \<Longrightarrow> good_seg w"
    "split_on (CHR ''/'') (canonical_request_path value) \<in> {[] # ws, [] # ws @ [[]]}"
    by (rule canonical_request_path_split) blast
  with assms show ?thesis by (fastforce simp: good_seg_def)
qed

lemma canonical_request_path_rooted: "\<exists>s. canonical_request_path value = CHR ''/'' # s"
  by (rule canonical_request_path_cases [of "value"]) auto

lemma path_prefix_matches_iff:
  "path_prefix_matches p pre \<longleftrightarrow> pre = ''/'' \<or> p = pre \<or> (\<exists>r. p = pre @ CHR ''/'' # r)"
proof -
  have "(\<exists>r. p = pre @ r \<and> length p > length pre \<and> p ! length pre = CHR ''/'')
      \<longleftrightarrow> (\<exists>r. p = pre @ CHR ''/'' # r)"
    by (auto simp: nth_append neq_Nil_conv)
  then show ?thesis
    by (auto simp: path_prefix_matches_def has_prefix_iff)
qed

text \<open>A prefix that does not end in a slash matches exactly the paths whose segments begin with
  the segments of the prefix.\<close>

lemma path_prefix_matches_segments:
  assumes "pre \<noteq> ''/''"
  shows "path_prefix_matches p pre \<longleftrightarrow>
    (\<exists>r. split_on (CHR ''/'') p = split_on (CHR ''/'') pre @ r)"
proof -
  have "\<exists>r'. p = pre @ r' \<and> (r = [] \<and> r' = [] \<or> (\<exists>q. r' = CHR ''/'' # q))"
    if "split_on (CHR ''/'') p = split_on (CHR ''/'') pre @ r" for r
  proof (cases "r = []")
    case True
    with that have "p = pre" by (metis append_Nil2 join_split)
    with True show ?thesis by simp
  next
    case False
    have "join_with ''/'' (a @ r) = join_with ''/'' a @ CHR ''/'' # join_with ''/'' r"
      if "a \<noteq> []" for a
      using that False
      by (induction "''/''" a rule: join_with.induct) (auto simp: neq_Nil_conv)
    then have "p = pre @ CHR ''/'' # join_with ''/'' r"
      by (metis join_split split_on_not_Nil that)
    then show ?thesis by blast
  qed
  with split_on_append [of "CHR ''/''" pre] assms show ?thesis
    by (fastforce simp: path_prefix_matches_iff)
qed

text \<open>
  A canonical path cannot climb out of its prefix: canonicalising is idempotent, the result
  is rooted, and splitting it at slashes yields no \<^verbatim>\<open>.\<close> or \<^verbatim>\<open>..\<close> segment, whatever
  the input bytes are.
\<close>

lemma canonical_request_path_normal_form:
  "canonical_request_path (canonical_request_path value) = canonical_request_path value \<and>
   has_prefix (canonical_request_path value) ''/'' \<and>
   set (split_on (CHR ''/'') (canonical_request_path value)) \<inter> {''.'', ''..''} = {}"
  using canonical_request_path_idem canonical_request_path_no_dots
    canonical_request_path_rooted [of "value"]
  by (fastforce simp: has_prefix_single)

text \<open>
  Prefix matching works on whole segments: a prefix other than the root matches a path iff
  the segment list of the prefix is an initial part of the segment list of the path, so
  \<^verbatim>\<open>/api\<close> matches \<^verbatim>\<open>/api/users\<close> but not \<^verbatim>\<open>/apiusers\<close>.
\<close>

lemma path_prefix_matches_whole_segments:
  "path_prefix_matches p pre \<longleftrightarrow>
     pre = ''/'' \<or> prefix (split_on (CHR ''/'') pre) (split_on (CHR ''/'') p)"
  using path_prefix_matches_segments [of pre p]
  by (cases "pre = ''/''") (auto simp: path_prefix_matches_def prefix_def)

end
