(* ===== verification/Net_IP.thy ===== *)
theory Net_IP
  imports Go_Prelude
begin

text \<open>
  The part of Go's \<^verbatim>\<open>net\<close> package that both applications build on: textual IP addresses,
  CIDR networks and \<^verbatim>\<open>host:port\<close> splitting. An address is the 128-bit number of its 16-byte
  form (an IPv4 address is the mapped number \<^verbatim>\<open>::ffff:a.b.c.d\<close>, as \<^verbatim>\<open>net.ParseIP\<close>
  returns it). \<open>parse_ip\<close> follows the parser of \<^verbatim>\<open>net/netip\<close> (no leading zeros in IPv4
  octets, at most one ellipsis, an embedded IPv4 tail) and refuses zones, as \<^verbatim>\<open>net.ParseIP\<close>
  does; \<open>ip_string\<close> is \<^verbatim>\<open>IP.String\<close>, the RFC 5952 text. \<open>net_contains\<close> is
  \<^verbatim>\<open>IPNet.Contains\<close>: IPv4 and IPv6 networks never match addresses of the other family.
\<close>

type_synonym ip_addr = int

section \<open>IPv4 text\<close>

definition decimal_value :: "string \<Rightarrow> int" where
  "decimal_value s = foldl (\<lambda>acc c. acc * 10 + digit_value c) 0 s"

definition parse_octet :: "string \<Rightarrow> int option" where
  "parse_octet s =
     (if s = [] \<or> length s > 3 \<or> \<not> list_all is_digit s then None
      else if length s > 1 \<and> hd s = CHR ''0'' then None
      else let v = decimal_value s in if v > 255 then None else Some v)"

definition parse_ipv4_fields :: "string \<Rightarrow> int option" where
  "parse_ipv4_fields s =
     (case map parse_octet (split_on (CHR ''.'') s) of
        [Some a, Some b, Some c, Some d] \<Rightarrow> Some (((a * 256 + b) * 256 + c) * 256 + d)
      | _ \<Rightarrow> None)"

definition v4_prefix :: int where "v4_prefix = 0xFFFF * 2 ^ 32"

definition is_v4 :: "ip_addr \<Rightarrow> bool" where
  "is_v4 ip = (ip div 2 ^ 32 = 0xFFFF)"

section \<open>IPv6 text\<close>

definition hex_value :: "char \<Rightarrow> int option" where
  "hex_value c =
     (let n = of_char c :: int in
      if 48 \<le> n \<and> n \<le> 57 then Some (n - 48)
      else if 97 \<le> n \<and> n \<le> 102 then Some (n - 87)
      else if 65 \<le> n \<and> n \<le> 70 then Some (n - 55)
      else None)"

text \<open>Reads the hexadecimal digits at the start: their value, their number, the rest.\<close>

fun hex_run :: "int \<Rightarrow> nat \<Rightarrow> string \<Rightarrow> int \<times> nat \<times> string" where
  "hex_run acc n [] = (acc, n, [])"
| "hex_run acc n (c # s) =
     (case hex_value c of None \<Rightarrow> (acc, n, c # s) | Some v \<Rightarrow> hex_run (acc * 16 + v) (Suc n) s)"

text \<open>The group loop of the IPv6 parser: \<open>groups\<close> are the 16-bit groups read so far,
  \<open>ell\<close> the position of the ellipsis. At most eight groups are read.\<close>

function ipv6_groups ::
  "int list \<Rightarrow> nat option \<Rightarrow> string \<Rightarrow> (int list \<times> nat option \<times> string) option" where
  "ipv6_groups groups ell s =
     (if length groups \<ge> 8 then Some (groups, ell, s)
      else
        let (acc, off, rest) = hex_run 0 0 s in
        if off = 0 \<or> off > 4 then None
        else if rest \<noteq> [] \<and> hd rest = CHR ''.'' then
          if ell = None \<and> length groups \<noteq> 6 then None
          else if length groups > 6 then None
          else (case parse_ipv4_fields s of
                  None \<Rightarrow> None
                | Some v \<Rightarrow> Some (groups @ [v div 65536, v mod 65536], ell, []))
        else
          let groups' = groups @ [acc] in
          case rest of
            [] \<Rightarrow> Some (groups', ell, [])
          | c # more \<Rightarrow>
              if c \<noteq> CHR '':'' \<or> more = [] then None
              else if hd more = CHR '':'' then
                if ell \<noteq> None then None
                else if tl more = [] then Some (groups', Some (length groups'), [])
                else ipv6_groups groups' (Some (length groups')) (tl more)
              else ipv6_groups groups' ell more)"
  by pat_completeness auto
termination
  by (relation "measure (\<lambda>(groups, ell, s). 8 - length groups)") auto

declare ipv6_groups.simps [simp del]

definition groups_value :: "int list \<Rightarrow> int" where
  "groups_value gs = foldl (\<lambda>acc g. acc * 65536 + g) 0 gs"

definition parse_ipv6 :: "string \<Rightarrow> ip_addr option" where
  "parse_ipv6 s0 =
     (if CHR ''%'' \<in> set s0 then None
      else
        let lead = has_prefix s0 ''::'';
            s = (if lead then drop 2 s0 else s0);
            ell = (if lead then Some 0 else None)
        in if lead \<and> s = [] then Some 0
           else (case ipv6_groups [] ell s of
                   None \<Rightarrow> None
                 | Some (gs, ell', rest) \<Rightarrow>
                     if rest \<noteq> [] then None
                     else if length gs < 8 then
                       (case ell' of
                          None \<Rightarrow> None
                        | Some e \<Rightarrow>
                            Some (groups_value (take e gs @ replicate (8 - length gs) 0 @ drop e gs)))
                     else if ell' \<noteq> None then None
                     else Some (groups_value gs)))"

text \<open>\<^verbatim>\<open>net.ParseIP\<close>: the first of dot, colon and percent decides the family.\<close>

definition parse_ip :: "string \<Rightarrow> ip_addr option" where
  "parse_ip s =
     (case find (\<lambda>c. c = CHR ''.'' \<or> c = CHR '':'' \<or> c = CHR ''%'') s of
        None \<Rightarrow> None
      | Some c \<Rightarrow>
          if c = CHR ''.'' then map_option (\<lambda>v. v4_prefix + v) (parse_ipv4_fields s)
          else if c = CHR '':'' then parse_ipv6 s
          else None)"

section \<open>Printing\<close>

definition digit_char :: "int \<Rightarrow> char" where
  "digit_char d = char_of (if d < 10 then d + 48 else d + 87)"

function digits_of :: "int \<Rightarrow> int \<Rightarrow> string" where
  "digits_of b n =
     (if b < 2 \<or> n < b then [digit_char n] else digits_of b (n div b) @ [digit_char (n mod b)])"
  by pat_completeness auto
termination
proof (relation "measure (\<lambda>(b, n). nat n)")
  fix b n :: int
  assume "\<not> (b < 2 \<or> n < b)"
  then have "n div b < n" "0 < n" using int_div_less_self [of n b] by auto
  then show "((b, n div b), b, n) \<in> measure (\<lambda>(b, n). nat n)" by simp
qed simp

declare digits_of.simps [simp del]

text \<open>\<^verbatim>\<open>strconv.Itoa\<close>\<close>

definition itoa :: "int \<Rightarrow> string" where
  "itoa n = (if n < 0 then CHR ''-'' # digits_of 10 (- n) else digits_of 10 n)"

definition group_at :: "ip_addr \<Rightarrow> nat \<Rightarrow> int" where
  "group_at ip i = ip div 65536 ^ (7 - i) mod 65536"

fun zero_run_from :: "int list \<Rightarrow> nat" where
  "zero_run_from [] = 0"
| "zero_run_from (g # gs) = (if g = 0 then Suc (zero_run_from gs) else 0)"

text \<open>The first longest run of at least two zero groups: start and length.\<close>

definition zero_run :: "int list \<Rightarrow> nat \<times> nat" where
  "zero_run gs =
     foldl (\<lambda>(st, len) i. let l = zero_run_from (drop i gs)
                           in if l \<ge> 2 \<and> l > len then (i, l) else (st, len))
       (8, 0) [0..<8]"

definition hex_join :: "int list \<Rightarrow> string" where
  "hex_join gs = join_with '':'' (map (digits_of 16) gs)"

definition ip_string :: "ip_addr \<Rightarrow> string" where
  "ip_string ip =
     (if is_v4 ip then
        join_with ''.'' (map (\<lambda>k. digits_of 10 (ip div 256 ^ k mod 256)) [3::nat, 2, 1, 0])
      else
        let gs = map (group_at ip) [0..<8]; (st, len) = zero_run gs
        in if len = 0 then hex_join gs
           else hex_join (take st gs) @ ''::'' @ hex_join (drop (st + len) gs))"

section \<open>Networks\<close>

record ip_net =
  net_ip :: ip_addr
  net_bits :: nat

definition mask_ip :: "nat \<Rightarrow> ip_addr \<Rightarrow> ip_addr" where
  "mask_ip bits ip = ip div 2 ^ (128 - bits) * 2 ^ (128 - bits)"

definition parse_cidr :: "string \<Rightarrow> ip_net option" where
  "parse_cidr s =
     (case cut (CHR ''/'') s of
        (_, None) \<Rightarrow> None
      | (addr, Some bits_text) \<Rightarrow>
          (case parse_ip addr of
             None \<Rightarrow> None
           | Some ip \<Rightarrow>
               if bits_text = [] \<or> \<not> list_all is_digit bits_text then None
               else let n = decimal_value bits_text;
                        v4text = (CHR '':'' \<notin> set addr);
                        bits = (if v4text then 96 + nat n else nat n)
                    in if n > (if v4text then 32 else 128) then None
                       else Some \<lparr>net_ip = mask_ip bits ip, net_bits = bits\<rparr>))"

definition net_contains :: "ip_net \<Rightarrow> ip_addr \<Rightarrow> bool" where
  "net_contains n ip \<longleftrightarrow>
     is_v4 (net_ip n) = is_v4 ip \<and> mask_ip (net_bits n) ip = net_ip n"

definition is_loopback :: "ip_addr \<Rightarrow> bool" where
  "is_loopback ip = (if is_v4 ip then ip div 2 ^ 24 mod 256 = 127 else ip = 1)"

definition is_unspecified :: "ip_addr \<Rightarrow> bool" where
  "is_unspecified ip \<longleftrightarrow> ip = 0 \<or> ip = v4_prefix"

section \<open>\<^verbatim>\<open>net.SplitHostPort\<close>\<close>

definition last_index_byte :: "string \<Rightarrow> char \<Rightarrow> nat option" where
  "last_index_byte s b = map_option (\<lambda>k. length s - 1 - k) (index_byte (rev s) b)"

definition split_host_port :: "string \<Rightarrow> (string \<times> string) option" where
  "split_host_port hp =
     (case last_index_byte hp (CHR '':'') of
        None \<Rightarrow> None
      | Some i \<Rightarrow>
          if hd hp = CHR ''['' then
            (case index_byte hp (CHR '']'') of
               None \<Rightarrow> None
             | Some e \<Rightarrow>
                 if e + 1 \<noteq> i then None
                 else if CHR ''['' \<in> set (drop 1 hp) \<or> CHR '']'' \<in> set (drop (e + 1) hp) then None
                 else Some (drop 1 (take e hp), drop (i + 1) hp))
          else
            let host = take i hp in
            if CHR '':'' \<in> set host then None
            else if CHR ''['' \<in> set hp \<or> CHR '']'' \<in> set hp then None
            else Some (host, drop (i + 1) hp))"

section \<open>Lemmas\<close>

lemma mask_ip_idem: "mask_ip n (mask_ip n ip) = mask_ip n ip"
  by (simp add: mask_ip_def)

lemma mask_ip_full: "mask_ip 128 ip = ip"
  by (simp add: mask_ip_def)

lemma parse_ip_Nil [simp]: "parse_ip [] = None"
  by (simp add: parse_ip_def)

lemma split_host_port_no_colon: "CHR '':'' \<notin> set hp \<Longrightarrow> split_host_port hp = None"
proof -
  have "index_byte s b = None" if "b \<notin> set s" for s b
    using that by (induction s) auto
  then show "CHR '':'' \<notin> set hp \<Longrightarrow> ?thesis"
    by (simp add: split_host_port_def last_index_byte_def)
qed

subsection \<open>The characters of a printed address\<close>

lemma set_join_with: "set (join_with sep ws) \<subseteq> set sep \<union> (\<Union>w \<in> set ws. set w)"
  by (induction sep ws rule: join_with.induct) auto

definition hex_digits :: string where "hex_digits = ''0123456789abcdef''"

lemma digit_char_hex: "0 \<le> d \<Longrightarrow> d < 16 \<Longrightarrow> digit_char d \<in> set hex_digits"
proof -
  have "list_all (\<lambda>d. digit_char d \<in> set hex_digits) [0..15]" by code_simp
  moreover assume "0 \<le> d" "d < 16"
  ultimately show ?thesis by (auto simp: list_all_iff)
qed

lemma digits_of_chars:
  "0 \<le> n \<Longrightarrow> 2 \<le> b \<Longrightarrow> b \<le> 16 \<Longrightarrow> set (digits_of b n) \<subseteq> set hex_digits \<and> digits_of b n \<noteq> []"
proof (induction b n rule: digits_of.induct)
  case (1 b n)
  show ?case
  proof (cases "n < b")
    case True
    with "1.prems" show ?thesis
      using digit_char_hex [of n] by (simp add: digits_of.simps [of b n])
  next
    case False
    have lt: "n mod b < b" using "1.prems" by (intro pos_mod_bound) simp
    have m: "0 \<le> n mod b" "n mod b < 16"
      using "1.prems" less_le_trans [OF lt] by simp_all
    have "set (digits_of b (n div b)) \<subseteq> set hex_digits"
      using "1.IH" "1.prems" False by (simp add: pos_imp_zdiv_nonneg_iff)
    then show ?thesis
      using "1.prems" False digit_char_hex [OF m] by (simp add: digits_of.simps [of b n])
  qed
qed

lemma hex_join_chars:
  assumes "\<And>g. g \<in> set gs \<Longrightarrow> 0 \<le> g"
  shows "set (hex_join gs) \<subseteq> set (hex_digits @ '':'')"
proof -
  have "set (digits_of 16 g) \<subseteq> set hex_digits" if "g \<in> set gs" for g
    using digits_of_chars [of g 16] assms [OF that] by simp
  then show ?thesis
    using set_join_with [of "'':''" "map (digits_of 16) gs"] by (force simp: hex_join_def)
qed

lemma ip_string_v4:
  assumes "is_v4 ip"
  shows "set (ip_string ip) \<subseteq> set (hex_digits @ ''.'')" "ip_string ip \<noteq> []"
    "last (ip_string ip) \<in> set hex_digits"
proof -
  let ?ws = "map (\<lambda>k. digits_of 10 (ip div 256 ^ k mod 256)) [3::nat, 2, 1, 0]"
  have w: "set v \<subseteq> set hex_digits \<and> v \<noteq> []" if vw: "v \<in> set ?ws" for v
  proof -
    obtain k :: nat where "v = digits_of 10 (ip div 256 ^ k mod 256)" using vw unfolding set_map by blast
    then show ?thesis using digits_of_chars [of "ip div 256 ^ k mod 256" 10] by simp
  qed
  have s: "ip_string ip = join_with ''.'' ?ws" using assms by (simp add: ip_string_def)
  show "set (ip_string ip) \<subseteq> set (hex_digits @ ''.'')"
  proof -
    have "(\<Union>v \<in> set ?ws. set v) \<subseteq> set hex_digits" using w by blast
    then show ?thesis using set_join_with [of "''.''" ?ws] unfolding s set_append by blast
  qed
  have ne: "[] \<notin> set ?ws" using w by blast
  show "ip_string ip \<noteq> []" unfolding s using ne by (simp add: join_with_eq_Nil)
  have "last (last ?ws) \<in> set (last ?ws)" using w [of "last ?ws"] by (intro last_in_set) simp
  moreover have "last (join_with ''.'' ?ws) = last (last ?ws)" using ne by (intro last_join_with) auto
  ultimately show "last (ip_string ip) \<in> set hex_digits"
    unfolding s using w [of "last ?ws"] by auto
qed

lemma ip_string_v6:
  assumes "\<not> is_v4 ip"
  shows "set (ip_string ip) \<subseteq> set (hex_digits @ '':'')" "ip_string ip \<noteq> []"
proof -
  let ?gs = "map (group_at ip) [0..<8]"
  have nn: "0 \<le> g" if "g \<in> set ?gs" for g using that by (auto simp: group_at_def)
  have tk: "set (hex_join (take n ?gs)) \<subseteq> set (hex_digits @ '':'')"
    "set (hex_join (drop n ?gs)) \<subseteq> set (hex_digits @ '':'')"
    "set (hex_join ?gs) \<subseteq> set (hex_digits @ '':'')" for n
    using nn by (auto intro!: hex_join_chars dest: in_set_takeD in_set_dropD simp del: set_append)
  obtain st len where z: "zero_run ?gs = (st, len)" by (cases "zero_run ?gs")
  have s: "ip_string ip = (if len = 0 then hex_join ?gs
      else hex_join (take st ?gs) @ ''::'' @ hex_join (drop (st + len) ?gs))"
    using assms z by (simp add: ip_string_def Let_def)
  show "set (ip_string ip) \<subseteq> set (hex_digits @ '':'')"
    unfolding s using tk by (simp add: set_append)
  have "[] \<notin> set (map (digits_of 16) ?gs)" using nn digits_of_chars [of _ 16] by fastforce
  then have "join_with '':'' (map (digits_of 16) ?gs) \<noteq> []" by (subst join_with_eq_Nil) auto
  then have "hex_join ?gs \<noteq> []" unfolding hex_join_def .
  then show "ip_string ip \<noteq> []" unfolding s by simp
qed

end
