(* ===== verification/Lru_Cache.thy ===== *)
theory Lru_Cache
  imports Http_Header Request_Path
begin

text \<open>
  The shared response cache of EdgeProxy, \<^verbatim>\<open>apps/edgeproxy/internal/cache/cache.go\<close>.

  The state \<open>lru_cache\<close> keeps the two Go structures side by side: the recency list
  (\<^verbatim>\<open>container/list\<close>, front first) and the index map from keys to list elements. An
  element carries an identity (its address) so that removal is by pointer, as in Go.
  \<open>cache_inv\<close> says how the two agree and bounds the memory; \<open>lru_view\<close> forgets the
  pointers and gives the abstract cache (an association list, most recent first) that the
  refinement theorems use. The eviction loop of \<open>cache_set\<close> is a
  \<^theory_text>\<open>partial_function\<close>: it is proved to return whenever \<open>maxEntries\<close> is not negative.
  \<^verbatim>\<open>url.ParseRequestURI\<close> and the key parser passed by the caller are parameters.
\<close>

section \<open>State\<close>

record cache_entry =
  ce_status :: int
  ce_header :: header
  ce_body :: string
  ce_stored_at :: time
  ce_expires_at :: time
  ce_stale_until :: time

definition zero_entry :: cache_entry where
  "zero_entry = \<lparr>ce_status = 0, ce_header = [], ce_body = [], ce_stored_at = 0,
     ce_expires_at = 0, ce_stale_until = 0\<rparr>"

definition entry_size :: "cache_entry \<Rightarrow> int" where
  "entry_size e = int (length (ce_body e)) +
     (\<Sum>(k, values) \<leftarrow> ce_header e. int (length k) + (\<Sum>v \<leftarrow> values. int (length v)))"

record cache_item =
  it_key :: string
  it_entry :: cache_entry
  it_size :: int

record cache_element =
  el_id :: nat
  el_item :: cache_item

record cache_stats =
  st_entries :: int
  st_bytes :: int
  st_evictions :: "64 word"

record lru_cache =
  lc_max_entries :: int
  lc_max_bytes :: int
  lc_bytes :: int
  lc_ll :: "cache_element list"
  lc_items :: "(string, cache_element) gomap"
  lc_evictions :: "64 word"
  lc_fresh :: nat

definition new_cache :: "int \<Rightarrow> int \<Rightarrow> lru_cache" where
  "new_cache max_entries max_bytes =
     \<lparr>lc_max_entries = max_entries, lc_max_bytes = max_bytes, lc_bytes = 0, lc_ll = [],
      lc_items = [], lc_evictions = 0, lc_fresh = 0\<rparr>"

section \<open>Operations\<close>

definition list_remove :: "cache_element \<Rightarrow> cache_element list \<Rightarrow> cache_element list" where
  "list_remove e ll = filter (\<lambda>x. el_id x \<noteq> el_id e) ll"

definition remove_element :: "cache_element \<Rightarrow> bool \<Rightarrow> lru_cache \<Rightarrow> lru_cache" where
  "remove_element elem eviction c =
     (let it = el_item elem in
      c\<lparr>lc_items := gm_del (it_key it) (lc_items c),
        lc_ll := list_remove elem (lc_ll c),
        lc_bytes := lc_bytes c - it_size it,
        lc_evictions := (if eviction then lc_evictions c + 1 else lc_evictions c)\<rparr>)"

definition remove_oldest :: "lru_cache \<Rightarrow> lru_cache" where
  "remove_oldest c = (if lc_ll c = [] then c else remove_element (last (lc_ll c)) True c)"

definition cache_get ::
  "string \<Rightarrow> time \<Rightarrow> lru_cache \<Rightarrow> (cache_entry \<times> bool \<times> bool) \<times> lru_cache" where
  "cache_get key now c =
     (case gm_get (lc_items c) key of
        None \<Rightarrow> ((zero_entry, False, False), c)
      | Some elem \<Rightarrow>
          let it = el_item elem in
          if now > ce_stale_until (it_entry it)
          then ((zero_entry, False, False), remove_element elem False c)
          else
            let c' = c\<lparr>lc_ll := elem # list_remove elem (lc_ll c)\<rparr> in
            if now < ce_expires_at (it_entry it) \<or> now = ce_expires_at (it_entry it)
            then ((it_entry it, True, False), c')
            else ((it_entry it, False, True), c'))"

partial_function (option) evict_loop :: "lru_cache \<Rightarrow> lru_cache option" where
  "evict_loop c =
     (if int (length (lc_ll c)) > lc_max_entries c \<or> lc_bytes c > lc_max_bytes c
      then evict_loop (remove_oldest c) else Some c)"

declare evict_loop.simps [code]

definition push_entry :: "string \<Rightarrow> cache_entry \<Rightarrow> int \<Rightarrow> lru_cache \<Rightarrow> lru_cache" where
  "push_entry key entry sz c =
     (let elem = \<lparr>el_id = lc_fresh c,
                  el_item = \<lparr>it_key = key, it_entry = entry, it_size = sz\<rparr>\<rparr>
      in c\<lparr>lc_ll := elem # lc_ll c, lc_items := gm_put key elem (lc_items c),
           lc_bytes := lc_bytes c + sz, lc_fresh := Suc (lc_fresh c)\<rparr>)"

definition cache_set :: "string \<Rightarrow> cache_entry \<Rightarrow> lru_cache \<Rightarrow> (bool \<times> lru_cache) option" where
  "cache_set key entry c =
     (let sz = entry_size entry + int (length key) in
      if sz \<le> 0 \<or> sz > lc_max_bytes c then Some (False, c)
      else
        let c1 = (case gm_get (lc_items c) key of
                    Some elem \<Rightarrow> remove_element elem False c | None \<Rightarrow> c)
        in map_option (\<lambda>c'. (True, c')) (evict_loop (push_entry key entry sz c1)))"

definition cache_delete :: "string \<Rightarrow> lru_cache \<Rightarrow> bool \<times> lru_cache" where
  "cache_delete key c =
     (case gm_get (lc_items c) key of
        None \<Rightarrow> (False, c)
      | Some elem \<Rightarrow> (True, remove_element elem False c))"

text \<open>The \<^verbatim>\<open>range\<close> loops of \<^verbatim>\<open>Purge\<close> and \<^verbatim>\<open>PurgeRequest\<close>: every entry of the map is
  visited once, the selected ones are removed and counted.\<close>

fun purge_loop ::
  "(string \<Rightarrow> bool) \<Rightarrow> (string \<times> cache_element) list \<Rightarrow> nat \<times> lru_cache \<Rightarrow> nat \<times> lru_cache" where
  "purge_loop sel [] acc = acc"
| "purge_loop sel ((key, elem) # rest) (count, c) =
     (if sel key then purge_loop sel rest (Suc count, remove_element elem False c)
      else purge_loop sel rest (count, c))"

definition purge_path_matches :: "(string \<Rightarrow> string option) \<Rightarrow> string \<Rightarrow> string \<Rightarrow> bool" where
  "purge_path_matches parse_request_uri request_uri pre =
     (case parse_request_uri request_uri of
        None \<Rightarrow> False
      | Some parsed_path \<Rightarrow>
          let request_path = canonical_request_path parsed_path in
          if pre = ''/'' \<or> request_path = pre then True
          else has_prefix request_path pre \<and> length request_path > length pre
               \<and> request_path ! length pre = CHR ''/'')"

definition purge_selects ::
  "(string \<Rightarrow> string option) \<Rightarrow> string \<Rightarrow> string \<Rightarrow> (string \<Rightarrow> (string \<times> string) option)
     \<Rightarrow> string \<Rightarrow> bool" where
  "purge_selects parse_request_uri host path_prefix key_request key =
     (case key_request key of
        None \<Rightarrow> False
      | Some (key_host, request_uri) \<Rightarrow>
          if host \<noteq> [] \<and> key_host \<noteq> host then False
          else if path_prefix \<noteq> [] \<and>
                  \<not> purge_path_matches parse_request_uri request_uri path_prefix then False
          else True)"

definition cache_purge ::
  "(string \<Rightarrow> string option) \<Rightarrow> string \<Rightarrow> string \<Rightarrow> (string \<Rightarrow> (string \<times> string) option)
     \<Rightarrow> lru_cache \<Rightarrow> nat \<times> lru_cache" where
  "cache_purge parse_request_uri host path_prefix key_request c =
     purge_loop
       (purge_selects parse_request_uri (to_lower (trim_space host)) path_prefix key_request)
       (lc_items c) (0, c)"

definition purge_request_selects ::
  "string \<Rightarrow> string \<Rightarrow> (string \<Rightarrow> (string \<times> string) option) \<Rightarrow> string \<Rightarrow> bool" where
  "purge_request_selects host request_uri key_request key =
     (case key_request key of
        None \<Rightarrow> False
      | Some (key_host, key_uri) \<Rightarrow> key_host = host \<and> key_uri = request_uri)"

definition cache_purge_request ::
  "string \<Rightarrow> string \<Rightarrow> (string \<Rightarrow> (string \<times> string) option) \<Rightarrow> lru_cache
     \<Rightarrow> nat \<times> lru_cache" where
  "cache_purge_request host request_uri key_request c =
     purge_loop (purge_request_selects (to_lower (trim_space host)) request_uri key_request)
       (lc_items c) (0, c)"

definition cache_clear :: "lru_cache \<Rightarrow> nat \<times> lru_cache" where
  "cache_clear c = (length (lc_items c), c\<lparr>lc_ll := [], lc_items := [], lc_bytes := 0\<rparr>)"

definition cache_stats_of :: "lru_cache \<Rightarrow> cache_stats" where
  "cache_stats_of c = \<lparr>st_entries = int (length (lc_ll c)), st_bytes = lc_bytes c,
     st_evictions = lc_evictions c\<rparr>"

text \<open>One call of the exported interface, for runs of arbitrary operations.\<close>

datatype cache_op =
    OpGet string time
  | OpSet string cache_entry
  | OpDelete string
  | OpPurge "string \<Rightarrow> bool"
  | OpClear

fun cache_apply :: "cache_op \<Rightarrow> lru_cache \<Rightarrow> lru_cache option" where
  "cache_apply (OpGet key now) c = Some (snd (cache_get key now c))"
| "cache_apply (OpSet key entry) c = map_option snd (cache_set key entry c)"
| "cache_apply (OpDelete key) c = Some (snd (cache_delete key c))"
| "cache_apply (OpPurge sel) c = Some (snd (purge_loop sel (lc_items c) (0, c)))"
| "cache_apply OpClear c = Some (snd (cache_clear c))"

fun cache_run :: "cache_op list \<Rightarrow> lru_cache \<Rightarrow> lru_cache option" where
  "cache_run [] c = Some c"
| "cache_run (x # xs) c = Option.bind (cache_apply x c) (cache_run xs)"

section \<open>Invariant and abstraction\<close>

definition el_key :: "cache_element \<Rightarrow> string" where "el_key e = it_key (el_item e)"
definition el_size :: "cache_element \<Rightarrow> int" where "el_size e = it_size (el_item e)"

definition index_inv :: "lru_cache \<Rightarrow> bool" where
  "index_inv c \<longleftrightarrow>
     gm_inv (lc_items c) \<and> distinct (map el_id (lc_ll c))
     \<and> (\<forall>e \<in> set (lc_ll c). el_id e < lc_fresh c)
     \<and> (\<forall>k e. gm_get (lc_items c) k = Some e \<longleftrightarrow> e \<in> set (lc_ll c) \<and> el_key e = k)
     \<and> (\<forall>e \<in> set (lc_ll c).
          entry_size (it_entry (el_item e)) + int (length (el_key e)) = el_size e \<and> 0 < el_size e)
     \<and> lc_bytes c = (\<Sum>e \<leftarrow> lc_ll c. el_size e)"

definition cache_bounded :: "lru_cache \<Rightarrow> bool" where
  "cache_bounded c \<longleftrightarrow>
     int (length (lc_ll c)) \<le> lc_max_entries c \<and> lc_bytes c \<le> lc_max_bytes c"

definition cache_inv :: "lru_cache \<Rightarrow> bool" where
  "cache_inv c \<longleftrightarrow> index_inv c \<and> cache_bounded c"

definition lru_view :: "lru_cache \<Rightarrow> (string \<times> cache_entry) list" where
  "lru_view c = map (\<lambda>e. (el_key e, it_entry (el_item e))) (lc_ll c)"

text \<open>The abstract cache: an association list, most recently used entry first.\<close>

definition spec_remove :: "string \<Rightarrow> (string \<times> 'e) list \<Rightarrow> (string \<times> 'e) list" where
  "spec_remove k xs = filter (\<lambda>x. fst x \<noteq> k) xs"

definition spec_get ::
  "string \<Rightarrow> time \<Rightarrow> (string \<times> cache_entry) list
     \<Rightarrow> (cache_entry \<times> bool \<times> bool) \<times> (string \<times> cache_entry) list" where
  "spec_get key now xs =
     (case map_of xs key of
        None \<Rightarrow> ((zero_entry, False, False), xs)
      | Some e \<Rightarrow>
          if now > ce_stale_until e then ((zero_entry, False, False), spec_remove key xs)
          else ((e, now \<le> ce_expires_at e, \<not> now \<le> ce_expires_at e),
                (key, e) # spec_remove key xs))"

text \<open>The longest prefix (the most recent entries) that fits both limits.\<close>

fun fit :: "int \<Rightarrow> int \<Rightarrow> (string \<times> cache_entry) list \<Rightarrow> (string \<times> cache_entry) list" where
  "fit n b [] = []"
| "fit n b ((k, e) # xs) =
     (let s = entry_size e + int (length k) in
      if n < 1 \<or> b < s then [] else (k, e) # fit (n - 1) (b - s) xs)"

definition spec_set ::
  "int \<Rightarrow> int \<Rightarrow> string \<Rightarrow> cache_entry \<Rightarrow> (string \<times> cache_entry) list
     \<Rightarrow> bool \<times> (string \<times> cache_entry) list" where
  "spec_set max_entries max_bytes key entry xs =
     (let s = entry_size entry + int (length key) in
      if s \<le> 0 \<or> s > max_bytes then (False, xs)
      else (True, fit max_entries max_bytes ((key, entry) # spec_remove key xs)))"

section \<open>Lemmas\<close>

lemma list_remove_set:
  assumes "distinct (map el_id ll)" "e \<in> set ll"
  shows "set (list_remove e ll) = set ll - {e}"
  using assms by (auto simp: list_remove_def distinct_map inj_on_def)

lemma list_remove_sum:
  fixes f :: "cache_element \<Rightarrow> int"
  assumes "distinct (map el_id ll)" "e \<in> set ll"
  shows "(\<Sum>x \<leftarrow> list_remove e ll. f x) = (\<Sum>x \<leftarrow> ll. f x) - f e"
  using assms
proof (induction ll)
  case (Cons a ll)
  show ?case
  proof (cases "a = e")
    case True
    with Cons.prems have "filter (\<lambda>x. el_id x \<noteq> el_id e) ll = ll"
      by (auto simp: filter_id_conv) (metis imageI)
    with True show ?thesis by (simp add: list_remove_def)
  next
    case False
    with Cons.prems have "e \<in> set ll" "el_id a \<noteq> el_id e" by force+
    with Cons show ?thesis by (simp add: list_remove_def)
  qed
qed simp

lemma length_list_remove: "length (list_remove e ll) \<le> length ll"
  by (simp add: list_remove_def)

lemma index_inv_items:
  "index_inv c \<Longrightarrow> gm_get (lc_items c) k = Some e \<Longrightarrow> e \<in> set (lc_ll c) \<and> el_key e = k"
  by (simp add: index_inv_def)

lemma index_inv_distinct_keys:
  assumes "index_inv c" shows "distinct (map el_key (lc_ll c))"
proof -
  have "inj_on el_key (set (lc_ll c))"
    using assms by (auto simp: index_inv_def inj_on_def) (metis option.inject)
  moreover have "distinct (lc_ll c)"
    using assms by (simp add: index_inv_def distinct_map)
  ultimately show ?thesis by (simp add: distinct_map)
qed

lemma index_inv_remove:
  assumes inv: "index_inv c" and e: "e \<in> set (lc_ll c)"
  shows "index_inv (remove_element e ev c)"
proof -
  have d: "distinct (map el_id (lc_ll c))" using inv by (simp add: index_inv_def)
  have "(\<Sum>x \<leftarrow> list_remove e (lc_ll c). el_size x) = lc_bytes c - el_size e"
    using inv list_remove_sum [OF d e] by (simp add: index_inv_def)
  moreover have "distinct (map el_id (list_remove e (lc_ll c)))"
    using d by (simp add: list_remove_def distinct_map_filter)
  moreover have "\<And>k x. (if k = el_key e then None else gm_get (lc_items c) k) = Some x \<longleftrightarrow>
      (x \<in> set (lc_ll c) - {e} \<and> el_key x = k)"
    using inv e by (auto simp: index_inv_def) (metis option.inject)
  ultimately show ?thesis
    using inv by (auto simp: index_inv_def remove_element_def Let_def list_remove_set [OF d e]
        go_map_simps el_key_def el_size_def)
qed

lemma remove_element_simps:
  "lc_max_entries (remove_element e ev c) = lc_max_entries c"
  "lc_max_bytes (remove_element e ev c) = lc_max_bytes c"
  "gm_get (lc_items (remove_element e ev c)) = (gm_get (lc_items c))(el_key e := None)"
  "lc_ll (remove_element e ev c) = list_remove e (lc_ll c)"
  by (simp_all add: remove_element_def Let_def go_map_simps el_key_def)

lemma cache_bounded_remove:
  "index_inv c \<Longrightarrow> e \<in> set (lc_ll c) \<Longrightarrow> cache_bounded c \<Longrightarrow>
     cache_bounded (remove_element e ev c)"
  using length_list_remove [of e "lc_ll c"]
  by (fastforce simp: cache_bounded_def remove_element_def Let_def index_inv_def el_size_def)

lemma index_inv_touch:
  assumes "index_inv c" "e \<in> set (lc_ll c)"
  shows "index_inv (c\<lparr>lc_ll := e # list_remove e (lc_ll c)\<rparr>)"
proof -
  have d: "distinct (map el_id (lc_ll c))" using assms by (simp add: index_inv_def)
  have "set (e # list_remove e (lc_ll c)) = set (lc_ll c)"
    using assms by (auto simp: list_remove_set [OF d])
  moreover have "distinct (map el_id (e # list_remove e (lc_ll c)))"
    using d by (auto simp: list_remove_def distinct_map_filter)
  moreover have "(\<Sum>x \<leftarrow> e # list_remove e (lc_ll c). el_size x) = lc_bytes c"
    using assms list_remove_sum [OF d assms(2)] by (simp add: index_inv_def)
  ultimately show ?thesis using assms unfolding index_inv_def by simp
qed

lemma length_touch:
  assumes "distinct (map el_id ll)" "e \<in> set ll"
  shows "length (e # list_remove e ll) = length ll"
proof -
  have "distinct (list_remove e ll)" "distinct ll" "distinct (e # list_remove e ll)"
    using assms by (auto simp: list_remove_def distinct_map)
  then have "length (e # list_remove e ll) = card (set (e # list_remove e ll))"
    and "length ll = card (set ll)" by (simp_all only: distinct_card)
  moreover have "set (e # list_remove e ll) = set ll"
    using assms list_remove_set by auto
  ultimately show ?thesis by simp
qed

lemma index_inv_push:
  assumes inv: "index_inv c" and k: "gm_get (lc_items c) key = None"
    and s: "sz = entry_size entry + int (length key)" "0 < sz"
  shows "index_inv (push_entry key entry sz c)"
proof -
  let ?e = "\<lparr>el_id = lc_fresh c, el_item = \<lparr>it_key = key, it_entry = entry, it_size = sz\<rparr>\<rparr>"
  have new: "el_id x \<noteq> lc_fresh c" "el_key x \<noteq> key" if "x \<in> set (lc_ll c)" for x
    using inv k that by (auto simp: index_inv_def) (metis option.distinct(1))
  then have "?e \<notin> set (lc_ll c)" by force
  with new have "((gm_get (lc_items c))(key \<mapsto> ?e)) j = Some x \<longleftrightarrow>
      x \<in> set (?e # lc_ll c) \<and> el_key x = j" for j x
    using inv by (auto simp: index_inv_def el_key_def)
  moreover have "distinct (map el_id (?e # lc_ll c))"
    using inv new by (auto simp: index_inv_def)
  ultimately show ?thesis
    using inv s by (auto simp: index_inv_def push_entry_def Let_def go_map_simps el_key_def el_size_def)
qed

subsection \<open>The view\<close>

lemma view_distinct: "index_inv c \<Longrightarrow> distinct (map fst (lru_view c))"
  by (simp add: lru_view_def comp_def index_inv_distinct_keys)

lemma view_lookup:
  assumes "index_inv c"
  shows "map_of (lru_view c) k = map_option (\<lambda>e. it_entry (el_item e)) (gm_get (lc_items c) k)"
proof (cases "gm_get (lc_items c) k")
  case None
  then have "k \<notin> fst ` set (lru_view c)"
    using assms by (auto simp: lru_view_def index_inv_def) (metis option.distinct(1))
  with None show ?thesis by (simp add: map_of_eq_None_iff)
next
  case (Some e)
  then have "(k, it_entry (el_item e)) \<in> set (lru_view c)"
    using index_inv_items [OF assms Some] by (force simp: lru_view_def)
  with Some view_distinct [OF assms] show ?thesis by simp
qed

lemma view_remove:
  assumes "index_inv c" "e \<in> set (lc_ll c)"
  shows "map (\<lambda>e. (el_key e, it_entry (el_item e))) (list_remove e (lc_ll c)) =
    spec_remove (el_key e) (lru_view c)"
proof -
  have "\<forall>x \<in> set (lc_ll c). (el_id x \<noteq> el_id e) = (el_key x \<noteq> el_key e)"
    using assms index_inv_distinct_keys [OF assms(1)]
    by (auto simp: index_inv_def distinct_map inj_on_def)
  then show ?thesis
    by (simp add: lru_view_def spec_remove_def list_remove_def filter_map comp_def cong: filter_cong)
qed

lemma view_remove_element:
  "index_inv c \<Longrightarrow> e \<in> set (lc_ll c) \<Longrightarrow>
     lru_view (remove_element e ev c) = spec_remove (el_key e) (lru_view c)"
  using view_remove [of c e] by (simp add: lru_view_def remove_element_def Let_def)

lemma view_push:
  "lru_view (push_entry key entry sz c) = (key, entry) # lru_view c"
  by (simp add: lru_view_def push_entry_def Let_def el_key_def)

lemma push_entry_limits:
  "lc_max_entries (push_entry key entry sz c) = lc_max_entries c"
  "lc_max_bytes (push_entry key entry sz c) = lc_max_bytes c"
  by (simp_all add: push_entry_def Let_def)

lemma spec_remove_absent: "map_of xs k = None \<Longrightarrow> spec_remove k xs = xs"
  by (auto simp: spec_remove_def map_of_eq_None_iff filter_id_conv)

lemma cache_get_refines:
  assumes "index_inv c"
  shows "fst (cache_get key now c) = fst (spec_get key now (lru_view c))
    \<and> lru_view (snd (cache_get key now c)) = snd (spec_get key now (lru_view c))"
proof (cases "gm_get (lc_items c) key")
  case None
  with view_lookup [OF assms, of key] show ?thesis
    by (simp add: cache_get_def spec_get_def)
next
  case (Some e)
  then have e: "e \<in> set (lc_ll c)" "el_key e = key"
    using index_inv_items [OF assms] by auto
  have "lru_view (c\<lparr>lc_ll := e # list_remove e (lc_ll c)\<rparr>) =
      (key, it_entry (el_item e)) # spec_remove key (lru_view c)"
    using view_remove [OF assms e(1)] e(2) by (simp add: lru_view_def)
  with Some e view_lookup [OF assms, of key] view_remove_element [OF assms e(1)] show ?thesis
    by (auto simp: cache_get_def spec_get_def Let_def)
qed

subsection \<open>Eviction\<close>

definition view_bytes :: "(string \<times> cache_entry) list \<Rightarrow> int" where
  "view_bytes xs = (\<Sum>(k, e) \<leftarrow> xs. entry_size e + int (length k))"

definition sizes_pos :: "(string \<times> cache_entry) list \<Rightarrow> bool" where
  "sizes_pos xs \<longleftrightarrow> (\<forall>(k, e) \<in> set xs. 0 < entry_size e + int (length k))"

lemma view_bytes_nonneg: "sizes_pos xs \<Longrightarrow> 0 \<le> view_bytes xs"
  by (induction xs) (auto simp: view_bytes_def sizes_pos_def)

lemma fit_all: "sizes_pos xs \<Longrightarrow> int (length xs) \<le> n \<Longrightarrow> view_bytes xs \<le> b \<Longrightarrow> fit n b xs = xs"
proof (induction xs arbitrary: n b)
  case (Cons x xs)
  have "0 \<le> view_bytes xs" using Cons.prems view_bytes_nonneg by (simp add: sizes_pos_def)
  with Cons show ?case
    by (cases x) (auto simp: sizes_pos_def view_bytes_def Let_def)
qed simp

lemma fit_drop_last:
  "sizes_pos (xs @ [x]) \<Longrightarrow> int (length (xs @ [x])) > n \<or> view_bytes (xs @ [x]) > b \<Longrightarrow>
     fit n b (xs @ [x]) = fit n b xs"
proof (induction xs arbitrary: n b)
  case (Cons y ys)
  obtain k e where y: "y = (k, e)" by (cases y)
  have "sizes_pos (ys @ [x])" using Cons.prems by (simp add: sizes_pos_def)
  moreover have "int (length (ys @ [x])) > n - 1 \<or>
      view_bytes (ys @ [x]) > b - (entry_size e + int (length k))"
    using Cons.prems y by (auto simp: view_bytes_def)
  ultimately show ?case using Cons.IH y by (simp add: Let_def)
next
  case Nil
  then show ?case by (cases x) (auto simp: view_bytes_def Let_def)
qed

lemma index_inv_sizes:
  assumes "index_inv c"
  shows "sizes_pos (lru_view c)" "view_bytes (lru_view c) = lc_bytes c"
proof -
  have "view_bytes (lru_view c) =
      (\<Sum>e \<leftarrow> lc_ll c. entry_size (it_entry (el_item e)) + int (length (el_key e)))"
    by (simp add: view_bytes_def lru_view_def comp_def)
  also have "\<dots> = (\<Sum>e \<leftarrow> lc_ll c. el_size e)"
    using assms by (intro arg_cong [of _ _ sum_list] map_cong) (auto simp: index_inv_def)
  finally have "view_bytes (lru_view c) = (\<Sum>e \<leftarrow> lc_ll c. el_size e)" .
  with assms show "view_bytes (lru_view c) = lc_bytes c" by (simp add: index_inv_def)
  show "sizes_pos (lru_view c)"
    using assms by (fastforce simp: sizes_pos_def lru_view_def index_inv_def)
qed

lemma remove_oldest_view:
  assumes "index_inv c" "lc_ll c \<noteq> []"
  shows "index_inv (remove_oldest c)" "lru_view (remove_oldest c) = butlast (lru_view c)"
    "length (lc_ll (remove_oldest c)) < length (lc_ll c)"
proof -
  let ?e = "last (lc_ll c)"
  have e: "?e \<in> set (lc_ll c)" using assms(2) by simp
  show "index_inv (remove_oldest c)"
    using index_inv_remove [OF assms(1) e] assms(2) by (simp add: remove_oldest_def)
  obtain xs x where ll: "lc_ll c = xs @ [x]" using assms(2) by (metis append_butlast_last_id)
  have "distinct (map el_id (lc_ll c))" using assms(1) by (simp add: index_inv_def)
  then have "list_remove ?e (lc_ll c) = xs"
    unfolding ll by (auto simp: list_remove_def filter_id_conv) (metis imageI)
  with ll show "lru_view (remove_oldest c) = butlast (lru_view c)"
    "length (lc_ll (remove_oldest c)) < length (lc_ll c)"
    by (simp_all add: remove_oldest_def remove_element_def Let_def lru_view_def)
qed

lemma remove_oldest_limits [simp]:
  "lc_max_entries (remove_oldest c) = lc_max_entries c"
  "lc_max_bytes (remove_oldest c) = lc_max_bytes c"
  by (simp_all add: remove_oldest_def remove_element_def Let_def)

lemma evict_loop_correct:
  assumes "index_inv c" "0 \<le> lc_max_entries c" "0 \<le> lc_max_bytes c"
  shows "\<exists>c'. evict_loop c = Some c' \<and> cache_inv c' \<and>
    lru_view c' = fit (lc_max_entries c) (lc_max_bytes c) (lru_view c) \<and>
    lc_max_entries c' = lc_max_entries c \<and> lc_max_bytes c' = lc_max_bytes c"
  using assms
proof (induction "length (lc_ll c)" arbitrary: c rule: less_induct)
  case (less c)
  show ?case
  proof (cases "int (length (lc_ll c)) > lc_max_entries c \<or> lc_bytes c > lc_max_bytes c")
    case False
    have "fit (lc_max_entries c) (lc_max_bytes c) (lru_view c) = lru_view c"
      using False index_inv_sizes [OF less.prems(1)]
      by (intro fit_all) (auto simp: lru_view_def)
    with False less.prems show ?thesis
      by (auto simp: evict_loop.simps [of c] cache_inv_def cache_bounded_def)
  next
    case True
    have "lc_bytes c = 0" if "lc_ll c = []"
      using less.prems(1) that by (simp add: index_inv_def)
    with True less.prems have ne: "lc_ll c \<noteq> []" by auto
    note ro = remove_oldest_view [OF less.prems(1) ne]
    have vne: "lru_view c \<noteq> []" using ne by (simp add: lru_view_def)
    then have split: "butlast (lru_view c) @ [last (lru_view c)] = lru_view c" by simp
    have "int (length (lru_view c)) > lc_max_entries c \<or> view_bytes (lru_view c) > lc_max_bytes c"
      using True index_inv_sizes [OF less.prems(1)] by (simp add: lru_view_def)
    then have "fit (lc_max_entries c) (lc_max_bytes c) (lru_view c) =
        fit (lc_max_entries c) (lc_max_bytes c) (butlast (lru_view c))"
      using fit_drop_last [of "butlast (lru_view c)" "last (lru_view c)"]
        index_inv_sizes(1) [OF less.prems(1)] unfolding split by blast
    moreover have "\<exists>c'. evict_loop (remove_oldest c) = Some c' \<and> cache_inv c' \<and>
        lru_view c' = fit (lc_max_entries c) (lc_max_bytes c) (lru_view (remove_oldest c)) \<and>
        lc_max_entries c' = lc_max_entries c \<and> lc_max_bytes c' = lc_max_bytes c"
      using less.hyps [OF ro(3) ro(1)] less.prems by simp
    moreover have "evict_loop c = evict_loop (remove_oldest c)"
      using True by (simp add: evict_loop.simps [of c])
    ultimately show ?thesis using ro(2) by simp
  qed
qed

lemma cache_set_refines:
  assumes inv: "index_inv c" and me: "0 \<le> lc_max_entries c"
  shows "\<exists>ok c'. cache_set key entry c = Some (ok, c') \<and>
    (ok, lru_view c') = spec_set (lc_max_entries c) (lc_max_bytes c) key entry (lru_view c) \<and>
    index_inv c' \<and> (cache_bounded c \<longrightarrow> cache_bounded c') \<and>
    lc_max_entries c' = lc_max_entries c \<and> lc_max_bytes c' = lc_max_bytes c"
proof -
  define sz where "sz = entry_size entry + int (length key)"
  define c1 where "c1 = (case gm_get (lc_items c) key of
      Some elem \<Rightarrow> remove_element elem False c | None \<Rightarrow> c)"
  show ?thesis
  proof (cases "sz \<le> 0 \<or> sz > lc_max_bytes c")
    case True
    then show ?thesis using inv by (auto simp: cache_set_def spec_set_def sz_def Let_def)
  next
    case False
    have c1: "index_inv c1 \<and> gm_get (lc_items c1) key = None \<and>
        lru_view c1 = spec_remove key (lru_view c) \<and>
        lc_max_entries c1 = lc_max_entries c \<and> lc_max_bytes c1 = lc_max_bytes c"
    proof (cases "gm_get (lc_items c) key")
      case None
      then show ?thesis
        using inv view_lookup [OF inv, of key] by (simp add: c1_def spec_remove_absent)
    next
      case (Some e)
      then have e: "e \<in> set (lc_ll c)" "el_key e = key"
        using index_inv_items [OF inv] by auto
      have "c1 = remove_element e False c" using Some by (simp add: c1_def)
      then show ?thesis
        using index_inv_remove [OF inv e(1), of False] view_remove_element [OF inv e(1), of False] e(2)
        by (simp add: remove_element_simps)
    qed
    have "index_inv (push_entry key entry sz c1)"
      using c1 False sz_def by (intro index_inv_push) auto
    from evict_loop_correct [OF this] c1 me False
    obtain c' where "evict_loop (push_entry key entry sz c1) = Some c'" "cache_inv c'"
      "lru_view c' = fit (lc_max_entries c) (lc_max_bytes c) ((key, entry) # spec_remove key (lru_view c))"
      "lc_max_entries c' = lc_max_entries c" "lc_max_bytes c' = lc_max_bytes c"
      by (auto simp: view_push push_entry_limits)
    with False show ?thesis
      by (auto simp: cache_set_def spec_set_def sz_def c1_def Let_def cache_inv_def)
  qed
qed

subsection \<open>Removal by key and by selection\<close>

lemma map_of_spec_remove: "map_of (spec_remove k xs) = (map_of xs)(k := None)"
proof
  fix j show "map_of (spec_remove k xs) j = ((map_of xs)(k := None)) j"
    by (induction xs) (auto simp: spec_remove_def)
qed

lemma purge_loop_correct:
  assumes "index_inv c" "distinct (map fst rest)"
    and "\<And>k e. (k, e) \<in> set rest \<Longrightarrow> gm_get (lc_items c) k = Some e"
  shows "\<exists>c'. purge_loop sel rest (n, c) = (n + length (filter (\<lambda>x. sel (fst x)) rest), c') \<and>
    index_inv c' \<and> (cache_bounded c \<longrightarrow> cache_bounded c') \<and>
    lru_view c' = filter (\<lambda>x. \<not> (sel (fst x) \<and> fst x \<in> fst ` set rest)) (lru_view c) \<and>
    lc_max_entries c' = lc_max_entries c \<and> lc_max_bytes c' = lc_max_bytes c"
  using assms
proof (induction rest arbitrary: n c)
  case (Cons x rest)
  obtain k e where x: "x = (k, e)" by (cases x)
  have e: "e \<in> set (lc_ll c)" "el_key e = k"
    using Cons.prems x index_inv_items by (metis list.set_intros(1))+
  have kr: "k \<notin> fst ` set rest" using Cons.prems(2) x by simp
  show ?case
  proof (cases "sel k")
    case True
    define c1 where "c1 = remove_element e False c"
    have "gm_get (lc_items c1) j = Some f" if "(j, f) \<in> set rest" for j f
    proof -
      have "j \<noteq> k" using kr that by force
      with that Cons.prems(3) x e show ?thesis by (simp add: c1_def remove_element_simps)
    qed
    moreover have "index_inv c1" "cache_bounded c \<longrightarrow> cache_bounded c1"
      "lc_max_entries c1 = lc_max_entries c" "lc_max_bytes c1 = lc_max_bytes c"
      using Cons.prems(1) e(1)
      by (auto simp: c1_def index_inv_remove cache_bounded_remove remove_element_simps)
    moreover have "lru_view c1 = filter (\<lambda>x. fst x \<noteq> k) (lru_view c)"
      using view_remove_element [OF Cons.prems(1) e(1), of False] e(2)
      by (simp add: c1_def spec_remove_def)
    ultimately show ?thesis
      using Cons.IH [of c1 "Suc n"] Cons.prems(2) x True
      by (auto simp: c1_def [symmetric] intro!: filter_cong)
  next
    case False
    then show ?thesis
      using Cons.IH [of c n] Cons.prems x by (auto intro!: filter_cong)
  qed
qed simp

lemma index_keys_view:
  assumes "index_inv c" shows "fst ` set (lc_items c) = fst ` set (lru_view c)"
proof -
  have "dom (map_of (lru_view c)) = dom (gm_get (lc_items c))"
    by (auto simp: dom_def view_lookup [OF assms])
  then show ?thesis by (simp add: dom_gm_get dom_map_of_conv_image_fst)
qed

lemma length_items_view:
  assumes "index_inv c"
  shows "length (filter (\<lambda>x. P (fst x)) (lc_items c)) = length (filter (\<lambda>x. P (fst x)) (lru_view c))"
proof -
  have c: "length (filter (\<lambda>x. P (fst x)) xs) = card {k \<in> fst ` set xs. P k}"
    if "distinct (map fst xs)" for xs :: "(string \<times> 'z) list"
  proof -
    have "length (filter (\<lambda>x. P (fst x)) xs) = length (filter P (map fst xs))"
      by (simp add: filter_map comp_def)
    also have "\<dots> = card (set (filter P (map fst xs)))"
      using that by (metis distinct_card distinct_filter)
    also have "set (filter P (map fst xs)) = {k \<in> fst ` set xs. P k}" by auto
    finally show ?thesis .
  qed
  have "gm_inv (lc_items c)" using assms by (simp add: index_inv_def)
  then show ?thesis
    using view_distinct [OF assms] index_keys_view [OF assms] by (simp add: c gm_inv_def)
qed

lemma cache_purge_view:
  assumes "index_inv c"
  shows "\<exists>c'. purge_loop sel (lc_items c) (0, c) =
      (length (filter (\<lambda>x. sel (fst x)) (lru_view c)), c') \<and>
    index_inv c' \<and> (cache_bounded c \<longrightarrow> cache_bounded c') \<and>
    lru_view c' = filter (\<lambda>x. \<not> sel (fst x)) (lru_view c) \<and>
    lc_max_entries c' = lc_max_entries c \<and> lc_max_bytes c' = lc_max_bytes c"
proof -
  have g: "gm_inv (lc_items c)" using assms by (simp add: index_inv_def)
  then have "distinct (map fst (lc_items c))" by (simp add: gm_inv_def)
  from purge_loop_correct [OF assms this, of sel 0] g obtain c' where
    c': "purge_loop sel (lc_items c) (0, c) = (length (filter (\<lambda>x. sel (fst x)) (lc_items c)), c')"
    "index_inv c'" "cache_bounded c \<longrightarrow> cache_bounded c'"
    "lru_view c' = filter (\<lambda>x. \<not> (sel (fst x) \<and> fst x \<in> fst ` set (lc_items c))) (lru_view c)"
    "lc_max_entries c' = lc_max_entries c" "lc_max_bytes c' = lc_max_bytes c"
    by (auto simp: gm_get_iff_in)
  have "lru_view c' = filter (\<lambda>x. \<not> sel (fst x)) (lru_view c)"
    unfolding c'(4) index_keys_view [OF assms] by (auto intro!: filter_cong)
  with c' show ?thesis by (simp add: length_items_view [OF assms])
qed

lemma cache_delete_view:
  assumes "index_inv c"
  shows "\<exists>c'. cache_delete key c = (map_of (lru_view c) key \<noteq> None, c') \<and> index_inv c' \<and>
    (cache_bounded c \<longrightarrow> cache_bounded c') \<and> lru_view c' = spec_remove key (lru_view c) \<and>
    lc_max_entries c' = lc_max_entries c \<and> lc_max_bytes c' = lc_max_bytes c"
proof (cases "gm_get (lc_items c) key")
  case None
  then show ?thesis
    using assms view_lookup [OF assms, of key] by (simp add: cache_delete_def spec_remove_absent)
next
  case (Some e)
  then have e: "e \<in> set (lc_ll c)" "el_key e = key"
    using index_inv_items [OF assms] by auto
  show ?thesis
    using Some assms e view_lookup [OF assms, of key]
    by (auto simp: cache_delete_def index_inv_remove cache_bounded_remove view_remove_element
        remove_element_simps)
qed

lemma cache_get_inv:
  assumes "cache_inv c" shows "cache_inv (snd (cache_get key now c))"
proof (cases "gm_get (lc_items c) key")
  case None
  then show ?thesis using assms by (simp add: cache_get_def)
next
  case (Some e)
  have inv: "index_inv c" "cache_bounded c" using assms by (simp_all add: cache_inv_def)
  have e: "e \<in> set (lc_ll c)" using Some index_inv_items inv by auto
  have "distinct (map el_id (lc_ll c))" using inv by (simp add: index_inv_def)
  from length_touch [OF this e] have "cache_bounded (c\<lparr>lc_ll := e # list_remove e (lc_ll c)\<rparr>)"
    using inv(2) by (simp add: cache_bounded_def)
  with Some inv e show ?thesis
    by (auto simp: cache_get_def Let_def cache_inv_def index_inv_touch index_inv_remove
        cache_bounded_remove)
qed

lemma cache_get_limits:
  "lc_max_entries (snd (cache_get key now c)) = lc_max_entries c"
  "lc_max_bytes (snd (cache_get key now c)) = lc_max_bytes c"
  by (auto simp: cache_get_def Let_def remove_element_simps split: option.splits)

lemma cache_clear_inv:
  assumes "cache_inv c" "0 \<le> lc_max_entries c" "0 \<le> lc_max_bytes c"
  shows "cache_inv (snd (cache_clear c))"
  using assms by (auto simp: cache_clear_def cache_inv_def index_inv_def cache_bounded_def)

lemma new_cache_inv:
  "0 \<le> n \<Longrightarrow> 0 \<le> b \<Longrightarrow> cache_inv (new_cache n b)"
  by (simp add: new_cache_def cache_inv_def index_inv_def cache_bounded_def)

lemma cache_apply_inv:
  assumes "cache_inv c" "0 \<le> lc_max_entries c" "0 \<le> lc_max_bytes c"
  shows "\<exists>c'. cache_apply x c = Some c' \<and> cache_inv c' \<and>
    lc_max_entries c' = lc_max_entries c \<and> lc_max_bytes c' = lc_max_bytes c"
proof -
  have inv: "index_inv c" "cache_bounded c" using assms by (simp_all add: cache_inv_def)
  show ?thesis
  proof (cases x)
    case (OpGet key now)
    then show ?thesis using cache_get_inv [OF assms(1)] cache_get_limits by simp
  next
    case (OpSet key entry)
    then show ?thesis
      using cache_set_refines [OF inv(1) assms(2), of key entry] inv(2) by (auto simp: cache_inv_def)
  next
    case (OpDelete key)
    then show ?thesis
      using cache_delete_view [OF inv(1), of key] inv(2) by (auto simp: cache_inv_def)
  next
    case (OpPurge sel)
    then show ?thesis
      using cache_purge_view [OF inv(1), of sel] inv(2) by (auto simp: cache_inv_def)
  next
    case OpClear
    then show ?thesis using cache_clear_inv [OF assms] by (simp add: cache_clear_def)
  qed
qed

lemma cache_run_inv:
  assumes "cache_inv c" "0 \<le> lc_max_entries c" "0 \<le> lc_max_bytes c"
  shows "\<exists>c'. cache_run xs c = Some c' \<and> cache_inv c' \<and>
    lc_max_entries c' = lc_max_entries c \<and> lc_max_bytes c' = lc_max_bytes c"
  using assms
proof (induction xs arbitrary: c)
  case (Cons x xs)
  from cache_apply_inv [OF Cons.prems, of x] obtain c1 where
    "cache_apply x c = Some c1" "cache_inv c1"
    "lc_max_entries c1 = lc_max_entries c" "lc_max_bytes c1 = lc_max_bytes c" by blast
  with Cons.IH [of c1] Cons.prems show ?case by simp
qed simp

lemma fit_prefix: "\<exists>ys. xs = fit n b xs @ ys"
  by (induction n b xs rule: fit.induct) (auto simp: Let_def)


subsection \<open>Properties\<close>

text \<open>
  C23. However the cache is used, no call loops and the two limits hold: starting from
  \<^verbatim>\<open>New(maxEntries, maxBytes)\<close> with non-negative limits, every sequence of
  \<^verbatim>\<open>Get\<close>, \<^verbatim>\<open>Set\<close>, \<^verbatim>\<open>Delete\<close>, \<^verbatim>\<open>Purge\<close> and \<^verbatim>\<open>Clear\<close> calls
  returns, the index and the recency list hold the same elements under their own keys, the
  byte counter is the sum of the sizes of the stored entries, and neither the number of
  entries nor the number of bytes exceeds its limit.
\<close>

theorem cache_run_safe:
  assumes "0 \<le> max_entries" "0 \<le> max_bytes"
  shows "\<exists>c. cache_run ops (new_cache max_entries max_bytes) = Some c \<and> index_inv c \<and>
    lc_bytes c = (\<Sum>(k, e) \<leftarrow> lru_view c. entry_size e + int (length k)) \<and>
    int (length (lru_view c)) \<le> max_entries \<and> lc_bytes c \<le> max_bytes"
proof -
  from cache_run_inv [OF new_cache_inv, OF assms] assms obtain c where
    c: "cache_run ops (new_cache max_entries max_bytes) = Some c" "cache_inv c"
    "lc_max_entries c = max_entries" "lc_max_bytes c = max_bytes"
    by (auto simp: new_cache_def)
  then show ?thesis
    using index_inv_sizes(2) [of c]
    by (auto simp: cache_inv_def cache_bounded_def lru_view_def view_bytes_def)
qed

definition demo_entry :: "string \<Rightarrow> cache_entry" where
  "demo_entry body = \<lparr>ce_status = 200, ce_header = [(''Etag'', [''x''])], ce_body = body,
     ce_stored_at = 0, ce_expires_at = 10, ce_stale_until = 20\<rparr>"

definition demo_ops :: "cache_op list" where
  "demo_ops = [OpSet ''a'' (demo_entry ''one''), OpSet ''b'' (demo_entry ''two''),
     OpGet ''a'' 5, OpSet ''c'' (demo_entry ''three'')]"

lemma demo_view:
  "map_option lru_view (cache_run demo_ops (new_cache 2 100)) =
     Some [(''c'', demo_entry ''three''), (''a'', demo_entry ''one'')]"
  by code_simp

lemma demo_run:
  obtains c where "cache_run demo_ops (new_cache 2 100) = Some c"
    "lru_view c = [(''c'', demo_entry ''three''), (''a'', demo_entry ''one'')]"
  using demo_view by auto

theorem cache_run_safe_witness:
  "\<exists>c. cache_run demo_ops (new_cache 2 100) = Some c \<and> index_inv c \<and>
    lc_bytes c = (\<Sum>(k, e) \<leftarrow> lru_view c. entry_size e + int (length k)) \<and>
    int (length (lru_view c)) \<le> 2 \<and> lc_bytes c \<le> 100"
  by (rule cache_run_safe) simp_all

text \<open>
  C24. In every state reached by the interface the cache is an LRU cache: \<^verbatim>\<open>Get\<close> and
  \<^verbatim>\<open>Set\<close> do on the pointer structure exactly what the specification does on the list of
  entries ordered by last use. \<^verbatim>\<open>Get\<close> answers fresh up to and including the expiry instant,
  stale up to and including \<^verbatim>\<open>StaleUntil\<close>, and drops the entry afterwards; \<^verbatim>\<open>Set\<close> replaces
  the entry of the key, puts it first and keeps the longest prefix of most recently used
  entries that fits both limits.
\<close>

theorem cache_refines_lru:
  assumes "0 \<le> n" "0 \<le> b" "cache_run ops (new_cache n b) = Some c"
  shows "fst (cache_get key now c) = fst (spec_get key now (lru_view c)) \<and>
    lru_view (snd (cache_get key now c)) = snd (spec_get key now (lru_view c)) \<and>
    map_option (\<lambda>(ok, c'). (ok, lru_view c')) (cache_set key entry c) =
      Some (spec_set n b key entry (lru_view c))"
proof -
  from cache_run_inv [OF new_cache_inv [OF assms(1,2)], of ops] assms have
    c: "index_inv c" "lc_max_entries c = n" "lc_max_bytes c = b"
    by (auto simp: new_cache_def cache_inv_def)
  from cache_set_refines [OF c(1), of key entry] c assms(1) cache_get_refines [OF c(1)]
  show ?thesis by auto
qed

theorem cache_refines_lru_witness:
  "\<exists>c. cache_run demo_ops (new_cache 2 100) = Some c \<and>
    map fst (lru_view c) = [''c'', ''a''] \<and>
    lru_view (snd (cache_get ''a'' 15 c)) = snd (spec_get ''a'' 15 (lru_view c))"
proof -
  obtain c where c: "cache_run demo_ops (new_cache 2 100) = Some c"
    "lru_view c = [(''c'', demo_entry ''three''), (''a'', demo_entry ''one'')]"
    by (rule demo_run)
  then show ?thesis using cache_refines_lru [OF _ _ c(1), of "''a''" 15] by simp
qed

text \<open>
  What is stored is served: in every reachable cache with room for one entry, if
  \<^verbatim>\<open>Set(key, entry)\<close> reports success then a later \<^verbatim>\<open>Get(key, now)\<close> returns the same
  entry, fresh until it expires and stale until \<^verbatim>\<open>StaleUntil\<close>, and finds nothing after that.
\<close>

theorem cache_set_get:
  assumes "1 \<le> n" "0 \<le> b" "cache_run ops (new_cache n b) = Some c"
    and "cache_set key entry c = Some (True, c')"
  shows "fst (cache_get key now c') =
    (if now > ce_stale_until entry then (zero_entry, False, False)
     else (entry, now \<le> ce_expires_at entry, \<not> now \<le> ce_expires_at entry))"
proof -
  from cache_run_inv [OF new_cache_inv, of n b ops] assms have
    c: "index_inv c" "lc_max_entries c = n" "lc_max_bytes c = b"
    by (auto simp: new_cache_def cache_inv_def)
  from cache_set_refines [OF c(1), of key entry] assms c have
    c': "(True, lru_view c') = spec_set n b key entry (lru_view c)" "index_inv c'" by auto
  from c'(1) assms(1) have "map_of (lru_view c') key = Some entry"
    by (auto simp: spec_set_def Let_def split: if_splits)
  with cache_get_refines [OF c'(2), of key now] show ?thesis by (auto simp: spec_get_def)
qed

theorem cache_set_get_witness:
  "\<exists>c c'. cache_run demo_ops (new_cache 2 100) = Some c \<and>
    cache_set ''d'' (demo_entry ''four'') c = Some (True, c') \<and>
    fst (cache_get ''d'' 10 c') = (demo_entry ''four'', True, False)"
proof -
  obtain c where c: "cache_run demo_ops (new_cache 2 100) = Some c" by (rule demo_run)
  have "map_option fst (Option.bind (cache_run demo_ops (new_cache 2 100))
      (cache_set ''d'' (demo_entry ''four''))) = Some True" by code_simp
  with c obtain c' where c': "cache_set ''d'' (demo_entry ''four'') c = Some (True, c')" by auto
  have "fst (cache_get ''d'' 10 c') = (demo_entry ''four'', True, False)"
    using cache_set_get [OF _ _ c c', of 10] by (simp add: demo_entry_def)
  with c c' show ?thesis by blast
qed

text \<open>
  C25. A purge removes exactly what it names: \<^verbatim>\<open>Purge(host, prefix)\<close> on a reachable cache
  removes the entries whose key parses to the (trimmed, lower-cased) host and to a request
  URI under the prefix, keeps every other entry in its recency order, and returns the number
  of removed entries.
\<close>

theorem cache_purge_exact:
  assumes "0 \<le> n" "0 \<le> b" "cache_run ops (new_cache n b) = Some c"
    and host_key: "host_key = to_lower (trim_space host)"
  shows "\<exists>c'. cache_purge parse_uri host pre key_request c =
      (length (lru_view c) - length (lru_view c'), c') \<and> cache_inv c' \<and>
    lru_view c' =
      filter (\<lambda>x. \<not> (\<exists>h u. key_request (fst x) = Some (h, u) \<and>
         (host_key = [] \<or> h = host_key) \<and> (pre = [] \<or> purge_path_matches parse_uri u pre)))
        (lru_view c)"
proof -
  let ?sel = "purge_selects parse_uri host_key pre key_request"
  from cache_run_inv [OF new_cache_inv [OF assms(1,2)], of ops] assms have
    c: "index_inv c" "cache_bounded c" by (auto simp: new_cache_def cache_inv_def)
  from cache_purge_view [OF c(1), of ?sel] c(2) obtain c' where
    c': "cache_purge parse_uri host pre key_request c =
        (length (filter (\<lambda>x. ?sel (fst x)) (lru_view c)), c')" "cache_inv c'"
      "lru_view c' = filter (\<lambda>x. \<not> ?sel (fst x)) (lru_view c)"
    by (auto simp: cache_purge_def host_key cache_inv_def)
  have "length (filter (\<lambda>x. ?sel (fst x)) (lru_view c)) = length (lru_view c) - length (lru_view c')"
    using sum_length_filter_compl [of "\<lambda>x. ?sel (fst x)" "lru_view c"] c'(3) by simp
  moreover have "?sel k \<longleftrightarrow> (\<exists>h u. key_request k = Some (h, u) \<and> (host_key = [] \<or> h = host_key) \<and>
      (pre = [] \<or> purge_path_matches parse_uri u pre))" for k
    by (auto simp: purge_selects_def split: option.splits)
  ultimately show ?thesis using c' by simp
qed

theorem cache_purge_exact_witness:
  "\<exists>c c'. cache_run demo_ops (new_cache 2 100) = Some c \<and>
    cache_purge Some '' H '' ''/p'' [''a'' \<mapsto> (''h'', ''/p/x'')] c = (1, c') \<and>
    map fst (lru_view c') = [''c'']"
proof -
  obtain c where c: "cache_run demo_ops (new_cache 2 100) = Some c"
    "lru_view c = [(''c'', demo_entry ''three''), (''a'', demo_entry ''one'')]"
    by (rule demo_run)
  have h: "''h'' = to_lower (trim_space '' H '')" by code_simp
  have "purge_path_matches Some ''/p/x'' ''/p''" by code_simp
  with cache_purge_exact [OF _ _ c(1) h, of Some "''/p''" "[''a'' \<mapsto> (''h'', ''/p/x'')]"] c
  show ?thesis by auto
qed

end
