(* ===== verification/Client_IP.thy ===== *)
theory Client_IP
  imports Http_Header Net_IP
begin

text \<open>
  Who is the client: \<^verbatim>\<open>apps/edgeproxy/internal/proxy/net.go\<close> (the proxy's resolver and the
  operational probe check) and \<^verbatim>\<open>apps/securityedge/internal/clientip/resolver.go\<close> (the
  gateway's resolver, whose networks can be replaced at run time). Both walk the forwarding
  chain from the right and stop at the first address outside the trusted networks. The lemmas
  give that trust boundary and show that the two hops agree when they are configured alike.
\<close>

section \<open>EdgeProxy: \<^verbatim>\<open>net.go\<close>\<close>

record client_resolver =
  cr_trusted :: "ip_net list"
  cr_header :: string

fun parse_networks :: "string list \<Rightarrow> ip_net list option" where
  "parse_networks [] = Some []"
| "parse_networks (raw # rest) =
     (case parse_cidr (trim_space raw) of
        None \<Rightarrow> None
      | Some network \<Rightarrow> map_option (\<lambda>ns. network # ns) (parse_networks rest))"

definition default_header :: "string \<Rightarrow> string" where
  "default_header header0 =
     (let h = trim_space header0 in if h = [] then ''X-Forwarded-For'' else h)"

definition new_client_resolver :: "string list \<Rightarrow> string \<Rightarrow> client_resolver option" where
  "new_client_resolver cidrs header0 =
     map_option (\<lambda>ns. \<lparr>cr_trusted = ns, cr_header = default_header header0\<rparr>) (parse_networks cidrs)"

fun chain_tokens :: "string list \<Rightarrow> ip_addr list option" where
  "chain_tokens [] = Some []"
| "chain_tokens (raw # rest) =
     (let token = trim_space raw in
      if token = [] then None
      else (case parse_ip token of
              None \<Rightarrow> None
            | Some ip \<Rightarrow> map_option (\<lambda>ips. ip # ips) (chain_tokens rest)))"

fun parse_forwarded_ip_chain :: "string list \<Rightarrow> ip_addr list option" where
  "parse_forwarded_ip_chain [] = Some []"
| "parse_forwarded_ip_chain (v # vs) =
     (case chain_tokens (split_on (CHR '','') v) of
        None \<Rightarrow> None
      | Some ips \<Rightarrow> map_option (\<lambda>rest. ips @ rest) (parse_forwarded_ip_chain vs))"

fun trusted_ip :: "ip_addr \<Rightarrow> ip_net list \<Rightarrow> bool" where
  "trusted_ip ip [] = False"
| "trusted_ip ip (network # networks) = (if net_contains network ip then True else trusted_ip ip networks)"

definition remote_ip :: "string \<Rightarrow> ip_addr option" where
  "remote_ip addr =
     (case split_host_port addr of
        Some (host, _) \<Rightarrow> parse_ip host
      | None \<Rightarrow> parse_ip (trim_space addr))"

text \<open>The loop over the chain from its last index down to 0.\<close>

fun first_untrusted_from :: "ip_addr list \<Rightarrow> ip_net list \<Rightarrow> nat \<Rightarrow> ip_addr option" where
  "first_untrusted_from chain trusted 0 = None"
| "first_untrusted_from chain trusted (Suc i) =
     (if \<not> trusted_ip (chain ! i) trusted then Some (chain ! i)
      else first_untrusted_from chain trusted i)"

definition edge_resolve :: "client_resolver option \<Rightarrow> http_request \<Rightarrow> string" where
  "edge_resolve r req =
     (case remote_ip (rq_remote_addr req) of
        None \<Rightarrow> trim_space (rq_remote_addr req)
      | Some remote \<Rightarrow>
          (case r of
             None \<Rightarrow> ip_string remote
           | Some res \<Rightarrow>
               if \<not> trusted_ip remote (cr_trusted res) then ip_string remote
               else (case parse_forwarded_ip_chain (h_values (rq_header req) (cr_header res)) of
                       None \<Rightarrow> ip_string remote
                     | Some ips \<Rightarrow>
                         let chain = ips @ [remote] in
                         (case first_untrusted_from chain (cr_trusted res) (length chain) of
                            Some ip \<Rightarrow> ip_string ip
                          | None \<Rightarrow> if length chain > 0 then ip_string (chain ! 0)
                                    else ip_string remote))))"

definition with_resolved_client_ip :: "http_request \<Rightarrow> string \<Rightarrow> http_request" where
  "with_resolved_client_ip req ip = req\<lparr>rq_ctx_client_ip := Some ip\<rparr>"

definition resolved_client_ip :: "http_request option \<Rightarrow> string" where
  "resolved_client_ip req =
     (case req of
        None \<Rightarrow> []
      | Some r \<Rightarrow> trim_space (case rq_ctx_client_ip r of None \<Rightarrow> [] | Some ip \<Rightarrow> ip))"

definition internal_probe_header :: string where
  "internal_probe_header = ''X-SecureEdge-Internal-Probe''"
definition internal_probe_value :: string where "internal_probe_value = ''connectivity-v1''"
definition internal_probe_user_agent :: string where
  "internal_probe_user_agent = ''SecurityEdge-Connectivity-Probe/1.0''"

definition trusted_operational_probe :: "http_request option \<Rightarrow> client_resolver option \<Rightarrow> bool" where
  "trusted_operational_probe req resolver =
     (case req of
        None \<Rightarrow> False
      | Some r \<Rightarrow>
          if rq_method r \<noteq> ''HEAD'' then False
          else if trim_space (h_get (rq_header r) internal_probe_header) \<noteq> internal_probe_value
                  \<or> trim_space (user_agent r) \<noteq> internal_probe_user_agent then False
          else (case remote_ip (rq_remote_addr r) of
                  None \<Rightarrow> False
                | Some peer \<Rightarrow>
                    if is_loopback peer then True
                    else (case resolver of
                            None \<Rightarrow> False
                          | Some res \<Rightarrow> trusted_ip peer (cr_trusted res))))"

definition with_operational_probe :: "http_request option \<Rightarrow> http_request option" where
  "with_operational_probe req = map_option (\<lambda>r. r\<lparr>rq_ctx_probe := True\<rparr>) req"

definition is_operational_probe :: "http_request option \<Rightarrow> bool" where
  "is_operational_probe req = (case req of None \<Rightarrow> False | Some r \<Rightarrow> rq_ctx_probe r)"

section \<open>SecurityEdge: \<^verbatim>\<open>resolver.go\<close>\<close>

record gateway_resolver =
  gr_trusted :: "ip_net list"
  gr_header :: string

text \<open>\<^verbatim>\<open>Replace\<close> parses every network before it touches the resolver, so an error leaves
  the old state. The boolean is \<^verbatim>\<open>err == nil\<close>.\<close>

definition resolver_replace ::
  "string list \<Rightarrow> string \<Rightarrow> gateway_resolver \<Rightarrow> bool \<times> gateway_resolver" where
  "resolver_replace cidrs header0 r =
     (case parse_networks cidrs of
        None \<Rightarrow> (False, r)
      | Some parsed \<Rightarrow>
          let h = trim_space header0;
              h' = (if h = [] then ''X-Forwarded-For'' else h)
          in (True, r\<lparr>gr_trusted := parsed, gr_header := h'\<rparr>))"

definition resolver_new :: "string list \<Rightarrow> string \<Rightarrow> gateway_resolver option" where
  "resolver_new cidrs header0 =
     (case resolver_replace cidrs header0 \<lparr>gr_trusted = [], gr_header = []\<rparr> of
        (ok, r) \<Rightarrow> if ok then Some r else None)"

definition gateway_is_trusted :: "ip_addr \<Rightarrow> ip_net list \<Rightarrow> bool" where
  "gateway_is_trusted ip networks = list_ex (\<lambda>network. net_contains network ip) networks"

definition gateway_chain :: "string list \<Rightarrow> ip_addr list option" where
  "gateway_chain vals =
     those (map (\<lambda>raw. let token = trim_space raw in if token = [] then None else parse_ip token)
       (concat (map (split_on (CHR '','')) vals)))"

definition gateway_remote_ip :: "string \<Rightarrow> ip_addr option" where
  "gateway_remote_ip addr =
     (case split_host_port addr of
        Some (host, _) \<Rightarrow> parse_ip host
      | None \<Rightarrow> parse_ip (trim_space addr))"

definition resolver_resolve :: "gateway_resolver \<Rightarrow> http_request \<Rightarrow> string" where
  "resolver_resolve r req =
     (case gateway_remote_ip (rq_remote_addr req) of
        None \<Rightarrow> trim_space (rq_remote_addr req)
      | Some remote \<Rightarrow>
          if \<not> gateway_is_trusted remote (gr_trusted r) then ip_string remote
          else (case gateway_chain (h_values (rq_header req) (gr_header r)) of
                  None \<Rightarrow> ip_string remote
                | Some ips \<Rightarrow>
                    let chain = ips @ [remote] in
                    (case find (\<lambda>ip. \<not> gateway_is_trusted ip (gr_trusted r)) (rev chain) of
                       Some ip \<Rightarrow> ip_string ip
                     | None \<Rightarrow> if chain \<noteq> [] then ip_string (hd chain) else ip_string remote)))"

section \<open>Lemmas\<close>

lemma trusted_ip_iff: "trusted_ip ip ns \<longleftrightarrow> (\<exists>n \<in> set ns. net_contains n ip)"
  by (induction ns) auto

lemma first_untrusted_find:
  "n \<le> length chain \<Longrightarrow>
     first_untrusted_from chain ns n = find (\<lambda>ip. \<not> trusted_ip ip ns) (rev (take n chain))"
  by (induction n) (auto simp: take_Suc_conv_app_nth)

lemma find_rev_split:
  "\<not> P a \<Longrightarrow> list_all P ts \<Longrightarrow> find (\<lambda>x. \<not> P x) (rev (xs @ a # ts)) = Some a"
proof (induction ts rule: rev_induct)
  case (snoc t ts)
  then show ?case by simp
qed simp

lemma find_rev_all: "list_all P xs \<Longrightarrow> find (\<lambda>x. \<not> P x) (rev xs) = None"
  by (auto simp: find_None_iff list_all_iff)

lemma edge_resolve_chain:
  assumes "remote_ip (rq_remote_addr req) = Some remote" "trusted_ip remote (cr_trusted r)"
    and "parse_forwarded_ip_chain (h_values (rq_header req) (cr_header r)) = Some ips"
  shows "edge_resolve (Some r) req =
    (case find (\<lambda>ip. \<not> trusted_ip ip (cr_trusted r)) (rev (ips @ [remote])) of
       Some ip \<Rightarrow> ip_string ip | None \<Rightarrow> ip_string (hd (ips @ [remote])))"
  using assms first_untrusted_find [of "length ips + 1" "ips @ [remote]" "cr_trusted r"]
  by (auto simp: edge_resolve_def Let_def hd_conv_nth split: option.splits)

lemma chain_tokens_those:
  "chain_tokens raws =
     those (map (\<lambda>raw. let token = trim_space raw in if token = [] then None else parse_ip token) raws)"
  by (induction raws) (auto simp: Let_def split: option.splits)

lemma those_append:
  "those (xs @ ys) = Option.bind (those xs) (\<lambda>a. map_option (\<lambda>b. a @ b) (those ys))"
proof (induction xs)
  case Nil
  then show ?case by (cases "those ys") auto
next
  case (Cons x xs)
  then show ?case by (cases x; cases "those xs"; cases "those ys") auto
qed

lemma chains_agree: "gateway_chain vals = parse_forwarded_ip_chain vals"
proof (induction vals)
  case (Cons v vals)
  then show ?case
    by (auto simp: gateway_chain_def those_append chain_tokens_those split: option.splits
        bind_splits)
qed (simp add: gateway_chain_def)

lemma trust_agrees: "gateway_is_trusted ip ns = trusted_ip ip ns"
  by (auto simp: gateway_is_trusted_def list_ex_iff trusted_ip_iff)

section \<open>The trust boundary\<close>

text \<open>What a resolver owes its callers: the connecting address decides alone unless it is
  trusted and the forwarding chain is well formed; then the chain is walked from the right.\<close>

locale trust_boundary =
  fixes trusted :: "ip_addr \<Rightarrow> bool"
    and chain :: "http_request \<Rightarrow> ip_addr list option"
    and resolve :: "http_request \<Rightarrow> string"
  assumes peer_unknown: "remote_ip (rq_remote_addr req) = None \<Longrightarrow>
      resolve req = trim_space (rq_remote_addr req)"
    and peer_untrusted: "remote_ip (rq_remote_addr req) = Some remote \<Longrightarrow> \<not> trusted remote \<Longrightarrow>
      resolve req = ip_string remote"
    and chain_malformed: "remote_ip (rq_remote_addr req) = Some remote \<Longrightarrow> chain req = None \<Longrightarrow>
      resolve req = ip_string remote"
    and chain_walk: "remote_ip (rq_remote_addr req) = Some remote \<Longrightarrow> trusted remote \<Longrightarrow>
      chain req = Some ips \<Longrightarrow>
      resolve req = (case find (\<lambda>ip. \<not> trusted ip) (rev (ips @ [remote])) of
        Some ip \<Rightarrow> ip_string ip | None \<Rightarrow> ip_string (hd (ips @ [remote])))"
begin

lemma rightmost_untrusted:
  assumes "remote_ip (rq_remote_addr req) = Some remote" "trusted remote"
    and "chain req = Some (xs @ a # ts)" "\<not> trusted a" "list_all trusted ts"
  shows "resolve req = ip_string a"
  using chain_walk [OF assms(1,2,3)] find_rev_split [of trusted a "ts @ [remote]" xs] assms
  by simp

lemma all_trusted:
  assumes "remote_ip (rq_remote_addr req) = Some remote" "trusted remote"
    and "chain req = Some ips" "list_all trusted ips"
  shows "resolve req = ip_string (hd (ips @ [remote]))"
  using chain_walk [OF assms(1,2,3)] find_rev_all [of trusted "ips @ [remote]"] assms by simp

text \<open>Two requests over the same trusted hops with the same last untrusted address get the same
  answer: what stands to the left of it in the header is ignored.\<close>

lemma spoof_ignored:
  assumes "remote_ip (rq_remote_addr req) = Some remote" "trusted remote"
    and "remote_ip (rq_remote_addr req') = Some remote'" "trusted remote'"
    and "chain req = Some (xs @ a # ts)" "chain req' = Some (ys @ a # us)"
    and "\<not> trusted a" "list_all trusted ts" "list_all trusted us"
  shows "resolve req = resolve req'"
  using assms by (simp add: rightmost_untrusted)

end

lemma gateway_remote_ip_eq: "gateway_remote_ip = remote_ip"
  by (rule ext) (simp add: gateway_remote_ip_def remote_ip_def)

interpretation edge_tb: trust_boundary "\<lambda>ip. trusted_ip ip (cr_trusted r)"
  "\<lambda>req. parse_forwarded_ip_chain (h_values (rq_header req) (cr_header r))" "edge_resolve (Some r)"
  for r :: client_resolver
  by (unfold_locales, simp_all only: edge_resolve_chain) (auto simp: edge_resolve_def split: option.splits)

interpretation gate_tb: trust_boundary "\<lambda>ip. trusted_ip ip (gr_trusted r)"
  "\<lambda>req. parse_forwarded_ip_chain (h_values (rq_header req) (gr_header r))" "resolver_resolve r"
  for r :: gateway_resolver
  by unfold_locales
    (auto simp: resolver_resolve_def gateway_remote_ip_eq trust_agrees chains_agree Let_def
      split: option.splits)

section \<open>Properties\<close>

text \<open>
  C26. Which address EdgeProxy's resolver answers, in every case. An unparsable peer address is answered as it is. If the connecting peer
  is in no trusted network, or the forwarding header is malformed, the answer is the peer's own address. If the peer is trusted and the
  chain parses, it is the rightmost address of the chain that is in no trusted network, whatever an attacker put to the left of it; only if every
  address of the chain is in a trusted network, it is the leftmost one (the peer's if the chain is empty): an address that the client itself may
  have written, so that the answer can be trusted in that case only as far as the trusted networks hold no client.
\<close>

theorem edge_resolve_spoof_resistant:
  fixes r :: client_resolver and req :: http_request
  defines "T \<equiv> \<lambda>ip. \<exists>n \<in> set (cr_trusted r). net_contains n ip"
    and "chain \<equiv> parse_forwarded_ip_chain (h_values (rq_header req) (cr_header r))"
  shows "case remote_ip (rq_remote_addr req) of
      None \<Rightarrow> edge_resolve (Some r) req = trim_space (rq_remote_addr req)
    | Some remote \<Rightarrow>
        (\<not> T remote \<or> chain = None \<longrightarrow> edge_resolve (Some r) req = ip_string remote) \<and>
        (\<forall>spoofed a hops. T remote \<and> chain = Some (spoofed @ a # hops) \<and> \<not> T a \<and> (\<forall>ip \<in> set hops. T ip) \<longrightarrow>
           edge_resolve (Some r) req = ip_string a) \<and>
        (\<forall>ips. T remote \<and> chain = Some ips \<and> (\<forall>ip \<in> set ips. T ip) \<longrightarrow> edge_resolve (Some r) req = ip_string (hd (ips @ [remote])))"
proof -
  have t: "T ip = trusted_ip ip (cr_trusted r)" for ip by (simp add: T_def trusted_ip_iff)
  show ?thesis
  proof (cases "remote_ip (rq_remote_addr req)")
    case None
    then show ?thesis by (simp add: edge_tb.peer_unknown)
  next
    case (Some remote)
    show ?thesis unfolding Some option.case t chain_def
      using edge_tb.peer_untrusted [OF Some, of r] edge_tb.chain_malformed [OF Some, of r]
        edge_tb.rightmost_untrusted [OF Some, of r, unfolded list_all_iff]
        edge_tb.all_trusted [OF Some, of r, unfolded list_all_iff]
      by (intro conjI impI allI) (elim disjE conjE; blast)+
  qed
qed

definition demo_resolver :: client_resolver where
  "demo_resolver = \<lparr>cr_trusted = [\<lparr>net_ip = 281470849515520, net_bits = 104\<rparr>],
     cr_header = ''X-Forwarded-For''\<rparr>"

definition demo_request :: http_request where
  "demo_request = \<lparr>rq_method = ''GET'', rq_host = ''h'',
     rq_url = \<lparr>u_scheme = [], u_opaque = [], u_host = [], u_path = ''/'', u_raw_path = [],
               u_force_query = False, u_raw_query = [], u_fragment = []\<rparr>,
     rq_header = [(''X-Forwarded-For'', [''1.1.1.1, 9.9.9.9, 10.0.0.2''])],
     rq_remote_addr = ''10.0.0.1:4711'', rq_content_length = 0, rq_proto = ''HTTP/1.1'',
     rq_ctx_client_ip = None, rq_ctx_probe = False\<rparr>"

theorem edge_resolve_spoof_resistant_witness:
  "edge_resolve (Some demo_resolver) demo_request = ''9.9.9.9''"
proof -
  have r: "remote_ip (rq_remote_addr demo_request) = Some 281470849515521" by code_simp
  have c: "parse_forwarded_ip_chain (h_values (rq_header demo_request) (cr_header demo_resolver)) =
      Some ([281470698586369] @ 281470833330441 # [281470849515522])" by code_simp
  have t: "\<exists>n \<in> set (cr_trusted demo_resolver). net_contains n 281470849515521"
    "\<not> (\<exists>n \<in> set (cr_trusted demo_resolver). net_contains n 281470833330441)"
    "\<forall>ip \<in> set [281470849515522]. \<exists>n \<in> set (cr_trusted demo_resolver). net_contains n ip" by code_simp+
  have "ip_string 281470833330441 = ''9.9.9.9''" by code_simp
  moreover have "edge_resolve (Some demo_resolver) demo_request = ip_string 281470833330441"
    using edge_resolve_spoof_resistant [where req = demo_request and r = demo_resolver, unfolded r option.case] t c by blast
  ultimately show ?thesis by simp
qed

text \<open>
  C27. The two hops agree on the client: built from the same trusted networks and the same header
  name, SecurityEdge's resolver and EdgeProxy's resolver accept the same configurations and
  give the same address for every request.
\<close>

theorem resolvers_agree:
  "map_option (\<lambda>r. edge_resolve (Some r) req) (new_client_resolver cidrs header0) =
   map_option (\<lambda>g. resolver_resolve g req) (resolver_new cidrs header0)"
proof (cases "parse_networks cidrs")
  case None
  then show ?thesis
    by (simp add: new_client_resolver_def resolver_new_def resolver_replace_def)
next
  case (Some ns)
  let ?r = "\<lparr>cr_trusted = ns, cr_header = default_header header0\<rparr>"
  let ?g = "\<lparr>gr_trusted = ns, gr_header = default_header header0\<rparr>"
  have "edge_resolve (Some ?r) req = resolver_resolve ?g req"
  proof (cases "remote_ip (rq_remote_addr req)")
    case None
    then show ?thesis by (simp add: edge_tb.peer_unknown gate_tb.peer_unknown)
  next
    case (Some remote)
    show ?thesis
    proof (cases "trusted_ip remote ns \<and>
        parse_forwarded_ip_chain (h_values (rq_header req) (default_header header0)) \<noteq> None")
      case True
      with Some show ?thesis by (auto simp: edge_tb.chain_walk gate_tb.chain_walk)
    next
      case False
      with Some show ?thesis
        using edge_tb.peer_untrusted [of req remote ?r] gate_tb.peer_untrusted [of req remote ?g]
          edge_tb.chain_malformed [of req remote ?r] gate_tb.chain_malformed [of req remote ?g]
        by auto
    qed
  qed
  with Some show ?thesis
    by (simp add: new_client_resolver_def resolver_new_def resolver_replace_def default_header_def
        Let_def)
qed

end
