(* ===== verification/Http_Helpers.thy ===== *)
theory Http_Helpers
  imports Client_IP Request_Path
begin

text \<open>
  Request and response header hygiene and URL rewriting of the proxy,
  \<^verbatim>\<open>apps/edgeproxy/internal/proxy/helpers.go\<close>: hop-by-hop headers, protocol upgrades,
  forwarding identity headers, origin response headers, request ids, path joining and the
  canonical request URI that identifies a cached resource. Random bytes and the clock of
  \<^verbatim>\<open>requestID\<close> are parameters.
\<close>

section \<open>Headers\<close>

definition hop_headers :: "string list" where
  "hop_headers = [''Connection'', ''Proxy-Connection'', ''Keep-Alive'', ''Proxy-Authenticate'',
     ''Proxy-Authorization'', ''Te'', ''Trailer'', ''Transfer-Encoding'', ''Upgrade'']"

definition h_del_all :: "string list \<Rightarrow> header \<Rightarrow> header" where
  "h_del_all names h = fold h_del names h"

definition connection_tokens :: "header \<Rightarrow> string list" where
  "connection_tokens h = concat (map (\<lambda>f. map trim_space (split_on (CHR '','') f)) (h_values h ''Connection''))"

definition remove_hop_by_hop :: "header \<Rightarrow> header" where
  "remove_hop_by_hop h = h_del_all hop_headers (h_del_all (connection_tokens h) h)"

definition has_protocol_upgrade :: "header \<Rightarrow> bool" where
  "has_protocol_upgrade h \<longleftrightarrow>
     header_has_token (h_values h ''Connection'') ''upgrade'' \<or> trim_space (h_get h ''Upgrade'') \<noteq> []"

definition valid_http_token :: "string \<Rightarrow> bool" where
  "valid_http_token s \<longleftrightarrow> s \<noteq> [] \<and> list_all is_token_char s"

definition valid_http_protocol :: "string \<Rightarrow> bool" where
  "valid_http_protocol s =
     (case cut (CHR ''/'') s of
        (name, ver) \<Rightarrow>
          if \<not> valid_http_token name then False
          else (case ver of
                  None \<Rightarrow> True
                | Some v \<Rightarrow> v \<noteq> [] \<and> \<not> contains_str v ''/'' \<and> valid_http_token v))"

datatype upgrade_error = Upgrade_without_connection | Upgrade_count | Upgrade_value

definition protocol_upgrade :: "header \<Rightarrow> upgrade_error + string" where
  "protocol_upgrade h =
     (if \<not> header_has_token (h_values h ''Connection'') ''upgrade'' then
        if trim_space (h_get h ''Upgrade'') \<noteq> [] then Inl Upgrade_without_connection else Inr []
      else (case h_values h ''Upgrade'' of
              [v] \<Rightarrow> (let t = trim_space v in
                       if \<not> valid_http_protocol t then Inl Upgrade_value else Inr t)
            | _ \<Rightarrow> Inl Upgrade_count))"

definition identity_headers :: "string list" where
  "identity_headers = [''forwarded'', ''client-ip'', ''x-real-ip'', ''true-client-ip'', ''x-client-ip'',
     ''x-cluster-client-ip'', ''x-originating-ip'', ''x-original-forwarded-for'',
     ''cf-connecting-ip'', ''fastly-client-ip'', ''fly-client-ip'', ''x-appengine-user-ip'',
     ''x-azure-clientip'', ''proxy-client-ip'', ''wl-proxy-client-ip'']"

definition is_identity_header :: "string \<Rightarrow> string \<Rightarrow> bool" where
  "is_identity_header configured name \<longleftrightarrow>
     equal_fold name configured \<or> has_prefix (to_lower name) ''x-forwarded-''
     \<or> to_lower name \<in> set identity_headers"

definition remove_forwarding_identity_headers :: "header \<Rightarrow> string \<Rightarrow> header" where
  "remove_forwarding_identity_headers h configured0 =
     (let configured = trim_space configured0
      in h_del_all (filter (is_identity_header configured) (map fst h)) h)"

definition copy_headers :: "header \<Rightarrow> header \<Rightarrow> header" where
  "copy_headers dst src = fold (\<lambda>(k, vs) d. fold (h_add k) vs d) src dst"

definition origin_private_headers :: "string list" where
  "origin_private_headers = [''Server'', ''X-Powered-By'', ''X-AspNet-Version'', ''X-AspNetMvc-Version'',
     ''X-Request-ID'', ''X-Cache'', ''X-Upstream-Response-Time'', ''X-Security-Action'',
     ''X-Security-Score'', ''X-Security-Gateway'', internal_probe_header]"

definition sanitize_origin_response_headers :: "header \<Rightarrow> header" where
  "sanitize_origin_response_headers h = h_del_all origin_private_headers h"

section \<open>Request identity\<close>

definition request_id_char :: "char \<Rightarrow> bool" where
  "request_id_char c \<longleftrightarrow> is_lower_letter c \<or> is_upper_letter c \<or> is_digit c \<or> c \<in> set ''-_.:''"

definition valid_request_id :: "string \<Rightarrow> bool" where
  "valid_request_id v \<longleftrightarrow> v \<noteq> [] \<and> length v \<le> 128 \<and> list_all request_id_char v"

text \<open>\<open>random\<close> is the result of \<^verbatim>\<open>rand.Read\<close> (\<open>None\<close>: it failed), \<open>nano36\<close> the current
  time in base 36.\<close>

definition hex_encode :: "string \<Rightarrow> string" where
  "hex_encode bs = concat (map (\<lambda>b. [digit_char (of_char b div 16), digit_char (of_char b mod 16)]) bs)"

definition request_id :: "string option \<Rightarrow> string \<Rightarrow> http_request \<Rightarrow> string" where
  "request_id random nano36 req =
     (let v = trim_space (h_get (rq_header req) ''X-Request-ID'') in
      if valid_request_id v then v
      else (case random of Some b \<Rightarrow> hex_encode b | None \<Rightarrow> ''fallback-'' @ nano36))"

definition client_ip_of :: "http_request \<Rightarrow> string" where
  "client_ip_of req =
     (let resolved = resolved_client_ip (Some req) in
      if resolved \<noteq> [] then resolved
      else (case split_host_port (rq_remote_addr req) of
              Some (host, _) \<Rightarrow> host | None \<Rightarrow> rq_remote_addr req))"

section \<open>Paths and URLs\<close>

definition join_path :: "string \<Rightarrow> string \<Rightarrow> string" where
  "join_path base0 next0 =
     (let base = (if base0 = [] then ''/'' else base0);
          nxt = (if next0 = [] then ''/'' else next0);
          trailing = has_suffix nxt ''/'';
          joined = path_clean (base @ ''/'' @ nxt);
          joined = (if trailing \<and> \<not> has_suffix joined ''/'' then joined @ ''/'' else joined)
      in if \<not> has_prefix joined ''/'' then ''/'' @ joined else joined)"

definition canonical_request_uri :: "go_url \<Rightarrow> string" where
  "canonical_request_uri u =
     url_request_uri (u\<lparr>u_path := canonical_request_path (u_path u), u_raw_path := [], u_fragment := []\<rparr>)"

definition rewrite_url :: "go_url \<Rightarrow> go_url \<Rightarrow> string \<Rightarrow> bool \<Rightarrow> go_url" where
  "rewrite_url u base route_prefix strip_prefix =
     (let request_path = canonical_request_path (u_path u);
          stripped = (if strip_prefix
                      then (let r = trim_prefix request_path route_prefix
                            in if r = [] then ''/'' else r)
                      else request_path)
      in u\<lparr>u_scheme := u_scheme base, u_host := u_host base,
           u_path := join_path (u_path base) stripped, u_raw_path := [],
           u_raw_query :=
             (if u_raw_query base = [] \<or> u_raw_query u = [] then u_raw_query base @ u_raw_query u
              else u_raw_query base @ ''&'' @ u_raw_query u)\<rparr>)"

definition is_idempotent :: "string \<Rightarrow> bool" where
  "is_idempotent m \<longleftrightarrow> m \<in> set [''GET'', ''HEAD'', ''OPTIONS'', ''TRACE'', ''PUT'', ''DELETE'']"

section \<open>Lemmas\<close>

lemma gm_get_del_all:
  "gm_get (h_del_all names h) k =
     (if k \<in> canonical_header_key ` set names then None else gm_get h k)"
  unfolding h_del_all_def
  by (induction names arbitrary: h) (auto simp: h_del_def go_map_simps)

lemma h_values_del_all [header_simps]:
  "h_values (h_del_all names h) k =
     (if canonical_header_key k \<in> canonical_header_key ` set names then [] else h_values h k)"
  by (simp add: h_values_def gm_get_del_all)

lemma path_char_plain_not: "path_char_plain c \<Longrightarrow> c \<noteq> CHR ''%'' \<and> c \<noteq> CHR ''?''"
  by (auto simp: path_char_plain_def is_lower_letter_def is_upper_letter_def is_digit_def)

lemma upper_hex_inj: "a < 16 \<Longrightarrow> b < 16 \<Longrightarrow> upper_hex a = upper_hex b \<Longrightarrow> a = b"
proof -
  have d: "distinct ''0123456789ABCDEF''" by simp
  assume "a < 16" "b < 16" "upper_hex a = upper_hex b"
  then show "a = b" using nth_eq_iff_index_eq [OF d, of a b] by (simp add: upper_hex_def)
qed

lemma upper_hex_mod: "upper_hex n = upper_hex (n mod 16)"
  by (simp add: upper_hex_def)

lemma upper_hex_plain: "upper_hex n \<noteq> CHR ''?''"
proof -
  have "list_all (\<lambda>d. ''0123456789ABCDEF'' ! d \<noteq> CHR ''?'') [0..<16]" by code_simp
  then show ?thesis by (auto simp: list_all_iff upper_hex_def)
qed

lemma escape_path_Cons:
  "escape_path (c # s) = (if path_char_plain c then [c]
       else [CHR ''%'', upper_hex (of_char c div 16), upper_hex (of_char c)]) @ escape_path s"
  by (simp add: escape_path_def)

lemma escape_path_no_query: "CHR ''?'' \<notin> set (escape_path s)"
proof (induction s)
  case (Cons c s)
  then show ?case
    using upper_hex_plain [of "of_char c div 16"] upper_hex_plain [of "of_char c"]
      path_char_plain_not [of c] by (auto simp: escape_path_Cons)
qed (simp add: escape_path_def)

lemma escape_path_Nil [simp]: "escape_path s = [] \<longleftrightarrow> s = []"
  by (cases s) (auto simp: escape_path_Cons, simp add: escape_path_def)

lemma hex_pair_inj:
  assumes "upper_hex (of_char c div 16) = upper_hex (of_char d div 16)"
    and "upper_hex (of_char c) = upper_hex (of_char d)"
  shows "c = d"
proof -
  have lt: "(of_char x :: nat) div 16 < 16" for x :: char
  proof -
    have "(of_char x :: nat) < 256" by simp
    then show ?thesis by linarith
  qed
  have "(of_char c :: nat) div 16 = of_char d div 16" using assms lt upper_hex_inj by blast
  moreover have "(of_char c :: nat) mod 16 = of_char d mod 16"
    using assms(2) upper_hex_mod [of "of_char c"] upper_hex_mod [of "of_char d"] upper_hex_inj
    by (metis mod_less_divisor zero_less_numeral)
  ultimately have "(of_char c :: nat) = of_char d" by (metis div_mult_mod_eq)
  then show ?thesis by (metis char_of_char)
qed

lemma escape_path_inj: "escape_path s = escape_path t \<Longrightarrow> s = t"
proof (induction s arbitrary: t)
  case Nil
  then show ?case by (metis escape_path_Nil)
next
  case (Cons c s)
  then obtain d t' where t: "t = d # t'" by (metis escape_path_Nil list.exhaust)
  note eq = Cons.prems [unfolded t escape_path_Cons]
  show ?case
  proof (cases "path_char_plain c"; cases "path_char_plain d")
    assume "path_char_plain c" "path_char_plain d"
    with eq Cons.IH t show ?thesis by simp
  next
    assume "path_char_plain c" "\<not> path_char_plain d"
    with eq path_char_plain_not [of c] show ?thesis by simp
  next
    assume "\<not> path_char_plain c" "path_char_plain d"
    with eq path_char_plain_not [of d] show ?thesis by simp
  next
    assume "\<not> path_char_plain c" "\<not> path_char_plain d"
    with eq hex_pair_inj [of c d] Cons.IH t show ?thesis by simp
  qed
qed

subsection \<open>Joined paths\<close>

definition path_segs :: "string \<Rightarrow> string list" where
  "path_segs p = filter (\<lambda>w. w \<noteq> []) (split_on (CHR ''/'') p)"

definition dot_free :: "string \<Rightarrow> bool" where
  "dot_free p \<longleftrightarrow> set (split_on (CHR ''/'') p) \<inter> {''.'', ''..''} = {}"

lemma path_segs_good: "dot_free p \<Longrightarrow> w \<in> set (path_segs p) \<Longrightarrow> good_seg w"
  by (auto simp: path_segs_def dot_free_def good_seg_def dest: split_on_no_sep)

lemma path_segs_join:
  assumes "\<And>w. w \<in> set ws \<Longrightarrow> good_seg w"
  shows "path_segs (CHR ''/'' # join_with ''/'' ws) = ws"
    "path_segs (CHR ''/'' # join_with ''/'' ws @ ''/'') = ws"
    "dot_free (CHR ''/'' # join_with ''/'' ws)"
    "dot_free (CHR ''/'' # join_with ''/'' ws @ ''/'')"
proof -
  have f: "filter (\<lambda>w. w \<noteq> []) ws = ws"
    using assms by (auto simp: filter_id_conv good_seg_def)
  have n: "''.'' \<notin> set ws" "''..'' \<notin> set ws" using assms by (auto simp: good_seg_def)
  have "split_on (CHR ''/'') (join_with ''/'' ws) = (if ws = [] then [[]] else ws)"
    "split_on (CHR ''/'') (join_with ''/'' ws @ ''/'') = (if ws = [] then [[], []] else ws @ [[]])"
    using assms by (auto intro!: split_join split_join_trailing simp: good_seg_def)
  with f n show "path_segs (CHR ''/'' # join_with ''/'' ws) = ws"
    "path_segs (CHR ''/'' # join_with ''/'' ws @ ''/'') = ws"
    "dot_free (CHR ''/'' # join_with ''/'' ws)"
    "dot_free (CHR ''/'' # join_with ''/'' ws @ ''/'')"
    by (auto simp: path_segs_def dot_free_def)
qed

lemma join_path_segs:
  assumes base: "has_prefix base ''/''" "dot_free base" and nxt: "dot_free nxt"
  shows "path_segs (join_path base nxt) = path_segs base @ path_segs nxt"
    "dot_free (join_path base nxt)"
proof -
  obtain b where b: "base = CHR ''/'' # b" using base(1) by (auto simp: has_prefix_iff)
  define n where "n = (if nxt = [] then ''/'' else nxt)"
  have n: "dot_free n" "path_segs n = path_segs nxt"
    using nxt by (auto simp: n_def dot_free_def path_segs_def)
  have sp: "split_on (CHR ''/'') (b @ CHR ''/'' # n) = split_on (CHR ''/'') b @ split_on (CHR ''/'') n"
    by (rule split_on_append)
  have "\<forall>w \<in> set (split_on (CHR ''/'') b @ split_on (CHR ''/'') n). w \<noteq> ''.'' \<and> w \<noteq> ''..''"
    using base(2) n(1) unfolding b dot_free_def by auto
  then have "path_clean (base @ ''/'' @ n) =
      CHR ''/'' # join_with ''/'' (path_segs base @ path_segs n)"
    using clean_segs_no_dots [of _ True "[]"]
    by (simp add: b path_clean_rooted sp path_segs_def del: set_append)
  then have j: "join_path base nxt =
      (let j = CHR ''/'' # join_with ''/'' (path_segs base @ path_segs nxt)
       in if has_suffix n ''/'' \<and> \<not> has_suffix j ''/'' then j @ ''/'' else j)"
    using b n(2) by (auto simp: join_path_def n_def Let_def has_prefix_single)
  have good: "good_seg w" if "w \<in> set (path_segs base @ path_segs nxt)" for w
    using that path_segs_good [OF base(2)] path_segs_good [OF nxt] by auto
  show "path_segs (join_path base nxt) = path_segs base @ path_segs nxt"
    "dot_free (join_path base nxt)"
    using path_segs_join [of "path_segs base @ path_segs nxt", OF good] unfolding j Let_def by auto
qed

lemma stripped_dot_free:
  assumes "dot_free p" "has_prefix p ''/''" "path_prefix_matches p pre"
  shows "dot_free (trim_prefix p pre)"
proof -
  consider "pre = ''/''" | "p = pre" | r where "p = pre @ CHR ''/'' # r"
    using assms(3) path_prefix_matches_iff by blast
  then show ?thesis
  proof cases
    case 1
    obtain q where "p = CHR ''/'' # q" using assms(2) by (auto simp: has_prefix_iff)
    with 1 assms(1) show ?thesis by (simp add: trim_prefix_def dot_free_def has_prefix_def)
  next
    case 2
    then show ?thesis by (simp add: trim_prefix_def dot_free_def)
  next
    case (3 r)
    have "trim_prefix p pre = CHR ''/'' # r" using 3 by (simp add: trim_prefix_def has_prefix_def)
    with assms(1) 3 show ?thesis by (auto simp: dot_free_def split_on_append)
  qed
qed

lemma canonical_dot_free: "dot_free (canonical_request_path p)"
  using canonical_request_path_no_dots by (fastforce simp: dot_free_def)

lemma canonical_has_root: "has_prefix (canonical_request_path p) ''/''"
  using canonical_request_path_rooted [of p] by (auto simp: has_prefix_single)

section \<open>Properties\<close>

text \<open>
  Hop-by-hop headers stop at the proxy: after \<^verbatim>\<open>removeHopByHop\<close> every header of the fixed
  hop list and every header named by a token of a \<^verbatim>\<open>Connection\<close> value is gone, and every
  other header has exactly the values it had.
\<close>

theorem remove_hop_by_hop_exact:
  "h_values (remove_hop_by_hop h) k =
     (if canonical_header_key k \<in>
           canonical_header_key ` (set hop_headers \<union> set (connection_tokens h))
      then [] else h_values h k)"
  by (simp add: remove_hop_by_hop_def header_simps image_Un)

text \<open>
  No client-supplied identity reaches an origin: for a header map with canonical names,
  \<^verbatim>\<open>removeForwardingIdentityHeaders\<close> leaves no header that names a client (the configured
  one, any \<^verbatim>\<open>X-Forwarded-*\<close>, or a listed alternate), and keeps all other headers as they are.
\<close>

lemma forwarding_identity_removed:
  assumes "list_all (\<lambda>kv. canonical_header_key (fst kv) = fst kv) h"
  shows "gm_get (remove_forwarding_identity_headers h configured) k =
    (if is_identity_header (trim_space configured) k then None else gm_get h k)"
proof -
  let ?P = "is_identity_header (trim_space configured)"
  have canon: "canonical_header_key n = n" if "n \<in> fst ` set h" for n
    using assms that by (auto simp: list_all_iff)
  have "canonical_header_key ` set (filter ?P (map fst h)) = (\<lambda>n. n) ` set (filter ?P (map fst h))"
    using canon by (intro image_cong) auto
  then have names: "canonical_header_key ` set (filter ?P (map fst h)) = {n \<in> fst ` set h. ?P n}"
    by auto
  have "gm_get h k = None" if "k \<notin> fst ` set h"
    using that by (simp add: gm_get_def map_of_eq_None_iff)
  then show ?thesis
    unfolding remove_forwarding_identity_headers_def Let_def gm_get_del_all names by auto
qed

text \<open>
  The forwarded path stays below the upstream base path. If the request was routed by
  \<open>route_prefix\<close> and the base path of the upstream is rooted and has no dot segments, the
  path that \<^verbatim>\<open>rewriteURL\<close> builds, with or without prefix stripping, begins with the segments
  of the base path and has no dot segment, whatever dot segments or doubled slashes the client
  sent.
\<close>

theorem rewrite_stays_under_base:
  assumes "has_prefix (u_path base) ''/''"
    and "set (split_on (CHR ''/'') (u_path base)) \<inter> {''.'', ''..''} = {}"
    and "path_prefix_matches (canonical_request_path (u_path u)) route_prefix"
  shows "prefix (path_segs (u_path base)) (path_segs (u_path (rewrite_url u base route_prefix strip))) \<and>
    set (split_on (CHR ''/'') (u_path (rewrite_url u base route_prefix strip))) \<inter> {''.'', ''..''} = {}"
proof -
  define s where "s = (if strip then (let r = trim_prefix (canonical_request_path (u_path u)) route_prefix
      in if r = [] then ''/'' else r) else canonical_request_path (u_path u))"
  have "dot_free s"
    using canonical_dot_free stripped_dot_free [OF canonical_dot_free canonical_has_root assms(3)]
    by (simp add: s_def Let_def) (simp add: dot_free_def)
  moreover have "u_path (rewrite_url u base route_prefix strip) = join_path (u_path base) s"
    by (simp add: rewrite_url_def s_def Let_def)
  moreover have "dot_free (u_path base)" using assms(2) by (simp add: dot_free_def)
  ultimately show ?thesis
    using join_path_segs [OF assms(1), of s] by (simp add: dot_free_def)
qed

definition demo_url :: "string \<Rightarrow> string \<Rightarrow> go_url" where
  "demo_url p q = \<lparr>u_scheme = ''http'', u_opaque = [], u_host = ''o:1'', u_path = p, u_raw_path = [],
     u_force_query = False, u_raw_query = q, u_fragment = []\<rparr>"

theorem rewrite_stays_under_base_witness:
  "prefix [''base''] (path_segs (u_path
     (rewrite_url (demo_url ''/api/../api//x/../../api/y'' []) (demo_url ''/base'' []) ''/api'' True)))"
proof -
  have "has_prefix (u_path (demo_url ''/base'' [])) ''/''"
    "set (split_on (CHR ''/'') (u_path (demo_url ''/base'' []))) \<inter> {''.'', ''..''} = {}"
    "path_prefix_matches (canonical_request_path
       (u_path (demo_url ''/api/../api//x/../../api/y'' []))) ''/api''"
    "path_segs (u_path (demo_url ''/base'' [])) = [''base'']" by code_simp+
  with rewrite_stays_under_base [of "demo_url ''/base'' []"] show ?thesis by metis
qed

text \<open>
  The canonical request URI identifies the resource: two hierarchical URLs have the same
  \<^verbatim>\<open>canonicalRequestURI\<close> iff their canonical paths and their raw queries are equal, so
  no percent-encoding or delimiter makes two different resources share a cache key.
\<close>

lemma canonical_request_uri_identifies:
  assumes "u_opaque u = []" "u_opaque v = []" "\<not> u_force_query u" "\<not> u_force_query v"
  shows "canonical_request_uri u = canonical_request_uri v \<longleftrightarrow>
    canonical_request_path (u_path u) = canonical_request_path (u_path v) \<and>
    u_raw_query u = u_raw_query v"
proof -
  let ?p = "\<lambda>u. escape_path (canonical_request_path (u_path u))"
  have uri: "canonical_request_uri w = (if u_raw_query w = [] then ?p w else ?p w @ CHR ''?'' # u_raw_query w)"
    if "u_opaque w = []" "\<not> u_force_query w" for w
    using that canonical_request_path_rooted [of "u_path w"]
    by (auto simp: canonical_request_uri_def url_request_uri_def Let_def)
  have no: "CHR ''?'' \<notin> set (?p w)" for w by (rule escape_path_no_query)
  have "canonical_request_uri u = canonical_request_uri v \<longleftrightarrow> ?p u = ?p v \<and> u_raw_query u = u_raw_query v"
  proof (cases "u_raw_query u = []"; cases "u_raw_query v = []")
    assume q: "u_raw_query u = []" "u_raw_query v \<noteq> []"
    have "?p u \<noteq> ?p v @ CHR ''?'' # u_raw_query v" using no [of u] by (metis in_set_conv_decomp)
    with q assms show ?thesis by (simp add: uri)
  next
    assume q: "u_raw_query u \<noteq> []" "u_raw_query v = []"
    have "?p u @ CHR ''?'' # u_raw_query u \<noteq> ?p v" using no [of v] by (metis in_set_conv_decomp)
    with q assms show ?thesis by (simp add: uri)
  next
    assume q: "u_raw_query u \<noteq> []" "u_raw_query v \<noteq> []"
    have "?p u @ CHR ''?'' # u_raw_query u = ?p v @ CHR ''?'' # u_raw_query v \<longleftrightarrow>
        ?p u = ?p v \<and> u_raw_query u = u_raw_query v"
      using append_sep_eq [OF _ no no, of u "u_raw_query u" v "u_raw_query v"] by (rule iffI) simp_all
    with q assms show ?thesis by (simp add: uri)
  qed (use assms in \<open>simp add: uri\<close>)
  then show ?thesis using escape_path_inj by metis
qed

end
