(* ===== verification/Cache_Policy.thy ===== *)
theory Cache_Policy
  imports Http_Helpers Lru_Cache
begin

text \<open>
  When EdgeProxy may serve from and store into its shared cache, and under which key:
  \<^verbatim>\<open>apps/edgeproxy/internal/proxy/cache_policy.go\<close>. The definitions cover the whole file:
  cache keys and their parser, the base64 fields, request and response cache decisions,
  Cache-Control parsing, conditional requests and \<^verbatim>\<open>Vary\<close>. \<^verbatim>\<open>http.ParseTime\<close> and
  SHA-256 are parameters. Durations are int64 nanoseconds: the one subtraction of the response
  policy that can leave the range is written with its wrap-around.
\<close>

record cache_config =
  cc_enabled :: bool
  cc_default_ttl :: duration
  cc_stale_if_error :: duration
  cc_max_entries :: int
  cc_max_bytes :: int
  cc_max_object_bytes :: int
  cc_respect_origin :: bool
  cc_authorized :: bool
  cc_cookie :: bool
  cc_set_cookie :: bool
  cc_vary :: "string list"
  cc_statuses :: "int list"

section \<open>Base64 fields\<close>

definition b64_alphabet :: string where
  "b64_alphabet = ''ABCDEFGHIJKLMNOPQRSTUVWXYZabcdefghijklmnopqrstuvwxyz0123456789-_''"

definition b64_char :: "nat \<Rightarrow> char" where "b64_char d = b64_alphabet ! (d mod 64)"
definition b64_digit :: "char \<Rightarrow> nat option" where "b64_digit c = index_byte b64_alphabet c"

fun encode_cache_key_field :: "string \<Rightarrow> string" where
  "encode_cache_key_field [] = []"
| "encode_cache_key_field [a] =
     (let x = of_char a in [b64_char (x div 4), b64_char (x mod 4 * 16)])"
| "encode_cache_key_field [a, b] =
     (let x = of_char a; y = of_char b
      in [b64_char (x div 4), b64_char (x mod 4 * 16 + y div 16), b64_char (y mod 16 * 4)])"
| "encode_cache_key_field (a # b # c # s) =
     (let x = of_char a; y = of_char b; z = of_char c
      in b64_char (x div 4) # b64_char (x mod 4 * 16 + y div 16)
         # b64_char (y mod 16 * 4 + z div 64) # b64_char (z mod 64) # encode_cache_key_field s)"

text \<open>The decoder works on the digit values; line breaks in the input are skipped.\<close>

fun b64_bytes :: "nat list \<Rightarrow> string option" where
  "b64_bytes [] = Some []"
| "b64_bytes [p] = None"
| "b64_bytes [p, q] = Some [char_of (p * 4 + q div 16)]"
| "b64_bytes [p, q, r] = Some [char_of (p * 4 + q div 16), char_of (q mod 16 * 16 + r div 4)]"
| "b64_bytes (p # q # r # t # ds) =
     map_option (\<lambda>s. char_of (p * 4 + q div 16) # char_of (q mod 16 * 16 + r div 4)
       # char_of (r mod 4 * 64 + t) # s) (b64_bytes ds)"

definition decode_cache_key_field :: "string \<Rightarrow> string option" where
  "decode_cache_key_field s =
     Option.bind (those (map b64_digit (filter (\<lambda>c. c \<noteq> CHR 0x0A \<and> c \<noteq> CHR 0x0D) s))) b64_bytes"

section \<open>Cache keys\<close>

definition join_host_port :: "string \<Rightarrow> string \<Rightarrow> string" where
  "join_host_port host port =
     (if CHR '':'' \<in> set host then ''['' @ host @ '']:'' @ port else host @ '':'' @ port)"

definition cache_host :: "string \<Rightarrow> string" where
  "cache_host hostport0 =
     (let hp = to_lower (trim_space hostport0) in
      case split_host_port hp of
        Some (host, port) \<Rightarrow>
          (let h = trim_suffix host ''.'';
               h' = (case parse_ip h of Some ip \<Rightarrow> ip_string ip | None \<Rightarrow> h)
           in join_host_port h' port)
      | None \<Rightarrow>
          (case (if has_prefix hp ''['' \<and> has_suffix hp '']''
                 then parse_ip (trim_suffix (trim_prefix hp ''['') '']'') else None) of
             Some ip \<Rightarrow> ip_string ip
           | None \<Rightarrow>
               (case parse_ip hp of
                  Some ip \<Rightarrow> ip_string ip
                | None \<Rightarrow> trim_suffix hp ''.'')))"

text \<open>The closure \<^verbatim>\<open>appendHeader\<close> keeps a set of names already written; the names it writes,
  in order, are these (canonical name with its lower-case key).\<close>

fun key_names :: "string list \<Rightarrow> string list \<Rightarrow> (string \<times> string) list" where
  "key_names seen [] = []"
| "key_names seen (name # names) =
     (let canonical = canonical_header_key (trim_space name); key = to_lower canonical in
      if canonical = [] then key_names seen names
      else if key \<in> set seen then key_names seen names
      else (canonical, key) # key_names (key # seen) names)"

definition config_key_names :: "cache_config \<Rightarrow> (string \<times> string) list" where
  "config_key_names cfg = key_names []
     (cc_vary cfg @ (if cc_authorized cfg then [''Authorization''] else [])
      @ (if cc_cookie cfg then [''Cookie''] else []))"

definition key_header_digest ::
  "(string \<Rightarrow> string) \<Rightarrow> http_request \<Rightarrow> string \<Rightarrow> string" where
  "key_header_digest sha256 req canonical =
     sha256 (concat (map (\<lambda>v. v @ [CHR 0x00]) (h_values (rq_header req) canonical)))"

definition cache_key :: "(string \<Rightarrow> string) \<Rightarrow> http_request \<Rightarrow> cache_config \<Rightarrow> string" where
  "cache_key sha256 req cfg =
     (let m = (if rq_method req = ''HEAD'' then ''GET'' else rq_method req)
      in ''method='' @ m @ ''|host64='' @ encode_cache_key_field (cache_host (rq_host req))
         @ ''|uri64='' @ encode_cache_key_field (canonical_request_uri (rq_url req))
         @ concat (map (\<lambda>(canonical, key).
             ''|h:'' @ key @ ''='' @ hex_encode (key_header_digest sha256 req canonical))
             (config_key_names cfg)))"

fun key_fields :: "string list \<Rightarrow> string \<times> string \<Rightarrow> string \<times> string" where
  "key_fields [] acc = acc"
| "key_fields (f # fs) (host, uri) =
     (if has_prefix f ''host64='' then key_fields fs (trim_prefix f ''host64='', uri)
      else if has_prefix f ''uri64='' then key_fields fs (host, trim_prefix f ''uri64='')
      else key_fields fs (host, uri))"

definition cache_key_request :: "string \<Rightarrow> (string \<times> string) option" where
  "cache_key_request key =
     (case key_fields (split_on (CHR ''|'') key) ([], []) of
        (eh, eu) \<Rightarrow>
          if eh = [] \<or> eu = [] then None
          else (case decode_cache_key_field eh of
                  None \<Rightarrow> None
                | Some host \<Rightarrow>
                    (case decode_cache_key_field eu of
                       None \<Rightarrow> None
                     | Some uri \<Rightarrow> Some (host, uri))))"

section \<open>Header lists and Cache-Control\<close>

fun split_list_from :: "bool \<Rightarrow> bool \<Rightarrow> string \<Rightarrow> string \<Rightarrow> string list option" where
  "split_list_from quoted escaped item [] =
     (if quoted \<or> escaped then None else Some [item])"
| "split_list_from quoted escaped item (c # s) =
     (if escaped then split_list_from quoted False (item @ [c]) s
      else if quoted \<and> c = CHR 0x5C then split_list_from quoted True (item @ [c]) s
      else if c = CHR 0x22 then split_list_from (\<not> quoted) False (item @ [c]) s
      else if c = CHR '','' \<and> \<not> quoted
        then map_option (\<lambda>items. item # items) (split_list_from False False [] s)
      else split_list_from quoted False (item @ [c]) s)"

definition split_header_list :: "string \<Rightarrow> string list option" where
  "split_header_list v = split_list_from False False [] v"

fun unescape_quoted :: "bool \<Rightarrow> string \<Rightarrow> string" where
  "unescape_quoted escaped [] = (if escaped then [CHR 0x5C] else [])"
| "unescape_quoted escaped (c # s) =
     (if escaped then c # unescape_quoted False s
      else if c = CHR 0x5C then unescape_quoted True s
      else c # unescape_quoted False s)"

definition unquote_header_value :: "string \<Rightarrow> string" where
  "unquote_header_value v =
     (if length v < 2 \<or> hd v \<noteq> CHR 0x22 \<or> last v \<noteq> CHR 0x22 then v
      else unescape_quoted False (butlast (tl v)))"

record parsed_cache_control =
  pc_directives :: "(string, string) gomap"
  pc_duplicates :: "string list"
  pc_invalid :: bool

definition add_directive :: "string \<Rightarrow> parsed_cache_control \<Rightarrow> parsed_cache_control" where
  "add_directive directive p =
     (case cut (CHR ''='') (trim_space directive) of
        (name, arg) \<Rightarrow>
          let key = to_lower (trim_space name) in
          if key = [] then p\<lparr>pc_invalid := True\<rparr>
          else if gm_get (pc_directives p) key \<noteq> None then p\<lparr>pc_duplicates := key # pc_duplicates p\<rparr>
          else p\<lparr>pc_directives := gm_put key
                   (case arg of None \<Rightarrow> ''1'' | Some a \<Rightarrow> unquote_header_value (trim_space a))
                   (pc_directives p)\<rparr>)"

definition add_cache_control_value :: "string \<Rightarrow> parsed_cache_control \<Rightarrow> parsed_cache_control" where
  "add_cache_control_value v p =
     (case split_header_list v of
        None \<Rightarrow> p\<lparr>pc_invalid := True\<rparr>
      | Some directives \<Rightarrow> fold add_directive directives p)"

definition parse_cache_control_detailed :: "string list \<Rightarrow> parsed_cache_control" where
  "parse_cache_control_detailed vals =
     fold add_cache_control_value vals \<lparr>pc_directives = [], pc_duplicates = [], pc_invalid = False\<rparr>"

definition parse_cache_control :: "string list \<Rightarrow> (string, string) gomap" where
  "parse_cache_control vals = pc_directives (parse_cache_control_detailed vals)"

definition has_cache_directive :: "(string, string) gomap \<Rightarrow> string \<Rightarrow> bool" where
  "has_cache_directive ds name \<longleftrightarrow> gm_get ds (to_lower name) \<noteq> None"

definition header_has_non_empty_value :: "header \<Rightarrow> string \<Rightarrow> bool" where
  "header_has_non_empty_value h name = list_ex (\<lambda>v. trim_space v \<noteq> []) (h_values h name)"

fun first_non_empty :: "string list \<Rightarrow> string" where
  "first_non_empty [] = []"
| "first_non_empty (v # vs) = (if v \<noteq> [] then v else first_non_empty vs)"

definition max_duration_seconds :: int where
  "max_duration_seconds = max_int64 div second"

definition cache_delta_seconds :: "string \<Rightarrow> int option" where
  "cache_delta_seconds v =
     (case parse_int64 (trim_space v) of
        None \<Rightarrow> None
      | Some s \<Rightarrow> if s < 0 \<or> s > max_duration_seconds then None else Some s)"

section \<open>Request side\<close>

definition request_allows_cached_entry :: "http_request option \<Rightarrow> cache_entry \<Rightarrow> time \<Rightarrow> bool" where
  "request_allows_cached_entry req entry now =
     (case req of
        None \<Rightarrow> True
      | Some r \<Rightarrow>
          let parsed = parse_cache_control_detailed (h_values (rq_header r) ''Cache-Control'') in
          if pc_invalid parsed \<or> ''max-age'' \<in> set (pc_duplicates parsed) then False
          else (case gm_get (pc_directives parsed) ''max-age'' of
                  None \<Rightarrow> True
                | Some raw \<Rightarrow>
                    (case cache_delta_seconds raw of
                       None \<Rightarrow> True
                     | Some seconds \<Rightarrow>
                         let age = max 0 (time_sub now (ce_stored_at entry))
                         in age \<le> seconds * second)))"

definition request_cache_mode :: "http_request \<Rightarrow> cache_config \<Rightarrow> bool \<times> bool \<times> string" where
  "request_cache_mode req cfg =
     (let h = rq_header req in
      if \<not> cc_enabled cfg then (False, False, ''disabled'')
      else if has_protocol_upgrade h then (False, False, ''protocol-upgrade'')
      else if rq_method req \<noteq> ''GET'' \<and> rq_method req \<noteq> ''HEAD'' then (False, False, ''method'')
      else if header_has_non_empty_value h ''Range'' then (False, False, ''range'')
      else
        let parsed = parse_cache_control_detailed (h_values h ''Cache-Control'') in
        if pc_invalid parsed \<or> ''max-age'' \<in> set (pc_duplicates parsed)
          then (False, False, ''invalid-cache-control'')
        else
          let cc = pc_directives parsed in
          if has_cache_directive cc ''no-store'' then (False, False, ''request-no-store'')
          else if header_has_non_empty_value h ''Authorization'' \<and> \<not> cc_authorized cfg
            then (False, False, ''authorization'')
          else if header_has_non_empty_value h ''Cookie'' \<and> \<not> cc_cookie cfg
            then (False, False, ''cookie'')
          else
            let force = (has_cache_directive cc ''no-cache''
                         \<or> header_has_token (h_values h ''Pragma'') ''no-cache'')
                        \<or> (case gm_get cc ''max-age'' of
                              None \<Rightarrow> False
                            | Some raw \<Rightarrow> cache_delta_seconds raw = Some 0)
            in (\<not> force, True, []))"

section \<open>Response side\<close>

record origin_response =
  or_status :: int
  or_header :: header

definition max_age_seconds :: int where "max_age_seconds = 100 * 365 * 24 * 60 * 60"

definition response_initial_age :: "(string \<Rightarrow> time option) \<Rightarrow> header \<Rightarrow> time \<Rightarrow> duration" where
  "response_initial_age parse_time h now =
     (let raw = trim_space (h_get h ''Age'');
          age = (if raw = [] then 0
                 else (case parse_int64 raw of
                         None \<Rightarrow> 0
                       | Some s \<Rightarrow> if s < 0 then 0 else min s max_age_seconds * second))
      in case parse_time (h_get h ''Date'') of
           None \<Rightarrow> age
         | Some date \<Rightarrow> if now > date then max age (time_sub now date) else age)"

fun vary_names_allowed :: "string list \<Rightarrow> string list \<Rightarrow> bool" where
  "vary_names_allowed allowed [] = True"
| "vary_names_allowed allowed (raw # rest) =
     (let name = to_lower (trim_space raw) in
      if name = [] then vary_names_allowed allowed rest
      else if name = ''*'' then False
      else if name \<notin> set allowed then False
      else vary_names_allowed allowed rest)"

definition vary_is_supported :: "string list \<Rightarrow> cache_config \<Rightarrow> bool" where
  "vary_is_supported vals cfg =
     (let allowed = map (\<lambda>n. to_lower (trim_space n)) (cc_vary cfg)
          @ (if cc_authorized cfg then [''authorization''] else [])
          @ (if cc_cookie cfg then [''cookie''] else [])
      in vary_names_allowed allowed (concat (map (split_on (CHR '','')) vals)))"

text \<open>The \<^verbatim>\<open>switch\<close> that picks the freshness lifetime: \<open>None\<close> is \<^verbatim>\<open>return false\<close>.\<close>

definition origin_lifetime ::
  "(string \<Rightarrow> time option) \<Rightarrow> (string, string) gomap \<Rightarrow> header \<Rightarrow> cache_config \<Rightarrow> time
     \<Rightarrow> duration option" where
  "origin_lifetime parse_time cc h cfg now =
     (if has_cache_directive cc ''s-maxage'' then
        map_option (\<lambda>s. s * second) (cache_delta_seconds (the (gm_get cc ''s-maxage'')))
      else if has_cache_directive cc ''max-age'' then
        map_option (\<lambda>s. s * second) (cache_delta_seconds (the (gm_get cc ''max-age'')))
      else if trim_space (h_get h ''Expires'') \<noteq> [] then
        (case parse_time (h_get h ''Expires'') of
           None \<Rightarrow> None
         | Some expires \<Rightarrow>
             let reference = (case parse_time (h_get h ''Date'') of Some date \<Rightarrow> date | None \<Rightarrow> now)
             in Some (time_sub expires reference))
      else Some (cc_default_ttl cfg))"

text \<open>The result is \<open>None\<close> when the response is not cacheable, otherwise the expiry instant, the
  end of the stale period and the initial age.\<close>

definition response_cache_policy ::
  "(string \<Rightarrow> time option) \<Rightarrow> origin_response \<Rightarrow> cache_config \<Rightarrow> time
     \<Rightarrow> (time \<times> time \<times> duration) option" where
  "response_cache_policy parse_time resp cfg now =
     (let h = or_header resp in
      if or_status resp \<notin> set (cc_statuses cfg) then None
      else if header_has_non_empty_value h ''Set-Cookie'' \<and> \<not> cc_set_cookie cfg then None
      else if \<not> vary_is_supported (h_values h ''Vary'') cfg then None
      else
        let parsed = parse_cache_control_detailed (h_values h ''Cache-Control'');
            cc = pc_directives parsed;
            initial_age = response_initial_age parse_time h now;
            allow_stale = \<not> (cc_respect_origin cfg \<and>
              (has_cache_directive cc ''must-revalidate'' \<or> has_cache_directive cc ''proxy-revalidate''));
            ttl_age =
              (if cc_respect_origin cfg then
                 if pc_invalid parsed \<or> ''max-age'' \<in> set (pc_duplicates parsed)
                    \<or> ''s-maxage'' \<in> set (pc_duplicates parsed) then None
                 else if has_cache_directive cc ''no-store'' \<or> has_cache_directive cc ''private''
                    \<or> has_cache_directive cc ''no-cache''
                    \<or> header_has_token (h_values h ''Pragma'') ''no-cache'' then None
                 else map_option (\<lambda>ttl. (wrap_int64 (ttl - initial_age), initial_age))
                        (origin_lifetime parse_time cc h cfg now)
               else Some (cc_default_ttl cfg, 0))
        in case ttl_age of
             None \<Rightarrow> None
           | Some (ttl, age) \<Rightarrow>
               if ttl \<le> 0 then None
               else let expires_at = now + ttl
                    in Some (expires_at,
                             if allow_stale then expires_at + cc_stale_if_error cfg else expires_at,
                             age))"

section \<open>Conditional requests\<close>

definition normalize_etag :: "string \<Rightarrow> string" where
  "normalize_etag v0 =
     (let v = trim_space v0;
          w = (if length v \<ge> 2 \<and> (has_prefix v ''W/'' \<or> has_prefix v ''w/'')
               then trim_space (drop 2 v) else v)
      in if length w < 2 \<or> hd w \<noteq> CHR 0x22 \<or> last w \<noteq> CHR 0x22 then [] else w)"

definition weak_etag_match :: "string list \<Rightarrow> string \<Rightarrow> bool" where
  "weak_etag_match items current0 =
     (let current = normalize_etag current0 in
      if current = [] then False
      else list_ex (\<lambda>raw. normalize_etag (trim_space raw) = current) items)"

definition if_none_match_wildcard :: "string list \<Rightarrow> bool" where
  "if_none_match_wildcard items = list_ex (\<lambda>raw. trim_space raw = ''*'') items"

definition parse_header_list_values :: "string list \<Rightarrow> string list option" where
  "parse_header_list_values vals = map_option concat (those (map split_header_list vals))"

definition conditional_not_modified ::
  "(string \<Rightarrow> time option) \<Rightarrow> http_request \<Rightarrow> header \<Rightarrow> int \<Rightarrow> bool" where
  "conditional_not_modified parse_time req h status =
     (if status < 200 \<or> status \<ge> 300 then False
      else
        let vals = h_values (rq_header req) ''If-None-Match'' in
        if vals \<noteq> [] then
          (case parse_header_list_values vals of
             None \<Rightarrow> False
           | Some items \<Rightarrow>
               if if_none_match_wildcard items then True else weak_etag_match items (h_get h ''ETag''))
        else
          let ims = h_get (rq_header req) ''If-Modified-Since'' in
          if ims \<noteq> [] then
            (case (parse_time (h_get h ''Last-Modified''), parse_time ims) of
               (Some modified, Some since) \<Rightarrow> \<not> modified > since
             | _ \<Rightarrow> False)
          else False)"

section \<open>Lemmas on keys\<close>

fun b64_digits :: "string \<Rightarrow> nat list" where
  "b64_digits [] = []"
| "b64_digits [a] = (let x = of_char a in [x div 4, x mod 4 * 16])"
| "b64_digits [a, b] =
     (let x = of_char a; y = of_char b in [x div 4, x mod 4 * 16 + y div 16, y mod 16 * 4])"
| "b64_digits (a # b # c # s) =
     (let x = of_char a; y = of_char b; z = of_char c
      in (x div 4) # (x mod 4 * 16 + y div 16) # (y mod 16 * 4 + z div 64) # (z mod 64) # b64_digits s)"

lemma encode_digits: "encode_cache_key_field s = map b64_char (b64_digits s)"
  by (induction s rule: b64_digits.induct) (simp_all add: Let_def)

lemma byte_arith:
  fixes x y z :: nat
  assumes "x < 256" "y < 256" "z < 256"
  shows "x div 4 < 64" "x mod 4 * 16 + y div 16 < 64" "y mod 16 * 4 + z div 64 < 64" "z mod 64 < 64"
    "x div 4 * 4 + (x mod 4 * 16 + y div 16) div 16 = x"
    "(x mod 4 * 16 + y div 16) mod 16 * 16 + (y mod 16 * 4 + z div 64) div 4 = y"
    "(y mod 16 * 4 + z div 64) mod 4 * 64 + z mod 64 = z"
proof -
  have a: "y div 16 < 16" "z div 64 < 4" "x mod 4 < 4" "y mod 16 < 16" using assms by auto
  have s1: "(x mod 4 * 16 + y div 16) div 16 = x mod 4" "(x mod 4 * 16 + y div 16) mod 16 = y div 16"
    using a(1) by simp_all
  have s2: "(y mod 16 * 4 + z div 64) div 4 = y mod 16" "(y mod 16 * 4 + z div 64) mod 4 = z div 64"
    using a(2) by simp_all
  show "x div 4 * 4 + (x mod 4 * 16 + y div 16) div 16 = x" unfolding s1 by simp
  show "(x mod 4 * 16 + y div 16) mod 16 * 16 + (y mod 16 * 4 + z div 64) div 4 = y"
    unfolding s1 s2 by simp
  show "(y mod 16 * 4 + z div 64) mod 4 * 64 + z mod 64 = z" unfolding s2 by simp
  show "x div 4 < 64" "x mod 4 * 16 + y div 16 < 64" "y mod 16 * 4 + z div 64 < 64" "z mod 64 < 64"
    using a assms by linarith+
qed

lemma of_char_byte: "(of_char c :: nat) < 256"
  by simp

lemma b64_digits_lt: "d \<in> set (b64_digits s) \<Longrightarrow> d < 64"
proof (induction s rule: b64_digits.induct)
  case (2 a)
  then show ?case using byte_arith [of "of_char a" 0 0] by (auto simp: Let_def)
next
  case (3 a b)
  then show ?case using byte_arith [of "of_char a" "of_char b" 0] by (auto simp: Let_def)
next
  case (4 a b c s)
  then show ?case using byte_arith [OF of_char_byte [of a] of_char_byte [of b] of_char_byte [of c]] by (auto simp: Let_def)
qed simp

lemma b64_bytes_digits: "b64_bytes (b64_digits s) = Some s"
proof (induction s rule: b64_digits.induct)
  case (2 a)
  then show ?case using byte_arith [of "of_char a" 0 0] by (simp add: Let_def)
next
  case (3 a b)
  then show ?case using byte_arith [of "of_char a" "of_char b" 0] by (simp add: Let_def)
next
  case (4 a b c s)
  then show ?case using byte_arith [OF of_char_byte [of a] of_char_byte [of b] of_char_byte [of c]] by (simp add: Let_def)
qed simp

lemma b64_char_facts:
  assumes "d < 64"
  shows "b64_digit (b64_char d) = Some d" "b64_char d \<noteq> CHR ''|''"
    "b64_char d \<noteq> CHR 0x0A" "b64_char d \<noteq> CHR 0x0D"
proof -
  have "list_all (\<lambda>d. b64_digit (b64_char d) = Some d \<and> b64_char d \<noteq> CHR ''|'' \<and>
      b64_char d \<noteq> CHR 0x0A \<and> b64_char d \<noteq> CHR 0x0D) [0..<64]" by code_simp
  then show "b64_digit (b64_char d) = Some d" "b64_char d \<noteq> CHR ''|''"
    "b64_char d \<noteq> CHR 0x0A" "b64_char d \<noteq> CHR 0x0D"
    using assms by (auto simp: list_all_iff)
qed

lemma those_map_Some: "(\<And>x. x \<in> set xs \<Longrightarrow> f x = Some (g x)) \<Longrightarrow> those (map f xs) = Some (map g xs)"
  by (induction xs) auto

lemma decode_encode: "decode_cache_key_field (encode_cache_key_field s) = Some s"
proof -
  have "filter (\<lambda>c. c \<noteq> CHR 0x0A \<and> c \<noteq> CHR 0x0D) (encode_cache_key_field s) = encode_cache_key_field s"
    using b64_char_facts(3,4) b64_digits_lt by (auto simp: encode_digits filter_id_conv)
  moreover have "those (map b64_digit (encode_cache_key_field s)) = Some (b64_digits s)"
    using those_map_Some [of "b64_digits s" "b64_digit \<circ> b64_char" "\<lambda>d. d"]
      b64_char_facts(1) b64_digits_lt by (simp add: encode_digits)
  ultimately show ?thesis by (simp add: decode_cache_key_field_def b64_bytes_digits)
qed

lemma encode_no_bar: "CHR ''|'' \<notin> set (encode_cache_key_field s)"
  using b64_char_facts(2) b64_digits_lt by (force simp: encode_digits)

lemma encode_eq_Nil: "encode_cache_key_field s = [] \<longleftrightarrow> s = []"
  by (cases s rule: b64_digits.cases) (simp_all add: encode_digits Let_def)

lemma digit_char_no_bar: "0 \<le> d \<Longrightarrow> d < 16 \<Longrightarrow> digit_char d \<noteq> CHR ''|''"
proof -
  have "list_all (\<lambda>d. digit_char d \<noteq> CHR ''|'') [0..15]" by code_simp
  moreover assume "0 \<le> d" "d < 16"
  ultimately show ?thesis by (auto simp: list_all_iff)
qed

lemma of_char_int_range: "0 \<le> (of_char c :: int)" "(of_char c :: int) < 256"
proof -
  have "(of_char c :: int) = int (of_char c)" by (cases c) (simp add: of_char_def)
  then show "0 \<le> (of_char c :: int)" "(of_char c :: int) < 256"
    using of_char_byte [of c] by (simp_all del: of_nat_of_char)
qed

lemma hex_encode_no_bar: "CHR ''|'' \<notin> set (hex_encode bs)"
proof (induction bs)
  case (Cons b bs)
  have "(of_char b :: int) div 16 < 16" "0 \<le> (of_char b :: int) div 16"
    "0 \<le> (of_char b :: int) mod 16" "(of_char b :: int) mod 16 < 16"
    using of_char_int_range [of b] by auto
  then have "digit_char (of_char b div 16) \<noteq> CHR ''|''" "digit_char (of_char b mod 16) \<noteq> CHR ''|''"
    using digit_char_no_bar by blast+
  then show ?case using Cons by (auto simp: hex_encode_def)
qed (simp add: hex_encode_def)

lemma digit_char_inj:
  assumes "0 \<le> d" "d < 16" "0 \<le> e" "e < 16" "digit_char d = digit_char e"
  shows "d = e"
proof -
  have "list_all (\<lambda>d. list_all (\<lambda>e. digit_char d = digit_char e \<longrightarrow> d = e) [0..15]) [0..15]"
    by code_simp
  with assms show ?thesis by (auto simp: list_all_iff)
qed

lemma hex_encode_inj: "hex_encode xs = hex_encode ys \<Longrightarrow> xs = ys"
proof (induction xs arbitrary: ys)
  case Nil
  then show ?case by (cases ys) (auto simp: hex_encode_def)
next
  case (Cons x xs)
  then obtain y ys' where ys: "ys = y # ys'" by (cases ys) (auto simp: hex_encode_def)
  have r: "0 \<le> (of_char c :: int) div 16" "(of_char c :: int) div 16 < 16" for c
    using of_char_int_range [of c] by auto
  have "(of_char x :: int) div 16 = of_char y div 16" "(of_char x :: int) mod 16 = of_char y mod 16"
    using Cons.prems ys r [of x] r [of y]
    by (auto simp: hex_encode_def intro: digit_char_inj)
  then have "(of_char x :: int) = of_char y" by (metis div_mult_mod_eq)
  with Cons ys show ?case by (simp add: hex_encode_def)
qed

lemma split_on_fields:
  assumes "sep \<notin> set w" "\<And>v. v \<in> set ws \<Longrightarrow> sep \<notin> set v"
  shows "split_on sep (w @ concat (map (\<lambda>v. sep # v) ws)) = w # ws"
  using assms by (induction ws arbitrary: w) (auto simp: split_on_word split_on_append_word)

definition key_field_list :: "(string \<Rightarrow> string) \<Rightarrow> http_request \<Rightarrow> cache_config \<Rightarrow> string list" where
  "key_field_list sha256 req cfg =
     (''host64='' @ encode_cache_key_field (cache_host (rq_host req)))
     # (''uri64='' @ encode_cache_key_field (canonical_request_uri (rq_url req)))
     # map (\<lambda>x. ''h:'' @ snd x @ ''='' @ hex_encode (key_header_digest sha256 req (fst x))) (config_key_names cfg)"

definition bar_free_config :: "cache_config \<Rightarrow> bool" where
  "bar_free_config cfg = list_all (\<lambda>x. CHR ''|'' \<notin> set (snd x)) (config_key_names cfg)"

lemma cache_key_fields:
  assumes "CHR ''|'' \<notin> set (rq_method req)" "bar_free_config cfg"
  shows "split_on (CHR ''|'') (cache_key sha256 req cfg) =
    (''method='' @ (if rq_method req = ''HEAD'' then ''GET'' else rq_method req)) # key_field_list sha256 req cfg"
proof -
  let ?m = "''method='' @ (if rq_method req = ''HEAD'' then ''GET'' else rq_method req)"
  have "cache_key sha256 req cfg = ?m @ concat (map (\<lambda>v. CHR ''|'' # v) (key_field_list sha256 req cfg))"
    by (simp add: cache_key_def key_field_list_def Let_def comp_def case_prod_unfold)
  moreover have "CHR ''|'' \<notin> set ?m" using assms(1) by simp
  moreover have "CHR ''|'' \<notin> set v" if "v \<in> set (key_field_list sha256 req cfg)" for v
    using that assms(2) encode_no_bar hex_encode_no_bar
    by (auto simp: key_field_list_def bar_free_config_def list_all_iff)
  ultimately show ?thesis by (simp add: split_on_fields)
qed

lemma key_fields_headers:
  "list_all (\<lambda>f. has_prefix f ''h:'') fs \<Longrightarrow> key_fields fs acc = acc"
proof (induction fs acc rule: key_fields.induct)
  case (2 f fs host uri)
  then show ?case by (auto simp: has_prefix_iff)
qed simp

lemma canonical_request_uri_not_Nil: "canonical_request_uri u \<noteq> []"
  using canonical_request_path_rooted [of "u_path u"]
  by (auto simp: canonical_request_uri_def url_request_uri_def Let_def)

lemma key_names_complete:
  "n \<in> set ns \<Longrightarrow> canonical_header_key (trim_space n) \<noteq> [] \<Longrightarrow>
     to_lower (canonical_header_key (trim_space n)) \<in> snd ` set (key_names seen ns) \<union> set seen"
  by (induction seen ns rule: key_names.induct) (fastforce simp: Let_def split: if_splits)+

lemma credential_keys:
  "(cc_authorized cfg \<longrightarrow> ''authorization'' \<in> snd ` set (config_key_names cfg)) \<and>
   (cc_cookie cfg \<longrightarrow> ''cookie'' \<in> snd ` set (config_key_names cfg))"
proof -
  let ?ns = "cc_vary cfg @ (if cc_authorized cfg then [''Authorization''] else [])
      @ (if cc_cookie cfg then [''Cookie''] else [])"
  have "to_lower (canonical_header_key (trim_space ''Authorization'')) = ''authorization''"
    "to_lower (canonical_header_key (trim_space ''Cookie'')) = ''cookie''"
    "canonical_header_key (trim_space ''Authorization'') \<noteq> []"
    "canonical_header_key (trim_space ''Cookie'') \<noteq> []" by code_simp+
  then show ?thesis
    using key_names_complete [of "''Authorization''" ?ns "[]"]
      key_names_complete [of "''Cookie''" ?ns "[]"]
    unfolding config_key_names_def by (cases "cc_authorized cfg"; cases "cc_cookie cfg") simp_all
qed

section \<open>Canonical header names\<close>

lemma upper_code: "is_lower_letter c \<Longrightarrow> of_char (upper_char c) = (of_char c :: nat) - 32"
  by (auto simp: is_lower_letter_def upper_char_def Let_def)

lemma lower_code: "is_upper_letter c \<Longrightarrow> of_char (lower_char c) = (of_char c :: nat) + 32"
  by (auto simp: is_upper_letter_def lower_char_def Let_def)

lemma letter_cases:
  "is_lower_letter c \<Longrightarrow> is_upper_letter (upper_char c) \<and> upper_char (upper_char c) = upper_char c \<and> upper_char c \<noteq> CHR ''-'' \<and> c \<noteq> CHR ''-''"
  "is_upper_letter c \<Longrightarrow> is_lower_letter (lower_char c) \<and> lower_char c \<noteq> CHR ''-'' \<and> c \<noteq> CHR ''-''"
proof -
  have up: "upper_char d = d" "d \<noteq> CHR ''-''" if "is_upper_letter d" for d
    using that by (auto simp: is_upper_letter_def upper_char_def Let_def)
  have lo: "d \<noteq> CHR ''-''" if "is_lower_letter d" for d using that by (auto simp: is_lower_letter_def Let_def)
  show "is_upper_letter (upper_char c) \<and> upper_char (upper_char c) = upper_char c \<and> upper_char c \<noteq> CHR ''-'' \<and> c \<noteq> CHR ''-''"
    if l: "is_lower_letter c"
  proof -
    have "is_upper_letter (upper_char c)" using upper_code [OF l] l unfolding is_upper_letter_def is_lower_letter_def Let_def by arith
    then show ?thesis using up lo [OF l] by blast
  qed
  show "is_lower_letter (lower_char c) \<and> lower_char c \<noteq> CHR ''-'' \<and> c \<noteq> CHR ''-''" if u: "is_upper_letter c"
  proof -
    have "is_lower_letter (lower_char c)" using lower_code [OF u] u unfolding is_upper_letter_def is_lower_letter_def Let_def by simp
    then show ?thesis using lo up(2) [OF u] by blast
  qed
qed

lemma token_case:
  assumes "is_token_char c"
  shows "is_token_char (upper_char c)" "is_token_char (lower_char c)" "upper_char (upper_char c) = upper_char c"
    "(upper_char c = CHR ''-'') = (c = CHR ''-'')" "(lower_char c = CHR ''-'') = (c = CHR ''-'')"
proof -
  have t: "is_lower_letter d \<Longrightarrow> is_token_char d" "is_upper_letter d \<Longrightarrow> is_token_char d" for d by (simp_all add: is_token_char_def)
  show "is_token_char (upper_char c)" "upper_char (upper_char c) = upper_char c" "(upper_char c = CHR ''-'') = (c = CHR ''-'')"
    using assms letter_cases(1) [of c] case_same(1) [of c] t by (cases "is_lower_letter c"; metis)+
  show "is_token_char (lower_char c)" "(lower_char c = CHR ''-'') = (c = CHR ''-'')"
    using assms letter_cases(2) [of c] case_same(2) [of c] t by (cases "is_upper_letter c"; metis)+
qed

lemma canon_walk_fixed: "list_all is_token_char s \<Longrightarrow> list_all is_token_char (canon_walk b s) \<and> canon_walk b (canon_walk b s) = canon_walk b s"
proof (induction s arbitrary: b)
  case (Cons c s)
  then show ?case using token_case [of c] by (cases b) simp_all
qed simp

lemma canonical_header_fixed: "canonical_header_key (canonical_header_key s) = canonical_header_key s"
  using canon_walk_fixed [of s True] by (simp add: canonical_header_key_def)

lemma case_collapse: "upper_char (lower_char c) = upper_char c" "lower_char (upper_char c) = lower_char c"
    "(lower_char c = CHR ''-'') = (c = CHR ''-'')" "(lower_char c = CHR ''|'') = (c = CHR ''|'')"
proof -
  have n: "of_char (char_of n :: char) = n" if "n < (256::nat)" for n using that by (simp add: of_char_of)
  have e: "c = d \<longleftrightarrow> of_char c = (of_char d :: nat)" for c d :: char by simp
  have l: "of_char (lower_char c) = (if (65::nat) \<le> of_char c \<and> of_char c \<le> (90::nat) then of_char c + 32 else of_char c :: nat)" for c
    by (auto simp: lower_char_def Let_def n)
  have u: "of_char (upper_char c) = (if (97::nat) \<le> of_char c \<and> of_char c \<le> (122::nat) then of_char c - 32 else of_char c :: nat)" for c
    by (auto simp: upper_char_def Let_def n)
  show "upper_char (lower_char c) = upper_char c" "lower_char (upper_char c) = lower_char c"
    unfolding e l u by auto
  show "(lower_char c = CHR ''-'') = (c = CHR ''-'')" "(lower_char c = CHR ''|'') = (c = CHR ''|'')"
    unfolding e l by auto
qed

lemma canon_walk_lower: "canon_walk b (to_lower s) = canon_walk b s" "to_lower (canon_walk b s) = to_lower s"
  by (induction s arbitrary: b) (simp_all add: to_lower_def case_collapse)

text \<open>Tokens that differ in letter case have one canonical form.\<close>

lemma canonical_header_unique:
  assumes "list_all is_token_char s" "list_all is_token_char t" "to_lower (canonical_header_key s) = to_lower (canonical_header_key t)"
  shows "canonical_header_key s = canonical_header_key t"
proof -
  have "to_lower s = to_lower t" using assms by (simp add: canonical_header_key_def canon_walk_lower(2))
  then show ?thesis using assms(1,2) canon_walk_lower(1) [of True s] canon_walk_lower(1) [of True t] by (simp add: canonical_header_key_def)
qed

lemma h_values_canonical [simp]: "h_values h (canonical_header_key k) = h_values h k"
  by (simp add: h_values_def canonical_header_fixed)

section \<open>Properties of keys\<close>

lemma cache_key_identifies:
  assumes "CHR ''|'' \<notin> set (rq_method req)" "bar_free_config cfg" "cache_host (rq_host req) \<noteq> []"
  shows "cache_key_request (cache_key sha256 req cfg) =
    Some (cache_host (rq_host req), canonical_request_uri (rq_url req))"
proof -
  define hs where "hs = map (\<lambda>x. ''h:'' @ snd x @ ''='' @
    hex_encode (key_header_digest sha256 req (fst x))) (config_key_names cfg)"
  have "list_all (\<lambda>f. has_prefix f ''h:'') hs"
    by (auto simp: hs_def list_all_iff has_prefix_def)
  note headers = key_fields_headers [OF this]
  have "key_fields (split_on (CHR ''|'') (cache_key sha256 req cfg)) ([], []) =
      (encode_cache_key_field (cache_host (rq_host req)),
       encode_cache_key_field (canonical_request_uri (rq_url req)))"
    unfolding cache_key_fields [OF assms(1,2)] key_field_list_def hs_def [symmetric]
    by (simp add: has_prefix_def trim_prefix_def headers)
  then show ?thesis
    using assms(3) canonical_request_uri_not_Nil
    by (simp add: cache_key_request_def encode_eq_Nil decode_encode)
qed

text \<open>
  Cache keys can be read back: for a method and configured header names without a bar and a
  non-empty host, \<^verbatim>\<open>cacheKeyRequest\<close> recovers from \<^verbatim>\<open>cacheKey\<close> the normalised host and the
  canonical request URI, whatever bytes the host, path or query contain; so an
  administrative purge by host and path sees the requests that were cached.
\<close>

theorem cache_key_request_of_key:
  assumes "CHR ''|'' \<notin> set (rq_method req)" "bar_free_config cfg" "cache_host (rq_host req) \<noteq> []"
  shows "cache_key_request (cache_key sha256 req cfg) =
    Some (cache_host (rq_host req), canonical_request_uri (rq_url req))"
  using assms by (rule cache_key_identifies)

definition demo_cache_config :: cache_config where
  "demo_cache_config = \<lparr>cc_enabled = True, cc_default_ttl = second, cc_stale_if_error = second,
     cc_max_entries = 10, cc_max_bytes = 1000, cc_max_object_bytes = 100, cc_respect_origin = True,
     cc_authorized = True, cc_cookie = False, cc_set_cookie = False,
     cc_vary = [''Accept-Encoding''], cc_statuses = [200]\<rparr>"

lemma demo_bar_free: "bar_free_config demo_cache_config"
  by code_simp

theorem cache_key_request_of_key_witness:
  "cache_key_request (cache_key id demo_request demo_cache_config) = Some (''h'', ''/'')"
proof -
  have "CHR ''|'' \<notin> set (rq_method demo_request)" "cache_host (rq_host demo_request) = ''h''"
    "canonical_request_uri (rq_url demo_request) = ''/''" by code_simp+
  then show ?thesis
    using cache_key_request_of_key [of demo_request demo_cache_config id] demo_bar_free by simp
qed

text \<open>The values of a header field, each ended by a zero byte, determine the list of values.\<close>

lemma append_at: "a @ z # r = b @ z # s \<Longrightarrow> z \<notin> set a \<Longrightarrow> z \<notin> set b \<Longrightarrow> a = b \<and> r = s"
proof (induction a arbitrary: b)
  case Nil
  then show ?case by (cases b) auto
next
  case (Cons x a)
  then show ?case by (cases b) auto
qed

lemma ended_inj:
  assumes "concat (map (\<lambda>v. v @ [z]) xs) = concat (map (\<lambda>v. v @ [z]) ys)" "\<forall>v \<in> set xs \<union> set ys. z \<notin> set v"
  shows "xs = ys"
  using assms
proof (induction xs arbitrary: ys)
  case Nil
  then show ?case by (cases ys) auto
next
  case (Cons x xs)
  then obtain y ys' where ys: "ys = y # ys'" by (cases ys) auto
  have eq: "x @ z # concat (map (\<lambda>v. v @ [z]) xs) = y @ z # concat (map (\<lambda>v. v @ [z]) ys')" using Cons.prems(1) ys by simp
  have "z \<notin> set x" "z \<notin> set y" using Cons.prems(2) ys by auto
  then have "x = y \<and> concat (map (\<lambda>v. v @ [z]) xs) = concat (map (\<lambda>v. v @ [z]) ys')"
    using append_at [OF eq] by blast
  then show ?case using Cons.IH [of ys'] Cons.prems(2) ys by auto
qed

definition keyed_headers :: "cache_config \<Rightarrow> string set" where
  "keyed_headers cfg = set (cc_vary cfg) \<union> (if cc_authorized cfg then {''Authorization''} else {}) \<union> (if cc_cookie cfg then {''Cookie''} else {})"

lemma key_names_sound:
  "x \<in> set (key_names seen ns) \<Longrightarrow> \<exists>n \<in> set ns. fst x = canonical_header_key (trim_space n) \<and> snd x = to_lower (fst x)"
  by (induction seen ns rule: key_names.induct) (auto simp: Let_def split: if_splits)

lemma keyed_names:
  assumes "\<forall>n \<in> set (cc_vary cfg). valid_http_token (trim_space n)" "n \<in> keyed_headers cfg"
  shows "canonical_header_key (trim_space n) \<in> fst ` set (config_key_names cfg)"
proof -
  let ?ns = "cc_vary cfg @ (if cc_authorized cfg then [''Authorization''] else []) @ (if cc_cookie cfg then [''Cookie''] else [])"
  have ns: "set ?ns = keyed_headers cfg" by (auto simp: keyed_headers_def)
  have "valid_http_token (trim_space ''Authorization'')" "valid_http_token (trim_space ''Cookie'')" by code_simp+
  then have tok: "valid_http_token (trim_space m)" if "m \<in> set ?ns" for m
    using that assms(1) unfolding ns keyed_headers_def by (auto split: if_splits)
  have n: "n \<in> set ?ns" using assms(2) unfolding ns .
  have "canon_walk b s \<noteq> []" if "s \<noteq> []" for b s using that by (cases s) auto
  then have "canonical_header_key (trim_space n) \<noteq> []" using tok [OF n] by (auto simp: valid_http_token_def canonical_header_key_def)
  from key_names_complete [OF n this, of "[]"] obtain x where x: "x \<in> set (config_key_names cfg)"
    "snd x = to_lower (canonical_header_key (trim_space n))" unfolding config_key_names_def by auto
  from key_names_sound [of x "[]" ?ns] x(1) obtain m where m: "m \<in> set ?ns" "fst x = canonical_header_key (trim_space m)" "snd x = to_lower (fst x)"
    unfolding config_key_names_def by blast
  have "canonical_header_key (trim_space m) = canonical_header_key (trim_space n)"
    by (rule canonical_header_unique) (use tok [OF m(1)] tok [OF n] x(2) m in \<open>simp_all add: valid_http_token_def\<close>)
  then show ?thesis using x(1) m(2) by (metis imageI)
qed

lemma bar_free_keys:
  assumes "\<forall>n \<in> set (cc_vary cfg). CHR ''|'' \<notin> set (canonical_header_key (trim_space n))"
  shows "bar_free_config cfg"
proof -
  have low: "CHR ''|'' \<in> set (to_lower s) \<Longrightarrow> CHR ''|'' \<in> set s" for s
    by (auto simp: to_lower_def image_iff case_collapse dest: sym)
  have "CHR ''|'' \<notin> set (canonical_header_key (trim_space ''Authorization''))" "CHR ''|'' \<notin> set (canonical_header_key (trim_space ''Cookie''))"
    by code_simp+
  then show ?thesis
    using assms low unfolding bar_free_config_def config_key_names_def list_all_iff
    by (auto dest!: key_names_sound split: if_splits; metis)
qed

text \<open>
  C28. A shared entry is shared only between equivalent requests. If two requests, with methods without a bar, get the same
  cache key under a configuration whose varied headers are tokens without a bar, then they have the same normalised host and the same canonical
  request URI, and for every header that the configuration varies on, and for \<^verbatim>\<open>Authorization\<close> and \<^verbatim>\<open>Cookie\<close> when credentialed caching is enabled,
  they have the same list of values. It is assumed that SHA-256 does not collide on the values of these two requests and that no header value holds a zero
  byte, which \<^verbatim>\<open>net/http\<close> refuses.
\<close>

theorem cache_key_separates:
  assumes "CHR ''|'' \<notin> set (rq_method r1)" "CHR ''|'' \<notin> set (rq_method r2)"
    and "\<forall>n \<in> set (cc_vary cfg). valid_http_token (trim_space n) \<and> CHR ''|'' \<notin> set (canonical_header_key (trim_space n))"
    and "\<forall>n v. v \<in> set (h_values (rq_header r1) n) \<union> set (h_values (rq_header r2) n) \<longrightarrow> CHR 0x00 \<notin> set v"
    and "\<forall>n. sha256 (concat (map (\<lambda>v. v @ [CHR 0x00]) (h_values (rq_header r1) n))) =
          sha256 (concat (map (\<lambda>v. v @ [CHR 0x00]) (h_values (rq_header r2) n))) \<longrightarrow>
        concat (map (\<lambda>v. v @ [CHR 0x00]) (h_values (rq_header r1) n)) = concat (map (\<lambda>v. v @ [CHR 0x00]) (h_values (rq_header r2) n))"
    and "cache_key sha256 r1 cfg = cache_key sha256 r2 cfg"
  shows "cache_host (rq_host r1) = cache_host (rq_host r2) \<and>
    canonical_request_uri (rq_url r1) = canonical_request_uri (rq_url r2) \<and>
    (\<forall>n \<in> set (cc_vary cfg). h_values (rq_header r1) (trim_space n) = h_values (rq_header r2) (trim_space n)) \<and>
    (cc_authorized cfg \<longrightarrow> h_values (rq_header r1) ''Authorization'' = h_values (rq_header r2) ''Authorization'') \<and>
    (cc_cookie cfg \<longrightarrow> h_values (rq_header r1) ''Cookie'' = h_values (rq_header r2) ''Cookie'')"
proof -
  have bar: "bar_free_config cfg" using assms(3) by (intro bar_free_keys) blast
  have fl: "key_field_list sha256 r1 cfg = key_field_list sha256 r2 cfg"
    using assms(6) cache_key_fields [OF assms(1) bar, of sha256] cache_key_fields [OF assms(2) bar, of sha256]
    by simp
  then have "encode_cache_key_field (cache_host (rq_host r1)) = encode_cache_key_field (cache_host (rq_host r2))"
    "encode_cache_key_field (canonical_request_uri (rq_url r1)) =
       encode_cache_key_field (canonical_request_uri (rq_url r2))"
    by (simp_all add: key_field_list_def)
  then have "cache_host (rq_host r1) = cache_host (rq_host r2)"
    "canonical_request_uri (rq_url r1) = canonical_request_uri (rq_url r2)"
    by (metis decode_encode option.inject)+
  moreover have vals: "h_values (rq_header r1) (trim_space n) = h_values (rq_header r2) (trim_space n)" if "n \<in> keyed_headers cfg" for n
  proof -
    have "\<forall>n \<in> set (cc_vary cfg). valid_http_token (trim_space n)" using assms(3) by blast
    from keyed_names [OF this that] obtain x where x: "x \<in> set (config_key_names cfg)" "fst x = canonical_header_key (trim_space n)"
      by (metis imageE)
    have "key_header_digest sha256 r1 (fst x) = key_header_digest sha256 r2 (fst x)"
      using fl x(1) by (auto simp: key_field_list_def hex_encode_inj)
    then have "concat (map (\<lambda>v. v @ [CHR 0x00]) (h_values (rq_header r1) (trim_space n))) =
        concat (map (\<lambda>v. v @ [CHR 0x00]) (h_values (rq_header r2) (trim_space n)))"
      using assms(5) [rule_format, of "trim_space n"] unfolding key_header_digest_def x(2) by simp
    then show ?thesis by (rule ended_inj) (use assms(4) in blast)
  qed
  moreover have "trim_space ''Authorization'' = ''Authorization''" "trim_space ''Cookie'' = ''Cookie''" by code_simp+
  ultimately show ?thesis
    using vals [of "''Authorization''"] vals [of "''Cookie''"] by (simp add: keyed_headers_def)
qed

theorem cache_key_separates_witness:
  "cache_key id demo_request demo_cache_config \<noteq>
   cache_key id (demo_request\<lparr>rq_header := [(''Authorization'', [''Bearer x''])]\<rparr>) demo_cache_config"
proof
  let ?r = "demo_request\<lparr>rq_header := [(''Authorization'', [''Bearer x''])]\<rparr>"
  assume eq: "cache_key id demo_request demo_cache_config = cache_key id ?r demo_cache_config"
  have m: "CHR ''|'' \<notin> set (rq_method demo_request)" "CHR ''|'' \<notin> set (rq_method ?r)" by code_simp+
  have c: "\<forall>n \<in> set (cc_vary demo_cache_config). valid_http_token (trim_space n) \<and> CHR ''|'' \<notin> set (canonical_header_key (trim_space n))"
    "cc_authorized demo_cache_config" by code_simp+
  have h: "list_all (\<lambda>(k, vs). list_all (\<lambda>v. CHR 0x00 \<notin> set v) vs) (rq_header demo_request)"
    "list_all (\<lambda>(k, vs). list_all (\<lambda>v. CHR 0x00 \<notin> set v) vs) (rq_header ?r)" by code_simp+
  have clean: "CHR 0x00 \<notin> set v" if "list_all (\<lambda>(k, vs). list_all (\<lambda>v. CHR 0x00 \<notin> set v) vs) h0" "v \<in> set (h_values h0 n)" for h0 :: header and v n
  proof -
    note facts = that
    obtain vs where "gm_get h0 (canonical_header_key n) = Some vs" "v \<in> set vs" using facts(2) by (cases "gm_get h0 (canonical_header_key n)") (simp_all add: h_values_def)
    then have "(canonical_header_key n, vs) \<in> set h0" "v \<in> set vs" by (simp_all add: gm_get_def map_of_SomeD)
    then show ?thesis using facts(1) by (auto simp: list_all_iff)
  qed
  have z: "\<forall>n v. v \<in> set (h_values (rq_header demo_request) n) \<union> set (h_values (rq_header ?r) n) \<longrightarrow> CHR 0x00 \<notin> set v"
    using clean [OF h(1)] clean [OF h(2)] by blast
  have "h_values (rq_header demo_request) ''Authorization'' \<noteq> h_values (rq_header ?r) ''Authorization''" by code_simp
  with cache_key_separates [OF m c(1) z _ eq] c(2) show False by simp
qed

section \<open>Lemmas on Cache-Control\<close>

lemma split_list_from_join:
  assumes "split_list_from q e item a = Some items"
  shows "split_list_from q e item (a @ CHR '','' # b) =
    map_option (\<lambda>more. items @ more) (split_header_list b)"
  using assms
proof (induction q e item a arbitrary: items rule: split_list_from.induct)
  case (1 q e item)
  then show ?case by (auto simp: split_header_list_def fun_eq_iff cong: map_option_cong split: if_splits)
next
  case (2 q e item c s)
  then show ?case
    by (cases "split_header_list b") (auto split: if_splits)
qed

lemma split_header_list_join:
  "split_header_list a = Some items \<Longrightarrow>
     split_header_list (a @ CHR '','' # b) = map_option (\<lambda>more. items @ more) (split_header_list b)"
  using split_list_from_join unfolding split_header_list_def [of a] split_header_list_def [of "a @ _"]
  by blast

lemma split_list_from_item:
  "split_list_from q e (x @ item) s =
     map_option (\<lambda>items. (x @ hd items) # tl items) (split_list_from q e item s)"
  by (induction q e item s rule: split_list_from.induct) (auto simp: option.map_comp comp_def)

lemma split_header_list_space:
  "split_header_list (CHR '' '' # s) =
     map_option (\<lambda>items. (CHR '' '' # hd items) # tl items) (split_header_list s)"
  using split_list_from_item [of False False "'' ''" "[]" s] by (simp add: split_header_list_def)

lemma split_list_from_not_Nil: "split_list_from q e item s \<noteq> Some []"
  by (induction q e item s rule: split_list_from.induct) auto

lemma trim_space_leading: "trim_space (CHR '' '' # s) = trim_space s"
proof -
  have "strip_seq space_seqs (CHR '' '' # s) = Some s"
    by (simp add: strip_seq_def space_seqs_def has_prefix_def)
  then have "trim_left_seqs space_seqs (CHR '' '' # s) = trim_left_seqs space_seqs s"
    by (simp add: trim_left_seqs.simps [of space_seqs "CHR '' '' # s"])
  then show ?thesis by (simp add: trim_space_def)
qed

lemma add_directive_space: "add_directive (CHR '' '' # d) = add_directive d"
  by (rule ext) (simp add: add_directive_def trim_space_leading)

lemma add_value_join:
  assumes "split_header_list a \<noteq> None" "split_header_list b \<noteq> None"
  shows "add_cache_control_value (a @ '', '' @ b) p =
    add_cache_control_value b (add_cache_control_value a p)"
proof -
  obtain xs ys where xs: "split_header_list a = Some xs" and ys: "split_header_list b = Some ys"
    using assms by blast
  have "ys \<noteq> []" using ys split_list_from_not_Nil by (auto simp: split_header_list_def)
  then obtain y ys' where "ys = y # ys'" by (cases ys) auto
  with xs ys show ?thesis
    by (simp add: add_cache_control_value_def split_header_list_join split_header_list_space
        add_directive_space)
qed

lemma split_header_list_join_valid:
  assumes "vs \<noteq> []" "\<And>v. v \<in> set vs \<Longrightarrow> split_header_list v \<noteq> None"
  shows "split_header_list (join_with '', '' vs) \<noteq> None"
  using assms
proof (induction "'', ''" vs rule: join_with.induct)
  case (3 w v ws)
  then have "split_header_list w \<noteq> None" "split_header_list (join_with '', '' (v # ws)) \<noteq> None"
    by simp_all
  then obtain xs ys where "split_header_list w = Some xs"
    "split_header_list (join_with '', '' (v # ws)) = Some ys" by blast
  then show ?case by (simp add: split_header_list_join split_header_list_space)
qed auto

section \<open>Properties of the cache decision\<close>

text \<open>
  Folding field lines cannot change a cache decision: when every \<^verbatim>\<open>Cache-Control\<close> line is
  well formed, parsing the lines one by one and parsing the single line into which an
  intermediary may join them with commas give the same directives, the same duplicates and the
  same validity.
\<close>

theorem cache_control_folding:
  assumes "list_all (\<lambda>v. split_header_list v \<noteq> None) vs" "vs \<noteq> []"
  shows "parse_cache_control_detailed [join_with '', '' vs] = parse_cache_control_detailed vs"
proof -
  have "add_cache_control_value (join_with '', '' vs) p = fold add_cache_control_value vs p" for p
    using assms
  proof (induction "'', ''" vs arbitrary: p rule: join_with.induct)
    case (3 w v ws)
    then have "split_header_list (join_with '', '' (v # ws)) \<noteq> None"
      by (intro split_header_list_join_valid) (auto simp: list_all_iff)
    with 3 add_value_join [of w "join_with '', '' (v # ws)"] show ?case by simp
  qed auto
  then show ?thesis by (simp add: parse_cache_control_detailed_def)
qed

theorem cache_control_folding_witness:
  "parse_cache_control_detailed [''max-age=60, private=\"a,b\", no-store''] =
   parse_cache_control_detailed [''max-age=60'', ''private=\"a,b\"'', ''no-store'']"
proof -
  have "list_all (\<lambda>v. split_header_list v \<noteq> None) [''max-age=60'', ''private=\"a,b\"'', ''no-store'']"
    by code_simp
  from cache_control_folding [OF this] show ?thesis by simp
qed

lemma response_initial_age_range:
  "0 \<le> response_initial_age parse_time h now \<and> response_initial_age parse_time h now \<le> max_int64"
proof -
  have "max_age_seconds * second \<le> max_int64" by (simp add: max_age_seconds_def second_def max_int64_def)
  moreover have "min s max_age_seconds * second \<le> max_age_seconds * second" for s
    by (simp add: second_def)
  ultimately have "min s max_age_seconds * second \<le> max_int64" for s by (meson order_trans)
  moreover have "0 \<le> min s max_age_seconds * second" if "0 \<le> s" for s
    using that by (simp add: second_def max_age_seconds_def)
  moreover have "0 \<le> max_int64" by (simp add: max_int64_def)
  ultimately show ?thesis
    using time_sub_range [of now] time_sub_nonneg [of now]
    by (auto simp: response_initial_age_def Let_def le_max_iff_disj split: option.splits)
qed

text \<open>
  What may be stored: when the origin's headers are respected and \<^verbatim>\<open>responseCachePolicy\<close>
  accepts a response, its status is configured as cacheable, it sets no cookie unless that is
  allowed, its Cache-Control is unambiguous and has none of no-store, private and no-cache; it
  is fresh for a positive time and never stale-served before it expires or, under
  must-revalidate, at all; and for every non-negative lifetime the remaining
  freshness is the lifetime minus the age the response already had, with no overflow.
\<close>

theorem stored_response_allowed:
  assumes "response_cache_policy parse_time resp cfg now = Some (expires, stale, age)"
    and "cc_respect_origin cfg" "0 \<le> cc_stale_if_error cfg"
    and "p = parse_cache_control_detailed (h_values (or_header resp) ''Cache-Control'')"
  shows "or_status resp \<in> set (cc_statuses cfg) \<and>
    (header_has_non_empty_value (or_header resp) ''Set-Cookie'' \<longrightarrow> cc_set_cookie cfg) \<and>
    \<not> pc_invalid p \<and> set (pc_duplicates p) \<inter> {''max-age'', ''s-maxage''} = {} \<and>
    \<not> has_cache_directive (pc_directives p) ''no-store'' \<and>
    \<not> has_cache_directive (pc_directives p) ''private'' \<and>
    \<not> has_cache_directive (pc_directives p) ''no-cache'' \<and>
    now < expires \<and> expires \<le> stale \<and> 0 \<le> age \<and>
    (has_cache_directive (pc_directives p) ''must-revalidate'' \<longrightarrow> stale = expires) \<and>
    (\<exists>ttl. origin_lifetime parse_time (pc_directives p) (or_header resp) cfg now = Some ttl \<and>
      (0 \<le> ttl \<and> ttl \<le> max_int64 \<longrightarrow> expires = now + ttl - age))"
proof -
  let ?a = "response_initial_age parse_time (or_header resp) now"
  have wrap: "wrap_int64 (ttl - ?a) = ttl - ?a" if "0 \<le> ttl" "ttl \<le> max_int64" for ttl
    using that response_initial_age_range [of parse_time "or_header resp" now]
    by (intro wrap_int64_id) (auto simp: min_int64_def max_int64_def)
  show ?thesis
    using assms(1,2,3) wrap response_initial_age_range [of parse_time "or_header resp" now]
    unfolding response_cache_policy_def Let_def assms(4) [symmetric]
    by (auto split: if_splits option.splits)
qed

definition demo_response :: "string \<Rightarrow> origin_response" where
  "demo_response cc = \<lparr>or_status = 200, or_header = [(''Cache-Control'', [cc]), (''Age'', [''10''])]\<rparr>"

theorem stored_response_allowed_witness:
  "response_cache_policy (\<lambda>_. None) (demo_response ''max-age=60'') demo_cache_config 0 =
     Some (50 * second, 51 * second, 10 * second) \<and>
   origin_lifetime (\<lambda>_. None) [(''max-age'', ''60'')] (or_header (demo_response ''max-age=60''))
     demo_cache_config 0 = Some (60 * second) \<and> (0::int) < 50 * second"
proof -
  have r: "response_cache_policy (\<lambda>_. None) (demo_response ''max-age=60'') demo_cache_config 0 =
      Some (50 * second, 51 * second, 10 * second)" by code_simp
  have "cc_respect_origin demo_cache_config" "0 \<le> cc_stale_if_error demo_cache_config" by code_simp+
  from stored_response_allowed [OF r this refl] have "(0::int) < 50 * second" by blast
  moreover have "origin_lifetime (\<lambda>_. None) [(''max-age'', ''60'')]
      (or_header (demo_response ''max-age=60'')) demo_cache_config 0 = Some (60 * second)" by code_simp
  ultimately show ?thesis using r by blast
qed

text \<open>
  The one overflow: a response without Cache-Control whose \<^verbatim>\<open>Expires\<close> lies more than
  292 years before its \<^verbatim>\<open>Date\<close> (for example the year 1) and that already has some age is
  not refused but stored as fresh for almost 292 years. \<^verbatim>\<open>Time.Sub\<close> saturates at the
  least duration and \<^verbatim>\<open>ttl -= initialAge\<close> wraps around to a large positive value.
\<close>

theorem far_past_expires_is_stored:
  assumes "or_status resp \<in> set (cc_statuses cfg)" "cc_respect_origin cfg"
    and "\<not> header_has_non_empty_value (or_header resp) ''Set-Cookie''"
    and "vary_is_supported (h_values (or_header resp) ''Vary'') cfg"
    and "h_values (or_header resp) ''Cache-Control'' = []" "h_values (or_header resp) ''Pragma'' = []"
    and "trim_space (h_get (or_header resp) ''Expires'') \<noteq> []"
    and "parse_time (h_get (or_header resp) ''Expires'') = Some expires"
    and "parse_time (h_get (or_header resp) ''Date'') = Some date" "expires \<le> date - 2 ^ 63" "date < now"
  shows "\<exists>age > 0. response_cache_policy parse_time resp cfg now =
    Some (now + (2 ^ 63 - age), now + (2 ^ 63 - age) + cc_stale_if_error cfg, age)"
proof -
  let ?age = "response_initial_age parse_time (or_header resp) now"
  have pos: "0 < time_sub now date"
    using assms(11) by (auto simp: time_sub_def max_int64_def min_int64_def)
  then have age: "0 < ?age" "?age \<le> max_int64"
    using response_initial_age_range [of parse_time "or_header resp" now] assms(9,11)
    by (auto simp: response_initial_age_def Let_def less_max_iff_disj split: if_splits option.splits)
  have "time_sub expires date = - (2 ^ 63)"
    using assms(10) by (auto simp: time_sub_def max_int64_def min_int64_def)
  moreover have wrap: "wrap_int64 (- (2 ^ 63) - ?age) = 2 ^ 63 - ?age"
  proof -
    have "(- (2 ^ 63) - ?age + 2 ^ 63) mod 2 ^ 64 = (2 ^ 64 - ?age + (-1) * 2 ^ 64) mod 2 ^ 64"
      by simp
    also have "\<dots> = (2 ^ 64 - ?age) mod 2 ^ 64" by (rule mod_mult_self1)
    also have "\<dots> = 2 ^ 64 - ?age" using age by (intro mod_pos_pos_trivial) (auto simp: max_int64_def)
    finally show ?thesis by (simp add: wrap_int64_def)
  qed
  ultimately show ?thesis
    using assms age unfolding response_cache_policy_def
    by (auto simp: Let_def parse_cache_control_detailed_def has_cache_directive_def
        header_has_token_def origin_lifetime_def max_int64_def)
qed

definition epoch_year_1 :: "string \<Rightarrow> time option" where
  "epoch_year_1 s = (if s = ''Mon, 01 Jan 0001 00:00:00 GMT'' then Some 0
     else if s = ''Wed, 01 Jan 2025 00:00:00 GMT'' then Some (63871286400 * second) else None)"

theorem far_past_expires_is_stored_witness:
  "\<exists>age > 0. response_cache_policy epoch_year_1
     \<lparr>or_status = 200, or_header = [(''Expires'', [''Mon, 01 Jan 0001 00:00:00 GMT'']),
        (''Date'', [''Wed, 01 Jan 2025 00:00:00 GMT''])]\<rparr> demo_cache_config (63871286401 * second) =
     Some (63871286401 * second + (2 ^ 63 - age), 63871286402 * second + (2 ^ 63 - age), age)"
proof -
  let ?r = "\<lparr>or_status = 200, or_header = [(''Expires'', [''Mon, 01 Jan 0001 00:00:00 GMT'']),
      (''Date'', [''Wed, 01 Jan 2025 00:00:00 GMT''])]\<rparr>"
  have "or_status ?r \<in> set (cc_statuses demo_cache_config)" "cc_respect_origin demo_cache_config"
    "\<not> header_has_non_empty_value (or_header ?r) ''Set-Cookie''"
    "vary_is_supported (h_values (or_header ?r) ''Vary'') demo_cache_config"
    "h_values (or_header ?r) ''Cache-Control'' = []" "h_values (or_header ?r) ''Pragma'' = []"
    "trim_space (h_get (or_header ?r) ''Expires'') \<noteq> []"
    "epoch_year_1 (h_get (or_header ?r) ''Expires'') = Some 0"
    "epoch_year_1 (h_get (or_header ?r) ''Date'') = Some (63871286400 * second)"
    "0 \<le> 63871286400 * second - 2 ^ 63" "63871286400 * second < 63871286401 * second"
    "cc_stale_if_error demo_cache_config = second" by code_simp+
  with far_past_expires_is_stored [of ?r demo_cache_config epoch_year_1 0 "63871286400 * second"
      "63871286401 * second"]
  show ?thesis by (simp add: second_def)
qed

end
