(* ===== verification/Route_Match.thy ===== *)
theory Route_Match
  imports Request_Path Client_IP "HOL-Library.Product_Lexorder"
begin

text \<open>
  Route selection. EdgeProxy's \<^verbatim>\<open>apps/edgeproxy/internal/router/router.go\<close> chooses the route of
  a request; SecurityEdge's \<^verbatim>\<open>apps/securityedge/internal/routes/routes.go\<close> loads the same
  route table from EdgeProxy's configuration file and must select_route the same route, because
  its per-route policy is keyed by it. Both are modelled with all their normalisation and
  validation; reading the file and decoding JSON are inputs of \<open>load_table\<close>.
\<close>

record route =
  rt_name :: string
  rt_hosts :: "string list"
  rt_path_prefix :: string

section \<open>EdgeProxy: \<^verbatim>\<open>router.go\<close>\<close>

definition canonical_host :: "string \<Rightarrow> string" where
  "canonical_host hostport0 =
     (let hp = trim_space hostport0;
          h = (case split_host_port hp of
                 Some (host, _) \<Rightarrow> host
               | None \<Rightarrow>
                   if has_prefix hp ''['' \<and> has_suffix hp '']'' then
                     (case parse_ip (trim_suffix (trim_prefix hp ''['') '']'') of
                        Some ip \<Rightarrow> ip_string ip
                      | None \<Rightarrow> hp)
                   else hp)
      in to_lower (trim_suffix h ''.''))"

definition pattern_norm :: "string \<Rightarrow> string" where
  "pattern_norm raw = to_lower (trim_space (trim_suffix raw ''.''))"

fun host_scan :: "int \<Rightarrow> string list \<Rightarrow> string \<Rightarrow> int" where
  "host_scan best [] host = best"
| "host_scan best (raw # patterns) host =
     (let p = pattern_norm raw in
      if p = ''*'' then host_scan (if best < 1 then 1 else best) patterns host
      else if has_prefix p ''*.'' then
        let sfx = trim_prefix p ''*'' in
        if has_suffix host sfx \<and> host \<noteq> trim_prefix sfx ''.'' then
          let score = 1000 + int (length sfx)
          in host_scan (if score > best then score else best) patterns host
        else host_scan best patterns host
      else if p = host then
        let score = 1000000 + int (length p)
        in host_scan (if score > best then score else best) patterns host
      else host_scan best patterns host)"

definition host_match_specificity :: "string list \<Rightarrow> string \<Rightarrow> bool \<times> int" where
  "host_match_specificity patterns host =
     (let best = host_scan (- 1) patterns host in (best \<ge> 0, best))"

fun router_scan ::
  "route list \<Rightarrow> string \<Rightarrow> string \<Rightarrow> route option \<Rightarrow> int \<Rightarrow> int \<Rightarrow> route option" where
  "router_scan [] host request_path best best_path best_host = best"
| "router_scan (r # rs) host request_path best best_path best_host =
     (let (matched, host_score) = host_match_specificity (rt_hosts r) host in
      if \<not> matched \<or> \<not> path_prefix_matches request_path (rt_path_prefix r)
      then router_scan rs host request_path best best_path best_host
      else
        let path_length = int (length (rt_path_prefix r)) in
        if path_length > best_path \<or> path_length = best_path \<and> host_score > best_host
        then router_scan rs host request_path (Some r) path_length host_score
        else router_scan rs host request_path best best_path best_host)"

definition router_match :: "route list \<Rightarrow> http_request \<Rightarrow> route option" where
  "router_match routes req =
     router_scan routes (canonical_host (rq_host req))
       (canonical_request_path (u_path (rq_url req))) None (- 1) (- 1)"

section \<open>SecurityEdge: \<^verbatim>\<open>routes.go\<close>\<close>

definition table_host_score :: "string list \<Rightarrow> string \<Rightarrow> int" where
  "table_host_score patterns host =
     foldl (\<lambda>best raw.
       let p = to_lower (trim_space (trim_suffix raw ''.'')) in
       if p = ''*'' then (if best < 1 then 1 else best)
       else if has_prefix p ''*.'' then
         (let sfx = trim_prefix p ''*'' in
          if has_suffix host sfx \<and> host \<noteq> trim_prefix sfx ''.''
          then max best (1000 + int (length sfx)) else best)
       else if p = host then max best (1000000 + int (length p))
       else best) (- 1) patterns"

definition table_better ::
  "string \<Rightarrow> string \<Rightarrow> route option \<times> int \<times> int \<Rightarrow> route \<Rightarrow> route option \<times> int \<times> int" where
  "table_better host request_path acc r =
     (case acc of (best, best_path, best_host) \<Rightarrow>
        let host_score = table_host_score (rt_hosts r) host;
            path_length = int (length (rt_path_prefix r))
        in if host_score \<ge> 0 \<and> path_prefix_matches request_path (rt_path_prefix r) \<and>
              (path_length > best_path \<or> path_length = best_path \<and> host_score > best_host)
           then (Some r, path_length, host_score) else acc)"

definition table_match :: "route list \<Rightarrow> http_request \<Rightarrow> route option" where
  "table_match table req =
     fst (foldl (table_better (canonical_host (rq_host req))
            (canonical_request_path (u_path (rq_url req)))) (None, - 1, - 1) table)"

datatype route_error =
    Read_error | Not_regular | Too_large | Not_utf8 | Parse_error | Extra_value | No_routes
  | Too_many_routes | Bad_path_prefix | Incomplete_route | Dot_segment_name | Long_name
  | Too_many_hosts | Reserved_name | Duplicate_name | Bad_host | Duplicate_host | Same_selector

text \<open>\<^verbatim>\<open>url.PathUnescape\<close>.\<close>

fun path_unescape :: "string \<Rightarrow> string option" where
  "path_unescape [] = Some []"
| "path_unescape (c # s) =
     (if c = CHR ''%'' then
        (case s of
           a # b # t \<Rightarrow>
             (case (hex_value a, hex_value b) of
                (Some x, Some y) \<Rightarrow> map_option (\<lambda>r. char_of (x * 16 + y) # r) (path_unescape t)
              | _ \<Rightarrow> None)
         | _ \<Rightarrow> None)
      else map_option (\<lambda>r. c # r) (path_unescape s))"

definition label_char :: "char \<Rightarrow> bool" where
  "label_char b \<longleftrightarrow> is_lower_letter b \<or> is_digit b"

definition valid_label :: "string \<Rightarrow> bool" where
  "valid_label l \<longleftrightarrow> l \<noteq> [] \<and> length l \<le> 63 \<and> list_all (\<lambda>b. label_char b \<or> b = CHR ''-'') l
     \<and> label_char (hd l) \<and> label_char (last l)"

definition normalize_exact_route_host :: "string \<Rightarrow> string option" where
  "normalize_exact_route_host v =
     (if has_prefix v ''['' \<and> has_suffix v '']'' then
        map_option (\<lambda>ip. to_lower (ip_string ip)) (parse_ip (trim_suffix (trim_prefix v ''['') '']''))
      else (case parse_ip v of
              Some ip \<Rightarrow> Some (to_lower (ip_string ip))
            | None \<Rightarrow>
                if contains_str v '':'' then None
                else if length v > 253 then None
                else if list_all valid_label (split_on (CHR ''.'') v) then Some v
                else None))"

definition normalize_route_host_pattern :: "string \<Rightarrow> string option" where
  "normalize_route_host_pattern raw =
     (let v = trim_suffix (to_lower (trim_space raw)) ''.'' in
      if v = [] then None
      else if v = ''*'' then Some v
      else if contains_any v ([CHR '' '', CHR 0x09, CHR 0x0D, CHR 0x0A] @ ''/'' @ [CHR 0x5C] @ ''?#@'') then None
      else if has_prefix v ''*.'' then
        if length (filter (\<lambda>c. c = CHR ''*'') v) \<noteq> 1 then None
        else (case normalize_exact_route_host (trim_prefix v ''*.'') of
                None \<Rightarrow> None
              | Some sfx \<Rightarrow> if parse_ip sfx \<noteq> None then None else Some (''*.'' @ sfx))
      else if contains_str v ''*'' then None
      else normalize_exact_route_host v)"

definition normalize_path_prefix :: "string \<Rightarrow> string option" where
  "normalize_path_prefix raw =
     (let v = trim_space raw in
      if v = [] then Some ''/''
      else if \<not> has_prefix v ''/'' then None
      else if contains_any v ''?#'' then None
      else (case path_unescape v of
              None \<Rightarrow> None
            | Some decoded \<Rightarrow>
                if decoded \<noteq> v then None
                else
                  let trailing = has_suffix v ''/''; cleaned = path_clean v in
                  if cleaned \<noteq> v \<and> \<not> (trailing \<and> cleaned @ ''/'' = v) then None
                  else
                    let c1 = (if trailing \<and> cleaned \<noteq> ''/'' then cleaned @ ''/'' else cleaned)
                    in Some (if c1 \<noteq> ''/'' then trim_suffix c1 ''/'' else c1)))"

definition is_admin_path_dot_segment :: "string \<Rightarrow> bool" where
  "is_admin_path_dot_segment name \<longleftrightarrow> name = ''.'' \<or> name = ''..''"

fun load_hosts :: "string list \<Rightarrow> string list \<Rightarrow> route_error + string list" where
  "load_hosts hosts [] = Inr hosts"
| "load_hosts hosts (raw # rest) =
     (case normalize_route_host_pattern raw of
        None \<Rightarrow> Inl Bad_host
      | Some host \<Rightarrow> if host \<in> set hosts then Inl Duplicate_host else load_hosts (hosts @ [host]) rest)"

fun add_selectors ::
  "string list \<Rightarrow> string \<Rightarrow> (string \<times> string) list \<Rightarrow> route_error + (string \<times> string) list" where
  "add_selectors [] pre selectors = Inr selectors"
| "add_selectors (host # hosts) pre selectors =
     (if (host, pre) \<in> set selectors then Inl Same_selector
      else add_selectors hosts pre ((host, pre) # selectors))"

text \<open>The loop over the routes; \<open>seen\<close> are the lower-case names, \<open>selectors\<close> the host and prefix
  pairs of the routes so far (the map key \<^verbatim>\<open>host + NUL + prefix\<close>).\<close>

fun load_routes ::
  "route list \<Rightarrow> string list \<Rightarrow> (string \<times> string) list \<Rightarrow> route list \<Rightarrow> route_error + route list" where
  "load_routes [] seen selectors done = Inr done"
| "load_routes (r # rs) seen selectors done =
     (let name = trim_space (rt_name r) in
      case normalize_path_prefix (rt_path_prefix r) of
        None \<Rightarrow> Inl Bad_path_prefix
      | Some pre \<Rightarrow>
          if name = [] \<or> rt_hosts r = [] then Inl Incomplete_route
          else if is_admin_path_dot_segment name then Inl Dot_segment_name
          else if length name > 256 then Inl Long_name
          else if length (rt_hosts r) > 256 then Inl Too_many_hosts
          else if equal_fold name ''__unmatched__'' then Inl Reserved_name
          else if to_lower name \<in> set seen then Inl Duplicate_name
          else (case load_hosts [] (rt_hosts r) of
                  Inl e \<Rightarrow> Inl e
                | Inr hosts \<Rightarrow>
                    (case add_selectors hosts pre selectors of
                       Inl e \<Rightarrow> Inl e
                     | Inr selectors' \<Rightarrow>
                         load_routes rs (to_lower name # seen) selectors'
                           (done @ [\<lparr>rt_name = name, rt_hosts = hosts, rt_path_prefix = pre\<rparr>]))))"

text \<open>What \<^verbatim>\<open>Load\<close> learns from the operating system and the decoders about the file.\<close>

record config_file =
  cf_opens :: bool
  cf_regular :: bool
  cf_size :: int
  cf_data :: "string option"

definition max_edge_proxy_config_bytes :: int where
  "max_edge_proxy_config_bytes = 4 * 2 ^ 20"

definition load_table ::
  "(string \<Rightarrow> bool) \<Rightarrow> (string \<Rightarrow> (route list \<times> bool) option) \<Rightarrow> config_file
     \<Rightarrow> route_error + route list" where
  "load_table utf8_valid decode f =
     (if \<not> cf_opens f then Inl Read_error
      else if \<not> cf_regular f then Inl Not_regular
      else if cf_size f > max_edge_proxy_config_bytes then Inl Too_large
      else (case cf_data f of
              None \<Rightarrow> Inl Read_error
            | Some bytes \<Rightarrow>
                if int (length bytes) > max_edge_proxy_config_bytes then Inl Too_large
                else if \<not> utf8_valid bytes then Inl Not_utf8
                else (case decode bytes of
                        None \<Rightarrow> Inl Parse_error
                      | Some (routes, at_eof) \<Rightarrow>
                          if \<not> at_eof then Inl Extra_value
                          else if routes = [] then Inl No_routes
                          else if length routes > 2048 then Inl Too_many_routes
                          else load_routes routes [] [] [])))"

section \<open>Choosing the most specific route\<close>

text \<open>The specification: the first of the matching routes whose rank (prefix length, then host
  score) is greatest.\<close>

definition better :: "('r \<Rightarrow> bool) \<Rightarrow> ('r \<Rightarrow> int \<times> int) \<Rightarrow> 'r option \<Rightarrow> 'r \<Rightarrow> 'r option" where
  "better matching rank best r =
     (if matching r \<and> (case best of None \<Rightarrow> True | Some b \<Rightarrow> rank b < rank r) then Some r else best)"

definition first_best :: "('r \<Rightarrow> bool) \<Rightarrow> ('r \<Rightarrow> int \<times> int) \<Rightarrow> 'r list \<Rightarrow> 'r option" where
  "first_best matching rank rs = foldl (better matching rank) None rs"

lemma foldl_better_Some:
  assumes "foldl (better matching rank) best rs = Some b"
  shows "(b \<in> set rs \<and> matching b \<or> best = Some b) \<and>
    (\<forall>r \<in> set rs. matching r \<longrightarrow> rank r \<le> rank b) \<and> (\<forall>c. best = Some c \<longrightarrow> rank c \<le> rank b)"
  using assms
proof (induction rs arbitrary: best)
  case (Cons r rs)
  from Cons.IH [of "better matching rank best r"] Cons.prems show ?case
    by (auto simp: better_def split: if_splits option.splits)
qed simp

lemma foldl_better_None:
  "foldl (better matching rank) best rs = None \<longleftrightarrow> best = None \<and> (\<forall>r \<in> set rs. \<not> matching r)"
  by (induction rs arbitrary: best) (auto simp: better_def split: option.splits)

locale most_specific =
  fixes select_route :: "'r list \<Rightarrow> 'r option"
    and matching :: "'r \<Rightarrow> bool"
    and rank :: "'r \<Rightarrow> int \<times> int"
  assumes select_first_best: "select_route rs = first_best matching rank rs"
begin

lemma select_Some:
  "select_route rs = Some b \<Longrightarrow> b \<in> set rs \<and> matching b \<and> (\<forall>r \<in> set rs. matching r \<longrightarrow> rank r \<le> rank b)"
  using foldl_better_Some [of matching rank None rs b] by (auto simp: select_first_best first_best_def)

lemma select_None: "select_route rs = None \<longleftrightarrow> (\<forall>r \<in> set rs. \<not> matching r)"
  by (simp add: select_first_best first_best_def foldl_better_None)

lemma select_order_independent:
  assumes "set rs = set rs'"
    and inj: "\<And>r r'. r \<in> set rs \<Longrightarrow> r' \<in> set rs \<Longrightarrow> matching r \<Longrightarrow> matching r' \<Longrightarrow>
      rank r = rank r' \<Longrightarrow> r = r'"
  shows "select_route rs = select_route rs'"
proof (cases "select_route rs")
  case None
  then have "select_route rs' = None" using assms(1) by (simp add: select_None)
  with None show ?thesis by simp
next
  case (Some b)
  then obtain b' where b': "select_route rs' = Some b'" using assms(1) select_None by (metis not_None_eq)
  have "rank b = rank b'"
    using select_Some [OF Some] select_Some [OF b'] assms(1) by (intro order_antisym) auto
  then have "b = b'" using select_Some [OF Some] select_Some [OF b'] assms(1) inj by blast
  with Some b' show ?thesis by simp
qed

end

subsection \<open>Host scores\<close>

definition pattern_score :: "string \<Rightarrow> string \<Rightarrow> int" where
  "pattern_score host p =
     (if p = ''*'' then 1
      else if has_prefix p ''*.'' then
        (if has_suffix host (tl p) \<and> host \<noteq> drop 2 p then 1000 + int (length (tl p)) else - 1)
      else if p = host then 1000000 + int (length p) else - 1)"

lemma wildcard_parts:
  "has_prefix p ''*.'' \<Longrightarrow> trim_prefix p ''*'' = tl p \<and> trim_prefix (tl p) ''.'' = drop 2 p"
  by (auto simp: has_prefix_iff trim_prefix_def)

lemma host_scan_step:
  assumes "- 1 \<le> best"
  shows "host_scan best (raw # patterns) host =
    host_scan (max best (pattern_score host (pattern_norm raw))) patterns host"
proof -
  define p where "p = pattern_norm raw"
  consider "p = ''*''" | "p \<noteq> ''*''" "has_prefix p ''*.''" | "p \<noteq> ''*''" "\<not> has_prefix p ''*.''" by blast
  then show ?thesis
  proof cases
    case 1
    then show ?thesis by (simp add: p_def [symmetric] pattern_score_def max_def)
  next
    case 2
    with assms wildcard_parts [OF 2(2)] show ?thesis
      by (auto simp: p_def [symmetric] pattern_score_def max_def Let_def)
  next
    case 3
    with assms show ?thesis by (auto simp: p_def [symmetric] pattern_score_def max_def Let_def)
  qed
qed

lemma host_scan_fold:
  "- 1 \<le> best \<Longrightarrow> host_scan best patterns host =
     foldl (\<lambda>b raw. max b (pattern_score host (pattern_norm raw))) best patterns"
  by (induction patterns arbitrary: best) (simp_all add: host_scan_step del: host_scan.simps(2))

lemma table_step:
  assumes "- 1 \<le> best"
  shows "(let p = to_lower (trim_space (trim_suffix raw ''.'')) in
       if p = ''*'' then (if best < 1 then 1 else best)
       else if has_prefix p ''*.'' then
         (let sfx = trim_prefix p ''*'' in
          if has_suffix host sfx \<and> host \<noteq> trim_prefix sfx ''.''
          then max best (1000 + int (length sfx)) else best)
       else if p = host then max best (1000000 + int (length p))
       else best) = max best (pattern_score host (pattern_norm raw))"
proof -
  define p where "p = pattern_norm raw"
  have p: "to_lower (trim_space (trim_suffix raw ''.'')) = p" by (simp add: p_def pattern_norm_def)
  show ?thesis
  proof (cases "p \<noteq> ''*'' \<and> has_prefix p ''*.''")
    case True
    with wildcard_parts [of p] assms show ?thesis unfolding p p_def [symmetric] Let_def pattern_score_def by simp
  next
    case False
    with assms show ?thesis unfolding p p_def [symmetric] Let_def pattern_score_def by auto
  qed
qed

lemma table_host_score_fold:
  "table_host_score patterns host =
     foldl (\<lambda>b raw. max b (pattern_score host (pattern_norm raw))) (- 1) patterns"
proof -
  have "table_host_score patterns host = foldl (\<lambda>b raw. max b (pattern_score host (pattern_norm raw))) (- 1) patterns
      \<and> - 1 \<le> table_host_score patterns host"
    unfolding table_host_score_def
  proof (induction patterns rule: rev_induct)
    case (snoc raw patterns)
    show ?case unfolding foldl_append foldl.simps
      unfolding table_step [OF conjunct2 [OF snoc]] using snoc by (metis max.coboundedI1)
  qed simp
  then show ?thesis by blast
qed

lemma scores_agree: "host_match_specificity ps host = (table_host_score ps host \<ge> 0, table_host_score ps host)"
  by (simp add: host_match_specificity_def host_scan_fold table_host_score_fold Let_def)

lemma fold_max_ge:
  fixes b :: int
  shows "b \<le> foldl (\<lambda>b x. max b (f x)) b xs"
  by (induction xs arbitrary: b) (auto intro: order_trans [OF max.cobounded1])

lemma fold_max_attained:
  fixes b :: int
  assumes "foldl (\<lambda>b x. max b (f x)) b xs = s" "b < s"
  shows "\<exists>x \<in> set xs. f x = s"
  using assms
proof (induction xs arbitrary: b)
  case (Cons x xs)
  show ?case
  proof (cases "max b (f x) < s")
    case True
    with Cons.IH [of "max b (f x)"] Cons.prems show ?thesis by auto
  next
    case False
    moreover have "max b (f x) \<le> s" using fold_max_ge [of "max b (f x)" f xs] Cons.prems by simp
    ultimately have "f x = s" using Cons.prems by (auto simp: max_def split: if_splits)
    then show ?thesis by simp
  qed
qed simp

lemma table_host_score_attained:
  "0 \<le> table_host_score ps host \<Longrightarrow>
     \<exists>p \<in> set ps. pattern_score host (pattern_norm p) = table_host_score ps host"
  using fold_max_attained [of "\<lambda>raw. pattern_score host (pattern_norm raw)" "- 1" ps]
  by (simp add: table_host_score_fold)

text \<open>The score tells the pattern: exact, wildcard and catch-all scores never collide.\<close>

lemma pattern_score_inj:
  assumes "pattern_score host p = s" "pattern_score host q = s" "0 \<le> s"
  shows "p = q"
proof -
  have len: "length (tl w) \<le> length host" if "has_suffix host (tl w)" for w
    using that by (simp add: has_suffix_def)
  have wild: "w = CHR ''*'' # drop (length host - length (tl w)) host"
    if "has_prefix w ''*.''" "has_suffix host (tl w)" for w
    using that by (cases w) (auto simp: has_prefix_def has_suffix_def)
  show ?thesis
    using assms wild [of p] wild [of q] len [of p] len [of q]
    by (auto simp: pattern_score_def split: if_splits)
qed

subsection \<open>Both matchers choose the most specific route\<close>

definition route_matches :: "http_request \<Rightarrow> route \<Rightarrow> bool" where
  "route_matches req r \<longleftrightarrow>
     fst (host_match_specificity (rt_hosts r) (canonical_host (rq_host req))) \<and>
     path_prefix_matches (canonical_request_path (u_path (rq_url req))) (rt_path_prefix r)"

definition route_rank :: "http_request \<Rightarrow> route \<Rightarrow> int \<times> int" where
  "route_rank req r =
     (int (length (rt_path_prefix r)),
      snd (host_match_specificity (rt_hosts r) (canonical_host (rq_host req))))"

definition scan_state :: "http_request \<Rightarrow> route option \<Rightarrow> int \<times> int" where
  "scan_state req best = (case best of None \<Rightarrow> (- 1, - 1) | Some b \<Rightarrow> route_rank req b)"

lemma scan_better_iff:
  "(case best of None \<Rightarrow> True | Some b \<Rightarrow> route_rank req b < route_rank req r) \<longleftrightarrow>
     scan_state req best < route_rank req r"
  by (cases best) (auto simp: scan_state_def route_rank_def less_prod_def)

lemma router_scan_best:
  "scan_state req best = (bp, bh) \<Longrightarrow>
   router_scan rs (canonical_host (rq_host req)) (canonical_request_path (u_path (rq_url req))) best bp bh =
   foldl (better (route_matches req) (route_rank req)) best rs"
proof (induction rs arbitrary: best bp bh)
  case (Cons r rs)
  obtain m sc where m: "host_match_specificity (rt_hosts r) (canonical_host (rq_host req)) = (m, sc)"
    by (cases "host_match_specificity (rt_hosts r) (canonical_host (rq_host req))")
  show ?case
  proof (cases "route_matches req r \<and> scan_state req best < route_rank req r")
    case True
    then have "better (route_matches req) (route_rank req) best r = Some r"
      using scan_better_iff [where best = best and req = req and r = r] by (simp add: better_def)
    moreover have "scan_state req (Some r) = (int (length (rt_path_prefix r)), sc)"
      by (simp add: scan_state_def route_rank_def m)
    moreover have "m \<and> path_prefix_matches (canonical_request_path (u_path (rq_url req))) (rt_path_prefix r) \<and>
        (int (length (rt_path_prefix r)) > bp \<or> int (length (rt_path_prefix r)) = bp \<and> sc > bh)"
      using True Cons.prems m by (auto simp: route_matches_def route_rank_def less_prod_def)
    ultimately show ?thesis using Cons.IH m by (auto simp: Let_def)
  next
    case False
    then have "better (route_matches req) (route_rank req) best r = best"
      using scan_better_iff [where best = best and req = req and r = r] by (auto simp: better_def)
    moreover have "\<not> (m \<and> path_prefix_matches (canonical_request_path (u_path (rq_url req))) (rt_path_prefix r) \<and>
        (int (length (rt_path_prefix r)) > bp \<or> int (length (rt_path_prefix r)) = bp \<and> sc > bh))"
      using False Cons.prems m by (auto simp: route_matches_def route_rank_def less_prod_def)
    ultimately show ?thesis using Cons m by (auto simp: Let_def)
  qed
qed simp

lemma table_scan_best:
  "table_better (canonical_host (rq_host req)) (canonical_request_path (u_path (rq_url req)))
     (best, scan_state req best) r =
   (better (route_matches req) (route_rank req) best r,
    scan_state req (better (route_matches req) (route_rank req) best r))"
proof -
  obtain bp bh where s: "scan_state req best = (bp, bh)" by (cases "scan_state req best")
  have m: "host_match_specificity (rt_hosts r) (canonical_host (rq_host req)) =
      (table_host_score (rt_hosts r) (canonical_host (rq_host req)) \<ge> 0,
       table_host_score (rt_hosts r) (canonical_host (rq_host req)))" by (rule scores_agree)
  have "better (route_matches req) (route_rank req) best r =
      (if route_matches req r \<and> scan_state req best < route_rank req r then Some r else best)"
    using scan_better_iff [where best = best and req = req and r = r] by (simp add: better_def)
  then show ?thesis
    using s by (auto simp: table_better_def Let_def route_matches_def route_rank_def m less_prod_def
        scan_state_def)
qed

lemma table_fold_best:
  "foldl (table_better (canonical_host (rq_host req)) (canonical_request_path (u_path (rq_url req))))
     (best, scan_state req best) rs =
   (foldl (better (route_matches req) (route_rank req)) best rs,
    scan_state req (foldl (better (route_matches req) (route_rank req)) best rs))"
  by (induction rs arbitrary: best) (simp_all add: table_scan_best)

interpretation edge_routes: most_specific "\<lambda>rs. router_match rs req" "route_matches req" "route_rank req"
  for req
  by unfold_locales (simp add: router_match_def first_best_def router_scan_best scan_state_def)

interpretation gate_routes: most_specific "\<lambda>rs. table_match rs req" "route_matches req" "route_rank req"
  for req
  using table_fold_best [of req None]
  by unfold_locales (simp add: table_match_def first_best_def scan_state_def)

section \<open>Loaded tables\<close>

lemma label_char_plain: "label_char c \<Longrightarrow> plain_char c \<and> c \<noteq> CHR ''.'' \<and> lower_char c = c"
  using letter_plain [of c] case_same(2) [of c] letter_case [of c]
  by (auto simp: label_char_def is_lower_letter_def is_upper_letter_def is_digit_def Let_def)

text \<open>A normalised host: not empty, plain at both ends, no trailing dot, lower case.\<close>

definition normal_host :: "string \<Rightarrow> bool" where
  "normal_host h \<longleftrightarrow> h \<noteq> [] \<and> plain_char (hd h) \<and> plain_char (last h) \<and> last h \<noteq> CHR ''.'' \<and> to_lower h = h"

lemma pattern_norm_normal: "normal_host h \<Longrightarrow> pattern_norm h = h"
  by (simp add: normal_host_def pattern_norm_def trim_suffix_def has_suffix_single trim_space_plain)

lemma hex_plain:
  assumes "c \<in> set (hex_digits @ '':.'')"
  shows "plain_char c" "lower_char c = c" "c \<noteq> CHR ''.'' \<or> c = CHR ''.''"
proof -
  have "list_all (\<lambda>c. plain_char c \<and> lower_char c = c) (hex_digits @ '':.'')" by code_simp
  with assms show "plain_char c" "lower_char c = c" "c \<noteq> CHR ''.'' \<or> c = CHR ''.''"
    by (auto simp: list_all_iff simp del: set_append)
qed

lemma ip_host_normal: "normal_host (to_lower (ip_string ip))"
proof -
  have "set (ip_string ip) \<subseteq> set (hex_digits @ '':.'') \<and> ip_string ip \<noteq> [] \<and> last (ip_string ip) \<noteq> CHR ''.''"
  proof (cases "is_v4 ip")
    case True
    have "CHR ''.'' \<notin> set hex_digits" by code_simp
    with ip_string_v4 [OF True] show ?thesis by auto
  next
    case False
    have "CHR ''.'' \<notin> set (hex_digits @ '':'')" by code_simp
    moreover have "last (ip_string ip) \<in> set (hex_digits @ '':'')"
      using ip_string_v6 [OF False] last_in_set by blast
    ultimately have "last (ip_string ip) \<noteq> CHR ''.''" by metis
    moreover have "set (hex_digits @ '':'') \<subseteq> set (hex_digits @ '':.'')" by auto
    ultimately show ?thesis using ip_string_v6 [OF False] by blast
  qed
  then have *: "set (ip_string ip) \<subseteq> set (hex_digits @ '':.'')" "ip_string ip \<noteq> []"
    "last (ip_string ip) \<noteq> CHR ''.''" by auto
  have low: "to_lower (ip_string ip) = ip_string ip"
    using * hex_plain(2) by (auto simp: to_lower_def map_idI subset_iff simp del: set_append)
  have "hd (ip_string ip) \<in> set (hex_digits @ '':.'')" "last (ip_string ip) \<in> set (hex_digits @ '':.'')"
    using * hd_in_set last_in_set by blast+
  with * low show ?thesis by (simp add: normal_host_def hex_plain(1) del: set_append)
qed

lemma label_host_normal:
  assumes "list_all valid_label (split_on (CHR ''.'') v)"
  shows "normal_host v"
proof -
  let ?ls = "split_on (CHR ''.'') v"
  have lab: "valid_label l" if "l \<in> set ?ls" for l using assms that by (simp add: list_all_iff)
  have v: "v = join_with ''.'' ?ls" by (simp add: join_split)
  have ne: "[] \<notin> set ?ls" using lab by (auto simp: valid_label_def)
  have nv: "v \<noteq> []" using ne by auto
  have hv: "hd v = hd (hd ?ls)"
  proof (cases ?ls)
    case (Cons l ls)
    then have "l \<noteq> []" using ne by auto
    with Cons show ?thesis using v by (cases ls) (metis join_with.simps(2) list.sel(1),
        metis hd_append2 join_with.simps(3) list.sel(1))
  qed simp
  have lv: "last v = last (last ?ls)" using ne v last_join_with [of ?ls "''.''"] by simp
  have "label_char (hd v)" "label_char (last v)"
    using lab [of "hd ?ls"] lab [of "last ?ls"] hv lv by (simp_all add: valid_label_def)
  moreover have "lower_char c = c" if "c \<in> set v" for c
  proof -
    have "c = CHR ''.'' \<or> (\<exists>l \<in> set ?ls. c \<in> set l)"
      using that v set_join_with [of "''.''" ?ls] by auto
    moreover have "lower_char (CHR ''.'') = CHR ''.''" "lower_char (CHR ''-'') = CHR ''-''" by code_simp+
    ultimately show ?thesis
      using lab label_char_plain by (fastforce simp: valid_label_def list_all_iff)
  qed
  ultimately show ?thesis
    using nv label_char_plain by (auto simp: normal_host_def to_lower_def map_idI)
qed

lemma normalize_exact_normal: "normalize_exact_route_host v = Some h \<Longrightarrow> normal_host h"
  using ip_host_normal label_host_normal
  by (auto simp: normalize_exact_route_host_def split: if_splits option.splits)

lemma normalize_pattern_normal:
  assumes "normalize_route_host_pattern raw = Some h"
  shows "normal_host h"
proof -
  have star: "normal_host ''*''" by code_simp
  have wild: "normal_host (''*.'' @ x)" if "normal_host x" for x
  proof -
    have "plain_char (CHR ''*'')" "to_lower ''*.'' = ''*.''" by code_simp+
    with that show ?thesis by (auto simp: normal_host_def to_lower_def)
  qed
  show ?thesis
    using assms star wild normalize_exact_normal
    by (auto simp: normalize_route_host_pattern_def Let_def split: if_splits option.splits)
qed

lemma normalize_path_prefix_rooted:
  assumes "normalize_path_prefix raw = Some pre"
  shows "has_prefix pre ''/''"
proof (cases "trim_space raw = []")
  case True
  with assms show ?thesis by (auto simp: normalize_path_prefix_def)
next
  case False
  with assms obtain s where s: "trim_space raw = CHR ''/'' # s"
    by (auto simp: normalize_path_prefix_def Let_def has_prefix_iff split: if_splits)
  obtain t where t: "path_clean (trim_space raw) = CHR ''/'' # t"
    unfolding s path_clean_rooted by blast
  have root: "has_prefix (trim_suffix (CHR ''/'' # w) ''/'') ''/''" if "w \<noteq> []" for w
    using that by (cases w rule: rev_cases) (auto simp: trim_suffix_def has_prefix_single)
  define w where "w = (if has_suffix (trim_space raw) ''/'' \<and> t \<noteq> [] then t @ ''/'' else t)"
  have "pre = (if CHR ''/'' # w \<noteq> ''/'' then trim_suffix (CHR ''/'' # w) ''/'' else CHR ''/'' # w)"
    using assms False
    by (simp add: normalize_path_prefix_def Let_def t w_def split: if_split_asm option.split_asm)
  with root [of w] show ?thesis by (auto simp: has_prefix_single split: if_splits)
qed

definition route_selectors :: "route \<Rightarrow> (string \<times> string) list" where
  "route_selectors r = map (\<lambda>h. (h, rt_path_prefix r)) (rt_hosts r)"

definition route_normal :: "route \<Rightarrow> bool" where
  "route_normal r \<longleftrightarrow> rt_name r \<noteq> [] \<and> rt_hosts r \<noteq> [] \<and> list_all normal_host (rt_hosts r) \<and>
     has_prefix (rt_path_prefix r) ''/''"

text \<open>What \<^verbatim>\<open>Load\<close> guarantees of a table.\<close>

definition table_wf :: "route list \<Rightarrow> bool" where
  "table_wf rs \<longleftrightarrow> list_all route_normal rs \<and> distinct (map (to_lower \<circ> rt_name) rs) \<and>
     distinct (concat (map route_selectors rs))"

lemma load_hosts_normal:
  "load_hosts hosts raws = Inr hs \<Longrightarrow> list_all normal_host hosts \<Longrightarrow> distinct hosts \<Longrightarrow>
     list_all normal_host hs \<and> distinct hs \<and> length hs = length hosts + length raws"
proof (induction hosts raws rule: load_hosts.induct)
  case (2 hosts raw rest)
  then show ?case
    by (auto simp: normalize_pattern_normal split: option.splits if_splits)
qed simp

lemma add_selectors_set:
  "add_selectors hosts pre sel = Inr sel' \<Longrightarrow>
     set sel' = set sel \<union> (\<lambda>h. (h, pre)) ` set hosts \<and> (\<forall>h \<in> set hosts. (h, pre) \<notin> set sel)"
proof (induction hosts arbitrary: sel)
  case (Cons h hosts)
  then have "(h, pre) \<notin> set sel" "add_selectors hosts pre ((h, pre) # sel) = Inr sel'"
    by (auto split: if_splits)
  with Cons.IH [of "(h, pre) # sel"] show ?case by auto
qed simp

lemma load_routes_wf:
  assumes "load_routes rs seen sel pre_routes = Inr t" "table_wf pre_routes"
    and "set seen = (to_lower \<circ> rt_name) ` set pre_routes"
    and "set sel = set (concat (map route_selectors pre_routes))"
  shows "table_wf t \<and> length t = length pre_routes + length rs"
  using assms
proof (induction rs arbitrary: seen sel pre_routes)
  case (Cons r rs)
  let ?name = "trim_space (rt_name r)"
  from Cons.prems(1) obtain pre hosts sel' where
    pre: "normalize_path_prefix (rt_path_prefix r) = Some pre"
    and name: "?name \<noteq> []" "to_lower ?name \<notin> set seen" "rt_hosts r \<noteq> []"
    and hosts: "load_hosts [] (rt_hosts r) = Inr hosts"
    and sel': "add_selectors hosts pre sel = Inr sel'"
    and rest: "load_routes rs (to_lower ?name # seen) sel'
      (pre_routes @ [\<lparr>rt_name = ?name, rt_hosts = hosts, rt_path_prefix = pre\<rparr>]) = Inr t"
    by (auto simp: Let_def split: option.splits if_splits sum.splits)
  let ?r = "\<lparr>rt_name = ?name, rt_hosts = hosts, rt_path_prefix = pre\<rparr>"
  have h: "list_all normal_host hosts" "distinct hosts" "hosts \<noteq> []"
    using load_hosts_normal [OF hosts] name(3) by auto
  note s = add_selectors_set [OF sel']
  have "distinct (map (\<lambda>h. (h, pre)) hosts)" using h(2) by (simp add: distinct_map inj_on_def)
  then have d: "distinct (route_selectors ?r)" by (simp add: route_selectors_def)
  have "set (concat (map route_selectors pre_routes)) \<inter> set (route_selectors ?r) = {}"
    unfolding Cons.prems(4) [symmetric] using s by (auto simp: route_selectors_def)
  with d have "distinct (concat (map route_selectors (pre_routes @ [?r])))"
    using Cons.prems(2) by (simp add: table_wf_def)
  then have wf: "table_wf (pre_routes @ [?r])"
    using Cons.prems(2,3) h name normalize_path_prefix_rooted [OF pre]
    by (simp add: table_wf_def route_normal_def)
  show ?case
    using Cons.IH [OF rest wf] Cons.prems(3,4) s by (simp add: route_selectors_def Un_commute)
qed simp

lemma load_table_wf: "load_table utf8_valid decode f = Inr t \<Longrightarrow> table_wf t \<and> t \<noteq> []"
  using load_routes_wf [of _ "[]" "[]" "[]" t]
  by (auto simp: load_table_def table_wf_def split: if_splits option.splits)

text \<open>In a well-formed table two matching routes of the same rank are the same route.\<close>

lemma same_length_prefix:
  assumes "path_prefix_matches p a" "path_prefix_matches p b" "has_prefix a ''/''" "has_prefix b ''/''"
    and "length a = length b"
  shows "a = b"
proof -
  have one: "x = ''/''" if "has_prefix x ''/''" "length x = 1" for x
    using that by (cases x) (auto simp: has_prefix_single)
  have tk: "x = ''/'' \<or> take (length x) p = x" if "path_prefix_matches p x" for x
    using that by (auto simp: path_prefix_matches_iff)
  consider "a = ''/''" | "b = ''/''" | "take (length a) p = a" "take (length b) p = b"
    using tk [OF assms(1)] tk [OF assms(2)] by blast
  then show ?thesis
  proof cases
    case 1
    with assms(5) one [OF assms(4)] show ?thesis by simp
  next
    case 2
    with assms(5) one [OF assms(3)] show ?thesis by simp
  next
    case 3
    with assms(5) show ?thesis by metis
  qed
qed

lemma distinct_concat_disjoint:
  "distinct (concat (map f xs)) \<Longrightarrow> x \<in> set xs \<Longrightarrow> y \<in> set xs \<Longrightarrow> x \<noteq> y \<Longrightarrow> set (f x) \<inter> set (f y) = {}"
  by (induction xs) auto

lemma table_rank_inj:
  assumes "table_wf t" "r \<in> set t" "r' \<in> set t" "route_matches req r" "route_matches req r'"
    and "route_rank req r = route_rank req r'"
  shows "r = r'"
proof (rule ccontr)
  assume ne: "r \<noteq> r'"
  let ?h = "canonical_host (rq_host req)"
  have n: "route_normal r" "route_normal r'" using assms by (auto simp: table_wf_def list_all_iff)
  have pre: "rt_path_prefix r = rt_path_prefix r'"
    using assms n by (intro same_length_prefix) (auto simp: route_matches_def route_rank_def route_normal_def)
  have sc: "table_host_score (rt_hosts r) ?h = table_host_score (rt_hosts r') ?h"
    "0 \<le> table_host_score (rt_hosts r) ?h"
    using assms by (auto simp: route_matches_def route_rank_def scores_agree)
  obtain p where p: "p \<in> set (rt_hosts r)" "pattern_score ?h (pattern_norm p) = table_host_score (rt_hosts r) ?h"
    using table_host_score_attained [OF sc(2)] by blast
  obtain q where q: "q \<in> set (rt_hosts r')" "pattern_score ?h (pattern_norm q) = table_host_score (rt_hosts r') ?h"
    using table_host_score_attained sc by metis
  have "pattern_norm p = p" "pattern_norm q = q"
    using p q n by (auto simp: route_normal_def list_all_iff intro: pattern_norm_normal)
  then have "p = q" using pattern_score_inj p q sc by metis
  with p q pre have "(p, rt_path_prefix r) \<in> set (route_selectors r) \<inter> set (route_selectors r')"
    by (auto simp: route_selectors_def)
  moreover have "set (route_selectors r) \<inter> set (route_selectors r') = {}"
    using assms(1,2,3) ne by (intro distinct_concat_disjoint) (auto simp: table_wf_def)
  ultimately show False by blast
qed

section \<open>Properties\<close>

text \<open>
  C29. Routing is by specificity: EdgeProxy's router answers a configured route that matches the
  canonical host and path, and no matching route has a longer prefix, or the same prefix length
  and a better host pattern (exact before wildcard, longer wildcard before shorter, catch-all
  last); it answers no route exactly when none matches.
\<close>

theorem router_match_most_specific:
  "(router_match routes req = None) = (set routes \<inter> {r. route_matches req r} = {}) \<and>
   (\<forall>best. router_match routes req = Some best \<longrightarrow>
      best \<in> set routes \<and> route_matches req best \<and>
      Max (route_rank req ` (set routes \<inter> {r. route_matches req r})) = route_rank req best)"
proof -
  have "Max (route_rank req ` (set routes \<inter> {r. route_matches req r})) = route_rank req best"
    if "router_match routes req = Some best" for best
    using edge_routes.select_Some [OF that] by (intro Max_eqI) auto
  then show ?thesis
    using edge_routes.select_Some edge_routes.select_None by blast
qed

definition demo_routes :: "route list" where
  "demo_routes = [\<lparr>rt_name = ''all'', rt_hosts = [''*''], rt_path_prefix = ''/''\<rparr>,
     \<lparr>rt_name = ''api'', rt_hosts = [''*.example.com''], rt_path_prefix = ''/api''\<rparr>,
     \<lparr>rt_name = ''www-api'', rt_hosts = [''www.example.com''], rt_path_prefix = ''/api''\<rparr>]"

definition demo_api_request :: http_request where
  "demo_api_request = demo_request\<lparr>rq_host := ''WWW.Example.com:8080'',
     rq_url := (rq_url demo_request)\<lparr>u_path := ''/x/../api/v1''\<rparr>\<rparr>"

theorem router_match_most_specific_witness:
  "router_match demo_routes demo_api_request = Some (demo_routes ! 2) \<and>
   route_matches demo_api_request (demo_routes ! 2)"
proof -
  have m: "router_match demo_routes demo_api_request = Some (demo_routes ! 2)" by code_simp
  with router_match_most_specific [of demo_routes demo_api_request] show ?thesis by blast
qed

text \<open>
  The two hops select the same route: on the same table SecurityEdge's \<^verbatim>\<open>Table.Match\<close>
  and EdgeProxy's \<^verbatim>\<open>Router.Match\<close> agree on every request.
\<close>

theorem matchers_agree: "table_match rs req = router_match rs req"
  by (simp add: gate_routes.select_first_best edge_routes.select_first_best)

text \<open>
  A table that \<^verbatim>\<open>Load\<close> accepts is unambiguous: it is not empty, its route names are
  distinct up to case, no host and prefix pair occurs twice, and because of that the route a
  request gets does not depend on the order of the routes in the file.
\<close>

theorem loaded_table_unambiguous:
  assumes "load_table utf8_valid decode f = Inr t" "set t' = set t"
  shows "t \<noteq> [] \<and> distinct (map (to_lower \<circ> rt_name) t) \<and>
    distinct (concat (map (\<lambda>r. map (\<lambda>h. (h, rt_path_prefix r)) (rt_hosts r)) t)) \<and>
    table_match t' req = table_match t req"
proof -
  have wf: "table_wf t" "t \<noteq> []" using load_table_wf [OF assms(1)] by auto
  have "table_match t req = table_match t' req"
    using assms(2) table_rank_inj [OF wf(1)] by (intro gate_routes.select_order_independent) auto
  with wf show ?thesis by (simp add: table_wf_def route_selectors_def [abs_def])
qed

theorem loaded_table_unambiguous_witness:
  "table_match (rev demo_routes) demo_api_request = table_match demo_routes demo_api_request"
proof -
  let ?f = "\<lparr>cf_opens = True, cf_regular = True, cf_size = 0, cf_data = Some []\<rparr>"
  have "load_table (\<lambda>_. True) (\<lambda>_. Some (demo_routes, True)) ?f = Inr demo_routes" by code_simp
  from loaded_table_unambiguous [OF this, of "rev demo_routes"] show ?thesis by simp
qed

end
