(* ===== verification/Upstream_Pool.thy ===== *)
theory Upstream_Pool
  imports Http_Helpers
begin

text \<open>
  Load balancing over the origins of a route, \<^verbatim>\<open>apps/edgeproxy/internal/proxy/upstream.go\<close>.
  A pool owns its nodes; a pointer to a node is its index in \<open>up_nodes\<close>, an \<^verbatim>\<open>exclude\<close> map
  is the list of excluded indices. \<open>pick\<close> covers all six algorithms with their counters:
  \<open>next\<close> and the random state are 64-bit words that wrap, the signed conversion of the round
  robin index and its panic are kept. \<^verbatim>\<open>float64\<close> values are reals. The lemmas show that a
  pick is a usable node whenever there is one, and the exact long-run shares of
  the round robin and smooth weighted algorithms. Connections, transports and timers
  are not modelled: a health check is the function of the response it got.
\<close>

unbundle bit_operations_syntax

record upstream =
  us_name :: string
  us_url :: go_url
  us_weight :: int
  us_priority :: int
  us_healthy :: bool
  us_active :: int
  us_selections :: "64 word"
  us_failures :: "64 word"
  us_recoveries :: "64 word"
  us_ewma :: real
  us_current :: int

record upstream_pool =
  up_nodes :: "upstream list"
  up_next :: "64 word"
  up_random :: "64 word"
  up_health_host :: string
  up_algorithm :: string
  up_sensitivity :: real
  up_ewma_alpha :: real

text \<open>The result of an operation that may index out of range: a node, no node, or a panic.\<close>

datatype pick_result = Picked nat | No_node | Panicked

section \<open>Construction\<close>

record upstream_config =
  uc_name :: string
  uc_url :: string
  uc_weight :: int
  uc_priority :: int

record pool_route =
  pr_name :: string
  pr_hosts :: "string list"
  pr_preserve_host :: bool
  pr_health_enabled :: bool
  pr_algorithm :: string
  pr_sensitivity :: real
  pr_ewma_alpha :: real
  pr_upstreams :: "upstream_config list"

fun health_host_scan :: "string list \<Rightarrow> string \<Rightarrow> string" where
  "health_host_scan [] wildcard = wildcard"
| "health_host_scan (raw # hosts) wildcard =
     (let host = trim_space raw in
      if host = ''*'' then health_host_scan hosts wildcard
      else if has_prefix host ''*.'' then
        health_host_scan hosts
          (if wildcard = [] then ''health-probe.'' @ trim_prefix host ''*.'' else wildcard)
      else (case parse_ip host of
              Some ip \<Rightarrow> if contains_str host '':'' then ''['' @ ip_string ip @ '']'' else host
            | None \<Rightarrow> host))"

definition health_check_host :: "pool_route \<Rightarrow> string" where
  "health_check_host r = (if \<not> pr_preserve_host r then [] else health_host_scan (pr_hosts r) [])"

text \<open>\<open>parse_url\<close> is \<^verbatim>\<open>url.Parse\<close>, \<open>nano\<close> the clock at construction.\<close>

definition new_upstream_pool ::
  "(string \<Rightarrow> go_url option) \<Rightarrow> int \<Rightarrow> pool_route \<Rightarrow> upstream_pool option" where
  "new_upstream_pool parse_url nano r =
     map_option (\<lambda>nodes.
       \<lparr>up_nodes = nodes, up_next = 0,
        up_random = (word_of_int nano :: 64 word)
          XOR (of_nat (length (pr_name r)) * 0x9e3779b97f4a7c15),
        up_health_host = health_check_host r, up_algorithm = pr_algorithm r,
        up_sensitivity = pr_sensitivity r, up_ewma_alpha = pr_ewma_alpha r\<rparr>)
       (those (map (\<lambda>raw. map_option (\<lambda>u.
          \<lparr>us_name = uc_name raw, us_url = u, us_weight = uc_weight raw,
           us_priority = uc_priority raw, us_healthy = \<not> pr_health_enabled r, us_active = 0,
           us_selections = 0, us_failures = 0, us_recoveries = 0, us_ewma = 0, us_current = 0\<rparr>)
          (parse_url (uc_url raw))) (pr_upstreams r)))"

section \<open>Candidates\<close>

definition upd_node :: "nat \<Rightarrow> (upstream \<Rightarrow> upstream) \<Rightarrow> upstream_pool \<Rightarrow> upstream_pool" where
  "upd_node i f p = p\<lparr>up_nodes := (up_nodes p)[i := f (up_nodes p ! i)]\<rparr>"

definition eligible :: "upstream_pool \<Rightarrow> nat list \<Rightarrow> bool \<Rightarrow> nat list" where
  "eligible p exclude healthy_only =
     filter (\<lambda>i. \<not> (i \<in> set exclude) \<and> \<not> (healthy_only \<and> \<not> us_healthy (up_nodes p ! i)))
       [0..<length (up_nodes p)]"

definition pick_probe :: "upstream_pool \<Rightarrow> nat list \<Rightarrow> nat option" where
  "pick_probe p exclude =
     (let c1 = eligible p exclude True;
          c2 = (if c1 = [] then eligible p exclude False else c1)
      in if c2 = [] then None else Some (hd c2))"

definition pick_candidates :: "upstream_pool \<Rightarrow> nat list \<Rightarrow> nat list" where
  "pick_candidates p exclude =
     (let c1 = eligible p exclude True;
          c2 = (if c1 = [] then eligible p exclude False else c1);
          c3 = (if c2 = [] then eligible p [] True else c2)
      in if c3 = [] then [0..<length (up_nodes p)] else c3)"

section \<open>Algorithms\<close>

text \<open>Go's remainder truncates towards zero; \<open>int(uint64)\<close> reinterprets the bits.\<close>

definition go_rem :: "int \<Rightarrow> int \<Rightarrow> int" where
  "go_rem a n = (if a \<ge> 0 then a mod n else - ((- a) mod n))"

definition pick_round_robin :: "nat list \<Rightarrow> upstream_pool \<Rightarrow> pick_result \<times> upstream_pool" where
  "pick_round_robin cands p =
     (let nxt = up_next p + 1;
          idx = go_rem (sint (nxt - 1)) (int (length cands))
      in (if idx < 0 then Panicked else Picked (cands ! nat idx), p\<lparr>up_next := nxt\<rparr>))"

definition adaptive_weight :: "real \<Rightarrow> upstream \<Rightarrow> int" where
  "adaptive_weight sensitivity u =
     (let latency = max (us_ewma u) (1 / 4);
          penalty = (latency powr sensitivity) * real_of_int (us_active u + 1)
      in \<lfloor>max 1 (real_of_int (us_weight u) * 1000000 / penalty)\<rfloor>)"

fun smooth_loop ::
  "(upstream \<Rightarrow> int) \<Rightarrow> nat list \<Rightarrow> upstream list \<Rightarrow> nat option \<Rightarrow> int
     \<Rightarrow> nat option \<times> int \<times> upstream list" where
  "smooth_loop wt [] nodes selected tot = (selected, tot, nodes)"
| "smooth_loop wt (i # cs) nodes selected tot =
     (let w = wt (nodes ! i);
          nodes' = nodes[i := (nodes ! i)\<lparr>us_current := us_current (nodes ! i) + w\<rparr>];
          better = (case selected of
                      None \<Rightarrow> True
                    | Some s \<Rightarrow> us_current (nodes' ! i) > us_current (nodes' ! s))
      in smooth_loop wt cs nodes' (if better then Some i else selected) (tot + w))"

definition pick_smooth_weighted ::
  "nat list \<Rightarrow> bool \<Rightarrow> upstream_pool \<Rightarrow> nat option \<times> upstream_pool" where
  "pick_smooth_weighted cands latency_adjusted p =
     (let wt = (if latency_adjusted then adaptive_weight (up_sensitivity p) else us_weight) in
      case smooth_loop wt cands (up_nodes p) None 0 of
        (selected, tot, nodes) \<Rightarrow>
          (case selected of
             None \<Rightarrow> (None, p\<lparr>up_nodes := nodes\<rparr>)
           | Some s \<Rightarrow>
               (Some s, upd_node s (\<lambda>u. u\<lparr>us_current := us_current u - tot\<rparr>) (p\<lparr>up_nodes := nodes\<rparr>))))"

definition conn_load :: "upstream \<Rightarrow> real" where
  "conn_load u = real_of_int (us_active u + 1) / real_of_int (us_weight u)"

definition pick_least_connections :: "nat list \<Rightarrow> upstream_pool \<Rightarrow> nat" where
  "pick_least_connections cands p =
     foldl (\<lambda>best i.
       let left = conn_load (up_nodes p ! i); right = conn_load (up_nodes p ! best)
       in if left < right \<or> left = right \<and> us_priority (up_nodes p ! i) < us_priority (up_nodes p ! best)
          then i else best) (hd cands) (tl cands)"

definition pick_priority :: "nat list \<Rightarrow> upstream_pool \<Rightarrow> nat option \<times> upstream_pool" where
  "pick_priority cands p =
     (let minimum = foldl (\<lambda>m i. if us_priority (up_nodes p ! i) < m then us_priority (up_nodes p ! i) else m)
            (us_priority (up_nodes p ! hd cands)) (tl cands);
          group = filter (\<lambda>i. us_priority (up_nodes p ! i) = minimum) cands
      in if length group = 1 then (Some (hd group), p) else pick_smooth_weighted group False p)"

definition pick_adaptive :: "nat list \<Rightarrow> upstream_pool \<Rightarrow> nat option \<times> upstream_pool" where
  "pick_adaptive cands p = pick_smooth_weighted cands True p"

fun weighted_walk :: "upstream list \<Rightarrow> nat list \<Rightarrow> 64 word \<Rightarrow> nat option" where
  "weighted_walk nodes [] x = None"
| "weighted_walk nodes (i # cs) x =
     (let w = word_of_int (us_weight (nodes ! i)) in
      if x < w then Some i else weighted_walk nodes cs (x - w))"

definition pick_random_weighted :: "nat list \<Rightarrow> upstream_pool \<Rightarrow> nat \<times> upstream_pool" where
  "pick_random_weighted cands p =
     (let tot = foldl (\<lambda>t i. t + word_of_int (us_weight (up_nodes p ! i))) (0 :: 64 word) cands in
      if tot = 0 then (hd cands, p)
      else
        let st = up_random p + 0x9e3779b97f4a7c15;
            x1 = st XOR word_rotl 17 st;
            x2 = x1 * 0xbf58476d1ce4e5b9;
            chosen = x2 mod tot
        in (case weighted_walk (up_nodes p) cands chosen of
              Some i \<Rightarrow> i | None \<Rightarrow> last cands, p\<lparr>up_random := st\<rparr>))"

definition option_result :: "nat option \<times> upstream_pool \<Rightarrow> pick_result \<times> upstream_pool" where
  "option_result r = (case r of (None, p) \<Rightarrow> (No_node, p) | (Some i, p) \<Rightarrow> (Picked i, p))"

definition pick_algorithm :: "nat list \<Rightarrow> upstream_pool \<Rightarrow> pick_result \<times> upstream_pool" where
  "pick_algorithm cands p =
     (if up_algorithm p = ''weighted_round_robin'' then option_result (pick_smooth_weighted cands False p)
      else if up_algorithm p = ''least_connections'' then (Picked (pick_least_connections cands p), p)
      else if up_algorithm p = ''priority_failover'' then option_result (pick_priority cands p)
      else if up_algorithm p = ''adaptive_latency'' then option_result (pick_adaptive cands p)
      else if up_algorithm p = ''random_weighted'' then
        (case pick_random_weighted cands p of (i, p') \<Rightarrow> (Picked i, p'))
      else pick_round_robin cands p)"

definition pick :: "upstream_pool \<Rightarrow> nat list \<Rightarrow> pick_result \<times> upstream_pool" where
  "pick p exclude =
     (let cands = pick_candidates p exclude in
      if cands = [] then (No_node, p)
      else (case pick_algorithm cands p of
              (Picked i, p') \<Rightarrow>
                (Picked i, upd_node i (\<lambda>u. u\<lparr>us_selections := us_selections u + 1,
                                             us_active := us_active u + 1\<rparr>) p')
            | (r, p') \<Rightarrow> (r, p')))"

section \<open>Feedback and health\<close>

definition observe_latency :: "duration \<Rightarrow> real \<Rightarrow> upstream \<Rightarrow> upstream" where
  "observe_latency d alpha u =
     (let v = real_of_int d / real_of_int millisecond;
          old = us_ewma u
      in u\<lparr>us_ewma := (if old > 0 then alpha * v + (1 - alpha) * old else v)\<rparr>)"

definition observe :: "nat option \<Rightarrow> duration \<Rightarrow> upstream_pool \<Rightarrow> upstream_pool" where
  "observe node d p =
     (case node of None \<Rightarrow> p | Some i \<Rightarrow> upd_node i (observe_latency d (up_ewma_alpha p)) p)"

definition release_active :: "nat option \<Rightarrow> upstream_pool \<Rightarrow> upstream_pool" where
  "release_active node p =
     (case node of None \<Rightarrow> p | Some i \<Rightarrow> upd_node i (\<lambda>u. u\<lparr>us_active := us_active u - 1\<rparr>) p)"

definition release :: "nat option \<Rightarrow> duration \<Rightarrow> upstream_pool \<Rightarrow> upstream_pool" where
  "release node d p = release_active node (observe node d p)"

definition has_healthy :: "upstream_pool \<Rightarrow> bool" where
  "has_healthy p = list_ex us_healthy (up_nodes p)"

record health_change =
  hc_upstream :: go_url
  hc_healthy :: bool
  hc_status :: int
  hc_duration :: duration
  hc_error :: string

text \<open>The returned change is what \<^verbatim>\<open>onChange\<close> is called with.\<close>

definition set_node_health :: "bool \<Rightarrow> health_change \<Rightarrow> upstream \<Rightarrow> upstream \<times> health_change option" where
  "set_node_health healthy change u =
     (let u' = u\<lparr>us_healthy := healthy\<rparr> in
      if us_healthy u \<noteq> healthy then
        (if healthy then u'\<lparr>us_recoveries := us_recoveries u + 1\<rparr>
         else u'\<lparr>us_failures := us_failures u + 1\<rparr>, Some change)
      else (u', None))"

text \<open>One check of one node: \<open>resp\<close> is the error of the request or the status of the response.\<close>

definition check_node ::
  "int list \<Rightarrow> duration \<times> (string + int) \<Rightarrow> upstream \<Rightarrow> upstream \<times> health_change option" where
  "check_node statuses outcome u =
     (case outcome of (elapsed, resp) \<Rightarrow>
      case resp of
        Inl err \<Rightarrow> set_node_health False
          \<lparr>hc_upstream = us_url u, hc_healthy = False, hc_status = 0, hc_duration = elapsed, hc_error = err\<rparr> u
      | Inr status \<Rightarrow>
          let healthy = (if statuses \<noteq> [] then status \<in> set statuses
                         else status \<ge> 200 \<and> status < 400)
          in set_node_health healthy
               \<lparr>hc_upstream = us_url u, hc_healthy = healthy, hc_status = status, hc_duration = elapsed,
                hc_error = []\<rparr> u)"

text \<open>A round of checks: the nodes are independent of each other, so the order of their completion
  does not matter; a round that is cancelled stops after the nodes it has responses for.\<close>

definition check_round ::
  "int list \<Rightarrow> (duration \<times> (string + int)) list \<Rightarrow> upstream_pool \<Rightarrow> upstream_pool \<times> health_change list" where
  "check_round statuses resps p =
     (let n = min (length resps) (length (up_nodes p));
          rs = map (\<lambda>i. check_node statuses (resps ! i) (up_nodes p ! i)) [0..<n]
      in (p\<lparr>up_nodes := map fst rs @ drop n (up_nodes p)\<rparr>, List.map_filter snd rs))"

section \<open>Lemmas\<close>

subsection \<open>Smooth weighted selection\<close>

definition bump :: "(upstream \<Rightarrow> int) \<Rightarrow> upstream \<Rightarrow> upstream" where
  "bump wt u = u\<lparr>us_current := us_current u + wt u\<rparr>"

lemma smooth_loop_spec:
  assumes "distinct cs" "set cs \<subseteq> {..<length nodes}"
    and "\<And>s. sel = Some s \<Longrightarrow> s < length nodes \<and> s \<notin> set cs"
    and "smooth_loop wt cs nodes sel tot = (sel', tot', nodes')"
  shows "tot' = tot + (\<Sum>i \<leftarrow> cs. wt (nodes ! i)) \<and> length nodes' = length nodes \<and>
    (\<forall>i < length nodes. nodes' ! i = (if i \<in> set cs then bump wt (nodes ! i) else nodes ! i)) \<and>
    (sel' = None \<longleftrightarrow> sel = None \<and> cs = []) \<and>
    (\<forall>s. sel' = Some s \<longrightarrow> (s \<in> set cs \<or> sel = Some s) \<and>
      (\<forall>i \<in> set cs \<union> set_option sel. us_current (nodes' ! i) \<le> us_current (nodes' ! s)))"
  using assms
proof (induction cs arbitrary: nodes sel tot)
  case (Cons c cs)
  define nodes1 where "nodes1 = nodes[c := bump wt (nodes ! c)]"
  define sel1 where "sel1 = (if (case sel of None \<Rightarrow> True
      | Some s \<Rightarrow> us_current (nodes1 ! c) > us_current (nodes1 ! s)) then Some c else sel)"
  have c: "c < length nodes" "c \<notin> set cs" using Cons.prems by auto
  have run: "smooth_loop wt cs nodes1 sel1 (tot + wt (nodes ! c)) = (sel', tot', nodes')"
    using Cons.prems(4) unfolding smooth_loop.simps Let_def sel1_def nodes1_def bump_def .
  have s1: "s < length nodes1 \<and> s \<notin> set cs" if "sel1 = Some s" for s
    using that Cons.prems(1,3) c by (auto simp: sel1_def nodes1_def split: if_splits)
  have same: "nodes1 ! i = nodes ! i" if "i \<in> set cs" for i
    using that c by (auto simp: nodes1_def nth_list_update)
  have sums: "(\<Sum>i \<leftarrow> cs. wt (nodes1 ! i)) = (\<Sum>i \<leftarrow> cs. wt (nodes ! i))"
    using same by (intro arg_cong [of _ _ sum_list] map_cong) auto
  have IH: "tot' = tot + wt (nodes ! c) + (\<Sum>i \<leftarrow> cs. wt (nodes ! i)) \<and> length nodes' = length nodes \<and>
    (\<forall>i < length nodes. nodes' ! i = (if i \<in> set cs then bump wt (nodes1 ! i) else nodes1 ! i)) \<and>
    (sel' = None \<longleftrightarrow> sel1 = None \<and> cs = []) \<and>
    (\<forall>s. sel' = Some s \<longrightarrow> (s \<in> set cs \<or> sel1 = Some s) \<and>
      (\<forall>i \<in> set cs \<union> set_option sel1. us_current (nodes' ! i) \<le> us_current (nodes' ! s)))"
    using Cons.IH [of nodes1 sel1, OF _ _ s1 run] Cons.prems(1,2) sums by (simp add: nodes1_def)
  have nth: "nodes' ! i = (if i \<in> set (c # cs) then bump wt (nodes ! i) else nodes ! i)"
    if "i < length nodes" for i
    using IH that same c by (auto simp: nodes1_def nth_list_update)
  have keep: "nodes' ! j = nodes1 ! j" if "j < length nodes" "j \<notin> set cs" for j
    using IH that by auto
  have le1: "us_current (nodes' ! i) \<le> us_current (nodes' ! s)"
    if "sel1 = Some s" "i \<in> insert c (set_option sel)" for i s
    using that keep [of c] keep [of s] c Cons.prems(3) s1 [of s] keep
    by (auto simp: sel1_def nodes1_def split: if_splits option.splits)
  have some1: "sel1 \<noteq> None" by (auto simp: sel1_def split: option.splits)
  have max: "us_current (nodes' ! i) \<le> us_current (nodes' ! s)"
    if s: "sel' = Some s" and i: "i \<in> set (c # cs) \<union> set_option sel" for i s
  proof (cases "i \<in> set cs")
    case True
    then show ?thesis using IH s by auto
  next
    case False
    obtain s1 where s1': "sel1 = Some s1" using some1 by blast
    have "us_current (nodes' ! i) \<le> us_current (nodes' ! s1)" using le1 [OF s1'] i False by auto
    also have "\<dots> \<le> us_current (nodes' ! s)" using IH s s1' by auto
    finally show ?thesis .
  qed
  have mem: "s \<in> set (c # cs) \<or> sel = Some s" if "sel' = Some s" for s
    using IH that by (auto simp: sel1_def split: if_splits)
  show ?case using IH nth max mem some1 by auto
qed (auto split: option.splits)

text \<open>The effect of one smooth weighted pick on the scheduler weights.\<close>

lemma pick_smooth_weighted_spec:
  assumes "distinct cands" "set cands \<subseteq> {..<length (up_nodes p)}" "cands \<noteq> []"
    and wt: "wt = (if adj then adaptive_weight (up_sensitivity p) else us_weight)"
  shows "\<exists>s p'. pick_smooth_weighted cands adj p = (Some s, p') \<and> s \<in> set cands \<and>
    p' = p\<lparr>up_nodes := up_nodes p'\<rparr> \<and> length (up_nodes p') = length (up_nodes p) \<and>
    (\<forall>i < length (up_nodes p). up_nodes p' ! i =
      (up_nodes p ! i)\<lparr>us_current := us_current (up_nodes p ! i)
         + (if i \<in> set cands then wt (up_nodes p ! i) else 0)
         - (if i = s then \<Sum>j \<leftarrow> cands. wt (up_nodes p ! j) else 0)\<rparr>) \<and>
    (\<forall>i \<in> set cands. us_current (up_nodes p ! i) + wt (up_nodes p ! i)
        \<le> us_current (up_nodes p ! s) + wt (up_nodes p ! s))"
proof -
  obtain sel tot nodes where run: "smooth_loop wt cands (up_nodes p) None 0 = (sel, tot, nodes)"
    by (cases "smooth_loop wt cands (up_nodes p) None 0")
  note spec = smooth_loop_spec [OF assms(1,2) _ run]
  obtain s where s: "sel = Some s" using spec assms(3) by auto
  have sc: "s \<in> set cands" "s < length (up_nodes p)" using spec s assms(2) by auto
  define p' where "p' = upd_node s (\<lambda>u. u\<lparr>us_current := us_current u - tot\<rparr>) (p\<lparr>up_nodes := nodes\<rparr>)"
  have pick: "pick_smooth_weighted cands adj p = (Some s, p')"
    using run s by (simp add: pick_smooth_weighted_def wt [symmetric] Let_def p'_def)
  have "up_nodes p' ! i = (up_nodes p ! i)\<lparr>us_current := us_current (up_nodes p ! i)
         + (if i \<in> set cands then wt (up_nodes p ! i) else 0)
         - (if i = s then \<Sum>j \<leftarrow> cands. wt (up_nodes p ! j) else 0)\<rparr>"
    if "i < length (up_nodes p)" for i
    using spec sc that by (auto simp: p'_def upd_node_def bump_def nth_list_update)
  moreover have "us_current (up_nodes p ! i) + wt (up_nodes p ! i) \<le>
      us_current (up_nodes p ! s) + wt (up_nodes p ! s)" if "i \<in> set cands" for i
  proof -
    have "i < length (up_nodes p)" using that assms(2) by auto
    moreover have "us_current (nodes ! i) \<le> us_current (nodes ! s)" using spec s that by auto
    ultimately show ?thesis using spec sc that by (simp add: bump_def)
  qed
  moreover have "p' = p\<lparr>up_nodes := up_nodes p'\<rparr>" "length (up_nodes p') = length (up_nodes p)"
    using spec by (simp_all add: p'_def upd_node_def)
  ultimately show ?thesis using pick sc(1) by blast
qed

subsection \<open>What every algorithm owes \<^verbatim>\<open>pick\<close>\<close>

definition pool_frame :: "upstream_pool \<Rightarrow> upstream_pool \<Rightarrow> bool" where
  "pool_frame p p' \<longleftrightarrow> length (up_nodes p') = length (up_nodes p) \<and>
     (\<forall>j < length (up_nodes p). up_nodes p' ! j = (up_nodes p ! j)\<lparr>us_current := us_current (up_nodes p' ! j)\<rparr>) \<and>
     up_algorithm p' = up_algorithm p \<and> up_health_host p' = up_health_host p \<and>
     up_sensitivity p' = up_sensitivity p \<and> up_ewma_alpha p' = up_ewma_alpha p"

lemma pool_frame_refl: "pool_frame p p"
  by (simp add: pool_frame_def)

definition usable :: "nat list \<Rightarrow> upstream_pool \<Rightarrow> bool" where
  "usable cands p \<longleftrightarrow> cands \<noteq> [] \<and> distinct cands \<and> set cands \<subseteq> {..<length (up_nodes p)}"

text \<open>A scheduler answers one of the candidates, unless the round robin counter has reached the
  sign bit, and changes nothing but scheduler weights and its own counters.\<close>

locale scheduler =
  fixes sched :: "nat list \<Rightarrow> upstream_pool \<Rightarrow> pick_result \<times> upstream_pool"
  assumes sched_choice: "usable cands p \<Longrightarrow> sched cands p = (r, p') \<Longrightarrow>
      (\<exists>i \<in> set cands. r = Picked i) \<or> r = Panicked \<and> sint (up_next p) < 0"
    and sched_frame: "usable cands p \<Longrightarrow> sched cands p = (r, p') \<Longrightarrow> pool_frame p p'"
begin

lemma sched_total:
  assumes "usable cands p" "0 \<le> sint (up_next p)"
  obtains i p' where "sched cands p = (Picked i, p')" "i \<in> set cands" "pool_frame p p'"
proof -
  obtain r p' where r: "sched cands p = (r, p')" by (cases "sched cands p")
  with sched_choice [OF assms(1) r] assms(2) obtain i where "i \<in> set cands" "r = Picked i" by auto
  with r sched_frame [OF assms(1) r] that show thesis by blast
qed

end

lemma go_rem_nonneg: "0 \<le> a \<Longrightarrow> 0 < n \<Longrightarrow> 0 \<le> go_rem a n \<and> go_rem a n < n"
  by (simp add: go_rem_def)

lemma go_rem_less:
  assumes "0 < n" shows "go_rem a n < n"
proof -
  have "0 \<le> - a mod n" "a mod n < n" using assms by simp_all
  then have "- (- a mod n) < n" using assms by linarith
  with \<open>a mod n < n\<close> show ?thesis by (simp only: go_rem_def if_splits) simp
qed

interpretation rr: scheduler pick_round_robin
proof
  fix cands p r p'
  assume u: "usable cands p" and r: "pick_round_robin cands p = (r, p')"
  let ?i = "go_rem (sint (up_next p)) (int (length cands))"
  have "nat ?i < length cands" if "0 \<le> ?i"
    using that u go_rem_less [of "int (length cands)"] by (simp add: usable_def nat_less_iff)
  moreover have "sint (up_next p) < 0" if "?i < 0"
    using that go_rem_nonneg [of "sint (up_next p)" "int (length cands)"] u
    by (fastforce simp: usable_def)
  ultimately show "(\<exists>i \<in> set cands. r = Picked i) \<or> r = Panicked \<and> sint (up_next p) < 0"
    using r by (auto simp: pick_round_robin_def Let_def split: if_splits)
  show "pool_frame p p'" using r by (auto simp: pick_round_robin_def Let_def pool_frame_def)
qed

lemma smooth_scheduler: "scheduler (\<lambda>cands p. option_result (pick_smooth_weighted cands adj p))"
proof
  fix cands p r p'
  assume u: "usable cands p" and r: "option_result (pick_smooth_weighted cands adj p) = (r, p')"
  let ?wt = "if adj then adaptive_weight (up_sensitivity p) else us_weight"
  have u': "distinct cands" "set cands \<subseteq> {..<length (up_nodes p)}" "cands \<noteq> []"
    using u by (auto simp: usable_def)
  from pick_smooth_weighted_spec [OF u' refl, of adj] obtain s q where
    q: "pick_smooth_weighted cands adj p = (Some s, q)" "s \<in> set cands" "q = p\<lparr>up_nodes := up_nodes q\<rparr>"
    "length (up_nodes q) = length (up_nodes p)"
    and nodes: "\<forall>i < length (up_nodes p). up_nodes q ! i =
      (up_nodes p ! i)\<lparr>us_current := us_current (up_nodes p ! i)
         + (if i \<in> set cands then ?wt (up_nodes p ! i) else 0)
         - (if i = s then \<Sum>j \<leftarrow> cands. ?wt (up_nodes p ! j) else 0)\<rparr>"
    by blast
  with r have rq: "r = Picked s" "p' = q" by (simp_all add: option_result_def)
  then show "(\<exists>i \<in> set cands. r = Picked i) \<or> r = Panicked \<and> sint (up_next p) < 0" using q(2) by blast
  have "up_algorithm q = up_algorithm p \<and> up_health_host q = up_health_host p \<and>
      up_sensitivity q = up_sensitivity p \<and> up_ewma_alpha q = up_ewma_alpha p"
    by (subst (1 2 3 4) q(3)) simp
  moreover have "up_nodes q ! j = (up_nodes p ! j)\<lparr>us_current := us_current (up_nodes q ! j)\<rparr>"
    if "j < length (up_nodes p)" for j
    using nodes that by simp
  ultimately show "pool_frame p p'" using q(4) rq(2) by (simp add: pool_frame_def)
qed

interpretation smooth: scheduler "\<lambda>cands p. option_result (pick_smooth_weighted cands adj p)" for adj
  by (rule smooth_scheduler)

interpretation adaptive: scheduler "\<lambda>cands p. option_result (pick_adaptive cands p)"
  unfolding pick_adaptive_def by (rule smooth_scheduler)

lemma foldl_member: "(\<And>b i. f b i \<in> {b, i}) \<Longrightarrow> foldl f b xs \<in> insert b (set xs)"
proof (induction xs arbitrary: b)
  case (Cons x xs)
  from Cons.prems [of b x] Cons.IH [OF Cons.prems, of "f b x"] show ?case by auto
qed simp

lemma hd_tl_set: "xs \<noteq> [] \<Longrightarrow> insert (hd xs) (set (tl xs)) = set xs"
  by (cases xs) auto

lemma pick_least_connections_member: "cands \<noteq> [] \<Longrightarrow> pick_least_connections cands p \<in> set cands"
  unfolding pick_least_connections_def hd_tl_set [symmetric]
  by (rule foldl_member) (auto simp: Let_def)

interpretation least: scheduler "\<lambda>cands p. (Picked (pick_least_connections cands p), p)"
  by unfold_locales (auto simp: usable_def pool_frame_refl pick_least_connections_member)

lemma foldl_min_attained:
  fixes f :: "'a \<Rightarrow> int"
  shows "foldl (\<lambda>m i. if f i < m then f i else m) m xs \<in> insert m (f ` set xs)"
  by (induction xs arbitrary: m) auto

lemma pick_priority_group:
  fixes cands p
  defines "m \<equiv> foldl (\<lambda>m i. if us_priority (up_nodes p ! i) < m then us_priority (up_nodes p ! i) else m)
      (us_priority (up_nodes p ! hd cands)) (tl cands)"
  assumes "usable cands p"
  shows "usable (filter (\<lambda>i. us_priority (up_nodes p ! i) = m) cands) p"
proof -
  have "m \<in> (\<lambda>i. us_priority (up_nodes p ! i)) ` set cands"
    unfolding m_def using foldl_min_attained [of "\<lambda>i. us_priority (up_nodes p ! i)"] assms(2)
    by (cases cands) (force simp: usable_def)+
  then have "filter (\<lambda>i. us_priority (up_nodes p ! i) = m) cands \<noteq> []" by (auto simp: filter_empty_conv)
  with assms(2) show ?thesis by (auto simp: usable_def)
qed

interpretation priority: scheduler "\<lambda>cands p. option_result (pick_priority cands p)"
proof
  fix cands p r p'
  assume u: "usable cands p" and r: "option_result (pick_priority cands p) = (r, p')"
  define m where "m = foldl (\<lambda>m i. if us_priority (up_nodes p ! i) < m then us_priority (up_nodes p ! i) else m)
      (us_priority (up_nodes p ! hd cands)) (tl cands)"
  define g where "g = filter (\<lambda>i. us_priority (up_nodes p ! i) = m) cands"
  have ug: "usable g p" unfolding g_def m_def by (rule pick_priority_group [OF u])
  have sub: "set g \<subseteq> set cands" by (auto simp: g_def)
  show "(\<exists>i \<in> set cands. r = Picked i) \<or> r = Panicked \<and> sint (up_next p) < 0"
  proof (cases "length g = 1")
    case True
    then have "hd g \<in> set cands" using sub by (cases g) auto
    then show ?thesis
      using r True by (auto simp: pick_priority_def Let_def m_def [symmetric] g_def [symmetric] option_result_def)
  next
    case False
    then have "option_result (pick_smooth_weighted g False p) = (r, p')"
      using r by (simp add: pick_priority_def Let_def m_def [symmetric] g_def [symmetric])
    from smooth.sched_choice [OF ug this] sub show ?thesis by auto
  qed
  show "pool_frame p p'"
  proof (cases "length g = 1")
    case True
    then show ?thesis
      using r by (auto simp: pick_priority_def Let_def m_def [symmetric] g_def [symmetric] option_result_def
          pool_frame_refl)
  next
    case False
    then have "option_result (pick_smooth_weighted g False p) = (r, p')"
      using r by (simp add: pick_priority_def Let_def m_def [symmetric] g_def [symmetric])
    from smooth.sched_frame [OF ug this] show ?thesis .
  qed
qed

lemma weighted_walk_member: "weighted_walk nodes cs x = Some i \<Longrightarrow> i \<in> set cs"
  by (induction cs arbitrary: x) (auto simp: Let_def split: if_splits)

interpretation random: scheduler "\<lambda>cands p. case pick_random_weighted cands p of (i, p') \<Rightarrow> (Picked i, p')"
proof
  fix cands p r p'
  assume u: "usable cands p"
    and r: "(case pick_random_weighted cands p of (i, p') \<Rightarrow> (Picked i, p')) = (r, p')"
  have "fst (pick_random_weighted cands p) \<in> set cands"
    using u weighted_walk_member
    by (auto simp: pick_random_weighted_def Let_def usable_def split: option.splits)
  then show "(\<exists>i \<in> set cands. r = Picked i) \<or> r = Panicked \<and> sint (up_next p) < 0"
    using r by (auto split: prod.splits)
  show "pool_frame p p'"
    using r by (auto simp: pick_random_weighted_def Let_def pool_frame_def split: prod.splits if_splits)
qed

interpretation algorithm: scheduler pick_algorithm
proof
  fix cands p r p'
  assume u: "usable cands p" and r: "pick_algorithm cands p = (r, p')"
  note branches = r [unfolded pick_algorithm_def]
  show "(\<exists>i \<in> set cands. r = Picked i) \<or> r = Panicked \<and> sint (up_next p) < 0"
    using branches smooth.sched_choice [OF u] least.sched_choice [OF u] priority.sched_choice [OF u]
      adaptive.sched_choice [OF u] random.sched_choice [OF u] rr.sched_choice [OF u]
    by (auto split: if_splits)
  show "pool_frame p p'"
    using branches smooth.sched_frame [OF u] least.sched_frame [OF u] priority.sched_frame [OF u]
      adaptive.sched_frame [OF u] random.sched_frame [OF u] rr.sched_frame [OF u]
    by (auto split: if_splits)
qed

lemma eligible_set:
  "set (eligible p ex h) = {i. i < length (up_nodes p) \<and> i \<notin> set ex \<and> (h \<longrightarrow> us_healthy (up_nodes p ! i))}"
  by (auto simp: eligible_def)

lemma eligible_distinct: "distinct (eligible p ex h)"
  by (simp add: eligible_def)

lemma pick_candidates_usable: "up_nodes p \<noteq> [] \<Longrightarrow> usable (pick_candidates p ex) p"
  using eligible_set eligible_distinct
  by (auto simp: pick_candidates_def usable_def Let_def)

subsection \<open>Runs of picks\<close>

fun pick_run :: "nat \<Rightarrow> upstream_pool \<Rightarrow> pick_result list \<times> upstream_pool" where
  "pick_run 0 p = ([], p)"
| "pick_run (Suc k) p =
     (case pick p [] of (r, p1) \<Rightarrow> (case pick_run k p1 of (rs, p2) \<Rightarrow> (r # rs, p2)))"

definition all_healthy :: "upstream_pool \<Rightarrow> bool" where
  "all_healthy p \<longleftrightarrow> up_nodes p \<noteq> [] \<and> list_all us_healthy (up_nodes p)"

lemma all_candidates: "all_healthy p \<Longrightarrow> pick_candidates p [] = [0..<length (up_nodes p)]"
proof -
  assume h: "all_healthy p"
  then have "eligible p [] True = [0..<length (up_nodes p)]"
    by (auto simp: eligible_def all_healthy_def list_all_length filter_id_conv)
  with h show ?thesis by (auto simp: pick_candidates_def Let_def all_healthy_def)
qed

abbreviation cur :: "upstream_pool \<Rightarrow> nat \<Rightarrow> int" where "cur p i \<equiv> us_current (up_nodes p ! i)"
abbreviation weight :: "upstream_pool \<Rightarrow> nat \<Rightarrow> int" where "weight p i \<equiv> us_weight (up_nodes p ! i)"

definition weight_total :: "upstream_pool \<Rightarrow> int" where
  "weight_total p = (\<Sum>i < length (up_nodes p). weight p i)"

text \<open>One pick of the weighted round robin with every node eligible.\<close>

lemma wrr_pick:
  assumes "all_healthy p" "up_algorithm p = ''weighted_round_robin''"
  shows "\<exists>s p'. pick p [] = (Picked s, p') \<and> s < length (up_nodes p) \<and>
    all_healthy p' \<and> up_algorithm p' = up_algorithm p \<and> length (up_nodes p') = length (up_nodes p) \<and>
    (\<forall>i < length (up_nodes p). weight p' i = weight p i \<and>
       cur p' i = cur p i + weight p i - (if i = s then weight_total p else 0) \<and>
       cur p i + weight p i \<le> cur p s + weight p s)"
proof -
  let ?c = "[0..<length (up_nodes p)]"
  have c: "distinct ?c" "set ?c \<subseteq> {..<length (up_nodes p)}" "?c \<noteq> []"
    using assms(1) by (auto simp: all_healthy_def)
  have W: "(\<Sum>j \<leftarrow> ?c. us_weight (up_nodes p ! j)) = weight_total p"
    by (simp add: weight_total_def sum_list_distinct_conv_sum_set lessThan_atLeast0)
  obtain s q where
    q: "pick_smooth_weighted ?c False p = (Some s, q)" "s \<in> set ?c" "q = p\<lparr>up_nodes := up_nodes q\<rparr>"
    "length (up_nodes q) = length (up_nodes p)"
    and nodes: "\<forall>i < length (up_nodes p). up_nodes q ! i = (up_nodes p ! i)\<lparr>us_current :=
        cur p i + (if i \<in> set ?c then us_weight (up_nodes p ! i) else 0) -
        (if i = s then \<Sum>j \<leftarrow> ?c. us_weight (up_nodes p ! j) else 0)\<rparr>"
    and max: "\<forall>i \<in> set ?c. cur p i + us_weight (up_nodes p ! i) \<le> cur p s + us_weight (up_nodes p ! s)"
    using pick_smooth_weighted_spec [OF c, of us_weight False] by auto
  define p' where "p' = upd_node s (\<lambda>u. u\<lparr>us_selections := us_selections u + 1, us_active := us_active u + 1\<rparr>) q"
  have pick: "pick p [] = (Picked s, p')"
    using q(1) assms all_candidates [OF assms(1)] c(3)
    by (simp add: pick_def Let_def pick_algorithm_def option_result_def p'_def)
  have alg: "up_algorithm p' = up_algorithm p"
    unfolding p'_def upd_node_def by (subst q(3)) simp
  have len: "length (up_nodes p') = length (up_nodes p)" using q(4) by (simp add: p'_def upd_node_def)
  have n: "weight p' i = weight p i \<and> us_healthy (up_nodes p' ! i) \<and>
      cur p' i = cur p i + weight p i - (if i = s then weight_total p else 0)"
    if "i < length (up_nodes p)" for i
    using nodes that q(4) assms(1) W
    by (auto simp: p'_def upd_node_def nth_list_update all_healthy_def list_all_length)
  have "all_healthy p'" using n len assms(1) by (auto simp: all_healthy_def list_all_length)
  then show ?thesis using pick q(2) alg len n max by auto
qed

lemma wrr_run:
  assumes "all_healthy p" "up_algorithm p = ''weighted_round_robin''"
    and "\<And>i. i < length (up_nodes p) \<Longrightarrow> 0 \<le> weight p i" "0 < weight_total p"
    and "(\<Sum>i < length (up_nodes p). cur p i) = 0"
    and "\<And>i. i < length (up_nodes p) \<Longrightarrow> - weight_total p < cur p i"
  shows "\<exists>ss p'. pick_run k p = (map Picked ss, p') \<and> length ss = k \<and>
    set ss \<subseteq> {..<length (up_nodes p)} \<and> length (up_nodes p') = length (up_nodes p) \<and>
    (\<forall>i < length (up_nodes p). - weight_total p < cur p' i \<and>
      cur p' i = cur p i + int k * weight p i - weight_total p * int (count_list ss i))"
  using assms
proof (induction k arbitrary: p)
  case (Suc k)
  let ?n = "length (up_nodes p)" and ?W = "weight_total p"
  obtain s p1 where p1: "pick p [] = (Picked s, p1)" "s < ?n" "all_healthy p1"
    "up_algorithm p1 = up_algorithm p" "length (up_nodes p1) = ?n"
    and step: "\<And>i. i < ?n \<Longrightarrow> weight p1 i = weight p i \<and>
       cur p1 i = cur p i + weight p i - (if i = s then ?W else 0) \<and>
       cur p i + weight p i \<le> cur p s + weight p s"
    using wrr_pick [OF Suc.prems(1,2)] by blast
  have W1: "weight_total p1 = ?W" using step p1(5) by (simp add: weight_total_def)
  have sum1: "(\<Sum>i < ?n. cur p i + weight p i) = ?W"
    using Suc.prems(5) by (simp add: sum.distrib weight_total_def)
  have "0 < cur p s + weight p s"
  proof (rule ccontr)
    assume "\<not> 0 < cur p s + weight p s"
    then have "(\<Sum>i < ?n. cur p i + weight p i) \<le> 0" using step by (intro sum_nonpos) fastforce
    with sum1 Suc.prems(4) show False by simp
  qed
  then have low: "- ?W < cur p1 i" if "i < ?n" for i
    using step [OF that] Suc.prems(3) [OF that] Suc.prems(6) [OF that] by (cases "i = s") auto
  have "(\<Sum>i < ?n. cur p1 i) = (\<Sum>i < ?n. (cur p i + weight p i) - (if i = s then ?W else 0))"
    using step by (intro sum.cong) auto
  also have "\<dots> = 0" using sum1 p1(2) by (simp add: sum_subtractf)
  finally have zero: "(\<Sum>i < length (up_nodes p1). cur p1 i) = 0" using p1(5) by simp
  obtain ss p' where run: "pick_run k p1 = (map Picked ss, p')" "length ss = k" "set ss \<subseteq> {..<?n}"
    "length (up_nodes p') = ?n"
    and cur: "\<forall>i < ?n. - ?W < cur p' i \<and> cur p' i = cur p1 i + int k * weight p1 i - ?W * int (count_list ss i)"
    using Suc.IH [OF p1(3)] Suc.prems(2,3,4) p1(4,5) W1 low zero step by auto
  have "\<forall>i < ?n. - ?W < cur p' i \<and>
      cur p' i = cur p i + int (Suc k) * weight p i - ?W * int (count_list (s # ss) i)"
    using cur step by (auto simp: algebra_simps)
  moreover have "pick_run (Suc k) p = (map Picked (s # ss), p') \<and> length (s # ss) = Suc k \<and>
      set (s # ss) \<subseteq> {..<?n} \<and> length (up_nodes p') = ?n" using run p1 by simp
  ultimately show ?case by blast
qed simp

subsection \<open>Round robin\<close>

definition default_algorithm :: "upstream_pool \<Rightarrow> bool" where
  "default_algorithm p \<longleftrightarrow> up_algorithm p \<notin> set [''weighted_round_robin'', ''least_connections'',
     ''priority_failover'', ''adaptive_latency'', ''random_weighted'']"

lemma sint_below: "unat (w :: 64 word) < 2 ^ 63 \<Longrightarrow> sint w = int (unat w)"
proof -
  assume "unat w < 2 ^ 63"
  then have "int (unat w) < int (2 ^ 63)" by (rule of_nat_less_iff [THEN iffD2])
  then have "uint w < 2 ^ 63" by simp
  then have "sint w = uint w"
    unfolding sint_uint by (intro signed_take_bit_int_eq_self) (simp_all add: order_trans [OF _ uint_ge_0])
  then show ?thesis by simp
qed

lemma rr_pick:
  assumes "all_healthy p" "default_algorithm p" "unat (up_next p) < 2 ^ 63"
  shows "\<exists>p'. pick p [] = (Picked (unat (up_next p) mod length (up_nodes p)), p') \<and>
    all_healthy p' \<and> default_algorithm p' \<and> length (up_nodes p') = length (up_nodes p) \<and>
    up_next p' = up_next p + 1"
proof -
  let ?n = "length (up_nodes p)" and ?i = "unat (up_next p) mod length (up_nodes p)"
  have n: "0 < ?n" using assms(1) by (simp add: all_healthy_def)
  then have i: "?i < ?n" by simp
  have "go_rem (sint (up_next p)) (int ?n) = int ?i"
    using assms(3) by (simp add: sint_below go_rem_def zmod_int)
  then have "pick_round_robin [0..<?n] p = (Picked ?i, p\<lparr>up_next := up_next p + 1\<rparr>)"
    using i by (simp add: pick_round_robin_def Let_def)
  then have "pick p [] = (Picked ?i, upd_node ?i (\<lambda>u. u\<lparr>us_selections := us_selections u + 1,
      us_active := us_active u + 1\<rparr>) (p\<lparr>up_next := up_next p + 1\<rparr>))"
    using assms(1,2) n by (simp add: pick_def all_candidates pick_algorithm_def default_algorithm_def)
  then show ?thesis
    using assms(1,2) i
    by (auto simp: upd_node_def all_healthy_def default_algorithm_def list_all_length nth_list_update)
qed

lemma rr_run:
  assumes "all_healthy p" "default_algorithm p" "unat (up_next p) + k \<le> 2 ^ 63"
  shows "\<exists>p'. pick_run k p =
    (map (\<lambda>j. Picked ((unat (up_next p) + j) mod length (up_nodes p))) [0..<k], p')"
  using assms
proof (induction k arbitrary: p)
  case (Suc k)
  let ?n = "length (up_nodes p)"
  obtain p1 where p1: "pick p [] = (Picked (unat (up_next p) mod ?n), p1)" "all_healthy p1"
    "default_algorithm p1" "length (up_nodes p1) = ?n" "up_next p1 = up_next p + 1"
    using rr_pick [OF Suc.prems(1,2)] Suc.prems(3) by auto
  have nxt: "unat (up_next p1) = unat (up_next p) + 1"
    using Suc.prems(3) p1(5) by (simp add: unat_word_ariths)
  from Suc.IH [OF p1(2,3)] Suc.prems(3) nxt obtain p' where
    "pick_run k p1 = (map (\<lambda>j. Picked ((unat (up_next p) + 1 + j) mod ?n)) [0..<k], p')"
    using p1(4) by auto
  with p1(1) show ?case
    by (simp add: upt_conv_Cons map_Suc_upt [symmetric] comp_def del: upt_Suc)
qed simp

lemma rotation_set:
  fixes m n :: nat
  assumes "0 < n"
  shows "set (map (\<lambda>j. (m + j) mod n) [0..<n]) = {..<n}"
proof
  show "set (map (\<lambda>j. (m + j) mod n) [0..<n]) \<subseteq> {..<n}" using assms by auto
  show "{..<n} \<subseteq> set (map (\<lambda>j. (m + j) mod n) [0..<n])"
  proof
    fix i assume i: "i \<in> {..<n}"
    let ?j = "(i + (n - m mod n)) mod n"
    have "(m + ?j) mod n = (m mod n + (i + (n - m mod n))) mod n" by (simp add: mod_simps)
    also have "m mod n + (i + (n - m mod n)) = i + n" using mod_less_divisor [OF assms, of m] by linarith
    finally have "(m + ?j) mod n = i" using i by simp
    moreover have "?j \<in> set [0..<n]" using assms by simp
    ultimately show "i \<in> set (map (\<lambda>j. (m + j) mod n) [0..<n])" by force
  qed
qed

section \<open>Properties\<close>

text \<open>
  C30. For a pool with at least one node and a selection counter below \<open>2 ^ 63\<close> (above it the round robin index can be negative and the
  code panics), every algorithm picks an existing node. It is an untried healthy node if there is one, otherwise an untried node if
  there is one; only if every node was tried already it is a tried one again, and then a healthy one if there is one. Only
  the picked node is charged, with one more selection and one more active request, and no node's health, weight or URL changes.
\<close>

theorem pick_safe:
  assumes "up_nodes p \<noteq> []" "unat (up_next p) < 2 ^ 63"
  shows "\<exists>i p'. pick p exclude = (Picked i, p') \<and> i < length (up_nodes p) \<and>
    ((\<exists>j < length (up_nodes p). j \<notin> set exclude \<and> us_healthy (up_nodes p ! j)) \<longrightarrow>
       i \<notin> set exclude \<and> us_healthy (up_nodes p ! i)) \<and>
    ((\<exists>j < length (up_nodes p). j \<notin> set exclude) \<longrightarrow> i \<notin> set exclude) \<and>
    ((\<forall>j < length (up_nodes p). j \<in> set exclude) \<and> (\<exists>j < length (up_nodes p). us_healthy (up_nodes p ! j)) \<longrightarrow>
       us_healthy (up_nodes p ! i)) \<and>
    length (up_nodes p') = length (up_nodes p) \<and>
    (\<forall>j < length (up_nodes p).
       us_healthy (up_nodes p' ! j) = us_healthy (up_nodes p ! j) \<and> us_weight (up_nodes p' ! j) = us_weight (up_nodes p ! j) \<and>
       us_url (up_nodes p' ! j) = us_url (up_nodes p ! j) \<and>
       us_active (up_nodes p' ! j) = us_active (up_nodes p ! j) + (if j = i then 1 else 0) \<and>
       us_selections (up_nodes p' ! j) = us_selections (up_nodes p ! j) + (if j = i then 1 else 0))"
proof -
  let ?c = "pick_candidates p exclude"
  have u: "usable ?c p" by (rule pick_candidates_usable [OF assms(1)])
  have sint: "0 \<le> sint (up_next p)" using sint_below [OF assms(2)] by simp
  obtain i q where q: "pick_algorithm ?c p = (Picked i, q)" "i \<in> set ?c" "pool_frame p q"
    using algorithm.sched_total [OF u sint] .
  let ?p' = "upd_node i (\<lambda>u. u\<lparr>us_selections := us_selections u + 1, us_active := us_active u + 1\<rparr>) q"
  have "pick p exclude = (Picked i, ?p')"
    using q(1) u by (simp add: pick_def Let_def usable_def)
  moreover have i: "i < length (up_nodes p)" using q(2) u by (auto simp: usable_def)
  moreover have "(\<exists>j < length (up_nodes p). j \<notin> set exclude \<and> us_healthy (up_nodes p ! j)) \<longrightarrow>
       i \<notin> set exclude \<and> us_healthy (up_nodes p ! i)"
    "(\<exists>j < length (up_nodes p). j \<notin> set exclude) \<longrightarrow> i \<notin> set exclude"
    "(\<forall>j < length (up_nodes p). j \<in> set exclude) \<and> (\<exists>j < length (up_nodes p). us_healthy (up_nodes p ! j)) \<longrightarrow>
       us_healthy (up_nodes p ! i)"
    using q(2) eligible_set [of p exclude True] eligible_set [of p exclude False] eligible_set [of p "[]" True]
    by (auto simp: pick_candidates_def Let_def split: if_splits)
  moreover have "length (up_nodes ?p') = length (up_nodes p)"
    using q(3) by (simp add: pool_frame_def upd_node_def)
  moreover have "us_healthy (up_nodes ?p' ! j) = us_healthy (up_nodes p ! j) \<and> us_weight (up_nodes ?p' ! j) = us_weight (up_nodes p ! j) \<and>
       us_url (up_nodes ?p' ! j) = us_url (up_nodes p ! j) \<and>
       us_active (up_nodes ?p' ! j) = us_active (up_nodes p ! j) + (if j = i then 1 else 0) \<and>
       us_selections (up_nodes ?p' ! j) = us_selections (up_nodes p ! j) + (if j = i then 1 else 0)"
    if "j < length (up_nodes p)" for j
  proof -
    have "up_nodes q ! j = (up_nodes p ! j)\<lparr>us_current := us_current (up_nodes q ! j)\<rparr>"
      "length (up_nodes q) = length (up_nodes p)"
      using q(3) that by (simp_all add: pool_frame_def)
    then have "us_active (up_nodes q ! j) = us_active (up_nodes p ! j)" "us_selections (up_nodes q ! j) = us_selections (up_nodes p ! j)"
      "us_healthy (up_nodes q ! j) = us_healthy (up_nodes p ! j)" "us_weight (up_nodes q ! j) = us_weight (up_nodes p ! j)"
      "us_url (up_nodes q ! j) = us_url (up_nodes p ! j)"
      by (cases "up_nodes q ! j"; cases "up_nodes p ! j"; simp)+
    with \<open>length (up_nodes q) = _\<close> that i show ?thesis by (auto simp: upd_node_def nth_list_update)
  qed
  ultimately show ?thesis by blast
qed

definition demo_node :: "int \<Rightarrow> bool \<Rightarrow> upstream" where
  "demo_node w h = \<lparr>us_name = [], us_url = demo_url ''/'' [], us_weight = w, us_priority = 0,
     us_healthy = h, us_active = 0, us_selections = 0, us_failures = 0, us_recoveries = 0,
     us_ewma = 0, us_current = 0\<rparr>"

definition demo_pool :: "string \<Rightarrow> upstream list \<Rightarrow> upstream_pool" where
  "demo_pool alg nodes = \<lparr>up_nodes = nodes, up_next = 0, up_random = 0, up_health_host = [],
     up_algorithm = alg, up_sensitivity = 1, up_ewma_alpha = 1 / 2\<rparr>"

theorem pick_safe_witness:
  "\<exists>i p'. pick (demo_pool ''adaptive_latency'' [demo_node 1 False, demo_node 2 True, demo_node 3 True]) [2]
     = (Picked i, p') \<and> i = 1"
proof -
  let ?p = "demo_pool ''adaptive_latency'' [demo_node 1 False, demo_node 2 True, demo_node 3 True]"
  have "up_nodes ?p \<noteq> []" "unat (up_next ?p) < 2 ^ 63" by (simp_all add: demo_pool_def)
  from pick_safe [OF this, of "[2]"] obtain i p' where
    i: "pick ?p [2] = (Picked i, p')" "i < length (up_nodes ?p)"
    "(\<exists>j < length (up_nodes ?p). j \<notin> set [2] \<and> us_healthy (up_nodes ?p ! j)) \<longrightarrow>
       i \<notin> set [2] \<and> us_healthy (up_nodes ?p ! i)" by blast
  have "1 < length (up_nodes ?p) \<and> 1 \<notin> set [2::nat] \<and> us_healthy (up_nodes ?p ! 1)"
    by (simp add: demo_pool_def demo_node_def)
  with i(3) have "i \<notin> set [2] \<and> us_healthy (up_nodes ?p ! i)" by blast
  with i(2) have "i = 1" by (auto simp: demo_pool_def demo_node_def less_Suc_eq numeral_3_eq_3)
  with i(1) show ?thesis by blast
qed

text \<open>
  C31. Weighted round robin is exact: with every node healthy, no weight negative, the sum of the weights positive and the scheduler at rest
  (every current weight zero), as many consecutive picks, with nothing excluded, as the sum of the weights give every node exactly its weight
  in picks, and the scheduler is at rest again.
\<close>

theorem weighted_round_robin_exact:
  assumes "up_nodes p \<noteq> []" "list_all us_healthy (up_nodes p)"
    and "up_algorithm p = ''weighted_round_robin''"
    and "list_all (\<lambda>u. 0 \<le> us_weight u \<and> us_current u = 0) (up_nodes p)"
    and "W = (\<Sum>i < length (up_nodes p). us_weight (up_nodes p ! i))" "0 < W"
  shows "\<exists>picks p'. pick_run (nat W) p = (map Picked picks, p') \<and>
    (\<forall>i < length (up_nodes p). int (count_list picks i) = us_weight (up_nodes p ! i) \<and>
       us_current (up_nodes p' ! i) = 0)"
proof -
  let ?n = "length (up_nodes p)"
  have h: "all_healthy p" using assms(1,2) by (simp add: all_healthy_def)
  have W: "weight_total p = W" using assms(5) by (simp add: weight_total_def)
  have c: "0 \<le> weight p i" "cur p i = 0" if "i < ?n" for i
    using assms(4) that by (simp_all add: list_all_length)
  obtain ss p' where run: "pick_run (nat W) p = (map Picked ss, p')" "length ss = nat W" "set ss \<subseteq> {..<?n}"
    and cur: "\<And>i. i < ?n \<Longrightarrow> - W < cur p' i \<and> cur p' i = W * (weight p i - int (count_list ss i))"
    using wrr_run [OF h assms(3) c(1), of "nat W"] c(2) W assms(6) by (auto simp: algebra_simps)
  have le: "int (count_list ss i) \<le> weight p i" if "i < ?n" for i
  proof -
    have "W * (- 1) < W * (weight p i - int (count_list ss i))" using cur [OF that] by simp
    then have "- 1 < weight p i - int (count_list ss i)"
      using assms(6) mult_less_cancel_left_pos by blast
    then show ?thesis by simp
  qed
  have "(\<Sum>i < ?n. int (count_list ss i)) = W"
  proof -
    have "(\<Sum>i < ?n. count_list ss i) = length ss" using run(3) by (intro sum_count_set) auto
    then have "(\<Sum>i < ?n. int (count_list ss i)) = int (length ss)" by (metis of_nat_sum)
    then show ?thesis using run(2) assms(6) by simp
  qed
  then have "(\<Sum>i < ?n. weight p i - int (count_list ss i)) = 0"
    using assms(5) by (simp add: sum_subtractf)
  then have eq: "int (count_list ss i) = weight p i" if "i < ?n" for i
    using that le sum_nonneg_eq_0_iff [of "{..<?n}" "\<lambda>i. weight p i - int (count_list ss i)"] by fastforce
  then have "cur p' i = 0" if "i < ?n" for i using cur [OF that] that by simp
  with eq run(1) show ?thesis by blast
qed

theorem weighted_round_robin_exact_witness:
  "\<exists>picks p'. pick_run 6 (demo_pool ''weighted_round_robin'' [demo_node 1 True, demo_node 2 True, demo_node 3 True])
     = (map Picked picks, p') \<and> count_list picks 2 = 3"
proof -
  let ?p = "demo_pool ''weighted_round_robin'' [demo_node 1 True, demo_node 2 True, demo_node 3 True]"
  have "up_nodes ?p \<noteq> []" "list_all us_healthy (up_nodes ?p)"
    "up_algorithm ?p = ''weighted_round_robin''"
    "list_all (\<lambda>u. 0 \<le> us_weight u \<and> us_current u = 0) (up_nodes ?p)"
    "(6::int) = (\<Sum>i < length (up_nodes ?p). us_weight (up_nodes ?p ! i))"
    by (simp_all add: demo_pool_def demo_node_def lessThan_Suc numeral_3_eq_3)
  from weighted_round_robin_exact [OF this] obtain picks p' where
    "pick_run (nat 6) ?p = (map Picked picks, p')"
    "\<forall>i < length (up_nodes ?p). int (count_list picks i) = us_weight (up_nodes ?p ! i)" by auto
  moreover have "us_weight (up_nodes ?p ! 2) = 3" "2 < length (up_nodes ?p)"
    by (simp_all add: demo_pool_def demo_node_def)
  ultimately have "pick_run 6 ?p = (map Picked picks, p')" "int (count_list picks 2) = 3"
    by (simp, metis)
  then have "pick_run 6 ?p = (map Picked picks, p')" "count_list picks 2 = 3" by simp_all
  then show ?thesis by blast
qed

text \<open>
  Plain round robin visits everyone: with every node eligible, as many consecutive picks as
  there are nodes pick every node exactly once, as long as the 64-bit counter stays below its
  sign bit.
\<close>

theorem round_robin_visits_all:
  assumes "up_nodes p \<noteq> []" "list_all us_healthy (up_nodes p)" "default_algorithm p"
    and "unat (up_next p) + length (up_nodes p) \<le> 2 ^ 63"
  shows "\<exists>picks p'. pick_run (length (up_nodes p)) p = (map Picked picks, p') \<and>
    distinct picks \<and> set picks = {..<length (up_nodes p)}"
proof -
  let ?n = "length (up_nodes p)" and ?ss = "map (\<lambda>j. (unat (up_next p) + j) mod length (up_nodes p)) [0..<length (up_nodes p)]"
  have h: "all_healthy p" using assms(1,2) by (simp add: all_healthy_def)
  have set: "set ?ss = {..<?n}" using assms(1) by (intro rotation_set) simp
  then have "card (set ?ss) = length ?ss" by simp
  then have "distinct ?ss" by (rule card_distinct)
  moreover have "\<exists>p'. pick_run ?n p = (map Picked ?ss, p')"
    using rr_run [OF h assms(3,4)] by (simp add: comp_def)
  ultimately show ?thesis using set by blast
qed

theorem round_robin_visits_all_witness:
  "\<exists>picks p'. pick_run 3 (demo_pool ''round_robin'' [demo_node 1 True, demo_node 2 True, demo_node 3 True])
     = (map Picked picks, p') \<and> distinct picks \<and> set picks = {..<3}"
proof -
  let ?p = "demo_pool ''round_robin'' [demo_node 1 True, demo_node 2 True, demo_node 3 True]"
  have "up_nodes ?p \<noteq> []" "list_all us_healthy (up_nodes ?p)" "default_algorithm ?p"
    "unat (up_next ?p) + length (up_nodes ?p) \<le> 2 ^ 63"
    by (simp_all add: demo_pool_def demo_node_def default_algorithm_def)
  from round_robin_visits_all [OF this] show ?thesis by (simp add: demo_pool_def numeral_3_eq_3)
qed

text \<open>Beyond the sign bit the converted counter is negative and the index expression panics.\<close>

lemma round_robin_panics:
  "fst (pick ((demo_pool ''round_robin'' [demo_node 1 True, demo_node 1 True, demo_node 1 True])
     \<lparr>up_next := 2 ^ 63\<rparr>) []) = Panicked"
proof -
  have "sint (2 ^ 63 :: 64 word) = - (2 ^ 63)" by code_simp
  then show ?thesis
    by (simp add: pick_def pick_candidates_def eligible_def demo_pool_def demo_node_def pick_algorithm_def
        pick_round_robin_def go_rem_def Let_def upt_rec)
qed

end
