(* ===== verification/Key_Lock.thy ===== *)
theory Key_Lock
  imports Go_Prelude
begin

text \<open>
  The per-key lock that serialises cache fills, \<^verbatim>\<open>apps/edgeproxy/internal/cache/keylock.go\<close>,
  under every interleaving of goroutines. A lock object has an identity (its address); the map
  \<open>ks_locks\<close> is \<^verbatim>\<open>KeyLocker.locks\<close>. Each atomic step is one critical section: the part of
  \<^verbatim>\<open>Lock\<close> under \<^verbatim>\<open>k.mu\<close>, the acquisition of \<^verbatim>\<open>lk.mu\<close>, and, in the returned function,
  the unlock of \<^verbatim>\<open>lk.mu\<close> and the part under \<^verbatim>\<open>k.mu\<close>. The invariant \<open>kl_inv\<close> ties the
  reference counts to the goroutines; mutual exclusion per key, absence of leaks and of
  deadlock follow from it.
\<close>

record key_lock =
  kl_owner :: "nat option"
  kl_refs :: int

datatype kl_pc = Idle | Waiting string nat | Holding string nat | Released string nat

record key_locker =
  ks_locks :: "(string, nat) gomap"
  ks_heap :: "nat \<Rightarrow> key_lock"
  ks_fresh :: nat
  ks_pc :: "nat \<Rightarrow> kl_pc"

definition new_key_locker :: key_locker where
  "new_key_locker = \<lparr>ks_locks = [], ks_heap = (\<lambda>_. \<lparr>kl_owner = None, kl_refs = 0\<rparr>), ks_fresh = 0,
     ks_pc = (\<lambda>_. Idle)\<rparr>"

definition upd_lock :: "nat \<Rightarrow> (key_lock \<Rightarrow> key_lock) \<Rightarrow> key_locker \<Rightarrow> key_locker" where
  "upd_lock l f s = s\<lparr>ks_heap := (ks_heap s)(l := f (ks_heap s l))\<rparr>"

definition set_pc :: "nat \<Rightarrow> kl_pc \<Rightarrow> key_locker \<Rightarrow> key_locker" where
  "set_pc t pc s = s\<lparr>ks_pc := (ks_pc s)(t := pc)\<rparr>"

text \<open>\<^verbatim>\<open>Lock(key)\<close> up to \<^verbatim>\<open>k.mu.Unlock()\<close>: find or create the lock and count the caller.\<close>

definition lock_enter :: "nat \<Rightarrow> string \<Rightarrow> key_locker \<Rightarrow> key_locker" where
  "lock_enter t key s =
     (case gm_get (ks_locks s) key of
        None \<Rightarrow>
          let l = ks_fresh s in
          set_pc t (Waiting key l)
            (s\<lparr>ks_locks := gm_put key l (ks_locks s),
               ks_heap := (ks_heap s)(l := \<lparr>kl_owner = None, kl_refs = 1\<rparr>),
               ks_fresh := Suc l\<rparr>)
      | Some l \<Rightarrow>
          set_pc t (Waiting key l) (upd_lock l (\<lambda>k. k\<lparr>kl_refs := kl_refs k + 1\<rparr>) s))"

text \<open>\<^verbatim>\<open>lk.mu.Lock()\<close>: possible only while nobody holds it.\<close>

definition lock_acquire :: "nat \<Rightarrow> string \<Rightarrow> nat \<Rightarrow> key_locker \<Rightarrow> key_locker option" where
  "lock_acquire t key l s =
     (if kl_owner (ks_heap s l) = None
      then Some (set_pc t (Holding key l) (upd_lock l (\<lambda>k. k\<lparr>kl_owner := Some t\<rparr>) s))
      else None)"

definition lock_unlock :: "nat \<Rightarrow> string \<Rightarrow> nat \<Rightarrow> key_locker \<Rightarrow> key_locker" where
  "lock_unlock t key l s = set_pc t (Released key l) (upd_lock l (\<lambda>k. k\<lparr>kl_owner := None\<rparr>) s)"

text \<open>The end of the returned function: count down and drop the map entry at zero.\<close>

definition lock_finish :: "nat \<Rightarrow> string \<Rightarrow> nat \<Rightarrow> key_locker \<Rightarrow> key_locker" where
  "lock_finish t key l s =
     (let s1 = upd_lock l (\<lambda>k. k\<lparr>kl_refs := kl_refs k - 1\<rparr>) s;
          s2 = (if kl_refs (ks_heap s1 l) = 0
                then s1\<lparr>ks_locks := gm_del key (ks_locks s1)\<rparr> else s1)
      in set_pc t Idle s2)"

inductive kl_step :: "key_locker \<Rightarrow> key_locker \<Rightarrow> bool" where
  enter: "ks_pc s t = Idle \<Longrightarrow> kl_step s (lock_enter t key s)"
| acquire: "ks_pc s t = Waiting key l \<Longrightarrow> lock_acquire t key l s = Some s' \<Longrightarrow> kl_step s s'"
| unlock: "ks_pc s t = Holding key l \<Longrightarrow> kl_step s (lock_unlock t key l s)"
| finish: "ks_pc s t = Released key l \<Longrightarrow> kl_step s (lock_finish t key l s)"

inductive_cases kl_stepE: "kl_step s s'"

section \<open>Invariant\<close>

definition on_lock :: "kl_pc \<Rightarrow> string \<Rightarrow> nat \<Rightarrow> bool" where
  "on_lock pc key l \<longleftrightarrow> pc \<in> {Waiting key l, Holding key l, Released key l}"

definition users :: "key_locker \<Rightarrow> string \<Rightarrow> nat \<Rightarrow> nat set" where
  "users s key l = {t. on_lock (ks_pc s t) key l}"

definition inside :: "key_locker \<Rightarrow> string \<Rightarrow> nat set" where
  "inside s key = {t. \<exists>m. ks_pc s t \<in> {Waiting key m, Holding key m, Released key m}}"

definition kl_inv :: "key_locker \<Rightarrow> bool" where
  "kl_inv s \<longleftrightarrow> gm_inv (ks_locks s) \<and> finite {t. ks_pc s t \<noteq> Idle} \<and>
     (\<forall>t key l. on_lock (ks_pc s t) key l \<longrightarrow> gm_get (ks_locks s) key = Some l) \<and>
     (\<forall>key l. gm_get (ks_locks s) key = Some l \<longrightarrow>
        l < ks_fresh s \<and> kl_refs (ks_heap s l) = int (card (users s key l)) \<and> 0 < kl_refs (ks_heap s l) \<and>
        (\<forall>t. kl_owner (ks_heap s l) = Some t \<longleftrightarrow> ks_pc s t = Holding key l)) \<and>
     (\<forall>k1 k2 l. gm_get (ks_locks s) k1 = Some l \<longrightarrow> gm_get (ks_locks s) k2 = Some l \<longrightarrow> k1 = k2)"

lemma on_lock_simps [simp]:
  "on_lock Idle key l = False"
  "on_lock (Waiting k m) key l = (k = key \<and> m = l)"
  "on_lock (Holding k m) key l = (k = key \<and> m = l)"
  "on_lock (Released k m) key l = (k = key \<and> m = l)"
  by (auto simp: on_lock_def)

lemma kl_inv_user: "kl_inv s \<Longrightarrow> on_lock (ks_pc s t) key l \<Longrightarrow> gm_get (ks_locks s) key = Some l"
  by (simp add: kl_inv_def)

lemma kl_inv_entry:
  assumes "kl_inv s" "gm_get (ks_locks s) key = Some l"
  shows "l < ks_fresh s" "kl_refs (ks_heap s l) = int (card (users s key l))" "0 < kl_refs (ks_heap s l)"
    "kl_owner (ks_heap s l) = Some t \<longleftrightarrow> ks_pc s t = Holding key l"
  using assms unfolding kl_inv_def by blast+

lemma finite_users: "kl_inv s \<Longrightarrow> finite (users s key l)"
  by (rule finite_subset [of _ "{t. ks_pc s t \<noteq> Idle}"]) (auto simp: users_def kl_inv_def on_lock_def)

lemma users_set_pc:
  "users (set_pc t pc s) key l =
     (if on_lock pc key l then insert t (users s key l) else users s key l - {t})"
  by (auto simp: users_def set_pc_def)

lemma finite_active_set_pc:
  "finite {u. ks_pc s u \<noteq> Idle} \<Longrightarrow> finite {u. ks_pc (set_pc t pc s) u \<noteq> Idle}"
  by (rule finite_subset [of _ "insert t {u. ks_pc s u \<noteq> Idle}"]) (auto simp: set_pc_def)

lemma kl_init_inv: "kl_inv new_key_locker"
  by (simp add: kl_inv_def new_key_locker_def)

text \<open>A step that only changes the program counter of \<open>t\<close> between two points of the same lock.\<close>

lemma users_same_lock:
  "on_lock (ks_pc s t) key l \<Longrightarrow> on_lock pc key l \<Longrightarrow> users (set_pc t pc s) k m = users s k m"
  by (cases "ks_pc s t"; cases pc) (auto simp: users_def set_pc_def)

lemma kl_inv_move:
  assumes inv: "kl_inv s" and t: "on_lock (ks_pc s t) key l" "on_lock pc key l"
    and s': "s' = set_pc t pc (upd_lock l (\<lambda>k. k\<lparr>kl_owner := ow\<rparr>) s)"
    and ow: "\<And>u. ow = Some u \<longleftrightarrow> (if u = t then pc = Holding key l else ks_pc s u = Holding key l)"
  shows "kl_inv s'"
proof -
  have pcs: "ks_pc s' u = (if u = t then pc else ks_pc s u)" for u by (simp add: s' set_pc_def upd_lock_def)
  have us: "users s' k m = users s k m" for k m
    using users_same_lock [OF t, of k m] by (simp add: users_def s' set_pc_def upd_lock_def)
  have map: "ks_locks s' = ks_locks s" "ks_fresh s' = ks_fresh s"
    by (simp_all add: s' set_pc_def upd_lock_def)
  have heap: "kl_refs (ks_heap s' m) = kl_refs (ks_heap s m)"
    "kl_owner (ks_heap s' m) = (if m = l then ow else kl_owner (ks_heap s m))" for m
    by (simp_all add: s' set_pc_def upd_lock_def)
  have kl: "gm_get (ks_locks s) key = Some l" using inv t(1) by (simp add: kl_inv_def)
  have "finite {u. ks_pc s' u \<noteq> Idle}"
    using inv by (auto simp: s' kl_inv_def intro!: finite_active_set_pc) (simp add: upd_lock_def)
  moreover have "gm_get (ks_locks s) k = Some m" if "on_lock (ks_pc s' u) k m" for u k m
    using that inv t kl by (cases pc) (auto simp: pcs kl_inv_def split: if_splits)
  moreover have "kl_owner (ks_heap s' m) = Some u \<longleftrightarrow> ks_pc s' u = Holding k m"
    if "gm_get (ks_locks s) k = Some m" for k m u
  proof (cases "m = l")
    case True
    then have "k = key" using inv that kl by (auto simp: kl_inv_def)
    with True ow [of u] show ?thesis by (auto simp: heap pcs)
  next
    case False
    then have "ks_pc s t \<noteq> Holding k m" "pc \<noteq> Holding k m" using t by auto
    with False inv that show ?thesis by (auto simp: heap pcs kl_inv_def)
  qed
  ultimately show ?thesis
    using inv unfolding kl_inv_def map us heap(1) by blast
qed

lemma kl_inv_acquire:
  assumes inv: "kl_inv s" and t: "ks_pc s t = Waiting key l" and a: "lock_acquire t key l s = Some s'"
  shows "kl_inv s'"
proof -
  have kl: "gm_get (ks_locks s) key = Some l" using kl_inv_user [OF inv, of t key l] t by simp
  have free: "kl_owner (ks_heap s l) = None"
    and s': "s' = set_pc t (Holding key l) (upd_lock l (\<lambda>k. k\<lparr>kl_owner := Some t\<rparr>) s)"
    using a by (auto simp: lock_acquire_def split: if_splits)
  have "ks_pc s u \<noteq> Holding key l" for u using inv kl free by (force simp: kl_inv_def)
  then show ?thesis using kl_inv_move [OF inv _ _ s'] t by auto
qed

lemma kl_inv_unlock:
  assumes inv: "kl_inv s" and t: "ks_pc s t = Holding key l"
  shows "kl_inv (lock_unlock t key l s)"
proof -
  have kl: "gm_get (ks_locks s) key = Some l" using kl_inv_user [OF inv, of t key l] t by simp
  then have "kl_owner (ks_heap s l) = Some u \<longleftrightarrow> ks_pc s u = Holding key l" for u
    by (rule kl_inv_entry(4) [OF inv])
  then have "ks_pc s u \<noteq> Holding key l" if "u \<noteq> t" for u using t that by (metis option.inject)
  then show ?thesis
    using kl_inv_move [OF inv _ _ lock_unlock_def [of t key l s]] t by auto
qed

lemma kl_inv_enter:
  assumes inv: "kl_inv s" and t: "ks_pc s t = Idle"
  shows "kl_inv (lock_enter t key s)"
proof (cases "gm_get (ks_locks s) key")
  case None
  let ?l = "ks_fresh s" and ?s' = "lock_enter t key s"
  have pcs: "ks_pc ?s' u = (if u = t then Waiting key ?l else ks_pc s u)" for u
    using None by (simp add: lock_enter_def set_pc_def Let_def)
  have locks: "gm_get (ks_locks ?s') = (gm_get (ks_locks s))(key \<mapsto> ?l)"
    using None by (simp add: lock_enter_def set_pc_def Let_def go_map_simps)
  have heap: "ks_heap ?s' m = (if m = ?l then \<lparr>kl_owner = None, kl_refs = 1\<rparr> else ks_heap s m)" for m
    using None by (simp add: lock_enter_def set_pc_def Let_def)
  have fresh: "ks_fresh ?s' = Suc ?l" using None by (simp add: lock_enter_def set_pc_def Let_def)
  have old: "m < ?l" if "gm_get (ks_locks s) k = Some m" for k m using inv that by (simp add: kl_inv_def)
  have nobody: "\<not> on_lock (ks_pc s u) k ?l" "\<not> on_lock (ks_pc s u) key m" for u k m
    using inv old [of k ?l] None by (auto simp: kl_inv_def)
  have us: "users ?s' k m = (if k = key \<and> m = ?l then {t} else users s k m)" for k m
    using nobody t by (auto simp: users_def pcs)
  have "finite {u. ks_pc ?s' u \<noteq> Idle}"
    using inv by (auto simp: kl_inv_def pcs intro: rev_finite_subset [of "insert t {u. ks_pc s u \<noteq> Idle}"])
  moreover have "gm_inv (ks_locks ?s')" using None inv by (simp add: lock_enter_def set_pc_def Let_def kl_inv_def)
  moreover have "gm_get (ks_locks ?s') k = Some m" if "on_lock (ks_pc ?s' u) k m" for u k m
    using that inv None by (auto simp: pcs locks kl_inv_def split: if_splits)
  moreover have "m < ks_fresh ?s' \<and> kl_refs (ks_heap ?s' m) = int (card (users ?s' k m)) \<and>
      0 < kl_refs (ks_heap ?s' m) \<and> (\<forall>u. kl_owner (ks_heap ?s' m) = Some u \<longleftrightarrow> ks_pc ?s' u = Holding k m)"
    if m: "gm_get (ks_locks ?s') k = Some m" for k m
  proof (cases "k = key")
    case True
    then have "m = ?l" using m by (simp add: locks)
    moreover have "ks_pc s u \<noteq> Holding key ?l" for u using nobody(1) [of u key] by auto
    ultimately show ?thesis using True by (simp add: heap us fresh pcs)
  next
    case False
    then have "gm_get (ks_locks s) k = Some m" using m by (simp add: locks)
    note e = kl_inv_entry [OF inv this]
    show ?thesis using e(1,2,3) e(4) False t by (simp add: heap us fresh pcs)
  qed
  moreover have "k1 = k2" if "gm_get (ks_locks ?s') k1 = Some m" "gm_get (ks_locks ?s') k2 = Some m" for k1 k2 m
    using that old [of k1 m] old [of k2 m] inv by (auto simp: locks kl_inv_def split: if_splits)
  ultimately show ?thesis unfolding kl_inv_def by blast
next
  case (Some l)
  let ?s' = "lock_enter t key s"
  have pcs: "ks_pc ?s' u = (if u = t then Waiting key l else ks_pc s u)" for u
    using Some by (simp add: lock_enter_def set_pc_def upd_lock_def)
  have same: "ks_locks ?s' = ks_locks s" "ks_fresh ?s' = ks_fresh s"
    using Some by (simp_all add: lock_enter_def set_pc_def upd_lock_def)
  have heap: "kl_owner (ks_heap ?s' m) = kl_owner (ks_heap s m)"
    "kl_refs (ks_heap ?s' m) = kl_refs (ks_heap s m) + (if m = l then 1 else 0)" for m
    using Some by (simp_all add: lock_enter_def set_pc_def upd_lock_def)
  have us: "users ?s' k m = (if k = key \<and> m = l then insert t (users s k m) else users s k m)" for k m
    using t by (auto simp: users_def pcs)
  have tn: "t \<notin> users s key l" using t by (simp add: users_def)
  have "finite {u. ks_pc ?s' u \<noteq> Idle}"
    using inv by (auto simp: kl_inv_def pcs intro: rev_finite_subset [of "insert t {u. ks_pc s u \<noteq> Idle}"])
  moreover have "gm_get (ks_locks ?s') k = Some m" if "on_lock (ks_pc ?s' u) k m" for u k m
    using that inv Some by (auto simp: pcs same kl_inv_def split: if_splits)
  moreover have "m < ks_fresh ?s' \<and> kl_refs (ks_heap ?s' m) = int (card (users ?s' k m)) \<and>
      0 < kl_refs (ks_heap ?s' m) \<and> (\<forall>u. kl_owner (ks_heap ?s' m) = Some u \<longleftrightarrow> ks_pc ?s' u = Holding k m)"
    if m: "gm_get (ks_locks ?s') k = Some m" for k m
  proof -
    have old: "gm_get (ks_locks s) k = Some m" using m by (simp add: same)
    note e = kl_inv_entry [OF inv old]
    have ml: "m = l \<longleftrightarrow> k = key" using inv old Some by (auto simp: kl_inv_def)
    have "kl_refs (ks_heap ?s' m) = int (card (users ?s' k m))"
      using e(2) tn ml finite_users [OF inv, of key l] by (cases "k = key") (simp_all add: heap us)
    moreover have "0 < kl_refs (ks_heap ?s' m)" using e(3) by (auto simp: heap)
    ultimately show ?thesis using e(1) e(4) t by (simp add: heap same pcs)
  qed
  moreover have "gm_inv (ks_locks ?s')" using inv by (simp add: same kl_inv_def)
  moreover have "k1 = k2" if "gm_get (ks_locks ?s') k1 = Some m" "gm_get (ks_locks ?s') k2 = Some m" for k1 k2 m
    using that inv unfolding same kl_inv_def by blast
  ultimately show ?thesis unfolding kl_inv_def by blast
qed

lemma kl_inv_finish:
  assumes inv: "kl_inv s" and t: "ks_pc s t = Released key l"
  shows "kl_inv (lock_finish t key l s)"
proof -
  let ?s' = "lock_finish t key l s"
  have kl: "gm_get (ks_locks s) key = Some l" using kl_inv_user [OF inv, of t key l] t by simp
  have pcs: "ks_pc ?s' u = (if u = t then Idle else ks_pc s u)" for u
    by (simp add: lock_finish_def set_pc_def upd_lock_def Let_def)
  have fresh: "ks_fresh ?s' = ks_fresh s"
    by (simp add: lock_finish_def set_pc_def upd_lock_def Let_def)
  have heap: "kl_owner (ks_heap ?s' m) = kl_owner (ks_heap s m)"
    "kl_refs (ks_heap ?s' m) = kl_refs (ks_heap s m) - (if m = l then 1 else 0)" for m
    by (simp_all add: lock_finish_def set_pc_def upd_lock_def Let_def)
  have locks: "gm_get (ks_locks ?s') =
      (if kl_refs (ks_heap s l) = 1 then (gm_get (ks_locks s))(key := None) else gm_get (ks_locks s))"
    by (simp add: lock_finish_def set_pc_def upd_lock_def Let_def go_map_simps)
  have ginv: "gm_inv (ks_locks ?s')"
    using inv by (simp add: lock_finish_def set_pc_def upd_lock_def Let_def kl_inv_def)
  have us: "users ?s' k m = (if k = key \<and> m = l then users s k m - {t} else users s k m)" for k m
    using t by (auto simp: users_def pcs)
  have tn: "t \<in> users s key l" using t by (simp add: users_def)
  have card: "int (card (users s key l - {t})) = int (card (users s key l)) - 1"
    using card_Suc_Diff1 [OF finite_users [OF inv] tn] by linarith
  have refs: "kl_refs (ks_heap s l) = int (card (users s key l))" using inv kl by (simp add: kl_inv_def)
  have only: "u = t" if "kl_refs (ks_heap s l) = 1" "on_lock (ks_pc s u) key m" for u m
  proof -
    have "m = l" using inv that(2) kl by (fastforce simp: kl_inv_def)
    moreover have "card (users s key l) = 1" using refs that(1) by simp
    ultimately show ?thesis using that(2) tn by (metis card_1_singletonE mem_Collect_eq singletonD users_def)
  qed
  have "finite {u. ks_pc ?s' u \<noteq> Idle}"
    using inv by (auto simp: kl_inv_def pcs intro: rev_finite_subset [of "{u. ks_pc s u \<noteq> Idle}"])
  moreover have "gm_get (ks_locks ?s') k = Some m" if "on_lock (ks_pc ?s' u) k m" for u k m
  proof -
    have u: "u \<noteq> t" "on_lock (ks_pc s u) k m" using that by (auto simp: pcs split: if_splits)
    then have "gm_get (ks_locks s) k = Some m" using inv by (simp add: kl_inv_def)
    with u only show ?thesis by (auto simp: locks)
  qed
  moreover have "m < ks_fresh ?s' \<and> kl_refs (ks_heap ?s' m) = int (card (users ?s' k m)) \<and>
      0 < kl_refs (ks_heap ?s' m) \<and> (\<forall>u. kl_owner (ks_heap ?s' m) = Some u \<longleftrightarrow> ks_pc ?s' u = Holding k m)"
    if m: "gm_get (ks_locks ?s') k = Some m" for k m
  proof -
    have old: "gm_get (ks_locks s) k = Some m" and nd: "kl_refs (ks_heap s l) = 1 \<longrightarrow> k \<noteq> key"
      using m by (auto simp: locks split: if_splits)
    have ml: "m = l \<longleftrightarrow> k = key" using inv old kl by (auto simp: kl_inv_def)
    note e = kl_inv_entry [OF inv old]
    have "kl_refs (ks_heap ?s' m) = int (card (users ?s' k m))"
      using e(2) ml card refs by (cases "k = key") (simp_all add: heap us)
    moreover have "0 < kl_refs (ks_heap ?s' m)" using e(3) nd ml by (auto simp: heap)
    ultimately show ?thesis using e(1) e(4) t by (simp add: heap fresh pcs)
  qed
  moreover have "k1 = k2" if "gm_get (ks_locks ?s') k1 = Some m" "gm_get (ks_locks ?s') k2 = Some m" for k1 k2 m
    using that inv by (auto simp: locks kl_inv_def split: if_splits)
  ultimately show ?thesis using ginv unfolding kl_inv_def by blast
qed

lemma kl_inv_step: "kl_step s s' \<Longrightarrow> kl_inv s \<Longrightarrow> kl_inv s'"
  by (erule kl_stepE) (auto intro: kl_inv_enter kl_inv_acquire kl_inv_unlock kl_inv_finish)

lemma kl_reachable_inv: "rtranclp kl_step new_key_locker s \<Longrightarrow> kl_inv s"
  by (induction rule: rtranclp_induct) (auto intro: kl_init_inv kl_inv_step)

section \<open>Properties\<close>

lemma inside_counted:
  assumes "kl_inv s"
  shows "case gm_get (ks_locks s) key of
       None \<Rightarrow> inside s key = {}
     | Some n \<Rightarrow> inside s key \<noteq> {} \<and> finite (inside s key) \<and> kl_refs (ks_heap s n) = int (card (inside s key)) \<and>
         (\<forall>v \<in> inside s key. ks_pc s v \<in> {Waiting key n, Holding key n, Released key n})"
proof -
  have at: "gm_get (ks_locks s) key = Some n" if "ks_pc s v \<in> {Waiting key n, Holding key n, Released key n}" for v n
    by (rule kl_inv_user [OF assms]) (use that in \<open>simp only: on_lock_def\<close>)
  show ?thesis
  proof (cases "gm_get (ks_locks s) key")
    case None
    have "v \<notin> inside s key" for v
    proof
      assume "v \<in> inside s key"
      then obtain m where "ks_pc s v \<in> {Waiting key m, Holding key m, Released key m}" unfolding inside_def by blast
      from at [OF this] None show False by simp
    qed
    then have "inside s key = {}" by blast
    with None show ?thesis by simp
  next
    case (Some n)
    have eq: "inside s key = users s key n"
    proof
      show "inside s key \<subseteq> users s key n"
      proof
        fix v assume "v \<in> inside s key"
        then obtain m where m: "ks_pc s v \<in> {Waiting key m, Holding key m, Released key m}" unfolding inside_def by blast
        from at [OF this] Some have "m = n" by simp
        with m show "v \<in> users s key n" by (simp only: users_def on_lock_def mem_Collect_eq)
      qed
    qed (unfold inside_def users_def on_lock_def, blast)
    from kl_inv_entry(2,3) [OF assms Some] have "kl_refs (ks_heap s n) = int (card (users s key n))" "users s key n \<noteq> {}" by auto
    with finite_users [OF assms, of key n] Some show ?thesis by (simp add: eq) (simp only: users_def on_lock_def mem_Collect_eq, simp)
  qed
qed

text \<open>
  C32. The key lock is a lock, under every interleaving of the calls of any goroutines: two goroutines never hold the lock of one
  key at the same time; the map has a lock object for a key exactly if some goroutine is between the start of \<^verbatim>\<open>Lock\<close> and the end of the unlock function
  for that key, all of them use this one object, and its reference count is their number; when no goroutine uses the locker its map is empty, so
  no lock object leaks; and whenever some goroutine is inside the locker, some goroutine that is
  inside can take a step, so the locker itself never deadlocks.
\<close>

theorem key_lock_correct:
  assumes "rtranclp kl_step new_key_locker s"
  shows "(ks_pc s t = Holding key l \<and> ks_pc s u = Holding key m \<longrightarrow> t = u) \<and>
    (case gm_get (ks_locks s) key of
       None \<Rightarrow> inside s key = {}
     | Some n \<Rightarrow> inside s key \<noteq> {} \<and> finite (inside s key) \<and> kl_refs (ks_heap s n) = int (card (inside s key)) \<and>
         (\<forall>v \<in> inside s key. ks_pc s v \<in> {Waiting key n, Holding key n, Released key n})) \<and>
    ((\<forall>t. ks_pc s t = Idle) \<longrightarrow> ks_locks s = []) \<and>
    (ks_pc s t \<noteq> Idle \<longrightarrow> (\<exists>v s'. ks_pc s v \<noteq> Idle \<and> ks_pc s' v \<noteq> ks_pc s v \<and> kl_step s s'))"
proof -
  note inv = kl_reachable_inv [OF assms]
  have look: "gm_get (ks_locks s) k = Some n" if "on_lock (ks_pc s v) k n" for v k n
    using inv that by (simp add: kl_inv_def)
  have own: "kl_owner (ks_heap s n) = Some v \<longleftrightarrow> ks_pc s v = Holding k n"
    if "gm_get (ks_locks s) k = Some n" for k n v
    using inv that by (simp add: kl_inv_def)
  have mutex: "t = u" if h: "ks_pc s t = Holding key l" "ks_pc s u = Holding key m"
  proof -
    have "gm_get (ks_locks s) key = Some l" "gm_get (ks_locks s) key = Some m"
      using look [of t key l] look [of u key m] h by simp_all
    with own [of key l] h show ?thesis by (metis option.inject)
  qed
  have leak: "ks_locks s = []" if "\<forall>t. ks_pc s t = Idle"
  proof -
    have "users s k n = {}" for k n using that by (simp add: users_def)
    then have "gm_get (ks_locks s) k \<noteq> Some n" for k n using inv by (force simp: kl_inv_def)
    then show ?thesis by (metis gm_get_iff_in inv kl_inv_def list.set_intros(1) neq_Nil_conv surj_pair)
  qed
  have run: "\<exists>s'. ks_pc s' v \<noteq> ks_pc s v \<and> kl_step s s'" if "ks_pc s v = Holding k n" for v k n
    using kl_step.unlock [OF that] that by (metis fun_upd_same key_locker.select_convs(4) key_locker.surjective
        key_locker.update_convs(4) kl_pc.distinct(11) lock_unlock_def set_pc_def)
  have prog: "\<exists>v s'. ks_pc s v \<noteq> Idle \<and> ks_pc s' v \<noteq> ks_pc s v \<and> kl_step s s'" if busy: "ks_pc s t \<noteq> Idle"
  proof (cases "ks_pc s t")
    case (Waiting k n)
    show ?thesis
    proof (cases "kl_owner (ks_heap s n)")
      case None
      then have "lock_acquire t k n s = Some (set_pc t (Holding k n) (upd_lock n (\<lambda>k. k\<lparr>kl_owner := Some t\<rparr>) s))"
        by (simp add: lock_acquire_def)
      from kl_step.acquire [OF Waiting this] Waiting show ?thesis
        by (intro exI [of _ t] exI) (auto simp: set_pc_def)
    next
      case (Some v)
      then have "ks_pc s v = Holding k n" using own look Waiting by (metis on_lock_simps(2))
      with run [of v k n] show ?thesis by (metis kl_pc.distinct(3))
    qed
  next
    case (Holding k n)
    with run [of t k n] busy show ?thesis by blast
  next
    case (Released k n)
    from kl_step.finish [OF this] Released show ?thesis
      by (intro exI [of _ t] exI) (auto simp: lock_finish_def Let_def set_pc_def)
  qed (use busy in simp)
  show ?thesis using mutex inside_counted [OF inv, of key] leak prog by blast
qed

theorem key_lock_correct_witness:
  "\<exists>s. rtranclp kl_step new_key_locker s \<and> ks_pc s 7 = Waiting ''k'' 0 \<and> \<not> (\<forall>t. ks_pc s t = Idle) \<and>
     (\<exists>v s'. ks_pc s v \<noteq> Idle \<and> ks_pc s' v \<noteq> ks_pc s v \<and> kl_step s s')"
proof -
  let ?s = "lock_enter 7 ''k'' new_key_locker"
  have "kl_step new_key_locker ?s"
    by (rule kl_step.enter) (simp add: new_key_locker_def)
  then have r: "rtranclp kl_step new_key_locker ?s" by blast
  have pc: "ks_pc ?s 7 = Waiting ''k'' 0"
    by (simp add: lock_enter_def new_key_locker_def set_pc_def Let_def)
  then have "ks_pc ?s 7 \<noteq> Idle" by simp
  with key_lock_correct [OF r, of 7] r pc show ?thesis by blast
qed

end
