(* ===== verification/Utf8.thy ===== *)
theory Utf8
  imports Go_Prelude
begin

text \<open>
  UTF-8 as Go's \<^verbatim>\<open>unicode/utf8\<close>, \<^verbatim>\<open>strings\<close> and \<^verbatim>\<open>bytes\<close> packages see it: the width of the rune at
  the start of a byte string, validity, replacement of invalid bytes, and the conversion of a
  string to runes and back.
\<close>

definition byte_in :: "nat \<Rightarrow> nat \<Rightarrow> char \<Rightarrow> bool" where
  "byte_in lo hi c \<longleftrightarrow> lo \<le> of_char c \<and> of_char c \<le> hi"

text \<open>The width of the well-formed rune at the start of a string; \<open>0\<close> if there is none.\<close>

fun rune_width :: "string \<Rightarrow> nat" where
  "rune_width [] = 0"
| "rune_width (a # s) =
     (let cont = byte_in 0x80 0xBF;
          tail = (\<lambda>k ok. if length s \<ge> k - 1 \<and> ok \<and> list_all cont (take (k - 1) s) then k else 0)
      in if byte_in 0 0x7F a then 1
         else if byte_in 0xC2 0xDF a then tail 2 True
         else if byte_in 0xE0 0xE0 a then tail 3 (s \<noteq> [] \<and> byte_in 0xA0 0xBF (hd s))
         else if byte_in 0xED 0xED a then tail 3 (s \<noteq> [] \<and> byte_in 0x80 0x9F (hd s))
         else if byte_in 0xE1 0xEF a then tail 3 True
         else if byte_in 0xF0 0xF0 a then tail 4 (s \<noteq> [] \<and> byte_in 0x90 0xBF (hd s))
         else if byte_in 0xF4 0xF4 a then tail 4 (s \<noteq> [] \<and> byte_in 0x80 0x8F (hd s))
         else if byte_in 0xF1 0xF3 a then tail 4 True
         else 0)"

definition replacement_rune :: string where
  "replacement_rune = [CHR 0xEF, CHR 0xBF, CHR 0xBD]"

text \<open>\<^verbatim>\<open>strings.ToValidUTF8(s, rep)\<close>: a run of invalid bytes is replaced once.\<close>

function utf8_replace :: "string \<Rightarrow> bool \<Rightarrow> string \<Rightarrow> string" where
  "utf8_replace rep in_run s =
     (if s = [] then []
      else let w = rune_width s in
           if w = 0 then (if in_run then [] else rep) @ utf8_replace rep True (tl s)
           else take w s @ utf8_replace rep False (drop w s))"
  by pat_completeness auto
termination
  by (relation "measure (\<lambda>(p, r, s). length s)") (auto simp: diff_less)

declare utf8_replace.simps [simp del]

text \<open>\<^verbatim>\<open>string([]rune(s))\<close>: every invalid byte becomes the replacement rune.\<close>

function rune_roundtrip :: "string \<Rightarrow> string" where
  "rune_roundtrip s =
     (if s = [] then []
      else let w = rune_width s in
           if w = 0 then replacement_rune @ rune_roundtrip (tl s)
           else take w s @ rune_roundtrip (drop w s))"
  by pat_completeness auto
termination
  by (relation "measure length") (auto simp: diff_less)

declare rune_roundtrip.simps [simp del]

function valid_utf8 :: "string \<Rightarrow> bool" where
  "valid_utf8 s =
     (if s = [] then True else if rune_width s = 0 then False else valid_utf8 (drop (rune_width s) s))"
  by pat_completeness auto
termination
  by (relation "measure length") (auto simp: diff_less)

declare valid_utf8.simps [simp del]

text \<open>
  Truncation at a rune boundary, as the log stores of both applications do it: invalid bytes are
  replaced first, then the cut moves back to the start of a rune.
\<close>

definition rune_start :: "char \<Rightarrow> bool" where
  "rune_start c \<longleftrightarrow> \<not> byte_in 0x80 0xBF c"

fun cut_back :: "string \<Rightarrow> nat \<Rightarrow> nat" where
  "cut_back s 0 = 0"
| "cut_back s (Suc n) = (if \<not> rune_start (s ! Suc n) then cut_back s n else Suc n)"

definition truncate_text :: "string \<Rightarrow> nat \<Rightarrow> string" where
  "truncate_text v0 n =
     (let v = utf8_replace replacement_rune False v0 in
      if n = 0 then [] else if length v \<le> n then v else take (cut_back v n) v)"

lemma cut_back_le: "cut_back s n \<le> n"
  by (induction s n rule: cut_back.induct) auto

lemma length_truncate_text: "length (truncate_text v n) \<le> n"
  using cut_back_le [of "utf8_replace replacement_rune False v" n] by (auto simp: truncate_text_def Let_def)

lemma rune_roundtrip_valid: "valid_utf8 s \<Longrightarrow> rune_roundtrip s = s"
proof (induction s rule: valid_utf8.induct)
  case (1 s)
  then show ?case
    by (auto simp: valid_utf8.simps [of s] rune_roundtrip.simps [of s] Let_def split: if_splits)
qed

end
