(* ===== verification/Ring_Buffer.thy ===== *)
theory Ring_Buffer
  imports Go_Prelude
begin

text \<open>
  Ring buffers as the log stores of both applications keep them: an array of fixed length, the
  index of the oldest entry and the number of entries. \<open>ring_view\<close> reads the entries oldest first,
  \<open>ring_scan\<close> is the loop that collects matching entries from the newest to the oldest. The locale
  \<open>bounded_log\<close> states what appending to a log of bounded capacity means; both stores interpret
  it.
\<close>

section \<open>Views of an array\<close>

definition ring_view :: "nat \<Rightarrow> 'a list \<Rightarrow> nat \<Rightarrow> nat \<Rightarrow> 'a list" where
  "ring_view c es h n = map (\<lambda>i. es ! ((h + i) mod c)) [0..<n]"

lemma length_ring_view [simp]: "length (ring_view c es h n) = n"
  by (simp add: ring_view_def)

lemma ring_view_nth [simp]: "i < n \<Longrightarrow> ring_view c es h n ! i = es ! ((h + i) mod c)"
  by (simp add: ring_view_def)

lemma ring_view_empty [simp]: "ring_view c es h 0 = []"
  by (simp add: ring_view_def)

lemma mod_ring_inj:
  fixes h i j c :: nat
  assumes "(h + i) mod c = (h + j) mod c" "i < c" "j < c"
  shows "i = j"
  using assms
proof (induction i j rule: linorder_wlog)
  case (le i j)
  then have "(h + j) mod c = (h + i) mod c" "h + i \<le> h + j" by simp_all
  then have "c dvd (h + j) - (h + i)" using mod_eq_dvd_iff_nat by blast
  then have "c dvd j - i" by simp
  with le show ?case by (metis diff_diff_cancel diff_is_0_eq' dvd_imp_le leD less_imp_diff_less
      linorder_not_less nat_less_le zero_less_diff)
qed metis

text \<open>Storing at the first free index, and overwriting the oldest entry.\<close>

lemma ring_push_free:
  assumes "n < c" "length es = c"
  shows "ring_view c (es[(h + n) mod c := e]) h (Suc n) = ring_view c es h n @ [e]"
proof (rule nth_equalityI)
  fix i assume "i < length (ring_view c (es[(h + n) mod c := e]) h (Suc n))"
  then have i: "i < Suc n" by simp
  have "(h + n) mod c < length es" using assms by simp
  moreover have "i \<noteq> n \<Longrightarrow> (h + i) mod c \<noteq> (h + n) mod c"
    using mod_ring_inj [of h i c n] i assms by auto
  ultimately show "ring_view c (es[(h + n) mod c := e]) h (Suc n) ! i = (ring_view c es h n @ [e]) ! i"
    using i by (cases "i = n") (simp_all add: nth_append)
qed simp

lemma ring_push_full:
  assumes "h < c" "length es = c"
  shows "ring_view c (es[h := e]) ((h + 1) mod c) c = tl (ring_view c es h c) @ [e]"
proof (rule nth_equalityI)
  fix i assume "i < length (ring_view c (es[h := e]) ((h + 1) mod c) c)"
  then have i: "i < c" by simp
  have idx: "ring_view c (es[h := e]) ((h + 1) mod c) c ! i = es[h := e] ! ((h + Suc i) mod c)"
    using i by (simp add: mod_simps)
  show "ring_view c (es[h := e]) ((h + 1) mod c) c ! i = (tl (ring_view c es h c) @ [e]) ! i"
  proof (cases "Suc i = c")
    case True
    then have "(h + Suc i) mod c = h" using assms by simp
    with idx True assms show ?thesis by (auto simp: nth_append)
  next
    case False
    then have "(h + Suc i) mod c \<noteq> h"
      using mod_ring_inj [of h "Suc i" c 0] i assms by auto
    moreover have "i < c - 1" using False i by simp
    ultimately show ?thesis unfolding idx using i by (simp add: nth_append nth_tl)
  qed
qed (use assms in simp)

section \<open>Collecting from the newest entry\<close>

text \<open>The loop from the newest logical index down; it stops at the first match beyond the limit.\<close>

fun ring_scan :: "('a \<Rightarrow> bool) \<Rightarrow> nat \<Rightarrow> 'a list \<Rightarrow> nat \<Rightarrow> nat \<Rightarrow> nat \<Rightarrow> 'a list \<Rightarrow> 'a list \<times> bool" where
  "ring_scan sel c es h limit 0 acc = (acc, False)"
| "ring_scan sel c es h limit (Suc logical) acc =
     (let entry = es ! ((h + logical) mod c) in
      if \<not> sel entry then ring_scan sel c es h limit logical acc
      else if length acc < limit then ring_scan sel c es h limit logical (acc @ [entry])
      else (acc, True))"

lemma ring_scan_view:
  "n \<le> m \<Longrightarrow> length acc \<le> limit \<Longrightarrow> ring_scan sel c es h limit n acc =
     (acc @ take (limit - length acc) (filter sel (rev (take n (ring_view c es h m)))),
      length (filter sel (rev (take n (ring_view c es h m)))) > limit - length acc)"
proof (induction n arbitrary: acc)
  case (Suc n)
  let ?e = "es ! ((h + n) mod c)"
  have "take (Suc n) (ring_view c es h m) = take n (ring_view c es h m) @ [?e]"
    using Suc.prems by (simp add: take_Suc_conv_app_nth)
  then have r: "rev (take (Suc n) (ring_view c es h m)) = ?e # rev (take n (ring_view c es h m))" by simp
  show ?case
  proof (cases "sel ?e \<and> length acc < limit")
    case True
    then show ?thesis
      using Suc.IH [of "acc @ [?e]"] Suc.prems by (auto simp: r Let_def Suc_diff_Suc take_Cons')
  next
    case False
    then show ?thesis using Suc.IH [of acc] Suc.prems by (auto simp: r Let_def)
  qed
qed simp

lemma ring_scan_all:
  "ring_scan sel c es h limit n [] =
     (take limit (filter sel (rev (ring_view c es h n))), length (filter sel (rev (ring_view c es h n))) > limit)"
  using ring_scan_view [of n n "[]" limit sel c es h] by simp

text \<open>Entries below a cursor, in a list with falling keys.\<close>

lemma filter_below_nth:
  fixes key :: "'a \<Rightarrow> nat"
  assumes "sorted_wrt (\<lambda>x y. key x > key y) ms" "k < length ms"
  shows "filter (\<lambda>x. key x < key (ms ! k)) ms = drop (Suc k) ms"
proof -
  have nth: "key (ms ! i) > key (ms ! j)" if "i < j" "j < length ms" for i j
    using assms(1) that by (simp add: sorted_wrt_iff_nth_less)
  have "key (ms ! k) \<le> key x" if x: "x \<in> set (take (Suc k) ms)" for x
  proof -
    obtain i where "i < Suc k" "x = ms ! i" using x assms(2) by (auto simp: in_set_conv_nth)
    with nth [of i k] assms(2) show ?thesis by (cases "i = k") auto
  qed
  then have "filter (\<lambda>x. key x < key (ms ! k)) (take (Suc k) ms) = []"
    by (auto simp: filter_empty_conv leD)
  moreover have "key x < key (ms ! k)" if x: "x \<in> set (drop (Suc k) ms)" for x
  proof -
    obtain j where "j < length ms - Suc k" "x = ms ! (Suc k + j)" using x by (auto simp: in_set_conv_nth)
    with nth [of k "Suc k + j"] show ?thesis by simp
  qed
  then have "filter (\<lambda>x. key x < key (ms ! k)) (drop (Suc k) ms) = drop (Suc k) ms"
    by (simp add: filter_id_conv)
  ultimately show ?thesis by (metis append_Nil append_take_drop_id filter_append)
qed

lemma sorted_desc_of_asc:
  fixes key :: "'a \<Rightarrow> nat"
  assumes "sorted_wrt (<) (map key xs)"
  shows "sorted_wrt (\<lambda>x y. key x > key y) (filter P (rev xs))"
proof -
  have "sorted_wrt (\<lambda>x y. key x > key y) (rev xs)" using assms by (simp add: sorted_wrt_rev sorted_wrt_map)
  then show ?thesis by (rule sorted_wrt_filter)
qed

section \<open>Logs of bounded capacity\<close>

locale bounded_log =
  fixes push :: "'e \<Rightarrow> 's \<Rightarrow> 's"
    and view :: "'s \<Rightarrow> 'x list"
    and made :: "'e \<Rightarrow> nat \<Rightarrow> 'x"
    and cap :: "'s \<Rightarrow> nat"
    and seq :: "'s \<Rightarrow> nat"
    and inv :: "'s \<Rightarrow> bool"
  assumes inv_push: "inv s \<Longrightarrow> inv (push e s)"
    and view_push: "inv s \<Longrightarrow>
      view (push e s) = (if length (view s) < cap s then view s else tl (view s)) @ [made e (seq s)]"
    and cap_push: "inv s \<Longrightarrow> cap (push e s) = cap s"
    and seq_push: "inv s \<Longrightarrow> seq (push e s) = Suc (seq s)"
    and view_bound: "inv s \<Longrightarrow> length (view s) \<le> cap s"
    and cap_pos: "inv s \<Longrightarrow> 0 < cap s"
begin

fun made_from :: "nat \<Rightarrow> 'e list \<Rightarrow> 'x list" where
  "made_from n [] = []"
| "made_from n (e # es) = made e n # made_from (Suc n) es"

lemma length_made_from [simp]: "length (made_from n es) = length es"
  by (induction es arbitrary: n) simp_all

lemma made_from_nth: "i < length es \<Longrightarrow> made_from n es ! i = made (es ! i) (n + i)"
  by (induction es arbitrary: n i) (auto simp: nth_Cons split: nat.split)

lemma push_all:
  assumes "inv s"
  shows "inv (foldl (\<lambda>s e. push e s) s es) \<and> cap (foldl (\<lambda>s e. push e s) s es) = cap s \<and>
    seq (foldl (\<lambda>s e. push e s) s es) = seq s + length es \<and>
    view (foldl (\<lambda>s e. push e s) s es) =
      drop (length (view s) + length es - cap s) (view s @ made_from (seq s) es)"
  using assms
proof (induction es arbitrary: s)
  case Nil
  then show ?case using view_bound by simp
next
  case (Cons e es)
  let ?s = "push e s"
  note ih = Cons.IH [OF inv_push [OF Cons.prems, of e]]
  note fs = cap_push [OF Cons.prems, of e] seq_push [OF Cons.prems, of e] view_push [OF Cons.prems, of e]
  have b: "length (view s) \<le> cap s" "0 < cap s" using view_bound cap_pos Cons.prems by simp_all
  have "drop (length (view ?s) + length es - cap s) (view ?s @ made_from (Suc (seq s)) es) =
      drop (length (view s) + Suc (length es) - cap s) (view s @ made e (seq s) # made_from (Suc (seq s)) es)"
  proof (cases "length (view s) < cap s")
    case True
    then show ?thesis using fs by simp
  next
    case False
    then have c: "length (view s) = cap s" "view s \<noteq> []" using b by auto
    then obtain v vs where v: "view s = v # vs" by (cases "view s") auto
    then show ?thesis using fs c by simp
  qed
  then show ?case using ih fs by simp
qed

end

end
