(* ===== verification/Access_Log.thy ===== *)
theory Access_Log
  imports Utf8 Ring_Buffer "HOL-Library.List_Lexorder" "HOL-Library.Char_ord"
begin

text \<open>
  EdgeProxy's in-memory access log, \<^verbatim>\<open>apps/edgeproxy/internal/accesslog/store.go\<close>: a ring buffer
  with sequence numbers, entry normalisation, filters and cursor pagination. The clock and the
  RFC 3339 parser and printer are parameters. Sequence numbers are natural numbers (the
  64-bit counter would need \<open>2 ^ 64\<close> events to wrap). \<open>log_view\<close> reads the ring as the list of
  retained entries, oldest first; the lemmas show that the ring holds exactly the last
  entries and that paging through a query returns every match once.
\<close>

section \<open>Entries\<close>

record log_entry =
  le_sequence :: nat
  le_timestamp :: string
  le_level :: string
  le_event :: string
  le_message :: string
  le_request_id :: string
  le_client_ip :: string
  le_method :: string
  le_host :: string
  le_path :: string
  le_query :: string
  le_route :: string
  le_status :: int
  le_status_class :: string
  le_bytes_in :: "64 word"
  le_bytes_out :: "64 word"
  le_duration_ms :: real
  le_cache_status :: string
  le_upstream :: string
  le_upstream_status :: int
  le_upstream_duration_ms :: real
  le_upstream_calls :: "64 word"
  le_attempt :: int
  le_retries :: "64 word"
  le_retry :: bool
  le_proxy_error :: bool
  le_timeout :: bool
  le_canceled :: bool
  le_healthy :: "bool option"
  le_error :: string
  le_user_agent :: string
  le_tags :: "string list"

record log_filter =
  lf_route :: string
  lf_client_ip :: string
  lf_upstream :: string
  lf_request_id :: string
  lf_method :: string
  lf_event :: string
  lf_level :: string
  lf_cache_status :: string
  lf_status :: int
  lf_status_class :: string
  lf_min_duration_ms :: real
  lf_since :: time
  lf_until :: time
  lf_before_sequence :: nat
  lf_search :: string
  lf_limit :: int

definition status_class :: "int \<Rightarrow> string" where
  "status_class status =
     (if status < 100 \<or> status > 599 then [] else [char_of (48 + status div 100)] @ ''xx'')"

fun dedup_tags :: "string list \<Rightarrow> string list \<Rightarrow> string list" where
  "dedup_tags seen [] = []"
| "dedup_tags seen (raw # rest) =
     (let tag = truncate_text (to_lower (trim_space raw)) 64 in
      if tag = [] then dedup_tags seen rest
      else if tag \<in> set seen then dedup_tags seen rest
      else tag # dedup_tags (tag # seen) rest)"

definition normalize_tags :: "string list \<Rightarrow> string list" where
  "normalize_tags tags = (if tags = [] then tags else sort (dedup_tags [] (take 32 tags)))"

text \<open>\<open>parse_time\<close> is \<^verbatim>\<open>time.Parse(RFC3339Nano)\<close>, \<open>now_text\<close> the formatted current time.\<close>

definition normalize_entry :: "(string \<Rightarrow> time option) \<Rightarrow> string \<Rightarrow> log_entry \<Rightarrow> log_entry" where
  "normalize_entry parse_time now_text e =
     (let ts = truncate_text (trim_space (le_timestamp e)) 64;
          lv = truncate_text (to_upper (trim_space (le_level e))) 16;
          status = (if le_status e = 0 then le_upstream_status e else le_status e)
      in e\<lparr>le_timestamp := (if parse_time ts = None then now_text else ts),
           le_level := (if lv = [] then ''INFO'' else lv),
           le_event := truncate_text (trim_space (le_event e)) 128,
           le_message := truncate_text (trim_space (le_message e)) 2048,
           le_request_id := truncate_text (trim_space (le_request_id e)) 256,
           le_client_ip := truncate_text (trim_space (le_client_ip e)) 256,
           le_method := truncate_text (to_upper (trim_space (le_method e))) 32,
           le_host := truncate_text (trim_space (le_host e)) 512,
           le_path := truncate_text (trim_space (le_path e)) 2048,
           le_query := truncate_text (trim_space (le_query e)) 2048,
           le_route := truncate_text (trim_space (le_route e)) 256,
           le_cache_status := truncate_text (to_upper (trim_space (le_cache_status e))) 32,
           le_upstream := truncate_text (trim_space (le_upstream e)) 2048,
           le_error := truncate_text (trim_space (le_error e)) 2048,
           le_user_agent := truncate_text (trim_space (le_user_agent e)) 512,
           le_status_class := status_class status,
           le_duration_ms := (if le_duration_ms e < 0 then 0 else le_duration_ms e),
           le_upstream_duration_ms :=
             (if le_upstream_duration_ms e < 0 then 0 else le_upstream_duration_ms e),
           le_tags := normalize_tags (le_tags e)\<rparr>)"

definition entry_matches ::
  "(string \<Rightarrow> time option) \<Rightarrow> log_entry \<Rightarrow> log_filter \<Rightarrow> string \<Rightarrow> string \<Rightarrow> bool" where
  "entry_matches parse_time e f search_lower class_lower \<longleftrightarrow>
     \<not> (lf_route f \<noteq> [] \<and> \<not> equal_fold (le_route e) (lf_route f))
     \<and> \<not> (lf_client_ip f \<noteq> [] \<and> \<not> equal_fold (le_client_ip e) (lf_client_ip f))
     \<and> \<not> (lf_upstream f \<noteq> [] \<and> le_upstream e \<noteq> lf_upstream f)
     \<and> \<not> (lf_request_id f \<noteq> [] \<and> le_request_id e \<noteq> lf_request_id f)
     \<and> \<not> (lf_method f \<noteq> [] \<and> \<not> equal_fold (le_method e) (lf_method f))
     \<and> \<not> (lf_event f \<noteq> [] \<and> \<not> equal_fold (le_event e) (lf_event f))
     \<and> \<not> (lf_level f \<noteq> [] \<and> \<not> equal_fold (le_level e) (lf_level f))
     \<and> \<not> (lf_cache_status f \<noteq> [] \<and> \<not> equal_fold (le_cache_status e) (lf_cache_status f))
     \<and> \<not> (lf_status f > 0 \<and> le_status e \<noteq> lf_status f \<and> le_upstream_status e \<noteq> lf_status f)
     \<and> \<not> (class_lower \<noteq> [] \<and> le_status_class e \<noteq> class_lower
          \<and> status_class (le_upstream_status e) \<noteq> class_lower)
     \<and> \<not> (lf_min_duration_ms f > 0 \<and> le_duration_ms e < lf_min_duration_ms f
          \<and> le_upstream_duration_ms e < lf_min_duration_ms f)
     \<and> (case parse_time (le_timestamp e) of
          None \<Rightarrow> True
        | Some t \<Rightarrow> \<not> (lf_since f \<noteq> 0 \<and> t < lf_since f) \<and> \<not> (lf_until f \<noteq> 0 \<and> t > lf_until f))
     \<and> \<not> (search_lower \<noteq> [] \<and> \<not> contains_str (to_lower (join_with '' ''
            [le_event e, le_message e, le_request_id e, le_client_ip e, le_method e, le_host e,
             le_path e, le_query e, le_route e, le_cache_status e, le_upstream e, le_error e,
             le_user_agent e])) search_lower)"

datatype filter_value = FStr string | FInt int | FReal real | FTime time | FSeq nat

definition applied_filters :: "log_filter \<Rightarrow> (string, filter_value) gomap" where
  "applied_filters f =
     (''limit'', FInt (lf_limit f))
     # (if lf_route f \<noteq> [] then [(''route'', FStr (lf_route f))] else [])
     @ (if lf_client_ip f \<noteq> [] then [(''client_ip'', FStr (lf_client_ip f))] else [])
     @ (if lf_upstream f \<noteq> [] then [(''upstream'', FStr (lf_upstream f))] else [])
     @ (if lf_request_id f \<noteq> [] then [(''request_id'', FStr (lf_request_id f))] else [])
     @ (if lf_method f \<noteq> [] then [(''method'', FStr (to_upper (lf_method f)))] else [])
     @ (if lf_event f \<noteq> [] then [(''event'', FStr (lf_event f))] else [])
     @ (if lf_level f \<noteq> [] then [(''level'', FStr (to_upper (lf_level f)))] else [])
     @ (if lf_cache_status f \<noteq> [] then [(''cache'', FStr (to_upper (lf_cache_status f)))] else [])
     @ (if lf_status f > 0 then [(''status'', FInt (lf_status f))] else [])
     @ (if lf_status_class f \<noteq> [] then [(''status_class'', FStr (to_lower (lf_status_class f)))] else [])
     @ (if lf_min_duration_ms f > 0 then [(''min_duration_ms'', FReal (lf_min_duration_ms f))] else [])
     @ (if lf_since f \<noteq> 0 then [(''since'', FTime (lf_since f))] else [])
     @ (if lf_until f \<noteq> 0 then [(''until'', FTime (lf_until f))] else [])
     @ (if lf_before_sequence f > 0 then [(''before_sequence'', FSeq (lf_before_sequence f))] else [])
     @ (if lf_search f \<noteq> [] then [(''q'', FStr (lf_search f))] else [])"

section \<open>The ring buffer\<close>

definition zero_log_entry :: log_entry where
  "zero_log_entry = \<lparr>le_sequence = 0, le_timestamp = [], le_level = [], le_event = [], le_message = [],
     le_request_id = [], le_client_ip = [], le_method = [], le_host = [], le_path = [], le_query = [],
     le_route = [], le_status = 0, le_status_class = [], le_bytes_in = 0, le_bytes_out = 0,
     le_duration_ms = 0, le_cache_status = [], le_upstream = [], le_upstream_status = 0,
     le_upstream_duration_ms = 0, le_upstream_calls = 0, le_attempt = 0, le_retries = 0,
     le_retry = False, le_proxy_error = False, le_timeout = False, le_canceled = False,
     le_healthy = None, le_error = [], le_user_agent = [], le_tags = []\<rparr>"

record log_store =
  ls_entries :: "log_entry list"
  ls_capacity :: nat
  ls_head :: nat
  ls_count :: nat
  ls_next_seq :: nat
  ls_dropped :: nat

definition new_store :: "int \<Rightarrow> log_store" where
  "new_store capacity =
     (let c = (if capacity \<le> 0 then 1 else nat capacity)
      in \<lparr>ls_entries = replicate c zero_log_entry, ls_capacity = c, ls_head = 0, ls_count = 0,
          ls_next_seq = 1, ls_dropped = 0\<rparr>)"

definition log_append ::
  "(string \<Rightarrow> time option) \<Rightarrow> string \<Rightarrow> log_entry \<Rightarrow> log_store \<Rightarrow> log_entry \<times> log_store" where
  "log_append parse_time now_text entry s =
     (let e = (normalize_entry parse_time now_text entry)\<lparr>le_sequence := ls_next_seq s\<rparr>;
          s1 = s\<lparr>ls_next_seq := Suc (ls_next_seq s)\<rparr>
      in if ls_count s < ls_capacity s then
           (e, s1\<lparr>ls_entries := (ls_entries s)[(ls_head s + ls_count s) mod ls_capacity s := e],
                  ls_count := Suc (ls_count s)\<rparr>)
         else
           (e, s1\<lparr>ls_entries := (ls_entries s)[ls_head s := e],
                  ls_head := (ls_head s + 1) mod ls_capacity s,
                  ls_dropped := Suc (ls_dropped s)\<rparr>))"

record query_result =
  qr_capacity :: nat
  qr_retained :: nat
  qr_dropped :: nat
  qr_oldest :: nat
  qr_newest :: nat
  qr_returned :: nat
  qr_has_more :: bool
  qr_next_before :: nat
  qr_applied :: "(string, filter_value) gomap"
  qr_entries :: "log_entry list"

definition query_selects :: "(string \<Rightarrow> time option) \<Rightarrow> log_filter \<Rightarrow> log_entry \<Rightarrow> bool" where
  "query_selects parse_time f e \<longleftrightarrow>
     \<not> (lf_before_sequence f > 0 \<and> le_sequence e \<ge> lf_before_sequence f) \<and>
     entry_matches parse_time e f (to_lower (trim_space (lf_search f)))
       (to_lower (trim_space (lf_status_class f)))"

definition log_query :: "(string \<Rightarrow> time option) \<Rightarrow> log_filter \<Rightarrow> log_store \<Rightarrow> query_result" where
  "log_query parse_time filter0 s =
     (let f = (if lf_limit filter0 \<le> 0 then filter0\<lparr>lf_limit := 100\<rparr> else filter0);
          r = ring_scan (query_selects parse_time f) (ls_capacity s) (ls_entries s) (ls_head s)
                (nat (lf_limit f)) (ls_count s) []
      in \<lparr>qr_capacity = ls_capacity s, qr_retained = ls_count s, qr_dropped = ls_dropped s,
          qr_oldest = (if ls_count s > 0 then le_sequence (ls_entries s ! ls_head s) else 0),
          qr_newest = (if ls_count s > 0
             then le_sequence (ls_entries s ! ((ls_head s + ls_count s - 1) mod ls_capacity s)) else 0),
          qr_returned = length (fst r), qr_has_more = snd r,
          qr_next_before = (if snd r \<and> length (fst r) > 0
             then le_sequence (fst r ! (length (fst r) - 1)) else 0),
          qr_applied = applied_filters f, qr_entries = fst r\<rparr>)"

definition log_clear :: "log_store \<Rightarrow> nat \<times> log_store" where
  "log_clear s =
     (ls_count s, s\<lparr>ls_entries := replicate (length (ls_entries s)) zero_log_entry, ls_head := 0,
                    ls_count := 0\<rparr>)"

record log_stats =
  lt_enabled :: bool
  lt_capacity :: nat
  lt_retained :: nat
  lt_dropped :: nat
  lt_oldest :: nat
  lt_newest :: nat

definition log_stats_of :: "log_store option \<Rightarrow> log_stats" where
  "log_stats_of store =
     (case store of
        None \<Rightarrow> \<lparr>lt_enabled = False, lt_capacity = 0, lt_retained = 0, lt_dropped = 0, lt_oldest = 0,
                 lt_newest = 0\<rparr>
      | Some s \<Rightarrow>
          \<lparr>lt_enabled = True, lt_capacity = ls_capacity s, lt_retained = ls_count s,
           lt_dropped = ls_dropped s,
           lt_oldest = (if ls_count s > 0 then le_sequence (ls_entries s ! ls_head s) else 0),
           lt_newest = (if ls_count s > 0
             then le_sequence (ls_entries s ! ((ls_head s + ls_count s - 1) mod ls_capacity s)) else 0)\<rparr>)"

section \<open>Invariant and view\<close>

definition log_view :: "log_store \<Rightarrow> log_entry list" where
  "log_view s = ring_view (ls_capacity s) (ls_entries s) (ls_head s) (ls_count s)"

definition log_inv :: "log_store \<Rightarrow> bool" where
  "log_inv s \<longleftrightarrow> 0 < ls_capacity s \<and> length (ls_entries s) = ls_capacity s \<and> ls_head s < ls_capacity s \<and>
     ls_count s \<le> ls_capacity s \<and> ls_count s < ls_next_seq s \<and>
     map le_sequence (log_view s) = [ls_next_seq s - ls_count s..<ls_next_seq s]"

lemma length_log_view [simp]: "length (log_view s) = ls_count s"
  by (simp add: log_view_def)

lemma new_store_inv: "log_inv (new_store c)" "log_view (new_store c) = []"
  by (simp_all add: log_inv_def new_store_def log_view_def Let_def)

lemma log_append_view:
  assumes inv: "log_inv s"
    and a: "log_append parse_time now_text entry s = (e, s')"
  shows "log_view s' = (if ls_count s < ls_capacity s then log_view s else tl (log_view s)) @ [e]"
    "ls_capacity s' = ls_capacity s" "ls_next_seq s' = Suc (ls_next_seq s)"
    "ls_count s' = min (Suc (ls_count s)) (ls_capacity s)"
    "ls_dropped s' = ls_dropped s + (if ls_count s < ls_capacity s then 0 else 1)"
    "length (ls_entries s') = ls_capacity s'" "ls_head s' < ls_capacity s'"
    "e = (normalize_entry parse_time now_text entry)\<lparr>le_sequence := ls_next_seq s\<rparr>"
proof -
  have c: "0 < ls_capacity s" "length (ls_entries s) = ls_capacity s" "ls_head s < ls_capacity s"
    "ls_count s \<le> ls_capacity s" using inv by (simp_all add: log_inv_def)
  show "ls_capacity s' = ls_capacity s" "ls_next_seq s' = Suc (ls_next_seq s)"
    "ls_count s' = min (Suc (ls_count s)) (ls_capacity s)"
    "ls_dropped s' = ls_dropped s + (if ls_count s < ls_capacity s then 0 else 1)"
    "length (ls_entries s') = ls_capacity s'" "ls_head s' < ls_capacity s'"
    "e = (normalize_entry parse_time now_text entry)\<lparr>le_sequence := ls_next_seq s\<rparr>"
    using a c by (auto simp: log_append_def Let_def split: if_splits)
  have full: "\<not> ls_count s < ls_capacity s \<Longrightarrow> ls_count s = ls_capacity s" using c by simp
  show "log_view s' = (if ls_count s < ls_capacity s then log_view s else tl (log_view s)) @ [e]"
    using a c full ring_push_free [of "ls_count s" "ls_capacity s" "ls_entries s" "ls_head s" e]
      ring_push_full [of "ls_head s" "ls_capacity s" "ls_entries s" e]
    by (auto simp: log_append_def log_view_def Let_def split: if_splits)
qed

lemma log_append_inv:
  assumes inv: "log_inv s" and a: "log_append parse_time now_text entry s = (e, s')"
  shows "log_inv s'"
proof -
  note v = log_append_view [OF inv a]
  have c: "0 < ls_capacity s" "ls_count s \<le> ls_capacity s" "ls_count s < ls_next_seq s"
    and m: "map le_sequence (log_view s) = [ls_next_seq s - ls_count s..<ls_next_seq s]"
    using inv by (simp_all add: log_inv_def)
  have "map le_sequence (log_view s') = [ls_next_seq s' - ls_count s'..<ls_next_seq s']"
  proof (cases "ls_count s < ls_capacity s")
    case True
    with m c show ?thesis by (simp add: v(1,3,4,8))
  next
    case False
    then have "ls_count s = ls_capacity s" using c by simp
    moreover have "map le_sequence (tl (log_view s)) = [Suc (ls_next_seq s - ls_count s)..<ls_next_seq s]"
      using m by (simp add: map_tl)
    ultimately show ?thesis using c by (simp add: v(1,3,4,8) Suc_diff_le)
  qed
  with v c show ?thesis by (auto simp: log_inv_def)
qed

subsection \<open>Queries on the view\<close>

lemma entry_matches_cursor:
  "entry_matches pt e (f\<lparr>lf_limit := l\<rparr>) sl cl = entry_matches pt e f sl cl"
  "entry_matches pt e (f\<lparr>lf_before_sequence := b\<rparr>) sl cl = entry_matches pt e f sl cl"
  by (cases f, simp only: entry_matches_def log_filter.simps)+

lemma query_selects_limit [simp]: "query_selects pt (f\<lparr>lf_limit := l\<rparr>) = query_selects pt f"
  by (rule ext) (simp add: query_selects_def entry_matches_cursor)

definition page_size :: "log_filter \<Rightarrow> nat" where
  "page_size f = (if lf_limit f \<le> 0 then 100 else nat (lf_limit f))"

lemma log_query_view:
  fixes pt f s
  defines "ms \<equiv> filter (query_selects pt f) (rev (log_view s))"
  shows "qr_entries (log_query pt f s) = take (page_size f) ms"
    "qr_has_more (log_query pt f s) \<longleftrightarrow> length ms > page_size f"
    "qr_has_more (log_query pt f s) \<Longrightarrow> qr_next_before (log_query pt f s) = le_sequence (ms ! (page_size f - 1))"
proof -
  have q: "ring_scan (query_selects pt f) (ls_capacity s) (ls_entries s) (ls_head s) (page_size f) (ls_count s) [] =
      (take (page_size f) ms, length ms > page_size f)"
    unfolding ms_def log_view_def by (rule ring_scan_all)
  have pos: "0 < page_size f" by (auto simp: page_size_def)
  show "qr_entries (log_query pt f s) = take (page_size f) ms"
    "qr_has_more (log_query pt f s) \<longleftrightarrow> length ms > page_size f"
    using q by (auto simp: log_query_def Let_def page_size_def)
  show "qr_next_before (log_query pt f s) = le_sequence (ms ! (page_size f - 1))"
    if "qr_has_more (log_query pt f s)"
    using q that pos by (auto simp: log_query_def Let_def page_size_def)
qed

lemma view_descending:
  assumes "log_inv s"
  shows "sorted_wrt (\<lambda>x y. le_sequence x > le_sequence y) (rev (log_view s))"
    "\<And>e. e \<in> set (log_view s) \<Longrightarrow> 0 < le_sequence e"
proof -
  have m: "map le_sequence (log_view s) = [ls_next_seq s - ls_count s..<ls_next_seq s]" "ls_count s < ls_next_seq s"
    using assms by (simp_all add: log_inv_def)
  have "sorted_wrt (<) (map le_sequence (log_view s))" unfolding m by (simp add: sorted_wrt_upt)
  then show "sorted_wrt (\<lambda>x y. le_sequence x > le_sequence y) (rev (log_view s))"
    by (simp add: sorted_wrt_rev sorted_wrt_map)
  show "0 < le_sequence e" if "e \<in> set (log_view s)" for e
  proof -
    have "le_sequence e \<in> set [ls_next_seq s - ls_count s..<ls_next_seq s]"
      unfolding m(1) [symmetric] using that by simp
    then have "ls_next_seq s - ls_count s \<le> le_sequence e" by simp
    then show ?thesis using m(2) by linarith
  qed
qed

text \<open>A client that pages: it repeats the query with the returned cursor while more is announced.\<close>

fun query_all :: "nat \<Rightarrow> (string \<Rightarrow> time option) \<Rightarrow> log_filter \<Rightarrow> log_store \<Rightarrow> log_entry list" where
  "query_all 0 pt f s = []"
| "query_all (Suc fuel) pt f s =
     (let r = log_query pt f s in
      qr_entries r @ (if qr_has_more r
        then query_all fuel pt (f\<lparr>lf_before_sequence := qr_next_before r\<rparr>) s else []))"

lemma next_page:
  fixes pt f s
  defines "ms \<equiv> filter (query_selects pt f) (rev (log_view s))"
  assumes "log_inv s" "page_size f < length ms"
  shows "filter (query_selects pt (f\<lparr>lf_before_sequence := le_sequence (ms ! (page_size f - 1))\<rparr>)) (rev (log_view s))
    = drop (page_size f) ms"
proof -
  define e where "e = ms ! (page_size f - 1)"
  have pos: "0 < page_size f" by (auto simp: page_size_def)
  have "e \<in> set ms" unfolding e_def using assms(3) pos by (intro nth_mem) simp
  then have sel: "query_selects pt f e" and "0 < le_sequence e"
    using view_descending(2) [OF assms(2)] by (auto simp: ms_def)
  then have "query_selects pt (f\<lparr>lf_before_sequence := le_sequence e\<rparr>) x \<longleftrightarrow>
      query_selects pt f x \<and> le_sequence x < le_sequence e" for x
    by (auto simp: query_selects_def entry_matches_cursor)
  then have "filter (query_selects pt (f\<lparr>lf_before_sequence := le_sequence e\<rparr>)) (rev (log_view s)) =
      filter (\<lambda>x. le_sequence x < le_sequence e) ms"
    by (auto simp: ms_def intro!: filter_cong)
  also have "\<dots> = drop (Suc (page_size f - 1)) ms"
    unfolding e_def using view_descending(1) [OF assms(2)] assms(3) unfolding ms_def
    by (intro filter_below_nth) (auto intro: sorted_wrt_filter)
  finally show ?thesis using pos by (simp add: e_def)
qed

lemma query_all_complete:
  "log_inv s \<Longrightarrow> length (filter (query_selects pt f) (rev (log_view s))) < fuel \<Longrightarrow>
     query_all fuel pt f s = filter (query_selects pt f) (rev (log_view s))"
proof (induction fuel arbitrary: f)
  case (Suc fuel)
  let ?ms = "filter (query_selects pt f) (rev (log_view s))"
  show ?case
  proof (cases "qr_has_more (log_query pt f s)")
    case True
    let ?f = "f\<lparr>lf_before_sequence := qr_next_before (log_query pt f s)\<rparr>"
    have n: "page_size f < length ?ms" "0 < page_size f"
      using True log_query_view(2) [of pt f s] by (auto simp: page_size_def)
    have d: "filter (query_selects pt ?f) (rev (log_view s)) = drop (page_size f) ?ms"
      using next_page [OF Suc.prems(1) n(1)] log_query_view(3) [OF True] by simp
    then have "length (filter (query_selects pt ?f) (rev (log_view s))) < fuel"
      using n Suc.prems(2) by simp
    from Suc.IH [OF Suc.prems(1) this] True show ?thesis
      using log_query_view(1) [of pt f s] d by (simp add: Let_def)
  next
    case False
    then show ?thesis using log_query_view(1,2) [of pt f s] by (simp add: Let_def)
  qed
qed simp

section \<open>Properties\<close>

definition append_all ::
  "(string \<Rightarrow> time option) \<Rightarrow> (string \<times> log_entry) list \<Rightarrow> log_store \<Rightarrow> log_store" where
  "append_all pt events s = foldl (\<lambda>s ev. snd (log_append pt (fst ev) (snd ev) s)) s events"

definition numbered :: "(string \<Rightarrow> time option) \<Rightarrow> (string \<times> log_entry) list \<Rightarrow> log_entry list" where
  "numbered pt events =
     map (\<lambda>i. (normalize_entry pt (fst (events ! i)) (snd (events ! i)))\<lparr>le_sequence := Suc i\<rparr>)
       [0..<length events]"

interpretation alog: bounded_log "\<lambda>ev s. snd (log_append pt (fst ev) (snd ev) s)" log_view
    "\<lambda>ev n. (normalize_entry pt (fst ev) (snd ev))\<lparr>le_sequence := n\<rparr>" ls_capacity ls_next_seq log_inv for pt
proof unfold_locales
  fix s :: log_store and ev :: "string \<times> log_entry"
  assume inv: "log_inv s"
  obtain e s' where a: "log_append pt (fst ev) (snd ev) s = (e, s')" by fastforce
  note v = log_append_view [OF inv a]
  show "log_inv (snd (log_append pt (fst ev) (snd ev) s))" using log_append_inv [OF inv a] a by simp
  show "log_view (snd (log_append pt (fst ev) (snd ev) s)) =
      (if length (log_view s) < ls_capacity s then log_view s else tl (log_view s)) @
      [(normalize_entry pt (fst ev) (snd ev))\<lparr>le_sequence := ls_next_seq s\<rparr>]"
    "ls_capacity (snd (log_append pt (fst ev) (snd ev) s)) = ls_capacity s"
    "ls_next_seq (snd (log_append pt (fst ev) (snd ev) s)) = Suc (ls_next_seq s)"
    using v(1,2,3,8) a by simp_all
qed (simp_all add: log_inv_def)

lemma numbered_made: "numbered pt events = alog.made_from pt 1 events"
  by (intro nth_equalityI) (simp_all add: numbered_def alog.made_from_nth)

lemma append_all_dropped:
  "log_inv s \<Longrightarrow> ls_dropped (append_all pt events s) + ls_count (append_all pt events s) =
     ls_dropped s + ls_count s + length events"
proof (induction events arbitrary: s)
  case (Cons ev events)
  obtain e s' where a: "log_append pt (fst ev) (snd ev) s = (e, s')" by fastforce
  note v = log_append_view [OF Cons.prems a]
  have "ls_dropped s' + ls_count s' = Suc (ls_dropped s + ls_count s)"
    using v(4,5) Cons.prems by (auto simp: log_inv_def)
  then show ?case using Cons.IH [OF log_append_inv [OF Cons.prems a]] a by (simp add: append_all_def)
qed (simp add: append_all_def)

lemma append_all_view:
  defines "cap \<equiv> \<lambda>c. if c \<le> 0 then 1 else nat c"
  shows "log_inv (append_all pt events (new_store c)) \<and>
    ls_capacity (append_all pt events (new_store c)) = cap c \<and>
    ls_next_seq (append_all pt events (new_store c)) = Suc (length events) \<and>
    ls_count (append_all pt events (new_store c)) = min (length events) (cap c) \<and>
    ls_dropped (append_all pt events (new_store c)) = length events - cap c \<and>
    log_view (append_all pt events (new_store c)) = drop (length events - cap c) (numbered pt events)"
proof -
  let ?s = "append_all pt events (new_store c)"
  have s0: "ls_capacity (new_store c) = cap c" "ls_next_seq (new_store c) = 1" "ls_count (new_store c) = 0"
    "ls_dropped (new_store c) = 0" by (simp_all add: new_store_def cap_def Let_def)
  have all: "log_inv ?s \<and> ls_capacity ?s = cap c \<and> ls_next_seq ?s = Suc (length events) \<and>
      log_view ?s = drop (length events - cap c) (numbered pt events)"
    using alog.push_all [OF new_store_inv(1) [of c], of pt events] s0 new_store_inv(2) [of c]
    by (simp add: append_all_def numbered_made)
  then have "length (log_view ?s) = length (drop (length events - cap c) (numbered pt events))" by simp
  then have "ls_count ?s = min (length events) (cap c)" by (simp add: numbered_made min_def)
  moreover from this have "ls_dropped ?s = length events - cap c"
    using append_all_dropped [OF new_store_inv(1) [of c], of pt events] s0 by (simp add: min_def split: if_splits)
  ultimately show ?thesis using all by simp
qed

text \<open>
  The access log is the last events: whatever is appended to a store of a given capacity
  (at least one), the store holds exactly the newest events up to its capacity, in order,
  normalised and numbered consecutively from 1, and counts the ones it dropped.
\<close>

lemma log_keeps_newest:
  "log_view (append_all pt events (new_store c)) =
     drop (length events - (if c \<le> 0 then 1 else nat c)) (numbered pt events) \<and>
   ls_dropped (append_all pt events (new_store c)) = length events - (if c \<le> 0 then 1 else nat c) \<and>
   ls_count (append_all pt events (new_store c)) = min (length events) (if c \<le> 0 then 1 else nat c) \<and>
   map le_sequence (numbered pt events) = [1..<Suc (length events)]"
proof -
  have "map le_sequence (numbered pt events) = [1..<Suc (length events)]"
    by (simp add: numbered_def comp_def map_Suc_upt)
  then show ?thesis using append_all_view [of pt events c] by simp
qed

text \<open>
  Cursor pagination is exact: a client that repeats a query with the returned
  \<^verbatim>\<open>next_before_sequence\<close> while \<^verbatim>\<open>has_more\<close> is set receives, page by page, every
  retained entry that matches the filter, newest first, none twice and none missing,
  and stops after at most as many queries as there are retained entries plus one.
\<close>

theorem log_pagination_complete:
  assumes "s = append_all pt events (new_store c)" "ls_count s < fuel"
  shows "query_all fuel pt f s = filter (query_selects pt f) (rev (log_view s)) \<and>
    distinct (map le_sequence (query_all fuel pt f s))"
proof -
  have inv: "log_inv s" using append_all_view [of pt events c] assms(1) by simp
  have "length (filter (query_selects pt f) (rev (log_view s))) \<le> ls_count s"
    using length_filter_le [of "query_selects pt f" "rev (log_view s)"] by simp
  with query_all_complete [OF inv] assms(2)
  have all: "query_all fuel pt f s = filter (query_selects pt f) (rev (log_view s))" by simp
  have "distinct (map le_sequence (log_view s))" using inv by (simp add: log_inv_def)
  then have "distinct (map le_sequence (filter (query_selects pt f) (rev (log_view s))))"
    by (simp add: distinct_map_filter rev_map [symmetric])
  with all show ?thesis by simp
qed

definition demo_filter :: log_filter where
  "demo_filter = \<lparr>lf_route = [], lf_client_ip = [], lf_upstream = [], lf_request_id = [],
     lf_method = ''get'', lf_event = [], lf_level = [], lf_cache_status = [], lf_status = 0,
     lf_status_class = [], lf_min_duration_ms = 0, lf_since = 0, lf_until = 0,
     lf_before_sequence = 0, lf_search = [], lf_limit = 1\<rparr>"

theorem log_pagination_complete_witness:
  "let s = append_all (\<lambda>_. None) (map (\<lambda>m. ([], zero_log_entry\<lparr>le_method := m\<rparr>)) [''get'', ''put'', ''GET''])
       (new_store 5)
   in query_all 6 (\<lambda>_. None) demo_filter s = filter (query_selects (\<lambda>_. None) demo_filter) (rev (log_view s))"
proof -
  let ?s = "append_all (\<lambda>_. None) (map (\<lambda>m. ([], zero_log_entry\<lparr>le_method := m\<rparr>)) [''get'', ''put'', ''GET''])
       (new_store 5)"
  have "ls_count ?s < 6"
    using append_all_view [of "\<lambda>_. None" "map (\<lambda>m. ([], zero_log_entry\<lparr>le_method := m\<rparr>)) [''get'', ''put'', ''GET'']" 5]
    by simp
  from log_pagination_complete [OF refl this] show ?thesis by simp
qed

end
