(* ===== verification/Rate_Limit.thy ===== *)
theory Rate_Limit
  imports Go_Prelude
begin

text \<open>
  The token-bucket limiter of the security gateway, the first half of
  \<^verbatim>\<open>apps/securityedge/internal/ratelimit/limiter.go\<close>: \<^verbatim>\<open>Allow\<close> with its two scopes, the
  shared \<^verbatim>\<open>allowLocked\<close>, one round of the \<^verbatim>\<open>cleanup\<close> goroutine and \<^verbatim>\<open>Size\<close>. The mutex makes
  every operation atomic, so a run of the limiter is a sequence of operations. Tokens and rates
  (\<^verbatim>\<open>float64\<close>) are exact reals; a wait of \<open>x / 0\<close> is \<^verbatim>\<open>+Inf\<close> in Go and is a branch of its
  own. The proofs use a potential: the number of tokens the bucket of a key would have at a given
  moment, a missing bucket counting as a full one.
\<close>

section \<open>Model\<close>

record rate_limit_config =
  rl_enabled :: bool
  rl_rate :: real
  rl_burst :: int
  rl_global_rate :: real
  rl_global_burst :: int
  rl_cleanup_interval :: duration
  rl_idle_ttl :: duration
  rl_max_buckets :: int

record bucket =
  bk_tokens :: real
  bk_last :: time
  bk_seen :: time

record decision =
  dc_allowed :: bool
  dc_retry :: duration
  dc_scope :: string
  dc_reason :: string

type_synonym buckets = "(string, bucket) gomap"

definition new_limiter :: buckets where "new_limiter = []"

text \<open>\<^verbatim>\<open>New\<close> replaces missing lifecycle settings by a minute and ten minutes.\<close>

definition limiter_settings :: "duration \<Rightarrow> duration \<Rightarrow> duration \<times> duration" where
  "limiter_settings cleanup_interval idle_ttl =
     (if cleanup_interval \<le> 0 then minute else cleanup_interval,
      if idle_ttl \<le> 0 then 10 * minute else idle_ttl)"

text \<open>\<^verbatim>\<open>Duration.Seconds\<close> of the time since the last refill, never negative.\<close>

definition elapsed_seconds :: "time \<Rightarrow> time \<Rightarrow> real" where
  "elapsed_seconds now prev =
     (let e = real_of_int (time_sub now prev) / real_of_int second in if e < 0 then 0 else e)"

definition refill :: "real \<Rightarrow> int \<Rightarrow> time \<Rightarrow> bucket \<Rightarrow> bucket" where
  "refill rate burst now b =
     (let t = bk_tokens b + elapsed_seconds now (bk_last b) * rate;
          t' = (if t > real_of_int burst then real_of_int burst else t)
      in \<lparr>bk_tokens = t', bk_last = now, bk_seen = now\<rparr>)"

text \<open>
  How long a rejected caller should wait. The missing tokens are positive here, so the quotient
  is \<^verbatim>\<open>+Inf\<close> for a zero rate and never \<^verbatim>\<open>NaN\<close>; \<^verbatim>\<open>time.Duration(x)\<close> drops the fraction.
\<close>

definition retry_after :: "real \<Rightarrow> real \<Rightarrow> duration" where
  "retry_after tokens rate =
     (let missing = 1 - tokens in
      if rate = 0 then max_int64
      else let wait = missing / rate in
        if wait \<le> 0 then millisecond
        else if wait \<ge> real_of_int max_int64 / real_of_int second then max_int64
        else let retry = \<lfloor>wait * real_of_int second\<rfloor>
             in if retry < millisecond then millisecond else retry)"

definition allow_locked ::
  "string \<Rightarrow> real \<Rightarrow> int \<Rightarrow> int \<Rightarrow> time \<Rightarrow> buckets \<Rightarrow> buckets \<times> bool \<times> duration \<times> string"
where
  "allow_locked key rate burst max_buckets now l =
     (case (case gm_get l key of
              Some b \<Rightarrow> Some b
            | None \<Rightarrow> if int (length l) \<ge> max_buckets then None
                      else Some \<lparr>bk_tokens = real_of_int burst, bk_last = now, bk_seen = now\<rparr>) of
        None \<Rightarrow> (l, False, second, ''bucket_capacity'')
      | Some b0 \<Rightarrow>
          let b = refill rate burst now b0 in
          if bk_tokens b \<ge> 1
          then (gm_put key (b\<lparr>bk_tokens := bk_tokens b - 1\<rparr>) l, True, 0, [])
          else (gm_put key b l, False, retry_after (bk_tokens b) rate, ''rate_exceeded''))"

definition global_key :: "string \<Rightarrow> string" where
  "global_key route = ''global|'' @ route"

definition client_key :: "string \<Rightarrow> string \<Rightarrow> string" where
  "client_key route client = ''client|'' @ route @ ''|'' @ client"

text \<open>The rollback of the global token when the client-level decision rejects.\<close>

definition refund_token :: "string \<Rightarrow> int \<Rightarrow> buckets \<Rightarrow> buckets" where
  "refund_token key burst l =
     (case gm_get l key of
        Some b \<Rightarrow> if bk_tokens b < real_of_int burst
                  then gm_put key (b\<lparr>bk_tokens := bk_tokens b + 1\<rparr>) l else l
      | None \<Rightarrow> l)"

definition allow ::
  "string \<Rightarrow> string \<Rightarrow> rate_limit_config \<Rightarrow> time \<Rightarrow> buckets \<Rightarrow> buckets \<times> decision" where
  "allow route client cfg now l =
     (if \<not> rl_enabled cfg
      then (l, \<lparr>dc_allowed = True, dc_retry = 0, dc_scope = [], dc_reason = []\<rparr>)
      else case allow_locked (global_key route) (rl_global_rate cfg) (rl_global_burst cfg)
                  (rl_max_buckets cfg) now l of
        (l1, ok1, retry1, reason1) \<Rightarrow>
          if \<not> ok1
          then (l1, \<lparr>dc_allowed = False, dc_retry = retry1, dc_scope = ''global'',
                     dc_reason = reason1\<rparr>)
          else (case allow_locked (client_key route client) (rl_rate cfg) (rl_burst cfg)
                       (rl_max_buckets cfg) now l1 of
            (l2, ok2, retry2, reason2) \<Rightarrow>
              if \<not> ok2
              then (refund_token (global_key route) (rl_global_burst cfg) l2,
                    \<lparr>dc_allowed = False, dc_retry = retry2, dc_scope = ''client'',
                     dc_reason = reason2\<rparr>)
              else (l2, \<lparr>dc_allowed = True, dc_retry = 0, dc_scope = [], dc_reason = []\<rparr>)))"

text \<open>One tick of the cleanup goroutine.\<close>

definition cleanup_tick :: "duration \<Rightarrow> time \<Rightarrow> buckets \<Rightarrow> buckets" where
  "cleanup_tick idle_ttl now l = gm_filter (\<lambda>key b. \<not> time_sub now (bk_seen b) > idle_ttl) l"

definition limiter_size :: "buckets \<Rightarrow> nat" where "limiter_size l = length l"

text \<open>Runs: requests of any route, client and policy, and cleanup ticks, in any order.\<close>

datatype rl_op = Rl_Allow string string rate_limit_config time | Rl_Cleanup duration time

fun rl_time :: "rl_op \<Rightarrow> time" where
  "rl_time (Rl_Allow _ _ _ now) = now"
| "rl_time (Rl_Cleanup _ now) = now"

fun rl_exec :: "rl_op \<Rightarrow> buckets \<Rightarrow> buckets \<times> bool" where
  "rl_exec (Rl_Allow r c cfg now) l = (case allow r c cfg now l of (l', d) \<Rightarrow> (l', dc_allowed d))"
| "rl_exec (Rl_Cleanup ttl now) l = (cleanup_tick ttl now l, False)"

text \<open>The number of admitted requests that satisfy \<open>P\<close> in a run.\<close>

fun counts :: "(string \<Rightarrow> string \<Rightarrow> bool) \<Rightarrow> rl_op \<Rightarrow> bool" where
  "counts P (Rl_Allow r c _ _) = P r c"
| "counts P (Rl_Cleanup _ _) = False"

fun admitted :: "(string \<Rightarrow> string \<Rightarrow> bool) \<Rightarrow> rl_op list \<Rightarrow> buckets \<Rightarrow> nat" where
  "admitted P [] l = 0"
| "admitted P (op # ops) l =
     (case rl_exec op l of (l', ok) \<Rightarrow> (if ok \<and> counts P op then 1 else 0) + admitted P ops l')"

fun rl_run :: "rl_op list \<Rightarrow> buckets \<Rightarrow> buckets" where
  "rl_run [] l = l"
| "rl_run (op # ops) l = rl_run ops (fst (rl_exec op l))"

section \<open>Keys\<close>

lemma keys_differ [simp]: "global_key r \<noteq> client_key r' c" "client_key r' c \<noteq> global_key r"
  by (simp_all add: global_key_def client_key_def)

lemma global_key_inj [simp]: "global_key r = global_key r' \<longleftrightarrow> r = r'"
  by (simp add: global_key_def)

text \<open>Clients without a bar (addresses never have one) and their routes are told apart.\<close>

lemma client_key_inj:
  assumes "client_key r c = client_key r' c'" "CHR ''|'' \<notin> set c" "CHR ''|'' \<notin> set c'"
  shows "r = r' \<and> c = c'"
proof -
  from assms(1) have "r @ CHR ''|'' # c = r' @ CHR ''|'' # c'" by (simp add: client_key_def)
  then have "rev (r @ CHR ''|'' # c) = rev (r' @ CHR ''|'' # c')" by (rule arg_cong)
  then have "rev c @ CHR ''|'' # rev r = rev c' @ CHR ''|'' # rev r'" by simp
  with assms(2,3) show ?thesis using append_sep_eq [of "rev c" "CHR ''|''" "rev r" "rev c'" "rev r'"]
    by auto
qed

section \<open>One bucket\<close>

lemma elapsed_nonneg: "0 \<le> elapsed_seconds now prev"
  by (simp add: elapsed_seconds_def Let_def)

lemma elapsed_le: "prev \<le> now \<Longrightarrow> elapsed_seconds now prev \<le> real_of_int (now - prev) / 10 ^ 9"
  using time_sub_le [of prev now]
  by (auto simp: elapsed_seconds_def Let_def second_def divide_right_mono)

lemma elapsed_ge:
  assumes "prev + d \<le> now" "0 \<le> d" "d \<le> max_int64"
  shows "real_of_int d / 10 ^ 9 \<le> elapsed_seconds now prev"
proof -
  have "d \<le> time_sub now prev"
    using assms by (auto simp: time_sub_def min_int64_def)
  then have "real_of_int d / 10 ^ 9 \<le> real_of_int (time_sub now prev) / 10 ^ 9"
    by (simp add: divide_right_mono)
  then show ?thesis by (simp add: elapsed_seconds_def Let_def second_def)
qed

text \<open>
  What the bucket of \<open>key\<close> would hold at \<open>now\<close>: the potential of the bound. A missing bucket
  counts as a full one, because the next request creates it full.
\<close>

definition level :: "real \<Rightarrow> int \<Rightarrow> string \<Rightarrow> time \<Rightarrow> buckets \<Rightarrow> real" where
  "level rate burst key now l =
     (case gm_get l key of
        None \<Rightarrow> real_of_int burst
      | Some b \<Rightarrow> min (real_of_int burst)
                    (bk_tokens b + rate * (real_of_int (now - bk_last b) / 10 ^ 9)))"

definition buckets_ok :: "time \<Rightarrow> buckets \<Rightarrow> bool" where
  "buckets_ok now l \<longleftrightarrow> gm_inv l \<and>
     (\<forall>k b. gm_get l k = Some b \<longrightarrow> bk_last b \<le> now \<and> bk_seen b = bk_last b)"

lemma level_le_burst: "level rate burst key now l \<le> real_of_int burst"
  by (simp add: level_def split: option.split)

lemma level_advance:
  assumes "0 \<le> rate" "t \<le> now"
  shows "level rate burst key now l \<le> level rate burst key t l + rate * (real_of_int (now - t) / 10 ^ 9)"
proof -
  have "0 \<le> rate * (real_of_int (now - t) / 10 ^ 9)" using assms by simp
  then show ?thesis
    by (auto simp: level_def min_def field_simps split: option.split)
qed

lemma allow_locked_cases:
  assumes "allow_locked key rate burst mx now l = (l', ok, retry, reason)"
  obtains (Full) "gm_get l key = None" "int (length l) \<ge> mx" "l' = l" "\<not> ok" "retry = second"
      "reason = ''bucket_capacity''"
  | (Taken) b0 b where "gm_get l key = Some b0 \<or>
        gm_get l key = None \<and> int (length l) < mx \<and>
        b0 = \<lparr>bk_tokens = real_of_int burst, bk_last = now, bk_seen = now\<rparr>"
      "b = refill rate burst now b0" "1 \<le> bk_tokens b" "ok" "retry = 0" "reason = []"
      "l' = gm_put key (b\<lparr>bk_tokens := bk_tokens b - 1\<rparr>) l"
  | (Refused) b0 b where "gm_get l key = Some b0 \<or>
        gm_get l key = None \<and> int (length l) < mx \<and>
        b0 = \<lparr>bk_tokens = real_of_int burst, bk_last = now, bk_seen = now\<rparr>"
      "b = refill rate burst now b0" "bk_tokens b < 1" "\<not> ok" "retry = retry_after (bk_tokens b) rate"
      "reason = ''rate_exceeded''" "l' = gm_put key b l"
  using assms
  by (cases "gm_get l key")
    (auto simp: allow_locked_def Let_def not_le split: if_splits)

text \<open>
  The heart of the bound: whatever \<open>allow_locked\<close> decides, an admission costs one token of
  the level of its key, and no other key's level changes.
\<close>

lemma refill_level:
  assumes "bk_last b \<le> now" "0 \<le> rate"
  shows "bk_tokens (refill rate burst now b)
    \<le> min (real_of_int burst) (bk_tokens b + rate * (real_of_int (now - bk_last b) / 10 ^ 9))"
proof -
  have "elapsed_seconds now (bk_last b) * rate \<le> rate * (real_of_int (now - bk_last b) / 10 ^ 9)"
    using elapsed_le [OF assms(1)] assms(2) by (metis mult.commute mult_left_mono)
  then show ?thesis by (auto simp: refill_def Let_def)
qed

lemma refill_fields [simp]:
  "bk_last (refill rate burst now b) = now" "bk_seen (refill rate burst now b) = now"
  by (simp_all add: refill_def Let_def)

lemma refill_le_burst: "bk_tokens (refill rate burst now b) \<le> real_of_int burst"
  by (simp add: refill_def Let_def)

lemma level_put:
  "level rate burst key now (gm_put k b l) =
     (if k = key then min (real_of_int burst)
        (bk_tokens b + rate * (real_of_int (now - bk_last b) / 10 ^ 9))
      else level rate burst key now l)"
  by (simp add: level_def gm_get_put)

lemma allow_locked_other:
  "allow_locked k rate burst mx now l = (l', r) \<Longrightarrow> k \<noteq> key \<Longrightarrow> gm_get l' key = gm_get l key"
  by (cases r) (auto elim!: allow_locked_cases simp: gm_get_put)

lemma allow_locked_level:
  assumes run: "allow_locked key rate burst mx now l = (l', ok, retry, reason)"
    and l: "buckets_ok now l" and rate: "0 \<le> rate"
  shows "level rate burst key now l' + (if ok then 1 else 0) \<le> level rate burst key now l"
    and "ok \<Longrightarrow> \<exists>b. gm_get l' key = Some b \<and> bk_tokens b \<le> real_of_int burst - 1"
proof -
  have start: "bk_tokens (refill rate burst now b0) \<le> level rate burst key now l"
    if "gm_get l key = Some b0 \<or> gm_get l key = None \<and> int (length l) < mx \<and>
        b0 = \<lparr>bk_tokens = real_of_int burst, bk_last = now, bk_seen = now\<rparr>" for b0
    using that refill_level [OF _ rate, of b0 now burst] l refill_le_burst [of rate burst now b0]
    by (auto simp: level_def buckets_ok_def)
  from run show "level rate burst key now l' + (if ok then 1 else 0) \<le> level rate burst key now l"
    by (cases rule: allow_locked_cases) (auto simp: level_put dest!: start)
  from run show "\<exists>b. gm_get l' key = Some b \<and> bk_tokens b \<le> real_of_int burst - 1" if "ok"
    using that by (cases rule: allow_locked_cases) (auto simp: gm_get_put refill_le_burst)
qed

lemma allow_locked_ok:
  assumes "allow_locked k rate burst mx now l = (l', ok, retry, reason)" "buckets_ok now l"
  shows "buckets_ok now l'"
  using assms(1)
  by (cases rule: allow_locked_cases)
    (use assms(2) in \<open>auto simp: buckets_ok_def gm_get_put split: if_splits\<close>)

lemma refund_ok: "buckets_ok now l \<Longrightarrow> buckets_ok now (refund_token k burst l)"
  by (auto simp: refund_token_def buckets_ok_def gm_get_put split: option.split)

lemma refund_other: "k \<noteq> key \<Longrightarrow> gm_get (refund_token k burst l) key = gm_get l key"
  by (auto simp: refund_token_def gm_get_put split: option.split)

lemma level_cong: "gm_get l' key = gm_get l key \<Longrightarrow> level rate burst key now l' = level rate burst key now l"
  by (simp add: level_def)

lemma refund_level:
  "level rate burst key now (refund_token key burst l) \<le> level rate burst key now l + 1"
  by (auto simp: refund_token_def level_def gm_get_put min_def field_simps split: option.split)

definition solvent :: "string \<Rightarrow> buckets \<Rightarrow> bool" where
  "solvent key l \<longleftrightarrow> (\<forall>b. gm_get l key = Some b \<longrightarrow> 0 \<le> bk_tokens b)"

lemma solvent_cong: "gm_get l' key = gm_get l key \<Longrightarrow> solvent key l' = solvent key l"
  by (simp add: solvent_def)

lemma allow_locked_solvent:
  assumes run: "allow_locked key rate burst mx now l = (l', ok, retry, reason)"
    and "solvent key l" "0 \<le> rate" "0 \<le> burst"
  shows "solvent key l'"
proof -
  have keep: "0 \<le> bk_tokens b0 \<Longrightarrow> 0 \<le> bk_tokens (refill rate burst now b0)" for b0
    using assms elapsed_nonneg by (simp add: refill_def Let_def)
  from run show ?thesis
    by (cases rule: allow_locked_cases) (use assms in \<open>auto simp: solvent_def gm_get_put intro!: keep\<close>)
qed

lemma refund_solvent: "solvent key l \<Longrightarrow> solvent key (refund_token k burst l)"
  by (auto simp: refund_token_def solvent_def gm_get_put split: option.split)

text \<open>A cleanup tick removes a bucket only when it would be full again.\<close>

lemma cleanup_level:
  assumes l: "buckets_ok now l" and s: "solvent key l" and "0 \<le> rate"
    and ttl: "real_of_int burst \<le> rate * (real_of_int ttl / 10 ^ 9)"
  shows "level rate burst key now (cleanup_tick ttl now l) = level rate burst key now l"
proof (cases "gm_get l key")
  case (Some b)
  show ?thesis
  proof (cases "time_sub now (bk_seen b) > ttl")
    case True
    then have "ttl \<le> now - bk_last b"
      using l Some time_sub_le [of "bk_seen b" now] by (auto simp: buckets_ok_def)
    then have "rate * (real_of_int ttl / 10 ^ 9) \<le> rate * (real_of_int (now - bk_last b) / 10 ^ 9)"
      using \<open>0 \<le> rate\<close> by (intro mult_left_mono divide_right_mono) (simp_all add: of_int_le_iff)
    with ttl s Some True l show ?thesis
      by (auto simp: level_def cleanup_tick_def gm_get_filter buckets_ok_def solvent_def)
  qed (use Some l in \<open>auto simp: level_def cleanup_tick_def gm_get_filter buckets_ok_def\<close>)
qed (use l in \<open>simp add: level_def cleanup_tick_def gm_get_filter buckets_ok_def\<close>)

lemma cleanup_ok: "buckets_ok now l \<Longrightarrow> buckets_ok now (cleanup_tick ttl now l)"
  by (auto simp: buckets_ok_def cleanup_tick_def gm_get_filter split: option.splits if_splits)

lemma cleanup_solvent: "gm_inv l \<Longrightarrow> solvent key l \<Longrightarrow> solvent key (cleanup_tick ttl now l)"
  by (auto simp: solvent_def cleanup_tick_def gm_get_filter split: option.splits if_splits)

section \<open>One request\<close>

lemma allow_cases:
  assumes "allow r c cfg now l = (l', d)"
  obtains (Off) "\<not> rl_enabled cfg" "l' = l" "dc_allowed d"
  | (Global) retry reason where "rl_enabled cfg" "allow_locked (global_key r) (rl_global_rate cfg)
        (rl_global_burst cfg) (rl_max_buckets cfg) now l = (l', False, retry, reason)"
      "d = \<lparr>dc_allowed = False, dc_retry = retry, dc_scope = ''global'', dc_reason = reason\<rparr>"
  | (Client) l1 l2 q1 r1 retry reason where "rl_enabled cfg"
      "allow_locked (global_key r) (rl_global_rate cfg)
        (rl_global_burst cfg) (rl_max_buckets cfg) now l = (l1, True, q1, r1)"
      "allow_locked (client_key r c) (rl_rate cfg) (rl_burst cfg) (rl_max_buckets cfg) now l1
         = (l2, False, retry, reason)"
      "l' = refund_token (global_key r) (rl_global_burst cfg) l2"
      "d = \<lparr>dc_allowed = False, dc_retry = retry, dc_scope = ''client'', dc_reason = reason\<rparr>"
  | (Passed) l1 q1 r1 q2 r2 where "rl_enabled cfg"
      "allow_locked (global_key r) (rl_global_rate cfg)
        (rl_global_burst cfg) (rl_max_buckets cfg) now l = (l1, True, q1, r1)"
      "allow_locked (client_key r c) (rl_rate cfg) (rl_burst cfg) (rl_max_buckets cfg) now l1
         = (l', True, q2, r2)"
      "dc_allowed d"
  using assms by (auto simp: allow_def split: if_splits prod.splits)

lemma allow_ok: "allow r c cfg now l = (l', d) \<Longrightarrow> buckets_ok now l \<Longrightarrow> buckets_ok now l'"
  by (erule allow_cases) (auto intro!: refund_ok dest: allow_locked_ok)

lemma allow_other:
  assumes "allow r c cfg now l = (l', d)" "key \<noteq> global_key r" "key \<noteq> client_key r c"
  shows "gm_get l' key = gm_get l key"
  using assms(1)
  by (cases rule: allow_cases) (use assms(2,3) in \<open>auto simp: refund_other dest!: allow_locked_other [where key = key]\<close>)

lemma allow_global_level:
  assumes run: "allow r c cfg now l = (l', d)" and l: "buckets_ok now l" and en: "rl_enabled cfg"
    and rate: "0 \<le> rl_global_rate cfg"
  shows "level (rl_global_rate cfg) (rl_global_burst cfg) (global_key r) now l'
           + (if dc_allowed d then 1 else 0)
         \<le> level (rl_global_rate cfg) (rl_global_burst cfg) (global_key r) now l"
  using run
proof (cases rule: allow_cases)
  case (Client l1 l2 q1 r1 retry reason)
  have "gm_get l2 (global_key r) = gm_get l1 (global_key r)"
    using allow_locked_other [OF Client(3)] by simp
  from level_cong [OF this] allow_locked_level(1) [OF Client(2) l rate]
    refund_level [of "rl_global_rate cfg" "rl_global_burst cfg" "global_key r" now l2]
  show ?thesis using Client(4,5) by simp
next
  case (Passed l1 q1 r1 q2 r2)
  have "gm_get l' (global_key r) = gm_get l1 (global_key r)"
    using allow_locked_other [OF Passed(3)] by simp
  from level_cong [OF this] allow_locked_level(1) [OF Passed(2) l rate] show ?thesis
    using Passed(4) by simp
qed (use en allow_locked_level(1) [OF _ l rate] in \<open>auto dest: allow_locked_level(1) [OF _ l rate]\<close>)

lemma allow_client_level:
  assumes run: "allow r c cfg now l = (l', d)" and l: "buckets_ok now l" and en: "rl_enabled cfg"
    and rate: "0 \<le> rl_rate cfg"
  shows "level (rl_rate cfg) (rl_burst cfg) (client_key r c) now l' + (if dc_allowed d then 1 else 0)
         \<le> level (rl_rate cfg) (rl_burst cfg) (client_key r c) now l"
proof -
  have l1: "buckets_ok now l1 \<and> gm_get l1 (client_key r c) = gm_get l (client_key r c)"
    if "allow_locked (global_key r) rt bu mx now l = (l1, x)" for l1 x rt bu mx
    using that allow_locked_ok [OF _ l] allow_locked_other [OF that] by (cases x) auto
  from run show ?thesis
  proof (cases rule: allow_cases)
    case (Client l1 l2 q1 r1 retry reason)
    have "gm_get l' (client_key r c) = gm_get l2 (client_key r c)"
      using Client(4) by (simp add: refund_other)
    from level_cong [OF this] level_cong [of l1] l1 [OF Client(2)]
      allow_locked_level(1) [OF Client(3) _ rate] show ?thesis using Client(5) by simp
  next
    case (Passed l1 q1 r1 q2 r2)
    from level_cong [of l1] l1 [OF Passed(2)] allow_locked_level(1) [OF Passed(3) _ rate]
    show ?thesis using Passed(4) by simp
  next
    case (Global retry reason)
    from level_cong [of l'] l1 [OF Global(2)] show ?thesis using Global(3) by simp
  qed (use en in auto)
qed

lemma allow_solvent:
  assumes run: "allow r c cfg now l = (l', d)" and s: "solvent key l"
    and g: "key = global_key r \<Longrightarrow> 0 \<le> rl_global_rate cfg \<and> 0 \<le> rl_global_burst cfg"
    and cl: "key = client_key r c \<Longrightarrow> 0 \<le> rl_rate cfg \<and> 0 \<le> rl_burst cfg"
  shows "solvent key l'"
proof -
  have step1: "solvent key l1" if "allow_locked (global_key r) (rl_global_rate cfg)
      (rl_global_burst cfg) (rl_max_buckets cfg) now l = (l1, x)" for l1 x
    using that s g allow_locked_solvent [of key _ _ _ now l l1] solvent_cong [of l1 key l]
      allow_locked_other [OF that, of key] by (cases x; cases "key = global_key r") auto
  have step2: "solvent key l2" if "allow_locked (client_key r c) (rl_rate cfg) (rl_burst cfg)
      (rl_max_buckets cfg) now l1 = (l2, x)" "solvent key l1" for l1 l2 x
    using that cl allow_locked_solvent [of key _ _ _ now l1 l2] solvent_cong [of l2 key l1]
      allow_locked_other [OF that(1), of key] by (cases x; cases "key = client_key r c") auto
  from run show ?thesis
    by (cases rule: allow_cases) (use s in \<open>auto intro!: refund_solvent dest: step1 step2\<close>)
qed

lemma rl_exec_ok:
  assumes "rl_exec op l = (l', ok)" "buckets_ok (rl_time op) l"
  shows "buckets_ok (rl_time op) l'"
proof (cases op)
  case (Rl_Allow r c cfg now)
  with assms show ?thesis by (cases "allow r c cfg now l") (simp add: allow_ok)
next
  case (Rl_Cleanup ttl now)
  with assms show ?thesis using cleanup_ok by simp blast
qed

section \<open>Metered runs\<close>

text \<open>
  A meter charges the level of one key for every admission it counts. Its law is about single
  operations; the bound on whole runs follows once, for both scopes of the limiter.
\<close>

locale meter =
  fixes rate :: real and burst :: int and key :: string
    and counted :: "string \<Rightarrow> string \<Rightarrow> bool" and legal :: "rl_op \<Rightarrow> bool"
  assumes charge: "legal op \<Longrightarrow> rl_exec op l = (l', ok) \<Longrightarrow> buckets_ok (rl_time op) l \<Longrightarrow>
      solvent key l \<Longrightarrow> 0 \<le> rate \<Longrightarrow> 0 \<le> burst \<Longrightarrow>
      level rate burst key (rl_time op) l' +
        (if ok \<and> counts counted op then 1 else 0)
      \<le> level rate burst key (rl_time op) l \<and> solvent key l'"
begin

lemma run_bound:
  assumes "list_all legal ops" "sorted_wrt (\<le>) (t # map rl_time ops @ [T])"
    "buckets_ok t l" "solvent key l" "0 \<le> rate" "0 \<le> burst"
  shows "real (admitted counted ops l)
    \<le> level rate burst key t l + rate * (real_of_int (T - t) / 10 ^ 9)"
  using assms
proof (induction ops arbitrary: t l)
  case Nil
  have "0 \<le> rate * (real_of_int (T - t) / 10 ^ 9)" using Nil by simp
  moreover have "0 \<le> level rate burst key t l"
    using Nil by (auto simp: level_def solvent_def buckets_ok_def split: option.split)
  ultimately show ?case by simp
next
  case (Cons op ops)
  obtain l' ok where ex: "rl_exec op l = (l', ok)" by fastforce
  let ?now = "rl_time op"
  have t: "t \<le> ?now" and op: "legal op" using Cons.prems by auto
  have okn: "buckets_ok ?now l" using Cons.prems(3) t by (force simp: buckets_ok_def)
  note ch = charge [OF op ex okn Cons.prems(4,5,6)]
  have okl: "buckets_ok ?now l'"
    using ex okn by (rule rl_exec_ok)
  have "real (admitted counted ops l') \<le> level rate burst key ?now l' + rate * (real_of_int (T - ?now) / 10 ^ 9)"
    using Cons.IH [of ?now l'] Cons.prems okl ch by auto
  moreover have "real (admitted counted (op # ops) l) = real (admitted counted ops l') +
      (if ok \<and> counts counted op then 1 else 0)"
    using ex by simp
  moreover note level_advance [OF Cons.prems(5) t, of burst key l]
  moreover have "rate * (real_of_int (T - t) / 10 ^ 9) =
      rate * (real_of_int (T - ?now) / 10 ^ 9) + rate * (real_of_int (?now - t) / 10 ^ 9)"
    by (simp add: field_simps)
  ultimately show ?case using ch by linarith
qed

end

text \<open>
  Operations a meter accepts: requests of the metered route follow one enabled policy, client
  names have no bar, and an idle bucket is dropped only after the time it needs to fill.
\<close>

fun legal_global :: "rate_limit_config \<Rightarrow> string \<Rightarrow> rl_op \<Rightarrow> bool" where
  "legal_global cfg r (Rl_Allow r' c' cfg' now) = (r' = r \<longrightarrow> cfg' = cfg \<and> rl_enabled cfg)"
| "legal_global cfg r (Rl_Cleanup ttl now) =
     (real_of_int (rl_global_burst cfg) \<le> rl_global_rate cfg * (real_of_int ttl / 10 ^ 9))"

fun legal_client :: "rate_limit_config \<Rightarrow> string \<Rightarrow> string \<Rightarrow> rl_op \<Rightarrow> bool" where
  "legal_client cfg r c (Rl_Allow r' c' cfg' now) =
     (CHR ''|'' \<notin> set c \<and> CHR ''|'' \<notin> set c' \<and> (r' = r \<and> c' = c \<longrightarrow> cfg' = cfg \<and> rl_enabled cfg))"
| "legal_client cfg r c (Rl_Cleanup ttl now) =
     (real_of_int (rl_burst cfg) \<le> rl_rate cfg * (real_of_int ttl / 10 ^ 9))"

lemma allow_global_charge:
  assumes "legal_global cfg r op" "rl_exec op l = (l', ok)" "buckets_ok (rl_time op) l"
    "solvent (global_key r) l" "0 \<le> rl_global_rate cfg" "0 \<le> rl_global_burst cfg"
  shows "level (rl_global_rate cfg) (rl_global_burst cfg) (global_key r) (rl_time op) l' +
      (if ok \<and> counts (\<lambda>r' c. r' = r) op then 1 else 0)
      \<le> level (rl_global_rate cfg) (rl_global_burst cfg) (global_key r) (rl_time op) l
    \<and> solvent (global_key r) l'"
proof (cases op)
  case (Rl_Allow r' c' cfg' now)
  with assms(2) obtain d where a: "allow r' c' cfg' now l = (l', d)" "ok = dc_allowed d"
    by (auto split: prod.splits)
  show ?thesis
  proof (cases "r' = r")
    case True
    with assms(1) Rl_Allow have eq: "cfg' = cfg" "rl_enabled cfg" by simp_all
    with a True have al: "allow r c' cfg now l = (l', d)" by simp
    from assms(3) Rl_Allow have ok: "buckets_ok now l" by simp
    show ?thesis using allow_global_level [OF al ok eq(2) assms(5)] a(2) Rl_Allow True
        allow_solvent [OF al assms(4)] assms(5,6) by simp
  next
    case False
    then have same: "gm_get l' (global_key r) = gm_get l (global_key r)" using allow_other [OF a(1)] by simp
    then show ?thesis using False Rl_Allow assms(4) by (simp add: level_cong [OF same] solvent_cong [OF same])
  qed
next
  case (Rl_Cleanup ttl now)
  then show ?thesis using assms cleanup_level [of now l "global_key r"]
    by (auto simp: buckets_ok_def intro: cleanup_solvent)
qed

lemma allow_client_charge:
  assumes "legal_client cfg r c op" "rl_exec op l = (l', ok)" "buckets_ok (rl_time op) l"
    "solvent (client_key r c) l" "0 \<le> rl_rate cfg" "0 \<le> rl_burst cfg"
  shows "level (rl_rate cfg) (rl_burst cfg) (client_key r c) (rl_time op) l' +
      (if ok \<and> counts (\<lambda>r' c'. r' = r \<and> c' = c) op then 1 else 0)
      \<le> level (rl_rate cfg) (rl_burst cfg) (client_key r c) (rl_time op) l
    \<and> solvent (client_key r c) l'"
proof (cases op)
  case (Rl_Allow r' c' cfg' now)
  with assms(2) obtain d where a: "allow r' c' cfg' now l = (l', d)" "ok = dc_allowed d"
    by (auto split: prod.splits)
  show ?thesis
  proof (cases "r' = r \<and> c' = c")
    case True
    with assms(1) Rl_Allow have eq: "cfg' = cfg" "rl_enabled cfg" by simp_all
    with a True have al: "allow r c cfg now l = (l', d)" by simp
    from assms(3) Rl_Allow have ok: "buckets_ok now l" by simp
    show ?thesis using allow_client_level [OF al ok eq(2) assms(5)] a(2) Rl_Allow True
        allow_solvent [OF al assms(4)] assms(5,6) by simp
  next
    case False
    then have "client_key r c \<noteq> client_key r' c'"
      using assms(1) Rl_Allow client_key_inj [of r c r' c'] by auto
    then have same: "gm_get l' (client_key r c) = gm_get l (client_key r c)" using allow_other [OF a(1)] by simp
    then show ?thesis using False Rl_Allow assms(4) by (simp add: level_cong [OF same] solvent_cong [OF same])
  qed
next
  case (Rl_Cleanup ttl now)
  then show ?thesis using assms cleanup_level [of now l "client_key r c"]
    by (auto simp: buckets_ok_def intro: cleanup_solvent)
qed

interpretation route_meter: meter "rl_global_rate cfg" "rl_global_burst cfg" "global_key r"
    "\<lambda>r' c. r' = r" "legal_global cfg r" for cfg r
  by unfold_locales (rule allow_global_charge)

interpretation client_meter: meter "rl_rate cfg" "rl_burst cfg" "client_key r c"
    "\<lambda>r' c'. r' = r \<and> c' = c" "legal_client cfg r c" for cfg r c
  by unfold_locales (rule allow_client_charge)

lemma new_limiter_ok [simp]: "buckets_ok t new_limiter" "solvent key new_limiter"
    "level rate burst key t new_limiter = real_of_int burst"
  by (simp_all add: buckets_ok_def solvent_def level_def new_limiter_def)

section \<open>Capacity\<close>

lemma refund_length [simp]: "gm_inv l \<Longrightarrow> length (refund_token k burst l) = length l"
  by (auto simp: refund_token_def gm.len_put_old split: option.split)

lemma allow_locked_size:
  assumes "allow_locked k rate burst mx now l = (l', ok, retry, reason)" "gm_inv l" "int (length l) \<le> mx"
  shows "gm_inv l' \<and> int (length l') \<le> mx"
  using assms(1)
  by (cases rule: allow_locked_cases) (use assms(2,3) in \<open>auto simp: gm.len_put_old gm.len_put_new\<close>)

lemma refund_inv: "gm_inv l \<Longrightarrow> gm_inv (refund_token k burst l)"
  by (auto simp: refund_token_def split: option.split)

lemma allow_size:
  assumes "allow r c cfg now l = (l', d)" "gm_inv l" "int (length l) \<le> rl_max_buckets cfg"
  shows "gm_inv l' \<and> int (length l') \<le> rl_max_buckets cfg"
  using assms(1)
  by (cases rule: allow_cases)
    (use assms(2,3) in \<open>auto simp: refund_inv dest!: allow_locked_size\<close>)

lemma rl_exec_size:
  assumes "gm_inv l" "int (length l) \<le> mx"
    "\<And>r c cfg now. op = Rl_Allow r c cfg now \<Longrightarrow> rl_max_buckets cfg = mx"
  shows "gm_inv (fst (rl_exec op l)) \<and> int (length (fst (rl_exec op l))) \<le> mx"
proof (cases op)
  case (Rl_Allow r c cfg now)
  then show ?thesis using assms allow_size [of r c cfg now l]
    by (cases "allow r c cfg now l") auto
next
  case (Rl_Cleanup ttl now)
  then show ?thesis using assms
      length_gm_filter_le [of "\<lambda>key b. \<not> time_sub now (bk_seen b) > ttl" l]
    by (simp add: cleanup_tick_def)
qed

lemma rl_run_size:
  assumes "gm_inv l" "int (length l) \<le> mx"
    "\<And>r c cfg now. Rl_Allow r c cfg now \<in> set ops \<Longrightarrow> rl_max_buckets cfg = mx"
  shows "int (limiter_size (rl_run ops l)) \<le> mx"
  using assms
proof (induction ops arbitrary: l)
  case (Cons op ops)
  have "gm_inv (fst (rl_exec op l)) \<and> int (length (fst (rl_exec op l))) \<le> mx"
    using Cons.prems by (intro rl_exec_size) auto
  moreover have "\<And>r c cfg now. Rl_Allow r c cfg now \<in> set ops \<Longrightarrow> rl_max_buckets cfg = mx"
    using Cons.prems(3) by (meson list.set_intros(2))
  ultimately show ?case using Cons.IH [of "fst (rl_exec op l)"] by simp
qed (simp add: limiter_size_def)

section \<open>The promises of the limiter\<close>

text \<open>
  C33. Start the limiter empty and run it on any sequence of requests (of any routes, clients and
  policies) and cleanup ticks whose times do not go back. If the requests of route \<open>r\<close> follow one
  enabled policy and idle buckets are dropped only after the time they need to fill up, then the
  requests of the whole route that are admitted between \<open>t0\<close> and \<open>T\<close> number at most its global
  burst plus its global rate times the seconds that passed, however many clients share it; and those
  of one client on that route at most the client burst plus the client rate times the seconds.
\<close>

theorem admitted_bounded:
  assumes "sorted_wrt (\<le>) (t0 # map rl_time ops @ [T])"
    and "list_all (legal_global cfg r) ops" "list_all (legal_client cfg r c) ops"
    and "0 \<le> rl_rate cfg" "0 \<le> rl_burst cfg" "0 \<le> rl_global_rate cfg" "0 \<le> rl_global_burst cfg"
  shows "real (admitted (\<lambda>r' c'. r' = r) ops new_limiter)
           \<le> real_of_int (rl_global_burst cfg) + rl_global_rate cfg * (real_of_int (T - t0) / 10 ^ 9)
       \<and> real (admitted (\<lambda>r' c'. r' = r \<and> c' = c) ops new_limiter)
           \<le> real_of_int (rl_burst cfg) + rl_rate cfg * (real_of_int (T - t0) / 10 ^ 9)"
  using route_meter.run_bound [OF assms(2,1) new_limiter_ok(1,2) assms(6,7)]
    client_meter.run_bound [OF assms(3,1) new_limiter_ok(1,2) assms(4,5)] by simp

definition sample_limit :: rate_limit_config where
  "sample_limit = \<lparr>rl_enabled = True, rl_rate = 1, rl_burst = 1, rl_global_rate = 2,
     rl_global_burst = 2, rl_cleanup_interval = minute, rl_idle_ttl = 10 * minute,
     rl_max_buckets = 10\<rparr>"

definition sample_ops :: "rl_op list" where
  "sample_ops = [Rl_Allow ''api'' ''a'' sample_limit 0, Rl_Allow ''api'' ''a'' sample_limit 0,
     Rl_Allow ''web'' ''a'' sample_limit 5, Rl_Allow ''api'' ''b'' sample_limit 10,
     Rl_Cleanup (2 * second) 3000000000]"

theorem admitted_bounded_witness:
  "real (admitted (\<lambda>r' c'. r' = ''api'') sample_ops new_limiter)
     \<le> real_of_int (rl_global_burst sample_limit)
       + rl_global_rate sample_limit * (real_of_int (3000000000 - 0) / 10 ^ 9)"
  using admitted_bounded [of 0 sample_ops 3000000000 sample_limit "''api''" "''a''"]
  by (simp add: sample_ops_def sample_limit_def second_def)

text \<open>The state after a refusal in the client scope.\<close>

lemma taken_bucket:
  assumes "allow_locked key rate burst mx now l = (l', True, retry, reason)"
  shows "\<exists>b0. (gm_get l key = Some b0 \<or> gm_get l key = None \<and>
        b0 = \<lparr>bk_tokens = real_of_int burst, bk_last = now, bk_seen = now\<rparr>) \<and>
      gm_get l' key = Some ((refill rate burst now b0)
        \<lparr>bk_tokens := bk_tokens (refill rate burst now b0) - 1\<rparr>) \<and>
      bk_tokens (refill rate burst now b0) \<le> real_of_int burst"
  using assms
  by (cases rule: allow_locked_cases) (auto simp: gm_get_put refill_le_burst)

text \<open>
  A request refused by its client bucket (or because no more buckets fit) leaves the route-wide
  allowance exactly as if it had not been made: the global bucket holds what refilling alone gives
  it, no token is missing. No bucket of another route or client changes, and the number of buckets
  never exceeds the configured maximum.
\<close>

theorem client_refusal_refunds:
  assumes "gm_inv l" "int (limiter_size l) \<le> rl_max_buckets cfg"
    and "allow r c cfg now l = (l', d)" "\<not> dc_allowed d" "dc_scope d = ''client''"
  shows "gm_get l' (global_key r) = Some (refill (rl_global_rate cfg) (rl_global_burst cfg) now
            (case gm_get l (global_key r) of Some b \<Rightarrow> b
             | None \<Rightarrow> \<lparr>bk_tokens = real_of_int (rl_global_burst cfg), bk_last = now, bk_seen = now\<rparr>))
       \<and> (\<forall>key. key \<noteq> global_key r \<and> key \<noteq> client_key r c \<longrightarrow> gm_get l' key = gm_get l key)
       \<and> int (limiter_size l') \<le> rl_max_buckets cfg"
  using assms(3)
proof (cases rule: allow_cases)
  case (Client l1 l2 q1 r1 retry reason)
  from taken_bucket [OF Client(2)] obtain b0 where
    b0: "gm_get l (global_key r) = Some b0 \<or> gm_get l (global_key r) = None \<and>
        b0 = \<lparr>bk_tokens = real_of_int (rl_global_burst cfg), bk_last = now, bk_seen = now\<rparr>"
    and l1: "gm_get l1 (global_key r) = Some ((refill (rl_global_rate cfg) (rl_global_burst cfg) now b0)
        \<lparr>bk_tokens := bk_tokens (refill (rl_global_rate cfg) (rl_global_burst cfg) now b0) - 1\<rparr>)"
    and le: "bk_tokens (refill (rl_global_rate cfg) (rl_global_burst cfg) now b0)
        \<le> real_of_int (rl_global_burst cfg)" by blast
  have "gm_get l2 (global_key r) = gm_get l1 (global_key r)"
    using allow_locked_other [OF Client(3)] by simp
  with l1 le Client(4) have "gm_get l' (global_key r) =
      Some (refill (rl_global_rate cfg) (rl_global_burst cfg) now b0)"
    by (simp add: refund_token_def gm_get_put)
  then show ?thesis using b0 allow_other [OF assms(3)] allow_size [OF assms(3,1)] assms(2)
    by (auto simp: limiter_size_def)
qed (use assms(4,5) in auto)

theorem client_refusal_refunds_witness:
  "case allow ''api'' ''a'' sample_limit 0 (fst (allow ''api'' ''a'' sample_limit 0 new_limiter)) of
     (l', d) \<Rightarrow> gm_get l' (global_key ''api'') = Some \<lparr>bk_tokens = 1, bk_last = 0, bk_seen = 0\<rparr>"
  using client_refusal_refunds [of "fst (allow ''api'' ''a'' sample_limit 0 new_limiter)" sample_limit
      "''api''" "''a''" 0 "fst (allow ''api'' ''a'' sample_limit 0 (fst (allow ''api'' ''a'' sample_limit 0 new_limiter)))"
      "snd (allow ''api'' ''a'' sample_limit 0 (fst (allow ''api'' ''a'' sample_limit 0 new_limiter)))"]
  by (simp add: allow_def sample_limit_def new_limiter_def allow_locked_def refill_def Let_def
      elapsed_seconds_def time_sub_def max_int64_def min_int64_def gm_get_def gm_put_def gm_inv_def
      global_key_def client_key_def limiter_size_def refund_token_def second_def)

text \<open>
  The waiting time sent with a refusal is honest: it is at least a millisecond, and the first
  request for the same bucket that comes after it has elapsed is granted a token, whatever the
  number of buckets by then, unless the time was capped at the largest duration.
\<close>

theorem retry_after_sufficient:
  assumes "allow_locked key rate burst mx now l = (l', False, retry, ''rate_exceeded'')"
    and "0 < rate" "1 \<le> burst" "retry < max_int64" "now + retry < later"
  shows "millisecond \<le> retry \<and>
    (\<exists>l''. allow_locked key rate burst mx' later l' = (l'', True, 0, []))"
  using assms(1)
proof (cases rule: allow_locked_cases)
  case (Refused b0 b)
  let ?wait = "(1 - bk_tokens b) / rate"
  have pos: "0 < ?wait" using Refused(3) assms(2) by simp
  have nocap: "\<not> ?wait \<ge> real_of_int max_int64 / real_of_int second"
    using assms(2,4) Refused(5) pos by (auto simp: retry_after_def Let_def)
  have ret: "retry = (if \<lfloor>?wait * real_of_int second\<rfloor> < millisecond then millisecond
      else \<lfloor>?wait * real_of_int second\<rfloor>)"
    using Refused(5) pos nocap assms(2) by (simp add: retry_after_def Let_def)
  then have ms: "millisecond \<le> retry" and fl: "\<lfloor>?wait * real_of_int second\<rfloor> \<le> retry"
    by (auto split: if_splits)
  have "?wait * 10 ^ 9 \<le> real_of_int (retry + 1)"
    using fl by (simp add: second_def) linarith
  moreover have "real_of_int (retry + 1) / 10 ^ 9 \<le> elapsed_seconds later now"
    using assms(4,5) ms by (intro elapsed_ge) (auto simp: millisecond_def)
  ultimately have "w \<le> elapsed_seconds later now" if "w = ?wait" for w
    unfolding that [symmetric] by (simp add: field_simps)
  then have "?wait \<le> elapsed_seconds later now" by blast
  then have "1 \<le> bk_tokens b + elapsed_seconds later now * rate"
    using assms(2) by (simp add: pos_divide_le_eq algebra_simps)
  then have "1 \<le> bk_tokens (refill rate burst later b)"
    using assms(3) Refused(2) by (simp add: refill_def Let_def)
  moreover have "gm_get l' key = Some b" using Refused(7) by (simp add: gm_get_put)
  ultimately show ?thesis using ms by (simp add: allow_locked_def Let_def)
qed auto

theorem retry_after_sufficient_witness:
  "\<exists>l''. allow_locked ''k'' 2 1 0 (500000001)
     (fst (allow_locked ''k'' 2 1 5 0 [(''k'', \<lparr>bk_tokens = 0, bk_last = 0, bk_seen = 0\<rparr>)])) = (l'', True, 0, [])"
proof -
  have run: "allow_locked ''k'' 2 1 5 0 [(''k'', \<lparr>bk_tokens = 0, bk_last = 0, bk_seen = 0\<rparr>)]
    = ([(''k'', \<lparr>bk_tokens = 0, bk_last = 0, bk_seen = 0\<rparr>)], False, 500000000, ''rate_exceeded'')"
    by (simp add: allow_locked_def refill_def Let_def elapsed_seconds_def time_sub_def max_int64_def
        min_int64_def gm_get_def gm_put_def retry_after_def millisecond_def second_def)
  show ?thesis
    using retry_after_sufficient [OF run, of 500000001 0] run by (simp add: max_int64_def)
qed

end
