(* ===== verification/Ban_Manager.thy ===== *)
theory Ban_Manager
  imports Go_Prelude "HOL-Library.List_Lexorder" "HOL-Library.Char_ord"
begin

text \<open>
  The automatic bans of the security gateway, the second half of
  \<^verbatim>\<open>apps/securityedge/internal/ratelimit/limiter.go\<close>: \<^verbatim>\<open>IsBanned\<close>, \<^verbatim>\<open>RecordViolation\<close> with the
  periodic clean-up and the eviction of the oldest inactive client, \<^verbatim>\<open>List\<close>, \<^verbatim>\<open>Remove\<close>,
  \<^verbatim>\<open>Clear\<close> and \<^verbatim>\<open>ActiveCount\<close>. Every operation holds the mutex, so a run is a sequence of
  operations. \<open>ban_spec\<close> is the per-client specification: the recent violations of one client
  since its last ban, with no shared map, no clean-up and no eviction.
\<close>

section \<open>Model\<close>

record auto_ban_config =
  ab_enabled :: bool
  ab_threshold :: int
  ab_window :: duration
  ab_duration :: duration
  ab_max_tracked :: int

record violation =
  bv_times :: "time list"
  bv_until :: time
  bv_count :: int
  bv_seen :: time
  bv_window :: duration

record ban =
  bn_client :: string
  bn_until :: string
  bn_violations :: int

record ban_manager =
  bm_clients :: "(string, violation) gomap"
  bm_cleanup :: time

definition new_ban_manager :: ban_manager where
  "new_ban_manager = \<lparr>bm_clients = [], bm_cleanup = 0\<rparr>"

text \<open>An entry that an observer deletes: a completed ban with no pending violations.\<close>

definition ban_over :: "violation \<Rightarrow> bool" where
  "ban_over v \<longleftrightarrow> bv_times v = [] \<and> bv_until v \<noteq> 0"

definition is_banned :: "string \<Rightarrow> time \<Rightarrow> ban_manager \<Rightarrow> ban_manager \<times> bool \<times> duration" where
  "is_banned client now m =
     (case gm_get (bm_clients m) client of
        None \<Rightarrow> (m, False, 0)
      | Some v \<Rightarrow>
          if \<not> now < bv_until v
          then (if ban_over v then m\<lparr>bm_clients := gm_del client (bm_clients m)\<rparr> else m, False, 0)
          else (m\<lparr>bm_clients := gm_put client (v\<lparr>bv_seen := now\<rparr>) (bm_clients m)\<rparr>,
                True, time_sub (bv_until v) now))"

definition cleanup_interval :: "auto_ban_config \<Rightarrow> duration" where
  "cleanup_interval cfg =
     (let i = ab_window cfg div 2;
          i = (if i < second then second else i)
      in if i > minute then minute else i)"

definition effective_window :: "auto_ban_config \<Rightarrow> violation \<Rightarrow> duration" where
  "effective_window cfg v = (if bv_window v \<le> 0 then ab_window cfg else bv_window v)"

definition in_window :: "duration \<Rightarrow> time \<Rightarrow> time list \<Rightarrow> time list" where
  "in_window w now ts = filter (\<lambda>t. \<not> t < now - w) ts"

definition prune_entry :: "auto_ban_config \<Rightarrow> time \<Rightarrow> violation \<Rightarrow> violation" where
  "prune_entry cfg now v =
     (if now < bv_until v then v
      else v\<lparr>bv_times := in_window (effective_window cfg v) now (bv_times v)\<rparr>)"

definition idle_entry :: "auto_ban_config \<Rightarrow> time \<Rightarrow> violation \<Rightarrow> bool" where
  "idle_entry cfg now v \<longleftrightarrow> \<not> now < bv_until v \<and> bv_times v = [] \<and>
     time_sub now (bv_seen v) > effective_window cfg v"

text \<open>
  The clean-up loop prunes every entry that is not banned and deletes it when nothing is left and
  it was not seen for a window.
\<close>

definition cleanup_inactive :: "auto_ban_config \<Rightarrow> time \<Rightarrow> ban_manager \<Rightarrow> ban_manager" where
  "cleanup_inactive cfg now m =
     (if bm_cleanup m \<noteq> 0 \<and> 0 \<le> time_sub now (bm_cleanup m) \<and>
         time_sub now (bm_cleanup m) < cleanup_interval cfg
      then m
      else \<lparr>bm_clients = gm_filter (\<lambda>c v. \<not> idle_entry cfg now v)
                           (gm_map (\<lambda>c v. prune_entry cfg now v) (bm_clients m)),
            bm_cleanup = now\<rparr>)"

text \<open>The search for the oldest entry without an active ban; the empty key means none so far.\<close>

fun oldest_scan :: "time \<Rightarrow> (string, violation) gomap \<Rightarrow> string \<Rightarrow> time \<Rightarrow> string" where
  "oldest_scan now [] key old = key"
| "oldest_scan now ((k, v) # es) key old =
     (if now < bv_until v then oldest_scan now es key old
      else if key = [] \<or> bv_seen v < old then oldest_scan now es k (bv_seen v)
      else oldest_scan now es key old)"

definition evict_oldest_inactive :: "time \<Rightarrow> ban_manager \<Rightarrow> ban_manager \<times> bool" where
  "evict_oldest_inactive now m =
     (let key = oldest_scan now (bm_clients m) [] 0
      in if key \<noteq> [] then (m\<lparr>bm_clients := gm_del key (bm_clients m)\<rparr>, True) else (m, False))"

definition empty_violation :: violation where
  "empty_violation = \<lparr>bv_times = [], bv_until = 0, bv_count = 0, bv_seen = 0, bv_window = 0\<rparr>"

text \<open>The update of the client's entry, after it was found or created.\<close>

definition note_violation ::
  "string \<Rightarrow> auto_ban_config \<Rightarrow> time \<Rightarrow> violation \<Rightarrow> ban_manager \<Rightarrow> ban_manager \<times> bool \<times> duration"
where
  "note_violation client cfg now v m =
     (let ts = in_window (ab_window cfg) now (bv_times v) @ [now];
          v = v\<lparr>bv_seen := now, bv_window := ab_window cfg\<rparr>
      in if int (length ts) \<ge> ab_threshold cfg
         then (m\<lparr>bm_clients := gm_put client (v\<lparr>bv_until := now + ab_duration cfg,
                 bv_count := int (length ts), bv_times := []\<rparr>) (bm_clients m)\<rparr>,
               True, ab_duration cfg)
         else (m\<lparr>bm_clients := gm_put client (v\<lparr>bv_times := ts\<rparr>) (bm_clients m)\<rparr>, False, 0))"

definition record_violation ::
  "string \<Rightarrow> auto_ban_config \<Rightarrow> time \<Rightarrow> ban_manager \<Rightarrow> ban_manager \<times> bool \<times> duration" where
  "record_violation client cfg now m =
     (if \<not> ab_enabled cfg \<or> client = [] then (m, False, 0)
      else let m1 = cleanup_inactive cfg now m in
        case gm_get (bm_clients m1) client of
          Some v \<Rightarrow> note_violation client cfg now v m1
        | None \<Rightarrow>
            if int (length (bm_clients m1)) \<ge> ab_max_tracked cfg
            then (case evict_oldest_inactive now m1 of
                    (m2, False) \<Rightarrow> (m2, False, 0)
                  | (m2, True) \<Rightarrow> note_violation client cfg now empty_violation m2)
            else note_violation client cfg now empty_violation m1)"

text \<open>\<^verbatim>\<open>List\<close> and \<^verbatim>\<open>ActiveCount\<close> drop the completed bans they meet. Times are printed by \<open>fmt\<close>.\<close>

definition drop_completed :: "time \<Rightarrow> ban_manager \<Rightarrow> ban_manager" where
  "drop_completed now m =
     m\<lparr>bm_clients := gm_filter (\<lambda>c v. now < bv_until v \<or> \<not> ban_over v) (bm_clients m)\<rparr>"

definition ban_list :: "(time \<Rightarrow> string) \<Rightarrow> time \<Rightarrow> ban_manager \<Rightarrow> ban_manager \<times> ban list" where
  "ban_list fmt now m =
     (drop_completed now m,
      sort_key bn_client
        (map (\<lambda>(c, v). \<lparr>bn_client = c, bn_until = fmt (bv_until v), bn_violations = bv_count v\<rparr>)
          (filter (\<lambda>(c, v). now < bv_until v) (bm_clients m))))"

definition ban_remove :: "string \<Rightarrow> ban_manager \<Rightarrow> ban_manager \<times> bool" where
  "ban_remove client m =
     (m\<lparr>bm_clients := gm_del client (bm_clients m)\<rparr>, gm_get (bm_clients m) client \<noteq> None)"

definition ban_clear :: "ban_manager \<Rightarrow> ban_manager \<times> nat" where
  "ban_clear m = (m\<lparr>bm_clients := []\<rparr>, length (bm_clients m))"

definition active_count :: "time \<Rightarrow> ban_manager \<Rightarrow> ban_manager \<times> nat" where
  "active_count now m =
     (drop_completed now m, length (filter (\<lambda>(c, v). now < bv_until v) (bm_clients m)))"

text \<open>Runs of the manager; the answer of an operation is whether it reports a ban.\<close>

datatype ban_op =
    B_Check string time
  | B_Record string auto_ban_config time
  | B_List time
  | B_Count time
  | B_Remove string
  | B_Clear

fun ban_exec :: "ban_op \<Rightarrow> ban_manager \<Rightarrow> ban_manager \<times> bool" where
  "ban_exec (B_Check c now) m = (case is_banned c now m of (m', b, d) \<Rightarrow> (m', b))"
| "ban_exec (B_Record c cfg now) m = (case record_violation c cfg now m of (m', b, d) \<Rightarrow> (m', b))"
| "ban_exec (B_List now) m = (fst (ban_list (\<lambda>_. []) now m), False)"
| "ban_exec (B_Count now) m = (fst (active_count now m), False)"
| "ban_exec (B_Remove c) m = ban_remove c m"
| "ban_exec B_Clear m = (fst (ban_clear m), False)"

fun ban_run :: "ban_op list \<Rightarrow> ban_manager \<Rightarrow> ban_manager" where
  "ban_run [] m = m"
| "ban_run (op # ops) m = ban_run ops (fst (ban_exec op m))"

section \<open>Entries\<close>

lemma oldest_scan_inactive:
  assumes "oldest_scan now es key old = k" "k \<noteq> []" "k \<noteq> key"
  shows "\<exists>v. (k, v) \<in> set es \<and> \<not> now < bv_until v"
  using assms
proof (induction now es key old rule: oldest_scan.induct)
  case (2 now k0 v es key old)
  then show ?case by (auto split: if_splits)
qed simp

lemma evict_keeps_banned:
  assumes "evict_oldest_inactive now m = (m', b)" "gm_inv (bm_clients m)"
    "gm_get (bm_clients m) c = Some v" "now < bv_until v"
  shows "gm_get (bm_clients m') c = Some v"
proof -
  let ?k = "oldest_scan now (bm_clients m) [] 0"
  have "?k = [] \<or> ?k \<noteq> c"
  proof (rule ccontr)
    assume "\<not> ?thesis"
    then obtain w where "(c, w) \<in> set (bm_clients m)" "\<not> now < bv_until w"
      using oldest_scan_inactive [of now "bm_clients m" "[]" 0 ?k] by auto
    then show False using assms(2-4) gm_get_iff_in [of "bm_clients m" c w] by auto
  qed
  then show ?thesis using assms(1,3)
    by (auto simp: evict_oldest_inactive_def Let_def gm_get_del split: if_splits)
qed

lemma evict_inv:
  "evict_oldest_inactive now m = (m', b) \<Longrightarrow> gm_inv (bm_clients m) \<Longrightarrow> gm_inv (bm_clients m')"
  by (auto simp: evict_oldest_inactive_def Let_def split: if_splits)

lemma cleanup_inv: "gm_inv (bm_clients m) \<Longrightarrow> gm_inv (bm_clients (cleanup_inactive cfg now m))"
  by (simp add: cleanup_inactive_def)

lemma cleanup_get:
  assumes "gm_inv (bm_clients m)"
  shows "gm_get (bm_clients (cleanup_inactive cfg now m)) c = gm_get (bm_clients m) c \<or>
    gm_get (bm_clients (cleanup_inactive cfg now m)) c =
      (case gm_get (bm_clients m) c of None \<Rightarrow> None
       | Some v \<Rightarrow> if idle_entry cfg now (prune_entry cfg now v) then None
                   else Some (prune_entry cfg now v))"
  using assms by (auto simp: cleanup_inactive_def gm_get_filter gm_get_map split: option.split)

lemma cleanup_length: "length (bm_clients (cleanup_inactive cfg now m)) \<le> length (bm_clients m)"
  using length_gm_filter_le [of _ "gm_map (\<lambda>c. prune_entry cfg now) (bm_clients m)"]
  by (auto simp: cleanup_inactive_def)

lemma cleanup_keeps_banned:
  "gm_inv (bm_clients m) \<Longrightarrow> gm_get (bm_clients m) c = Some v \<Longrightarrow> now < bv_until v \<Longrightarrow>
    gm_get (bm_clients (cleanup_inactive cfg now m)) c = Some v"
  using cleanup_get [of m cfg now c] by (auto simp: prune_entry_def idle_entry_def)

lemma note_inv: "gm_inv (bm_clients m) \<Longrightarrow> note_violation c cfg now v m = (m', r) \<Longrightarrow> gm_inv (bm_clients m')"
  by (auto simp: note_violation_def Let_def split: if_splits)

lemma note_other:
  "note_violation c cfg now v m = (m', r) \<Longrightarrow> c' \<noteq> c \<Longrightarrow> gm_get (bm_clients m') c' = gm_get (bm_clients m) c'"
  by (auto simp: note_violation_def Let_def gm_get_put split: if_splits)

text \<open>The ways a violation can be recorded.\<close>

lemma record_cases:
  assumes "record_violation c cfg now m = (m', b, d)"
  obtains (Off) "\<not> ab_enabled cfg \<or> c = []" "m' = m" "\<not> b" "d = 0"
  | (Known) v where "ab_enabled cfg" "c \<noteq> []" "gm_get (bm_clients (cleanup_inactive cfg now m)) c = Some v"
      "note_violation c cfg now v (cleanup_inactive cfg now m) = (m', b, d)"
  | (Added) "ab_enabled cfg" "c \<noteq> []" "gm_get (bm_clients (cleanup_inactive cfg now m)) c = None"
      "int (length (bm_clients (cleanup_inactive cfg now m))) < ab_max_tracked cfg"
      "note_violation c cfg now empty_violation (cleanup_inactive cfg now m) = (m', b, d)"
  | (Refused) "ab_enabled cfg" "c \<noteq> []" "gm_get (bm_clients (cleanup_inactive cfg now m)) c = None"
      "int (length (bm_clients (cleanup_inactive cfg now m))) \<ge> ab_max_tracked cfg"
      "evict_oldest_inactive now (cleanup_inactive cfg now m) = (m', False)" "\<not> b" "d = 0"
  | (Evicted) m2 where "ab_enabled cfg" "c \<noteq> []" "gm_get (bm_clients (cleanup_inactive cfg now m)) c = None"
      "int (length (bm_clients (cleanup_inactive cfg now m))) \<ge> ab_max_tracked cfg"
      "evict_oldest_inactive now (cleanup_inactive cfg now m) = (m2, True)"
      "note_violation c cfg now empty_violation m2 = (m', b, d)"
  using assms
  by (auto simp: record_violation_def Let_def not_le split: if_splits option.splits prod.splits bool.splits)

section \<open>Bans last\<close>

text \<open>
  The end of the last ban of \<open>c\<close>, read off a sequence of operations and the answers they got: the last violation of \<open>c\<close> that was
  answered with a ban, plus the duration of its policy; no ban at all after a removal or a clear by an administrator.
\<close>

fun ban_answers :: "ban_op list \<Rightarrow> ban_manager \<Rightarrow> bool list" where
  "ban_answers [] m = []"
| "ban_answers (op # ops) m = (case ban_exec op m of (m', b) \<Rightarrow> b # ban_answers ops m')"

fun end_after :: "string \<Rightarrow> ban_op \<Rightarrow> bool \<Rightarrow> time \<Rightarrow> time" where
  "end_after c (B_Record c' cfg now) b e = (if c' = c \<and> b then now + ab_duration cfg else e)"
| "end_after c (B_Remove c') b e = (if c' = c then 0 else e)"
| "end_after c B_Clear b e = 0"
| "end_after c _ b e = e"

fun ban_end :: "string \<Rightarrow> (ban_op \<times> bool) list \<Rightarrow> time \<Rightarrow> time" where
  "ban_end c [] e = e"
| "ban_end c ((op, b) # ops) e = ban_end c ops (end_after c op b e)"

fun ban_times :: "ban_op \<Rightarrow> time list" where
  "ban_times (B_Check c now) = [now]"
| "ban_times (B_Record c cfg now) = [now]"
| "ban_times (B_List now) = [now]"
| "ban_times (B_Count now) = [now]"
| "ban_times (B_Remove c) = []"
| "ban_times B_Clear = []"

definition ends_at :: "string \<Rightarrow> time \<Rightarrow> time \<Rightarrow> ban_manager \<Rightarrow> bool" where
  "ends_at c now e m \<longleftrightarrow> gm_inv (bm_clients m) \<and>
     (case gm_get (bm_clients m) c of None \<Rightarrow> e \<le> now | Some v \<Rightarrow> bv_until v = e \<or> bv_until v \<le> now \<and> e \<le> now)"

lemma record_inv:
  assumes "record_violation c cfg now m = (m', b, d)" "gm_inv (bm_clients m)"
  shows "gm_inv (bm_clients m')"
  using assms(1)
proof (cases rule: record_cases)
  case Refused
  then show ?thesis using assms(2) evict_inv cleanup_inv by blast
next
  case (Evicted m2)
  then show ?thesis using assms(2) evict_inv cleanup_inv note_inv by metis
qed (use assms(2) cleanup_inv note_inv in blast)+

lemma ends_at_mono: "ends_at c now e m \<Longrightarrow> now \<le> now' \<Longrightarrow> ends_at c now' e m"
  by (auto simp: ends_at_def split: option.splits)

lemma cleanup_ends: "ends_at c now e m \<Longrightarrow> ends_at c now e (cleanup_inactive cfg now m)"
  using cleanup_get [of m cfg now c] cleanup_inv [of m cfg now]
  by (auto simp: ends_at_def prune_entry_def idle_entry_def split: option.splits if_splits)

lemma evict_get:
  "evict_oldest_inactive now m = (m', b) \<Longrightarrow> gm_get (bm_clients m') c \<in> {gm_get (bm_clients m) c, None}"
  by (auto simp: evict_oldest_inactive_def Let_def gm_get_del split: if_splits)

lemma evict_ends:
  assumes "evict_oldest_inactive now m = (m', b)" "ends_at c now e m"
  shows "ends_at c now e m'"
proof -
  have inv: "gm_inv (bm_clients m)" using assms(2) by (simp add: ends_at_def)
  show ?thesis
  proof (cases "gm_get (bm_clients m') c = gm_get (bm_clients m) c")
    case True
    then show ?thesis using assms(2) evict_inv [OF assms(1) inv] by (simp add: ends_at_def)
  next
    case False
    then obtain v where v: "gm_get (bm_clients m) c = Some v" "gm_get (bm_clients m') c = None"
      using evict_get [OF assms(1), of c] by fastforce
    then have "\<not> now < bv_until v" using evict_keeps_banned [OF assms(1) inv v(1)] by auto
    then show ?thesis using v assms(2) evict_inv [OF assms(1) inv] by (auto simp: ends_at_def)
  qed
qed

lemma note_ends:
  assumes "note_violation c' cfg now v m = (m', b, d)" "ends_at c now e m"
    and "c' = c \<Longrightarrow> bv_until v = e \<or> bv_until v \<le> now \<and> e \<le> now"
  shows "ends_at c now (end_after c (B_Record c' cfg now) b e) m'"
proof (cases "c' = c")
  case True
  then show ?thesis using assms by (auto simp: note_violation_def Let_def ends_at_def gm_get_put split: if_splits)
next
  case False
  then show ?thesis using assms(2) note_other [OF assms(1), of c] note_inv [OF _ assms(1)] by (simp add: ends_at_def)
qed

lemma record_ends:
  assumes run: "record_violation c' cfg now m = (m', b, d)" and e: "ends_at c now e m" and now: "0 \<le> now"
  shows "ends_at c now (end_after c (B_Record c' cfg now) b e) m'"
proof -
  note e1 = cleanup_ends [OF e, of cfg]
  from run show ?thesis
  proof (cases rule: record_cases)
    case (Known v)
    show ?thesis by (rule note_ends [OF Known(4) e1]) (use Known(3) e1 in \<open>simp add: ends_at_def\<close>)
  next
    case Added
    show ?thesis by (rule note_ends [OF Added(5) e1]) (use Added(3) e1 now in \<open>simp add: ends_at_def empty_violation_def\<close>)
  next
    case Refused
    then show ?thesis using evict_ends [OF Refused(5) e1] by simp
  next
    case (Evicted m2)
    note e2 = evict_ends [OF Evicted(5) e1]
    have "gm_get (bm_clients m2) c' = None" using evict_get [OF Evicted(5), of c'] Evicted(3) by simp
    then show ?thesis by (intro note_ends [OF Evicted(6) e2]) (use e2 now in \<open>auto simp: ends_at_def empty_violation_def\<close>)
  qed (use e in simp)
qed

lemma ban_exec_ends:
  assumes "ban_exec op m = (m', b)" "ends_at c now0 e m" "0 \<le> now0" "\<forall>t \<in> set (ban_times op). now0 \<le> t"
  shows "ends_at c (fold max (ban_times op) now0) (end_after c op b e) m'"
proof (cases op)
  case (B_Check c' now)
  then show ?thesis using assms ends_at_mono [OF assms(2), of now]
    by (auto simp: is_banned_def ends_at_def gm_get_put gm_get_del max_def split: option.splits if_splits)
next
  case (B_Record c' cfg now)
  obtain d where "record_violation c' cfg now m = (m', b, d)" using assms(1) B_Record by (auto split: prod.splits)
  from record_ends [OF this ends_at_mono [OF assms(2), of now]] B_Record assms(3,4) show ?thesis by (simp add: max_def)
next
  case (B_List now)
  then show ?thesis using assms ends_at_mono [OF assms(2), of now]
    by (auto simp: ban_list_def drop_completed_def ends_at_def gm_get_filter max_def split: option.splits if_splits)
next
  case (B_Count now)
  then show ?thesis using assms ends_at_mono [OF assms(2), of now]
    by (auto simp: active_count_def drop_completed_def ends_at_def gm_get_filter max_def split: option.splits if_splits)
next
  case (B_Remove c')
  then show ?thesis using assms by (auto simp: ban_remove_def ends_at_def gm_get_del)
next
  case B_Clear
  then show ?thesis using assms by (auto simp: ban_clear_def ends_at_def)
qed

lemma ban_run_ends:
  assumes "ends_at c now e m" "0 \<le> now" "sorted (now # concat (map ban_times ops) @ [t])"
  shows "ends_at c t (ban_end c (zip ops (ban_answers ops m)) e) (ban_run ops m)"
  using assms
proof (induction ops arbitrary: m e now)
  case Nil
  then show ?case using ends_at_mono by simp
next
  case (Cons op ops)
  obtain m' b where x: "ban_exec op m = (m', b)" by fastforce
  have "ban_times op = [] \<or> (\<exists>u. ban_times op = [u])" by (cases op) simp_all
  then have s: "sorted (fold max (ban_times op) now # concat (map ban_times ops) @ [t])" "\<forall>u \<in> set (ban_times op). now \<le> u"
    "0 \<le> fold max (ban_times op) now"
    using Cons.prems(2,3) by (auto simp: max_def)
  from Cons.IH [OF ban_exec_ends [OF x Cons.prems(1,2) s(2)] s(3,1)] x show ?case by simp
qed

text \<open>
  C34. A ban lasts exactly as long as it was announced. Over any sequence of checks, violations (of any clients and policies, with the clean-ups and
  evictions they cause), listings, counts, removals and clears from the empty manager, at times that do not go back (nor before the
  zero time), a check of client \<open>c\<close> reports a ban exactly if the last violation of \<open>c\<close> that was answered with a ban, since the last
  removal of \<open>c\<close> or clear, was less than the ban duration of its policy ago, and it reports the rest of that duration. No clean-up, eviction, listing or
  operation for another client ends a ban. A later ban replaces an earlier one, also if it ends sooner.
\<close>

theorem ban_lasts:
  assumes "sorted (0 # concat (map ban_times ops) @ [t])"
    and "u = ban_end c (zip ops (ban_answers ops new_ban_manager)) 0"
  shows "\<exists>m'. is_banned c t (ban_run ops new_ban_manager) = (m', t < u, if t < u then time_sub u t else 0)"
proof -
  have "ends_at c 0 0 new_ban_manager" by (simp add: ends_at_def new_ban_manager_def)
  from ban_run_ends [OF this order_refl assms(1)] have "ends_at c t u (ban_run ops new_ban_manager)"
    by (simp only: assms(2))
  then show ?thesis by (auto simp: is_banned_def ends_at_def split: option.splits)
qed

definition sample_ban :: auto_ban_config where
  "sample_ban = \<lparr>ab_enabled = True, ab_threshold = 2, ab_window = 60, ab_duration = 600,
     ab_max_tracked = 1\<rparr>"

lemmas ban_eval = record_violation_def cleanup_inactive_def note_violation_def Let_def sample_ban_def
  new_ban_manager_def in_window_def gm_get_def gm_put_def empty_violation_def gm_filter_def gm_map_def
  prune_entry_def idle_entry_def effective_window_def time_sub_def min_int64_def max_int64_def
  cleanup_interval_def second_def minute_def evict_oldest_inactive_def gm_del_def gm_inv_def

theorem ban_lasts_witness:
  "\<exists>m'. is_banned ''a'' 500 (ban_run [B_Record ''a'' sample_ban 1, B_Record ''a'' sample_ban 10, B_Record ''b'' sample_ban 20]
     new_ban_manager) = (m', True, 110)"
proof -
  let ?ops = "[B_Record ''a'' sample_ban 1, B_Record ''a'' sample_ban 10, B_Record ''b'' sample_ban 20]"
  have u: "610 = ban_end ''a'' (zip ?ops (ban_answers ?ops new_ban_manager)) 0" by (simp add: ban_eval)
  show ?thesis using ban_lasts [OF _ u, of 500] by (simp add: time_sub_def min_int64_def max_int64_def del: ban_run.simps)
qed

text \<open>
  A ban can be shortened by a further violation: when a client that is already banned collects
  enough violations under a policy with a shorter ban (violations of the request shape and of
  the concurrency limit are recorded before the ban is checked, and every route has its own policy),
  the end of the ban is overwritten: at the end of the shorter ban the client is free, although
  without the further violation it would still be banned.
\<close>

theorem ban_can_be_shortened:
  assumes "gm_get (bm_clients m) c = Some v" "now < bv_until v"
    and "record_violation c cfg now m = (m', True, d)" "now + d < bv_until v"
  shows "fst (snd (is_banned c (now + d) m)) \<and> \<not> fst (snd (is_banned c (now + d) m'))"
proof -
  have "\<exists>v'. gm_get (bm_clients m') c = Some v' \<and> bv_until v' = now + d"
    using assms(3) by (cases rule: record_cases)
      (auto simp: note_violation_def Let_def gm_get_put split: if_splits)
  then show ?thesis using assms(1,2,4) by (auto simp: is_banned_def)
qed

theorem ban_can_be_shortened_witness:
  "\<not> fst (snd (is_banned ''a'' 16 (fst (record_violation ''a'' (sample_ban\<lparr>ab_threshold := 1, ab_duration := 5\<rparr>) 11
     (fst (record_violation ''a'' sample_ban 10 (fst (record_violation ''a'' sample_ban 1 new_ban_manager))))))))"
proof -
  let ?m = "fst (record_violation ''a'' sample_ban 10 (fst (record_violation ''a'' sample_ban 1 new_ban_manager)))"
  let ?cfg = "sample_ban\<lparr>ab_threshold := 1, ab_duration := 5\<rparr>"
  have r: "record_violation ''a'' ?cfg 11 ?m = (fst (record_violation ''a'' ?cfg 11 ?m), True, 5)"
    by (simp add: ban_eval)
  have "\<exists>v. gm_get (bm_clients ?m) ''a'' = Some v \<and> bv_until v = 610" by (simp add: ban_eval)
  then obtain v where v: "gm_get (bm_clients ?m) ''a'' = Some v" "bv_until v = 610" by blast
  show ?thesis using ban_can_be_shortened [OF v(1) _ r] v(2) by simp
qed

section \<open>Exact thresholds\<close>

text \<open>
  The specification of the decisions about one client: all its violations since its last ban (or removal), never pruned; a violation
  is answered with a ban exactly if, with it, enough of them are at most a window old.
\<close>

definition recent :: "auto_ban_config \<Rightarrow> time \<Rightarrow> time list \<Rightarrow> nat" where
  "recent cfg now h = length (filter (\<lambda>t. now - ab_window cfg \<le> t) h)"

fun spec_step :: "string \<Rightarrow> ban_op \<Rightarrow> time list \<Rightarrow> time list" where
  "spec_step c (B_Record c' cfg now) h =
     (if c' = c
      then (if int (recent cfg now h) + 1 \<ge> ab_threshold cfg then [] else h @ [now])
      else h)"
| "spec_step c (B_Remove c') h = (if c' = c then [] else h)"
| "spec_step c B_Clear h = []"
| "spec_step c (B_Check c' now) h = h"
| "spec_step c (B_List now) h = h"
| "spec_step c (B_Count now) h = h"

fun spec_decisions :: "string \<Rightarrow> ban_op list \<Rightarrow> time list \<Rightarrow> bool list" where
  "spec_decisions c [] h = []"
| "spec_decisions c (op # ops) h =
     (case op of
        B_Record c' cfg now \<Rightarrow>
          (if c' = c
           then [int (recent cfg now h) + 1 \<ge> ab_threshold cfg] else [])
      | _ \<Rightarrow> []) @ spec_decisions c ops (spec_step c op h)"

text \<open>The answers the manager gives to the violations of \<open>c\<close> in a run.\<close>

fun ban_decisions :: "string \<Rightarrow> ban_op list \<Rightarrow> ban_manager \<Rightarrow> bool list" where
  "ban_decisions c [] m = []"
| "ban_decisions c (op # ops) m =
     (case ban_exec op m of (m', b) \<Rightarrow>
        (case op of B_Record c' cfg now \<Rightarrow> (if c' = c then [b] else []) | _ \<Rightarrow> [])
        @ ban_decisions c ops m')"

fun record_times :: "ban_op \<Rightarrow> time list" where
  "record_times (B_Record c cfg now) = [now]"
| "record_times _ = []"

fun record_client :: "ban_op \<Rightarrow> string list" where
  "record_client (B_Record c cfg now) = [c]"
| "record_client _ = []"

definition ban_ops_ok :: "auto_ban_config \<Rightarrow> ban_op list \<Rightarrow> bool" where
  "ban_ops_ok cfg ops \<longleftrightarrow>
     list_all (\<lambda>op. case op of B_Record c cfg' now \<Rightarrow> cfg' = cfg | _ \<Rightarrow> True) ops \<and>
     sorted (concat (map record_times ops))"

definition pending :: "string \<Rightarrow> ban_manager \<Rightarrow> time list" where
  "pending c m = (case gm_get (bm_clients m) c of None \<Rightarrow> [] | Some v \<Rightarrow> bv_times v)"

definition tracks :: "string set \<Rightarrow> duration \<Rightarrow> ban_manager \<Rightarrow> bool" where
  "tracks S w m \<longleftrightarrow> gm_inv (bm_clients m) \<and>
     (\<forall>c v. gm_get (bm_clients m) c = Some v \<longrightarrow> c \<in> S \<and> bv_window v = w)"

lemma recent_in_window: "recent cfg now h = length (in_window (ab_window cfg) now h)"
  by (simp add: recent_def in_window_def not_less)

lemma in_window_append [simp]: "in_window w now (xs @ ys) = in_window w now xs @ in_window w now ys"
  by (simp add: in_window_def)

lemma in_window_idem [simp]: "in_window w now (in_window w now ts) = in_window w now ts"
  by (simp add: in_window_def)

lemma in_window_Nil [simp]: "in_window w now [] = []"
  by (simp add: in_window_def)

lemma in_window_mono:
  assumes "in_window w t a = in_window w t b" "t \<le> now"
  shows "in_window w now a = in_window w now b"
proof -
  have "in_window w now x = in_window w now (in_window w t x)" for x
    using assms(2) by (auto simp: in_window_def intro!: filter_cong)
  then show ?thesis using assms(1) by metis
qed

lemma cleanup_tracks:
  assumes "tracks S w m"
  shows "tracks S w (cleanup_inactive cfg now m)"
proof -
  have inv: "gm_inv (bm_clients m)" using assms by (simp add: tracks_def)
  have "\<exists>v0. gm_get (bm_clients m) c = Some v0 \<and> bv_window v = bv_window v0"
    if "gm_get (bm_clients (cleanup_inactive cfg now m)) c = Some v" for c v
    using cleanup_get [OF inv, of cfg now c] that
    by (auto simp: prune_entry_def split: option.splits if_splits)
  then show ?thesis using assms cleanup_inv [OF inv] unfolding tracks_def by metis
qed

lemma cleanup_pending:
  assumes "tracks S (ab_window cfg) m"
  shows "in_window (ab_window cfg) now (pending c (cleanup_inactive cfg now m))
    = in_window (ab_window cfg) now (pending c m)"
  using cleanup_get [of m cfg now c] assms
  by (auto simp: tracks_def pending_def prune_entry_def idle_entry_def effective_window_def
      split: option.splits if_splits)

lemma note_tracks:
  assumes "note_violation c cfg now v m = (m', r)" "tracks S (ab_window cfg) m" "c \<in> S"
  shows "tracks S (ab_window cfg) m'"
  using assms by (auto simp: note_violation_def Let_def tracks_def gm_get_put split: if_splits)

lemma note_pending:
  assumes "note_violation c cfg now v m = (m', b, d)"
  shows "pending c m' = (if int (length (in_window (ab_window cfg) now (bv_times v))) + 1 \<ge> ab_threshold cfg
      then [] else in_window (ab_window cfg) now (bv_times v) @ [now])"
    and "b = (int (length (in_window (ab_window cfg) now (bv_times v))) + 1 \<ge> ab_threshold cfg)"
  using assms by (auto simp: note_violation_def Let_def pending_def gm_get_put split: if_splits)

lemma tracks_room:
  assumes "tracks S w m" "finite S" "c \<in> S" "gm_get (bm_clients m) c = None"
  shows "length (bm_clients m) < card S"
proof -
  have "dom (gm_get (bm_clients m)) \<subset> S" using assms by (auto simp: tracks_def)
  then show ?thesis using assms(1,2) by (simp add: tracks_def length_gm_card psubset_card_mono)
qed

lemma record_refines:
  assumes run: "record_violation c' cfg now m = (m', b, d)" and tr: "tracks S (ab_window cfg) m"
    and S: "finite S" "c' \<in> S" "int (card S) \<le> ab_max_tracked cfg" and on: "ab_enabled cfg" "c' \<noteq> []"
  shows "tracks S (ab_window cfg) m'"
    and "c' \<noteq> c \<Longrightarrow> in_window (ab_window cfg) now (pending c m') = in_window (ab_window cfg) now (pending c m)"
    and "pending c' m' = (if int (length (in_window (ab_window cfg) now (pending c' m))) + 1 \<ge> ab_threshold cfg
      then [] else in_window (ab_window cfg) now (pending c' m) @ [now])"
    and "b = (int (length (in_window (ab_window cfg) now (pending c' m))) + 1 \<ge> ab_threshold cfg)"
proof -
  let ?m1 = "cleanup_inactive cfg now m"
  have tr1: "tracks S (ab_window cfg) ?m1" by (rule cleanup_tracks [OF tr])
  obtain v where v: "note_violation c' cfg now v ?m1 = (m', b, d)" "bv_times v = pending c' ?m1"
    using run
  proof (cases rule: record_cases)
    case Refused
    then show ?thesis using tracks_room [OF tr1 S(1,2)] S(3) by simp
  next
    case (Evicted m2)
    then show ?thesis using tracks_room [OF tr1 S(1,2)] S(3) by simp
  qed (use on that in \<open>auto simp: pending_def empty_violation_def\<close>)
  show "tracks S (ab_window cfg) m'" by (rule note_tracks [OF v(1) tr1 S(2)])
  show "in_window (ab_window cfg) now (pending c m') = in_window (ab_window cfg) now (pending c m)"
    if "c' \<noteq> c"
    using note_other [OF v(1), of c] that cleanup_pending [OF tr, of now c] by (simp add: pending_def)
  show "pending c' m' = (if int (length (in_window (ab_window cfg) now (pending c' m))) + 1 \<ge> ab_threshold cfg
      then [] else in_window (ab_window cfg) now (pending c' m) @ [now])"
    "b = (int (length (in_window (ab_window cfg) now (pending c' m))) + 1 \<ge> ab_threshold cfg)"
    using note_pending [OF v(1)] v(2) cleanup_pending [OF tr, of now c'] by simp_all
qed

text \<open>The operations that record nothing change what is pending only by an administrator's removal.\<close>

lemma observe_refines:
  assumes "tracks S w m" "record_client op = []"
  shows "tracks S w (fst (ban_exec op m)) \<and> pending c (fst (ban_exec op m)) = spec_step c op (pending c m)"
  using assms
proof (cases op)
  case (B_Check c' now)
  then show ?thesis using assms
    by (auto simp: is_banned_def tracks_def pending_def ban_over_def gm_get_put gm_get_del split: option.splits)
next
  case (B_Remove c')
  then show ?thesis using assms by (simp add: ban_remove_def tracks_def pending_def gm_get_del)
qed (auto simp: ban_list_def active_count_def drop_completed_def ban_clear_def tracks_def pending_def
      gm_get_filter ban_over_def split: option.splits)

lemma ban_run_refines:
  assumes "tracks S (ab_window cfg) m" "finite S" "int (card S) \<le> ab_max_tracked cfg"
    and "set (concat (map record_client ops)) \<subseteq> S" "ban_ops_ok cfg ops"
    and "\<And>t. t \<in> set (concat (map record_times ops)) \<Longrightarrow> now0 \<le> t"
    and "in_window (ab_window cfg) now0 (pending c m) = in_window (ab_window cfg) now0 h"
    and on: "ab_enabled cfg" "c \<noteq> []"
  shows "ban_decisions c ops m = spec_decisions c ops h"
  using assms(1,4-7)
proof (induction ops arbitrary: m h now0)
  case (Cons op ops)
  have ops: "set (concat (map record_client ops)) \<subseteq> S" "ban_ops_ok cfg ops"
    "\<And>t. t \<in> set (concat (map record_times ops)) \<Longrightarrow> now0 \<le> t"
    using Cons.prems(2-4) by (auto simp: ban_ops_ok_def sorted_append)
  show ?case
  proof (cases "record_client op = []")
    case True
    obtain m' b where e: "ban_exec op m = (m', b)" by fastforce
    note o = observe_refines [OF Cons.prems(1) True, unfolded e, simplified]
    have "in_window (ab_window cfg) now0 (pending c m') = in_window (ab_window cfg) now0 (spec_step c op h)"
      using o [of c] Cons.prems(5) True by (cases op) auto
    then have "ban_decisions c ops m' = spec_decisions c ops (spec_step c op h)"
      using Cons.IH [OF _ ops] o by blast
    then show ?thesis using e True by (cases op) simp_all
  next
    case False
    then obtain c' cfg' now where op: "op = B_Record c' cfg' now" by (cases op) auto
    have cfg': "cfg' = cfg" and c': "c' \<in> S" and now: "now0 \<le> now"
      and later: "\<And>t. t \<in> set (concat (map record_times ops)) \<Longrightarrow> now \<le> t"
      using Cons.prems(2-4) op by (auto simp: ban_ops_ok_def)
    obtain m' b d where r: "record_violation c' cfg now m = (m', b, d)" by (metis prod_cases3)
    have h: "in_window (ab_window cfg) now (pending c m) = in_window (ab_window cfg) now h"
      using Cons.prems(5) now by (rule in_window_mono)
    have step: "tracks S (ab_window cfg) m'" "in_window (ab_window cfg) now (pending c m') =
        in_window (ab_window cfg) now (spec_step c op h)"
      "c' = c \<Longrightarrow> b = (int (length (in_window (ab_window cfg) now h)) + 1 \<ge> ab_threshold cfg)"
    proof -
      show "tracks S (ab_window cfg) m'"
        using record_refines(1) [OF r Cons.prems(1) assms(2) c' assms(3) on(1)] r Cons.prems(1)
        by (cases "c' = []") (auto simp: record_violation_def)
      show "in_window (ab_window cfg) now (pending c m') = in_window (ab_window cfg) now (spec_step c op h)"
      proof (cases "c' = []")
        case True
        then show ?thesis using r h on(2) op by (simp add: record_violation_def)
      next
        case False
        note rr = record_refines [OF r Cons.prems(1) assms(2) c' assms(3) on(1) False]
        show ?thesis using rr(2) [of c] rr(3) h op cfg' by (cases "c' = c") (auto simp: recent_in_window)
      qed
      show "b = (int (length (in_window (ab_window cfg) now h)) + 1 \<ge> ab_threshold cfg)" if "c' = c"
        using record_refines(4) [OF r Cons.prems(1) assms(2) c' assms(3) on(1)] that on(2) h by simp
    qed
    then have "ban_decisions c ops m' = spec_decisions c ops (spec_step c op h)"
      using Cons.IH [OF _ ops(1,2) later] by blast
    then show ?thesis using op cfg' r step(3) by (simp add: recent_in_window del: spec_step.simps)
  qed
qed simp

text \<open>
  C35. The manager bans a client exactly when it should: over any run from the empty manager in which
  violations of any number of clients (within the tracking capacity), checks, listings and
  administrative removals interleave, with one enabled policy and violation times that do not go
  back, the answers to the violations of a client \<open>c\<close> are those of the specification that looks at
  \<open>c\<close> alone: a ban exactly at the violation that reaches the threshold within the sliding window,
  counted from the last ban or removal. Clean-ups lose no countable violation and other clients
  have no influence.
\<close>

theorem ban_decisions_exact:
  assumes "ban_ops_ok cfg ops" "ab_enabled cfg" "c \<noteq> []"
    and "int (card (set (concat (map record_client ops)))) \<le> ab_max_tracked cfg"
  shows "ban_decisions c ops new_ban_manager = spec_decisions c ops []"
proof -
  let ?ts = "concat (map record_times ops)"
  define now0 where "now0 = (if ?ts = [] then 0 else hd ?ts)"
  have first: "now0 \<le> t" if "t \<in> set ?ts" for t
    using that assms(1) unfolding now0_def ban_ops_ok_def by (cases ?ts) auto
  have tr: "tracks (set (concat (map record_client ops))) (ab_window cfg) new_ban_manager"
    by (simp add: tracks_def new_ban_manager_def)
  have "pending c new_ban_manager = []" by (simp add: pending_def new_ban_manager_def)
  then have same: "in_window (ab_window cfg) now0 (pending c new_ban_manager) = in_window (ab_window cfg) now0 []"
    by simp
  show ?thesis
    using ban_run_refines [OF tr finite_set assms(4) subset_refl assms(1) first same assms(2,3)] .
qed

theorem ban_decisions_exact_witness:
  "ban_decisions ''a'' [B_Record ''a'' (sample_ban\<lparr>ab_max_tracked := 2\<rparr>) 1, B_Check ''a'' 2,
      B_Record ''b'' (sample_ban\<lparr>ab_max_tracked := 2\<rparr>) 50, B_Record ''a'' (sample_ban\<lparr>ab_max_tracked := 2\<rparr>) 70,
      B_Record ''a'' (sample_ban\<lparr>ab_max_tracked := 2\<rparr>) 100] new_ban_manager = [False, False, True]"
  using ban_decisions_exact [of "sample_ban\<lparr>ab_max_tracked := 2\<rparr>"
     "[B_Record ''a'' (sample_ban\<lparr>ab_max_tracked := 2\<rparr>) 1, B_Check ''a'' 2,
      B_Record ''b'' (sample_ban\<lparr>ab_max_tracked := 2\<rparr>) 50, B_Record ''a'' (sample_ban\<lparr>ab_max_tracked := 2\<rparr>) 70,
      B_Record ''a'' (sample_ban\<lparr>ab_max_tracked := 2\<rparr>) 100]" "''a''"]
  by (simp add: ban_ops_ok_def sample_ban_def recent_def card_insert_if del: ban_decisions.simps)

end
