(* ===== verification/Admission.thy ===== *)
theory Admission
  imports Go_Prelude
begin

text \<open>
  The concurrency limiter of the security gateway,
  \<^verbatim>\<open>apps/securityedge/internal/admission/limiter.go\<close>. \<^verbatim>\<open>Acquire\<close> returns a release function
  guarded by a \<^verbatim>\<open>sync.Once\<close> of its own: the model keeps these release functions as a list of
  tokens (client and whether it has run), and a token is named by its position. Both operations
  hold the mutex, so concurrent requests are an interleaving of them.
\<close>

section \<open>Model\<close>

record admission =
  am_global :: int
  am_clients :: "(string, int) gomap"
  am_tokens :: "(string \<times> bool) list"

record am_snapshot =
  as_global :: int
  as_clients :: "(string, int) gomap"
  as_tracked :: nat

datatype am_reject = Global_Concurrency | Client_Concurrency

definition new_admission :: admission where
  "new_admission = \<lparr>am_global = 0, am_clients = [], am_tokens = []\<rparr>"

definition client_active :: "(string, int) gomap \<Rightarrow> string \<Rightarrow> int" where
  "client_active m c = (case gm_get m c of None \<Rightarrow> 0 | Some n \<Rightarrow> n)"

definition acquire :: "string \<Rightarrow> int \<Rightarrow> int \<Rightarrow> admission \<Rightarrow> admission \<times> (am_reject + nat)" where
  "acquire client global_limit client_limit s =
     (if am_global s \<ge> global_limit then (s, Inl Global_Concurrency)
      else if client_active (am_clients s) client \<ge> client_limit then (s, Inl Client_Concurrency)
      else (\<lparr>am_global = am_global s + 1,
             am_clients = gm_put client (client_active (am_clients s) client + 1) (am_clients s),
             am_tokens = am_tokens s @ [(client, False)]\<rparr>,
            Inr (length (am_tokens s))))"

text \<open>The returned function: the first call gives the slot back, later calls do nothing.\<close>

definition release_token :: "nat \<Rightarrow> admission \<Rightarrow> admission" where
  "release_token i s =
     (if i < length (am_tokens s) \<and> \<not> snd (am_tokens s ! i)
      then let client = fst (am_tokens s ! i);
               m = gm_put client (client_active (am_clients s) client - 1) (am_clients s)
           in \<lparr>am_global = am_global s - 1,
               am_clients = (if client_active m client \<le> 0 then gm_del client m else m),
               am_tokens = (am_tokens s)[i := (client, True)]\<rparr>
      else s)"

definition admission_snapshot :: "bool \<Rightarrow> admission \<Rightarrow> am_snapshot" where
  "admission_snapshot include_clients s =
     \<lparr>as_global = am_global s, as_clients = (if include_clients then am_clients s else []),
      as_tracked = length (am_clients s)\<rparr>"

datatype am_op = Am_Acquire string int int | Am_Release nat

fun am_exec :: "am_op \<Rightarrow> admission \<Rightarrow> admission" where
  "am_exec (Am_Acquire c g l) s = fst (acquire c g l s)"
| "am_exec (Am_Release i) s = release_token i s"

fun am_run :: "am_op list \<Rightarrow> admission \<Rightarrow> admission" where
  "am_run [] s = s"
| "am_run (op # ops) s = am_run ops (am_exec op s)"

section \<open>Counting open tokens\<close>

definition open_tokens :: "admission \<Rightarrow> nat" where
  "open_tokens s = length (filter (\<lambda>t. \<not> snd t) (am_tokens s))"

definition open_of :: "string \<Rightarrow> admission \<Rightarrow> nat" where
  "open_of c s = length (filter (\<lambda>t. fst t = c \<and> \<not> snd t) (am_tokens s))"

definition am_inv :: "admission \<Rightarrow> bool" where
  "am_inv s \<longleftrightarrow> gm_inv (am_clients s) \<and> am_global s = int (open_tokens s) \<and>
     (\<forall>c. gm_get (am_clients s) c = (if open_of c s = 0 then None else Some (int (open_of c s))))"

lemma am_inv_client: "am_inv s \<Longrightarrow> client_active (am_clients s) c = int (open_of c s)"
  by (simp add: am_inv_def client_active_def)

lemma count_update:
  assumes "i < length xs" "P (xs ! i)" "\<not> P y"
  shows "Suc (length (filter P (xs[i := y]))) = length (filter P xs)"
  using assms
proof (induction xs arbitrary: i)
  case (Cons x xs)
  then show ?case by (cases i) auto
qed simp

lemma count_update_same:
  assumes "i < length xs" "P y = P (xs ! i)"
  shows "length (filter P (xs[i := y])) = length (filter P xs)"
  using assms
proof (induction xs arbitrary: i)
  case (Cons x xs)
  then show ?case by (cases i) auto
qed simp

lemma acquire_inv:
  assumes "am_inv s"
  shows "am_inv (fst (acquire c g l s))"
  using assms am_inv_client [OF assms, of c]
  by (auto simp: acquire_def am_inv_def open_tokens_def open_of_def gm_get_put)

lemma release_inv:
  assumes inv: "am_inv s"
  shows "am_inv (release_token i s)"
proof (cases "i < length (am_tokens s) \<and> \<not> snd (am_tokens s ! i)")
  case True
  let ?c = "fst (am_tokens s ! i)" and ?s = "release_token i s"
  let ?m = "gm_put ?c (client_active (am_clients s) ?c - 1) (am_clients s)"
  have tok: "am_tokens ?s = (am_tokens s)[i := (?c, True)]"
    and glob: "am_global ?s = am_global s - 1"
    and cl: "am_clients ?s = (if client_active ?m ?c \<le> 0 then gm_del ?c ?m else ?m)"
    using True by (simp_all add: release_token_def Let_def)
  have all: "Suc (open_tokens ?s) = open_tokens s"
    using True unfolding open_tokens_def tok by (intro count_update) auto
  have mine: "Suc (open_of ?c ?s) = open_of ?c s"
    using True unfolding open_of_def tok by (intro count_update) auto
  have other: "open_of d ?s = open_of d s" if "d \<noteq> ?c" for d
    using True that unfolding open_of_def tok by (intro count_update_same) auto
  have "client_active ?m ?c = int (open_of ?c ?s)"
    using am_inv_client [OF inv, of ?c] mine by (simp add: client_active_def gm_get_put)
  then have "gm_get (am_clients ?s) d = (if open_of d ?s = 0 then None else Some (int (open_of d ?s)))" for d
    using inv other [of d] by (cases "d = ?c") (auto simp: cl am_inv_def gm_get_put gm_get_del client_active_def)
  moreover have "gm_inv (am_clients ?s)" using inv by (auto simp: cl am_inv_def)
  ultimately show ?thesis using inv all by (simp add: am_inv_def glob)
qed (use inv in \<open>auto simp: release_token_def\<close>)

lemma new_admission_inv: "am_inv new_admission"
  by (simp add: am_inv_def new_admission_def open_tokens_def open_of_def)

lemma am_run_inv: "am_inv s \<Longrightarrow> am_inv (am_run ops s)"
proof (induction ops arbitrary: s)
  case (Cons op ops)
  then show ?case using acquire_inv release_inv by (cases op) simp_all
qed simp

section \<open>Limits\<close>

fun limits_below :: "int \<Rightarrow> int \<Rightarrow> am_op \<Rightarrow> bool" where
  "limits_below g l (Am_Acquire c g' l') = (g' \<le> g \<and> l' \<le> l)"
| "limits_below g l (Am_Release i) = True"

lemma client_active_put:
  "client_active (gm_put k n m) c = (if c = k then n else client_active m c)"
  by (simp add: client_active_def gm_get_put)

lemma client_active_del:
  "client_active (gm_del k m) c = (if c = k then 0 else client_active m c)"
  by (simp add: client_active_def gm_get_del)

lemma am_exec_limits:
  assumes "limits_below g l op" "0 \<le> l" "am_global s \<le> g" "client_active (am_clients s) c \<le> l"
  shows "am_global (am_exec op s) \<le> g \<and> client_active (am_clients (am_exec op s)) c \<le> l"
proof (cases op)
  case (Am_Acquire c' g' l')
  then show ?thesis using assms by (auto simp: acquire_def client_active_put)
next
  case (Am_Release i)
  then show ?thesis using assms
    by (auto simp: release_token_def Let_def client_active_put client_active_del)
qed

lemma am_run_limits:
  assumes "list_all (limits_below g l) ops" "0 \<le> l" "am_global s \<le> g" "client_active (am_clients s) c \<le> l"
  shows "am_global (am_run ops s) \<le> g \<and> client_active (am_clients (am_run ops s)) c \<le> l"
  using assms
proof (induction ops arbitrary: s)
  case (Cons op ops)
  then show ?case using am_exec_limits [of g l op s c] by simp
qed simp

text \<open>
  C36. After any interleaving of acquisitions and releases (release functions may be called any
  number of times) the counters are exact: the global counter is the number of requests that hold
  a slot, the counter of a client is the number of its own, and a client without a slot is not in
  the map, so nothing leaks. No more requests than the global limit and no more of one client than
  the client limit hold a slot; and the next acquisition is granted exactly when both are below
  the limits it is asked with, the global limit being reported first.
\<close>

theorem admission_exact:
  assumes "list_all (limits_below g l) ops" "0 \<le> g" "0 \<le> l"
  shows "let s = am_run ops new_admission in
     am_global s = int (open_tokens s) \<and> am_global s \<le> g \<and>
     (\<forall>c. gm_get (am_clients s) c = (if open_of c s = 0 then None else Some (int (open_of c s)))
        \<and> int (open_of c s) \<le> l) \<and>
     snd (acquire c g' l' s) =
       (if int (open_tokens s) \<ge> g' then Inl Global_Concurrency
        else if int (open_of c s) \<ge> l' then Inl Client_Concurrency else Inr (length (am_tokens s)))"
proof -
  let ?s = "am_run ops new_admission"
  have inv: "am_inv ?s" by (rule am_run_inv [OF new_admission_inv])
  have "client_active (am_clients new_admission) d \<le> l" for d
    using assms(3) by (simp add: new_admission_def client_active_def)
  then have lim: "am_global ?s \<le> g \<and> client_active (am_clients ?s) d \<le> l" for d
    using am_run_limits [OF assms(1,3), of new_admission d] assms(2) by (simp add: new_admission_def)
  show ?thesis
    using inv lim am_inv_client [OF inv] by (simp add: Let_def am_inv_def acquire_def)
qed

theorem admission_exact_witness:
  "am_global (am_run [Am_Acquire ''a'' 2 1, Am_Acquire ''a'' 2 1, Am_Acquire ''b'' 2 1, Am_Release 0,
      Am_Release 0] new_admission) = 1"
  using admission_exact [of 2 1 "[Am_Acquire ''a'' 2 1, Am_Acquire ''a'' 2 1, Am_Acquire ''b'' 2 1,
      Am_Release 0, Am_Release 0]" "''a''" 2 1]
  by (simp add: Let_def acquire_def release_token_def new_admission_def client_active_def gm_get_def
      gm_put_def gm_del_def open_tokens_def)

end
