(* ===== verification/Traffic.thy ===== *)
theory Traffic
  imports Go_Prelude "HOL-Library.Multiset"
begin

text \<open>
  The recent-traffic tracker of the security gateway,
  \<^verbatim>\<open>apps/securityedge/internal/traffic/tracker.go\<close>: a bounded list of events kept in time
  order by binary search, the marker of the latest evicted event, \<^verbatim>\<open>Snapshot\<close> and \<^verbatim>\<open>Recent\<close>.
  The RFC 3339 text of an instant that \<^verbatim>\<open>Observe\<close> stores is modelled by the instant itself, so
  the parse errors of stored texts do not occur; the incoming text is given by the result of
  parsing it (\<open>None\<close> for an error). The specification is the stable sort by time of everything
  observed, of which the tracker holds the newest \<^verbatim>\<open>capacity\<close> events.
\<close>

section \<open>Model\<close>

record event =
  te_observed :: time
  te_request_id :: string
  te_client_ip :: string
  te_method :: string
  te_host :: string
  te_path :: string
  te_fingerprint :: string
  te_route :: string
  te_action :: string
  te_reason :: string
  te_status :: int
  te_duration :: real
  te_cache :: string

record traffic_snapshot =
  ts_generated :: time
  ts_window_seconds :: int
  ts_capacity :: nat
  ts_truncated :: bool
  ts_minimum :: nat
  ts_status :: string
  ts_summary :: string
  ts_last_observed :: "time option"
  ts_requests :: nat
  ts_unique :: nat
  ts_allowed :: nat
  ts_rejected :: nat
  ts_canceled :: nat
  ts_last :: "event option"

record tracker =
  tk_capacity :: nat
  tk_window :: duration
  tk_events :: "event list"
  tk_evicted :: time

definition default_capacity :: int where "default_capacity = 512"
definition default_window :: duration where "default_window = 5 * minute"

definition new_tracker :: "int \<Rightarrow> duration \<Rightarrow> tracker" where
  "new_tracker capacity window =
     \<lparr>tk_capacity = nat (if capacity \<le> 0 then default_capacity else capacity),
      tk_window = (if window \<le> 0 then default_window else window),
      tk_events = [], tk_evicted = 0\<rparr>"

text \<open>\<^verbatim>\<open>sort.Search\<close> of the standard library: a binary search on \<open>[i, j)\<close>.\<close>

function go_search :: "(nat \<Rightarrow> bool) \<Rightarrow> nat \<Rightarrow> nat \<Rightarrow> nat" where
  "go_search f i j =
     (if i < j
      then let h = (i + j) div 2 in if \<not> f h then go_search f (h + 1) j else go_search f i h
      else i)"
  by pat_completeness auto
termination
  by (relation "measure (\<lambda>(f, i, j). j - i)") auto

declare go_search.simps [simp del]

definition note_evicted :: "time \<Rightarrow> tracker \<Rightarrow> tracker" where
  "note_evicted observed t = (if tk_evicted t < observed then t\<lparr>tk_evicted := observed\<rparr> else t)"

text \<open>The time of an event: the one it carries if it parses, the clock otherwise.\<close>

definition stamp :: "time option \<Rightarrow> time \<Rightarrow> event \<Rightarrow> event" where
  "stamp parsed clock e = e\<lparr>te_observed := (case parsed of None \<Rightarrow> clock | Some t \<Rightarrow> t)\<rparr>"

definition store_event :: "event \<Rightarrow> tracker \<Rightarrow> tracker" where
  "store_event e t =
     (let es = tk_events t;
          observed = te_observed e;
          position = go_search (\<lambda>i. observed < te_observed (es ! i)) 0 (length es)
      in if length es < tk_capacity t
         then t\<lparr>tk_events := take position es @ [e] @ drop position es\<rparr>
         else if position = 0 then note_evicted observed t
         else (note_evicted (te_observed (es ! 0)) t)
                \<lparr>tk_events := drop 1 (take position es) @ [e] @ drop position es\<rparr>)"

definition observe_event :: "time option \<Rightarrow> time \<Rightarrow> event \<Rightarrow> tracker \<Rightarrow> tracker" where
  "observe_event parsed clock e t = store_event (stamp parsed clock e) t"

text \<open>The removal of events from the future that starts a snapshot.\<close>

definition drop_future :: "time \<Rightarrow> tracker \<Rightarrow> tracker" where
  "drop_future now t =
     (let t = t\<lparr>tk_events := filter (\<lambda>e. \<not> now < te_observed e) (tk_events t)\<rparr>
      in if now < tk_evicted t then t\<lparr>tk_evicted := 0\<rparr> else t)"

text \<open>The loop of \<^verbatim>\<open>Snapshot\<close>, over the events from the newest to the oldest.\<close>

fun tally :: "time \<Rightarrow> event list \<Rightarrow> string list \<Rightarrow> traffic_snapshot \<Rightarrow> string list \<times> traffic_snapshot"
where
  "tally cutoff [] clients out = (clients, out)"
| "tally cutoff (e # es) clients out =
     (if te_observed e < cutoff then tally cutoff es clients out
      else
        let out = (if ts_last out = None
                   then out\<lparr>ts_last := Some e, ts_last_observed := Some (te_observed e)\<rparr> else out);
            out = out\<lparr>ts_requests := ts_requests out + 1\<rparr>;
            clients = (if te_client_ip e \<noteq> [] then List.insert (te_client_ip e) clients else clients);
            out = (if te_action e = ''ALLOW'' \<or> te_action e = ''LOG''
                   then out\<lparr>ts_allowed := ts_allowed out + 1\<rparr>
                   else if te_action e = ''CANCELED'' then out\<lparr>ts_canceled := ts_canceled out + 1\<rparr>
                   else out\<lparr>ts_rejected := ts_rejected out + 1\<rparr>)
        in tally cutoff es clients out)"

definition snapshot_start :: "time \<Rightarrow> tracker \<Rightarrow> traffic_snapshot" where
  "snapshot_start now t =
     \<lparr>ts_generated = now, ts_window_seconds = tk_window t div second, ts_capacity = tk_capacity t,
      ts_truncated = (tk_evicted t \<noteq> 0 \<and> \<not> tk_evicted t < now - tk_window t),
      ts_minimum = 0, ts_status = ''no_recent_traffic'',
      ts_summary = ''No client requests have been observed during the recent activity window.'',
      ts_last_observed = None, ts_requests = 0, ts_unique = 0, ts_allowed = 0, ts_rejected = 0,
      ts_canceled = 0, ts_last = None\<rparr>"

definition traffic_snapshot_of :: "time \<Rightarrow> tracker \<Rightarrow> tracker \<times> traffic_snapshot" where
  "traffic_snapshot_of now t0 =
     (let t = drop_future now t0;
          (clients, out) = tally (now - tk_window t) (rev (tk_events t)) [] (snapshot_start now t);
          out = out\<lparr>ts_unique := length clients,
                    ts_minimum := (if ts_truncated out then ts_requests out + 1 else ts_requests out)\<rparr>
      in (t, if ts_last out = None then out
             else out\<lparr>ts_status := ''traffic_observed'',
                      ts_summary :=
                        (if ts_truncated out
                         then ''Recent client traffic exceeds the retained event capacity; activity-window counts are a bounded retained sample and the true request volume is higher.''
                         else ''Recent client traffic is reaching SecurityEdge; completed security decisions and cancellations are summarized separately.'')\<rparr>))"

definition recent_events :: "int \<Rightarrow> tracker \<Rightarrow> event list" where
  "recent_events limit t =
     (let n = length (tk_events t);
          k = (if limit \<le> 0 \<or> limit > int n then n else nat limit)
      in map (\<lambda>i. tk_events t ! (n - 1 - i)) [0..<k])"

section \<open>Binary search\<close>

lemma go_search_spec:
  assumes "i \<le> j" "\<And>a b. a \<le> b \<Longrightarrow> b < j \<Longrightarrow> f a \<Longrightarrow> f b"
  shows "i \<le> go_search f i j \<and> go_search f i j \<le> j \<and>
    (\<forall>k. i \<le> k \<and> k < go_search f i j \<longrightarrow> \<not> f k) \<and>
    (\<forall>k. go_search f i j \<le> k \<and> k < j \<longrightarrow> f k)"
  using assms
proof (induction f i j rule: go_search.induct)
  case (1 f i j)
  show ?case
  proof (cases "i < j")
    case True
    let ?h = "(i + j) div 2"
    have h: "i \<le> ?h" "?h < j" using True by auto
    show ?thesis
    proof (cases "f ?h")
      case True
      then have gs: "go_search f i j = go_search f i ?h"
        using \<open>i < j\<close> by (simp add: go_search.simps [of f i j] Let_def)
      have "f b" if "a \<le> b" "b < ?h" "f a" for a b using "1.prems"(2) [OF that(1)] that h by simp
      moreover have "\<not> \<not> f ?h" using True by simp
      ultimately have ih: "i \<le> go_search f i ?h \<and> go_search f i ?h \<le> ?h \<and>
          (\<forall>k. i \<le> k \<and> k < go_search f i ?h \<longrightarrow> \<not> f k) \<and> (\<forall>k. go_search f i ?h \<le> k \<and> k < ?h \<longrightarrow> f k)"
        using "1.IH"(2) [OF \<open>i < j\<close> refl _ h(1)] by blast
      have "f k" if "?h \<le> k" "k < j" for k using "1.prems"(2) that True by blast
      then have "f k" if "go_search f i ?h \<le> k" "k < j" for k using ih that by (cases "k < ?h") auto
      moreover have "go_search f i ?h \<le> j" using ih h(2) by linarith
      ultimately show ?thesis using ih unfolding gs by blast
    next
      case False
      then have gs: "go_search f i j = go_search f (?h + 1) j"
        using \<open>i < j\<close> by (simp add: go_search.simps [of f i j] Let_def)
      have "?h + 1 \<le> j" using h(2) by simp
      then have ih: "?h + 1 \<le> go_search f (?h + 1) j \<and> go_search f (?h + 1) j \<le> j \<and>
          (\<forall>k. ?h + 1 \<le> k \<and> k < go_search f (?h + 1) j \<longrightarrow> \<not> f k) \<and>
          (\<forall>k. go_search f (?h + 1) j \<le> k \<and> k < j \<longrightarrow> f k)"
        using "1.IH"(1) [OF \<open>i < j\<close> refl False] "1.prems"(2) by blast
      have "\<not> f k" if "k \<le> ?h" for k using "1.prems"(2) [OF that h(2)] False by blast
      then have "\<not> f k" if "k < go_search f (?h + 1) j" for k using ih that by (cases "k \<le> ?h") auto
      moreover have "i \<le> go_search f (?h + 1) j" using ih h(1) by linarith
      ultimately show ?thesis using ih unfolding gs by blast
    qed
  qed (use "1.prems" in \<open>auto simp: go_search.simps [of f j j]\<close>)
qed

section \<open>Refinement of the stable sort\<close>

text \<open>Insertion behind the events of the same time.\<close>

definition insert_event :: "event \<Rightarrow> event list \<Rightarrow> event list" where
  "insert_event e es = takeWhile (\<lambda>x. te_observed x \<le> te_observed e) es @ [e]
     @ dropWhile (\<lambda>x. te_observed x \<le> te_observed e) es"

lemma search_position:
  assumes "sorted (map te_observed es)"
  shows "go_search (\<lambda>i. t < te_observed (es ! i)) 0 (length es)
    = length (takeWhile (\<lambda>x. te_observed x \<le> t) es)"
proof -
  let ?f = "\<lambda>i. t < te_observed (es ! i)" and ?n = "length (takeWhile (\<lambda>x. te_observed x \<le> t) es)"
  let ?p = "go_search ?f 0 (length es)"
  have mono: "?f b" if "a \<le> b" "b < length es" "?f a" for a b
    using assms that by (fastforce simp: sorted_iff_nth_mono)
  have sp: "?p \<le> length es" "\<And>k. k < ?p \<Longrightarrow> \<not> ?f k" "\<And>k. ?p \<le> k \<Longrightarrow> k < length es \<Longrightarrow> ?f k"
    using go_search_spec [of 0 "length es" ?f] mono by blast+
  show ?thesis
  proof (rule antisym)
    show "?p \<le> ?n"
    proof (rule ccontr)
      assume "\<not> ?p \<le> ?n"
      then have "?n < ?p" by (simp only: not_le)
      then have "?n < length es" "\<not> ?f ?n" using sp(1) sp(2) [of ?n] by (linarith, blast)
      then show False using nth_length_takeWhile [of "\<lambda>x. te_observed x \<le> t" es] by simp
    qed
    show "?n \<le> ?p"
    proof (rule ccontr)
      assume "\<not> ?n \<le> ?p"
      then have "?p < ?n" by simp
      moreover have "?n \<le> length es" by (rule length_takeWhile_le)
      ultimately have "?f ?p" "te_observed (es ! ?p) \<le> t"
        using sp(3) [of ?p] takeWhile_nth [of ?p "\<lambda>x. te_observed x \<le> t" es]
          nth_mem [of ?p "takeWhile (\<lambda>x. te_observed x \<le> t) es"] by (auto dest!: set_takeWhileD)
      then show False by simp
    qed
  qed
qed

lemma sorted_dropWhile_all:
  "sorted (map te_observed es) \<Longrightarrow> x \<in> set (dropWhile (\<lambda>x. te_observed x \<le> t) es) \<Longrightarrow> t < te_observed x"
proof (induction es)
  case (Cons e es)
  then show ?case by (cases "te_observed e \<le> t") auto
qed simp

lemma sorted_insert_event:
  assumes "sorted (map te_observed es)"
  shows "sorted (map te_observed (insert_event e es))"
proof -
  let ?P = "\<lambda>x. te_observed x \<le> te_observed e"
  have "sorted (map te_observed (takeWhile ?P es))" "sorted (map te_observed (dropWhile ?P es))"
    using assms by (metis map_append sorted_append takeWhile_dropWhile_id)+
  moreover have "te_observed e < te_observed x" if "x \<in> set (dropWhile ?P es)" for x
    using sorted_dropWhile_all [OF assms that] .
  ultimately show ?thesis
    by (fastforce simp: insert_event_def sorted_append dest: set_takeWhileD)
qed

lemma filter_insert_event:
  assumes "sorted (map te_observed es)"
  shows "filter (\<lambda>x. k = te_observed x) (insert_event e es)
    = filter (\<lambda>x. k = te_observed x) es @ (if k = te_observed e then [e] else [])"
proof -
  let ?P = "\<lambda>x. te_observed x \<le> te_observed e"
  have es: "filter (\<lambda>x. k = te_observed x) es = filter (\<lambda>x. k = te_observed x) (takeWhile ?P es)
      @ filter (\<lambda>x. k = te_observed x) (dropWhile ?P es)"
    by (metis filter_append takeWhile_dropWhile_id)
  have "filter (\<lambda>x. k = te_observed x) (dropWhile ?P es) = []" if "k = te_observed e"
    using sorted_dropWhile_all [OF assms] that by (fastforce simp: filter_empty_conv)
  then show ?thesis by (auto simp: es insert_event_def)
qed

lemma mset_insert_event: "mset (insert_event e es) = add_mset e (mset es)"
proof -
  let ?P = "\<lambda>x. te_observed x \<le> te_observed e"
  have "mset (takeWhile ?P es) + mset (dropWhile ?P es) = mset es"
    by (simp only: mset_append [symmetric] takeWhile_dropWhile_id)
  then show ?thesis by (simp add: insert_event_def)
qed

lemma length_insert_event [simp]: "length (insert_event e es) = Suc (length es)"
  using arg_cong [OF mset_insert_event [of e es], of size] by simp

lemma insert_event_not_Nil [simp]: "insert_event e es \<noteq> []"
  by (simp add: insert_event_def)

lemma sort_snoc: "sort_key te_observed (obs @ [e]) = insert_event e (sort_key te_observed obs)"
proof (rule properties_for_sort_key)
  let ?s = "sort_key te_observed obs"
  have "mset (insert_event e ?s) = add_mset e (mset ?s)" by (rule mset_insert_event)
  then show "mset (insert_event e ?s) = mset (obs @ [e])" by simp
  have st: "filter (\<lambda>x. k = te_observed x) ?s = filter (\<lambda>x. k = te_observed x) obs" for k
    using sort_key_stable [of te_observed k obs] by (simp add: eq_commute)
  show "filter (\<lambda>x. te_observed k = te_observed x) (insert_event e ?s)
      = filter (\<lambda>x. te_observed k = te_observed x) (obs @ [e])" for k
    by (simp add: filter_insert_event st)
  show "sorted (map te_observed (insert_event e ?s))" by (simp add: sorted_insert_event)
qed

text \<open>What the newest \<open>cap\<close> events of a sorted list become when one event is inserted.\<close>

lemma drop_insert_before:
  assumes "sorted (map te_observed L)" "k \<le> length L" "k < length L \<Longrightarrow> te_observed e < te_observed (L ! k)"
    "k < length L"
  shows "drop (Suc k) (insert_event e L) = drop k L" 
proof -
  let ?P = "\<lambda>x. te_observed x \<le> te_observed e"
  let ?n = "length (takeWhile ?P L)"
  have "?n \<le> k"
  proof (rule ccontr)
    assume "\<not> ?n \<le> k"
    then have "?P (L ! k)"
      using takeWhile_nth [of k ?P L] nth_mem [of k "takeWhile ?P L"] by (auto dest!: set_takeWhileD)
    then show False using assms(3,4) by simp
  qed
  then have "drop (Suc k) (insert_event e L) = drop (k - ?n) (dropWhile ?P L)"
    by (simp add: insert_event_def Suc_diff_le)
  also have "\<dots> = drop k L"
    using \<open>?n \<le> k\<close> by (simp add: dropWhile_eq_drop)
  finally show ?thesis .
qed

lemma drop_insert_after:
  assumes "sorted (map te_observed L)" "k \<le> length L" "\<And>x. x \<in> set (take k L) \<Longrightarrow> te_observed x \<le> te_observed e"
  shows "drop k (insert_event e L) = insert_event e (drop k L)"
proof -
  let ?P = "\<lambda>x. te_observed x \<le> te_observed e"
  have L: "L = take k L @ drop k L" by simp
  have "takeWhile ?P L = take k L @ takeWhile ?P (drop k L)" "dropWhile ?P L = dropWhile ?P (drop k L)"
    using assms(3) takeWhile_append2 [of "take k L" ?P "drop k L"] dropWhile_append2 [of "take k L" ?P "drop k L"]
    by auto
  then show ?thesis using assms(2) by (simp add: insert_event_def)
qed

text \<open>
  The tracker holds the newest events of the stable sort of all observations, and its marker is the
  time of the newest event that is missing.
\<close>

definition newest :: "nat \<Rightarrow> event list \<Rightarrow> event list" where
  "newest cap obs = drop (length obs - cap) (sort_key te_observed obs)"

definition evicted :: "nat \<Rightarrow> event list \<Rightarrow> event list" where
  "evicted cap obs = take (length obs - cap) (sort_key te_observed obs)"

definition tracker_abs :: "event list \<Rightarrow> tracker \<Rightarrow> bool" where
  "tracker_abs obs t \<longleftrightarrow> 0 < tk_capacity t \<and> tk_events t = newest (tk_capacity t) obs \<and>
     tk_evicted t = (if evicted (tk_capacity t) obs = [] then 0
       else te_observed (last (evicted (tk_capacity t) obs)))"

lemma sorted_newest: "sorted (map te_observed (newest cap obs))"
  unfolding newest_def drop_map [symmetric] by (rule sorted_wrt_drop) simp

lemma length_newest: "length (newest cap obs) = min cap (length obs)"
  by (simp add: newest_def)

lemma sorted_last_ge:
  "sorted (map te_observed es) \<Longrightarrow> x \<in> set es \<Longrightarrow> te_observed x \<le> te_observed (last es)"
  by (induction es) auto

lemma store_position:
  assumes "tracker_abs obs t"
  shows "go_search (\<lambda>i. te_observed e < te_observed (tk_events t ! i)) 0 (length (tk_events t))
     = length (takeWhile (\<lambda>x. te_observed x \<le> te_observed e) (tk_events t))"
  using assms sorted_newest by (intro search_position) (simp add: tracker_abs_def)

lemma insert_at_position:
  "take (length (takeWhile (\<lambda>x. te_observed x \<le> te_observed e) es)) es @ e #
     drop (length (takeWhile (\<lambda>x. te_observed x \<le> te_observed e) es)) es = insert_event e es"
  by (simp add: insert_event_def takeWhile_eq_take [symmetric] dropWhile_eq_drop [symmetric])

lemma store_room:
  assumes "tracker_abs obs t" "length (tk_events t) < tk_capacity t"
  shows "tracker_abs (obs @ [e]) (store_event e t)"
proof -
  have "length obs < tk_capacity t" using assms by (simp add: tracker_abs_def length_newest)
  then show ?thesis using assms store_position [OF assms(1), of e]
    by (simp add: tracker_abs_def store_event_def Let_def insert_at_position newest_def evicted_def sort_snoc)
qed

text \<open>When the list is full, the new event or the oldest retained one is evicted.\<close>

lemma take_Suc_insert:
  assumes "drop (Suc k) (insert_event e L) = drop k L" "k \<le> length L" "sorted (map te_observed L)"
    "k < length L \<Longrightarrow> te_observed e < te_observed (L ! k)" "k < length L"
    shows "last (take (Suc k) (insert_event e L)) =
      (if k = 0 \<or> te_observed (last (take k L)) \<le> te_observed e then e else last (take k L))"
proof -
  let ?P = "\<lambda>x. te_observed x \<le> te_observed e"
  let ?n = "length (takeWhile ?P L)"
  have last_k: "k \<noteq> 0 \<Longrightarrow> last (take k L) = L ! (k - 1)"
    using assms(2) by (subst last_conv_nth) (auto simp: min_absorb2)
  have nle: "?n \<le> k"
  proof (rule ccontr)
    assume "\<not> ?n \<le> k"
    then have "?P (L ! k)"
      using takeWhile_nth [of k ?P L] nth_mem [of k "takeWhile ?P L"] by (auto dest!: set_takeWhileD)
    then show False using assms(4,5) by simp
  qed
  have nth: "last (take (Suc k) (insert_event e L)) = insert_event e L ! k"
    using assms(2) by (subst last_conv_nth) (auto simp: min_absorb2)
  show ?thesis
  proof (cases "?n = k")
    case True
    have "insert_event e L ! k = e" using True by (simp add: insert_event_def nth_append)
    moreover have "te_observed (last (take k L)) \<le> te_observed e" if "k \<noteq> 0"
    proof -
      have "takeWhile ?P L = take k L" using True by (metis takeWhile_eq_take)
      then have "last (take k L) \<in> set (takeWhile ?P L)" using that True by (metis last_in_set length_0_conv)
      then show ?thesis by (auto dest: set_takeWhileD)
    qed
    ultimately show ?thesis using nth by auto
  next
    case False
    then have lt: "?n < k" using nle by simp
    have "insert_event e L ! k = dropWhile ?P L ! (k - 1 - ?n)"
      using lt by (simp add: insert_event_def nth_append)
    also have "\<dots> = L ! (k - 1)" using lt assms(2) by (simp add: dropWhile_eq_drop)
    finally have v: "insert_event e L ! k = L ! (k - 1)" .
    have "te_observed (L ! ?n) \<le> te_observed (L ! (k - 1))"
      using assms(2,3) lt by (simp add: sorted_iff_nth_mono)
    moreover have "\<not> ?P (L ! ?n)" using nth_length_takeWhile [of ?P L] lt assms(2) by simp
    ultimately show ?thesis using nth v last_k lt by auto
  qed
qed

lemma store_full:
  assumes abs: "tracker_abs obs t" and full: "\<not> length (tk_events t) < tk_capacity t"
    and pos: "0 < te_observed e" "\<And>x. x \<in> set obs \<Longrightarrow> 0 < te_observed x"
  shows "tracker_abs (obs @ [e]) (store_event e t)"
proof -
  define L where "L = sort_key te_observed obs"
  define k where "k = length obs - tk_capacity t"
  let ?P = "\<lambda>x. te_observed x \<le> te_observed e" and ?es = "tk_events t"
  have cap: "0 < tk_capacity t" and es: "?es = drop k L" and sL: "sorted (map te_observed L)"
    and kl: "k < length L" and len: "length obs - tk_capacity t = k" "Suc (length obs) - tk_capacity t = Suc k"
    and ev: "tk_evicted t = (if k = 0 then 0 else te_observed (last (take k L)))"
    using abs full length_0_conv [of "sort_key te_observed obs"]
    by (auto simp: tracker_abs_def newest_def evicted_def L_def k_def simp del: length_0_conv)
  have hd: "?es ! 0 = L ! k" "?es \<noteq> []" using kl by (simp_all add: es)
  have snoc: "sort_key te_observed (obs @ [e]) = insert_event e L" by (simp add: sort_snoc L_def)
  have goal: "tracker_abs (obs @ [e]) s \<longleftrightarrow> tk_events s = drop (Suc k) (insert_event e L) \<and>
      tk_evicted s = te_observed (last (take (Suc k) (insert_event e L)))" if "tk_capacity s = tk_capacity t" for s
    using that cap by (simp add: tracker_abs_def newest_def evicted_def snoc len)
  have position: "go_search (\<lambda>i. te_observed e < te_observed (?es ! i)) 0 (length ?es) = length (takeWhile ?P ?es)"
    by (rule store_position [OF abs])
  show ?thesis
  proof (cases "?P (L ! k)")
    case True
    have below: "?P x" if "x \<in> set (take (Suc k) L)" for x
    proof -
      from that obtain i where "i \<le> k" "x = L ! i" using kl by (auto simp: in_set_conv_nth less_Suc_eq_le)
      then have "te_observed x \<le> te_observed (L ! k)" using sL kl by (simp add: sorted_iff_nth_mono)
      then show ?thesis using True by simp
    qed
    have tw: "takeWhile ?P ?es \<noteq> []" using True hd by (cases ?es) auto
    then have st: "store_event e t = (note_evicted (te_observed (L ! k)) t)\<lparr>tk_events :=
        drop 1 (take (length (takeWhile ?P ?es)) ?es) @ [e] @ drop (length (takeWhile ?P ?es)) ?es\<rparr>"
      using full hd(1) by (simp add: store_event_def Let_def position)
    have "drop 1 (take (length (takeWhile ?P ?es)) ?es) @ [e] @ drop (length (takeWhile ?P ?es)) ?es
        = drop 1 (insert_event e ?es)"
      using tw unfolding takeWhile_eq_take [symmetric] dropWhile_eq_drop [symmetric]
      by (cases "takeWhile ?P ?es") (simp_all add: insert_event_def)
    also have "insert_event e ?es = drop k (insert_event e L)"
      using drop_insert_after [OF sL, of k e] below kl by (auto simp: es take_Suc_conv_app_nth)
    finally have events: "tk_events (store_event e t) = drop (Suc k) (insert_event e L)"
      by (simp add: st)
    have "takeWhile ?P L = take (Suc k) L @ takeWhile ?P (drop (Suc k) L)"
      using below takeWhile_append2 [of "take (Suc k) L" ?P "drop (Suc k) L"] by simp
    then have "take (Suc k) (insert_event e L) = take (Suc k) L"
      using kl by (simp add: insert_event_def)
    then have last: "last (take (Suc k) (insert_event e L)) = L ! k"
      using kl by (simp add: take_Suc_conv_app_nth)
    have "tk_evicted t \<le> te_observed (L ! k)"
    proof (cases "k = 0")
      case True
      have "L ! k \<in> set obs" using kl by (metis L_def nth_mem set_sort)
      then show ?thesis using pos(2) ev True by fastforce
    next
      case False
      then have "last (take k L) = L ! (k - 1)" using kl by (subst last_conv_nth) (auto simp: min_absorb2)
      then show ?thesis using sL kl False ev by (simp add: sorted_iff_nth_mono)
    qed
    then have "tk_evicted (store_event e t) = te_observed (L ! k)"
      by (auto simp: st note_evicted_def)
    then show ?thesis using events last by (simp add: goal st note_evicted_def)
  next
    case False
    then have tw: "takeWhile ?P ?es = []" using hd by (cases ?es) auto
    then have st: "store_event e t = note_evicted (te_observed e) t"
      using full by (simp add: store_event_def Let_def position)
    have old: "te_observed e < te_observed (L ! k)" using False by simp
    have d: "drop (Suc k) (insert_event e L) = drop k L"
      using drop_insert_before [OF sL, of k e] old kl by simp
    have "te_observed (last (take (Suc k) (insert_event e L))) = max (tk_evicted t) (te_observed e)"
      using take_Suc_insert [OF d _ sL] old kl ev pos(1) by auto
    then show ?thesis using d es by (auto simp: goal st note_evicted_def)
  qed
qed

text \<open>Whole runs: what was observed, with the time each event got.\<close>

fun observe_all :: "(time option \<times> time \<times> event) list \<Rightarrow> tracker \<Rightarrow> tracker" where
  "observe_all [] t = t"
| "observe_all ((parsed, clock, e) # os) t = observe_all os (observe_event parsed clock e t)"

definition stamped :: "(time option \<times> time \<times> event) list \<Rightarrow> event list" where
  "stamped os = map (\<lambda>(parsed, clock, e). stamp parsed clock e) os"

lemma store_abs:
  assumes "tracker_abs obs t" "\<And>x. x \<in> set (obs @ [e]) \<Longrightarrow> 0 < te_observed x"
  shows "tracker_abs (obs @ [e]) (store_event e t)"
  using store_room [OF assms(1)] store_full [OF assms(1)] assms(2) by auto

lemma store_capacity: "tk_capacity (store_event e t) = tk_capacity t" "tk_window (store_event e t) = tk_window t"
  by (simp_all add: store_event_def note_evicted_def Let_def)

lemma observe_all_settings:
  "tk_capacity (observe_all os t) = tk_capacity t \<and> tk_window (observe_all os t) = tk_window t"
  by (induction os t rule: observe_all.induct) (simp_all add: observe_event_def store_capacity)

lemma observe_all_abs:
  assumes "tracker_abs obs t" "\<And>x. x \<in> set (obs @ stamped os) \<Longrightarrow> 0 < te_observed x"
  shows "tracker_abs (obs @ stamped os) (observe_all os t)"
  using assms
proof (induction os t arbitrary: obs rule: observe_all.induct)
  case (2 parsed clock e os t)
  have "tracker_abs (obs @ [stamp parsed clock e]) (observe_event parsed clock e t)"
    unfolding observe_event_def using "2.prems" by (intro store_abs) (auto simp: stamped_def)
  then show ?case using "2.IH" [of "obs @ [stamp parsed clock e]"] "2.prems"(2) by (simp add: stamped_def)
qed (simp add: stamped_def)

lemma new_tracker_abs: "tracker_abs [] (new_tracker cap w)"
  by (simp add: tracker_abs_def new_tracker_def newest_def evicted_def default_capacity_def)

lemmas tracked = observe_all_abs [OF new_tracker_abs, simplified]

lemma recent_events_rev:
  "recent_events limit t = take (if limit \<le> 0 then length (tk_events t) else nat limit) (rev (tk_events t))"
proof (rule nth_equalityI)
  show "length (recent_events limit t) =
      length (take (if limit \<le> 0 then length (tk_events t) else nat limit) (rev (tk_events t)))"
    by (auto simp: recent_events_def Let_def)
  show "recent_events limit t ! i =
      take (if limit \<le> 0 then length (tk_events t) else nat limit) (rev (tk_events t)) ! i"
    if "i < length (recent_events limit t)" for i
    using that by (auto simp: recent_events_def Let_def rev_nth split: if_splits)
qed

text \<open>
  The tracker is a bounded window on everything observed: after any sequence of \<open>Observe\<close>
  calls, in whatever order their times come, it holds exactly the newest \<open>capacity\<close> events of the
  stable sort by time of all of them, and \<open>Recent\<close> lists these newest first. The binary search
  and the in-place shifts therefore never lose, duplicate or misplace an event, and what is evicted
  is always the oldest.
\<close>

theorem tracker_keeps_newest:
  assumes "\<And>x. x \<in> set (stamped os) \<Longrightarrow> 0 < te_observed x" "0 < capacity"
  shows "tk_events (observe_all os (new_tracker capacity w))
       = drop (length os - nat capacity) (sort_key te_observed (stamped os))
    \<and> recent_events limit (observe_all os (new_tracker capacity w))
       = take (if limit \<le> 0 then nat capacity else nat limit)
           (rev (drop (length os - nat capacity) (sort_key te_observed (stamped os))))"
proof -
  let ?t = "observe_all os (new_tracker capacity w)"
  have "tk_capacity ?t = nat capacity" using assms(2) observe_all_settings by (simp add: new_tracker_def)
  then have ev: "tk_events ?t = drop (length os - nat capacity) (sort_key te_observed (stamped os))"
    using tracked [of os capacity w] assms(1) by (simp add: tracker_abs_def newest_def stamped_def)
  then show ?thesis by (simp add: recent_events_rev stamped_def)
qed

definition sample_event :: event where
  "sample_event = \<lparr>te_observed = 0, te_request_id = [], te_client_ip = ''10.0.0.1'', te_method = ''GET'',
     te_host = [], te_path = [], te_fingerprint = [], te_route = [], te_action = ''ALLOW'',
     te_reason = [], te_status = 200, te_duration = 0, te_cache = []\<rparr>"

definition sample_observations :: "(time option \<times> time \<times> event) list" where
  "sample_observations = [(Some 30, 0, sample_event), (Some 10, 0, sample_event), (None, 20, sample_event)]"

theorem tracker_keeps_newest_witness:
  "map te_observed (tk_events (observe_all sample_observations (new_tracker 2 60))) = [20, 30]"
proof -
  have "\<And>x. x \<in> set (stamped sample_observations) \<Longrightarrow> 0 < te_observed x"
    by (auto simp: sample_observations_def stamped_def stamp_def sample_event_def)
  then have "tk_events (observe_all sample_observations (new_tracker 2 60))
      = drop (length sample_observations - 2) (sort_key te_observed (stamped sample_observations))"
    using tracker_keeps_newest [of sample_observations 2 60 0] by simp
  then show ?thesis
    by (simp add: sample_observations_def stamped_def stamp_def sample_event_def del: observe_all.simps)
qed

section \<open>Snapshots\<close>

definition in_recent :: "time \<Rightarrow> event list \<Rightarrow> event list" where
  "in_recent cutoff es = filter (\<lambda>e. \<not> te_observed e < cutoff) es"

lemma tally_spec:
  assumes "tally cutoff es clients out = (clients', out')" "distinct clients"
  shows "ts_requests out' = ts_requests out + length (in_recent cutoff es)
    \<and> ts_allowed out' + ts_rejected out' + ts_canceled out'
        = ts_allowed out + ts_rejected out + ts_canceled out + length (in_recent cutoff es)
    \<and> distinct clients'
    \<and> set clients' = set clients \<union> {te_client_ip e | e. e \<in> set (in_recent cutoff es) \<and> te_client_ip e \<noteq> []}
    \<and> ts_truncated out' = ts_truncated out
    \<and> ts_last out' = (if ts_last out \<noteq> None then ts_last out
         else case in_recent cutoff es of [] \<Rightarrow> None | e # _ \<Rightarrow> Some e)"
  using assms
proof (induction cutoff es clients out rule: tally.induct)
  case (2 cutoff e es clients out)
  show ?case
  proof (cases "te_observed e < cutoff")
    case True
    then show ?thesis using "2.IH"(1) [OF True] "2.prems" by (simp add: in_recent_def)
  next
    case False
    define out1 where "out1 = (if ts_last out = None
      then out\<lparr>ts_last := Some e, ts_last_observed := Some (te_observed e)\<rparr> else out)"
    define out2 where "out2 = out1\<lparr>ts_requests := ts_requests out1 + 1\<rparr>"
    define cl where "cl = (if te_client_ip e \<noteq> [] then List.insert (te_client_ip e) clients else clients)"
    define out3 where "out3 = (if te_action e = ''ALLOW'' \<or> te_action e = ''LOG''
      then out2\<lparr>ts_allowed := ts_allowed out2 + 1\<rparr>
      else if te_action e = ''CANCELED'' then out2\<lparr>ts_canceled := ts_canceled out2 + 1\<rparr>
      else out2\<lparr>ts_rejected := ts_rejected out2 + 1\<rparr>)"
    have run: "tally cutoff es cl out3 = (clients', out')"
      using "2.prems"(1) unfolding tally.simps(2) Let_def out3_def out2_def out1_def cl_def
      by (simp only: False if_False)
    have cl: "distinct cl" "set cl = set clients \<union> (if te_client_ip e \<noteq> [] then {te_client_ip e} else {})"
      using "2.prems"(2) by (auto simp: cl_def)
    have o3: "ts_requests out3 = ts_requests out + 1"
      "ts_allowed out3 + ts_rejected out3 + ts_canceled out3 = ts_allowed out + ts_rejected out + ts_canceled out + 1"
      "ts_truncated out3 = ts_truncated out"
      "ts_last out3 = (if ts_last out \<noteq> None then ts_last out else Some e)"
      by (simp_all add: out1_def out2_def out3_def)
    note ih = "2.IH"(2) [OF False out1_def out2_def cl_def out3_def run cl(1)]
    show ?thesis using ih o3 cl(2) False by (auto simp: in_recent_def)
  qed
qed (simp add: in_recent_def)

lemma drop_future_id:
  assumes "\<And>e. e \<in> set (tk_events t) \<Longrightarrow> te_observed e \<le> now" "tk_evicted t \<le> now"
  shows "drop_future now t = t"
proof -
  have "filter (\<lambda>e. \<not> now < te_observed e) (tk_events t) = tk_events t"
    using assms(1) by (simp add: filter_id_conv not_less)
  then show ?thesis using assms(2) by (simp add: drop_future_def)
qed

lemma newest_evicted_split:
  "filter P (sort_key te_observed obs) = filter P (evicted cap obs) @ filter P (newest cap obs)"
  by (metis append_take_drop_id evicted_def filter_append newest_def)

lemma length_filter_sort_key: "length (filter P (sort_key te_observed obs)) = length (filter P obs)"
  by (metis mset_filter mset_sort size_mset)

lemma traffic_snapshot_fields:
  assumes "traffic_snapshot_of now t = (t', out)" "drop_future now t = t"
  shows "t' = t" "ts_truncated out = (tk_evicted t \<noteq> 0 \<and> \<not> tk_evicted t < now - tk_window t)"
    "ts_requests out = length (in_recent (now - tk_window t) (tk_events t))"
    "ts_allowed out + ts_rejected out + ts_canceled out = ts_requests out"
    "ts_unique out = card {te_client_ip e | e. e \<in> set (in_recent (now - tk_window t) (tk_events t)) \<and> te_client_ip e \<noteq> []}"
    "ts_minimum out = (if ts_truncated out then ts_requests out + 1 else ts_requests out)"
    "ts_last out = (case in_recent (now - tk_window t) (rev (tk_events t)) of [] \<Rightarrow> None | e # _ \<Rightarrow> Some e)"
proof -
  obtain cl o1 where ta: "tally (now - tk_window t) (rev (tk_events t)) [] (snapshot_start now t) = (cl, o1)"
    by fastforce
  note sp = tally_spec [OF ta, simplified]
  have rv: "length (in_recent c (rev es)) = length (in_recent c es)" "set (in_recent c (rev es)) = set (in_recent c es)"
    for c es by (simp_all add: in_recent_def rev_filter [symmetric])
  have st: "ts_requests (snapshot_start now t) = 0" "ts_allowed (snapshot_start now t) = 0"
    "ts_rejected (snapshot_start now t) = 0" "ts_canceled (snapshot_start now t) = 0"
    "ts_last (snapshot_start now t) = None"
    "ts_truncated (snapshot_start now t) = (tk_evicted t \<noteq> 0 \<and> \<not> tk_evicted t < now - tk_window t)"
    by (simp_all add: snapshot_start_def)
  have out: "t' = t" "ts_truncated out = ts_truncated o1" "ts_requests out = ts_requests o1"
    "ts_allowed out = ts_allowed o1" "ts_rejected out = ts_rejected o1" "ts_canceled out = ts_canceled o1"
    "ts_unique out = length cl" "ts_last out = ts_last o1"
    "ts_minimum out = (if ts_truncated o1 then ts_requests o1 + 1 else ts_requests o1)"
    using assms(1) unfolding traffic_snapshot_of_def assms(2) Let_def ta by (auto split: if_splits)
  show "t' = t" by (rule out(1))
  show "ts_truncated out = (tk_evicted t \<noteq> 0 \<and> \<not> tk_evicted t < now - tk_window t)" using sp st out by simp
  show "ts_requests out = length (in_recent (now - tk_window t) (tk_events t))" using sp st out rv by simp
  show "ts_allowed out + ts_rejected out + ts_canceled out = ts_requests out" using sp st out by simp
  show "ts_unique out = card {te_client_ip e | e. e \<in> set (in_recent (now - tk_window t) (tk_events t)) \<and> te_client_ip e \<noteq> []}"
    using sp out(7) distinct_card [of cl] unfolding rv by simp
  show "ts_minimum out = (if ts_truncated out then ts_requests out + 1 else ts_requests out)" using out by simp
  show "ts_last out = (case in_recent (now - tk_window t) (rev (tk_events t)) of [] \<Rightarrow> None | e # _ \<Rightarrow> Some e)"
    using sp st out by simp
qed

lemma evicted_marker:
  assumes "tracker_abs obs t" "\<And>x. x \<in> set obs \<Longrightarrow> 0 < te_observed x"
  shows "(tk_evicted t \<noteq> 0 \<and> \<not> tk_evicted t < cutoff) \<longleftrightarrow> in_recent cutoff (evicted (tk_capacity t) obs) \<noteq> []"
proof (cases "evicted (tk_capacity t) obs = []")
  case True
  then show ?thesis using assms by (simp add: tracker_abs_def in_recent_def)
next
  case False
  let ?E = "evicted (tk_capacity t) obs"
  have m: "tk_evicted t = te_observed (last ?E)" using assms(1) False by (simp add: tracker_abs_def)
  have "last ?E \<in> set obs"
    using False by (metis evicted_def in_set_takeD last_in_set set_sort)
  then have p: "0 < tk_evicted t" using assms(2) m by simp
  have so: "sorted (map te_observed ?E)"
    unfolding evicted_def take_map [symmetric] by (rule sorted_wrt_take) simp
  have "in_recent cutoff ?E \<noteq> [] \<longleftrightarrow> \<not> tk_evicted t < cutoff"
    using sorted_last_ge [OF so] last_in_set [OF False]
    unfolding in_recent_def m filter_empty_conv by (meson not_less order_trans)
  then show ?thesis using p by simp
qed

text \<open>
  A snapshot taken when no observed time lies in the future tells the truth about everything
  that was observed, not only about what is retained: it reports truncation exactly when an event
  of the activity window was evicted; without truncation the request count is the number of all
  observed events in the window, with it the count is smaller than that number and the reported
  minimum is a lower bound. Every counted request is exactly one of allowed, rejected and canceled,
  and the snapshot does not change the tracker.
\<close>

theorem snapshot_truthful:
  assumes "\<And>x. x \<in> set (stamped os) \<Longrightarrow> 0 < te_observed x \<and> te_observed x \<le> now" "0 \<le> now"
    and "t = observe_all os (new_tracker capacity w)" "traffic_snapshot_of now t = (t', out)"
  shows "t' = t
    \<and> (ts_truncated out \<longleftrightarrow> ts_requests out < length (in_recent (now - tk_window t) (stamped os)))
    \<and> (\<not> ts_truncated out \<longrightarrow> ts_requests out = length (in_recent (now - tk_window t) (stamped os)))
    \<and> ts_minimum out \<le> length (in_recent (now - tk_window t) (stamped os))
    \<and> ts_allowed out + ts_rejected out + ts_canceled out = ts_requests out"
proof -
  let ?c = "now - tk_window t" and ?N = "newest (tk_capacity t) (stamped os)" and ?E = "evicted (tk_capacity t) (stamped os)"
  have abs: "tracker_abs (stamped os) t"
    unfolding assms(3) using assms(1) by (intro tracked) simp
  have ev: "tk_events t = ?N" and mk: "tk_evicted t = (if ?E = [] then 0 else te_observed (last ?E))"
    using abs by (simp_all add: tracker_abs_def)
  have N: "set ?N \<subseteq> set (stamped os)" by (metis newest_def set_drop_subset set_sort)
  have E: "set ?E \<subseteq> set (stamped os)" by (metis evicted_def set_take_subset set_sort)
  have "tk_evicted t \<le> now"
    using mk E assms(1,2) last_in_set [of ?E] by (cases "?E = []") (simp, force)
  then have id: "drop_future now t = t"
    using assms(1) N by (intro drop_future_id) (auto simp: ev)
  note f = traffic_snapshot_fields [OF assms(4) id]
  have split: "length (in_recent ?c (stamped os)) = length (in_recent ?c ?E) + length (in_recent ?c ?N)"
    using arg_cong [OF newest_evicted_split [of "\<lambda>e. \<not> te_observed e < ?c" "stamped os" "tk_capacity t"], of length]
    unfolding in_recent_def length_filter_sort_key by simp
  have tr: "ts_truncated out \<longleftrightarrow> in_recent ?c ?E \<noteq> []"
    using f(2) evicted_marker [OF abs, of ?c] assms(1) by simp
  have req: "ts_requests out = length (in_recent ?c ?N)" using f(3) ev by simp
  show ?thesis using f(1,4,6) split tr req by (cases "in_recent ?c ?E") auto
qed

theorem snapshot_truthful_witness:
  "ts_minimum (snd (traffic_snapshot_of 30 (observe_all sample_observations (new_tracker 2 60)))) \<le> 3"
proof -
  let ?t = "observe_all sample_observations (new_tracker 2 60)"
  have times: "\<And>x. x \<in> set (stamped sample_observations) \<Longrightarrow> 0 < te_observed x \<and> te_observed x \<le> 30"
    by (auto simp: sample_observations_def stamped_def stamp_def sample_event_def)
  obtain t' out where o: "traffic_snapshot_of 30 ?t = (t', out)" by fastforce
  have w: "tk_window ?t = 60" using observe_all_settings by (simp add: new_tracker_def)
  have "length (in_recent (30 - tk_window ?t) (stamped sample_observations)) = 3"
    unfolding w by (simp add: in_recent_def sample_observations_def stamped_def stamp_def sample_event_def)
  moreover have "ts_minimum out \<le> length (in_recent (30 - tk_window ?t) (stamped sample_observations))"
    using snapshot_truthful [OF times _ refl o] by simp
  ultimately show ?thesis using o by simp
qed

end
