(* ===== verification/Url_Query.thy ===== *)
theory Url_Query
  imports Http_Header Net_IP "HOL-Library.List_Lexorder" "HOL-Library.Char_ord"
begin

text \<open>
  The part of \<^verbatim>\<open>net/url\<close> that both applications use beyond the fields of a URL: percent-decoding,
  \<^verbatim>\<open>EscapedPath\<close>, \<^verbatim>\<open>ParseQuery\<close>, \<^verbatim>\<open>URL.Query\<close> and \<^verbatim>\<open>Values.Encode\<close>.
\<close>

section \<open>Percent-decoding\<close>

text \<open>\<^verbatim>\<open>url.QueryUnescape\<close> and \<^verbatim>\<open>url.PathUnescape\<close>: only the first maps a plus to a space.\<close>

fun url_unescape :: "bool \<Rightarrow> string \<Rightarrow> string option" where
  "url_unescape q [] = Some []"
| "url_unescape q (c # s) =
     (if c = CHR ''%''
      then (case s of
              a # b # r \<Rightarrow>
                (case (hex_value a, hex_value b) of
                   (Some x, Some y) \<Rightarrow> map_option (\<lambda>t. char_of (nat (16 * x + y)) # t) (url_unescape q r)
                 | _ \<Rightarrow> None)
            | _ \<Rightarrow> None)
      else map_option (\<lambda>t. (if q \<and> c = CHR ''+'' then CHR '' '' else c) # t) (url_unescape q s))"

definition query_unescape :: "string \<Rightarrow> string option" where "query_unescape = url_unescape True"
definition url_path_unescape :: "string \<Rightarrow> string option" where "url_path_unescape = url_unescape False"

text \<open>\<^verbatim>\<open>URL.EscapedPath\<close>: the received spelling of the path when it is a valid encoding of it.\<close>

definition valid_encoded_path :: "string \<Rightarrow> bool" where
  "valid_encoded_path s = list_all (\<lambda>c. path_char_plain c \<or> c \<in> set ''!()*[]%'' \<or> c = CHR 0x27) s"

definition escaped_path :: "go_url \<Rightarrow> string" where
  "escaped_path u =
     (if u_raw_path u \<noteq> [] \<and> valid_encoded_path (u_raw_path u) \<and>
         url_path_unescape (u_raw_path u) = Some (u_path u)
      then u_raw_path u
      else if u_path u = ''*'' then ''*'' else escape_path (u_path u))"

text \<open>\<^verbatim>\<open>url.ParseQuery\<close>: no result if any pair is malformed.\<close>

definition query_pair :: "string \<Rightarrow> (string \<times> string) option option" where
  "query_pair piece =
     (if CHR '';'' \<in> set piece then None
      else if piece = [] then Some None
      else case cut (CHR ''='') piece of
        (k, v) \<Rightarrow>
          (case (query_unescape k, query_unescape (case v of None \<Rightarrow> [] | Some w \<Rightarrow> w)) of
             (Some key, Some val) \<Rightarrow> Some (Some (key, val))
           | _ \<Rightarrow> None))"

definition add_query_value :: "string \<times> string \<Rightarrow> (string, string list) gomap \<Rightarrow> (string, string list) gomap"
where
  "add_query_value kv m =
     gm_put (fst kv) ((case gm_get m (fst kv) of None \<Rightarrow> [] | Some vs \<Rightarrow> vs) @ [snd kv]) m"

fun parse_query_from :: "string list \<Rightarrow> (string, string list) gomap \<Rightarrow> (string, string list) gomap option"
where
  "parse_query_from [] m = Some m"
| "parse_query_from (p # ps) m =
     (case query_pair p of
        None \<Rightarrow> None
      | Some None \<Rightarrow> parse_query_from ps m
      | Some (Some kv) \<Rightarrow> parse_query_from ps (add_query_value kv m))"

definition parse_query :: "string \<Rightarrow> (string, string list) gomap option" where
  "parse_query q = parse_query_from (split_on (CHR ''&'') q) []"

text \<open>\<^verbatim>\<open>URL.Query\<close> keeps the well-formed pairs and drops the malformed ones.\<close>

definition url_query :: "go_url \<Rightarrow> (string, string list) gomap" where
  "url_query u =
     fold (\<lambda>p m. case query_pair p of Some (Some kv) \<Rightarrow> add_query_value kv m | _ \<Rightarrow> m)
       (split_on (CHR ''&'') (u_raw_query u)) []"

text \<open>\<^verbatim>\<open>url.QueryEscape\<close> and \<^verbatim>\<open>Values.Encode\<close>: keys in sorted order.\<close>

definition query_char_plain :: "char \<Rightarrow> bool" where
  "query_char_plain c \<longleftrightarrow> is_lower_letter c \<or> is_upper_letter c \<or> is_digit c \<or> c \<in> set ''-_.~''"

definition query_escape :: "string \<Rightarrow> string" where
  "query_escape s =
     concat (map (\<lambda>c. if query_char_plain c then [c] else if c = CHR '' '' then ''+''
       else [CHR ''%'', upper_hex (of_char c div 16), upper_hex (of_char c)]) s)"

definition values_encode :: "(string, string list) gomap \<Rightarrow> string" where
  "values_encode m =
     join_with ''&'' (concat (map (\<lambda>k. map (\<lambda>v. query_escape k @ ''='' @ query_escape v)
        (case gm_get m k of None \<Rightarrow> [] | Some vs \<Rightarrow> vs)) (sort (map fst m))))"

lemma url_unescape_length: "url_unescape q s = Some t \<Longrightarrow> length t \<le> length s"
proof (induction q s arbitrary: t rule: url_unescape.induct)
  case (2 q c s)
  show ?case
  proof (cases "c = CHR ''%''")
    case True
    with "2.prems" obtain a b r x y t' where s: "s = a # b # r" and h: "hex_value a = Some x" "hex_value b = Some y"
      and r: "url_unescape q r = Some t'" "length t = Suc (length t')"
      by (auto split: list.splits option.splits)
    then show ?thesis using "2.IH"(1) [OF True s refl _ h] r by fastforce
  next
    case False
    then show ?thesis using "2.prems" "2.IH"(2) [OF False] by auto
  qed
qed simp

end
