(* ===== verification/Security_Policy.thy ===== *)
theory Security_Policy
  imports Url_Query Rate_Limit Ban_Manager
begin

text \<open>
  The data shared by the components of the security gateway: the policy of a route, the server
  settings and the custom WAF rules (\<^verbatim>\<open>apps/securityedge/internal/config/config.go\<close>), and the request
  as the gateway sees it. A request body is the byte stream a reader of it would see: its bytes and
  whether the stream then ends or fails.
\<close>

section \<open>Configuration records\<close>

record custom_rule_config =
  cu_id :: string
  cu_name :: string
  cu_category :: string
  cu_description :: string
  cu_score :: int
  cu_targets :: "string list"
  cu_pattern :: string

definition max_custom_rule_score :: int where "max_custom_rule_score = 1000"

record policy =
  po_enabled :: bool
  po_mode :: string
  po_threshold :: int
  po_inspect_body :: bool
  po_max_inspection :: int
  po_body_types :: "string list"
  po_methods :: "string list"
  po_excluded :: "string list"
  po_disabled :: "string list"
  po_allowlist :: "string list"
  po_denylist :: "string list"
  po_max_path :: int
  po_max_query :: int
  po_max_headers :: int
  po_max_header_value :: int
  po_reject_encoded :: bool
  po_reject_types :: bool
  po_block_on_limit :: bool
  po_rate_limit :: rate_limit_config
  po_auto_ban :: auto_ban_config

record tls_config =
  tl_enabled :: bool
  tl_cert_file :: string
  tl_key_file :: string

record transport_config =
  tr_dial_timeout :: duration
  tr_tls_handshake_timeout :: duration
  tr_response_header_timeout :: duration
  tr_expect_continue_timeout :: duration
  tr_idle_conn_timeout :: duration
  tr_max_idle_conns :: int
  tr_max_idle_conns_per_host :: int
  tr_max_conns_per_host :: int
  tr_max_response_header_bytes :: int

record server_config =
  sv_mode :: string
  sv_listen_addr :: string
  sv_upstream_proxy_url :: string
  sv_read_header_timeout :: duration
  sv_read_timeout :: duration
  sv_write_timeout :: duration
  sv_idle_timeout :: duration
  sv_shutdown_timeout :: duration
  sv_max_header_bytes :: int
  sv_max_request_body_bytes :: int
  sv_max_concurrent_requests :: int
  sv_max_concurrent_per_client :: int
  sv_trusted_proxy_cidrs :: "string list"
  sv_forwarded_for_header :: string
  sv_preserve_host :: bool
  sv_add_security_headers :: bool
  sv_tls :: tls_config
  sv_upstream_transport :: transport_config

section \<open>Requests\<close>

text \<open>
  How a body stream ends: the end of the body, a read error, the limit of \<^verbatim>\<open>http.MaxBytesReader\<close>,
  or the chunked reader's complaint about an overlong trailer.
\<close>

datatype body_end = Body_EOF | Body_Error string | Body_Too_Large | Body_Long_Trailer

record body_stream =
  bs_bytes :: string
  bs_end :: body_end

text \<open>
  No stream stands for a missing body (\<^verbatim>\<open>nil\<close> or \<^verbatim>\<open>http.NoBody\<close>). \<open>gq_trailer\<close> is
  \<^verbatim>\<open>Request.Trailer\<close>, whose values \<^verbatim>\<open>net/http\<close> fills in (\<open>gq_trailer_eof\<close>) when the body has been read.
\<close>

record gate_request =
  gq_http :: http_request
  gq_trailer :: header
  gq_trailer_eof :: header
  gq_body :: "body_stream option"

end
