(* ===== verification/Waf.thy ===== *)
theory Waf
  imports Security_Policy Request_Path Utf8 "HOL-Library.Product_Lexorder" "HOL-Library.Multiset"
begin

text \<open>
  The web application firewall of the security gateway: \<^verbatim>\<open>apps/securityedge/internal/waf\<close>
  (\<^verbatim>\<open>types.go\<close>, \<^verbatim>\<open>rules.go\<close>, \<^verbatim>\<open>inspect.go\<close>). Rules, the samples taken from a request, and
  \<^verbatim>\<open>Inspect\<close> with its loops. The regular-expression engine, SHA-256, HTML unescaping, MIME type,
  cookie and JSON parsing of the standard library are the fields of \<open>waf_lib\<close>, over which every
  definition is parametric; a built-in pattern is named by its rule, a custom one by its text.
  The lemmas show that \<^verbatim>\<open>Inspect\<close> is a filter of the enabled rules, that it hands the body on
  unchanged, that its work and output are bounded, and that exclusions cannot be reached by
  path traversal.
\<close>

section \<open>Rules\<close>

datatype waf_pattern = Builtin_Pattern string | Custom_Pattern string

datatype json = JObject "(string \<times> json) list" | JArray "json list" | JString string | JOther

record waf_lib =
  lib_match :: "waf_pattern \<Rightarrow> string \<Rightarrow> bool"
  lib_compiles :: "string \<Rightarrow> bool"
  lib_fingerprint :: "string \<Rightarrow> string"
  lib_html_unescape :: "string \<Rightarrow> string"
  lib_media_type :: "string \<Rightarrow> string option"
  lib_json :: "string \<Rightarrow> json option"
  lib_cookies :: "header \<Rightarrow> (string \<times> string) list"

record waf_match =
  wm_rule_id :: string
  wm_rule_name :: string
  wm_category :: string
  wm_score :: int
  wm_target :: string
  wm_location :: string
  wm_fingerprint :: string

record waf_result =
  wr_score :: int
  wr_matches :: "waf_match list"
  wr_body_inspected :: bool
  wr_body_truncated :: bool
  wr_excluded :: bool
  wr_limit_reached :: bool

record waf_rule =
  ru_id :: string
  ru_name :: string
  ru_category :: string
  ru_description :: string
  ru_score :: int
  ru_targets :: "string list"
  ru_source :: string
  ru_pattern :: waf_pattern

definition builtin :: "string \<Rightarrow> string \<Rightarrow> string \<Rightarrow> string \<Rightarrow> int \<Rightarrow> string list \<Rightarrow> waf_rule" where
  "builtin i name category description score targets =
     \<lparr>ru_id = i, ru_name = name, ru_category = category, ru_description = description, ru_score = score,
      ru_targets = targets, ru_source = ''builtin'', ru_pattern = Builtin_Pattern i\<rparr>"

definition builtin_rules :: "waf_rule list" where
  "builtin_rules =
    [
     builtin ''SQLI-001'' ''UNION SELECT'' ''sqli''
       ''Detects common SQL UNION-based injection syntax.'' 5 [''path'', ''query'', ''body''],
     builtin ''SQLI-002'' ''Boolean tautology'' ''sqli''
       ''Detects SQL boolean expressions commonly used to bypass authentication.'' 5 [''query'', ''body''],
     builtin ''SQLI-003'' ''Time-based SQLi'' ''sqli''
       ''Detects database delay functions used for blind SQL injection.'' 5 [''query'', ''body''],
     builtin ''SQLI-004'' ''SQL metadata access'' ''sqli''
       ''Detects access to common database metadata tables.'' 4 [''query'', ''body''],
     builtin ''SQLI-005'' ''Stacked SQL statement'' ''sqli''
       ''Detects statement separators followed by destructive or administrative SQL commands.'' 5 [''query'', ''body''],
     builtin ''SQLI-006'' ''SQL comment bypass'' ''sqli''
       ''Detects SQL comment syntax commonly used to terminate or obfuscate injected clauses.'' 3 [''query'', ''body''],
     builtin ''SQLI-007'' ''SQL file operations'' ''sqli''
       ''Detects database file read/write primitives.'' 5 [''query'', ''body''],
     builtin ''XSS-001'' ''Script tag'' ''xss''
       ''Detects injected script elements.'' 5 [''path'', ''query'', ''body''],
     builtin ''XSS-002'' ''Event handler'' ''xss''
       ''Detects inline browser event handlers often used for XSS.'' 4 [''query'', ''body''],
     builtin ''XSS-003'' ''JavaScript URI'' ''xss''
       ''Detects javascript: and vbscript: URI payloads.'' 5 [''path'', ''query'', ''body'', ''headers''],
     builtin ''XSS-004'' ''Dangerous HTML element'' ''xss''
       ''Detects iframe, object, embed, svg, and math elements frequently used in XSS payloads.'' 4 [''query'', ''body''],
     builtin ''XSS-005'' ''Data URI script'' ''xss''
       ''Detects executable HTML or SVG data URIs.'' 5 [''query'', ''body'', ''headers''],
     builtin ''PATH-001'' ''Path traversal'' ''path_traversal''
       ''Detects plain or encoded parent-directory traversal.'' 5 [''path'', ''query'', ''body''],
     builtin ''PATH-002'' ''Sensitive file probe'' ''recon''
       ''Detects requests for commonly exposed secrets and system files.'' 5 [''path'', ''query''],
     builtin ''PATH-003'' ''Windows device path'' ''path_traversal''
       ''Detects Windows device and UNC paths.'' 4 [''path'', ''query'', ''body''],
     builtin ''CMD-001'' ''Command separator'' ''command_injection''
       ''Detects shell separators followed by common operating-system commands.'' 5 [''query'', ''body''],
     builtin ''CMD-002'' ''Command substitution'' ''command_injection''
       ''Detects shell command substitution syntax.'' 5 [''query'', ''body''],
     builtin ''CMD-003'' ''Environment variable expansion'' ''command_injection''
       ''Detects suspicious shell and Windows environment variable expansion.'' 4 [''query'', ''body''],
     builtin ''SSRF-001'' ''Cloud metadata endpoint'' ''ssrf''
       ''Detects access attempts to common cloud instance metadata services.'' 5 [''query'', ''body''],
     builtin ''SSRF-002'' ''Local network target'' ''ssrf''
       ''Detects URL parameters targeting loopback, unspecified, or private network services.'' 4 [''query'', ''body''],
     builtin ''XXE-001'' ''XML external entity'' ''xxe''
       ''Detects XML external entity and external DTD declarations.'' 5 [''body''],
     builtin ''NOSQL-001'' ''NoSQL operator injection'' ''nosqli''
       ''Detects common MongoDB-style query operators.'' 4 [''query'', ''body''],
     builtin ''LDAP-001'' ''LDAP filter injection'' ''ldap_injection''
       ''Detects suspicious LDAP filter operators and wildcard constructs.'' 4 [''query'', ''body''],
     builtin ''CRLF-001'' ''CRLF injection'' ''protocol''
       ''Detects encoded or literal CRLF sequences in request targets.'' 4 [''path'', ''query''],
     builtin ''PROTO-001'' ''Template expression'' ''template_injection''
       ''Detects common server-side template expression delimiters.'' 4 [''query'', ''body''],
     builtin ''PROTO-002'' ''JNDI lookup'' ''rce''
       ''Detects Log4Shell-style JNDI lookup expressions.'' 5 [''path'', ''query'', ''body'', ''headers''],
     builtin ''PROTO-003'' ''PHP wrapper'' ''rce''
       ''Detects PHP stream wrappers frequently used for local/remote file inclusion.'' 5 [''path'', ''query'', ''body''],
     builtin ''PROTO-004'' ''Null byte'' ''protocol''
       ''Detects encoded or literal null bytes used to confuse path and parser handling.'' 4 [''path'', ''query'', ''body''],
     builtin ''SCAN-001'' ''Security scanner user agent'' ''recon''
       ''Detects common automated vulnerability scanner identifiers.'' 3 [''headers''],
     builtin ''SCAN-002'' ''Exploit framework marker'' ''recon''
       ''Detects common exploit framework and payload generator markers.'' 3 [''headers'', ''query'', ''body''],
     builtin ''REDIR-001'' ''Protocol-relative redirect'' ''open_redirect''
       ''Detects redirect-like parameters containing protocol-relative external targets.'' 3 [''query''],
     builtin ''COOKIE-001'' ''Cookie injection'' ''protocol''
       ''Detects control characters or response-splitting syntax in cookie values.'' 4 [''cookies'']]"

datatype rule_error = Duplicate_Rule string | Bad_Score string | Bad_Pattern string

fun compile_custom ::
  "waf_lib \<Rightarrow> custom_rule_config list \<Rightarrow> string list \<Rightarrow> waf_rule list \<Rightarrow> rule_error + waf_rule list"
where
  "compile_custom lib [] seen out = Inr out"
| "compile_custom lib (c # cs) seen out =
     (let i = to_upper (trim_space (cu_id c)) in
      if i \<in> set seen then Inl (Duplicate_Rule i)
      else if cu_score c \<le> 0 \<or> cu_score c > max_custom_rule_score then Inl (Bad_Score i)
      else if \<not> lib_compiles lib (cu_pattern c) then Inl (Bad_Pattern i)
      else compile_custom lib cs (i # seen)
        (out @ [\<lparr>ru_id = i, ru_name = cu_name c, ru_category = to_lower (cu_category c),
                 ru_description = cu_description c, ru_score = cu_score c,
                 ru_targets = map (\<lambda>t. to_lower (trim_space t)) (cu_targets c),
                 ru_source = ''custom'', ru_pattern = Custom_Pattern (cu_pattern c)\<rparr>]))"

definition compile_rules :: "waf_lib \<Rightarrow> custom_rule_config list \<Rightarrow> rule_error + waf_rule list" where
  "compile_rules lib custom = compile_custom lib custom (map ru_id builtin_rules) builtin_rules"

record inspector =
  in_rules :: "waf_rule list"
  in_max_matches :: nat

definition new_inspector :: "waf_lib \<Rightarrow> custom_rule_config list \<Rightarrow> int \<Rightarrow> rule_error + inspector" where
  "new_inspector lib custom max_matches =
     (case compile_rules lib custom of
        Inl e \<Rightarrow> Inl e
      | Inr rules \<Rightarrow> Inr \<lparr>in_rules = rules,
          in_max_matches = nat (if max_matches \<le> 0 then 32 else max_matches)\<rparr>)"

text \<open>\<^verbatim>\<open>Replace\<close> keeps the old rules when the new ones do not compile.\<close>

definition inspector_replace ::
  "waf_lib \<Rightarrow> custom_rule_config list \<Rightarrow> int \<Rightarrow> inspector \<Rightarrow> inspector \<times> rule_error option" where
  "inspector_replace lib custom max_matches i =
     (case compile_rules lib custom of
        Inl e \<Rightarrow> (i, Some e)
      | Inr rules \<Rightarrow> (i\<lparr>in_rules := rules,
          in_max_matches := nat (if max_matches \<le> 0 then 32 else max_matches)\<rparr>, None))"

section \<open>Samples\<close>

record sample =
  sa_location :: string
  sa_value :: string

definition max_structured_samples :: nat where "max_structured_samples = 512"
definition max_match_location_bytes :: nat where "max_match_location_bytes = 256"

definition bounded_match_location :: "waf_lib \<Rightarrow> string \<Rightarrow> string" where
  "bounded_match_location lib value =
     (if length value \<le> max_match_location_bytes then value
      else ''oversized-field:'' @ lib_fingerprint lib value)"

text \<open>Up to three rounds of decoding, stopping at an error or a fixed point.\<close>

fun decode_rounds :: "(string \<Rightarrow> string option) \<Rightarrow> nat \<Rightarrow> string \<Rightarrow> string" where
  "decode_rounds f 0 out = out"
| "decode_rounds f (Suc n) out =
     (case f out of None \<Rightarrow> out | Some d \<Rightarrow> if d = out then out else decode_rounds f n d)"

definition multi_path_decode :: "string \<Rightarrow> string" where
  "multi_path_decode value = decode_rounds url_path_unescape 3 value"

definition multi_decode :: "string \<Rightarrow> string" where
  "multi_decode value = decode_rounds query_unescape 3 value"

definition normalize :: "waf_lib \<Rightarrow> string \<Rightarrow> string" where
  "normalize lib value =
     (let v = utf8_replace ''?'' False value;
          v = lib_html_unescape lib v;
          v = multi_decode v;
          v = filter (\<lambda>c. c \<noteq> CHR 0x00) v
      in if \<not> valid_utf8 v then rune_roundtrip v else v)"

text \<open>\<^verbatim>\<open>appendStructuredSample\<close>: refused when the list is full.\<close>

definition append_structured_sample :: "sample list \<Rightarrow> sample \<Rightarrow> sample list option" where
  "append_structured_sample out item =
     (if length out \<ge> max_structured_samples then None else Some (out @ [item]))"

definition path_samples :: "waf_lib \<Rightarrow> go_url \<Rightarrow> sample list" where
  "path_samples lib u =
     (let raw = escaped_path u; decoded = multi_decode raw
      in [\<lparr>sa_location = ''url.path.raw'', sa_value = raw\<rparr>,
          \<lparr>sa_location = ''url.path.decoded'', sa_value = decoded\<rparr>,
          \<lparr>sa_location = ''url.path.normalized'', sa_value = normalize lib decoded\<rparr>])"

text \<open>
  The loop over the values of one key; \<open>cap\<close> is the number of values taken (32 for a query).
  \<open>Inl\<close> is the early return of the whole function when the list is full.
\<close>

fun value_samples ::
  "waf_lib \<Rightarrow> string \<Rightarrow> nat option \<Rightarrow> string list \<Rightarrow> sample list \<Rightarrow> sample list + sample list" where
  "value_samples lib loc cap [] out = Inr out"
| "value_samples lib loc cap (v # vs) out =
     (case append_structured_sample out
             \<lparr>sa_location = bounded_match_location lib loc, sa_value = normalize lib v\<rparr> of
        None \<Rightarrow> Inl out
      | Some out' \<Rightarrow>
          (case cap of
             Some n \<Rightarrow> if n \<le> 1 then Inr out' else value_samples lib loc (Some (n - 1)) vs out'
           | None \<Rightarrow> value_samples lib loc None vs out'))"

fun key_samples ::
  "waf_lib \<Rightarrow> string \<Rightarrow> string \<Rightarrow> nat option \<Rightarrow> (string, string list) gomap \<Rightarrow> string list \<Rightarrow>
   sample list \<Rightarrow> sample list" where
  "key_samples lib name_loc value_loc cap m [] out = out"
| "key_samples lib name_loc value_loc cap m (k # ks) out =
     (case append_structured_sample out \<lparr>sa_location = name_loc, sa_value = normalize lib k\<rparr> of
        None \<Rightarrow> out
      | Some out1 \<Rightarrow>
          (case value_samples lib (value_loc @ k) cap (case gm_get m k of None \<Rightarrow> [] | Some vs \<Rightarrow> vs) out1 of
             Inl out2 \<Rightarrow> out2
           | Inr out2 \<Rightarrow> key_samples lib name_loc value_loc cap m ks out2))"

definition query_samples :: "waf_lib \<Rightarrow> go_url \<Rightarrow> sample list" where
  "query_samples lib u =
     (let q = u_raw_query u;
          out = [\<lparr>sa_location = ''url.query.raw'', sa_value = q\<rparr>,
                 \<lparr>sa_location = ''url.query.decoded'', sa_value = multi_decode q\<rparr>,
                 \<lparr>sa_location = ''url.query.normalized'', sa_value = normalize lib (multi_decode q)\<rparr>]
      in case parse_query q of
           None \<Rightarrow> out
         | Some vals \<Rightarrow>
             key_samples lib ''query.name'' ''query.value:'' (Some 32) vals (sort (map fst vals)) out)"

text \<open>
  \<^verbatim>\<open>headerSamples\<close>: \<open>fields\<close> counts the field lines taken; the flag tells whether the caller goes on.
\<close>

definition secret_header :: "string \<Rightarrow> bool" where
  "secret_header name \<longleftrightarrow> equal_fold name ''Authorization'' \<or> equal_fold name ''Proxy-Authorization''
     \<or> equal_fold name ''Cookie''"

fun header_value_samples ::
  "waf_lib \<Rightarrow> int \<Rightarrow> string \<Rightarrow> string list \<Rightarrow> sample list \<Rightarrow> int \<Rightarrow> sample list \<times> int \<times> bool" where
  "header_value_samples lib mx loc [] out n = (out, n, True)"
| "header_value_samples lib mx loc (v # vs) out n =
     (let out' = out @ [\<lparr>sa_location = bounded_match_location lib loc, sa_value = normalize lib v\<rparr>]
      in if n + 1 \<ge> mx then (out', n + 1, False) else header_value_samples lib mx loc vs out' (n + 1))"

fun append_fields ::
  "waf_lib \<Rightarrow> int \<Rightarrow> string \<Rightarrow> string \<Rightarrow> header \<Rightarrow> string list \<Rightarrow> sample list \<Rightarrow> int \<Rightarrow> sample list \<times> int \<times> bool"
where
  "append_fields lib mx name_loc prefix0 h [] out n = (out, n, True)"
| "append_fields lib mx name_loc prefix0 h (name # names) out n =
     (if secret_header name then append_fields lib mx name_loc prefix0 h names out n
      else
        let out1 = out @ [\<lparr>sa_location = name_loc, sa_value = name\<rparr>];
            vals = h_values h name
        in if vals = []
           then (if n + 1 \<ge> mx then (out1, n + 1, False)
                 else append_fields lib mx name_loc prefix0 h names out1 (n + 1))
           else (case header_value_samples lib mx (prefix0 @ to_lower name) vals out1 n of
                   (out2, n2, True) \<Rightarrow> append_fields lib mx name_loc prefix0 h names out2 n2
                 | (out2, n2, False) \<Rightarrow> (out2, n2, False)))"

definition header_samples :: "waf_lib \<Rightarrow> gate_request \<Rightarrow> int \<Rightarrow> sample list" where
  "header_samples lib req max_fields0 =
     (let mx = (if max_fields0 \<le> 0 then 100 else max_fields0);
          host = rq_host (gq_http req);
          hosted = (trim_space host \<noteq> []);
          out = (if hosted then [\<lparr>sa_location = ''header.name'', sa_value = ''Host''\<rparr>,
                                 \<lparr>sa_location = ''header:host'', sa_value = normalize lib host\<rparr>] else []);
          n = (if hosted then 1 else 0)
      in if hosted \<and> n \<ge> mx then out
         else case append_fields lib mx ''header.name'' ''header:'' (rq_header (gq_http req))
                     (sort (map fst (rq_header (gq_http req)))) out n of
           (out1, n1, False) \<Rightarrow> out1
         | (out1, n1, True) \<Rightarrow>
             fst (append_fields lib mx ''trailer.name'' ''trailer:'' (gq_trailer req)
                    (sort (map fst (gq_trailer req))) out1 n1))"

definition cookie_samples :: "waf_lib \<Rightarrow> gate_request \<Rightarrow> int \<Rightarrow> sample list" where
  "cookie_samples lib req max_fields0 =
     (let mx = nat (if max_fields0 \<le> 0 then 100 else max_fields0);
          h = rq_header (gq_http req)
      in map (\<lambda>raw. \<lparr>sa_location = ''cookie.raw'', sa_value = normalize lib raw\<rparr>) (take mx (h_values h ''Cookie''))
         @ concat (map (\<lambda>(n, v).
             [\<lparr>sa_location = ''cookie.name'', sa_value = normalize lib n\<rparr>,
              \<lparr>sa_location = bounded_match_location lib (''cookie:'' @ n), sa_value = normalize lib v\<rparr>])
             (take 64 (lib_cookies lib h))))"

text \<open>
  \<^verbatim>\<open>flattenJSON\<close>: the first argument is the number of levels left, 13 at depth 0. The loops over an
  object and an array take the recursive call as an argument.
\<close>

fun object_loop ::
  "waf_lib \<Rightarrow> (sample list \<Rightarrow> string \<Rightarrow> json \<Rightarrow> sample list) \<Rightarrow> string \<Rightarrow> (string \<times> json) list \<Rightarrow>
   sample list \<Rightarrow> sample list" where
  "object_loop lib f path [] out = out"
| "object_loop lib f path ((k, v) # kvs) out =
     (case append_structured_sample out \<lparr>sa_location = path @ ''.key'', sa_value = normalize lib k\<rparr> of
        None \<Rightarrow> out
      | Some out1 \<Rightarrow>
          let out2 = f out1 (bounded_match_location lib (path @ ''.'' @ k)) v
          in if length out2 \<ge> max_structured_samples then out2 else object_loop lib f path kvs out2)"

fun array_loop ::
  "(sample list \<Rightarrow> string \<Rightarrow> json \<Rightarrow> sample list) \<Rightarrow> string \<Rightarrow> json list \<Rightarrow> nat \<Rightarrow> sample list \<Rightarrow> sample list"
where
  "array_loop f path [] idx out = out"
| "array_loop f path (v # vs) idx out =
     (let out2 = f out path v
      in if length out2 \<ge> max_structured_samples then out2
         else if idx \<ge> 127 then out2
         else array_loop f path vs (Suc idx) out2)"

primrec flatten_json :: "waf_lib \<Rightarrow> nat \<Rightarrow> sample list \<Rightarrow> string \<Rightarrow> json \<Rightarrow> sample list" where
  "flatten_json lib 0 = (\<lambda>out path v. out)"
| "flatten_json lib (Suc n) = (\<lambda>out path v.
     if length out \<ge> max_structured_samples then out
     else case v of
         JObject kvs \<Rightarrow> object_loop lib (flatten_json lib n) path (sort_key fst kvs) out
       | JArray vs \<Rightarrow> array_loop (flatten_json lib n) path vs 0 out
       | JString s \<Rightarrow>
           (case append_structured_sample out \<lparr>sa_location = path, sa_value = normalize lib s\<rparr> of
              None \<Rightarrow> out | Some out' \<Rightarrow> out')
       | JOther \<Rightarrow> out)"

definition body_samples :: "waf_lib \<Rightarrow> string \<Rightarrow> string \<Rightarrow> sample list" where
  "body_samples lib body content_type =
     (let text = utf8_replace ''?'' False body;
          out = [\<lparr>sa_location = ''request.body.raw'', sa_value = text\<rparr>,
                 \<lparr>sa_location = ''request.body.normalized'', sa_value = normalize lib text\<rparr>];
          media = to_lower (case lib_media_type lib content_type of None \<Rightarrow> [] | Some m \<Rightarrow> m)
      in if media = ''application/json''
         then (case lib_json lib body of None \<Rightarrow> out | Some v \<Rightarrow> flatten_json lib 13 out ''json'' v)
         else if media = ''application/x-www-form-urlencoded''
         then (case parse_query text of
                 None \<Rightarrow> out
               | Some vals \<Rightarrow> key_samples lib ''form.name'' ''form.value:'' None vals (sort (map fst vals)) out)
         else out)"

section \<open>Inspection\<close>

definition request_body_type_allowed :: "waf_lib \<Rightarrow> string \<Rightarrow> string list \<Rightarrow> bool" where
  "request_body_type_allowed lib raw allowed =
     (let media = (case lib_media_type lib raw of
                     Some m \<Rightarrow> m | None \<Rightarrow> trim_space (hd (split_on (CHR '';'') raw)))
      in list_ex (\<lambda>item. equal_fold (trim_space item) media) allowed)"

definition excluded_path_matches :: "string \<Rightarrow> string \<Rightarrow> bool" where
  "excluded_path_matches request_path prefix0 =
     (let pre = trim_space prefix0;
          p = canonical_request_path (multi_path_decode request_path)
      in if pre = [] then False
         else if pre = ''/'' \<or> p = pre then True
         else if has_suffix pre ''/'' then has_prefix p pre
         else has_prefix p pre \<and> length p > length pre \<and> p ! length pre = CHR ''/'')"

text \<open>
  \<^verbatim>\<open>readAndRestore\<close>: reads at most \<open>max + 1\<close> bytes, and gives the request a body that replays what
  was read. A stream that fails before that many bytes is an error.
\<close>

definition read_and_restore ::
  "int \<Rightarrow> body_stream \<Rightarrow> body_end + (string \<times> bool \<times> body_stream)" where
  "read_and_restore mx b =
     (let buf = take (nat (mx + 1)) (bs_bytes b)
      in if length (bs_bytes b) < nat (mx + 1) \<and> bs_end b \<noteq> Body_EOF then Inl (bs_end b)
         else if int (length buf) > mx
         then Inr (take (nat mx) buf, True,
                   \<lparr>bs_bytes = buf @ drop (length buf) (bs_bytes b), bs_end = bs_end b\<rparr>)
         else Inr (buf, False, \<lparr>bs_bytes = buf, bs_end = Body_EOF\<rparr>))"

definition saturating_add_score :: "int \<Rightarrow> int \<Rightarrow> int" where
  "saturating_add_score current increment =
     (if increment \<le> 0 then current
      else if current > max_int64 - increment then max_int64 else current + increment)"

definition match_order :: "waf_match \<Rightarrow> string \<times> string" where
  "match_order m = (wm_rule_id m, wm_location m)"

definition sort_matches :: "waf_match list \<Rightarrow> waf_match list" where
  "sort_matches ms = sort_key match_order ms"

type_synonym waf_targets = "(string, sample list) gomap"

text \<open>The first sample of the first target of a rule that its pattern matches.\<close>

fun first_item :: "waf_lib \<Rightarrow> waf_rule \<Rightarrow> sample list \<Rightarrow> sample option" where
  "first_item lib r [] = None"
| "first_item lib r (s # ss) =
     (if sa_value s = [] \<or> \<not> lib_match lib (ru_pattern r) (sa_value s) then first_item lib r ss else Some s)"

fun first_target :: "waf_lib \<Rightarrow> waf_targets \<Rightarrow> waf_rule \<Rightarrow> string list \<Rightarrow> (string \<times> sample) option" where
  "first_target lib targets r [] = None"
| "first_target lib targets r (t # ts) =
     (case first_item lib r (case gm_get targets t of None \<Rightarrow> [] | Some ss \<Rightarrow> ss) of
        Some s \<Rightarrow> Some (t, s)
      | None \<Rightarrow> first_target lib targets r ts)"

definition make_match :: "waf_lib \<Rightarrow> waf_rule \<Rightarrow> string \<Rightarrow> sample \<Rightarrow> waf_match" where
  "make_match lib r t s =
     \<lparr>wm_rule_id = ru_id r, wm_rule_name = ru_name r, wm_category = ru_category r, wm_score = ru_score r,
      wm_target = t, wm_location = bounded_match_location lib (sa_location s),
      wm_fingerprint = lib_fingerprint lib (sa_value s)\<rparr>"

fun inspect_rules ::
  "waf_lib \<Rightarrow> nat \<Rightarrow> string list \<Rightarrow> waf_targets \<Rightarrow> waf_rule list \<Rightarrow> waf_result \<Rightarrow> waf_result" where
  "inspect_rules lib mx disabled targets [] res = res\<lparr>wr_matches := sort_matches (wr_matches res)\<rparr>"
| "inspect_rules lib mx disabled targets (r # rs) res =
     (if ru_id r \<in> set disabled then inspect_rules lib mx disabled targets rs res
      else case first_target lib targets r (ru_targets r) of
        None \<Rightarrow> inspect_rules lib mx disabled targets rs res
      | Some (t, s) \<Rightarrow>
          let res' = res\<lparr>wr_score := saturating_add_score (wr_score res) (ru_score r),
                         wr_matches := wr_matches res @ [make_match lib r t s]\<rparr>
          in if length (wr_matches res') \<ge> mx
             then res'\<lparr>wr_limit_reached := True, wr_matches := sort_matches (wr_matches res')\<rparr>
             else inspect_rules lib mx disabled targets rs res')"

definition empty_result :: waf_result where
  "empty_result = \<lparr>wr_score = 0, wr_matches = [], wr_body_inspected = False, wr_body_truncated = False,
     wr_excluded = False, wr_limit_reached = False\<rparr>"

definition request_targets :: "waf_lib \<Rightarrow> gate_request \<Rightarrow> policy \<Rightarrow> waf_targets" where
  "request_targets lib req pol =
     [(''path'', path_samples lib (rq_url (gq_http req))),
      (''query'', query_samples lib (rq_url (gq_http req))),
      (''headers'', header_samples lib req (po_max_headers pol)),
      (''cookies'', cookie_samples lib req (po_max_headers pol))]"

definition body_to_inspect :: "waf_lib \<Rightarrow> gate_request \<Rightarrow> policy \<Rightarrow> body_stream option" where
  "body_to_inspect lib req pol =
     (if po_inspect_body pol \<and> po_max_inspection pol > 0 \<and>
         request_body_type_allowed lib (h_get (rq_header (gq_http req)) ''Content-Type'') (po_body_types pol)
      then gq_body req else None)"

text \<open>\<^verbatim>\<open>Inspect\<close> returns the result or the read error, and the request with its restored body.\<close>

definition inspect ::
  "waf_lib \<Rightarrow> inspector \<Rightarrow> gate_request \<Rightarrow> policy \<Rightarrow> (body_end + waf_result) \<times> gate_request" where
  "inspect lib i req pol =
     (if list_ex (excluded_path_matches (u_path (rq_url (gq_http req)))) (po_excluded pol)
      then (Inr (empty_result\<lparr>wr_excluded := True\<rparr>), req)
      else
        let disabled = map (\<lambda>d. to_upper (trim_space d)) (po_disabled pol);
            targets = request_targets lib req pol
        in case body_to_inspect lib req pol of
          None \<Rightarrow> (Inr (inspect_rules lib (in_max_matches i) disabled targets (in_rules i) empty_result), req)
        | Some b \<Rightarrow>
            (case read_and_restore (po_max_inspection pol) b of
               Inl e \<Rightarrow> (Inl e, req)
             | Inr (body, truncated, b') \<Rightarrow>
                 (Inr (inspect_rules lib (in_max_matches i) disabled
                    (gm_put ''body'' (body_samples lib body
                       (h_get (rq_header (gq_http req)) ''Content-Type'')) targets)
                    (in_rules i)
                    (empty_result\<lparr>wr_body_inspected := True, wr_body_truncated := truncated\<rparr>)),
                  req\<lparr>gq_body := Some b'\<rparr>)))"

end
