(* ===== verification/Waf_Correct.thy ===== *)
theory Waf_Correct
  imports Waf "HOL-Library.Multiset"
begin

text \<open>
  The correctness of the web application firewall: what inspection finds, that the body it read is
  handed on unchanged, that its work and its report are bounded, and that a path exclusion cannot be
  reached by traversal or by repeated encoding.
\<close>

section \<open>The rule set\<close>

definition rules_ok :: "waf_rule list \<Rightarrow> bool" where
  "rules_ok rs \<longleftrightarrow> distinct (map ru_id rs) \<and> (\<forall>r \<in> set rs. 0 < ru_score r \<and> ru_score r \<le> max_custom_rule_score)"

lemma builtin_rules_ok: "rules_ok builtin_rules"
proof -
  have "distinct (map ru_id builtin_rules) \<and> list_all (\<lambda>r. 0 < ru_score r \<and> ru_score r \<le> max_custom_rule_score) builtin_rules"
    by code_simp
  then show ?thesis by (simp add: rules_ok_def list_all_iff)
qed

lemma compile_custom_ok:
  assumes "compile_custom lib cs seen out = Inr rs" "rules_ok out" "set seen = set (map ru_id out)"
  shows "rules_ok rs \<and> (\<exists>more. rs = out @ more)"
  using assms
proof (induction lib cs seen out rule: compile_custom.induct)
  case (2 lib c cs seen out)
  let ?i = "to_upper (trim_space (cu_id c))"
  let ?r = "\<lparr>ru_id = ?i, ru_name = cu_name c, ru_category = to_lower (cu_category c),
     ru_description = cu_description c, ru_score = cu_score c,
     ru_targets = map (\<lambda>t. to_lower (trim_space t)) (cu_targets c),
     ru_source = ''custom'', ru_pattern = Custom_Pattern (cu_pattern c)\<rparr>"
  have c: "?i \<notin> set seen" "\<not> (cu_score c \<le> 0 \<or> cu_score c > max_custom_rule_score)"
    "lib_compiles lib (cu_pattern c)" "compile_custom lib cs (?i # seen) (out @ [?r]) = Inr rs"
    using "2.prems"(1) by (simp_all add: Let_def split: if_splits)
  have "rules_ok (out @ [?r])" using "2.prems"(2,3) c(1,2) by (auto simp: rules_ok_def)
  moreover have "set (?i # seen) = set (map ru_id (out @ [?r]))" using "2.prems"(3) by simp
  ultimately have "rules_ok rs \<and> (\<exists>more. rs = (out @ [?r]) @ more)"
    using "2.IH" [OF refl c(1,2)] c(3,4) by simp
  then show ?case by auto
qed auto

lemma compile_rules_ok:
  "compile_rules lib custom = Inr rs \<Longrightarrow> rules_ok rs \<and> (\<exists>more. rs = builtin_rules @ more)"
  unfolding compile_rules_def
  by (erule compile_custom_ok [OF _ builtin_rules_ok refl])

definition inspector_ok :: "inspector \<Rightarrow> bool" where
  "inspector_ok i \<longleftrightarrow> rules_ok (in_rules i) \<and> 0 < in_max_matches i"

lemma new_inspector_ok: "new_inspector lib custom mx = Inr i \<Longrightarrow> inspector_ok i"
  by (auto simp: new_inspector_def inspector_ok_def compile_rules_ok split: sum.splits if_splits)

lemma inspector_replace_ok:
  "inspector_ok i \<Longrightarrow> inspector_ok (fst (inspector_replace lib custom mx i))"
  by (auto simp: inspector_replace_def inspector_ok_def compile_rules_ok split: sum.split)

section \<open>What inspection finds\<close>

definition samples_of :: "waf_targets \<Rightarrow> string \<Rightarrow> sample list" where
  "samples_of targets t = (case gm_get targets t of None \<Rightarrow> [] | Some ss \<Rightarrow> ss)"

definition detects :: "waf_lib \<Rightarrow> waf_targets \<Rightarrow> waf_rule \<Rightarrow> bool" where
  "detects lib targets r \<longleftrightarrow> (\<exists>t \<in> set (ru_targets r). \<exists>s \<in> set (samples_of targets t).
     sa_value s \<noteq> [] \<and> lib_match lib (ru_pattern r) (sa_value s))"

definition rule_match :: "waf_lib \<Rightarrow> string list \<Rightarrow> waf_targets \<Rightarrow> waf_rule \<Rightarrow> waf_match option" where
  "rule_match lib disabled targets r =
     (if ru_id r \<in> set disabled then None
      else map_option (\<lambda>(t, s). make_match lib r t s) (first_target lib targets r (ru_targets r)))"

definition rule_hits :: "waf_lib \<Rightarrow> string list \<Rightarrow> waf_targets \<Rightarrow> waf_rule list \<Rightarrow> waf_match list" where
  "rule_hits lib disabled targets rs = List.map_filter (rule_match lib disabled targets) rs"

lemma first_item_None:
  "first_item lib r ss = None \<longleftrightarrow> (\<forall>s \<in> set ss. sa_value s = [] \<or> \<not> lib_match lib (ru_pattern r) (sa_value s))"
  by (induction lib r ss rule: first_item.induct) auto

lemma first_target_None: "first_target lib targets r ts = None \<longleftrightarrow>
    (\<forall>t \<in> set ts. \<forall>s \<in> set (samples_of targets t). sa_value s = [] \<or> \<not> lib_match lib (ru_pattern r) (sa_value s))"
proof (induction ts)
  case (Cons t ts)
  show ?case
    using Cons first_item_None [of lib r "samples_of targets t"]
    by (cases "first_item lib r (samples_of targets t)") (auto simp: samples_of_def [symmetric])
qed simp

lemma rule_match_detects:
  "rule_match lib disabled targets r \<noteq> None \<longleftrightarrow> ru_id r \<notin> set disabled \<and> detects lib targets r"
  using first_target_None [of lib targets r "ru_targets r"] by (auto simp: rule_match_def detects_def)

lemma rule_match_fields:
  "rule_match lib disabled targets r = Some m \<Longrightarrow>
     wm_rule_id m = ru_id r \<and> wm_score m = ru_score r \<and> (\<exists>x. wm_location m = bounded_match_location lib x)"
  by (auto simp: rule_match_def make_match_def split: if_splits)

lemma inspect_rules_spec:
  assumes "length (wr_matches res) < mx"
  shows "inspect_rules lib mx disabled targets rs res =
    (let hits = rule_hits lib disabled targets rs; n = mx - length (wr_matches res); ms = take n hits
     in res\<lparr>wr_score := foldl saturating_add_score (wr_score res) (map wm_score ms),
           wr_matches := sort_matches (wr_matches res @ ms),
           wr_limit_reached := (wr_limit_reached res \<or> n \<le> length hits)\<rparr>)"
  using assms
proof (induction rs arbitrary: res)
  case Nil
  then show ?case by (simp add: rule_hits_def map_filter_simps)
next
  case (Cons r rs)
  show ?case
  proof (cases "rule_match lib disabled targets r")
    case None
    then have "inspect_rules lib mx disabled targets (r # rs) res = inspect_rules lib mx disabled targets rs res"
      by (auto simp: rule_match_def)
    then show ?thesis using Cons None by (simp add: rule_hits_def map_filter_simps)
  next
    case (Some m)
    then obtain t s where f: "ru_id r \<notin> set disabled" "first_target lib targets r (ru_targets r) = Some (t, s)"
      and m: "m = make_match lib r t s" by (auto simp: rule_match_def split: if_splits)
    let ?res = "res\<lparr>wr_score := saturating_add_score (wr_score res) (wm_score m), wr_matches := wr_matches res @ [m]\<rparr>"
    have sc: "ru_score r = wm_score m" by (simp add: m make_match_def)
    have hits: "rule_hits lib disabled targets (r # rs) = m # rule_hits lib disabled targets rs"
      using Some by (simp add: rule_hits_def map_filter_simps)
    have step: "inspect_rules lib mx disabled targets (r # rs) res =
      (if mx \<le> Suc (length (wr_matches res))
       then ?res\<lparr>wr_limit_reached := True, wr_matches := sort_matches (wr_matches res @ [m])\<rparr>
       else inspect_rules lib mx disabled targets rs ?res)"
      unfolding inspect_rules.simps(2) f(2) option.case prod.case Let_def m [symmetric] sc [symmetric]
      using f(1) by simp
    show ?thesis
    proof (cases "mx \<le> Suc (length (wr_matches res))")
      case True
      then have "mx - length (wr_matches res) = 1" using Cons.prems by simp
      then show ?thesis unfolding step using True by (simp add: hits Let_def)
    next
      case False
      then have "mx - length (wr_matches res) = Suc (mx - Suc (length (wr_matches res)))" by simp
      then show ?thesis unfolding step using False Cons.IH [of ?res] by (simp add: hits Let_def)
    qed
  qed
qed

lemma map_filter_ids:
  assumes "distinct (map ru_id rs)"
  shows "distinct (map wm_rule_id (rule_hits lib disabled targets rs))
    \<and> set (map wm_rule_id (rule_hits lib disabled targets rs)) \<subseteq> set (map ru_id rs)"
  using assms
proof (induction rs)
  case (Cons r rs)
  let ?ids = "map wm_rule_id (rule_hits lib disabled targets rs)"
  have ih: "distinct ?ids" "set ?ids \<subseteq> set (map ru_id rs)" and new: "ru_id r \<notin> set (map ru_id rs)"
    using Cons by simp_all
  show ?case
  proof (cases "rule_match lib disabled targets r")
    case None
    then show ?thesis using ih by (auto simp: rule_hits_def map_filter_simps)
  next
    case (Some m)
    then have "map wm_rule_id (rule_hits lib disabled targets (r # rs)) = ru_id r # ?ids"
      using rule_match_fields [OF Some] by (simp add: rule_hits_def map_filter_simps)
    moreover have "ru_id r \<notin> set ?ids" using ih(2) new by blast
    ultimately show ?thesis using ih by auto
  qed
qed (simp add: rule_hits_def map_filter_simps)

lemma hits_member:
  "m \<in> set (rule_hits lib disabled targets rs) \<Longrightarrow> \<exists>r \<in> set rs. rule_match lib disabled targets r = Some m"
  by (auto simp: rule_hits_def List.map_filter_def)

lemma hits_complete:
  assumes "distinct (map ru_id rs)" "r \<in> set rs"
  shows "(\<exists>m \<in> set (rule_hits lib disabled targets rs). wm_rule_id m = ru_id r) \<longleftrightarrow>
    ru_id r \<notin> set disabled \<and> detects lib targets r"
proof
  assume "\<exists>m \<in> set (rule_hits lib disabled targets rs). wm_rule_id m = ru_id r"
  then obtain m r' where "r' \<in> set rs" "rule_match lib disabled targets r' = Some m" "wm_rule_id m = ru_id r"
    by (auto simp: rule_hits_def List.map_filter_def)
  moreover from this have "ru_id r' = ru_id r" using rule_match_fields by metis
  ultimately have "rule_match lib disabled targets r \<noteq> None"
    using assms by (metis distinct_map inj_on_def option.distinct(1))
  then show "ru_id r \<notin> set disabled \<and> detects lib targets r" by (rule rule_match_detects [THEN iffD1])
next
  assume "ru_id r \<notin> set disabled \<and> detects lib targets r"
  then obtain m where "rule_match lib disabled targets r = Some m" using rule_match_detects by fastforce
  then show "\<exists>m \<in> set (rule_hits lib disabled targets rs). wm_rule_id m = ru_id r"
    using assms(2) rule_match_fields by (force simp: rule_hits_def List.map_filter_def)
qed

lemma saturating_sum:
  assumes "\<forall>x \<in> set xs. 0 < x" "0 \<le> a" "a \<le> max_int64"
  shows "foldl saturating_add_score a xs = min max_int64 (a + sum_list xs)"
  using assms
proof (induction xs arbitrary: a)
  case (Cons x xs)
  have s: "saturating_add_score a x = min max_int64 (a + x)" using Cons.prems by (auto simp: saturating_add_score_def)
  have "0 \<le> sum_list xs" using Cons.prems by (intro sum_list_nonneg) fastforce
  moreover have "0 \<le> saturating_add_score a x" "saturating_add_score a x \<le> max_int64"
    using Cons.prems by (auto simp: s max_int64_def)
  then have "foldl saturating_add_score (saturating_add_score a x) xs
      = min max_int64 (saturating_add_score a x + sum_list xs)" using Cons.IH Cons.prems(1) by simp
  ultimately show ?case by (auto simp: s)
qed simp

text \<open>The samples a successful inspection looks at.\<close>

definition inspected_targets :: "waf_lib \<Rightarrow> gate_request \<Rightarrow> policy \<Rightarrow> waf_targets" where
  "inspected_targets lib req pol =
     (case body_to_inspect lib req pol of
        None \<Rightarrow> request_targets lib req pol
      | Some b \<Rightarrow> gm_put ''body'' (body_samples lib (take (nat (po_max_inspection pol)) (bs_bytes b))
                    (h_get (rq_header (gq_http req)) ''Content-Type'')) (request_targets lib req pol))"

definition disabled_ids :: "policy \<Rightarrow> string list" where
  "disabled_ids pol = map (\<lambda>d. to_upper (trim_space d)) (po_disabled pol)"

lemma read_and_restore_spec:
  assumes "read_and_restore mx b = Inr (body, truncated, b')" "0 \<le> mx"
  shows "b' = b \<and> body = take (nat mx) (bs_bytes b) \<and> (truncated \<longleftrightarrow> mx < int (length (bs_bytes b)))"
proof -
  have n: "nat (mx + 1) = Suc (nat mx)" using assms(2) by simp
  show ?thesis
  proof (cases "length (bs_bytes b) < nat (mx + 1)")
    case True
    then have "take (nat (mx + 1)) (bs_bytes b) = bs_bytes b" "take (nat mx) (bs_bytes b) = bs_bytes b"
      using n by simp_all
    then show ?thesis using assms True by (auto simp: read_and_restore_def Let_def split: if_splits)
  next
    case False
    then have "length (take (nat (mx + 1)) (bs_bytes b)) = nat (mx + 1)" by simp
    then show ?thesis using assms False n
      by (auto simp: read_and_restore_def Let_def min_def split: if_splits)
  qed
qed

lemma inspect_cases:
  assumes "inspect lib i req pol = (Inr res, req')" "\<not> wr_excluded res"
  shows "\<exists>r0. wr_score r0 = 0 \<and> wr_matches r0 = [] \<and> \<not> wr_limit_reached r0 \<and>
      res = inspect_rules lib (in_max_matches i) (disabled_ids pol) (inspected_targets lib req pol) (in_rules i) r0"
proof -
  have nex: "\<not> list_ex (excluded_path_matches (u_path (rq_url (gq_http req)))) (po_excluded pol)"
    using assms by (auto simp: inspect_def)
  show ?thesis
  proof (cases "body_to_inspect lib req pol")
    case None
    then have "res = inspect_rules lib (in_max_matches i) (disabled_ids pol) (inspected_targets lib req pol)
        (in_rules i) empty_result"
      using assms(1) nex by (auto simp: inspect_def disabled_ids_def inspected_targets_def Let_def)
    then show ?thesis by (intro exI [of _ empty_result]) (simp add: empty_result_def)
  next
    case (Some b)
    have mx: "0 \<le> po_max_inspection pol" using Some by (auto simp: body_to_inspect_def split: if_splits)
    obtain body tr b' where r: "read_and_restore (po_max_inspection pol) b = Inr (body, tr, b')"
      using assms(1) nex Some by (auto simp: inspect_def Let_def split: sum.splits)
    let ?r0 = "empty_result\<lparr>wr_body_inspected := True, wr_body_truncated := tr\<rparr>"
    have "res = inspect_rules lib (in_max_matches i) (disabled_ids pol) (inspected_targets lib req pol)
        (in_rules i) ?r0"
      using assms(1) nex Some r read_and_restore_spec [OF r mx]
      by (simp add: inspect_def disabled_ids_def inspected_targets_def Let_def)
    then show ?thesis by (intro exI [of _ ?r0]) (simp add: empty_result_def)
  qed
qed

lemma set_sort_matches [simp]: "set (sort_matches ms) = set ms" "length (sort_matches ms) = length ms"
  "distinct (map wm_rule_id (sort_matches ms)) = distinct (map wm_rule_id ms)"
proof -
  show "set (sort_matches ms) = set ms" "length (sort_matches ms) = length ms" by (simp_all add: sort_matches_def)
  have "mset (map wm_rule_id (sort_matches ms)) = mset (map wm_rule_id ms)"
    by (simp add: sort_matches_def)
  then show "distinct (map wm_rule_id (sort_matches ms)) = distinct (map wm_rule_id ms)"
    by (rule mset_eq_imp_distinct_iff)
qed

text \<open>
  C4. A request that is not excluded is reported exactly by the enabled rules that detect it: the
  matches are, in the order of rule and location, those of the first \<open>maxMatches\<close> enabled rules
  whose pattern matches a non-empty sample of one of their targets, one match per rule; the limit
  flag is set exactly when there are at least that many. When the limit is not reached every
  enabled rule that detects something is among the matches, and no other. The anomaly score is the
  sum of the scores of the matches, saturating at the largest integer, and never wraps around.
\<close>

theorem inspect_exact:
  assumes "inspector_ok i" "inspect lib i req pol = (Inr res, req')" "\<not> wr_excluded res"
  shows "let hits = rule_hits lib (disabled_ids pol) (inspected_targets lib req pol) (in_rules i) in
      wr_matches res = sort_matches (take (in_max_matches i) hits)
    \<and> distinct (map wm_rule_id (wr_matches res))
    \<and> (wr_limit_reached res \<longleftrightarrow> in_max_matches i \<le> length hits)
    \<and> wr_score res = min max_int64 (sum_list (map wm_score (take (in_max_matches i) hits)))
    \<and> (\<not> wr_limit_reached res \<longrightarrow> (\<forall>r \<in> set (in_rules i).
         (\<exists>m \<in> set (wr_matches res). wm_rule_id m = ru_id r) \<longleftrightarrow>
         ru_id r \<notin> set (disabled_ids pol) \<and> detects lib (inspected_targets lib req pol) r))"
proof -
  let ?T = "inspected_targets lib req pol" and ?D = "disabled_ids pol" and ?n = "in_max_matches i"
  let ?hits = "rule_hits lib ?D ?T (in_rules i)"
  have ok: "rules_ok (in_rules i)" and n: "0 < ?n" using assms(1) by (simp_all add: inspector_ok_def)
  obtain r0 where r0: "wr_score r0 = 0" "wr_matches r0 = []" "\<not> wr_limit_reached r0"
    and res: "res = inspect_rules lib ?n ?D ?T (in_rules i) r0" using inspect_cases [OF assms(2,3)] by blast
  have eq: "wr_matches res = sort_matches (take ?n ?hits)" "wr_limit_reached res \<longleftrightarrow> ?n \<le> length ?hits"
    "wr_score res = foldl saturating_add_score 0 (map wm_score (take ?n ?hits))"
    unfolding res using n r0 by (simp_all add: inspect_rules_spec Let_def)
  have "\<forall>x \<in> set (map wm_score (take ?n ?hits)). 0 < x"
    using ok by (auto simp: rules_ok_def dest!: in_set_takeD hits_member rule_match_fields)
  then have sc: "wr_score res = min max_int64 (sum_list (map wm_score (take ?n ?hits)))"
    unfolding eq(3) by (subst saturating_sum) (auto simp: max_int64_def)
  have ids: "distinct (map wm_rule_id ?hits)" using map_filter_ids ok by (auto simp: rules_ok_def)
  then have d: "distinct (map wm_rule_id (wr_matches res))"
    unfolding eq(1) by (simp add: take_map [symmetric])
  have "set (wr_matches res) = set ?hits" if "\<not> wr_limit_reached res" using that eq(1,2) by simp
  then show ?thesis
    using eq(1,2) sc d hits_complete [of "in_rules i"] ok unfolding Let_def rules_ok_def by simp
qed

definition waf_demo_lib :: waf_lib where
  "waf_demo_lib = \<lparr>lib_match = (\<lambda>p v. p = Builtin_Pattern ''XSS-001'' \<and> contains_str v ''<script''),
     lib_compiles = (\<lambda>p. p \<noteq> []), lib_fingerprint = (\<lambda>v. replicate 16 (CHR ''0'')),
     lib_html_unescape = (\<lambda>v. v), lib_media_type = (\<lambda>v. None), lib_json = (\<lambda>v. None),
     lib_cookies = (\<lambda>h. [])\<rparr>"

definition waf_demo_inspector :: inspector where
  "waf_demo_inspector = \<lparr>in_rules = builtin_rules, in_max_matches = 2\<rparr>"

definition waf_demo_policy :: policy where
  "waf_demo_policy = \<lparr>po_enabled = True, po_mode = ''block'', po_threshold = 5, po_inspect_body = True,
     po_max_inspection = 100, po_body_types = [''text/plain''], po_methods = [], po_excluded = [''/static''],
     po_disabled = [], po_allowlist = [], po_denylist = [], po_max_path = 100, po_max_query = 100,
     po_max_headers = 10, po_max_header_value = 100, po_reject_encoded = True, po_reject_types = False,
     po_block_on_limit = True, po_rate_limit = sample_limit, po_auto_ban = sample_ban\<rparr>"

definition waf_demo_request :: "string \<Rightarrow> gate_request" where
  "waf_demo_request path = \<lparr>gq_http = \<lparr>rq_method = ''GET'', rq_host = ''h'',
       rq_url = \<lparr>u_scheme = [], u_opaque = [], u_host = [], u_path = path, u_raw_path = [],
         u_force_query = False, u_raw_query = [], u_fragment = []\<rparr>,
       rq_header = [], rq_remote_addr = ''192.0.2.1:9'', rq_content_length = 0, rq_proto = ''HTTP/1.1'',
       rq_ctx_client_ip = None, rq_ctx_probe = False\<rparr>,
     gq_trailer = [], gq_trailer_eof = [], gq_body = None\<rparr>"

lemma waf_demo_inspector_ok: "inspector_ok waf_demo_inspector"
  using builtin_rules_ok by (simp add: inspector_ok_def waf_demo_inspector_def)


theorem inspect_exact_witness:
  "\<exists>res req'. inspect waf_demo_lib waf_demo_inspector (waf_demo_request ''/<script'') waf_demo_policy = (Inr res, req') \<and>
     distinct (map wm_rule_id (wr_matches res)) \<and> wr_score res = 5"
proof -
  obtain res req' where r: "inspect waf_demo_lib waf_demo_inspector (waf_demo_request ''/<script'') waf_demo_policy = (Inr res, req')"
    and e: "\<not> wr_excluded res" "wr_score res = 5"
  proof -
    have "case inspect waf_demo_lib waf_demo_inspector (waf_demo_request ''/<script'') waf_demo_policy of
        (Inr res, req') \<Rightarrow> \<not> wr_excluded res \<and> wr_score res = 5 | _ \<Rightarrow> False" by code_simp
    then show thesis by (auto split: prod.splits sum.splits intro: that)
  qed
  show ?thesis using inspect_exact [OF waf_demo_inspector_ok r e(1)] r e(2) by (auto simp: Let_def)
qed

section \<open>Bounds\<close>

lemma append_structured_bound:
  "append_structured_sample out item = Some out' \<Longrightarrow> length out' \<le> max_structured_samples"
  by (auto simp: append_structured_sample_def split: if_splits)

lemma value_samples_bound:
  "length out \<le> max_structured_samples \<Longrightarrow>
   length (case value_samples lib loc cap vs out of Inl o' \<Rightarrow> o' | Inr o' \<Rightarrow> o') \<le> max_structured_samples"
proof (induction lib loc cap vs out rule: value_samples.induct)
  case (2 lib loc cap v vs out)
  then show ?case
    by (auto simp: append_structured_bound split: option.splits)
qed simp

lemma key_samples_bound:
  "length out \<le> max_structured_samples \<Longrightarrow>
   length (key_samples lib nl vl cap m ks out) \<le> max_structured_samples"
proof (induction ks arbitrary: out)
  case (Cons k ks)
  show ?case
  proof (cases "append_structured_sample out \<lparr>sa_location = nl, sa_value = normalize lib k\<rparr>")
    case (Some out1)
    let ?v = "value_samples lib (vl @ k) cap (case gm_get m k of None \<Rightarrow> [] | Some vs \<Rightarrow> vs) out1"
    have "length (case ?v of Inl o' \<Rightarrow> o' | Inr o' \<Rightarrow> o') \<le> max_structured_samples"
      using append_structured_bound [OF Some] by (rule value_samples_bound)
    then show ?thesis using Cons.IH Some by (auto split: sum.splits)
  qed (use Cons.prems in simp)
qed simp

lemma object_loop_bound:
  assumes "\<And>o' p v. length o' \<le> max_structured_samples \<Longrightarrow> length (f o' p v) \<le> max_structured_samples"
    "length out \<le> max_structured_samples"
  shows "length (object_loop lib f path kvs out) \<le> max_structured_samples"
  using assms(2)
proof (induction kvs arbitrary: out)
  case (Cons kv kvs)
  obtain k v where kv: "kv = (k, v)" by fastforce
  show ?case
  proof (cases "append_structured_sample out \<lparr>sa_location = path @ ''.key'', sa_value = normalize lib k\<rparr>")
    case (Some out1)
    then have "length (f out1 (bounded_match_location lib (path @ ''.'' @ k)) v) \<le> max_structured_samples"
      using append_structured_bound assms(1) by blast
    then show ?thesis using Cons.IH Some kv by (simp add: Let_def)
  qed (use Cons.prems kv in simp)
qed simp

lemma array_loop_bound:
  assumes "\<And>o' p v. length o' \<le> max_structured_samples \<Longrightarrow> length (f o' p v) \<le> max_structured_samples"
    "length out \<le> max_structured_samples"
  shows "length (array_loop f path vs idx out) \<le> max_structured_samples"
  using assms(2) by (induction vs arbitrary: idx out) (simp_all add: Let_def assms(1))

lemma flatten_json_bound:
  "length out \<le> max_structured_samples \<Longrightarrow> length (flatten_json lib n out path v) \<le> max_structured_samples"
proof (induction n arbitrary: out path v)
  case (Suc n)
  then show ?case
    by (cases v) (auto intro!: object_loop_bound array_loop_bound dest: append_structured_bound split: option.splits)
qed simp

lemma few_samples [simp]:
  "Suc (Suc 0) \<le> max_structured_samples" "Suc (Suc (Suc 0)) \<le> max_structured_samples"
  by (simp_all add: max_structured_samples_def)

lemma structured_bounds:
  "length (query_samples lib u) \<le> max_structured_samples"
  "length (body_samples lib body ct) \<le> max_structured_samples"
  unfolding query_samples_def body_samples_def Let_def
  by (auto intro!: key_samples_bound flatten_json_bound split: option.splits)

lemma bounded_location:
  "(\<And>v. length (lib_fingerprint lib v) = 16) \<Longrightarrow> length (bounded_match_location lib x) \<le> max_match_location_bytes"
  by (simp add: bounded_match_location_def max_match_location_bytes_def)

lemma inspect_rules_keeps:
  "wr_body_truncated (inspect_rules lib mx d t rs res) = wr_body_truncated res \<and>
   wr_body_inspected (inspect_rules lib mx d t rs res) = wr_body_inspected res \<and>
   wr_excluded (inspect_rules lib mx d t rs res) = wr_excluded res"
  by (induction lib mx d t rs res rule: inspect_rules.induct) (auto simp: Let_def split: option.splits)

text \<open>Header fields: each counted field gives at most two samples, and no more than the cap are counted.\<close>

lemma header_value_samples_bound:
  assumes "header_value_samples lib mx loc vs out n = (out', n', go)" "n < mx"
  shows "int (length out') - int (length out) = n' - n" "n \<le> n'" "vs \<noteq> [] \<longrightarrow> n < n'" "if go then n' < mx else n' \<le> mx"
proof -
  have "int (length out') - int (length out) = n' - n \<and> n \<le> n' \<and> (vs \<noteq> [] \<longrightarrow> n < n') \<and> (if go then n' < mx else n' \<le> mx)"
    using assms
  proof (induction vs arbitrary: out n)
    case (Cons v vs)
    then show ?case by (fastforce simp: Let_def split: if_splits)
  qed auto
  then show "int (length out') - int (length out) = n' - n" "n \<le> n'" "vs \<noteq> [] \<longrightarrow> n < n'" "if go then n' < mx else n' \<le> mx"
    by blast+
qed

lemma append_fields_bound:
  assumes "append_fields lib mx nl pre h names out n = (out', n', go)" "n < mx" "int (length out) \<le> 2 * n"
  shows "int (length out') \<le> 2 * n' \<and> (if go then n' < mx else n' \<le> mx)"
  using assms
proof (induction names arbitrary: out n)
  case (Cons name names)
  show ?case
  proof (cases "secret_header name \<or> h_values h name = []")
    case True
    then show ?thesis using Cons by (auto simp: Let_def split: if_splits)
  next
    case False
    let ?out1 = "out @ [\<lparr>sa_location = nl, sa_value = name\<rparr>]"
    obtain out2 n2 go2 where v: "header_value_samples lib mx (pre @ to_lower name) (h_values h name) ?out1 n = (out2, n2, go2)"
      by (metis prod_cases3)
    note b = header_value_samples_bound [OF v Cons.prems(2)]
    have "int (length out2) \<le> 2 * n2" using b(1,3) False Cons.prems(3) by simp
    then show ?thesis using Cons.IH [of out2 n2] Cons.prems(1) False v b(4) by (cases go2) (auto simp: Let_def)
  qed
qed auto

definition header_field_cap :: "policy \<Rightarrow> int" where
  "header_field_cap pol = (if po_max_headers pol \<le> 0 then 100 else po_max_headers pol)"

lemma header_samples_bound: "int (length (header_samples lib req (po_max_headers pol))) \<le> 2 * header_field_cap pol"
proof -
  let ?mx = "header_field_cap pol" and ?h = "rq_header (gq_http req)"
  let ?hosted = "trim_space (rq_host (gq_http req)) \<noteq> []"
  let ?out = "if ?hosted then [\<lparr>sa_location = ''header.name'', sa_value = ''Host''\<rparr>,
    \<lparr>sa_location = ''header:host'', sa_value = normalize lib (rq_host (gq_http req))\<rparr>] else []" and ?n = "if ?hosted then 1 else 0 :: int"
  have mx: "1 \<le> ?mx" by (simp add: header_field_cap_def)
  obtain o1 n1 g1 where f1: "append_fields lib ?mx ''header.name'' ''header:'' ?h (sort (map fst ?h)) ?out ?n = (o1, n1, g1)" by (metis prod_cases3)
  obtain o2 n2 g2 where f2: "append_fields lib ?mx ''trailer.name'' ''trailer:'' (gq_trailer req) (sort (map fst (gq_trailer req))) o1 n1 = (o2, n2, g2)"
    by (metis prod_cases3)
  have s: "header_samples lib req (po_max_headers pol) = (if ?hosted \<and> ?n \<ge> ?mx then ?out else if g1 then o2 else o1)"
    unfolding header_samples_def Let_def header_field_cap_def [symmetric] f1 using f2 by (cases g1) simp_all
  show ?thesis
  proof (cases "?hosted \<and> ?n \<ge> ?mx")
    case True
    then show ?thesis using mx unfolding s if_P [OF True] by simp
  next
    case False
    then have lt: "?n < ?mx" "int (length ?out) \<le> 2 * ?n" using mx by auto
    note b1 = append_fields_bound [OF f1 lt]
    show ?thesis
    proof (cases g1)
      case True
      then show ?thesis using append_fields_bound [OF f2] b1 False unfolding s by (auto split: if_splits)
    qed (use b1 False in \<open>auto simp: s\<close>)
  qed
qed

lemma cookie_samples_bound: "int (length (cookie_samples lib req (po_max_headers pol))) \<le> header_field_cap pol + 128"
proof -
  have "sum_list (map (length \<circ> (\<lambda>(n, v). [f n v, g n v])) xs) = 2 * length xs" for f g :: "string \<Rightarrow> string \<Rightarrow> sample" and xs
    by (induction xs) auto
  then show ?thesis by (auto simp: cookie_samples_def Let_def header_field_cap_def length_concat min_def comp_def)
qed

text \<open>What an inspection reports about the body, and that it depends on the first bytes only.\<close>

lemma inspect_request:
  assumes "inspect lib i req pol = (Inr res, req')"
  shows "req' = req"
    "wr_body_inspected res \<longleftrightarrow> \<not> wr_excluded res \<and> body_to_inspect lib req pol \<noteq> None"
    "wr_body_truncated res \<longleftrightarrow> wr_body_inspected res \<and> (\<exists>b. gq_body req = Some b \<and> po_max_inspection pol < int (length (bs_bytes b)))"
proof -
  have "req' = req \<and> (wr_body_inspected res \<longleftrightarrow> \<not> wr_excluded res \<and> body_to_inspect lib req pol \<noteq> None) \<and>
    (wr_body_truncated res \<longleftrightarrow> wr_body_inspected res \<and> (\<exists>b. gq_body req = Some b \<and> po_max_inspection pol < int (length (bs_bytes b))))"
  proof (cases "body_to_inspect lib req pol")
    case None
    then show ?thesis using assms
      by (auto simp: inspect_def empty_result_def inspect_rules_keeps Let_def split: if_splits)
  next
    case (Some b)
    have b: "0 \<le> po_max_inspection pol" "gq_body req = Some b"
      using Some by (auto simp: body_to_inspect_def split: if_splits)
    show ?thesis
    proof (cases "read_and_restore (po_max_inspection pol) b")
      case (Inl e)
      then show ?thesis using assms Some
        by (auto simp: inspect_def empty_result_def Let_def split: if_splits)
    next
      case (Inr r)
      obtain body tr b' where r: "r = (body, tr, b')" by (cases r)
      note sp = read_and_restore_spec [OF Inr [unfolded r] b(1)]
      show ?thesis using assms Some Inr r sp b(2)
        by (auto simp: inspect_def empty_result_def inspect_rules_keeps Let_def split: if_splits)
    qed
  qed
  then show "req' = req" "wr_body_inspected res \<longleftrightarrow> \<not> wr_excluded res \<and> body_to_inspect lib req pol \<noteq> None"
    "wr_body_truncated res \<longleftrightarrow> wr_body_inspected res \<and> (\<exists>b. gq_body req = Some b \<and> po_max_inspection pol < int (length (bs_bytes b)))"
    by blast+
qed

lemma read_prefix:
  assumes "take (nat mx) (bs_bytes b) = take (nat mx) (bs_bytes b')" "mx < int (length (bs_bytes b))" "mx < int (length (bs_bytes b'))" "0 < mx"
  shows "\<exists>x y. read_and_restore mx b = Inr (take (nat mx) (bs_bytes b), True, x) \<and> read_and_restore mx b' = Inr (take (nat mx) (bs_bytes b), True, y)"
proof -
  have "nat (mx + 1) \<le> length (bs_bytes b)" "nat (mx + 1) \<le> length (bs_bytes b')" "nat mx \<le> nat (mx + 1)" using assms(2-4) by linarith+
  then show ?thesis using assms(1,4) by (auto simp: read_and_restore_def Let_def min_def)
qed

lemma inspect_prefix:
  assumes "gq_body req = Some b" "take (nat (po_max_inspection pol)) (bs_bytes b') = take (nat (po_max_inspection pol)) (bs_bytes b)"
    "po_max_inspection pol < int (length (bs_bytes b))" "po_max_inspection pol < int (length (bs_bytes b'))"
  shows "fst (inspect lib i (req\<lparr>gq_body := Some b'\<rparr>) pol) = fst (inspect lib i req pol)"
proof -
  let ?req = "req\<lparr>gq_body := Some b'\<rparr>"
  have g: "gq_http ?req = gq_http req" "gq_trailer ?req = gq_trailer req" by simp_all
  have t: "request_targets lib ?req pol = request_targets lib req pol"
    unfolding request_targets_def header_samples_def cookie_samples_def g by (rule refl)
  note same = t g(1)
  show ?thesis
  proof (cases "body_to_inspect lib req pol")
    case None
    then have "body_to_inspect lib ?req pol = None" using assms(1) by (auto simp: body_to_inspect_def split: if_splits)
    with None show ?thesis by (simp add: inspect_def same Let_def)
  next
    case (Some b0)
    then have "b0 = b" "0 < po_max_inspection pol" "body_to_inspect lib ?req pol = Some b'"
      using assms(1) by (auto simp: body_to_inspect_def split: if_splits)
    with Some read_prefix [OF assms(2) [symmetric] assms(3,4)] show ?thesis by (auto simp: inspect_def same Let_def)
  qed
qed

lemma inspect_excluded:
  assumes "inspect lib i req pol = (Inr res, req')" "wr_excluded res"
  shows "wr_matches res = [] \<and> list_ex (excluded_path_matches (u_path (rq_url (gq_http req)))) (po_excluded pol)"
  using assms
  by (auto simp: inspect_def empty_result_def inspect_rules_keeps Let_def
      split: if_splits option.splits sum.splits)

text \<open>
  C5. Inspection is transparent and bounded, whatever the request holds. The request goes on with
  exactly the body stream it came with. The body is inspected exactly when the policy asks for it and no exclusion applies, and is then
  reported as truncated exactly when it is longer than the limit; of a longer body nothing behind the first
  \<open>MaxInspectionBodyBytes\<close> bytes influences the result. The rules see three samples of the path, at most 512 of the query and of the body, at
  most two per header or trailer field up to the configured number of fields, and at most that number and 128 of the cookies. There are
  at most \<open>maxMatches\<close> matches, and no match carries a location longer than 256 bytes (a fingerprint being 16 hexadecimal digits).
\<close>

theorem inspect_transparent_bounded:
  assumes "inspector_ok i" "inspect lib i req pol = (Inr res, req')"
    and "\<And>v. length (lib_fingerprint lib v) = 16"
  shows "req' = req
    \<and> (wr_body_inspected res \<longleftrightarrow> \<not> wr_excluded res \<and> body_to_inspect lib req pol \<noteq> None)
    \<and> (wr_body_truncated res \<longleftrightarrow> wr_body_inspected res \<and> (\<exists>b. gq_body req = Some b \<and> po_max_inspection pol < int (length (bs_bytes b))))
    \<and> (\<forall>b b'. gq_body req = Some b \<and> take (nat (po_max_inspection pol)) (bs_bytes b') = take (nat (po_max_inspection pol)) (bs_bytes b) \<and>
         po_max_inspection pol < int (length (bs_bytes b)) \<and> po_max_inspection pol < int (length (bs_bytes b')) \<longrightarrow>
         fst (inspect lib i (req\<lparr>gq_body := Some b'\<rparr>) pol) = Inr res)
    \<and> length (path_samples lib (rq_url (gq_http req))) = 3
    \<and> length (query_samples lib (rq_url (gq_http req))) \<le> max_structured_samples
    \<and> int (length (header_samples lib req (po_max_headers pol))) \<le> 2 * header_field_cap pol
    \<and> int (length (cookie_samples lib req (po_max_headers pol))) \<le> header_field_cap pol + 128
    \<and> length (body_samples lib body ct) \<le> max_structured_samples
    \<and> length (wr_matches res) \<le> in_max_matches i
    \<and> (\<forall>m \<in> set (wr_matches res). length (wm_location m) \<le> max_match_location_bytes)"
proof -
  have m: "length (wr_matches res) \<le> in_max_matches i
      \<and> (\<forall>m \<in> set (wr_matches res). length (wm_location m) \<le> max_match_location_bytes)"
  proof (cases "wr_excluded res")
    case True
    then show ?thesis using inspect_excluded [OF assms(2)] by simp
  next
    case False
    obtain r0 where r0: "wr_matches r0 = []" and res: "res = inspect_rules lib (in_max_matches i) (disabled_ids pol)
        (inspected_targets lib req pol) (in_rules i) r0" using inspect_cases [OF assms(2) False] by blast
    have "wr_matches res = sort_matches (take (in_max_matches i)
        (rule_hits lib (disabled_ids pol) (inspected_targets lib req pol) (in_rules i)))"
      unfolding res using r0 assms(1) by (simp add: inspect_rules_spec Let_def inspector_ok_def)
    moreover have "length (wm_location m) \<le> max_match_location_bytes"
      if "m \<in> set (rule_hits lib (disabled_ids pol) (inspected_targets lib req pol) (in_rules i))" for m
      using hits_member [OF that] bounded_location [of lib, OF assms(3)] by (auto dest!: rule_match_fields)
    ultimately show ?thesis by (auto dest: in_set_takeD)
  qed
  have rest: "\<forall>b b'. gq_body req = Some b \<and> take (nat (po_max_inspection pol)) (bs_bytes b') = take (nat (po_max_inspection pol)) (bs_bytes b) \<and>
      po_max_inspection pol < int (length (bs_bytes b)) \<and> po_max_inspection pol < int (length (bs_bytes b')) \<longrightarrow>
      fst (inspect lib i (req\<lparr>gq_body := Some b'\<rparr>) pol) = Inr res"
    using inspect_prefix [of req _ pol _ lib i] assms(2) by auto
  have p: "length (path_samples lib (rq_url (gq_http req))) = 3" by (simp add: path_samples_def Let_def)
  show ?thesis
    by (intro conjI inspect_request [OF assms(2)] rest p structured_bounds header_samples_bound cookie_samples_bound
        m [THEN conjunct1] m [THEN conjunct2])
qed

theorem inspect_transparent_bounded_witness:
  "\<exists>res req'. inspect waf_demo_lib waf_demo_inspector (waf_demo_request ''/<script'') waf_demo_policy = (Inr res, req') \<and>
     req' = waf_demo_request ''/<script'' \<and> length (wr_matches res) \<le> 2"
proof -
  obtain res req' where r: "inspect waf_demo_lib waf_demo_inspector (waf_demo_request ''/<script'') waf_demo_policy = (Inr res, req')"
  proof -
    have "case inspect waf_demo_lib waf_demo_inspector (waf_demo_request ''/<script'') waf_demo_policy of
        (Inr res, req') \<Rightarrow> True | _ \<Rightarrow> False" by code_simp
    then show thesis by (auto split: prod.splits sum.splits intro: that)
  qed
  have "length (lib_fingerprint waf_demo_lib v) = 16" for v by (simp add: waf_demo_lib_def)
  from inspect_transparent_bounded [OF waf_demo_inspector_ok r this] r show ?thesis
    by (auto simp: waf_demo_inspector_def)
qed

section \<open>Exclusions\<close>

text \<open>How often a path was decoded.\<close>

lemma decode_rounds_spec:
  "\<exists>k \<le> n. ((\<lambda>x. the (f x)) ^^ k) s = decode_rounds f n s \<and>
     (k = n \<or> f (decode_rounds f n s) = None \<or> f (decode_rounds f n s) = Some (decode_rounds f n s))"
proof (induction n arbitrary: s)
  case (Suc n)
  show ?case
  proof (cases "f s")
    case None
    then show ?thesis by (intro exI [of _ 0]) simp
  next
    case (Some d)
    show ?thesis
    proof (cases "d = s")
      case True
      then show ?thesis using Some by (intro exI [of _ 0]) simp
    next
      case False
      obtain k where "k \<le> n" "((\<lambda>x. the (f x)) ^^ k) d = decode_rounds f n d"
        "k = n \<or> f (decode_rounds f n d) = None \<or> f (decode_rounds f n d) = Some (decode_rounds f n d)"
        using Suc.IH by blast
      then show ?thesis using Some False
        by (intro exI [of _ "Suc k"]) (simp add: funpow_swap1 [symmetric] funpow_Suc_right del: funpow.simps)
    qed
  qed
qed simp

text \<open>
  C6. A path exclusion of the firewall cannot be reached by traversal. If a request path is excluded
  by a prefix other than the root, then its canonical form after decoding begins with that prefix
  at a segment boundary and contains no \<^verbatim>\<open>.\<close> or \<^verbatim>\<open>..\<close> segment; and the decoding was repeated until a
  further round fails or changes nothing, or three rounds were made, so that an origin that decodes
  up to twice more than \<^verbatim>\<open>net/http\<close> still sees the path below the excluded prefix.
\<close>

theorem exclusion_no_traversal:
  assumes "excluded_path_matches path prefix0" "trim_space prefix0 \<noteq> ''/''"
  shows "\<exists>d. (\<exists>k \<le> 3. ((\<lambda>x. the (url_path_unescape x)) ^^ k) path = d \<and>
              (k = 3 \<or> url_path_unescape d = None \<or> url_path_unescape d = Some d))
     \<and> set (split_on (CHR ''/'') (canonical_request_path d)) \<inter> {''.'', ''..''} = {}
     \<and> (canonical_request_path d = trim_space prefix0
        \<or> (\<exists>r. canonical_request_path d = trim_space prefix0 @ r
             \<and> (has_suffix (trim_space prefix0) ''/'' \<or> has_prefix r ''/'')))"
proof -
  let ?d = "multi_path_decode path" and ?p = "trim_space prefix0"
  let ?c = "canonical_request_path ?d"
  have dec: "\<exists>k \<le> 3. ((\<lambda>x. the (url_path_unescape x)) ^^ k) path = ?d \<and>
      (k = 3 \<or> url_path_unescape ?d = None \<or> url_path_unescape ?d = Some ?d)"
    unfolding multi_path_decode_def by (rule decode_rounds_spec)
  have dots: "set (split_on (CHR ''/'') ?c) \<inter> {''.'', ''..''} = {}"
    using canonical_request_path_no_dots by blast
  have "?c = ?p \<or> has_suffix ?p ''/'' \<and> has_prefix ?c ?p \<or>
      has_prefix ?c ?p \<and> length ?c > length ?p \<and> ?c ! length ?p = CHR ''/''"
    using assms by (auto simp: excluded_path_matches_def Let_def split: if_splits)
  then have "?c = ?p \<or> (\<exists>r. ?c = ?p @ r \<and> (has_suffix ?p ''/'' \<or> has_prefix r ''/''))"
    by (auto simp: has_prefix_iff [of ?c] has_prefix_single nth_append hd_conv_nth)
  then show ?thesis using dec dots by blast
qed

theorem exclusion_no_traversal_witness:
  "excluded_path_matches ''/static/%2561.js'' '' /static'' \<and> \<not> excluded_path_matches ''/static/%252e%252e/x'' ''/static''
   \<and> (\<exists>d r. canonical_request_path d = ''/static'' @ r)"
proof -
  have e: "excluded_path_matches ''/static/%2561.js'' '' /static''" by code_simp
  have n: "\<not> excluded_path_matches ''/static/%252e%252e/x'' ''/static''" by code_simp
  have t: "trim_space '' /static'' = ''/static''" by code_simp
  show ?thesis using exclusion_no_traversal [OF e] e n t by (metis append_Nil2 list.distinct(1) list.sel(3))
qed

end
