(* ===== verification/Gate_Metrics.thy ===== *)
theory Gate_Metrics
  imports Net_IP "HOL-Library.List_Lexorder" "HOL-Library.Char_ord"
begin

text \<open>
  The metrics registry of the security gateway, \<^verbatim>\<open>apps/securityedge/internal/metrics/metrics.go\<close>:
  counters per route and in total, latency buckets with estimated percentiles, and the text of the
  Prometheus endpoint. The atomic 64-bit counters are words; a \<^verbatim>\<open>sync.Map\<close> of counters is a Go map.
  One completed request is one atomic update, as the snapshot lock makes it. \<open>float64\<close> values are
  exact reals.
\<close>

section \<open>Counters\<close>

record counters =
  mc_requests :: "64 word"
  mc_canceled :: "64 word"
  mc_allowed :: "64 word"
  mc_blocked :: "64 word"
  mc_logged :: "64 word"
  mc_rate_limited :: "64 word"
  mc_global_limited :: "64 word"
  mc_client_limited :: "64 word"
  mc_overload :: "64 word"
  mc_body_too_large :: "64 word"
  mc_banned :: "64 word"
  mc_auto_bans :: "64 word"
  mc_inspected :: "64 word"
  mc_truncated :: "64 word"
  mc_detections :: "64 word"
  mc_errors :: "64 word"
  mc_score :: "64 word"
  mc_duration :: "64 word"
  mc_max_duration :: "64 word"
  mc_buckets :: "64 word list"
  mc_rules :: "(string, 64 word) gomap"
  mc_categories :: "(string, 64 word) gomap"
  mc_methods :: "(string, 64 word) gomap"
  mc_actions :: "(string, 64 word) gomap"
  mc_reasons :: "(string, 64 word) gomap"

definition zero_counters :: counters where
  "zero_counters = \<lparr>mc_requests = 0, mc_canceled = 0, mc_allowed = 0, mc_blocked = 0, mc_logged = 0,
     mc_rate_limited = 0, mc_global_limited = 0, mc_client_limited = 0, mc_overload = 0,
     mc_body_too_large = 0, mc_banned = 0, mc_auto_bans = 0, mc_inspected = 0, mc_truncated = 0,
     mc_detections = 0, mc_errors = 0, mc_score = 0, mc_duration = 0, mc_max_duration = 0,
     mc_buckets = replicate 17 0, mc_rules = [], mc_categories = [], mc_methods = [], mc_actions = [],
     mc_reasons = []\<rparr>"

record observation =
  ob_route :: string
  ob_method :: string
  ob_action :: string
  ob_reason :: string
  ob_scope :: string
  ob_duration :: duration
  ob_score :: int
  ob_rule_ids :: "string list"
  ob_categories :: "string list"
  ob_body_inspected :: bool
  ob_body_truncated :: bool
  ob_error :: bool
  ob_auto_ban :: bool
  ob_canceled :: bool

definition latency_bounds :: "duration list" where
  "latency_bounds = [100000, 250000, 500000, 1000000, 2000000, 5000000, 10000000, 25000000, 50000000,
     100000000, 250000000, 500000000, 1000000000, 2000000000, 5000000000, 10000000000]"

fun bucket_index :: "duration list \<Rightarrow> duration \<Rightarrow> nat" where
  "bucket_index [] d = 0"
| "bucket_index (b # bs) d = (if d \<le> b then 0 else Suc (bucket_index bs d))"

definition latency_bucket :: "duration \<Rightarrow> nat" where
  "latency_bucket d = bucket_index latency_bounds d"

definition metric_method :: "string \<Rightarrow> string" where
  "metric_method method =
     (let n = to_upper (trim_space method)
      in if n \<in> set [''GET'', ''HEAD'', ''POST'', ''PUT'', ''PATCH'', ''DELETE'', ''OPTIONS'', ''CONNECT'', ''TRACE'']
         then n else ''OTHER'')"

definition metric_add :: "string \<Rightarrow> 64 word \<Rightarrow> (string, 64 word) gomap \<Rightarrow> (string, 64 word) gomap" where
  "metric_add key n m =
     (if key = [] \<or> n = 0 then m
      else gm_put key ((case gm_get m key of None \<Rightarrow> 0 | Some v \<Rightarrow> v) + n) m)"

definition max_duration :: "duration \<Rightarrow> duration" where
  "max_duration d = (if d < 0 then 0 else d)"

definition update_max :: "64 word \<Rightarrow> 64 word \<Rightarrow> 64 word" where
  "update_max old n = (if old \<ge> n then old else n)"

text \<open>The counter of the action taken.\<close>

definition count_action :: "observation \<Rightarrow> counters \<Rightarrow> counters" where
  "count_action ob c =
     (if ob_action ob = ''ALLOW'' then c\<lparr>mc_allowed := mc_allowed c + 1\<rparr>
      else if ob_action ob = ''BLOCK'' then c\<lparr>mc_blocked := mc_blocked c + 1\<rparr>
      else if ob_action ob = ''LOG'' then c\<lparr>mc_logged := mc_logged c + 1\<rparr>
      else if ob_action ob = ''RATE_LIMIT'' then
        let c = c\<lparr>mc_rate_limited := mc_rate_limited c + 1\<rparr>;
            scope = to_lower (trim_space (ob_scope ob))
        in if scope = ''global'' \<or> (scope = [] \<and> ob_reason ob = ''global_rate_limit'')
           then c\<lparr>mc_global_limited := mc_global_limited c + 1\<rparr>
           else c\<lparr>mc_client_limited := mc_client_limited c + 1\<rparr>
      else if ob_action ob = ''OVERLOAD'' then c\<lparr>mc_overload := mc_overload c + 1\<rparr>
      else if ob_action ob = ''BANNED'' then c\<lparr>mc_banned := mc_banned c + 1\<rparr>
      else c)"

definition bump :: "bool \<Rightarrow> 64 word \<Rightarrow> 64 word" where
  "bump b w = (if b then w + 1 else w)"

text \<open>The flags, the score and the latency of a request that was not cancelled.\<close>

definition count_details :: "observation \<Rightarrow> counters \<Rightarrow> counters" where
  "count_details ob c =
     (let ns = word_of_int (max_duration (ob_duration ob));
          i = latency_bucket (ob_duration ob)
      in c\<lparr>mc_body_too_large := bump (ob_reason ob = ''body_too_large'') (mc_body_too_large c),
           mc_auto_bans := bump (ob_auto_ban ob) (mc_auto_bans c),
           mc_detections := bump (length (ob_rule_ids ob) > 0) (mc_detections c),
           mc_inspected := bump (ob_body_inspected ob) (mc_inspected c),
           mc_truncated := bump (ob_body_truncated ob) (mc_truncated c),
           mc_errors := bump (ob_error ob) (mc_errors c),
           mc_score := (if ob_score ob > 0 then mc_score c + word_of_int (ob_score ob) else mc_score c),
           mc_duration := mc_duration c + ns,
           mc_max_duration := update_max (mc_max_duration c) ns,
           mc_buckets := (mc_buckets c)[i := mc_buckets c ! i + 1],
           mc_rules := foldl (\<lambda>m k. metric_add k 1 m) (mc_rules c) (ob_rule_ids ob),
           mc_categories := foldl (\<lambda>m k. metric_add k 1 m) (mc_categories c) (ob_categories ob)\<rparr>)"

definition record_counters :: "observation \<Rightarrow> counters \<Rightarrow> counters" where
  "record_counters ob c0 =
     (let c = c0\<lparr>mc_requests := mc_requests c0 + 1,
                 mc_methods := metric_add (metric_method (ob_method ob)) 1 (mc_methods c0)\<rparr>
      in if ob_canceled ob then c\<lparr>mc_canceled := mc_canceled c + 1\<rparr>
         else count_details ob (count_action ob
                (c\<lparr>mc_actions := metric_add (ob_action ob) 1 (mc_actions c),
                   mc_reasons := metric_add (ob_reason ob) 1 (mc_reasons c)\<rparr>)))"

section \<open>The registry\<close>

record registry =
  mr_started :: time
  mr_inflight :: int
  mr_total :: counters
  mr_routes :: "(string, counters) gomap"

definition new_registry :: "time \<Rightarrow> registry" where
  "new_registry now = \<lparr>mr_started = now, mr_inflight = 0, mr_total = zero_counters, mr_routes = []\<rparr>"

definition metrics_begin :: "registry \<Rightarrow> registry" where
  "metrics_begin r = r\<lparr>mr_inflight := mr_inflight r + 1\<rparr>"

definition metrics_finish :: "observation \<Rightarrow> registry \<Rightarrow> registry" where
  "metrics_finish ob r =
     (let value = (case gm_get (mr_routes r) (ob_route ob) of None \<Rightarrow> zero_counters | Some c \<Rightarrow> c)
      in r\<lparr>mr_total := record_counters ob (mr_total r),
           mr_routes := gm_put (ob_route ob) (record_counters ob value) (mr_routes r),
           mr_inflight := mr_inflight r - 1\<rparr>)"

section \<open>Snapshots\<close>

record latency_snapshot =
  la_average :: real
  la_maximum :: real
  la_p50 :: real
  la_p95 :: real
  la_p99 :: real

record counter_snapshot =
  cs_counters :: counters
  cs_block_rate :: real
  cs_detection_rate :: real
  cs_average_score :: real
  cs_latency :: latency_snapshot

record metrics_snapshot =
  ms_uptime_seconds :: int
  ms_inflight :: int
  ms_requests_per_second :: real
  ms_total :: counter_snapshot
  ms_routes :: "(string, counter_snapshot) gomap"

definition real_of_word :: "64 word \<Rightarrow> real" where
  "real_of_word w = real (unat w)"

definition in_ms :: "int \<Rightarrow> real" where
  "in_ms ns = real_of_int ns / real_of_int millisecond"

text \<open>The loop of \<^verbatim>\<open>percentile\<close> over the remaining buckets and their bounds.\<close>

fun percentile_loop :: "64 word list \<Rightarrow> duration list \<Rightarrow> 64 word \<Rightarrow> 64 word \<Rightarrow> real \<Rightarrow> real" where
  "percentile_loop [] bounds cumulative target maximum = maximum"
| "percentile_loop (b # bs) bounds cumulative target maximum =
     (let cumulative = cumulative + b in
      if cumulative \<ge> target then
        (case bounds of
           [] \<Rightarrow> maximum
         | d # ds \<Rightarrow> if in_ms d > maximum then maximum else in_ms d)
      else percentile_loop bs (tl bounds) cumulative target maximum)"

definition percentile_target :: "64 word \<Rightarrow> real \<Rightarrow> 64 word" where
  "percentile_target n q = word_of_int \<lfloor>real_of_word n * q + 999999 / 1000000\<rfloor>"

definition percentile :: "counters \<Rightarrow> 64 word \<Rightarrow> real \<Rightarrow> real \<Rightarrow> real" where
  "percentile c n q maximum =
     (if n = 0 then 0
      else percentile_loop (mc_buckets c) latency_bounds 0 (percentile_target n q) maximum)"

definition evaluated :: "counters \<Rightarrow> 64 word" where
  "evaluated c = (if mc_canceled c \<le> mc_requests c then mc_requests c - mc_canceled c else 0)"

definition snapshot_map :: "(string, 64 word) gomap \<Rightarrow> (string, 64 word) gomap" where
  "snapshot_map m = map (\<lambda>k. (k, the (gm_get m k))) (sort (map fst m))"

definition snap :: "counters \<Rightarrow> counter_snapshot" where
  "snap c =
     (let n = evaluated c;
          rejected = mc_blocked c + mc_rate_limited c + mc_overload c + mc_banned c;
          maximum = in_ms (uint (mc_max_duration c))
      in \<lparr>cs_counters = c\<lparr>mc_rules := snapshot_map (mc_rules c), mc_categories := snapshot_map (mc_categories c),
            mc_methods := snapshot_map (mc_methods c), mc_actions := snapshot_map (mc_actions c),
            mc_reasons := snapshot_map (mc_reasons c)\<rparr>,
          cs_block_rate = (if n > 0 then real_of_word rejected / real_of_word n else 0),
          cs_detection_rate = (if n > 0 then real_of_word (mc_detections c) / real_of_word n else 0),
          cs_average_score = (if n > 0 then real_of_word (mc_score c) / real_of_word n else 0),
          cs_latency = \<lparr>la_average = (if n > 0 then real_of_word (mc_duration c) / real_of_word n / real_of_int millisecond else 0),
            la_maximum = maximum, la_p50 = percentile c n (50 / 100) maximum,
            la_p95 = percentile c n (95 / 100) maximum, la_p99 = percentile c n (99 / 100) maximum\<rparr>\<rparr>)"

definition metrics_snapshot_of :: "time \<Rightarrow> registry \<Rightarrow> metrics_snapshot" where
  "metrics_snapshot_of now r =
     (let up = time_sub now (mr_started r)
      in \<lparr>ms_uptime_seconds = (if up < 0 then - (- up div second) else up div second), ms_inflight = mr_inflight r,
          ms_requests_per_second =
            (if up > 0 then real_of_word (mc_requests (mr_total r)) / (real_of_int up / real_of_int second) else 0),
          ms_total = snap (mr_total r), ms_routes = gm_map (\<lambda>k. snap) (mr_routes r)\<rparr>)"

section \<open>Prometheus text\<close>

text \<open>\<^verbatim>\<open>strings.NewReplacer\<close> with three one-byte patterns.\<close>

definition escape_label :: "string \<Rightarrow> string" where
  "escape_label v = concat (map (\<lambda>c. if c = CHR 0x5C then [CHR 0x5C, CHR 0x5C]
     else if c = CHR 0x22 then [CHR 0x5C, CHR 0x22] else if c = CHR 0x0A then [CHR 0x5C, CHR ''n''] else [c]) v)"

definition prom_values :: "counters \<Rightarrow> (string \<times> 64 word) list" where
  "prom_values c =
    [(''requests_total'', mc_requests c), (''canceled_requests_total'', mc_canceled c),
     (''allowed_total'', mc_allowed c), (''blocked_total'', mc_blocked c), (''logged_total'', mc_logged c),
     (''rate_limited_total'', mc_rate_limited c), (''global_rate_limited_total'', mc_global_limited c),
     (''client_rate_limited_total'', mc_client_limited c), (''overload_rejected_total'', mc_overload c),
     (''body_too_large_total'', mc_body_too_large c), (''banned_rejected_total'', mc_banned c),
     (''auto_bans_total'', mc_auto_bans c), (''detections_total'', mc_detections c),
     (''errors_total'', mc_errors c), (''inspected_bodies_total'', mc_inspected c),
     (''truncated_bodies_total'', mc_truncated c)]"

definition write_prom_counters :: "string \<Rightarrow> counters \<Rightarrow> string" where
  "write_prom_counters labels0 c =
     (let labels = (if labels0 \<noteq> [] then ''{'' @ labels0 @ ''}'' else labels0)
      in concat (map (\<lambda>(key, v). ''securityedge_'' @ key @ labels @ '' '' @ digits_of 10 (uint v) @ [CHR 0x0A])
           (sort_key fst (prom_values c))))"

definition prometheus :: "time \<Rightarrow> registry \<Rightarrow> string" where
  "prometheus now r =
     (let s = metrics_snapshot_of now r; nl = [CHR 0x0A]; q = [CHR 0x22] in
      ''# HELP securityedge_uptime_seconds Process uptime.'' @ nl
      @ ''# TYPE securityedge_uptime_seconds gauge'' @ nl
      @ ''securityedge_uptime_seconds '' @ itoa (ms_uptime_seconds s) @ nl
      @ ''# HELP securityedge_inflight_requests Current requests being processed.'' @ nl
      @ ''# TYPE securityedge_inflight_requests gauge'' @ nl
      @ ''securityedge_inflight_requests '' @ itoa (ms_inflight s) @ nl
      @ write_prom_counters [] (cs_counters (ms_total s))
      @ concat (map (\<lambda>route. write_prom_counters (''route='' @ q @ escape_label route @ q)
            (cs_counters (the (gm_get (ms_routes s) route)))) (sort (map fst (ms_routes s)))))"

section \<open>Every request is counted\<close>

definition counted :: "observation list \<Rightarrow> counters" where
  "counted obs = foldl (\<lambda>c ob. record_counters ob c) zero_counters obs"

definition took :: "string \<Rightarrow> observation \<Rightarrow> bool" where
  "took action ob \<longleftrightarrow> \<not> ob_canceled ob \<and> ob_action ob = action"

definition number :: "('a \<Rightarrow> bool) \<Rightarrow> 'a list \<Rightarrow> 64 word" where
  "number P xs = of_nat (length (filter P xs))"

lemma foldl_number:
  fixes f :: "'c \<Rightarrow> 64 word"
  assumes "\<And>ob c. f (g c ob) = f c + (if P ob then 1 else 0)"
  shows "f (foldl g c obs) = f c + number P obs"
  by (induction obs arbitrary: c) (simp_all add: number_def assms)

lemmas record_defs = record_counters_def count_details_def count_action_def Let_def bump_def took_def

lemma record_step:
  "mc_requests (record_counters ob c) = mc_requests c + (if True then 1 else 0)"
  "mc_canceled (record_counters ob c) = mc_canceled c + (if ob_canceled ob then 1 else 0)"
  "mc_allowed (record_counters ob c) = mc_allowed c + (if took ''ALLOW'' ob then 1 else 0)"
  "mc_blocked (record_counters ob c) = mc_blocked c + (if took ''BLOCK'' ob then 1 else 0)"
  "mc_logged (record_counters ob c) = mc_logged c + (if took ''LOG'' ob then 1 else 0)"
  "mc_rate_limited (record_counters ob c) = mc_rate_limited c + (if took ''RATE_LIMIT'' ob then 1 else 0)"
  "mc_overload (record_counters ob c) = mc_overload c + (if took ''OVERLOAD'' ob then 1 else 0)"
  "mc_banned (record_counters ob c) = mc_banned c + (if took ''BANNED'' ob then 1 else 0)"
  "mc_global_limited (record_counters ob c) + mc_client_limited (record_counters ob c) =
     mc_global_limited c + mc_client_limited c + (if took ''RATE_LIMIT'' ob then 1 else 0)"
  by (simp_all add: record_defs)

lemma zero_counters_fields [simp]:
  "mc_requests zero_counters = 0" "mc_canceled zero_counters = 0" "mc_allowed zero_counters = 0"
  "mc_blocked zero_counters = 0" "mc_logged zero_counters = 0" "mc_rate_limited zero_counters = 0"
  "mc_overload zero_counters = 0" "mc_banned zero_counters = 0" "mc_global_limited zero_counters = 0"
  "mc_client_limited zero_counters = 0" "mc_buckets zero_counters = replicate 17 0"
  "mc_max_duration zero_counters = 0"
  by (simp_all add: zero_counters_def)

lemma counted_fields:
  "mc_requests (counted obs) = number (\<lambda>ob. True) obs"
  "mc_canceled (counted obs) = number ob_canceled obs"
  "mc_allowed (counted obs) = number (took ''ALLOW'') obs"
  "mc_blocked (counted obs) = number (took ''BLOCK'') obs"
  "mc_logged (counted obs) = number (took ''LOG'') obs"
  "mc_rate_limited (counted obs) = number (took ''RATE_LIMIT'') obs"
  "mc_overload (counted obs) = number (took ''OVERLOAD'') obs"
  "mc_banned (counted obs) = number (took ''BANNED'') obs"
  "mc_global_limited (counted obs) + mc_client_limited (counted obs) = number (took ''RATE_LIMIT'') obs"
  unfolding counted_def
  by (simp_all add: foldl_number [where f = mc_requests, OF record_step(1)] foldl_number [where f = mc_canceled, OF record_step(2)]
      foldl_number [where f = mc_allowed, OF record_step(3)] foldl_number [where f = mc_blocked, OF record_step(4)]
      foldl_number [where f = mc_logged, OF record_step(5)] foldl_number [where f = mc_rate_limited, OF record_step(6)]
      foldl_number [where f = mc_overload, OF record_step(7)] foldl_number [where f = mc_banned, OF record_step(8)]
      foldl_number [where f = "\<lambda>c. mc_global_limited c + mc_client_limited c", OF record_step(9)])

definition gate_labels :: "string list" where
  "gate_labels = [''ALLOW'', ''BLOCK'', ''LOG'', ''RATE_LIMIT'', ''OVERLOAD'', ''BANNED'']"

lemma number_partition:
  "number (\<lambda>ob. True) obs =
     number ob_canceled obs + number (took ''ALLOW'') obs + number (took ''BLOCK'') obs
     + number (took ''LOG'') obs + number (took ''RATE_LIMIT'') obs + number (took ''OVERLOAD'') obs
     + number (took ''BANNED'') obs
     + number (\<lambda>ob. \<not> ob_canceled ob \<and> ob_action ob \<notin> set gate_labels) obs"
  by (induction obs) (auto simp: number_def took_def gate_labels_def)

text \<open>Runs of the registry: requests that begin and finish in any order.\<close>

datatype metric_event = Begin_Request | Finish_Request observation

fun metric_step :: "registry \<Rightarrow> metric_event \<Rightarrow> registry" where
  "metric_step r Begin_Request = metrics_begin r"
| "metric_step r (Finish_Request ob) = metrics_finish ob r"

fun finished :: "metric_event list \<Rightarrow> observation list" where
  "finished [] = []"
| "finished (Begin_Request # es) = finished es"
| "finished (Finish_Request ob # es) = ob # finished es"

lemma finished_append [simp]: "finished (a @ b) = finished a @ finished b"
  by (induction a rule: finished.induct) simp_all

definition begun :: "metric_event list \<Rightarrow> nat" where
  "begun es = length (filter (\<lambda>e. e = Begin_Request) es)"

definition on_route :: "string \<Rightarrow> observation list \<Rightarrow> observation list" where
  "on_route route obs = filter (\<lambda>ob. ob_route ob = route) obs"

lemma counted_snoc: "counted (obs @ [ob]) = record_counters ob (counted obs)"
  by (simp add: counted_def)

lemma registry_run:
  fixes t :: time
  defines "r \<equiv> \<lambda>es. foldl metric_step (new_registry t) es"
  shows "gm_inv (mr_routes (r es)) \<and>
    mr_inflight (r es) = int (begun es) - int (length (finished es)) \<and>
    mr_total (r es) = counted (finished es) \<and>
    gm_get (mr_routes (r es)) = (\<lambda>route. if on_route route (finished es) = [] then None
      else Some (counted (on_route route (finished es))))"
proof (induction es rule: rev_induct)
  case Nil
  then show ?case by (auto simp: r_def new_registry_def begun_def counted_def on_route_def)
next
  case (snoc e es)
  show ?case
  proof (cases e)
    case Begin_Request
    then show ?thesis using snoc.IH by (simp add: r_def metrics_begin_def begun_def cong: if_cong)
  next
    case (Finish_Request ob)
    have "(case gm_get (mr_routes (r es)) (ob_route ob) of None \<Rightarrow> zero_counters | Some c \<Rightarrow> c) =
        counted (on_route (ob_route ob) (finished es))"
      using snoc.IH by (simp add: counted_def)
    then show ?thesis
      using snoc.IH Finish_Request
      by (auto simp: r_def metrics_finish_def begun_def counted_snoc on_route_def gm_get_put fun_eq_iff)
  qed
qed

lemma sum_length_classes:
  "finite A \<Longrightarrow> f ` set xs \<subseteq> A \<Longrightarrow> (\<Sum>k \<in> A. length (filter (\<lambda>x. f x = k) xs)) = length xs"
proof (induction xs)
  case (Cons x xs)
  have "(\<Sum>k \<in> A. length (filter (\<lambda>x. f x = k) (x # xs))) =
      (\<Sum>k \<in> A. (if f x = k then 1 else 0) + length (filter (\<lambda>x. f x = k) xs))"
    by (intro sum.cong) simp_all
  then show ?case using Cons by (simp add: sum.distrib)
qed simp

lemma of_nat_sum_list_map: "of_nat (\<Sum>x \<leftarrow> xs. f x) = (\<Sum>x \<leftarrow> xs. of_nat (f x))"
  by (induction xs) simp_all

lemma sum_routes:
  assumes "gm_inv m" "\<And>route. gm_get m route = (if on_route route obs = [] then None else Some (counted (on_route route obs)))"
  shows "(\<Sum>(k, c) \<leftarrow> m. mc_requests c) = number (\<lambda>ob. True) obs"
proof -
  have v: "c = counted (on_route k obs)" if "(k, c) \<in> set m" for k c
    using assms that by (auto simp: gm_get_iff_in [symmetric] split: if_splits)
  have d: "set (map fst m) = ob_route ` set obs"
  proof -
    have "k \<in> dom (gm_get m) \<longleftrightarrow> k \<in> ob_route ` set obs" for k
      using assms(2) [of k] by (auto simp: domIff on_route_def filter_empty_conv)
    then show ?thesis by (simp add: set_eq_iff dom_gm_get [symmetric])
  qed
  have "(\<Sum>(k, c) \<leftarrow> m. mc_requests c) = (\<Sum>k \<leftarrow> map fst m. of_nat (length (on_route k obs)))"
    by (auto simp: comp_def counted_fields(1) number_def dest!: v intro!: arg_cong [where f = sum_list] map_cong)
  also have "\<dots> = of_nat (\<Sum>k \<leftarrow> map fst m. length (on_route k obs))"
    by (simp add: of_nat_sum_list_map comp_def)
  also have "(\<Sum>k \<leftarrow> map fst m. length (on_route k obs)) = (\<Sum>k \<in> ob_route ` set obs. length (on_route k obs))"
    unfolding d [symmetric] using assms(1) by (intro sum_list_distinct_conv_sum_set) (simp add: gm_inv_def)
  also have "\<dots> = length obs"
    unfolding on_route_def by (intro sum_length_classes) simp_all
  finally show ?thesis by (simp add: number_def)
qed

text \<open>
  C39. The registry accounts for every request. After any sequence of requests beginning and
  finishing, in any order, the number in flight is the difference of the two; the totals are the
  counters of all finished requests and those of each route the counters of its own; the route
  totals add up to the total; every request that was not cancelled is counted under exactly one
  action (unless its action is not one of the gateway's); and every rate-limited request is
  counted as global or as client, not both.
\<close>

theorem registry_accounts_for_every_request:
  fixes es t
  defines "r \<equiv> foldl metric_step (new_registry t) es" and "obs \<equiv> finished es"
  defines "c \<equiv> mr_total r"
  shows "mr_inflight r = int (begun es) - int (length obs)
    \<and> c = counted obs
    \<and> gm_get (mr_routes r) = (\<lambda>route. if on_route route obs = [] then None else Some (counted (on_route route obs)))
    \<and> (\<Sum>(k, d) \<leftarrow> mr_routes r. mc_requests d) = mc_requests c
    \<and> mc_requests c = of_nat (length obs)
    \<and> mc_requests c = mc_canceled c + mc_allowed c + mc_blocked c + mc_logged c + mc_rate_limited c
        + mc_overload c + mc_banned c + number (\<lambda>ob. \<not> ob_canceled ob \<and> ob_action ob \<notin> set gate_labels) obs
    \<and> mc_rate_limited c = mc_global_limited c + mc_client_limited c"
proof -
  note run = registry_run [of t es, folded r_def obs_def c_def]
  then have c: "c = counted obs" by simp
  have "(\<Sum>(k, d) \<leftarrow> mr_routes r. mc_requests d) = mc_requests c"
    using run sum_routes [of "mr_routes r" obs] by (simp add: c counted_fields)
  then show ?thesis using run number_partition [of obs] by (simp add: c counted_fields) (simp add: number_def)
qed

section \<open>Percentiles\<close>

definition live :: "observation list \<Rightarrow> observation list" where
  "live obs = filter (\<lambda>ob. \<not> ob_canceled ob) obs"

definition upto_bucket :: "nat \<Rightarrow> observation list \<Rightarrow> nat" where
  "upto_bucket j obs = length (filter (\<lambda>ob. latency_bucket (ob_duration ob) \<le> j) (live obs))"

lemma bucket_index_le:
  "sorted bs \<Longrightarrow> j < length bs \<Longrightarrow> bucket_index bs d \<le> j \<longleftrightarrow> d \<le> bs ! j"
proof (induction bs arbitrary: j)
  case (Cons b bs)
  then show ?case by (cases j) (auto intro: order_trans)
qed simp

lemma bucket_index_bound: "bucket_index bs d \<le> length bs"
  by (induction bs) auto

lemma latency_bounds_sorted: "sorted latency_bounds" and latency_bounds_length [simp]: "length latency_bounds = 16"
  by (simp_all add: latency_bounds_def)

lemma latency_bucket_le: "j < 16 \<Longrightarrow> latency_bucket d \<le> j \<longleftrightarrow> d \<le> latency_bounds ! j"
  by (simp add: latency_bucket_def bucket_index_le latency_bounds_sorted)

lemma latency_bucket_bound: "latency_bucket d \<le> 16"
  using bucket_index_bound [of latency_bounds d] by (simp add: latency_bucket_def)

lemma counted_buckets:
  "length (mc_buckets (counted obs)) = 17 \<and>
   (\<forall>i < 17. mc_buckets (counted obs) ! i = number (\<lambda>ob. latency_bucket (ob_duration ob) = i) (live obs))"
proof (induction obs rule: rev_induct)
  case Nil
  then show ?case by (simp add: counted_def number_def live_def)
next
  case (snoc ob obs)
  have l: "latency_bucket (ob_duration ob) < 17" using latency_bucket_bound [of "ob_duration ob"] by simp
  show ?case
  proof (cases "ob_canceled ob")
    case True
    then show ?thesis using snoc.IH by (simp add: counted_snoc record_counters_def live_def Let_def)
  next
    case False
    have "mc_buckets (counted (obs @ [ob])) = (mc_buckets (counted obs))
        [latency_bucket (ob_duration ob) := mc_buckets (counted obs) ! latency_bucket (ob_duration ob) + 1]"
      using False by (simp add: counted_snoc record_defs)
    then show ?thesis using snoc.IH False l by (auto simp: live_def number_def nth_list_update)
  qed
qed

lemma length_filter_le_Suc:
  "length (filter (\<lambda>x. f x \<le> Suc j) xs) = length (filter (\<lambda>x. f x \<le> j) xs) + length (filter (\<lambda>x. f x = Suc j) xs)"
  by (induction xs) auto

lemma bucket_prefix_sum:
  "j < 17 \<Longrightarrow> sum_list (take (Suc j) (mc_buckets (counted obs))) = of_nat (upto_bucket j obs)"
proof (induction j)
  case 0
  then show ?case
    using counted_buckets [of obs] by (simp add: take_Suc_conv_app_nth number_def upto_bucket_def)
next
  case (Suc j)
  have "upto_bucket (Suc j) obs =
      upto_bucket j obs + length (filter (\<lambda>ob. latency_bucket (ob_duration ob) = Suc j) (live obs))"
    unfolding upto_bucket_def by (rule length_filter_le_Suc)
  then show ?case
    using Suc counted_buckets [of obs] by (simp add: take_Suc_conv_app_nth number_def)
qed

text \<open>The loop stops at the first bucket whose cumulative count reaches the target.\<close>

lemma percentile_loop_spec:
  assumes "length bs \<le> Suc (length bounds)"
  shows "(\<exists>j < length bs. target \<le> cum + sum_list (take (Suc j) bs) \<and>
      percentile_loop bs bounds cum target maximum =
        (if j < length bounds then min (in_ms (bounds ! j)) maximum else maximum)) \<or>
    percentile_loop bs bounds cum target maximum = maximum"
  using assms
proof (induction bs arbitrary: bounds cum)
  case (Cons b bs)
  show ?case
  proof (cases "target \<le> cum + b")
    case True
    then show ?thesis by (intro disjI1 exI [of _ 0]) (auto simp: Let_def min_def split: list.split)
  next
    case False
    then have eq: "percentile_loop (b # bs) bounds cum target maximum =
        percentile_loop bs (tl bounds) (cum + b) target maximum"
      by (simp only: percentile_loop.simps Let_def False if_False)
    consider (hit) j where "j < length bs" "target \<le> cum + b + sum_list (take (Suc j) bs)"
        "percentile_loop bs (tl bounds) (cum + b) target maximum =
          (if j < length (tl bounds) then min (in_ms (tl bounds ! j)) maximum else maximum)"
      | (none) "percentile_loop bs (tl bounds) (cum + b) target maximum = maximum"
      using Cons.IH [of "tl bounds" "cum + b"] Cons.prems by fastforce
    then show ?thesis
    proof cases
      case hit
      then show ?thesis unfolding eq using Cons.prems
        by (intro disjI1 exI [of _ "Suc j"]) (auto simp: nth_tl add.assoc)
    next
      case none
      then show ?thesis unfolding eq by simp
    qed
  qed
qed simp

lemma update_max_ge: "update_max a b \<ge> a" "update_max a b \<ge> b"
  by (auto simp: update_max_def)

lemma counted_max_ge:
  assumes "ob \<in> set (live obs)" "ob_duration ob < 2 ^ 63"
  shows "ob_duration ob \<le> uint (mc_max_duration (counted obs))"
proof -
  have ge: "word_of_int (max_duration (ob_duration ob)) \<le> mc_max_duration (counted obs)" if "ob \<in> set (live obs)" for ob
    using that
  proof (induction obs rule: rev_induct)
    case (snoc x obs)
    have step: "\<not> ob_canceled x \<Longrightarrow> mc_max_duration (counted (obs @ [x])) =
        update_max (mc_max_duration (counted obs)) (word_of_int (max_duration (ob_duration x)))"
      "ob_canceled x \<Longrightarrow> mc_max_duration (counted (obs @ [x])) = mc_max_duration (counted obs)"
      by (simp_all add: counted_snoc record_defs)
    show ?case
    proof (cases "ob_canceled x")
      case True
      then show ?thesis using snoc step by (simp add: live_def)
    next
      case False
      then show ?thesis using snoc step(1) update_max_ge
        by (auto simp: live_def intro: order_trans)
    qed
  qed (simp add: live_def)
  have m: "0 \<le> max_duration (ob_duration ob)" "max_duration (ob_duration ob) < 2 ^ 64"
    "ob_duration ob \<le> max_duration (ob_duration ob)" using assms(2) by (auto simp: max_duration_def)
  then have "uint (word_of_int (max_duration (ob_duration ob)) :: 64 word) = max_duration (ob_duration ob)"
    by (simp add: uint_word_of_int)
  then show ?thesis using ge [OF assms(1)] m(3) by (simp add: word_le_def)
qed

definition covered :: "real \<Rightarrow> observation list \<Rightarrow> nat" where
  "covered p obs = length (filter (\<lambda>ob. in_ms (ob_duration ob) \<le> p) (live obs))"

lemma in_ms_mono: "a \<le> b \<Longrightarrow> in_ms a \<le> in_ms b"
  by (simp add: in_ms_def millisecond_def divide_right_mono)

lemma unat_of_nat64: "n < 2 ^ 64 \<Longrightarrow> unat (of_nat n :: 64 word) = n"
  by (simp add: unat_of_nat)

lemma counted_evaluated:
  assumes "length obs < 2 ^ 64"
  shows "evaluated (counted obs) = of_nat (length (live obs))" "unat (evaluated (counted obs)) = length (live obs)"
proof -
  have len: "length (filter ob_canceled obs) + length (live obs) = length obs"
    unfolding live_def by (rule sum_length_filter_compl)
  then have u: "unat (of_nat (length (filter ob_canceled obs)) :: 64 word) = length (filter ob_canceled obs)"
    "unat (of_nat (length obs) :: 64 word) = length obs"
    "unat (of_nat (length (live obs)) :: 64 word) = length (live obs)"
    using assms by (simp_all add: unat_of_nat64)
  have "(of_nat (length (filter ob_canceled obs)) :: 64 word) \<le> of_nat (length obs)"
    unfolding word_le_nat_alt using u len by simp
  moreover have "(of_nat (length obs) :: 64 word) - of_nat (length (filter ob_canceled obs)) = of_nat (length (live obs))"
    by (simp flip: len)
  ultimately show e: "evaluated (counted obs) = of_nat (length (live obs))"
    by (simp add: evaluated_def counted_fields number_def)
  show "unat (evaluated (counted obs)) = length (live obs)" using e u by simp
qed

lemma percent_floor:
  assumes "k \<le> 100"
  shows "real n * (real k / 100) \<le> of_int \<lfloor>real n * (real k / 100) + 999999 / 1000000\<rfloor>"
    "\<lfloor>real n * (real k / 100) + 999999 / 1000000\<rfloor> \<le> int n"
proof -
  define a b where "a = n * k div 100" and "b = n * k mod 100"
  have nk: "real n * (real k / 100) = real a + real b / 100"
  proof -
    have "n * k = 100 * a + b" by (simp add: a_def b_def)
    then have "real n * real k = 100 * real a + real b" by (metis of_nat_add of_nat_mult of_nat_numeral)
    then show ?thesis by simp
  qed
  have b: "b < 100" by (simp add: b_def)
  define F where "F = \<lfloor>real n * (real k / 100) + 999999 / 1000000\<rfloor>"
  have "int (if b = 0 then a else Suc a) \<le> F" unfolding F_def nk le_floor_iff using b by simp
  then have "real_of_int (int (if b = 0 then a else Suc a)) \<le> real_of_int F" by (simp only: of_int_le_iff)
  then have "real n * (real k / 100) \<le> real_of_int F" unfolding nk using b by (simp split: if_splits)
  then show "real n * (real k / 100) \<le> of_int \<lfloor>real n * (real k / 100) + 999999 / 1000000\<rfloor>"
    by (simp only: F_def)
  have "real n * (real k / 100) \<le> real n" using assms by (intro mult_left_le) simp_all
  then have "real n * (real k / 100) + 999999 / 1000000 < real n + 1" by simp
  then show "\<lfloor>real n * (real k / 100) + 999999 / 1000000\<rfloor> \<le> int n" by linarith
qed

lemma length_filter_mono_on:
  "(\<And>x. x \<in> set xs \<Longrightarrow> P x \<Longrightarrow> Q x) \<Longrightarrow> length (filter P xs) \<le> length (filter Q xs)"
  by (induction xs) (auto intro: le_SucI)

lemma maximum_covers:
  assumes "\<And>ob. ob \<in> set obs \<Longrightarrow> ob_duration ob < 2 ^ 63"
  shows "ob \<in> set (live obs) \<Longrightarrow> in_ms (ob_duration ob) \<le> in_ms (uint (mc_max_duration (counted obs)))"
    "covered (in_ms (uint (mc_max_duration (counted obs)))) obs = length (live obs)"
proof -
  show all: "in_ms (ob_duration ob) \<le> in_ms (uint (mc_max_duration (counted obs)))" if "ob \<in> set (live obs)" for ob
    using that assms counted_max_ge by (auto simp: live_def intro!: in_ms_mono)
  then have "filter (\<lambda>ob. in_ms (ob_duration ob) \<le> in_ms (uint (mc_max_duration (counted obs)))) (live obs) = live obs"
    by (simp only: filter_id_conv) blast
  then show "covered (in_ms (uint (mc_max_duration (counted obs)))) obs = length (live obs)"
    by (simp only: covered_def)
qed

lemma percentile_covers:
  assumes "length obs < 2 ^ 64" "\<And>ob. ob \<in> set obs \<Longrightarrow> ob_duration ob < 2 ^ 63" "k \<le> 100"
  defines "maximum \<equiv> in_ms (uint (mc_max_duration (counted obs)))"
  defines "p \<equiv> percentile (counted obs) (evaluated (counted obs)) (real k / 100) maximum"
  shows "real k / 100 * real (length (live obs)) \<le> real (covered p obs)" "p \<le> maximum"
proof -
  let ?n = "length (live obs)" and ?t = "percentile_target (evaluated (counted obs)) (real k / 100)"
  let ?T = "\<lfloor>real ?n * (real k / 100) + 999999 / 1000000\<rfloor>"
  have all_max: "in_ms (ob_duration ob) \<le> maximum" if "ob \<in> set (live obs)" for ob
    unfolding maximum_def by (rule maximum_covers(1) [OF assms(2) that])
  have full: "covered maximum obs = ?n" unfolding maximum_def by (rule maximum_covers(2) [OF assms(2)])
  have le_full: "real k / 100 * real ?n \<le> real ?n" using assms(3) by (intro mult_left_le_one_le) simp_all
  have "0 \<le> maximum" using in_ms_mono [OF uint_ge_0] by (simp add: maximum_def in_ms_def)
  note T = percent_floor [OF assms(3), of ?n]
  have n64: "?n < 2 ^ 64" using assms(1) by (auto simp: live_def intro: le_less_trans [OF length_filter_le])
  have t: "?t = of_nat (nat ?T)"
    using T(1) counted_evaluated(2) [OF assms(1)] by (simp add: percentile_target_def real_of_word_def)
  have "real k / 100 * real ?n \<le> real (covered p obs) \<and> p \<le> maximum"
  proof (cases "evaluated (counted obs) = 0")
    case True
    then have "?n = 0" using counted_evaluated(2) [OF assms(1)] by simp
    with True \<open>0 \<le> maximum\<close> show ?thesis by (simp add: p_def percentile_def)
  next
    case False
    then have p: "p = percentile_loop (mc_buckets (counted obs)) latency_bounds 0 ?t maximum"
      by (simp add: p_def percentile_def)
    consider (hit) j where "j < 17" "?t \<le> of_nat (upto_bucket j obs)"
        "p = (if j < 16 then min (in_ms (latency_bounds ! j)) maximum else maximum)" | (none) "p = maximum"
      using percentile_loop_spec [of "mc_buckets (counted obs)" latency_bounds ?t 0 maximum]
        counted_buckets [of obs] bucket_prefix_sum [of _ obs] unfolding p by auto
    then show ?thesis
    proof cases
      case hit
      have "upto_bucket j obs \<le> ?n" by (simp add: upto_bucket_def)
      then have "upto_bucket j obs < 2 ^ 64" "nat ?T < 2 ^ 64" using n64 T(2) by linarith+
      then have "nat ?T \<le> upto_bucket j obs"
        using hit(2) unfolding t word_le_nat_alt by (simp only: unat_of_nat64)
      also have "\<dots> \<le> covered p obs"
        unfolding upto_bucket_def covered_def using all_max hit(3) in_ms_mono
        by (intro length_filter_mono_on) (auto simp: latency_bucket_le)
      finally have "real k / 100 * real ?n \<le> real (covered p obs)"
        using T(1) by (simp add: mult.commute)
      then show ?thesis using hit(3) by simp
    next
      case none
      then show ?thesis using full le_full by simp
    qed
  qed
  then show "real k / 100 * real ?n \<le> real (covered p obs)" "p \<le> maximum" by simp_all
qed

text \<open>
  Reported percentiles are safe upper estimates: for any history of fewer than \<open>2 ^ 64\<close>
  requests with durations in the range of \<^verbatim>\<open>time.Duration\<close>, at least half (95%, 99%) of the requests
  that were not cancelled took no longer than the reported 50th (95th, 99th) percentile; no
  reported percentile exceeds the reported maximum; and no request took longer than that.
\<close>

theorem percentiles_cover:
  assumes "length obs < 2 ^ 64" "\<forall>ob \<in> set obs. ob_duration ob < 2 ^ 63"
  shows "let l = cs_latency (snap (counted obs)); n = real (length (live obs)) in
    50 / 100 * n \<le> real (covered (la_p50 l) obs) \<and> 95 / 100 * n \<le> real (covered (la_p95 l) obs)
    \<and> 99 / 100 * n \<le> real (covered (la_p99 l) obs) \<and> covered (la_maximum l) obs = length (live obs)
    \<and> la_p50 l \<le> la_maximum l \<and> la_p95 l \<le> la_maximum l \<and> la_p99 l \<le> la_maximum l"
proof -
  have d: "\<And>ob. ob \<in> set obs \<Longrightarrow> ob_duration ob < 2 ^ 63" using assms(2) by blast
  show ?thesis
    using maximum_covers [OF d] percentile_covers [OF assms(1) d, of 50] percentile_covers [OF assms(1) d, of 95]
      percentile_covers [OF assms(1) d, of 99]
    by (simp add: snap_def Let_def)
qed

definition demo_observation :: "duration \<Rightarrow> observation" where
  "demo_observation d = \<lparr>ob_route = ''r'', ob_method = ''GET'', ob_action = ''ALLOW'', ob_reason = [],
     ob_scope = [], ob_duration = d, ob_score = 0, ob_rule_ids = [], ob_categories = [],
     ob_body_inspected = False, ob_body_truncated = False, ob_error = False, ob_auto_ban = False,
     ob_canceled = False\<rparr>"

theorem percentiles_cover_witness:
  "3 / 2 \<le> real (covered (la_p50 (cs_latency (snap (counted (map demo_observation [90000, 3000000, 700000])))))
     (map demo_observation [90000, 3000000, 700000]))"
  using percentiles_cover [of "map demo_observation [90000, 3000000, 700000]"]
  by (simp add: Let_def live_def demo_observation_def)

end
