(* ===== verification/Security_Log.thy ===== *)
theory Security_Log
  imports Waf Ring_Buffer "HOL-Library.List_Lexorder" "HOL-Library.Char_ord"
begin

text \<open>
  The security event log of the gateway, \<^verbatim>\<open>apps/securityedge/internal/securitylog/store.go\<close>: the ring
  of events, the NDJSON file behind it with size-based rotation, restoring the ring from the files
  at start, queries, export in batches and clearing.

  The file system is a map from paths to contents together with a function that says which
  operations fail; a failing write stores nothing. \<^verbatim>\<open>json.Marshal\<close>, \<^verbatim>\<open>json.Unmarshal\<close>,
  the RFC 3339 parser and the clock are parameters. Sequence numbers are natural numbers.
\<close>

section \<open>Entries\<close>

record sec_entry =
  se_sequence :: nat
  se_timestamp :: string
  se_level :: string
  se_event :: string
  se_message :: string
  se_request_id :: string
  se_client_ip :: string
  se_method :: string
  se_host :: string
  se_path :: string
  se_fingerprint :: string
  se_route :: string
  se_status :: int
  se_duration_ms :: real
  se_action :: string
  se_reason :: string
  se_score :: int
  se_rule_ids :: "string list"
  se_matches :: "waf_match list"
  se_retry_ms :: int
  se_ua_fingerprint :: string
  se_error :: string
  se_auto_banned :: bool
  se_match_limit :: bool
  se_tags :: "string list"

definition zero_sec_entry :: sec_entry where
  "zero_sec_entry = \<lparr>se_sequence = 0, se_timestamp = [], se_level = [], se_event = [], se_message = [],
     se_request_id = [], se_client_ip = [], se_method = [], se_host = [], se_path = [], se_fingerprint = [],
     se_route = [], se_status = 0, se_duration_ms = 0, se_action = [], se_reason = [], se_score = 0,
     se_rule_ids = [], se_matches = [], se_retry_ms = 0, se_ua_fingerprint = [], se_error = [],
     se_auto_banned = False, se_match_limit = False, se_tags = []\<rparr>"

definition sec_trim :: "string \<Rightarrow> nat \<Rightarrow> string" where
  "sec_trim v n = truncate_text (trim_space v) n"

fun unique_loop :: "(string \<Rightarrow> string) \<Rightarrow> nat \<Rightarrow> string list \<Rightarrow> string list \<Rightarrow> string list" where
  "unique_loop nrm max_length [] out = out"
| "unique_loop nrm max_length (raw # rest) out =
     (let value = sec_trim (nrm raw) max_length in
      if value = [] \<or> value \<in> set out then unique_loop nrm max_length rest out
      else unique_loop nrm max_length rest (out @ [value]))"

definition unique_strings :: "(string \<Rightarrow> string) \<Rightarrow> string list \<Rightarrow> nat \<Rightarrow> nat \<Rightarrow> string list" where
  "unique_strings nrm v max_count max_length = sort (unique_loop nrm max_length (take max_count v) [])"

definition max_entry_rule_ids :: nat where "max_entry_rule_ids = 256"
definition max_entry_tags :: nat where "max_entry_tags = 32"
definition max_entry_matches :: nat where "max_entry_matches = 256"
definition export_batch_size :: nat where "export_batch_size = 256"

text \<open>\<^verbatim>\<open>512 << 10\<close>\<close>

definition max_line_bytes :: nat where "max_line_bytes = 524288"

definition normalize_match :: "waf_match \<Rightarrow> waf_match" where
  "normalize_match m = m\<lparr>wm_rule_id := sec_trim (to_upper (wm_rule_id m)) 128,
     wm_rule_name := sec_trim (wm_rule_name m) 256, wm_category := sec_trim (to_lower (wm_category m)) 128,
     wm_target := sec_trim (wm_target m) 128, wm_location := sec_trim (wm_location m) 512,
     wm_fingerprint := sec_trim (wm_fingerprint m) 128\<rparr>"

definition normalize_matches :: "waf_match list \<Rightarrow> waf_match list" where
  "normalize_matches ms = map normalize_match (take max_entry_matches ms)"

definition sec_normalize :: "(string \<Rightarrow> time option) \<Rightarrow> string \<Rightarrow> sec_entry \<Rightarrow> sec_entry" where
  "sec_normalize parse_time now_text e =
     (let ts = sec_trim (se_timestamp e) 64; lv = to_upper (trim_space (se_level e))
      in e\<lparr>se_timestamp := (if parse_time ts = None then now_text else ts),
           se_level := sec_trim (if lv = [] then ''INFO'' else lv) 16,
           se_event := sec_trim (se_event e) 128,
           se_message := sec_trim (se_message e) 2048,
           se_request_id := sec_trim (se_request_id e) 256,
           se_client_ip := sec_trim (se_client_ip e) 256,
           se_method := sec_trim (to_upper (se_method e)) 32,
           se_host := sec_trim (se_host e) 512,
           se_path := sec_trim (se_path e) 2048,
           se_fingerprint := sec_trim (se_fingerprint e) 128,
           se_route := sec_trim (se_route e) 256,
           se_action := sec_trim (to_upper (se_action e)) 32,
           se_reason := sec_trim (to_lower (se_reason e)) 128,
           se_ua_fingerprint := sec_trim (se_ua_fingerprint e) 128,
           se_error := sec_trim (se_error e) 2048,
           se_rule_ids := unique_strings to_upper (se_rule_ids e) max_entry_rule_ids 128,
           se_tags := unique_strings to_lower (se_tags e) max_entry_tags 64,
           se_matches := normalize_matches (se_matches e)\<rparr>)"

section \<open>Files\<close>

datatype fs_op =
    Fs_Open string | Fs_Stat string | Fs_Remove string | Fs_Rename string string | Fs_Mkdir string
  | Fs_Read string | Fs_File_Stat | Fs_Read_At | Fs_Write | Fs_Close | Fs_Truncate | Fs_Seek

type_synonym fs = "(string, string) gomap"

text \<open>
  The open log file: opened for appending, or at an offset of its own. Writing at an offset past the
  end leaves zero bytes in between.
\<close>

datatype handle = Appending | At_Offset nat

fun overwrite :: "string \<Rightarrow> nat \<Rightarrow> string \<Rightarrow> string" where
  "overwrite content k data =
     take k (content @ replicate (k - length content) (CHR 0x00)) @ data @ drop (k + length data) content"

definition file_content :: "fs \<Rightarrow> string \<Rightarrow> string" where
  "file_content fs path = (case gm_get fs path of None \<Rightarrow> [] | Some c \<Rightarrow> c)"

definition remove_if_exists :: "(fs_op \<Rightarrow> bool) \<Rightarrow> string \<Rightarrow> fs \<Rightarrow> bool \<times> fs" where
  "remove_if_exists bad path fs = (if bad (Fs_Remove path) then (False, fs) else (True, gm_del path fs))"

definition replace_rename :: "(fs_op \<Rightarrow> bool) \<Rightarrow> string \<Rightarrow> string \<Rightarrow> fs \<Rightarrow> bool \<times> fs" where
  "replace_rename bad src dst fs =
     (if bad (Fs_Stat src) then (False, fs)
      else case gm_get fs src of
        None \<Rightarrow> (True, fs)
      | Some c \<Rightarrow>
          (case remove_if_exists bad dst fs of
             (False, fs') \<Rightarrow> (False, fs')
           | (True, fs') \<Rightarrow>
               if bad (Fs_Rename src dst) then (False, fs') else (True, gm_put dst c (gm_del src fs'))))"

definition backup_path :: "string \<Rightarrow> nat \<Rightarrow> string" where
  "backup_path path i = path @ ''.'' @ digits_of 10 (int i)"

section \<open>The store\<close>

record log_config =
  lc_capacity :: int
  lc_file_path :: string
  lc_max_file_bytes :: int
  lc_max_backups :: int

record sec_store =
  ss_entries :: "sec_entry list"
  ss_capacity :: nat
  ss_head :: nat
  ss_count :: nat
  ss_next_seq :: nat
  ss_dropped :: nat
  ss_file :: "handle option"
  ss_path :: string
  ss_file_bytes :: int
  ss_max_file_bytes :: int
  ss_max_backups :: nat
  ss_file_errors :: nat

definition bump_errors :: "sec_store \<Rightarrow> sec_store" where
  "bump_errors s = s\<lparr>ss_file_errors := Suc (ss_file_errors s)\<rparr>"

text \<open>The ring part of \<^verbatim>\<open>Append\<close> and \<^verbatim>\<open>appendRestored\<close>.\<close>

definition append_restored :: "sec_entry \<Rightarrow> sec_store \<Rightarrow> sec_store" where
  "append_restored e s =
     (if ss_count s < ss_capacity s
      then s\<lparr>ss_entries := (ss_entries s)[(ss_head s + ss_count s) mod ss_capacity s := e],
             ss_count := Suc (ss_count s)\<rparr>
      else s\<lparr>ss_entries := (ss_entries s)[ss_head s := e], ss_head := (ss_head s + 1) mod ss_capacity s,
             ss_dropped := Suc (ss_dropped s)\<rparr>)"

definition reopen_append :: "(fs_op \<Rightarrow> bool) \<Rightarrow> sec_store \<Rightarrow> fs \<Rightarrow> sec_store \<times> fs" where
  "reopen_append bad s fs =
     (if bad (Fs_Open (ss_path s)) then (s, fs)
      else let fs' = gm_put (ss_path s) (file_content fs (ss_path s)) fs
           in if bad Fs_File_Stat then (s, fs')
              else (s\<lparr>ss_file := Some Appending, ss_file_bytes := int (length (file_content fs (ss_path s)))\<rparr>, fs'))"

text \<open>The loop over the numbered backups, from the oldest.\<close>

fun rotate_loop :: "(fs_op \<Rightarrow> bool) \<Rightarrow> string \<Rightarrow> nat \<Rightarrow> fs \<Rightarrow> bool \<times> fs" where
  "rotate_loop bad path 0 fs = (True, fs)"
| "rotate_loop bad path (Suc i) fs =
     (case replace_rename bad (backup_path path (Suc i)) (backup_path path (Suc (Suc i))) fs of
        (False, fs') \<Rightarrow> (False, fs')
      | (True, fs') \<Rightarrow> rotate_loop bad path i fs')"

definition rotate_files :: "(fs_op \<Rightarrow> bool) \<Rightarrow> string \<Rightarrow> nat \<Rightarrow> fs \<Rightarrow> bool \<times> fs" where
  "rotate_files bad path backups fs =
     (if backups > 0 then
        (case remove_if_exists bad (backup_path path backups) fs of
           (False, fs') \<Rightarrow> (False, fs')
         | (True, fs') \<Rightarrow>
             (case rotate_loop bad path (backups - 1) fs' of
                (False, fs'') \<Rightarrow> (False, fs'')
              | (True, fs'') \<Rightarrow> replace_rename bad path (backup_path path 1) fs''))
      else remove_if_exists bad path fs)"

definition rotate_locked :: "(fs_op \<Rightarrow> bool) \<Rightarrow> sec_store \<Rightarrow> fs \<Rightarrow> bool \<times> sec_store \<times> fs" where
  "rotate_locked bad s fs =
     (if ss_file s \<noteq> None \<and> bad Fs_Close then (False, s\<lparr>ss_file := None\<rparr>, fs)
      else let s = s\<lparr>ss_file := None\<rparr> in
        case rotate_files bad (ss_path s) (ss_max_backups s) fs of
          (False, fs') \<Rightarrow> (False, reopen_append bad s fs')
        | (True, fs') \<Rightarrow>
            if bad (Fs_Open (ss_path s)) then (False, reopen_append bad s fs')
            else (True, s\<lparr>ss_file := Some (At_Offset 0), ss_file_bytes := 0\<rparr>, gm_put (ss_path s) [] fs'))"

text \<open>One write to the open file.\<close>

definition write_handle :: "string \<Rightarrow> string \<Rightarrow> handle \<Rightarrow> fs \<Rightarrow> handle \<times> fs" where
  "write_handle path data h fs =
     (case h of
        Appending \<Rightarrow> (Appending, gm_put path (file_content fs path @ data) fs)
      | At_Offset k \<Rightarrow> (At_Offset (k + length data), gm_put path (overwrite (file_content fs path) k data) fs))"

definition write_data :: "(fs_op \<Rightarrow> bool) \<Rightarrow> string \<Rightarrow> sec_store \<Rightarrow> fs \<Rightarrow> sec_store \<times> fs" where
  "write_data bad data s fs =
     (case ss_file s of
        None \<Rightarrow> (bump_errors s, fs)
      | Some h \<Rightarrow>
          if bad Fs_Write then (bump_errors s, fs)
          else (case write_handle (ss_path s) data h fs of
                  (h', fs') \<Rightarrow> (s\<lparr>ss_file := Some h', ss_file_bytes := ss_file_bytes s + int (length data)\<rparr>, fs')))"

definition write_file ::
  "(fs_op \<Rightarrow> bool) \<Rightarrow> (sec_entry \<Rightarrow> string option) \<Rightarrow> sec_entry \<Rightarrow> sec_store \<Rightarrow> fs \<Rightarrow> sec_store \<times> fs" where
  "write_file bad marshal e s fs =
     (case ss_file s of
        None \<Rightarrow> (s, fs)
      | Some h \<Rightarrow>
          (case marshal e of
             None \<Rightarrow> (bump_errors s, fs)
           | Some text \<Rightarrow>
               let data = text @ [CHR 0x0A] in
               if ss_file_bytes s + int (length data) > ss_max_file_bytes s
               then (case rotate_locked bad s fs of
                       (False, s', fs') \<Rightarrow> (bump_errors s', fs')
                     | (True, s', fs') \<Rightarrow> write_data bad data s' fs')
               else write_data bad data s fs))"

definition sec_append ::
  "(string \<Rightarrow> time option) \<Rightarrow> (sec_entry \<Rightarrow> string option) \<Rightarrow> (fs_op \<Rightarrow> bool) \<Rightarrow> string \<Rightarrow> sec_entry \<Rightarrow>
   sec_store \<Rightarrow> fs \<Rightarrow> sec_entry \<times> sec_store \<times> fs" where
  "sec_append parse_time marshal bad now_text e0 s fs =
     (let e = (sec_normalize parse_time now_text e0)\<lparr>se_sequence := ss_next_seq s\<rparr>;
          s1 = append_restored e (s\<lparr>ss_next_seq := Suc (ss_next_seq s)\<rparr>)
      in (e, write_file bad marshal e s1 fs))"

section \<open>Restoring\<close>

text \<open>
  The lines of a file: pieces between newlines. A piece with its newline is oversized if it is
  longer than the limit; the last piece has no newline.
\<close>

fun sized_lines :: "string list \<Rightarrow> (string \<times> bool) list" where
  "sized_lines [] = []"
| "sized_lines [w] = [(w, length w > max_line_bytes)]"
| "sized_lines (w # v # ws) = (w, length w + 1 > max_line_bytes) # sized_lines (v # ws)"

definition restore_line ::
  "(string \<Rightarrow> time option) \<Rightarrow> (string \<Rightarrow> sec_entry option) \<Rightarrow> string \<Rightarrow> string \<times> bool \<Rightarrow> sec_store \<times> nat \<Rightarrow>
   sec_store \<times> nat" where
  "restore_line parse_time unmarshal now_text line sh =
     (case sh of (s, highest) \<Rightarrow>
      case line of (raw, oversized) \<Rightarrow>
        if oversized then (bump_errors s, highest)
        else let t = trim_space raw in
          if t = [] then (s, highest)
          else if \<not> valid_utf8 t then (bump_errors s, highest)
          else case unmarshal t of
            None \<Rightarrow> (bump_errors s, highest)
          | Some e0 \<Rightarrow>
              let e = sec_normalize parse_time now_text e0;
                  q = (if se_sequence e = 0 \<or> se_sequence e \<le> highest then highest + 1 else se_sequence e)
              in (append_restored (e\<lparr>se_sequence := q\<rparr>) s, q))"

definition restore_file ::
  "(string \<Rightarrow> time option) \<Rightarrow> (string \<Rightarrow> sec_entry option) \<Rightarrow> (fs_op \<Rightarrow> bool) \<Rightarrow> string \<Rightarrow> fs \<Rightarrow>
   sec_store \<times> nat \<Rightarrow> string \<Rightarrow> sec_store \<times> nat" where
  "restore_file parse_time unmarshal bad now_text fs sh path =
     (if bad (Fs_Open path) then (bump_errors (fst sh), snd sh)
      else case gm_get fs path of
        None \<Rightarrow> sh
      | Some c \<Rightarrow>
          if bad (Fs_Read path) then (bump_errors (fst sh), snd sh)
          else foldl (\<lambda>sh l. restore_line parse_time unmarshal now_text l sh) sh
                 (sized_lines (split_on (CHR 0x0A) c)))"

definition restore_paths :: "string \<Rightarrow> nat \<Rightarrow> string list" where
  "restore_paths path backups = map (backup_path path) (rev [1..<Suc backups]) @ [path]"

definition restore_entries ::
  "(string \<Rightarrow> time option) \<Rightarrow> (string \<Rightarrow> sec_entry option) \<Rightarrow> (fs_op \<Rightarrow> bool) \<Rightarrow> string \<Rightarrow> fs \<Rightarrow> sec_store \<Rightarrow> sec_store"
where
  "restore_entries parse_time unmarshal bad now_text fs s =
     (case foldl (restore_file parse_time unmarshal bad now_text fs) (s, 0)
             (restore_paths (ss_path s) (ss_max_backups s)) of
        (s', highest) \<Rightarrow> if highest \<ge> ss_next_seq s' then s'\<lparr>ss_next_seq := highest + 1\<rparr> else s')"

definition ensure_trailing_newline :: "(fs_op \<Rightarrow> bool) \<Rightarrow> sec_store \<Rightarrow> fs \<Rightarrow> sec_store \<times> fs" where
  "ensure_trailing_newline bad s fs =
     (case ss_file s of
        None \<Rightarrow> (s, fs)
      | Some h \<Rightarrow>
          if ss_file_bytes s = 0 then (s, fs)
          else if bad Fs_Read_At then (bump_errors s, fs)
          else if last (file_content fs (ss_path s)) = CHR 0x0A then (s, fs)
          else if bad Fs_Write then (bump_errors s, fs)
          else (case write_handle (ss_path s) [CHR 0x0A] h fs of
                  (h', fs') \<Rightarrow> (s\<lparr>ss_file := Some h', ss_file_bytes := ss_file_bytes s + 1\<rparr>, fs')))"

datatype open_error = Create_Directory | Open_File | Stat_File

definition new_sec_store :: "log_config \<Rightarrow> sec_store" where
  "new_sec_store cfg =
     (let c = (if lc_capacity cfg \<le> 0 then 1 else nat (lc_capacity cfg))
      in \<lparr>ss_entries = replicate c zero_sec_entry, ss_capacity = c, ss_head = 0, ss_count = 0,
          ss_next_seq = 1, ss_dropped = 0, ss_file = None, ss_path = trim_space (lc_file_path cfg),
          ss_file_bytes = 0, ss_max_file_bytes = lc_max_file_bytes cfg,
          ss_max_backups = nat (lc_max_backups cfg), ss_file_errors = 0\<rparr>)"

text \<open>\<^verbatim>\<open>NewWithConfig\<close>; \<open>dir\<close> is \<^verbatim>\<open>filepath.Dir\<close> of the path.\<close>

definition new_with_config ::
  "(string \<Rightarrow> time option) \<Rightarrow> (string \<Rightarrow> sec_entry option) \<Rightarrow> (string \<Rightarrow> string) \<Rightarrow> (fs_op \<Rightarrow> bool) \<Rightarrow> string \<Rightarrow>
   log_config \<Rightarrow> fs \<Rightarrow> open_error + sec_store \<times> fs" where
  "new_with_config parse_time unmarshal dir bad now_text cfg fs =
     (let s = new_sec_store cfg; path = ss_path s in
      if path = [] then Inr (s, fs)
      else let s = (if ss_max_file_bytes s \<le> 0 then s\<lparr>ss_max_file_bytes := 20971520\<rparr> else s) in
        if bad (Fs_Mkdir (dir path)) then Inl Create_Directory
        else let s = restore_entries parse_time unmarshal bad now_text fs s in
          if bad (Fs_Open path) then Inl Open_File
          else let c = file_content fs path; fs = gm_put path c fs in
            if bad Fs_File_Stat then Inl Stat_File
            else Inr (ensure_trailing_newline bad
                   (s\<lparr>ss_file := Some Appending, ss_file_bytes := int (length c)\<rparr>) fs))"

definition sec_close :: "sec_store \<Rightarrow> sec_store" where
  "sec_close s = s\<lparr>ss_file := None\<rparr>"

section \<open>Queries, export and clearing\<close>

record sec_filter =
  sf_route :: string
  sf_request_id :: string
  sf_client_ip :: string
  sf_method :: string
  sf_event :: string
  sf_level :: string
  sf_action :: string
  sf_reason :: string
  sf_rule_id :: string
  sf_search :: string
  sf_status :: int
  sf_since :: time
  sf_until :: time
  sf_before :: nat
  sf_limit :: int

definition contains_fold :: "string list \<Rightarrow> string \<Rightarrow> bool" where
  "contains_fold v x = list_ex (\<lambda>item. equal_fold item x) v"

definition sec_matches :: "(string \<Rightarrow> time option) \<Rightarrow> sec_entry \<Rightarrow> sec_filter \<Rightarrow> string \<Rightarrow> bool" where
  "sec_matches parse_time e f search_lower \<longleftrightarrow>
     \<not> (sf_route f \<noteq> [] \<and> \<not> equal_fold (se_route e) (sf_route f))
     \<and> \<not> (sf_request_id f \<noteq> [] \<and> se_request_id e \<noteq> sf_request_id f)
     \<and> \<not> (sf_client_ip f \<noteq> [] \<and> \<not> equal_fold (se_client_ip e) (sf_client_ip f))
     \<and> \<not> (sf_method f \<noteq> [] \<and> \<not> equal_fold (se_method e) (sf_method f))
     \<and> \<not> (sf_event f \<noteq> [] \<and> \<not> equal_fold (se_event e) (sf_event f))
     \<and> \<not> (sf_level f \<noteq> [] \<and> \<not> equal_fold (se_level e) (sf_level f))
     \<and> \<not> (sf_action f \<noteq> [] \<and> \<not> equal_fold (se_action e) (sf_action f))
     \<and> \<not> (sf_reason f \<noteq> [] \<and> \<not> equal_fold (se_reason e) (sf_reason f))
     \<and> \<not> (sf_status f > 0 \<and> se_status e \<noteq> sf_status f)
     \<and> \<not> (sf_rule_id f \<noteq> [] \<and> \<not> contains_fold (se_rule_ids e) (sf_rule_id f))
     \<and> (case parse_time (se_timestamp e) of
          None \<Rightarrow> True
        | Some t \<Rightarrow> \<not> (sf_since f \<noteq> 0 \<and> t < sf_since f) \<and> \<not> (sf_until f \<noteq> 0 \<and> t > sf_until f))
     \<and> \<not> (search_lower \<noteq> [] \<and> \<not> contains_str (to_lower (join_with '' ''
            [se_event e, se_message e, se_request_id e, se_client_ip e, se_method e, se_host e, se_path e,
             se_route e, se_action e, se_reason e, join_with '' '' (se_rule_ids e), se_fingerprint e,
             se_ua_fingerprint e, se_error e])) search_lower)"

record sec_result =
  sr_capacity :: nat
  sr_retained :: nat
  sr_dropped :: nat
  sr_oldest :: nat
  sr_newest :: nat
  sr_returned :: nat
  sr_has_more :: bool
  sr_next_before :: nat
  sr_entries :: "sec_entry list"

definition newest_sequence :: "sec_store \<Rightarrow> nat" where
  "newest_sequence s = (if ss_count s > 0
     then se_sequence (ss_entries s ! ((ss_head s + ss_count s - 1) mod ss_capacity s)) else 0)"

definition oldest_sequence :: "sec_store \<Rightarrow> nat" where
  "oldest_sequence s = (if ss_count s > 0 then se_sequence (ss_entries s ! ss_head s) else 0)"

definition sec_selects :: "(string \<Rightarrow> time option) \<Rightarrow> sec_filter \<Rightarrow> sec_entry \<Rightarrow> bool" where
  "sec_selects parse_time f e \<longleftrightarrow> \<not> (sf_before f > 0 \<and> se_sequence e \<ge> sf_before f)
     \<and> sec_matches parse_time e f (to_lower (trim_space (sf_search f)))"

definition sec_query :: "(string \<Rightarrow> time option) \<Rightarrow> sec_filter \<Rightarrow> sec_store \<Rightarrow> sec_result" where
  "sec_query parse_time f0 s =
     (let f = (if sf_limit f0 \<le> 0 then f0\<lparr>sf_limit := 100\<rparr> else f0);
          r = ring_scan (sec_selects parse_time f) (ss_capacity s) (ss_entries s) (ss_head s)
                (nat (sf_limit f)) (ss_count s) []
      in \<lparr>sr_capacity = ss_capacity s, sr_retained = ss_count s, sr_dropped = ss_dropped s,
          sr_oldest = oldest_sequence s, sr_newest = newest_sequence s,
          sr_returned = length (fst r), sr_has_more = snd r,
          sr_next_before = (if snd r \<and> length (fst r) > 0
             then se_sequence (fst r ! (length (fst r) - 1)) else 0),
          sr_entries = fst r\<rparr>)"

text \<open>One page of an export: entries not newer than the export and older than the cursor.\<close>

definition batch_selects :: "(string \<Rightarrow> time option) \<Rightarrow> sec_filter \<Rightarrow> nat \<Rightarrow> nat \<Rightarrow> sec_entry \<Rightarrow> bool" where
  "batch_selects parse_time f max_sequence before e \<longleftrightarrow>
     \<not> (se_sequence e > max_sequence \<or> (before > 0 \<and> se_sequence e \<ge> before))
     \<and> sec_matches parse_time e f (to_lower (trim_space (sf_search f)))"

definition export_batch ::
  "(string \<Rightarrow> time option) \<Rightarrow> sec_filter \<Rightarrow> nat \<Rightarrow> nat \<Rightarrow> nat \<Rightarrow> sec_store \<Rightarrow> sec_entry list" where
  "export_batch parse_time f max_sequence before limit s =
     (if limit = 0 then []
      else fst (ring_scan (batch_selects parse_time f max_sequence before) (ss_capacity s) (ss_entries s)
             (ss_head s) limit (ss_count s) []))"

text \<open>
  The loop of \<^verbatim>\<open>Export\<close>. The lock is released between batches, so batch number \<open>k\<close> reads the
  store \<open>st k\<close> of that moment.
\<close>

function export_loop ::
  "(string \<Rightarrow> time option) \<Rightarrow> sec_filter \<Rightarrow> nat \<Rightarrow> (nat \<Rightarrow> sec_store) \<Rightarrow> nat \<Rightarrow> nat \<Rightarrow> nat \<Rightarrow> sec_entry list" where
  "export_loop parse_time f max_sequence st k remaining before =
     (if remaining = 0 \<or> max_sequence = 0 then []
      else let limit = min export_batch_size remaining;
               batch = export_batch parse_time f max_sequence before limit (st k)
           in if batch = [] then []
              else if length batch < limit then batch
              else batch @ export_loop parse_time f max_sequence st (Suc k) (remaining - length batch)
                     (se_sequence (last batch)))"
  by pat_completeness auto
termination
  by (relation "measure (\<lambda>(pt, f, m, st, k, remaining, before). remaining)") (auto simp: Let_def)

declare export_loop.simps [simp del]

datatype export_error = Unsupported_Format

definition export_entries ::
  "(string \<Rightarrow> time option) \<Rightarrow> sec_filter \<Rightarrow> string \<Rightarrow> (nat \<Rightarrow> sec_store) \<Rightarrow> export_error + sec_entry list" where
  "export_entries parse_time f format st =
     (let s = st 0; fmt = to_lower format;
          limit = (if sf_limit f \<le> 0 \<or> sf_limit f > int (ss_capacity s) then ss_capacity s else nat (sf_limit f))
      in if fmt \<noteq> ''csv'' \<and> fmt \<noteq> ''ndjson'' \<and> fmt \<noteq> ''jsonl'' then Inl Unsupported_Format
         else Inr (export_loop parse_time f (newest_sequence s) st 1 limit (sf_before f)))"

definition safe_csv_cell :: "string \<Rightarrow> string" where
  "safe_csv_cell value =
     (let trimmed = dropWhile (\<lambda>c. c \<in> set [CHR 0x20, CHR 0x09, CHR 0x0D, CHR 0x0A]) value in
      if trimmed = [] then value
      else if hd trimmed \<in> set ''=+-@'' then CHR 0x27 # value else value)"

text \<open>The cells of an exported row; \<open>format_float\<close> is \<^verbatim>\<open>strconv.FormatFloat(v, 'f', 3, 64)\<close>.\<close>

definition csv_row :: "(real \<Rightarrow> string) \<Rightarrow> sec_entry \<Rightarrow> string list" where
  "csv_row format_float e = map safe_csv_cell
     [digits_of 10 (int (se_sequence e)), se_timestamp e, se_level e, se_event e, se_request_id e, se_client_ip e,
      se_method e, se_host e, se_path e, se_fingerprint e, se_route e, itoa (se_status e), se_action e,
      se_reason e, itoa (se_score e), join_with ''|'' (se_rule_ids e), format_float (se_duration_ms e),
      (if se_auto_banned e then ''true'' else ''false'')]"

datatype clear_error = Truncate_Failed | Rewind_Failed | Remove_Backup_Failed nat

fun clear_backups :: "(fs_op \<Rightarrow> bool) \<Rightarrow> string \<Rightarrow> nat list \<Rightarrow> fs \<Rightarrow> clear_error list \<times> fs" where
  "clear_backups bad path [] fs = ([], fs)"
| "clear_backups bad path (i # is) fs =
     (case remove_if_exists bad (backup_path path i) fs of
        (ok, fs') \<Rightarrow> (case clear_backups bad path is fs' of
           (errs, fs'') \<Rightarrow> ((if ok then errs else Remove_Backup_Failed i # errs), fs'')))"

definition sec_clear :: "(fs_op \<Rightarrow> bool) \<Rightarrow> sec_store \<Rightarrow> fs \<Rightarrow> (nat \<times> clear_error list) \<times> sec_store \<times> fs" where
  "sec_clear bad s0 fs0 =
     (let s = s0\<lparr>ss_entries := replicate (length (ss_entries s0)) zero_sec_entry, ss_head := 0, ss_count := 0\<rparr>;
          (e1, s, fs) =
            (case ss_file s of
               None \<Rightarrow> ([], s, fs0)
             | Some h \<Rightarrow>
                 if bad Fs_Truncate then ([Truncate_Failed], s, fs0)
                 else ((if bad Fs_Seek then [Rewind_Failed] else []),
                       s\<lparr>ss_file_bytes := 0,
                         ss_file := (if bad Fs_Seek then Some h
                           else (case h of Appending \<Rightarrow> Some Appending | At_Offset k \<Rightarrow> Some (At_Offset 0)))\<rparr>,
                       gm_put (ss_path s) [] fs0));
          (e2, fs) = (if ss_path s \<noteq> [] then clear_backups bad (ss_path s) [1..<Suc (ss_max_backups s)] fs
                      else ([], fs))
      in ((ss_count s0, e1 @ e2), s, fs))"

record sec_stats =
  sx_capacity :: nat
  sx_retained :: nat
  sx_dropped :: nat
  sx_oldest :: nat
  sx_newest :: nat
  sx_file_enabled :: bool
  sx_path :: string
  sx_file_bytes :: int
  sx_file_errors :: nat

definition sec_stats_of :: "sec_store \<Rightarrow> sec_stats" where
  "sec_stats_of s = \<lparr>sx_capacity = ss_capacity s, sx_retained = ss_count s, sx_dropped = ss_dropped s,
     sx_oldest = oldest_sequence s, sx_newest = newest_sequence s, sx_file_enabled = (ss_path s \<noteq> []),
     sx_path = ss_path s, sx_file_bytes = ss_file_bytes s, sx_file_errors = ss_file_errors s\<rparr>"

end
