(* ===== verification/Security_Log_Correct.thy ===== *)
theory Security_Log_Correct
  imports Security_Log
begin

text \<open>
  Properties of the security event log: the ring holds the newest events, an export is a consistent
  view of the log of the moment it started although events are appended or the log is cleared
  while it runs, and the events on disk are restored when the process starts again.
\<close>

section \<open>The ring\<close>

definition sec_view :: "sec_store \<Rightarrow> sec_entry list" where
  "sec_view s = ring_view (ss_capacity s) (ss_entries s) (ss_head s) (ss_count s)"

definition ring_ok :: "sec_store \<Rightarrow> bool" where
  "ring_ok s \<longleftrightarrow> 0 < ss_capacity s \<and> length (ss_entries s) = ss_capacity s \<and> ss_head s < ss_capacity s \<and>
     ss_count s \<le> ss_capacity s"

lemma length_sec_view [simp]: "length (sec_view s) = ss_count s"
  by (simp add: sec_view_def)

lemma sec_view_frame [simp]:
  "sec_view (s\<lparr>ss_next_seq := n\<rparr>) = sec_view s" "sec_view (s\<lparr>ss_file := h\<rparr>) = sec_view s"
  "sec_view (s\<lparr>ss_file_bytes := b\<rparr>) = sec_view s" "sec_view (s\<lparr>ss_file_errors := k\<rparr>) = sec_view s"
  "sec_view (s\<lparr>ss_max_file_bytes := b\<rparr>) = sec_view s"
  "ring_ok (s\<lparr>ss_next_seq := n\<rparr>) = ring_ok s" "ring_ok (s\<lparr>ss_file := h\<rparr>) = ring_ok s"
  "ring_ok (s\<lparr>ss_file_bytes := b\<rparr>) = ring_ok s" "ring_ok (s\<lparr>ss_file_errors := k\<rparr>) = ring_ok s"
  "ring_ok (s\<lparr>ss_max_file_bytes := b\<rparr>) = ring_ok s"
  by (simp_all add: sec_view_def ring_ok_def)

lemma append_restored_view:
  assumes "ring_ok s"
  shows "ring_ok (append_restored e s)"
    "sec_view (append_restored e s) = (if ss_count s < ss_capacity s then sec_view s else tl (sec_view s)) @ [e]"
proof -
  have full: "\<not> ss_count s < ss_capacity s \<Longrightarrow> ss_count s = ss_capacity s" using assms by (simp add: ring_ok_def)
  show "ring_ok (append_restored e s)" using assms by (auto simp: append_restored_def ring_ok_def)
  show "sec_view (append_restored e s) = (if ss_count s < ss_capacity s then sec_view s else tl (sec_view s)) @ [e]"
    using assms full ring_push_free [of "ss_count s" "ss_capacity s" "ss_entries s" "ss_head s" e]
      ring_push_full [of "ss_head s" "ss_capacity s" "ss_entries s" e]
    by (auto simp: append_restored_def sec_view_def ring_ok_def)
qed

lemma append_restored_fields [simp]:
  "ss_capacity (append_restored e s) = ss_capacity s" "ss_next_seq (append_restored e s) = ss_next_seq s"
  "ss_file (append_restored e s) = ss_file s" "ss_path (append_restored e s) = ss_path s"
  "ss_file_bytes (append_restored e s) = ss_file_bytes s"
  "ss_max_file_bytes (append_restored e s) = ss_max_file_bytes s"
  "ss_max_backups (append_restored e s) = ss_max_backups s"
  "ss_file_errors (append_restored e s) = ss_file_errors s"
  by (simp_all add: append_restored_def)

interpretation rlog: bounded_log append_restored sec_view "\<lambda>e n. e" ss_capacity "\<lambda>s. ss_count s + ss_dropped s" ring_ok
  by unfold_locales (auto simp: append_restored_view, auto simp: append_restored_def ring_ok_def)

lemma rlog_made [simp]: "rlog.made_from n es = es"
  by (induction es arbitrary: n) simp_all

text \<open>Writing to the file leaves the ring alone.\<close>

lemma write_file_ring:
  "sec_view (fst (write_file bad marshal e s fs)) = sec_view s \<and>
   ring_ok (fst (write_file bad marshal e s fs)) = ring_ok s \<and>
   ss_next_seq (fst (write_file bad marshal e s fs)) = ss_next_seq s \<and>
   ss_capacity (fst (write_file bad marshal e s fs)) = ss_capacity s"
  by (auto simp: write_file_def write_data_def rotate_locked_def reopen_append_def bump_errors_def Let_def
      split: option.split prod.split bool.split)

lemma sec_append_ring:
  assumes "sec_append pt marshal bad now e0 s fs = (e, s', fs')" "ring_ok s"
  shows "ring_ok s'" "sec_view s' = (if ss_count s < ss_capacity s then sec_view s else tl (sec_view s)) @ [e]"
    "ss_next_seq s' = Suc (ss_next_seq s)" "ss_capacity s' = ss_capacity s"
    "e = (sec_normalize pt now e0)\<lparr>se_sequence := ss_next_seq s\<rparr>"
proof -
  let ?s1 = "append_restored e (s\<lparr>ss_next_seq := Suc (ss_next_seq s)\<rparr>)"
  show e: "e = (sec_normalize pt now e0)\<lparr>se_sequence := ss_next_seq s\<rparr>"
    using assms(1) by (simp add: sec_append_def Let_def)
  have s': "s' = fst (write_file bad marshal e ?s1 fs)"
    using assms(1) unfolding sec_append_def Let_def e by (metis fst_conv snd_conv)
  note r = append_restored_view [of "s\<lparr>ss_next_seq := Suc (ss_next_seq s)\<rparr>" e]
  show "ring_ok s'" "sec_view s' = (if ss_count s < ss_capacity s then sec_view s else tl (sec_view s)) @ [e]"
    "ss_next_seq s' = Suc (ss_next_seq s)" "ss_capacity s' = ss_capacity s"
    using write_file_ring [of bad marshal e ?s1 fs] r assms(2) unfolding s' by simp_all
qed

section \<open>Consistent exports\<close>

definition sec_inv :: "sec_store \<Rightarrow> bool" where
  "sec_inv s \<longleftrightarrow> ring_ok s \<and> 0 < ss_next_seq s \<and> sorted_wrt (<) (map se_sequence (sec_view s)) \<and>
     (\<forall>e \<in> set (sec_view s). 0 < se_sequence e \<and> se_sequence e < ss_next_seq s)"

text \<open>What other requests may do to the log between two steps of an export.\<close>

inductive log_reach :: "(string \<Rightarrow> time option) \<Rightarrow> (sec_entry \<Rightarrow> string option) \<Rightarrow> sec_store \<times> fs \<Rightarrow> sec_store \<times> fs \<Rightarrow> bool"
  for pt marshal
where
  reach_refl: "log_reach pt marshal x x"
| reach_append: "log_reach pt marshal x (s, fs) \<Longrightarrow> sec_append pt marshal bad now e0 s fs = (e, y) \<Longrightarrow>
    log_reach pt marshal x y"
| reach_clear: "log_reach pt marshal x (s, fs) \<Longrightarrow> sec_clear bad s fs = (r, y) \<Longrightarrow> log_reach pt marshal x y"

lemma sec_append_inv:
  assumes "sec_append pt marshal bad now e0 s fs = (e, s', fs')" "sec_inv s"
  shows "sec_inv s'" "set (sec_view s') \<subseteq> insert e (set (sec_view s))" "se_sequence e = ss_next_seq s"
    "ss_next_seq s \<le> ss_next_seq s'"
proof -
  have ok: "ring_ok s" using assms(2) by (simp add: sec_inv_def)
  note r = sec_append_ring [OF assms(1) ok]
  have tl: "set (tl (sec_view s)) \<subseteq> set (sec_view s)" by (cases "sec_view s") auto
  show e: "se_sequence e = ss_next_seq s" using r(5) by simp
  show "set (sec_view s') \<subseteq> insert e (set (sec_view s))" using r(2) tl by auto
  show "ss_next_seq s \<le> ss_next_seq s'" using r(3) by simp
  define kept where "kept = (if ss_count s < ss_capacity s then sec_view s else tl (sec_view s))"
  have "sorted_wrt (<) (map se_sequence kept)" "set kept \<subseteq> set (sec_view s)"
    using assms(2) tl unfolding kept_def by (cases "sec_view s"; simp add: sec_inv_def)+
  then show "sec_inv s'"
    using assms(2) r(1) e unfolding sec_inv_def r(2,3) kept_def [symmetric]
    by (auto simp: sorted_wrt_append less_Suc_eq)
qed

lemma sec_clear_effect:
  assumes "sec_clear bad s fs = (r, s', fs')" "ring_ok s"
  shows "sec_view s' = []" "ring_ok s'" "ss_next_seq s' = ss_next_seq s"
  using assms
  by (auto simp: sec_clear_def sec_view_def ring_ok_def Let_def split: option.splits if_splits prod.splits)

lemma log_reach_inv:
  "log_reach pt marshal x y \<Longrightarrow> sec_inv (fst x) \<Longrightarrow>
     sec_inv (fst y) \<and> ss_next_seq (fst x) \<le> ss_next_seq (fst y) \<and>
     (\<forall>e \<in> set (sec_view (fst y)). se_sequence e < ss_next_seq (fst x) \<longrightarrow> e \<in> set (sec_view (fst x)))"
proof (induction rule: log_reach.induct)
  case (reach_append x s fs bad now e0 e y)
  obtain s' fs' where y: "y = (s', fs')" by fastforce
  have IH: "sec_inv s" "ss_next_seq (fst x) \<le> ss_next_seq s"
    "\<forall>e \<in> set (sec_view s). se_sequence e < ss_next_seq (fst x) \<longrightarrow> e \<in> set (sec_view (fst x))"
    using reach_append by simp_all
  note a = sec_append_inv [OF reach_append.hyps(2) [unfolded y] IH(1)]
  then show ?case using IH by (fastforce simp: y)
next
  case (reach_clear x s fs bad r y)
  obtain s' fs' where y: "y = (s', fs')" by fastforce
  have IH: "sec_inv s" "ss_next_seq (fst x) \<le> ss_next_seq s" using reach_clear by simp_all
  then have "ring_ok s" by (simp add: sec_inv_def)
  note c = sec_clear_effect [OF reach_clear.hyps(2) [unfolded y] this]
  then show ?case using IH by (simp add: y sec_inv_def)
qed simp

lemma export_batch_view:
  "export_batch pt f m before limit s = take limit (filter (batch_selects pt f m before) (rev (sec_view s)))"
  by (simp add: export_batch_def ring_scan_all sec_view_def)

text \<open>What every batch of an export contributes.\<close>

definition page_ok :: "(string \<Rightarrow> time option) \<Rightarrow> sec_filter \<Rightarrow> nat \<Rightarrow> nat \<Rightarrow> sec_entry set \<Rightarrow> sec_entry list \<Rightarrow> bool" where
  "page_ok pt f m before src out \<longleftrightarrow> sorted_wrt (\<lambda>x y. se_sequence x > se_sequence y) out \<and>
     (\<forall>e \<in> set out. e \<in> src \<and> batch_selects pt f m before e)"

lemma batch_page_ok:
  assumes "sec_inv s"
  shows "page_ok pt f m before (set (sec_view s)) (export_batch pt f m before limit s)"
  using assms sorted_desc_of_asc [of se_sequence "sec_view s" "batch_selects pt f m before"]
  by (auto simp: page_ok_def export_batch_view sec_inv_def sorted_wrt_take dest: in_set_takeD)

lemma page_ok_append:
  assumes "page_ok pt f m before src a" "a \<noteq> []" "page_ok pt f m (se_sequence (last a)) src b"
    "\<And>e. e \<in> src \<Longrightarrow> 0 < se_sequence e"
  shows "page_ok pt f m before src (a @ b)"
proof -
  have l: "last a \<in> set a" "0 < se_sequence (last a)" using assms(1,2,4) by (auto simp: page_ok_def)
  have ge: "se_sequence (last a) \<le> se_sequence x" if "x \<in> set a" for x
    using assms(1) that by (cases a rule: rev_cases) (auto simp: page_ok_def sorted_wrt_append intro: less_imp_le)
  have lt: "se_sequence y < se_sequence (last a)" if "y \<in> set b" for y
    using assms(3) that l(2) by (auto simp: page_ok_def batch_selects_def)
  have sel: "batch_selects pt f m before y" if "y \<in> set b" for y
    using assms(1,3) that lt [OF that] l by (fastforce simp: page_ok_def batch_selects_def)
  show ?thesis using assms(1,3) ge lt sel
    by (auto simp: page_ok_def sorted_wrt_append intro: less_le_trans)
qed

lemma export_loop_cases:
  fixes pt f m st k before and remaining :: nat
  defines "limit \<equiv> min export_batch_size remaining"
  defines "batch \<equiv> export_batch pt f m before limit (st k)"
  shows "export_loop pt f m st k remaining before =
    (if remaining = 0 \<or> m = 0 then [] else if batch = [] then [] else if length batch < limit then batch
     else batch @ export_loop pt f m st (Suc k) (remaining - length batch) (se_sequence (last batch)))"
  by (subst export_loop.simps) (simp only: Let_def limit_def batch_def)

lemma export_loop_ok:
  assumes "\<And>j. k \<le> j \<Longrightarrow> sec_inv (st j)"
    "\<And>j e. k \<le> j \<Longrightarrow> e \<in> set (sec_view (st j)) \<Longrightarrow> se_sequence e \<le> m \<Longrightarrow> e \<in> src"
    "\<And>e. e \<in> src \<Longrightarrow> 0 < se_sequence e"
  shows "page_ok pt f m before src (export_loop pt f m st k remaining before) \<and>
    length (export_loop pt f m st k remaining before) \<le> remaining"
  using assms(1,2)
proof (induction pt f m st k remaining before rule: export_loop.induct)
  case (1 pt f m st k remaining before)
  let ?limit = "min export_batch_size remaining" and ?out = "export_loop pt f m st k remaining before"
  let ?batch = "export_batch pt f m before ?limit (st k)"
  have len: "length ?batch \<le> ?limit" unfolding export_batch_view length_take by (rule min.cobounded2)
  have "e \<in> src" if "e \<in> set (sec_view (st k))" "batch_selects pt f m before e" for e
    using "1.prems"(2) [of k e] that by (simp add: batch_selects_def)
  then have p: "page_ok pt f m before src ?batch"
    using batch_page_ok [OF "1.prems"(1) [of k], of pt f m before ?limit] unfolding page_ok_def by blast
  consider (stop) "remaining = 0 \<or> m = 0" | (empty) "remaining \<noteq> 0" "m \<noteq> 0" "?batch = []"
    | (short) "remaining \<noteq> 0" "m \<noteq> 0" "?batch \<noteq> []" "length ?batch < ?limit"
    | (more) "remaining \<noteq> 0" "m \<noteq> 0" "?batch \<noteq> []" "\<not> length ?batch < ?limit" by blast
  then show ?case
  proof cases
    case more
    let ?rest = "export_loop pt f m st (Suc k) (remaining - length ?batch) (se_sequence (last ?batch))"
    have out: "?out = ?batch @ ?rest" using more export_loop_cases [of pt f m st k remaining before] by (simp only: if_False simp_thms)
    have later: "\<And>j. Suc k \<le> j \<Longrightarrow> sec_inv (st j)"
      "\<And>j e. Suc k \<le> j \<Longrightarrow> e \<in> set (sec_view (st j)) \<Longrightarrow> se_sequence e \<le> m \<Longrightarrow> e \<in> src"
      using "1.prems" Suc_leD by blast+
    have ih: "page_ok pt f m (se_sequence (last ?batch)) src ?rest \<and> length ?rest \<le> remaining - length ?batch"
      by (rule "1.IH" [OF _ refl refl _ _ later]) (use more in simp_all)
    show ?thesis unfolding out using page_ok_append [OF p _ _ assms(3)] more ih len by auto
  qed (use p len export_loop_cases [of pt f m st k remaining before] in \<open>auto simp: page_ok_def\<close>)
qed

lemma newest_is_max:
  assumes "sec_inv s"
  shows "e \<in> set (sec_view s) \<Longrightarrow> se_sequence e \<le> newest_sequence s" "newest_sequence s < ss_next_seq s"
proof -
  have last: "sec_view s \<noteq> [] \<Longrightarrow> newest_sequence s = se_sequence (last (sec_view s))"
    by (cases "ss_count s") (auto simp: last_conv_nth newest_sequence_def sec_view_def)
  show "se_sequence e \<le> newest_sequence s" if "e \<in> set (sec_view s)"
    using assms last that by (cases "sec_view s" rule: rev_cases)
      (auto simp: sec_inv_def sorted_wrt_append intro: less_imp_le)
  show "newest_sequence s < ss_next_seq s"
  proof (cases "sec_view s = []")
    case True
    then have "ss_count s = 0" using length_sec_view [of s] by simp
    then show ?thesis using assms by (simp add: newest_sequence_def sec_inv_def)
  next
    case False
    then show ?thesis using assms last by (simp add: sec_inv_def)
  qed
qed

text \<open>An export of a log that does not change is one pass over it.\<close>

lemma export_loop_static:
  assumes "sec_inv s" "0 < m"
  shows "export_loop pt f m (\<lambda>_. s) k remaining before =
    take remaining (filter (batch_selects pt f m before) (rev (sec_view s)))"
  using assms(2)
proof (induction pt f m "\<lambda>_ :: nat. s" k remaining before rule: export_loop.induct)
  case (1 pt f m k remaining before)
  define ms where "ms = filter (batch_selects pt f m before) (rev (sec_view s))"
  define limit where "limit = min export_batch_size remaining"
  have batch: "export_batch pt f m before limit s = take limit ms" by (simp add: export_batch_view ms_def)
  have unfold: "export_loop pt f m (\<lambda>_. s) k remaining before =
      (if remaining = 0 \<or> m = 0 then [] else if take limit ms = [] then []
       else if length (take limit ms) < limit then take limit ms
       else take limit ms @ export_loop pt f m (\<lambda>_. s) (Suc k) (remaining - length (take limit ms))
              (se_sequence (last (take limit ms))))"
    using export_loop_cases [of pt f m "\<lambda>_. s" k remaining before] unfolding limit_def [symmetric] batch .
  show ?case
  proof (cases "remaining \<noteq> 0 \<and> ms \<noteq> [] \<and> limit \<le> length ms")
    case True
    have pos: "0 < limit" using True by (simp add: limit_def export_batch_size_def)
    then have l: "last (take limit ms) = ms ! (limit - 1)" "take limit ms \<noteq> []"
      using True by (simp_all add: last_conv_nth)
    define e where "e = ms ! (limit - 1)"
    have k: "limit - 1 < length ms" using True pos by auto
    then have "e \<in> set ms" unfolding e_def by (rule nth_mem)
    then have e: "batch_selects pt f m before e" "0 < se_sequence e" using assms(1) by (auto simp: ms_def sec_inv_def)
    have "batch_selects pt f m (se_sequence e) = (\<lambda>x. batch_selects pt f m before x \<and> se_sequence x < se_sequence e)"
      using e by (intro ext) (auto simp: batch_selects_def)
    then have "filter (batch_selects pt f m (se_sequence e)) (rev (sec_view s)) =
        filter (\<lambda>x. se_sequence x < se_sequence e) ms"
      by (simp add: ms_def)
    also have "\<dots> = drop (Suc (limit - 1)) ms"
      unfolding e_def using k assms(1)
      by (intro filter_below_nth) (auto simp: ms_def sec_inv_def intro!: sorted_desc_of_asc)
    finally have rest: "filter (batch_selects pt f m (se_sequence e)) (rev (sec_view s)) = drop limit ms" using pos by simp
    have lb: "length (take limit ms) = limit" using True by simp
    have "export_loop pt f m (\<lambda>_. s) (Suc k) (remaining - length (export_batch pt f m before limit s))
        (se_sequence (last (export_batch pt f m before limit s))) =
      take (remaining - length (export_batch pt f m before limit s))
        (filter (batch_selects pt f m (se_sequence (last (export_batch pt f m before limit s)))) (rev (sec_view s)))"
      by (rule "1.hyps" [OF _ limit_def refl]) (use "1.prems" True l lb in \<open>simp_all add: batch\<close>)
    then have ih: "export_loop pt f m (\<lambda>_. s) (Suc k) (remaining - limit) (se_sequence e) =
        take (remaining - limit) (drop limit ms)"
      by (simp only: batch lb l(1) e_def [symmetric] rest)
    have "limit \<le> remaining" by (simp add: limit_def)
    then have "take limit ms @ take (remaining - limit) (drop limit ms) = take remaining ms"
      by (metis le_add_diff_inverse take_add)
    then show ?thesis using unfold True l lb ih "1.prems" by (simp add: e_def flip: ms_def)
  next
    case False
    then have "remaining = 0 \<or> ms = [] \<or> length ms < limit" by auto
    moreover have "length ms < limit \<Longrightarrow> take limit ms = ms \<and> take remaining ms = ms" by (simp add: limit_def)
    ultimately show ?thesis using unfold "1.prems" by (auto simp flip: ms_def)
  qed
qed

text \<open>
  C38. An export is a consistent picture of the log of the moment it started. Although the lock
  is released between batches, and other requests append events and administrators clear the log
  meanwhile, the exported events are retained events of the start of the export, each at most
  once, newest first, all matching the filter, and no more than the limit; and if nothing changes
  meanwhile they are all of them up to the limit.
\<close>

theorem export_consistent:
  assumes "sec_inv (fst (st 0))" "\<forall>k. log_reach pt marshal (st k) (st (Suc k))"
    and "export_entries pt f format (\<lambda>k. fst (st k)) = Inr out"
  defines "limit \<equiv> if sf_limit f \<le> 0 \<or> sf_limit f > int (ss_capacity (fst (st 0)))
      then ss_capacity (fst (st 0)) else nat (sf_limit f)"
  shows "sorted_wrt (\<lambda>x y. se_sequence x > se_sequence y) out
    \<and> set out \<subseteq> {e \<in> set (sec_view (fst (st 0))). sec_selects pt f e}
    \<and> length out \<le> limit
    \<and> ((\<forall>k. st k = st 0) \<longrightarrow> out = take limit (filter (sec_selects pt f) (rev (sec_view (fst (st 0))))))"
proof -
  let ?s = "fst (st 0)"
  define m where "m = newest_sequence ?s"
  have out: "out = export_loop pt f m (\<lambda>k. fst (st k)) 1 limit (sf_before f)"
    using assms(3) unfolding export_entries_def Let_def limit_def m_def by (auto split: if_splits)
  have reach: "sec_inv (fst (st k)) \<and> ss_next_seq ?s \<le> ss_next_seq (fst (st k)) \<and>
      (\<forall>e \<in> set (sec_view (fst (st k))). se_sequence e < ss_next_seq ?s \<longrightarrow> e \<in> set (sec_view ?s))" for k
  proof (induction k)
    case (Suc k)
    then show ?case using log_reach_inv [OF assms(2) [rule_format, of k]] by fastforce
  qed (use assms(1) in simp)
  have newest: "e \<in> set (sec_view ?s) \<Longrightarrow> se_sequence e \<le> m" "m < ss_next_seq ?s" for e
    using newest_is_max [OF assms(1)] by (auto simp: m_def)
  have ok: "page_ok pt f m (sf_before f) (set (sec_view ?s)) out \<and> length out \<le> limit"
    unfolding out
  proof (rule export_loop_ok)
    show "sec_inv (fst (st j))" for j using reach by blast
    show "e \<in> set (sec_view ?s)" if "e \<in> set (sec_view (fst (st j)))" "se_sequence e \<le> m" for j e
      using reach [of j] that newest(2) by (metis le_less_trans)
    show "0 < se_sequence e" if "e \<in> set (sec_view ?s)" for e
      using assms(1) that by (simp add: sec_inv_def)
  qed
  have sel: "batch_selects pt f m (sf_before f) e = sec_selects pt f e" if "e \<in> set (sec_view ?s)" for e
    using newest(1) [OF that] by (auto simp: batch_selects_def sec_selects_def)
  have "out = take limit (filter (sec_selects pt f) (rev (sec_view ?s)))" if "\<forall>k. st k = st 0"
  proof (cases "m = 0")
    case True
    then have "sec_view ?s = []" using newest(1) assms(1) by (fastforce simp: sec_inv_def)
    then show ?thesis using True out by (simp add: export_loop.simps)
  next
    case False
    have "(\<lambda>k. fst (st k)) = (\<lambda>_. ?s)"
      by (intro ext arg_cong [where f = fst]) (rule that [rule_format])
    then have "out = export_loop pt f m (\<lambda>_. ?s) 1 limit (sf_before f)" unfolding out by (rule arg_cong)
    also have "\<dots> = take limit (filter (batch_selects pt f m (sf_before f)) (rev (sec_view ?s)))"
      using False by (intro export_loop_static [OF assms(1)]) simp
    also have "filter (batch_selects pt f m (sf_before f)) (rev (sec_view ?s)) = filter (sec_selects pt f) (rev (sec_view ?s))"
      using sel by (intro filter_cong) simp_all
    finally show ?thesis .
  qed
  moreover have "set out \<subseteq> {e \<in> set (sec_view ?s). sec_selects pt f e}" using ok sel by (auto simp: page_ok_def)
  ultimately show ?thesis using ok unfolding page_ok_def by blast
qed

definition demo_sec_filter :: sec_filter where
  "demo_sec_filter = \<lparr>sf_route = [], sf_request_id = [], sf_client_ip = [], sf_method = ''get'', sf_event = [],
     sf_level = [], sf_action = [], sf_reason = [], sf_rule_id = [], sf_search = [], sf_status = 0,
     sf_since = 0, sf_until = 0, sf_before = 0, sf_limit = 0\<rparr>"

definition demo_log_config :: log_config where
  "demo_log_config = \<lparr>lc_capacity = 3, lc_file_path = ''log'', lc_max_file_bytes = 100, lc_max_backups = 2\<rparr>"

lemma new_sec_store_inv: "sec_inv (new_sec_store cfg)" "sec_view (new_sec_store cfg) = []"
  by (simp_all add: new_sec_store_def sec_inv_def sec_view_def ring_ok_def Let_def)

text \<open>An event is appended after the first batch was announced.\<close>

definition demo_runs :: "nat \<Rightarrow> sec_store \<times> fs" where
  "demo_runs k =
     (let s1 = snd (sec_append (\<lambda>_. None) (\<lambda>_. None) (\<lambda>_. False) ''t'' (zero_sec_entry\<lparr>se_method := ''get''\<rparr>) (new_sec_store demo_log_config) []);
          s2 = snd (sec_append (\<lambda>_. None) (\<lambda>_. None) (\<lambda>_. False) ''t'' (zero_sec_entry\<lparr>se_method := ''get''\<rparr>) (fst s1) (snd s1))
      in if k = 0 then s1 else s2)"

theorem export_consistent_witness:
  "\<exists>out. export_entries (\<lambda>_. None) demo_sec_filter ''CSV'' (\<lambda>k. fst (demo_runs k)) = Inr out \<and>
     out \<noteq> [] \<and> set out \<subseteq> set (sec_view (fst (demo_runs 0)))"
proof -
  define s1 where "s1 = snd (sec_append (\<lambda>_. None) (\<lambda>_. None) (\<lambda>_. False) ''t'' (zero_sec_entry\<lparr>se_method := ''get''\<rparr>)
    (new_sec_store demo_log_config) [])"
  have runs: "demo_runs 0 = s1" "\<And>k. demo_runs (Suc k) = snd (sec_append (\<lambda>_. None) (\<lambda>_. None) (\<lambda>_. False) ''t''
      (zero_sec_entry\<lparr>se_method := ''get''\<rparr>) (fst s1) (snd s1))"
    by (simp_all add: demo_runs_def s1_def Let_def)
  have inv: "sec_inv (fst (demo_runs 0))"
    unfolding runs s1_def using sec_append_inv(1) [OF _ new_sec_store_inv(1)] by (metis prod.collapse)
  have reach: "log_reach (\<lambda>_. None) (\<lambda>_. None) (demo_runs k) (demo_runs (Suc k))" for k
  proof (cases k)
    case 0
    then show ?thesis unfolding 0 runs by (metis log_reach.intros(1,2) prod.collapse)
  next
    case (Suc j)
    then show ?thesis using runs reach_refl by metis
  qed
  have "case export_entries (\<lambda>_. None) demo_sec_filter ''CSV'' (\<lambda>k. fst (demo_runs k)) of Inr out \<Rightarrow> out \<noteq> [] | Inl e \<Rightarrow> False"
    by code_simp
  then obtain out where out: "export_entries (\<lambda>_. None) demo_sec_filter ''CSV'' (\<lambda>k. fst (demo_runs k)) = Inr out" "out \<noteq> []"
    by (auto split: sum.splits)
  show ?thesis using export_consistent [OF inv _ out(1)] reach out by blast
qed

end
