(* ===== verification/Security_Log_Restart.thy ===== *)
theory Security_Log_Restart
  imports Security_Log_Correct
begin

text \<open>
  The log files: rotation keeps a suffix of the log on disk, spread over the backups and the active
  file in order, and starting again restores it.
\<close>

section \<open>File names\<close>

lemma digit_value_char: "0 \<le> d \<Longrightarrow> d < 10 \<Longrightarrow> digit_value (digit_char d) = d"
proof -
  have "list_all (\<lambda>d. digit_value (digit_char d) = d) [0..9]" by code_simp
  moreover assume "0 \<le> d" "d < 10"
  ultimately show ?thesis by (auto simp: list_all_iff)
qed

lemma digits_of_value: "0 \<le> n \<Longrightarrow> foldl (\<lambda>acc c. acc * 10 + digit_value c) 0 (digits_of 10 n) = n"
proof (induction "10 :: int" n rule: digits_of.induct)
  case (1 n)
  show ?case
  proof (cases "n < 10")
    case True
    then show ?thesis using "1.prems" by (simp add: digits_of.simps [of 10 n] digit_value_char)
  next
    case False
    then show ?thesis using 1 by (simp add: digits_of.simps [of 10 n] digit_value_char)
  qed
qed

text \<open>File \<open>0\<close> is the active one, file \<open>i\<close> the backup number \<open>i\<close>.\<close>

definition log_file :: "string \<Rightarrow> nat \<Rightarrow> string" where
  "log_file path i = (if i = 0 then path else backup_path path i)"

lemma backup_path_inj [simp]: "backup_path path i = backup_path path j \<longleftrightarrow> i = j"
proof
  assume "backup_path path i = backup_path path j"
  then have "digits_of 10 (int i) = digits_of 10 (int j)" by (simp add: backup_path_def)
  then have "foldl (\<lambda>acc c. acc * 10 + digit_value c) 0 (digits_of 10 (int i)) =
      foldl (\<lambda>acc c. acc * 10 + digit_value c) 0 (digits_of 10 (int j))" by (rule arg_cong)
  then show "i = j" by (simp only: digits_of_value of_nat_0_le_iff of_nat_eq_iff)
qed simp

lemma backup_path_other [simp]: "backup_path path i \<noteq> path" "path \<noteq> backup_path path i"
  by (auto simp: backup_path_def)

lemma log_file_inj [simp]: "log_file path i = log_file path j \<longleftrightarrow> i = j"
  by (auto simp: log_file_def)

section \<open>Rotation without failures\<close>

lemma replace_rename_ok:
  "replace_rename (\<lambda>_. False) src dst fs =
     (True, case gm_get fs src of None \<Rightarrow> fs | Some c \<Rightarrow> gm_put dst c (gm_del src (gm_del dst fs)))"
  by (simp add: replace_rename_def remove_if_exists_def split: option.split)

lemma replace_rename_get:
  assumes "replace_rename (\<lambda>_. False) src dst fs = (True, fs')" "gm_get fs dst = None" "src \<noteq> dst"
  shows "gm_get fs' = (gm_get fs)(dst := gm_get fs src, src := None)"
  using assms by (auto simp: replace_rename_ok gm_get_put gm_get_del fun_eq_iff split: option.splits)

lemma rotate_loop_ok:
  "gm_get fs (backup_path path (Suc n)) = None \<Longrightarrow>
   \<exists>fs'. rotate_loop (\<lambda>_. False) path n fs = (True, fs') \<and>
     (\<forall>i \<in> {1..n}. gm_get fs' (backup_path path (Suc i)) = gm_get fs (backup_path path i)) \<and>
     gm_get fs' (backup_path path 1) = None \<and> gm_get fs' path = gm_get fs path \<and>
     (\<forall>j > Suc n. gm_get fs' (backup_path path j) = gm_get fs (backup_path path j))"
proof (induction n arbitrary: fs)
  case (Suc n)
  let ?b = "backup_path path"
  obtain fs1 where r: "replace_rename (\<lambda>_. False) (?b (Suc n)) (?b (Suc (Suc n))) fs = (True, fs1)"
    by (simp add: replace_rename_ok)
  have g: "gm_get fs1 = (gm_get fs)(?b (Suc (Suc n)) := gm_get fs (?b (Suc n)), ?b (Suc n) := None)"
    by (rule replace_rename_get [OF r]) (use Suc.prems in simp_all)
  then have "gm_get fs1 (?b (Suc n)) = None" by simp
  from Suc.IH [OF this] obtain fs' where fs': "rotate_loop (\<lambda>_. False) path n fs1 = (True, fs')"
    "\<forall>i \<in> {1..n}. gm_get fs' (?b (Suc i)) = gm_get fs1 (?b i)"
    "gm_get fs' (?b 1) = None" "gm_get fs' path = gm_get fs1 path"
    "\<forall>j > Suc n. gm_get fs' (?b j) = gm_get fs1 (?b j)" by blast
  then show ?case using g r by (auto simp: le_Suc_eq)
qed auto

lemma rotate_files_ok:
  "\<exists>fs'. rotate_files (\<lambda>_. False) path B fs = (True, fs') \<and> gm_get fs' path = None \<and>
     (\<forall>i \<in> {1..B}. gm_get fs' (log_file path i) = gm_get fs (log_file path (i - 1)))"
proof (cases B)
  case 0
  then show ?thesis by (simp add: rotate_files_def remove_if_exists_def gm_get_del)
next
  case (Suc n)
  let ?b = "backup_path path"
  let ?fs = "gm_del (?b B) fs"
  have "gm_get ?fs (?b (Suc n)) = None" by (simp add: gm_get_del Suc)
  from rotate_loop_ok [OF this] obtain fs1 where l: "rotate_loop (\<lambda>_. False) path n ?fs = (True, fs1)"
    "\<forall>i \<in> {1..n}. gm_get fs1 (?b (Suc i)) = gm_get ?fs (?b i)"
    "gm_get fs1 (?b 1) = None" "gm_get fs1 path = gm_get ?fs path" by blast
  obtain fs' where r: "replace_rename (\<lambda>_. False) path (?b 1) fs1 = (True, fs')" by (simp add: replace_rename_ok)
  have g: "gm_get fs' = (gm_get fs1)(?b 1 := gm_get fs1 path, path := None)"
    by (rule replace_rename_get [OF r l(3)]) simp
  have "gm_get fs' (log_file path i) = gm_get fs (log_file path (i - 1))" if i: "i \<in> {1..B}" for i
  proof (cases "i = 1")
    case True
    then show ?thesis using g l(4) by (simp add: log_file_def gm_get_del)
  next
    case False
    then have j: "i - 1 \<in> {1..n}" "Suc (i - 1) = i" "i - 1 \<noteq> B" using i Suc by auto
    have "gm_get fs1 (?b i) = gm_get ?fs (?b (i - 1))" using l(2) [rule_format, OF j(1)] j(2) by simp
    then show ?thesis using g False i j by (simp add: log_file_def gm_get_del)
  qed
  then show ?thesis using r l(1) g Suc by (auto simp: rotate_files_def remove_if_exists_def)
qed

section \<open>What is on disk\<close>

text \<open>
  The requirement on the encoder: every logged entry is encoded on one line of bounded size, and
  decoding gives it back.
\<close>

definition encodes :: "(sec_entry \<Rightarrow> string option) \<Rightarrow> (string \<Rightarrow> sec_entry option) \<Rightarrow> sec_entry \<Rightarrow> bool" where
  "encodes marshal unmarshal e \<longleftrightarrow>
     (case marshal e of
        None \<Rightarrow> False
      | Some t \<Rightarrow> unmarshal t = Some e \<and> CHR 0x0A \<notin> set t \<and> valid_utf8 t \<and> trim_space t = t \<and> t \<noteq> [] \<and>
                  length t < max_line_bytes)"

definition line_of :: "(sec_entry \<Rightarrow> string option) \<Rightarrow> sec_entry \<Rightarrow> string" where
  "line_of marshal e = (case marshal e of None \<Rightarrow> [] | Some t \<Rightarrow> t @ [CHR 0x0A])"

definition lines_of :: "(sec_entry \<Rightarrow> string option) \<Rightarrow> sec_entry list \<Rightarrow> string" where
  "lines_of marshal es = concat (map (line_of marshal) es)"

text \<open>Segment \<open>i\<close> of the log is in file \<open>i\<close>; the open file is written at its end.\<close>

definition disk_ok :: "(sec_entry \<Rightarrow> string option) \<Rightarrow> sec_store \<Rightarrow> fs \<Rightarrow> sec_entry list list \<Rightarrow> bool" where
  "disk_ok marshal s fs segs \<longleftrightarrow> length segs = Suc (ss_max_backups s) \<and>
     (\<forall>i \<le> ss_max_backups s. file_content fs (log_file (ss_path s) i) = lines_of marshal (segs ! i)) \<and>
     ss_file_bytes s = int (length (file_content fs (ss_path s))) \<and>
     ss_file s \<in> {Some Appending, Some (At_Offset (length (file_content fs (ss_path s))))}"

lemma disk_ok_append_restored [simp]: "disk_ok marshal (append_restored e s) fs segs = disk_ok marshal s fs segs"
  "disk_ok marshal (s\<lparr>ss_next_seq := n\<rparr>) fs segs = disk_ok marshal s fs segs"
  by (simp_all add: disk_ok_def)

lemma write_data_ok:
  assumes "disk_ok marshal s fs segs" "data = line_of marshal e"
  shows "\<exists>s' fs'. write_data (\<lambda>_. False) data s fs = (s', fs') \<and> disk_ok marshal s' fs' ((segs ! 0 @ [e]) # tl segs) \<and>
    ss_file_errors s' = ss_file_errors s \<and> ss_path s' = ss_path s \<and> ss_max_backups s' = ss_max_backups s \<and>
    ss_max_file_bytes s' = ss_max_file_bytes s \<and> ss_file_bytes s' = ss_file_bytes s + int (length data)"
proof -
  let ?c = "file_content fs (ss_path s)" and ?p = "ss_path s"
  have segs: "length segs = Suc (ss_max_backups s)" "segs \<noteq> []"
    and f: "\<And>i. i \<le> ss_max_backups s \<Longrightarrow> file_content fs (log_file ?p i) = lines_of marshal (segs ! i)"
    and h: "ss_file s = Some Appending \<or> ss_file s = Some (At_Offset (length ?c))"
    and b: "ss_file_bytes s = int (length ?c)"
    using assms(1) by (auto simp: disk_ok_def)
  let ?fs = "gm_put ?p (?c @ data) fs"
  have c0: "?c = lines_of marshal (segs ! 0)" using f [of 0] by (simp add: log_file_def)
  have w: "\<exists>h'. write_data (\<lambda>_. False) data s fs =
      (s\<lparr>ss_file := Some h', ss_file_bytes := ss_file_bytes s + int (length data)\<rparr>, ?fs) \<and>
      (h' = Appending \<or> h' = At_Offset (length (?c @ data)))"
    using h by (auto simp: write_data_def write_handle_def)
  then obtain h' where w: "write_data (\<lambda>_. False) data s fs =
      (s\<lparr>ss_file := Some h', ss_file_bytes := ss_file_bytes s + int (length data)\<rparr>, ?fs)"
    "h' = Appending \<or> h' = At_Offset (length (?c @ data))" by blast
  have content: "file_content ?fs ?p = ?c @ data" "\<And>i. 0 < i \<Longrightarrow> file_content ?fs (log_file ?p i) = file_content fs (log_file ?p i)"
    by (simp_all add: file_content_def gm_get_put log_file_def)
  have "file_content ?fs (log_file ?p i) = lines_of marshal (((segs ! 0 @ [e]) # tl segs) ! i)"
    if i: "i \<le> ss_max_backups s" for i
  proof (cases i)
    case 0
    then show ?thesis using content(1) c0 assms(2) by (simp add: log_file_def lines_of_def)
  next
    case (Suc j)
    then show ?thesis using content(2) [of i] f [OF i] i segs by (simp add: nth_tl)
  qed
  then have "disk_ok marshal (s\<lparr>ss_file := Some h', ss_file_bytes := ss_file_bytes s + int (length data)\<rparr>) ?fs
      ((segs ! 0 @ [e]) # tl segs)"
    using content(1) b segs w(2) by (auto simp: disk_ok_def)
  then show ?thesis using w(1) by simp
qed

lemma rotate_locked_ok:
  assumes "disk_ok marshal s fs segs"
  shows "\<exists>s' fs'. rotate_locked (\<lambda>_. False) s fs = (True, s', fs') \<and> disk_ok marshal s' fs' ([] # butlast segs) \<and>
    ss_file_errors s' = ss_file_errors s \<and> ss_path s' = ss_path s \<and> ss_max_backups s' = ss_max_backups s \<and>
    ss_max_file_bytes s' = ss_max_file_bytes s \<and> ss_file_bytes s' = 0"
proof -
  let ?p = "ss_path s" and ?B = "ss_max_backups s"
  obtain fs1 where r: "rotate_files (\<lambda>_. False) ?p ?B fs = (True, fs1)" "gm_get fs1 ?p = None"
    "\<forall>i \<in> {1..?B}. gm_get fs1 (log_file ?p i) = gm_get fs (log_file ?p (i - 1))"
    using rotate_files_ok by blast
  let ?s = "s\<lparr>ss_file := Some (At_Offset 0), ss_file_bytes := 0\<rparr>" and ?fs = "gm_put ?p [] fs1"
  have rot: "rotate_locked (\<lambda>_. False) s fs = (True, ?s, ?fs)" using r(1) by (simp add: rotate_locked_def Let_def)
  have segs: "length segs = Suc ?B"
    and f: "\<And>i. i \<le> ?B \<Longrightarrow> file_content fs (log_file ?p i) = lines_of marshal (segs ! i)"
    using assms by (simp_all add: disk_ok_def)
  have "file_content ?fs (log_file ?p i) = lines_of marshal (([] # butlast segs) ! i)" if i: "i \<le> ?B" for i
  proof (cases i)
    case 0
    then show ?thesis by (simp add: file_content_def gm_get_put log_file_def lines_of_def)
  next
    case (Suc j)
    then have "gm_get fs1 (log_file ?p i) = gm_get fs (log_file ?p j)" using r(3) i by force
    then have "file_content ?fs (log_file ?p i) = file_content fs (log_file ?p j)"
      using Suc by (simp add: file_content_def gm_get_put log_file_def)
    then show ?thesis using f [of j] Suc i segs by (simp add: nth_butlast)
  qed
  then have "disk_ok marshal ?s ?fs ([] # butlast segs)"
    using segs by (simp add: disk_ok_def file_content_def gm_get_put)
  then show ?thesis using rot by simp
qed

lemma line_of_encodes: "encodes marshal unmarshal e \<Longrightarrow> marshal e = Some t \<Longrightarrow> line_of marshal e = t @ [CHR 0x0A]"
  by (simp add: line_of_def)

lemma encodesE:
  assumes "encodes marshal unmarshal e"
  obtains t where "marshal e = Some t" "unmarshal t = Some e" "CHR 0x0A \<notin> set t" "valid_utf8 t" "trim_space t = t"
    "t \<noteq> []" "length t < max_line_bytes" "line_of marshal e = t @ [CHR 0x0A]"
  using assms that by (auto simp: encodes_def line_of_def split: option.splits)

lemma write_file_ok:
  assumes "disk_ok marshal s fs segs" "encodes marshal unmarshal e"
  shows "\<exists>s' fs' segs'. write_file (\<lambda>_. False) marshal e s fs = (s', fs') \<and> disk_ok marshal s' fs' segs' \<and>
    (if ss_file_bytes s + int (length (line_of marshal e)) > ss_max_file_bytes s
     then segs' = [e] # butlast segs else segs' = (segs ! 0 @ [e]) # tl segs) \<and>
    ss_file_errors s' = ss_file_errors s \<and> ss_path s' = ss_path s \<and> ss_max_backups s' = ss_max_backups s \<and>
    ss_max_file_bytes s' = ss_max_file_bytes s"
proof -
  obtain t where t: "marshal e = Some t" "line_of marshal e = t @ [CHR 0x0A]" using assms(2) by (auto elim: encodesE)
  have h: "\<exists>h. ss_file s = Some h" using assms(1) by (auto simp: disk_ok_def)
  show ?thesis
  proof (cases "ss_file_bytes s + int (length (line_of marshal e)) > ss_max_file_bytes s")
    case True
    obtain s1 fs1 where r: "rotate_locked (\<lambda>_. False) s fs = (True, s1, fs1)" "disk_ok marshal s1 fs1 ([] # butlast segs)"
      "ss_file_errors s1 = ss_file_errors s" "ss_path s1 = ss_path s" "ss_max_backups s1 = ss_max_backups s"
      "ss_max_file_bytes s1 = ss_max_file_bytes s" using rotate_locked_ok [OF assms(1)] by blast
    obtain s2 fs2 where w: "write_data (\<lambda>_. False) (line_of marshal e) s1 fs1 = (s2, fs2)"
      "disk_ok marshal s2 fs2 ([e] # butlast segs)" "ss_file_errors s2 = ss_file_errors s1" "ss_path s2 = ss_path s1"
      "ss_max_backups s2 = ss_max_backups s1" "ss_max_file_bytes s2 = ss_max_file_bytes s1"
      using write_data_ok [OF r(2) refl, of e] by auto
    have "write_file (\<lambda>_. False) marshal e s fs = (s2, fs2)"
      using True r(1) w(1) h t by (auto simp: write_file_def Let_def)
    then show ?thesis using True w r by auto
  next
    case False
    obtain s2 fs2 where w: "write_data (\<lambda>_. False) (line_of marshal e) s fs = (s2, fs2)"
      "disk_ok marshal s2 fs2 ((segs ! 0 @ [e]) # tl segs)" "ss_file_errors s2 = ss_file_errors s" "ss_path s2 = ss_path s"
      "ss_max_backups s2 = ss_max_backups s" "ss_max_file_bytes s2 = ss_max_file_bytes s"
      using write_data_ok [OF assms(1) refl, of e] by auto
    have "write_file (\<lambda>_. False) marshal e s fs = (s2, fs2)"
      using False w(1) h t by (auto simp: write_file_def Let_def)
    then show ?thesis using False w by auto
  qed
qed

lemma concat_rev_rotated:
  assumes "segs \<noteq> []"
  shows "concat (rev ((segs ! 0 @ [e]) # tl segs)) = concat (rev segs) @ [e]"
    "concat (rev ([e] # butlast segs)) = drop (length (last segs)) (concat (rev segs) @ [e])"
proof -
  show "concat (rev ((segs ! 0 @ [e]) # tl segs)) = concat (rev segs) @ [e]" using assms by (cases segs) simp_all
  show "concat (rev ([e] # butlast segs)) = drop (length (last segs)) (concat (rev segs) @ [e])"
    using assms by (cases segs rule: rev_cases) simp_all
qed

section \<open>Runs\<close>

definition sec_run ::
  "(string \<Rightarrow> time option) \<Rightarrow> (sec_entry \<Rightarrow> string option) \<Rightarrow> (string \<times> sec_entry) list \<Rightarrow> sec_store \<times> fs \<Rightarrow> sec_store \<times> fs"
where
  "sec_run pt marshal events sf =
     foldl (\<lambda>sf ev. snd (sec_append pt marshal (\<lambda>_. False) (fst ev) (snd ev) (fst sf) (snd sf))) sf events"

definition sec_numbered :: "(string \<Rightarrow> time option) \<Rightarrow> (string \<times> sec_entry) list \<Rightarrow> sec_entry list" where
  "sec_numbered pt events = map (\<lambda>i. (sec_normalize pt (fst (events ! i)) (snd (events ! i)))\<lparr>se_sequence := Suc i\<rparr>)
     [0..<length events]"

lemma sec_numbered_snoc:
  "sec_numbered pt (events @ [ev]) =
     sec_numbered pt events @ [(sec_normalize pt (fst ev) (snd ev))\<lparr>se_sequence := Suc (length events)\<rparr>]"
  by (auto simp: sec_numbered_def nth_append)

lemma length_sec_numbered [simp]: "length (sec_numbered pt events) = length events"
  by (simp add: sec_numbered_def)

text \<open>
  What the files are meant to hold, the active file first and then the backups: an event is added to the active file if it
  stays within the limit; otherwise it starts a new active file, every file becomes the next older backup and the file beyond the last backup is dropped.
\<close>

definition put_event ::
  "(sec_entry \<Rightarrow> string option) \<Rightarrow> int \<Rightarrow> nat \<Rightarrow> sec_entry list list \<Rightarrow> sec_entry \<Rightarrow> sec_entry list list" where
  "put_event marshal M B segs e =
     (if int (length (lines_of marshal (hd segs @ [e]))) > M then take (Suc B) ([e] # segs)
      else (hd segs @ [e]) # tl segs)"

definition files_after :: "(sec_entry \<Rightarrow> string option) \<Rightarrow> int \<Rightarrow> nat \<Rightarrow> sec_entry list \<Rightarrow> sec_entry list list" where
  "files_after marshal M B es = foldl (put_event marshal M B) (replicate (Suc B) []) es"

lemma files_after_snoc [simp]:
  "files_after marshal M B (es @ [e]) = put_event marshal M B (files_after marshal M B es) e"
  by (simp add: files_after_def)

lemma length_files_after [simp]: "length (files_after marshal M B es) = Suc B"
proof (induction es rule: rev_induct)
  case (snoc e es)
  then show ?case by (auto simp: put_event_def)
qed (simp add: files_after_def)

lemma files_after_ne [simp]: "files_after marshal M B es \<noteq> []"
  using length_files_after [of marshal M B es] by (metis length_0_conv nat.distinct(1))

lemma take_rotated: "length segs = Suc B \<Longrightarrow> take (Suc B) (x # segs) = x # butlast segs"
  by (simp add: butlast_conv_take)

text \<open>They hold a suffix of the events, with the newest one, and all of them if they fit into one file.\<close>

lemma files_after_suffix:
  "\<exists>k. concat (rev (files_after marshal M B es)) = drop k es \<and> (es \<noteq> [] \<longrightarrow> k < length es)"
proof (induction es rule: rev_induct)
  case Nil
  then show ?case by (simp add: files_after_def)
next
  case (snoc e es)
  let ?segs = "files_after marshal M B es"
  from snoc obtain k where k: "concat (rev ?segs) = drop k es" "es \<noteq> [] \<longrightarrow> k < length es" by blast
  show ?case
  proof (cases "int (length (lines_of marshal (hd ?segs @ [e]))) > M")
    case True
    have "length (last ?segs) \<le> length (drop k es)"
      unfolding k(1) [symmetric] by (simp add: length_concat member_le_sum_list rev_map [symmetric])
    moreover have "concat (rev (put_event marshal M B ?segs e)) = drop (length (last ?segs)) (drop k es @ [e])"
      using True concat_rev_rotated(2) [of ?segs e] k(1) by (simp add: put_event_def take_rotated del: take_Suc_Cons)
    ultimately show ?thesis using k(2) by (intro exI [of _ "length (last ?segs) + min k (length es)"]) (auto simp: min_def)
  next
    case False
    then have "concat (rev (put_event marshal M B ?segs e)) = drop k es @ [e]"
      using concat_rev_rotated(1) [of ?segs e] k(1) by (simp add: put_event_def hd_conv_nth)
    then show ?thesis using k(2) by (intro exI [of _ "min k (length es)"]) (auto simp: min_def)
  qed
qed

lemma files_after_fits:
  "int (length (lines_of marshal es)) \<le> M \<Longrightarrow> files_after marshal M B es = es # replicate B []"
proof (induction es rule: rev_induct)
  case (snoc e es)
  have "int (length (lines_of marshal es)) \<le> M" using snoc.prems by (simp add: lines_of_def)
  then show ?case using snoc by (simp add: put_event_def)
qed (simp add: files_after_def)

definition run_ok ::
  "(sec_entry \<Rightarrow> string option) \<Rightarrow> string \<Rightarrow> nat \<Rightarrow> int \<Rightarrow> sec_entry list \<Rightarrow> sec_store \<times> fs \<Rightarrow> bool" where
  "run_ok marshal path B M es sf \<longleftrightarrow>
     ss_path (fst sf) = path \<and> ss_max_backups (fst sf) = B \<and> ss_max_file_bytes (fst sf) = M \<and>
     ss_next_seq (fst sf) = Suc (length es) \<and> disk_ok marshal (fst sf) (snd sf) (files_after marshal M B es)"

lemma run_ok_files:
  assumes "run_ok marshal path B M es (s, fs)"
  shows "length (files_after marshal M B es) = Suc B"
    "i \<le> B \<Longrightarrow> file_content fs (log_file path i) = lines_of marshal (files_after marshal M B es ! i)"
proof -
  have f: "disk_ok marshal s fs (files_after marshal M B es)" "ss_path s = path" "ss_max_backups s = B"
    using assms by (simp_all add: run_ok_def)
  show "length (files_after marshal M B es) = Suc B" by simp
  show "file_content fs (log_file path i) = lines_of marshal (files_after marshal M B es ! i)" if "i \<le> B"
    using f(1) that unfolding disk_ok_def f(2,3) by blast
qed

lemma sec_append_run:
  assumes "run_ok marshal path B M es (s, fs)"
    and "e = (sec_normalize pt now e0)\<lparr>se_sequence := Suc (length es)\<rparr>" "encodes marshal unmarshal e"
  shows "run_ok marshal path B M (es @ [e]) (snd (sec_append pt marshal (\<lambda>_. False) now e0 s fs))"
proof -
  let ?segs = "files_after marshal M B es"
  from assms(1) have d: "disk_ok marshal s fs ?segs"
    and f: "ss_path s = path" "ss_max_backups s = B" "ss_max_file_bytes s = M" "ss_next_seq s = Suc (length es)"
    by (simp_all add: run_ok_def)
  let ?s1 = "append_restored e (s\<lparr>ss_next_seq := Suc (ss_next_seq s)\<rparr>)"
  have d1: "disk_ok marshal ?s1 fs ?segs" using d by simp
  obtain s' fs' segs' where w: "write_file (\<lambda>_. False) marshal e ?s1 fs = (s', fs')" "disk_ok marshal s' fs' segs'"
    "if ss_file_bytes s + int (length (line_of marshal e)) > M
     then segs' = [e] # butlast ?segs else segs' = (?segs ! 0 @ [e]) # tl ?segs"
    "ss_path s' = path" "ss_max_backups s' = B" "ss_max_file_bytes s' = M"
    using write_file_ok [OF d1 assms(3)] f by auto
  have a: "snd (sec_append pt marshal (\<lambda>_. False) now e0 s fs) = (s', fs')"
    using w(1) f(4) unfolding assms(2) by (simp add: sec_append_def Let_def)
  have n: "ss_next_seq s' = Suc (length (es @ [e]))"
    using write_file_ring [of "\<lambda>_. False" marshal e ?s1 fs] w(1) f(4) by simp
  have bytes: "ss_file_bytes s = int (length (lines_of marshal (?segs ! 0)))"
    using d by (auto simp: disk_ok_def log_file_def dest: spec [of _ 0])
  have "segs' = put_event marshal M B ?segs e"
    using w(3) bytes by (simp add: put_event_def take_rotated hd_conv_nth lines_of_def split: if_splits del: take_Suc_Cons)
  then show ?thesis unfolding run_ok_def a using w n by simp
qed

lemma sec_run_ok:
  assumes "run_ok marshal path B M [] sf" "\<And>e. e \<in> set (sec_numbered pt events) \<Longrightarrow> encodes marshal unmarshal e"
  shows "run_ok marshal path B M (sec_numbered pt events) (sec_run pt marshal events sf)"
  using assms(2)
proof (induction events rule: rev_induct)
  case Nil
  then show ?case using assms(1) by (simp add: sec_run_def sec_numbered_def)
next
  case (snoc ev events)
  let ?e = "(sec_normalize pt (fst ev) (snd ev))\<lparr>se_sequence := Suc (length events)\<rparr>"
  have IH: "run_ok marshal path B M (sec_numbered pt events) (sec_run pt marshal events sf)"
    using snoc by (simp add: sec_numbered_snoc)
  have e: "encodes marshal unmarshal ?e" using snoc.prems by (simp add: sec_numbered_snoc)
  have step: "sec_run pt marshal (events @ [ev]) sf = snd (sec_append pt marshal (\<lambda>_. False) (fst ev) (snd ev)
      (fst (sec_run pt marshal events sf)) (snd (sec_run pt marshal events sf)))" by (simp add: sec_run_def)
  show ?case unfolding step sec_numbered_snoc
    by (rule sec_append_run [OF _ _ e]) (use IH in simp_all)
qed

section \<open>Restoring\<close>

lemma split_lines_of:
  assumes "\<And>e. e \<in> set seg \<Longrightarrow> encodes marshal unmarshal e"
  shows "split_on (CHR 0x0A) (lines_of marshal seg) = map (\<lambda>e. the (marshal e)) seg @ [[]]"
  using assms
proof (induction seg)
  case (Cons e seg)
  obtain t where "marshal e = Some t" "CHR 0x0A \<notin> set t" "line_of marshal e = t @ [CHR 0x0A]"
    using Cons.prems by (auto elim: encodesE)
  then show ?case using Cons split_on_append_word [of "CHR 0x0A" t "lines_of marshal seg"] by (simp add: lines_of_def)
qed (simp add: lines_of_def)

lemma sized_lines_short:
  "(\<And>w. w \<in> set ws \<Longrightarrow> length w < max_line_bytes) \<Longrightarrow> sized_lines (ws @ [[]]) = map (\<lambda>w. (w, False)) ws @ [([], False)]"
proof (induction ws)
  case (Cons w ws)
  have "\<not> max_line_bytes < Suc (length w)" using Cons.prems [of w] by simp
  then show ?case using Cons.IH Cons.prems by (cases ws) auto
qed simp

definition text_line :: "(sec_entry \<Rightarrow> string option) \<Rightarrow> sec_entry \<Rightarrow> string \<times> bool" where
  "text_line marshal e = (the (marshal e), False)"

lemma sized_lines_of:
  assumes "\<And>e. e \<in> set seg \<Longrightarrow> encodes marshal unmarshal e"
  shows "sized_lines (split_on (CHR 0x0A) (lines_of marshal seg)) = map (text_line marshal) seg @ [([], False)]"
proof -
  have "length (the (marshal e)) < max_line_bytes" if "e \<in> set seg" for e
    using assms [OF that] by (auto elim!: encodesE)
  moreover have "split_on (CHR 0x0A) (lines_of marshal seg) = map (\<lambda>e. the (marshal e)) seg @ [[]]"
    by (rule split_lines_of) (rule assms)
  moreover have "sized_lines (map (\<lambda>e. the (marshal e)) seg @ [[]]) =
      map (\<lambda>w. (w, False)) (map (\<lambda>e. the (marshal e)) seg) @ [([], False)]"
    by (rule sized_lines_short) (use calculation(1) in auto)
  ultimately show ?thesis by (simp add: text_line_def [abs_def])
qed

lemma restore_blank [simp]: "restore_line pt unmarshal now ([], False) sh = sh"
  by (simp add: restore_line_def split: prod.split)

lemma restore_file_lines:
  "restore_file pt unmarshal (\<lambda>_. False) now fs sh path =
     foldl (\<lambda>sh l. restore_line pt unmarshal now l sh) sh (sized_lines (split_on (CHR 0x0A) (file_content fs path)))"
  by (simp add: restore_file_def file_content_def split: option.split)

text \<open>An entry restored from disk is normalised again.\<close>

definition renormalized :: "(string \<Rightarrow> time option) \<Rightarrow> string \<Rightarrow> sec_entry \<Rightarrow> sec_entry" where
  "renormalized pt now e = sec_normalize pt now e"

lemma sec_normalize_sequence [simp]: "se_sequence (sec_normalize pt now e) = se_sequence e"
  by (simp add: sec_normalize_def Let_def)

lemma restore_text_line:
  assumes "encodes marshal unmarshal e" "highest < se_sequence e"
  shows "restore_line pt unmarshal now (text_line marshal e) (s, highest) =
    (append_restored (renormalized pt now e) s, se_sequence e)"
proof -
  obtain t where t: "marshal e = Some t" "unmarshal t = Some e" "valid_utf8 t" "trim_space t = t" "t \<noteq> []"
    using assms(1) by (auto elim: encodesE)
  have same: "(sec_normalize pt now e)\<lparr>se_sequence := se_sequence e\<rparr> = sec_normalize pt now e"
    using sec_normalize_sequence [of pt now e] by (metis sec_entry.surjective sec_entry.update_convs(1))
  have "restore_line pt unmarshal now (text_line marshal e) (s, highest) =
      (append_restored ((sec_normalize pt now e)\<lparr>se_sequence := se_sequence e\<rparr>) s, se_sequence e)"
    using t assms(2) by (simp add: restore_line_def text_line_def Let_def)
  then show ?thesis unfolding same renormalized_def .
qed

lemma restore_text_lines:
  "(\<And>e. e \<in> set es \<Longrightarrow> encodes marshal unmarshal e \<and> highest < se_sequence e) \<Longrightarrow> sorted_wrt (<) (map se_sequence es) \<Longrightarrow>
   foldl (\<lambda>sh e. restore_line pt unmarshal now (text_line marshal e) sh) (s, highest) es =
     (foldl (\<lambda>s e. append_restored e s) s (map (renormalized pt now) es),
      if es = [] then highest else se_sequence (last es))"
proof (induction es arbitrary: s highest)
  case (Cons e es)
  have "foldl (\<lambda>sh e. restore_line pt unmarshal now (text_line marshal e) sh)
      (append_restored (renormalized pt now e) s, se_sequence e) es =
    (foldl (\<lambda>s e. append_restored e s) (append_restored (renormalized pt now e) s) (map (renormalized pt now) es),
     if es = [] then se_sequence e else se_sequence (last es))"
    by (rule Cons.IH) (use Cons.prems in auto)
  then show ?case using restore_text_line [of marshal unmarshal e highest pt now s] Cons.prems by simp
qed simp

lemma restore_segments:
  assumes "\<And>i e. i < n \<Longrightarrow> e \<in> set (segs ! i) \<Longrightarrow> encodes marshal unmarshal e"
    "\<And>i. i < n \<Longrightarrow> file_content fs (log_file path i) = lines_of marshal (segs ! i)"
  shows "foldl (restore_file pt unmarshal (\<lambda>_. False) now fs) sh (map (log_file path) (rev [0..<n])) =
    foldl (\<lambda>sh e. restore_line pt unmarshal now (text_line marshal e) sh) sh (concat (map (\<lambda>i. segs ! i) (rev [0..<n])))"
  using assms
proof (induction n arbitrary: sh)
  case (Suc n)
  have "restore_file pt unmarshal (\<lambda>_. False) now fs sh (log_file path n) =
      foldl (\<lambda>sh e. restore_line pt unmarshal now (text_line marshal e) sh) sh (segs ! n)"
  proof -
    have "sized_lines (split_on (CHR 0x0A) (lines_of marshal (segs ! n))) = map (text_line marshal) (segs ! n) @ [([], False)]"
      by (rule sized_lines_of [where unmarshal = unmarshal]) (use Suc.prems(1) in blast)
    then show ?thesis using Suc.prems(2) by (simp add: restore_file_lines foldl_map)
  qed
  moreover have "foldl (restore_file pt unmarshal (\<lambda>_. False) now fs) sh' (map (log_file path) (rev [0..<n])) =
      foldl (\<lambda>sh e. restore_line pt unmarshal now (text_line marshal e) sh) sh' (concat (map (\<lambda>i. segs ! i) (rev [0..<n])))" for sh'
    by (rule Suc.IH) (use Suc.prems less_SucI in blast)+
  ultimately show ?case by simp
qed simp

lemma restore_paths_files: "restore_paths path B = map (log_file path) (rev [0..<Suc B])"
proof -
  have "[0..<Suc B] = 0 # [1..<Suc B]" by (simp add: upt_conv_Cons del: upt_Suc)
  then show ?thesis by (simp add: restore_paths_def log_file_def del: upt_Suc)
qed

lemma lines_of_newline:
  assumes "\<And>e. e \<in> set seg \<Longrightarrow> encodes marshal unmarshal e" "lines_of marshal seg \<noteq> []"
  shows "last (lines_of marshal seg) = CHR 0x0A"
proof (cases seg rule: rev_cases)
  case (snoc seg' e)
  then obtain t where "line_of marshal e = t @ [CHR 0x0A]" using assms(1) [of e] by (auto elim: encodesE)
  then show ?thesis using snoc by (simp add: lines_of_def)
qed (use assms(2) in \<open>simp add: lines_of_def\<close>)

text \<open>The result of starting with the given segments on disk.\<close>

definition file_limit :: "log_config \<Rightarrow> int" where
  "file_limit cfg = (if lc_max_file_bytes cfg \<le> 0 then 20971520 else lc_max_file_bytes cfg)"

definition log_capacity :: "log_config \<Rightarrow> nat" where
  "log_capacity cfg = (if lc_capacity cfg \<le> 0 then 1 else nat (lc_capacity cfg))"

lemma foldl_append_restored_fields:
  "ss_next_seq (foldl (\<lambda>s e. append_restored e s) s es) = ss_next_seq s"
  "ss_path (foldl (\<lambda>s e. append_restored e s) s es) = ss_path s"
  "ss_max_backups (foldl (\<lambda>s e. append_restored e s) s es) = ss_max_backups s"
  "ss_max_file_bytes (foldl (\<lambda>s e. append_restored e s) s es) = ss_max_file_bytes s"
  "ss_file_errors (foldl (\<lambda>s e. append_restored e s) s es) = ss_file_errors s"
  by (induction es arbitrary: s) simp_all

lemma restore_entries_disk:
  fixes pt now
  assumes "ring_ok s" "sec_view s = []" "ss_next_seq s = 1" "length segs = Suc (ss_max_backups s)"
    and "\<And>i. i \<le> ss_max_backups s \<Longrightarrow> file_content fs (log_file (ss_path s) i) = lines_of marshal (segs ! i)"
    and "\<And>e. e \<in> set (concat segs) \<Longrightarrow> encodes marshal unmarshal e \<and> 0 < se_sequence e"
    and "sorted_wrt (<) (map se_sequence (concat (rev segs)))"
  defines "es \<equiv> concat (rev segs)"
  defines "s' \<equiv> restore_entries pt unmarshal (\<lambda>_. False) now fs s"
  shows "sec_view s' = drop (length es - ss_capacity s) (map (renormalized pt now) es)"
    "ss_next_seq s' = (if es = [] then 1 else Suc (se_sequence (last es)))"
    "ss_path s' = ss_path s" "ss_max_backups s' = ss_max_backups s" "ss_max_file_bytes s' = ss_max_file_bytes s"
    "ss_file_errors s' = ss_file_errors s"
proof -
  let ?B = "ss_max_backups s" and ?es = "map (renormalized pt now) es"
  let ?f = "foldl (\<lambda>s e. append_restored e s) s ?es"
  have "map (\<lambda>i. segs ! i) (rev [0..<Suc ?B]) = rev segs"
    by (simp only: rev_map [symmetric] assms(4) [symmetric] map_nth)
  then have cc: "concat (map (\<lambda>i. segs ! i) (rev [0..<Suc ?B])) = es" by (simp only: es_def)
  have "foldl (restore_file pt unmarshal (\<lambda>_. False) now fs) (s, 0) (restore_paths (ss_path s) ?B) =
      foldl (\<lambda>sh e. restore_line pt unmarshal now (text_line marshal e) sh) (s, 0) es"
    unfolding restore_paths_files cc [symmetric]
  proof (rule restore_segments)
    show "encodes marshal unmarshal e" if "i < Suc ?B" "e \<in> set (segs ! i)" for i e
    proof -
      have "segs ! i \<in> set segs" using that(1) assms(4) by simp
      then show ?thesis using assms(6) [of e] that(2) by auto
    qed
    show "file_content fs (log_file (ss_path s) i) = lines_of marshal (segs ! i)" if "i < Suc ?B" for i
      using assms(5) that by simp
  qed
  also have "\<dots> = (?f, if es = [] then 0 else se_sequence (last es))"
    by (rule restore_text_lines) (use assms(6,7) in \<open>auto simp: es_def\<close>)
  finally have r: "foldl (restore_file pt unmarshal (\<lambda>_. False) now fs) (s, 0) (restore_paths (ss_path s) ?B) =
      (?f, if es = [] then 0 else se_sequence (last es))" .
  have pos: "es \<noteq> [] \<Longrightarrow> 0 < se_sequence (last es)" using assms(6) last_in_set [of es] by (auto simp: es_def)
  then have s': "s' = ?f\<lparr>ss_next_seq := (if es = [] then 1 else Suc (se_sequence (last es)))\<rparr>"
    using assms(3) unfolding s'_def restore_entries_def r
    by (auto simp: foldl_append_restored_fields intro!: sec_store.equality)
  show "sec_view s' = drop (length es - ss_capacity s) (map (renormalized pt now) es)"
    using rlog.push_all [OF assms(1), of ?es] assms(2) length_sec_view [of s] by (simp add: s')
  show "ss_next_seq s' = (if es = [] then 1 else Suc (se_sequence (last es)))"
    "ss_path s' = ss_path s" "ss_max_backups s' = ?B" "ss_max_file_bytes s' = ss_max_file_bytes s"
    "ss_file_errors s' = ss_file_errors s"
    by (simp_all add: s' foldl_append_restored_fields)
qed

lemma new_with_config_disk:
  fixes cfg fs segs
  defines "path \<equiv> trim_space (lc_file_path cfg)" and "B \<equiv> nat (lc_max_backups cfg)" and "es \<equiv> concat (rev segs)"
  assumes "path \<noteq> []" "length segs = Suc B"
    and files: "\<And>i. i \<le> B \<Longrightarrow> file_content fs (log_file path i) = lines_of marshal (segs ! i)"
    and enc: "\<And>e. e \<in> set (concat segs) \<Longrightarrow> encodes marshal unmarshal e \<and> 0 < se_sequence e"
    and sorted: "sorted_wrt (<) (map se_sequence es)"
  shows "\<exists>s' fs'. new_with_config pt unmarshal dir (\<lambda>_. False) now cfg fs = Inr (s', fs') \<and>
    sec_view s' = drop (length es - log_capacity cfg) (map (renormalized pt now) es) \<and>
    ss_next_seq s' = (if es = [] then 1 else Suc (se_sequence (last es))) \<and> ss_file_errors s' = 0 \<and>
    ss_path s' = path \<and> ss_max_backups s' = B \<and> ss_max_file_bytes s' = file_limit cfg \<and>
    disk_ok marshal s' fs' segs"
proof -
  define s where "s = (if lc_max_file_bytes cfg \<le> 0 then (new_sec_store cfg)\<lparr>ss_max_file_bytes := 20971520\<rparr>
    else new_sec_store cfg)"
  have ring: "ring_ok s" "sec_view s = []" using new_sec_store_inv [of cfg] by (simp_all add: s_def sec_inv_def)
  have s: "ss_next_seq s = 1" "ss_path s = path" "ss_max_backups s = B"
    "ss_max_file_bytes s = file_limit cfg" "ss_capacity s = log_capacity cfg" "ss_file_errors s = 0"
    by (auto simp: s_def sec_inv_def file_limit_def log_capacity_def path_def B_def new_sec_store_def Let_def)
  define r where "r = restore_entries pt unmarshal (\<lambda>_. False) now fs s"
  have r: "sec_view r = drop (length es - ss_capacity s) (map (renormalized pt now) es)"
    "ss_next_seq r = (if es = [] then 1 else Suc (se_sequence (last es)))"
    "ss_path r = ss_path s" "ss_max_backups r = ss_max_backups s" "ss_max_file_bytes r = ss_max_file_bytes s"
    "ss_file_errors r = ss_file_errors s"
    unfolding r_def es_def
    by (rule restore_entries_disk [OF ring s(1), of segs, where marshal = marshal]; use assms s in auto)+
  let ?c = "file_content fs path" and ?fs = "gm_put path (file_content fs path) fs"
  let ?r = "r\<lparr>ss_file := Some Appending, ss_file_bytes := int (length ?c)\<rparr>"
  have same: "file_content ?fs q = file_content fs q" for q by (simp add: file_content_def gm_get_put)
  have c0: "?c = lines_of marshal (segs ! 0)" using files [of 0] by (simp add: log_file_def)
  have "segs ! 0 \<in> set segs" using assms(5) by (intro nth_mem) simp
  then have "?c \<noteq> [] \<Longrightarrow> last ?c = CHR 0x0A"
    unfolding c0 using enc by (intro lines_of_newline [where unmarshal = unmarshal]) auto
  then have nl: "ensure_trailing_newline (\<lambda>_. False) ?r ?fs = (?r, ?fs)"
    using r(3) s(2) by (auto simp: ensure_trailing_newline_def same)
  have path: "ss_path (new_sec_store cfg) = path" "ss_max_file_bytes (new_sec_store cfg) = lc_max_file_bytes cfg"
    by (simp_all add: new_sec_store_def path_def Let_def)
  have "new_with_config pt unmarshal dir (\<lambda>_. False) now cfg fs = Inr (?r, ?fs)"
    unfolding new_with_config_def Let_def path s_def [symmetric] r_def [symmetric] using assms(4) nl by simp
  moreover have "disk_ok marshal ?r ?fs segs"
    using files assms(5) r(3,4) s(2,3) by (auto simp: disk_ok_def same log_file_def)
  ultimately show ?thesis using r s by auto
qed

lemma sequence_numbers: "map se_sequence (sec_numbered pt events) = [1..<Suc (length events)]"
  by (simp add: sec_numbered_def comp_def map_Suc_upt)

lemma last_sequence:
  assumes "k < length events"
  shows "se_sequence (last (drop k (sec_numbered pt events))) = length events"
proof -
  have "events \<noteq> []" using assms by auto
  then have "se_sequence (last (sec_numbered pt events)) = length events" by (simp add: sec_numbered_def last_map)
  then show ?thesis using assms by simp
qed

lemma start_run_ok:
  assumes "trim_space (lc_file_path cfg) \<noteq> []" "new_with_config pt unmarshal dir (\<lambda>_. False) now cfg [] = Inr start"
  shows "run_ok marshal (trim_space (lc_file_path cfg)) (nat (lc_max_backups cfg)) (file_limit cfg) [] start"
proof -
  define none :: "sec_entry list list" where "none = replicate (Suc (nat (lc_max_backups cfg))) []"
  have none: "length none = Suc (nat (lc_max_backups cfg))" "\<And>i. i \<le> nat (lc_max_backups cfg) \<Longrightarrow> none ! i = []"
    "concat none = []" "concat (rev none) = []"
    by (simp_all add: none_def less_Suc_eq_le del: replicate.simps)
  obtain s0 fs0 where "start = (s0, fs0)" "ss_next_seq s0 = 1" "ss_path s0 = trim_space (lc_file_path cfg)"
    "ss_max_backups s0 = nat (lc_max_backups cfg)" "ss_max_file_bytes s0 = file_limit cfg" "disk_ok marshal s0 fs0 none"
    using new_with_config_disk [of cfg none "[]" marshal unmarshal pt dir now] assms none
    by (auto simp: file_content_def lines_of_def)
  then show ?thesis by (simp add: run_ok_def files_after_def none_def del: replicate.simps)
qed

text \<open>
  C37. The security log survives a restart. Let events be appended to a store with a log file that starts empty, without file errors, and let the encoder write each
  event on one line of less than the maximal length that decodes to the same event. Then the active file and the backups hold
  exactly the events that rotation by size leaves them (\<open>files_after\<close>): an event that does not fit into the active file starts a new one, the files are
  renamed to the next older backup and only the oldest one is dropped. Starting again from these files with the same configuration
  restores the newest of all events in the backups and the active file, as many as the ring holds, in order, with their sequence numbers and
  normalised again like new ones, without file errors; numbering continues where it stopped. What the files hold is
  a suffix of the appended events with the newest one, and all of them if the encoded events fit into one file.
\<close>

theorem security_log_survives_restart:
  assumes "trim_space (lc_file_path cfg) \<noteq> []"
    and "\<forall>e \<in> set (sec_numbered pt events). encodes marshal unmarshal e"
    and "new_with_config pt unmarshal dir (\<lambda>_. False) now0 cfg [] = Inr start"
    and "sec_run pt marshal events start = (s, fs)"
    and "files = files_after marshal (file_limit cfg) (nat (lc_max_backups cfg)) (sec_numbered pt events)"
    and "kept = concat (rev files)"
  shows "file_content fs (trim_space (lc_file_path cfg)) = lines_of marshal (files ! 0) \<and>
    (\<forall>i \<in> {1..nat (lc_max_backups cfg)}. file_content fs (backup_path (trim_space (lc_file_path cfg)) i) = lines_of marshal (files ! i)) \<and>
    (\<exists>s' fs'. new_with_config pt unmarshal dir (\<lambda>_. False) now cfg fs = Inr (s', fs') \<and>
      sec_view s' = drop (length kept - log_capacity cfg) (map (renormalized pt now) kept) \<and>
      ss_next_seq s' = Suc (length events) \<and> ss_file_errors s' = 0) \<and>
    (\<exists>k. kept = drop k (sec_numbered pt events) \<and> (events \<noteq> [] \<longrightarrow> k < length events)) \<and>
    (int (length (lines_of marshal (sec_numbered pt events))) \<le> file_limit cfg \<longrightarrow> kept = sec_numbered pt events)"
proof -
  let ?path = "trim_space (lc_file_path cfg)" and ?B = "nat (lc_max_backups cfg)" and ?M = "file_limit cfg"
  let ?all = "sec_numbered pt events"
  have enc: "\<And>e. e \<in> set ?all \<Longrightarrow> encodes marshal unmarshal e \<and> 0 < se_sequence e"
    using assms(2) by (auto simp: sec_numbered_def)
  have run: "run_ok marshal ?path ?B ?M ?all (s, fs)"
    using sec_run_ok [OF start_run_ok [OF assms(1,3), where marshal = marshal], of pt events unmarshal] enc assms(4) by simp
  note d = run_ok_files [OF run, folded assms(5)]
  obtain k where k: "kept = drop k ?all" "?all \<noteq> [] \<longrightarrow> k < length ?all"
    using files_after_suffix [of marshal ?M ?B ?all] unfolding assms(5,6) by blast
  have restart: "\<exists>s' fs'. new_with_config pt unmarshal dir (\<lambda>_. False) now cfg fs = Inr (s', fs') \<and>
      sec_view s' = drop (length kept - log_capacity cfg) (map (renormalized pt now) kept) \<and>
      ss_next_seq s' = Suc (length events) \<and> ss_file_errors s' = 0"
  proof -
    have "set (concat files) \<subseteq> set ?all" using k(1) set_drop_subset [of k ?all] assms(6) by (metis set_concat set_rev)
    then have e: "encodes marshal unmarshal e \<and> 0 < se_sequence e" if "e \<in> set (concat files)" for e using enc that by blast
    have sorted: "sorted_wrt (<) (map se_sequence (concat (rev files)))"
      unfolding assms(6) [symmetric] k(1) by (simp add: drop_map [symmetric] sequence_numbers sorted_wrt_upt del: upt_Suc)
    have next_seq: "(if kept = [] then 1 else Suc (se_sequence (last kept))) = Suc (length events)"
      using k last_sequence [of k events pt] by (cases "events = []") (simp_all add: sec_numbered_def)
    from new_with_config_disk [OF assms(1) d e sorted, of pt dir now] show ?thesis
      unfolding assms(6) [symmetric] next_seq by blast
  qed
  have fits: "kept = ?all" if "int (length (lines_of marshal ?all)) \<le> ?M"
    using files_after_fits [OF that, of ?B] by (simp add: assms(5,6))
  have active: "file_content fs ?path = lines_of marshal (files ! 0)" using d(2) [of 0] by (simp add: log_file_def)
  have backups: "file_content fs (backup_path ?path i) = lines_of marshal (files ! i)" if "i \<in> {1..?B}" for i
    using d(2) [of i] that by (simp add: log_file_def)
  have "\<exists>k. kept = drop k ?all \<and> (events \<noteq> [] \<longrightarrow> k < length events)" using k by (auto simp: sec_numbered_def)
  with active backups restart fits show ?thesis by blast
qed

text \<open>A toy encoder: the method and the sequence number in unary.\<close>

definition toy_marshal :: "sec_entry \<Rightarrow> string option" where
  "toy_marshal e = Some (replicate (se_sequence e) (CHR ''x''))"

definition toy_unmarshal :: "string \<Rightarrow> sec_entry option" where
  "toy_unmarshal t = Some ((sec_normalize (\<lambda>_. None) ''t'' zero_sec_entry)\<lparr>se_sequence := length t\<rparr>)"

definition toy_events :: "(string \<times> sec_entry) list" where
  "toy_events = replicate 4 (''t'', zero_sec_entry)"

lemma valid_utf8_ascii: "valid_utf8 (replicate n (CHR ''x''))"
proof (induction n)
  case (Suc n)
  then show ?case by (subst valid_utf8.simps) (simp add: byte_in_def)
qed (simp add: valid_utf8.simps)

lemma toy_encodes:
  assumes "i < 4"
  shows "encodes toy_marshal toy_unmarshal ((sec_normalize (\<lambda>_. None) ''t'' zero_sec_entry)\<lparr>se_sequence := Suc i\<rparr>)"
proof -
  have "trim_space (replicate (Suc i) (CHR ''x'')) = replicate (Suc i) (CHR ''x'')"
    by (rule trim_space_plain) (auto simp: plain_char_def space_seqs_def last_replicate simp del: replicate.simps)
  then show ?thesis using valid_utf8_ascii [of "Suc i"] assms
    by (simp add: encodes_def toy_marshal_def toy_unmarshal_def max_line_bytes_def del: replicate.simps)
qed

theorem security_log_survives_restart_witness:
  "\<exists>start s fs s' fs'. new_with_config (\<lambda>_. None) toy_unmarshal (\<lambda>p. p) (\<lambda>_. False) ''t'' demo_log_config [] = Inr start \<and>
     sec_run (\<lambda>_. None) toy_marshal toy_events start = (s, fs) \<and>
     new_with_config (\<lambda>_. None) toy_unmarshal (\<lambda>p. p) (\<lambda>_. False) ''t'' demo_log_config fs = Inr (s', fs') \<and>
     ss_next_seq s' = 5"
proof -
  have path: "trim_space (lc_file_path demo_log_config) \<noteq> []" by code_simp
  have enc: "\<forall>e \<in> set (sec_numbered (\<lambda>_. None) toy_events). encodes toy_marshal toy_unmarshal e"
    using toy_encodes by (auto simp: sec_numbered_def toy_events_def simp del: replicate.simps)
  have "case new_with_config (\<lambda>_. None) toy_unmarshal (\<lambda>p. p) (\<lambda>_. False) ''t'' demo_log_config [] of Inr x \<Rightarrow> True | Inl e \<Rightarrow> False"
    by code_simp
  then obtain start where start: "new_with_config (\<lambda>_. None) toy_unmarshal (\<lambda>p. p) (\<lambda>_. False) ''t'' demo_log_config [] = Inr start"
    by (auto split: sum.splits)
  obtain s fs where run: "sec_run (\<lambda>_. None) toy_marshal toy_events start = (s, fs)" by fastforce
  from security_log_survives_restart [OF path enc start run refl refl, of "''t''"] start run show ?thesis
    by (auto simp: toy_events_def)
qed

end
