(* ===== verification/Gateway.thy ===== *)
theory Gateway
  imports Waf Route_Match Client_IP Traffic Admission Gate_Metrics Security_Log
begin

text \<open>
  The request pipeline of the security gateway, \<^verbatim>\<open>apps/securityedge/internal/gateway/handler.go\<close>:
  the checks in the order of \<^verbatim>\<open>ServeHTTP\<close>, body staging, the writer that marks responses with
  the decision, and the lookup of the policy of a route (\<^verbatim>\<open>EffectivePolicy\<close> of
  \<^verbatim>\<open>apps/securityedge/securityedge.go\<close>).

  One request runs against the state of the limiter, the bans, the admission counters and the
  traffic tracker, each through the operations of its own theory. What the environment decides
  (times, the request identifier, failures of the file system, cancellation by the client) is the
  record \<open>gate_env\<close>; the protected handler is a function from the request it receives to the
  sequence of calls it makes on its response writer. The JSON text of an error response and the
  line of the process log are not modelled as bytes.
\<close>

section \<open>Small helpers\<close>

definition method_allowed :: "string \<Rightarrow> string list \<Rightarrow> bool" where
  "method_allowed method allowed = (allowed = [] \<or> list_ex (\<lambda>m. equal_fold method m) allowed)"

definition ip_entry_matches :: "ip_addr \<Rightarrow> string \<Rightarrow> bool" where
  "ip_entry_matches ip raw0 =
     (let raw = trim_space raw0 in
      raw \<noteq> [] \<and>
      (parse_ip raw = Some ip \<or> (case parse_cidr raw of None \<Rightarrow> False | Some n \<Rightarrow> net_contains n ip)))"

definition ip_matches :: "string \<Rightarrow> string list \<Rightarrow> bool" where
  "ip_matches ip entries =
     (case parse_ip ip of None \<Rightarrow> False | Some p \<Rightarrow> list_ex (ip_entry_matches p) entries)"

definition gate_fingerprint :: "(string \<Rightarrow> string) \<Rightarrow> string \<Rightarrow> string" where
  "gate_fingerprint sha v = (if v = [] then [] else sha v)"

definition log_safe_path :: "(string \<Rightarrow> string) \<Rightarrow> string \<Rightarrow> string \<Rightarrow> string \<Rightarrow> bool \<Rightarrow> string \<times> string" where
  "log_safe_path sha path action reason detected =
     (let fp = gate_fingerprint sha path in
      if detected \<or> action = ''BLOCK'' \<or> contains_str reason ''path'' \<or> contains_str reason ''query''
         \<or> contains_str reason ''header'' \<or> contains_str reason ''body''
      then (''[redacted]'', fp)
      else if path = [] then (''/'', fp)
      else if length path > 512 then (take 512 path, fp)
      else (path, fp))"

text \<open>\<^verbatim>\<open>Duration.Round(time.Second)\<close> rounds half up for the positive durations used here.\<close>

definition retry_seconds :: "duration \<Rightarrow> string" where
  "retry_seconds d =
     (let n = (if d < 0 then - ((- d + 500000000) div second) else (d + 500000000) div second)
      in itoa (if n < 1 then 1 else n))"

fun rule_data_from :: "waf_match list \<Rightarrow> string list \<Rightarrow> string list \<Rightarrow> string list \<times> string list" where
  "rule_data_from [] ids cats = (ids, cats)"
| "rule_data_from (m # ms) ids cats =
     rule_data_from ms
       (if wm_rule_id m \<in> set ids then ids else ids @ [wm_rule_id m])
       (if wm_category m \<in> set cats then cats else cats @ [wm_category m])"

definition rule_data :: "waf_match list \<Rightarrow> string list \<times> string list" where
  "rule_data ms = rule_data_from ms [] []"

text \<open>The policy of a route: an exact name first, then a name equal up to letter case.\<close>

definition effective_policy :: "(string, policy) gomap \<Rightarrow> policy \<Rightarrow> string \<Rightarrow> policy" where
  "effective_policy route_policies default_policy route =
     (case gm_get route_policies route of
        Some p \<Rightarrow> p
      | None \<Rightarrow> (case find (\<lambda>(n, p). equal_fold n route) route_policies of
                   Some (n, p) \<Rightarrow> p
                 | None \<Rightarrow> default_policy))"

section \<open>Request shape\<close>

definition header_field_count :: "header \<Rightarrow> nat" where
  "header_field_count h = sum_list (map (\<lambda>(k, vs). if vs = [] then 1 else length vs) h)"

definition request_header_field_count :: "gate_request \<Rightarrow> nat" where
  "request_header_field_count req =
     header_field_count (rq_header (gq_http req)) + header_field_count (gq_trailer req)
     + (if trim_space (rq_host (gq_http req)) \<noteq> [] then 1 else 0)"

definition request_has_body :: "gate_request \<Rightarrow> bool" where
  "request_has_body req \<longleftrightarrow> gq_body req \<noteq> None \<and> rq_content_length (gq_http req) \<noteq> 0"

definition request_needs_body_staging :: "gate_request \<Rightarrow> bool" where
  "request_needs_body_staging req \<longleftrightarrow> gq_body req \<noteq> None \<and>
     (rq_content_length (gq_http req) < 0 \<or> gq_trailer req \<noteq> [])"

definition has_non_identity_encoding :: "string list \<Rightarrow> bool" where
  "has_non_identity_encoding vals =
     list_ex (\<lambda>v. list_ex (\<lambda>raw. trim_space raw \<noteq> [] \<and> \<not> equal_fold (trim_space raw) ''identity'')
                (split_on (CHR '','') v)) vals"

definition content_type_allowed :: "waf_lib \<Rightarrow> string \<Rightarrow> string list \<Rightarrow> bool" where
  "content_type_allowed lib raw allowed =
     (let media = (case lib_media_type lib raw of
                     Some m \<Rightarrow> m | None \<Rightarrow> trim_space (hd (split_on (CHR '';'') raw)))
      in list_ex (\<lambda>item. equal_fold (trim_space item) media) allowed)"

definition header_value_too_large :: "int \<Rightarrow> header \<Rightarrow> bool" where
  "header_value_too_large mx h = list_ex (\<lambda>(k, vs). list_ex (\<lambda>v. int (length v) > mx) vs) h"

text \<open>\<^verbatim>\<open>validateRequestShape\<close>: the status and reason of the first violated limit.\<close>

definition validate_request_shape ::
  "waf_lib \<Rightarrow> gate_request \<Rightarrow> policy \<Rightarrow> server_config \<Rightarrow> (int \<times> string) option" where
  "validate_request_shape lib req pol srv =
     (let http = gq_http req; h = rq_header http; types = h_values h ''Content-Type'' in
      if int (length (escaped_path (rq_url http))) > po_max_path pol then Some (414, ''path_too_large'')
      else if int (length (u_raw_query (rq_url http))) > po_max_query pol then Some (414, ''query_too_large'')
      else if int (request_header_field_count req) > po_max_headers pol then Some (431, ''too_many_headers'')
      else if int (length (rq_host http)) > po_max_header_value pol then Some (431, ''header_value_too_large'')
      else if header_value_too_large (po_max_header_value pol) h
           \<or> header_value_too_large (po_max_header_value pol) (gq_trailer req)
      then Some (431, ''header_value_too_large'')
      else if rq_content_length http > sv_max_request_body_bytes srv then Some (413, ''body_too_large'')
      else if po_reject_encoded pol \<and> has_non_identity_encoding (h_values h ''Content-Encoding'')
      then Some (415, ''encoded_body_rejected'')
      else if request_has_body req \<and> length types > 1 then Some (415, ''unsupported_body_type'')
      else if request_has_body req \<and> po_inspect_body pol \<and> po_reject_types pol
           \<and> \<not> content_type_allowed lib (h_get h ''Content-Type'') (po_body_types pol)
      then Some (415, ''unsupported_body_type'')
      else if rq_host http = [] \<or> contains_any (rq_host http) [CHR 0x0D, CHR 0x0A, CHR 0x00]
      then Some (400, ''invalid_host'')
      else None)"

section \<open>Request bodies\<close>

record gate_env =
  ge_request_id :: string
  ge_now_ban :: time
  ge_now_rate :: time
  ge_now_violation :: time
  ge_now_done :: time
  ge_duration :: duration
  ge_security_duration :: duration
  ge_create_ok :: bool
  ge_close_ok :: bool
  ge_seek_ok :: bool
  ge_canceled :: bool
  ge_now_text :: string
  ge_log_fails :: "fs_op \<Rightarrow> bool"

datatype staging = Staged gate_request | Stage_Too_Large | Stage_Long_Trailer | Stage_Failed string

text \<open>
  \<^verbatim>\<open>stageRequestBody\<close>: copies at most one byte more than the limit to a temporary file. Reading to the
  end fills in the trailer.
\<close>

definition stage_request_body :: "gate_env \<Rightarrow> int \<Rightarrow> gate_request \<Rightarrow> staging" where
  "stage_request_body env max_bytes req =
     (case gq_body req of
        None \<Rightarrow> Staged req
      | Some b \<Rightarrow>
          if max_bytes \<le> 0 then Staged req
          else if \<not> ge_create_ok env then Stage_Failed ''create temporary request-body buffer''
          else
            let over = int (length (bs_bytes b)) > max_bytes;
                e = (if over then Body_EOF else bs_end b)
            in if e = Body_Long_Trailer then Stage_Long_Trailer
               else if e = Body_Too_Large then Stage_Too_Large
               else if e \<noteq> Body_EOF \<or> \<not> ge_close_ok env then Stage_Failed ''read request body''
               else if over then Stage_Too_Large
               else if \<not> ge_seek_ok env then Stage_Failed ''rewind temporary request-body buffer''
               else Staged (req\<lparr>gq_trailer := gq_trailer_eof req\<rparr>))"

text \<open>\<^verbatim>\<open>trackRequestBodyLimit\<close> with \<^verbatim>\<open>http.MaxBytesReader\<close>; the flag tells whether a limit is tracked.\<close>

definition track_request_body_limit :: "int \<Rightarrow> gate_request \<Rightarrow> gate_request \<times> bool" where
  "track_request_body_limit max_bytes req =
     (case gq_body req of
        None \<Rightarrow> (req, False)
      | Some b \<Rightarrow>
          if max_bytes \<le> 0 then (req, False)
          else (req\<lparr>gq_body := Some
                  (if int (length (bs_bytes b)) > max_bytes
                   then \<lparr>bs_bytes = take (nat max_bytes) (bs_bytes b), bs_end = Body_Too_Large\<rparr> else b)\<rparr>, True))"

datatype prep =
    Ready gate_request bool
  | Prep_Reject bool string int "string option"
  | Prep_Canceled

definition prepare_body ::
  "waf_lib \<Rightarrow> gate_env \<Rightarrow> policy \<Rightarrow> server_config \<Rightarrow> gate_request \<Rightarrow> prep" where
  "prepare_body lib env pol srv req =
     (if request_needs_body_staging req
      then (case stage_request_body env (sv_max_request_body_bytes srv) req of
              Stage_Too_Large \<Rightarrow> Prep_Reject True ''body_too_large'' 413 None
            | Stage_Long_Trailer \<Rightarrow> Prep_Reject True ''header_value_too_large'' 431 None
            | Stage_Failed e \<Rightarrow>
                if ge_canceled env then Prep_Canceled else Prep_Reject False ''body_read_failed'' 400 (Some e)
            | Staged req' \<Rightarrow>
                (case validate_request_shape lib req' pol srv of
                   Some (code, reason) \<Rightarrow> Prep_Reject True reason code None
                 | None \<Rightarrow> (case track_request_body_limit (sv_max_request_body_bytes srv) req' of
                             (r, t) \<Rightarrow> Ready r t)))
      else (case track_request_body_limit (sv_max_request_body_bytes srv) req of (r, t) \<Rightarrow> Ready r t))"

section \<open>Responses\<close>

text \<open>The client's response: the header map, and each status line with the headers sent with it.\<close>

record response =
  rp_header :: header
  rp_sent :: "(int \<times> header) list"
  rp_code :: string

definition new_response :: response where
  "new_response = \<lparr>rp_header = [], rp_sent = [], rp_code = []\<rparr>"

definition security_headers :: "header \<Rightarrow> header" where
  "security_headers h =
     h_set ''Permissions-Policy'' ''camera=(), microphone=(), geolocation=()''
      (h_set ''X-Frame-Options'' ''DENY''
       (h_set ''Referrer-Policy'' ''strict-origin-when-cross-origin''
        (h_set ''X-Content-Type-Options'' ''nosniff'' h)))"

definition set_decision_headers :: "string \<Rightarrow> int \<Rightarrow> bool \<Rightarrow> response \<Rightarrow> response" where
  "set_decision_headers action score security r =
     r\<lparr>rp_header :=
         h_set ''X-Security-Score'' (itoa score)
           (h_set ''X-Security-Action'' action
             (if security then security_headers (rp_header r) else rp_header r))\<rparr>"

definition set_base_headers :: "string \<Rightarrow> string \<Rightarrow> int \<Rightarrow> bool \<Rightarrow> header \<Rightarrow> header" where
  "set_base_headers i action score security h =
     (let h' = h_set ''X-Security-Score'' (itoa score)
                 (h_set ''X-Security-Action'' action (h_set ''X-Request-ID'' i h))
      in if security then security_headers h' else h')"

definition write_blocked :: "int \<Rightarrow> string \<Rightarrow> string \<Rightarrow> response \<Rightarrow> response" where
  "write_blocked status code i r =
     (let h = h_set ''X-Content-Type-Options'' ''nosniff''
                (h_set ''Cache-Control'' ''no-store''
                  (h_set ''Content-Type'' ''application/json; charset=utf-8''
                    (h_set ''X-Request-ID'' i (rp_header r))))
      in \<lparr>rp_header = h, rp_sent = rp_sent r @ [(status, h)], rp_code = code\<rparr>)"

record decision_writer =
  dw_response :: response
  dw_request_id :: string
  dw_action :: string
  dw_score :: int
  dw_security :: bool
  dw_limited :: bool
  dw_exceeded :: bool
  dw_status :: int

text \<open>What the protected handler does with its writer and with the request body.\<close>

datatype dw_op =
    Dw_Header "header \<Rightarrow> header"
  | Dw_Write_Header int
  | Dw_Write
  | Dw_Flush
  | Dw_Hijack bool
  | Dw_Read_Past_Limit

definition dw_base :: "decision_writer \<Rightarrow> decision_writer" where
  "dw_base w = w\<lparr>dw_response := (dw_response w)\<lparr>rp_header :=
     set_base_headers (dw_request_id w) (dw_action w) (dw_score w) (dw_security w) (rp_header (dw_response w))\<rparr>\<rparr>"

definition dw_send :: "int \<Rightarrow> decision_writer \<Rightarrow> decision_writer" where
  "dw_send status w = w\<lparr>dw_response := (dw_response w)\<lparr>rp_sent :=
     rp_sent (dw_response w) @ [(status, rp_header (dw_response w))]\<rparr>\<rparr>"

definition limit_exceeded :: "decision_writer \<Rightarrow> bool" where
  "limit_exceeded w \<longleftrightarrow> dw_limited w \<and> dw_exceeded w"

definition dw_write_header :: "int \<Rightarrow> decision_writer \<Rightarrow> decision_writer" where
  "dw_write_header status w =
     (if 100 \<le> status \<and> status < 200 \<and> status \<noteq> 101 then dw_send status (dw_base w)
      else if dw_status w \<noteq> 0 then w
      else
        let (status, w) = (if limit_exceeded w then (413, w\<lparr>dw_action := ''BLOCK''\<rparr>) else (status, w))
        in dw_send status (dw_base (w\<lparr>dw_status := status\<rparr>)))"

fun dw_step :: "dw_op \<Rightarrow> decision_writer \<Rightarrow> decision_writer" where
  "dw_step (Dw_Header f) w =
     w\<lparr>dw_response := (dw_response w)\<lparr>rp_header := f (rp_header (dw_response w))\<rparr>\<rparr>"
| "dw_step (Dw_Write_Header status) w = dw_write_header status w"
| "dw_step Dw_Write w = (if dw_status w = 0 then dw_write_header 200 w else w)"
| "dw_step Dw_Flush w = (if dw_status w = 0 then dw_write_header 200 w else w)"
| "dw_step (Dw_Hijack ok) w =
     (let w = dw_base w in if ok \<and> dw_status w = 0 then w\<lparr>dw_status := 101\<rparr> else w)"
| "dw_step Dw_Read_Past_Limit w = w\<lparr>dw_exceeded := True\<rparr>"

definition dw_final_status :: "decision_writer \<Rightarrow> int" where
  "dw_final_status w = (if dw_status w = 0 then 200 else dw_status w)"

definition enforce_body_limit :: "decision_writer \<Rightarrow> decision_writer \<times> bool" where
  "enforce_body_limit w =
     (if \<not> limit_exceeded w then (w, False)
      else let w = w\<lparr>dw_action := ''BLOCK''\<rparr>
           in (if dw_status w = 0 then dw_write_header 413 w else w, True))"

definition dw_finalize :: "decision_writer \<Rightarrow> decision_writer" where
  "dw_finalize w = (if dw_status w = 0 then dw_write_header 200 w else w)"

section \<open>The pipeline\<close>

record gate_state =
  gs_limiter :: buckets
  gs_bans :: ban_manager
  gs_admission :: admission
  gs_traffic :: "tracker option"
  gs_metrics :: registry
  gs_log :: "(sec_store \<times> fs) option"

record verdict =
  vd_action :: string
  vd_reason :: string
  vd_status :: int
  vd_score :: int
  vd_matches :: "waf_match list"
  vd_body_inspected :: bool
  vd_body_truncated :: bool
  vd_match_limit :: bool
  vd_error :: "string option"
  vd_retry :: duration
  vd_auto_banned :: bool
  vd_canceled :: bool
  vd_scope :: string
  vd_cache :: string
  vd_forwarded :: "gate_request option"
  vd_response :: response

definition start_verdict :: verdict where
  "start_verdict = \<lparr>vd_action = ''ALLOW'', vd_reason = [], vd_status = 0, vd_score = 0, vd_matches = [],
     vd_body_inspected = False, vd_body_truncated = False, vd_match_limit = False, vd_error = None,
     vd_retry = 0, vd_auto_banned = False, vd_canceled = False, vd_scope = [], vd_cache = [],
     vd_forwarded = None, vd_response = new_response\<rparr>"

definition gate_record_violation ::
  "gate_env \<Rightarrow> policy \<Rightarrow> string \<Rightarrow> gate_state \<Rightarrow> gate_state \<times> bool" where
  "gate_record_violation env pol client s =
     (case record_violation client (po_auto_ban pol) (ge_now_violation env) (gs_bans s) of
        (bans, banned, d) \<Rightarrow> (s\<lparr>gs_bans := bans\<rparr>, banned))"

text \<open>
  The common end of a refused request: perhaps a violation, then the decision headers, any extra
  header, and the error response.
\<close>

definition refuse ::
  "gate_env \<Rightarrow> policy \<Rightarrow> server_config \<Rightarrow> string \<Rightarrow> bool \<Rightarrow> string \<times> string \<times> int \<Rightarrow> string \<Rightarrow>
   (header \<Rightarrow> header) \<Rightarrow> verdict \<Rightarrow> gate_state \<Rightarrow> gate_state \<times> verdict" where
  "refuse env pol srv client violation arst code extra v s =
     (case arst of (action, reason, status) \<Rightarrow>
      case (if violation then gate_record_violation env pol client s else (s, vd_auto_banned v)) of
        (s', banned) \<Rightarrow>
          let r = set_decision_headers action (vd_score v) (sv_add_security_headers srv) (vd_response v);
              r = write_blocked status code (ge_request_id env) (r\<lparr>rp_header := extra (rp_header r)\<rparr>)
          in (s', v\<lparr>vd_action := action, vd_reason := reason, vd_status := status,
                    vd_auto_banned := banned, vd_response := r\<rparr>))"

definition no_extra :: "header \<Rightarrow> header" where "no_extra h = h"

text \<open>Handing the request on: the protected handler, then the body limit and the final status.\<close>

definition hand_on ::
  "(gate_request \<Rightarrow> dw_op list) \<Rightarrow> gate_env \<Rightarrow> policy \<Rightarrow> server_config \<Rightarrow> string \<Rightarrow> bool \<Rightarrow> gate_request \<Rightarrow>
   verdict \<Rightarrow> gate_state \<Rightarrow> gate_state \<times> verdict" where
  "hand_on next env pol srv client limited req v s =
     (let r = set_decision_headers (vd_action v) (vd_score v) (sv_add_security_headers srv) (vd_response v);
          w0 = \<lparr>dw_response = r, dw_request_id = ge_request_id env, dw_action = vd_action v,
                dw_score = vd_score v, dw_security = sv_add_security_headers srv, dw_limited = limited,
                dw_exceeded = False, dw_status = 0\<rparr>;
          w1 = foldl (\<lambda>w op. dw_step op w) w0 (next req)
      in case enforce_body_limit w1 of
        (w2, over) \<Rightarrow>
          (case (if over then gate_record_violation env pol client s else (s, vd_auto_banned v)) of
             (s', banned) \<Rightarrow>
               let w3 = dw_finalize w2
               in (s', v\<lparr>vd_action := (if over then ''BLOCK'' else vd_action v),
                         vd_reason := (if over then ''body_too_large'' else vd_reason v),
                         vd_auto_banned := banned, vd_status := dw_final_status w3,
                         vd_cache := h_get (rp_header (dw_response w3)) ''X-Cache'',
                         vd_forwarded := Some req, vd_response := dw_response w3\<rparr>)))"

text \<open>The result of \<^verbatim>\<open>prepareBody\<close> when it does not succeed.\<close>

definition prep_failed ::
  "gate_env \<Rightarrow> policy \<Rightarrow> server_config \<Rightarrow> string \<Rightarrow> prep \<Rightarrow> verdict \<Rightarrow> gate_state \<Rightarrow> gate_state \<times> verdict" where
  "prep_failed env pol srv client p v s =
     (case p of
        Prep_Reject violation reason status err \<Rightarrow>
          refuse env pol srv client violation (''BLOCK'', reason, status) reason no_extra (v\<lparr>vd_error := err\<rparr>) s
      | Prep_Canceled \<Rightarrow>
          (s, v\<lparr>vd_canceled := True, vd_action := ''CANCELED'', vd_reason := ''client_canceled'', vd_status := 0\<rparr>)
      | Ready r t \<Rightarrow> (s, v))"

text \<open>The firewall stage, after the body is prepared.\<close>

definition waf_stage ::
  "waf_lib \<Rightarrow> inspector \<Rightarrow> (gate_request \<Rightarrow> dw_op list) \<Rightarrow> gate_env \<Rightarrow> policy \<Rightarrow> server_config \<Rightarrow> string \<Rightarrow>
   bool \<Rightarrow> gate_request \<Rightarrow> verdict \<Rightarrow> gate_state \<Rightarrow> gate_state \<times> verdict" where
  "waf_stage lib i next env pol srv client limited req v s =
     (case inspect lib i req pol of
        (Inl e, req') \<Rightarrow>
          if e = Body_Too_Large
          then refuse env pol srv client True (''BLOCK'', ''body_too_large'', 413) ''body_too_large'' no_extra v s
          else if ge_canceled env
          then (s, v\<lparr>vd_canceled := True, vd_action := ''CANCELED'', vd_reason := ''client_canceled'',
                     vd_status := 0\<rparr>)
          else refuse env pol srv client False (''BLOCK'', ''inspection_failed'', 400) ''inspection_failed''
                 no_extra (v\<lparr>vd_error := Some ''inspection error''\<rparr>) s
      | (Inr res, req') \<Rightarrow>
          let v = v\<lparr>vd_score := wr_score res, vd_matches := wr_matches res,
                    vd_body_inspected := wr_body_inspected res, vd_body_truncated := wr_body_truncated res,
                    vd_match_limit := wr_limit_reached res\<rparr>
          in if wr_body_truncated res \<and> po_block_on_limit pol
             then refuse env pol srv client True (''BLOCK'', ''inspection_limit_exceeded'', 413)
                    ''inspection_limit_exceeded'' no_extra v s
             else if \<not> wr_excluded res \<and> wr_matches res \<noteq> [] \<and> wr_score res \<ge> po_threshold pol
                  \<and> po_mode pol = ''block''
             then refuse env pol srv client True (''BLOCK'', ''waf_threshold'', 403) ''waf_blocked'' no_extra v s
             else hand_on next env pol srv client limited req'
                    (if \<not> wr_excluded res \<and> wr_matches res \<noteq> []
                     then v\<lparr>vd_action := ''LOG'', vd_reason := ''waf_detection''\<rparr> else v) s)"

text \<open>The reason of a refusal by the rate limiter.\<close>

definition rate_reason :: "decision \<Rightarrow> string" where
  "rate_reason d =
     (if dc_reason d = ''bucket_capacity'' then ''rate_limit_capacity''
      else if dc_scope d = ''global'' then ''global_rate_limit'' else ''client_rate_limit'')"

text \<open>The part of \<^verbatim>\<open>ServeHTTP\<close> for requests that hold an admission slot.\<close>

definition serve_admitted ::
  "waf_lib \<Rightarrow> inspector \<Rightarrow> (gate_request \<Rightarrow> dw_op list) \<Rightarrow> gate_env \<Rightarrow> policy \<Rightarrow> server_config \<Rightarrow> string \<Rightarrow>
   string \<Rightarrow> gate_request \<Rightarrow> gate_state \<Rightarrow> gate_state \<times> verdict" where
  "serve_admitted lib i next env pol srv route client req0 s =
     (case validate_request_shape lib req0 pol srv of
        Some (code, reason) \<Rightarrow>
          refuse env pol srv client True (''BLOCK'', reason, code) reason no_extra start_verdict s
      | None \<Rightarrow>
        let req = req0\<lparr>gq_http := (gq_http req0)\<lparr>rq_header :=
                    h_set ''X-Request-ID'' (ge_request_id env) (rq_header (gq_http req0))\<rparr>\<rparr>;
            allowlisted = ip_matches client (po_allowlist pol)
        in case (if allowlisted then (gs_bans s, False, 0) else is_banned client (ge_now_ban env) (gs_bans s)) of
          (bans, blocked, retry) \<Rightarrow>
            let s = s\<lparr>gs_bans := bans\<rparr> in
            if blocked
            then refuse env pol srv client False (''BANNED'', ''temporary_auto_ban'', 429) ''temporarily_banned''
                   (h_set ''Retry-After'' (retry_seconds retry)) (start_verdict\<lparr>vd_retry := retry\<rparr>) s
            else if \<not> po_enabled pol \<or> po_mode pol = ''off'' \<or> allowlisted
            then (case prepare_body lib env pol srv req of
                    Ready req' limited \<Rightarrow> hand_on next env pol srv client limited req' start_verdict s
                  | p \<Rightarrow> prep_failed env pol srv client p start_verdict s)
            else if ip_matches client (po_denylist pol)
            then refuse env pol srv client True (''BLOCK'', ''ip_denied'', 403) ''ip_denied'' no_extra start_verdict s
            else if \<not> method_allowed (rq_method (gq_http req)) (po_methods pol)
            then refuse env pol srv client False (''BLOCK'', ''method_not_allowed'', 405) ''method_not_allowed''
                   (h_set ''Allow'' (join_with '', '' (po_methods pol))) start_verdict s
            else case allow route client (po_rate_limit pol) (ge_now_rate env) (gs_limiter s) of
              (l, d) \<Rightarrow>
                let s = s\<lparr>gs_limiter := l\<rparr> in
                if \<not> dc_allowed d
                then refuse env pol srv client (dc_scope d = ''client'' \<and> dc_reason d = ''rate_exceeded'')
                       (''RATE_LIMIT'', rate_reason d, 429) ''rate_limited''
                       (h_set ''Retry-After'' (retry_seconds (dc_retry d)))
                       (start_verdict\<lparr>vd_retry := dc_retry d, vd_scope := dc_scope d\<rparr>) s
                else (case prepare_body lib env pol srv req of
                        Ready req' limited \<Rightarrow>
                          waf_stage lib i next env pol srv client limited req' start_verdict s
                      | p \<Rightarrow> prep_failed env pol srv client p start_verdict s))"

text \<open>The traffic event of a completed request.\<close>

definition traffic_event :: "(string \<Rightarrow> string) \<Rightarrow> gate_env \<Rightarrow> string \<Rightarrow> string \<Rightarrow> gate_request \<Rightarrow> verdict \<Rightarrow> event"
where
  "traffic_event sha env client route req v =
     (case log_safe_path sha (escaped_path (rq_url (gq_http req))) (vd_action v) (vd_reason v) (vd_matches v \<noteq> []) of
        (path, fp) \<Rightarrow>
          \<lparr>te_observed = ge_now_done env, te_request_id = ge_request_id env, te_client_ip = client,
           te_method = rq_method (gq_http req), te_host = rq_host (gq_http req), te_path = path,
           te_fingerprint = fp, te_route = route, te_action = vd_action v, te_reason = vd_reason v,
           te_status = vd_status v, te_duration = real_of_int (ge_duration env) / real_of_int millisecond,
           te_cache = vd_cache v\<rparr>)"

text \<open>The metrics observation; the security duration is set when the request is handed on.\<close>

definition metric_duration :: "gate_env \<Rightarrow> verdict \<Rightarrow> duration" where
  "metric_duration env v =
     (let sd = (if vd_forwarded v \<noteq> None then ge_security_duration env else 0)
      in if sd \<le> 0 then ge_duration env else sd)"

definition gate_observation :: "gate_env \<Rightarrow> string \<Rightarrow> gate_request \<Rightarrow> verdict \<Rightarrow> observation" where
  "gate_observation env route req v =
     (case rule_data (vd_matches v) of (ids, cats) \<Rightarrow>
        \<lparr>ob_route = route, ob_method = rq_method (gq_http req), ob_action = vd_action v, ob_reason = vd_reason v,
         ob_scope = vd_scope v, ob_duration = metric_duration env v, ob_score = vd_score v, ob_rule_ids = ids,
         ob_categories = cats, ob_body_inspected = vd_body_inspected v, ob_body_truncated = vd_body_truncated v,
         ob_error = (vd_error v \<noteq> None), ob_auto_ban = vd_auto_banned v, ob_canceled = vd_canceled v\<rparr>)"

text \<open>The log entry of a request that is logged.\<close>

definition log_kind :: "verdict \<Rightarrow> string \<times> string \<times> string" where
  "log_kind v =
     (if vd_error v \<noteq> None then (''ERROR'', ''inspection_error'', ''request inspection failed'')
      else if vd_action v = ''BLOCK'' then (''WARN'', ''waf_blocked'', ''request blocked by security policy'')
      else if vd_action v = ''LOG'' then (''WARN'', ''waf_detected'', ''suspicious request detected in monitoring mode'')
      else if vd_action v = ''RATE_LIMIT'' then (''WARN'', ''rate_limited'', ''request rejected by hierarchical rate limiter'')
      else if vd_action v = ''OVERLOAD'' then (''WARN'', ''overload_rejected'', ''request rejected by concurrency protection'')
      else if vd_action v = ''BANNED'' then (''WARN'', ''auto_ban_rejected'', ''request rejected because client is temporarily banned'')
      else (''INFO'', ''waf_allowed'', ''request allowed by security policy''))"

definition gate_log_entry ::
  "(string \<Rightarrow> string) \<Rightarrow> gate_env \<Rightarrow> string \<Rightarrow> string \<Rightarrow> gate_request \<Rightarrow> verdict \<Rightarrow> sec_entry" where
  "gate_log_entry sha env client route req v =
     (case log_kind v of (lvl, evt, msg) \<Rightarrow>
      case log_safe_path sha (escaped_path (rq_url (gq_http req))) (vd_action v) (vd_reason v) (vd_matches v \<noteq> []) of
        (path, fp) \<Rightarrow>
          \<lparr>se_sequence = 0, se_timestamp = [], se_level = lvl, se_event = evt, se_message = msg,
           se_request_id = ge_request_id env, se_client_ip = client, se_method = rq_method (gq_http req),
           se_host = rq_host (gq_http req), se_path = path, se_fingerprint = fp, se_route = route,
           se_status = vd_status v, se_duration_ms = real_of_int (metric_duration env v) / real_of_int millisecond,
           se_action = vd_action v, se_reason = vd_reason v, se_score = vd_score v,
           se_rule_ids = fst (rule_data (vd_matches v)), se_matches = vd_matches v,
           se_retry_ms = vd_retry v div millisecond,
           se_ua_fingerprint = gate_fingerprint sha (h_get (rq_header (gq_http req)) ''User-Agent''),
           se_error = (case vd_error v of None \<Rightarrow> [] | Some e \<Rightarrow> e), se_auto_banned = vd_auto_banned v,
           se_match_limit = vd_match_limit v, se_tags = [''security'', ''waf'']\<rparr>)"

text \<open>The parameters of the log: the RFC 3339 parser and the JSON encoder.\<close>

record log_lib =
  ll_parse_time :: "string \<Rightarrow> time option"
  ll_marshal :: "sec_entry \<Rightarrow> string option"

definition append_log ::
  "log_lib \<Rightarrow> (string \<Rightarrow> string) \<Rightarrow> gate_env \<Rightarrow> string \<Rightarrow> string \<Rightarrow> gate_request \<Rightarrow> verdict \<Rightarrow>
   (sec_store \<times> fs) option \<Rightarrow> (sec_store \<times> fs) option" where
  "append_log ll sha env client route req v logs =
     (case logs of
        None \<Rightarrow> None
      | Some (st, fs) \<Rightarrow> Some (snd (sec_append (ll_parse_time ll) (ll_marshal ll) (ge_log_fails env) (ge_now_text env)
                          (gate_log_entry sha env client route req v) st fs)))"

definition loggable :: "verdict \<Rightarrow> bool" where
  "loggable v \<longleftrightarrow> \<not> vd_canceled v \<and> (vd_action v \<noteq> ''ALLOW'' \<or> vd_matches v \<noteq> [] \<or> vd_error v \<noteq> None)"

definition complete_request ::
  "log_lib \<Rightarrow> (string \<Rightarrow> string) \<Rightarrow> gate_env \<Rightarrow> string \<Rightarrow> string \<Rightarrow> gate_request \<Rightarrow> verdict \<Rightarrow> gate_state \<Rightarrow> gate_state" where
  "complete_request ll sha env client route req v s =
     s\<lparr>gs_metrics := metrics_finish (gate_observation env route req v) (gs_metrics s),
       gs_log := (if loggable v then append_log ll sha env client route req v (gs_log s) else gs_log s),
       gs_traffic := map_option (observe_event (Some (ge_now_done env)) (ge_now_done env)
         (traffic_event sha env client route req v)) (gs_traffic s)\<rparr>"

definition unmatched_route :: string where "unmatched_route = ''__unmatched__''"

text \<open>\<^verbatim>\<open>ServeHTTP\<close>: route and policy, admission, the pipeline, release and completion.\<close>

definition serve_http ::
  "waf_lib \<Rightarrow> log_lib \<Rightarrow> (string \<Rightarrow> string) \<Rightarrow> inspector \<Rightarrow> route list \<Rightarrow> (string \<Rightarrow> policy) \<Rightarrow> server_config \<Rightarrow>
   gateway_resolver \<Rightarrow> (gate_request \<Rightarrow> dw_op list) \<Rightarrow> gate_env \<Rightarrow> gate_request \<Rightarrow> gate_state \<Rightarrow>
   gate_state \<times> verdict" where
  "serve_http lib ll sha i table policies srv resolver next env req s0 =
     (let s = s0\<lparr>gs_metrics := metrics_begin (gs_metrics s0)\<rparr>;
          route = (case table_match table (gq_http req) of Some r \<Rightarrow> rt_name r | None \<Rightarrow> unmatched_route);
          pol = policies route;
          client = resolver_resolve resolver (gq_http req);
          (adm, acq) = acquire client (sv_max_concurrent_requests srv) (sv_max_concurrent_per_client srv)
                         (gs_admission s);
          s = s\<lparr>gs_admission := adm\<rparr>
      in case acq of
        Inl why \<Rightarrow>
          (case refuse env pol srv client (why = Client_Concurrency)
                  (''OVERLOAD'', (if why = Client_Concurrency then ''client_concurrency'' else ''global_concurrency''), 503)
                  ''server_busy'' (h_set ''Retry-After'' ''1'') (start_verdict\<lparr>vd_retry := second\<rparr>) s of
             (s', v) \<Rightarrow> (complete_request ll sha env client route req v s', v))
      | Inr tok \<Rightarrow>
          (case serve_admitted lib i next env pol srv route client req s of
             (s', v) \<Rightarrow>
               (complete_request ll sha env client route req v
                  (s'\<lparr>gs_admission := release_token tok (gs_admission s')\<rparr>), v)))"

end
