(* ===== verification/Gateway_Correct.thy ===== *)
theory Gateway_Correct
  imports Gateway Waf_Correct
begin

text \<open>
  The properties of the request pipeline of the security gateway: which requests reach the protected
  handler, what a request leaves behind in the shared state, and what the client is told.
\<close>

section \<open>Complete mediation\<close>

lemma refuse_fields [simp]:
  "vd_forwarded (snd (refuse env pol srv client vio arst code extra v s)) = vd_forwarded v"
  "gs_admission (fst (refuse env pol srv client vio arst code extra v s)) = gs_admission s"
  "gs_traffic (fst (refuse env pol srv client vio arst code extra v s)) = gs_traffic s"
  "gs_limiter (fst (refuse env pol srv client vio arst code extra v s)) = gs_limiter s"
  "gs_metrics (fst (refuse env pol srv client vio arst code extra v s)) = gs_metrics s"
  "gs_log (fst (refuse env pol srv client vio arst code extra v s)) = gs_log s"
  by (auto simp: refuse_def gate_record_violation_def Let_def split: prod.split)

lemma refuse_verdict:
  "vd_action (snd (refuse env pol srv client vio (a, re, st) code extra v s)) = a"
  "vd_reason (snd (refuse env pol srv client vio (a, re, st) code extra v s)) = re"
  "vd_status (snd (refuse env pol srv client vio (a, re, st) code extra v s)) = st"
  "vd_canceled (snd (refuse env pol srv client vio (a, re, st) code extra v s)) = vd_canceled v"
  by (auto simp: refuse_def gate_record_violation_def Let_def split: prod.split)

lemma hand_on_fields [simp]:
  "vd_forwarded (snd (hand_on next env pol srv client limited req v s)) = Some req"
  "gs_admission (fst (hand_on next env pol srv client limited req v s)) = gs_admission s"
  "gs_traffic (fst (hand_on next env pol srv client limited req v s)) = gs_traffic s"
  "gs_limiter (fst (hand_on next env pol srv client limited req v s)) = gs_limiter s"
  "gs_metrics (fst (hand_on next env pol srv client limited req v s)) = gs_metrics s"
  "gs_log (fst (hand_on next env pol srv client limited req v s)) = gs_log s"
  by (auto simp: hand_on_def gate_record_violation_def Let_def split: prod.split)

lemma prep_failed_fields [simp]:
  "vd_forwarded (snd (prep_failed env pol srv client p v s)) = vd_forwarded v"
  "gs_admission (fst (prep_failed env pol srv client p v s)) = gs_admission s"
  "gs_traffic (fst (prep_failed env pol srv client p v s)) = gs_traffic s"
  "gs_limiter (fst (prep_failed env pol srv client p v s)) = gs_limiter s"
  "gs_metrics (fst (prep_failed env pol srv client p v s)) = gs_metrics s"
  "gs_log (fst (prep_failed env pol srv client p v s)) = gs_log s"
  by (cases p; simp add: prep_failed_def)+

lemma start_verdict_forwarded [simp]: "vd_forwarded start_verdict = None"
  by (simp add: start_verdict_def)

text \<open>The firewall lets a request pass.\<close>

definition waf_passes :: "waf_lib \<Rightarrow> inspector \<Rightarrow> policy \<Rightarrow> gate_request \<Rightarrow> bool" where
  "waf_passes lib i pol req \<longleftrightarrow>
     (case fst (inspect lib i req pol) of
        Inl e \<Rightarrow> False
      | Inr res \<Rightarrow> \<not> (wr_body_truncated res \<and> po_block_on_limit pol) \<and>
          (wr_excluded res \<or> wr_matches res = [] \<or> wr_score res < po_threshold pol \<or> po_mode pol \<noteq> ''block''))"

lemma waf_stage_frame:
  "gs_admission (fst (waf_stage lib i next env pol srv client limited req v s)) = gs_admission s \<and>
  gs_traffic (fst (waf_stage lib i next env pol srv client limited req v s)) = gs_traffic s \<and>
  gs_limiter (fst (waf_stage lib i next env pol srv client limited req v s)) = gs_limiter s \<and>
  gs_metrics (fst (waf_stage lib i next env pol srv client limited req v s)) = gs_metrics s \<and>
  gs_log (fst (waf_stage lib i next env pol srv client limited req v s)) = gs_log s"
  unfolding waf_stage_def Let_def by (simp split: prod.split sum.split)

lemma waf_stage_fields:
  "gs_admission (fst (waf_stage lib i next env pol srv client limited req v s)) = gs_admission s"
  "gs_traffic (fst (waf_stage lib i next env pol srv client limited req v s)) = gs_traffic s"
  "gs_limiter (fst (waf_stage lib i next env pol srv client limited req v s)) = gs_limiter s"
  "gs_metrics (fst (waf_stage lib i next env pol srv client limited req v s)) = gs_metrics s"
  "gs_log (fst (waf_stage lib i next env pol srv client limited req v s)) = gs_log s"
  using waf_stage_frame [of lib i "next" env pol srv client limited req v s] by blast+

lemma waf_stage_forwarded:
  assumes "inspector_ok i" "vd_forwarded v = None"
  shows "vd_forwarded (snd (waf_stage lib i next env pol srv client limited req v s)) =
    (if waf_passes lib i pol req then Some req else None)"
proof (cases "inspect lib i req pol")
  case (Pair r req')
  show ?thesis
  proof (cases r)
    case (Inl e)
    then show ?thesis using Pair assms(2) by (simp add: waf_stage_def waf_passes_def)
  next
    case (Inr res)
    then have "req' = req" using inspect_request Pair by blast
    then show ?thesis using Pair Inr assms(2)
      by (auto simp: waf_stage_def waf_passes_def Let_def not_le)
  qed
qed

text \<open>
  The specification of the pipeline: the request handed on, if all checks pass. \<open>tagged\<close> is the
  request with the gateway's identifier.
\<close>

definition tagged :: "gate_env \<Rightarrow> gate_request \<Rightarrow> gate_request" where
  "tagged env req = req\<lparr>gq_http := (gq_http req)\<lparr>rq_header :=
     h_set ''X-Request-ID'' (ge_request_id env) (rq_header (gq_http req))\<rparr>\<rparr>"

definition bypasses_policy :: "policy \<Rightarrow> string \<Rightarrow> bool" where
  "bypasses_policy pol client \<longleftrightarrow> \<not> po_enabled pol \<or> po_mode pol = ''off'' \<or> ip_matches client (po_allowlist pol)"

definition mediated ::
  "waf_lib \<Rightarrow> inspector \<Rightarrow> gate_env \<Rightarrow> policy \<Rightarrow> server_config \<Rightarrow> string \<Rightarrow> string \<Rightarrow> gate_request \<Rightarrow> gate_state \<Rightarrow>
   gate_request option" where
  "mediated lib i env pol srv route client req s =
     (if validate_request_shape lib req pol srv \<noteq> None then None
      else if \<not> ip_matches client (po_allowlist pol) \<and> fst (snd (is_banned client (ge_now_ban env) (gs_bans s)))
      then None
      else case prepare_body lib env pol srv (tagged env req) of
          Ready req' limited \<Rightarrow>
            if bypasses_policy pol client then Some req'
            else if \<not> ip_matches client (po_denylist pol)
                 \<and> method_allowed (rq_method (gq_http req)) (po_methods pol)
                 \<and> dc_allowed (snd (allow route client (po_rate_limit pol) (ge_now_rate env) (gs_limiter s)))
                 \<and> waf_passes lib i pol req'
            then Some req' else None
        | _ \<Rightarrow> None)"

lemma serve_admitted_forwarded:
  assumes "inspector_ok i"
  shows "vd_forwarded (snd (serve_admitted lib i next env pol srv route client req s)) =
    mediated lib i env pol srv route client req s"
proof -
  have t: "req\<lparr>gq_http := (gq_http req)\<lparr>rq_header :=
      h_set ''X-Request-ID'' (ge_request_id env) (rq_header (gq_http req))\<rparr>\<rparr> = tagged env req"
    by (simp add: tagged_def)
  have m: "rq_method (gq_http (tagged env req)) = rq_method (gq_http req)" by (simp add: tagged_def)
  show ?thesis
  proof (cases "validate_request_shape lib req pol srv")
    case None
    obtain b bl rt where ban: "is_banned client (ge_now_ban env) (gs_bans s) = (b, bl, rt)" by (metis prod_cases3)
    obtain l d where al: "allow route client (po_rate_limit pol) (ge_now_rate env) (gs_limiter s) = (l, d)"
      by fastforce
    show ?thesis
      unfolding serve_admitted_def None option.case Let_def t m mediated_def ban
      by (cases "ip_matches client (po_allowlist pol)"; cases "prepare_body lib env pol srv (tagged env req)")
        (auto simp: ban al bypasses_policy_def waf_stage_forwarded [OF assms] start_verdict_def)
  qed (auto simp: serve_admitted_def mediated_def)
qed

lemma serve_admitted_frame:
  "gs_admission (fst (serve_admitted lib i next env pol srv route client req s)) = gs_admission s \<and>
   gs_traffic (fst (serve_admitted lib i next env pol srv route client req s)) = gs_traffic s \<and>
   gs_metrics (fst (serve_admitted lib i next env pol srv route client req s)) = gs_metrics s \<and>
   gs_log (fst (serve_admitted lib i next env pol srv route client req s)) = gs_log s"
proof (cases "validate_request_shape lib req pol srv")
  case None
  obtain bans blocked retry where b: "(if ip_matches client (po_allowlist pol) then (gs_bans s, False, 0) else is_banned client (ge_now_ban env) (gs_bans s)) = (bans, blocked, retry)"
    by (metis prod_cases3)
  obtain l d where a: "allow route client (po_rate_limit pol) (ge_now_rate env) (gs_limiter s) = (l, d)" by (meson surj_pair)
  show ?thesis
    unfolding serve_admitted_def Let_def None option.case b prod.case
    by (simp add: waf_stage_fields a split: prep.split)
qed (auto simp: serve_admitted_def)

lemma complete_fields [simp]:
  "gs_admission (complete_request ll sha env client route req v s) = gs_admission s"
  "gs_limiter (complete_request ll sha env client route req v s) = gs_limiter s"
  "gs_bans (complete_request ll sha env client route req v s) = gs_bans s"
  by (simp_all add: complete_request_def)

text \<open>The route, the policy and the client of a request.\<close>

definition route_of :: "route list \<Rightarrow> gate_request \<Rightarrow> string" where
  "route_of table req = (case table_match table (gq_http req) of Some r \<Rightarrow> rt_name r | None \<Rightarrow> unmatched_route)"

definition slot_free :: "server_config \<Rightarrow> string \<Rightarrow> admission \<Rightarrow> bool" where
  "slot_free srv client a \<longleftrightarrow> am_global a < sv_max_concurrent_requests srv \<and>
     client_active (am_clients a) client < sv_max_concurrent_per_client srv"

lemma acquire_slot_free:
  "snd (acquire client (sv_max_concurrent_requests srv) (sv_max_concurrent_per_client srv) a) =
     (if slot_free srv client a then Inr (length (am_tokens a))
      else if am_global a \<ge> sv_max_concurrent_requests srv then Inl Global_Concurrency else Inl Client_Concurrency)"
  by (simp add: acquire_def slot_free_def)

lemma mediated_cong:
  "gs_bans s' = gs_bans s \<Longrightarrow> gs_limiter s' = gs_limiter s \<Longrightarrow>
     mediated lib i env pol srv route client req s' = mediated lib i env pol srv route client req s"
  by (simp only: mediated_def)

text \<open>The state in which a request is evaluated: counted as begun, with its admission slot.\<close>

definition enter :: "admission \<Rightarrow> gate_state \<Rightarrow> gate_state" where
  "enter adm s = s\<lparr>gs_metrics := metrics_begin (gs_metrics s), gs_admission := adm\<rparr>"

lemma enter_fields [simp]:
  "gs_admission (enter adm s) = adm" "gs_bans (enter adm s) = gs_bans s" "gs_limiter (enter adm s) = gs_limiter s"
  "gs_traffic (enter adm s) = gs_traffic s" "gs_metrics (enter adm s) = metrics_begin (gs_metrics s)"
  "gs_log (enter adm s) = gs_log s"
  by (simp_all add: enter_def)

lemma serve_http_unfold:
  fixes table req policies resolver s
  defines "route \<equiv> route_of table req" and "client \<equiv> resolver_resolve resolver (gq_http req)"
  shows "serve_http lib ll sha i table policies srv resolver next env req s =
    (case acquire client (sv_max_concurrent_requests srv) (sv_max_concurrent_per_client srv) (gs_admission s) of
       (adm, Inl why) \<Rightarrow>
         (case refuse env (policies route) srv client (why = Client_Concurrency)
                 (''OVERLOAD'', (if why = Client_Concurrency then ''client_concurrency'' else ''global_concurrency''), 503)
                 ''server_busy'' (h_set ''Retry-After'' ''1'') (start_verdict\<lparr>vd_retry := second\<rparr>)
                 (enter adm s) of
            (s', v) \<Rightarrow> (complete_request ll sha env client route req v s', v))
     | (adm, Inr tok) \<Rightarrow>
         (case serve_admitted lib i next env (policies route) srv route client req (enter adm s) of
            (s', v) \<Rightarrow> (complete_request ll sha env client route req v
                         (s'\<lparr>gs_admission := release_token tok (gs_admission s')\<rparr>), v)))"
  unfolding serve_http_def route_def client_def route_of_def enter_def Let_def by (simp split: prod.split sum.split)

text \<open>
  C1. Complete mediation. Whatever the protected handler, the environment and the state of the
  gateway, a request reaches the protected handler exactly if a concurrency slot is free for the
  whole gateway and for its client, its shape is within the limits of its route's policy, its
  client is not banned (unless it is on the allowlist), its body could be staged within the limit,
  and either the policy does not apply to it (disabled, off, allowlisted) or the client is not on
  the denylist, the method is allowed, the rate limiter grants it tokens and the firewall finds
  nothing that reaches the blocking threshold; the handler then receives the staged request with
  the identifier chosen by the gateway.
\<close>

theorem gateway_complete_mediation:
  assumes "inspector_ok i"
  shows "let route = route_of table req; client = resolver_resolve resolver (gq_http req) in
     vd_forwarded (snd (serve_http lib ll sha i table policies srv resolver next env req s)) =
       (if slot_free srv client (gs_admission s)
        then mediated lib i env (policies route) srv route client req s else None)"
proof -
  let ?route = "route_of table req" and ?client = "resolver_resolve resolver (gq_http req)"
  obtain adm acq where a: "acquire ?client (sv_max_concurrent_requests srv) (sv_max_concurrent_per_client srv)
      (gs_admission s) = (adm, acq)" by fastforce
  have acq: "acq = (if slot_free srv ?client (gs_admission s) then Inr (length (am_tokens (gs_admission s)))
      else if am_global (gs_admission s) \<ge> sv_max_concurrent_requests srv then Inl Global_Concurrency
      else Inl Client_Concurrency)" using acquire_slot_free [of ?client srv "gs_admission s"] a by simp
  show ?thesis
  proof (cases acq)
    case (Inl why)
    let ?r = "refuse env (policies ?route) srv ?client (why = Client_Concurrency)
        (''OVERLOAD'', (if why = Client_Concurrency then ''client_concurrency'' else ''global_concurrency''), 503)
        ''server_busy'' (h_set ''Retry-After'' ''1'') (start_verdict\<lparr>vd_retry := second\<rparr>) (enter adm s)"
    obtain s' v where r: "?r = (s', v)" by fastforce
    have "vd_forwarded (snd ?r) = None" by (simp only: refuse_fields) simp
    then have "vd_forwarded v = None" by (simp only: r snd_conv)
    moreover have "\<not> slot_free srv ?client (gs_admission s)" using acq Inl by (auto split: if_splits)
    ultimately show ?thesis unfolding serve_http_unfold a Inl prod.case sum.case r Let_def by simp
  next
    case (Inr tok)
    obtain s' v where r: "serve_admitted lib i next env (policies ?route) srv ?route ?client req
        (enter adm s) = (s', v)" by fastforce
    have "vd_forwarded v = mediated lib i env (policies ?route) srv ?route ?client req (enter adm s)"
      using serve_admitted_forwarded [OF assms, of lib "next" env "policies ?route" srv ?route ?client req
          "enter adm s"] r by simp
    moreover have "slot_free srv ?client (gs_admission s)" using acq Inr by (auto split: if_splits)
    ultimately show ?thesis
      using mediated_cong [of "enter adm s" s]
      unfolding serve_http_unfold a Inr prod.case sum.case r Let_def by simp
  qed
qed

section \<open>What a request leaves behind\<close>

lemma acquire_release_counts:
  assumes "acquire client g l a = (adm, Inr tok)"
  shows "open_tokens (release_token tok adm) = open_tokens a" "open_of c (release_token tok adm) = open_of c a"
  using assms
  by (auto simp: acquire_def release_token_def open_tokens_def open_of_def nth_append list_update_append
      Let_def split: if_splits)

lemma acquire_reject: "acquire client g l a = (adm, Inl why) \<Longrightarrow> adm = a"
  by (auto simp: acquire_def split: if_splits)

lemma am_inv_determined:
  assumes "am_inv a" "am_inv b" "open_tokens a = open_tokens b" "\<And>c. open_of c a = open_of c b"
  shows "am_global a = am_global b \<and> gm_get (am_clients a) = gm_get (am_clients b)"
  using assms by (auto simp: am_inv_def)

text \<open>The records a finished request leaves, relative to the state before it.\<close>

definition recorded ::
  "log_lib \<Rightarrow> (string \<Rightarrow> string) \<Rightarrow> gate_env \<Rightarrow> string \<Rightarrow> string \<Rightarrow> gate_request \<Rightarrow> verdict \<Rightarrow> gate_state \<Rightarrow> gate_state \<Rightarrow> bool" where
  "recorded ll sha env client route req v s s' \<longleftrightarrow>
     gs_metrics s' = metrics_finish (gate_observation env route req v) (metrics_begin (gs_metrics s)) \<and>
     gs_log s' = (if loggable v then append_log ll sha env client route req v (gs_log s) else gs_log s) \<and>
     gs_traffic s' = map_option (observe_event (Some (ge_now_done env)) (ge_now_done env)
       (traffic_event sha env client route req v)) (gs_traffic s)"

lemma complete_recorded:
  assumes "gs_metrics s1 = metrics_begin (gs_metrics s)" "gs_log s1 = gs_log s" "gs_traffic s1 = gs_traffic s"
  shows "recorded ll sha env client route req v s (complete_request ll sha env client route req v s1)"
  using assms by (simp add: recorded_def complete_request_def)

text \<open>
  C2. A finished request leaves no trace in the concurrency counters and one in each record. On
  every path through the pipeline (refusals, cancellation, hand-over) the slot it may have taken is
  given back, so the global and the per-client counters are what they were before, and so is the
  number of requests in flight; the metrics and the traffic tracker count it exactly once; and the
  security log gets exactly one entry for it if it was refused or detected or failed, none otherwise.
\<close>

theorem gateway_releases_and_records:
  assumes "am_inv (gs_admission s)" "serve_http lib ll sha i table policies srv resolver next env req s = (s', v)"
  shows "am_inv (gs_admission s')
    \<and> am_global (gs_admission s') = am_global (gs_admission s)
    \<and> gm_get (am_clients (gs_admission s')) = gm_get (am_clients (gs_admission s))
    \<and> mr_inflight (gs_metrics s') = mr_inflight (gs_metrics s)
    \<and> recorded ll sha env (resolver_resolve resolver (gq_http req)) (route_of table req) req v s s'"
proof -
  let ?route = "route_of table req" and ?client = "resolver_resolve resolver (gq_http req)"
  obtain adm acq where a: "acquire ?client (sv_max_concurrent_requests srv) (sv_max_concurrent_per_client srv)
      (gs_admission s) = (adm, acq)" by fastforce
  have inv: "am_inv adm" using acquire_inv [OF assms(1)] a by (metis fst_conv)
  have inflight: "recorded ll sha env ?client ?route req v s s' \<Longrightarrow> mr_inflight (gs_metrics s') = mr_inflight (gs_metrics s)"
    by (simp add: recorded_def metrics_finish_def metrics_begin_def Let_def)
  show ?thesis
  proof (cases acq)
    case (Inl why)
    have adm: "adm = gs_admission s" using acquire_reject a Inl by blast
    let ?r = "refuse env (policies ?route) srv ?client (why = Client_Concurrency)
        (''OVERLOAD'', (if why = Client_Concurrency then ''client_concurrency'' else ''global_concurrency''), 503)
        ''server_busy'' (h_set ''Retry-After'' ''1'') (start_verdict\<lparr>vd_retry := second\<rparr>) (enter adm s)"
    obtain s1 v1 where r: "?r = (s1, v1)" by fastforce
    have "(complete_request ll sha env ?client ?route req v1 s1, v1) = (s', v)"
      using assms(2) unfolding serve_http_unfold a Inl prod.case sum.case r .
    then have s': "s' = complete_request ll sha env ?client ?route req v s1" by (auto simp only: prod.inject)
    have f: "gs_admission (fst ?r) = adm" "gs_metrics (fst ?r) = metrics_begin (gs_metrics s)"
      "gs_log (fst ?r) = gs_log s" "gs_traffic (fst ?r) = gs_traffic s" by simp_all
    note f1 = f [unfolded r fst_conv]
    have "recorded ll sha env ?client ?route req v s s'"
      unfolding s' using f1 by (intro complete_recorded)
    then show ?thesis using inflight assms(1) adm f1(1) by (simp add: s')
  next
    case (Inr tok)
    let ?r = "serve_admitted lib i next env (policies ?route) srv ?route ?client req (enter adm s)"
    obtain s1 v1 where r: "?r = (s1, v1)" by fastforce
    let ?s2 = "s1\<lparr>gs_admission := release_token tok (gs_admission s1)\<rparr>"
    have "(complete_request ll sha env ?client ?route req v1 ?s2, v1) = (s', v)"
      using assms(2) unfolding serve_http_unfold a Inr prod.case sum.case r .
    then have s': "s' = complete_request ll sha env ?client ?route req v ?s2" by (auto simp only: prod.inject)
    have f1: "gs_admission s1 = adm" "gs_metrics s1 = metrics_begin (gs_metrics s)"
      "gs_log s1 = gs_log s" "gs_traffic s1 = gs_traffic s"
      using serve_admitted_frame [of lib i "next" env "policies ?route" srv ?route ?client req "enter adm s"] r
      by simp_all
    have "recorded ll sha env ?client ?route req v s s'"
      unfolding s' using f1(2-4) by (intro complete_recorded) simp_all
    moreover have rel: "am_inv (release_token tok adm)" by (rule release_inv [OF inv])
    moreover have "am_global (release_token tok adm) = am_global (gs_admission s)
        \<and> gm_get (am_clients (release_token tok adm)) = gm_get (am_clients (gs_admission s))"
      using am_inv_determined [OF rel assms(1)] acquire_release_counts a Inr by blast
    ultimately show ?thesis using inflight f1(1) by (simp add: s')
  qed
qed

section \<open>What the client is told\<close>

lemma canonical_keys [simp]:
  "canonical_header_key ''X-Request-ID'' = ''X-Request-Id''"
  "canonical_header_key ''X-Security-Action'' = ''X-Security-Action''"
  "canonical_header_key ''X-Security-Score'' = ''X-Security-Score''"
  "canonical_header_key ''X-Content-Type-Options'' = ''X-Content-Type-Options''"
  "canonical_header_key ''Referrer-Policy'' = ''Referrer-Policy''"
  "canonical_header_key ''X-Frame-Options'' = ''X-Frame-Options''"
  "canonical_header_key ''Permissions-Policy'' = ''Permissions-Policy''"
  "canonical_header_key ''Content-Type'' = ''Content-Type''"
  "canonical_header_key ''Cache-Control'' = ''Cache-Control''"
  "canonical_header_key ''Retry-After'' = ''Retry-After''"
  "canonical_header_key ''Allow'' = ''Allow''"
  by code_simp+

lemma set_base_headers_read:
  "h_values (set_base_headers i action score security h) ''X-Request-ID'' = [i]"
  "h_values (set_base_headers i action score security h) ''X-Security-Action'' = [action]"
  "h_values (set_base_headers i action score security h) ''X-Security-Score'' = [itoa score]"
  by (simp_all add: set_base_headers_def security_headers_def Let_def h_values_set)

text \<open>A status line that carries the gateway's own identifier, score and one of its actions.\<close>

definition marked :: "string \<Rightarrow> int \<Rightarrow> string set \<Rightarrow> int \<times> header \<Rightarrow> bool" where
  "marked i score actions line \<longleftrightarrow>
     h_values (snd line) ''X-Request-ID'' = [i] \<and> h_values (snd line) ''X-Security-Score'' = [itoa score] \<and>
     (\<exists>a \<in> actions. h_values (snd line) ''X-Security-Action'' = [a])"

definition informational :: "int \<Rightarrow> bool" where
  "informational st \<longleftrightarrow> 100 \<le> st \<and> st < 200 \<and> st \<noteq> 101"

definition final_lines :: "response \<Rightarrow> (int \<times> header) list" where
  "final_lines r = filter (\<lambda>l. \<not> informational (fst l)) (rp_sent r)"

text \<open>The invariant of the decision writer under arbitrary downstream behaviour.\<close>

definition dw_inv :: "string \<Rightarrow> int \<Rightarrow> string \<Rightarrow> decision_writer \<Rightarrow> bool" where
  "dw_inv i score action w \<longleftrightarrow>
     dw_request_id w = i \<and> dw_score w = score \<and> dw_action w \<in> {action, ''BLOCK''} \<and>
     (\<forall>l \<in> set (rp_sent (dw_response w)). marked i score {action, ''BLOCK''} l) \<and>
     length (final_lines (dw_response w)) \<le> 1 \<and>
     (dw_status w = 0 \<longrightarrow> final_lines (dw_response w) = [])"

lemma dw_send_base_inv:
  assumes "dw_inv i score action w" "informational st \<or> final_lines (dw_response w) = []"
    "informational st \<or> dw_status w \<noteq> 0"
  shows "dw_inv i score action (dw_send st (dw_base w))"
  using assms
  by (auto simp: dw_inv_def dw_send_def dw_base_def marked_def set_base_headers_read final_lines_def)

lemma dw_write_header_inv:
  assumes "dw_inv i score action w" "st \<noteq> 0"
  shows "dw_inv i score action (dw_write_header st w)"
proof (cases "informational st")
  case True
  then show ?thesis using dw_send_base_inv [OF assms(1)] by (simp add: dw_write_header_def informational_def)
next
  case False
  show ?thesis
  proof (cases "dw_status w = 0")
    case True
    define st' where "st' = (if limit_exceeded w then 413 else st)"
    define w' where "w' = (if limit_exceeded w then w\<lparr>dw_action := ''BLOCK''\<rparr> else w)\<lparr>dw_status := st'\<rparr>"
    have eq: "dw_write_header st w = dw_send st' (dw_base w')"
      using False True unfolding informational_def dw_write_header_def st'_def w'_def by (auto simp: Let_def)
    have "dw_inv i score action w'" "final_lines (dw_response w') = []" "dw_status w' \<noteq> 0"
      using assms True by (auto simp: dw_inv_def w'_def st'_def)
    then show ?thesis unfolding eq by (intro dw_send_base_inv) auto
  next
    case False
    then show ?thesis using assms \<open>\<not> informational st\<close> unfolding informational_def dw_write_header_def by auto
  qed
qed

text \<open>A handler does not write the status zero (\<^verbatim>\<open>net/http\<close> panics on it).\<close>

fun proper_op :: "dw_op \<Rightarrow> bool" where
  "proper_op (Dw_Write_Header st) = (st \<noteq> 0)"
| "proper_op _ = True"

lemma dw_step_inv:
  assumes "dw_inv i score action w" "proper_op op"
  shows "dw_inv i score action (dw_step op w)"
proof (cases op)
  case (Dw_Hijack ok)
  have "dw_inv i score action (dw_base w)" using assms(1) by (simp add: dw_inv_def dw_base_def final_lines_def)
  then show ?thesis using Dw_Hijack by (auto simp: Let_def dw_inv_def)
qed (use assms in \<open>auto simp: dw_write_header_inv\<close>, auto simp: dw_inv_def final_lines_def)

lemma dw_run_inv:
  "dw_inv i score action w \<Longrightarrow> list_all proper_op ops \<Longrightarrow>
     dw_inv i score action (foldl (\<lambda>w op. dw_step op w) w ops)"
  by (induction ops arbitrary: w) (simp_all add: dw_step_inv)

lemma enforce_inv:
  assumes "dw_inv i score action w"
  shows "dw_inv i score action (fst (enforce_body_limit w))"
proof -
  have "dw_inv i score action (w\<lparr>dw_action := ''BLOCK''\<rparr>)" using assms by (simp add: dw_inv_def)
  then show ?thesis using assms dw_write_header_inv by (simp add: enforce_body_limit_def Let_def)
qed

lemma finalize_inv: "dw_inv i score action w \<Longrightarrow> dw_inv i score action (dw_finalize w)"
  by (simp add: dw_finalize_def dw_write_header_inv)

definition gate_actions :: "string set" where
  "gate_actions = {''ALLOW'', ''LOG'', ''BLOCK'', ''RATE_LIMIT'', ''OVERLOAD'', ''BANNED''}"

definition answered :: "gate_env \<Rightarrow> verdict \<Rightarrow> bool" where
  "answered env v \<longleftrightarrow>
     (\<forall>l \<in> set (rp_sent (vd_response v)). marked (ge_request_id env) (vd_score v) gate_actions l) \<and>
     length (final_lines (vd_response v)) \<le> 1 \<and>
     (vd_forwarded v = None \<and> \<not> vd_canceled v \<longrightarrow>
        (\<exists>h. rp_sent (vd_response v) = [(vd_status v, h)] \<and>
             marked (ge_request_id env) (vd_score v) {vd_action v} (vd_status v, h)))"

definition fresh :: "verdict \<Rightarrow> bool" where
  "fresh v \<longleftrightarrow> vd_response v = new_response \<and> vd_forwarded v = None \<and> \<not> vd_canceled v"

lemma start_fresh [simp]: "fresh start_verdict"
  by (simp add: fresh_def start_verdict_def)

definition harmless :: "(header \<Rightarrow> header) \<Rightarrow> bool" where
  "harmless f \<longleftrightarrow> (\<forall>h. h_values (f h) ''X-Security-Action'' = h_values h ''X-Security-Action'' \<and>
     h_values (f h) ''X-Security-Score'' = h_values h ''X-Security-Score'')"

lemma harmless_extra [simp]: "harmless no_extra" "harmless (h_set ''Retry-After'' x)" "harmless (h_set ''Allow'' x)"
  by (simp_all add: harmless_def no_extra_def h_values_set)

lemma refuse_answered:
  assumes "fresh v" "harmless extra" "a \<in> gate_actions"
  shows "answered env (snd (refuse env pol srv client vio (a, re, st) code extra v s))"
proof -
  let ?d = "rp_header (set_decision_headers a (vd_score v) (sv_add_security_headers srv) new_response)"
  let ?h = "h_set ''X-Content-Type-Options'' ''nosniff'' (h_set ''Cache-Control'' ''no-store''
    (h_set ''Content-Type'' ''application/json; charset=utf-8'' (h_set ''X-Request-ID'' (ge_request_id env) (extra ?d))))"
  let ?v = "snd (refuse env pol srv client vio (a, re, st) code extra v s)"
  have sent: "rp_sent (vd_response ?v) = [(st, ?h)]" and score: "vd_score ?v = vd_score v"
    and act: "vd_action ?v = a" "vd_status ?v = st"
    using assms(1)
    by (auto simp: refuse_def write_blocked_def set_decision_headers_def new_response_def fresh_def
        gate_record_violation_def Let_def split: prod.split)
  have "h_values ?d ''X-Security-Action'' = [a]" "h_values ?d ''X-Security-Score'' = [itoa (vd_score v)]"
    by (simp_all add: set_decision_headers_def h_values_set)
  then have m: "marked (ge_request_id env) (vd_score v) {a} (st, ?h)"
    using assms(2) by (simp add: marked_def harmless_def h_values_set)
  then have "marked (ge_request_id env) (vd_score v) gate_actions (st, ?h)"
    using assms(3) by (auto simp: marked_def)
  then show ?thesis using m by (simp add: answered_def sent score act final_lines_def)
qed

lemma hand_on_answered:
  assumes "fresh v" "vd_action v \<in> {''ALLOW'', ''LOG''}" "list_all proper_op (next req)"
  shows "answered env (snd (hand_on next env pol srv client limited req v s))"
proof -
  define w0 where "w0 = \<lparr>dw_response = set_decision_headers (vd_action v) (vd_score v) (sv_add_security_headers srv) (vd_response v),
    dw_request_id = ge_request_id env, dw_action = vd_action v, dw_score = vd_score v,
    dw_security = sv_add_security_headers srv, dw_limited = limited, dw_exceeded = False, dw_status = 0\<rparr>"
  define w1 where "w1 = foldl (\<lambda>w op. dw_step op w) w0 (next req)"
  define w3 where "w3 = dw_finalize (fst (enforce_body_limit w1))"
  have "dw_inv (ge_request_id env) (vd_score v) (vd_action v) w0"
    using assms(1) by (simp add: dw_inv_def w0_def set_decision_headers_def fresh_def new_response_def final_lines_def)
  then have inv: "dw_inv (ge_request_id env) (vd_score v) (vd_action v) w3"
    unfolding w3_def w1_def using assms(3) by (intro finalize_inv enforce_inv dw_run_inv)
  let ?v = "snd (hand_on next env pol srv client limited req v s)"
  have "vd_response ?v = dw_response w3" "vd_score ?v = vd_score v" "vd_forwarded ?v = Some req"
    unfolding w3_def w1_def w0_def by (auto simp: hand_on_def Let_def gate_record_violation_def split: prod.split)
  moreover have "{vd_action v, ''BLOCK''} \<subseteq> gate_actions" using assms(2) by (auto simp: gate_actions_def)
  ultimately show ?thesis using inv by (auto simp: answered_def dw_inv_def marked_def)
qed

lemma canceled_answered:
  "fresh v \<Longrightarrow> answered env (v\<lparr>vd_canceled := True, vd_action := a, vd_reason := re, vd_status := st\<rparr>)"
  by (simp add: answered_def fresh_def new_response_def final_lines_def)

lemma fresh_update [simp]:
  "fresh v \<Longrightarrow> fresh (v\<lparr>vd_error := e\<rparr>)" "fresh v \<Longrightarrow> fresh (v\<lparr>vd_retry := d\<rparr>)"
  "fresh v \<Longrightarrow> fresh (v\<lparr>vd_scope := sc\<rparr>)" "fresh v \<Longrightarrow> fresh (v\<lparr>vd_action := a\<rparr>)"
  "fresh v \<Longrightarrow> fresh (v\<lparr>vd_reason := re\<rparr>)" "fresh v \<Longrightarrow> fresh (v\<lparr>vd_score := n\<rparr>)"
  "fresh v \<Longrightarrow> fresh (v\<lparr>vd_matches := ms\<rparr>)" "fresh v \<Longrightarrow> fresh (v\<lparr>vd_body_inspected := b\<rparr>)"
  "fresh v \<Longrightarrow> fresh (v\<lparr>vd_body_truncated := b\<rparr>)" "fresh v \<Longrightarrow> fresh (v\<lparr>vd_match_limit := b\<rparr>)"
  by (simp_all add: fresh_def)

lemma in_gate_actions [simp]:
  "''ALLOW'' \<in> gate_actions" "''LOG'' \<in> gate_actions" "''BLOCK'' \<in> gate_actions"
  "''RATE_LIMIT'' \<in> gate_actions" "''OVERLOAD'' \<in> gate_actions" "''BANNED'' \<in> gate_actions"
  by (simp_all add: gate_actions_def)

lemma prep_failed_answered:
  "fresh v \<Longrightarrow> (\<And>r t. p \<noteq> Ready r t) \<Longrightarrow> answered env (snd (prep_failed env pol srv client p v s))"
  by (cases p) (auto simp: prep_failed_def refuse_answered canceled_answered)

lemma waf_stage_answered:
  assumes "fresh v" "vd_action v = ''ALLOW''" "\<And>r. list_all proper_op (next r)"
  shows "answered env (snd (waf_stage lib i next env pol srv client limited req v s))"
  using assms
  by (auto simp: waf_stage_def Let_def refuse_answered canceled_answered intro!: hand_on_answered
      split: prod.split sum.split)

lemma serve_admitted_answered:
  assumes "\<And>r. list_all proper_op (next r)"
  shows "answered env (snd (serve_admitted lib i next env pol srv route client req s))"
proof -
  have a: "vd_action start_verdict = ''ALLOW''" by (simp add: start_verdict_def)
  show ?thesis
    unfolding serve_admitted_def Let_def
    by (auto simp: refuse_answered a assms intro!: hand_on_answered waf_stage_answered prep_failed_answered
        split: option.split prod.split prep.split)
qed

text \<open>
  C3. The decision shown to the client cannot be forged by the protected handler. Whatever headers
  and statuses the handler writes, every status line the client receives carries the request
  identifier and score of the gateway and one of the gateway's own actions; at most one of them is
  final; and a request that was not handed on is answered with exactly one status line, whose status
  and action are those the gateway logs.
\<close>

theorem decision_marks_authentic:
  assumes "serve_http lib ll sha i table policies srv resolver next env req s = (s', v)"
    and "\<And>r. list_all proper_op (next r)"
  shows "(\<forall>l \<in> set (rp_sent (vd_response v)). marked (ge_request_id env) (vd_score v) gate_actions l)
    \<and> length (final_lines (vd_response v)) \<le> 1
    \<and> (vd_forwarded v = None \<and> \<not> vd_canceled v \<longrightarrow>
         (\<exists>h. rp_sent (vd_response v) = [(vd_status v, h)] \<and>
              marked (ge_request_id env) (vd_score v) {vd_action v} (vd_status v, h)))"
proof -
  obtain adm acq where a: "acquire (resolver_resolve resolver (gq_http req)) (sv_max_concurrent_requests srv)
      (sv_max_concurrent_per_client srv) (gs_admission s) = (adm, acq)" by fastforce
  have "answered env v"
  proof (cases acq)
    case (Inl why)
    let ?pol = "policies (route_of table req)" and ?client = "resolver_resolve resolver (gq_http req)"
    let ?r = "refuse env ?pol srv ?client (why = Client_Concurrency)
        (''OVERLOAD'', (if why = Client_Concurrency then ''client_concurrency'' else ''global_concurrency''), 503)
        ''server_busy'' (h_set ''Retry-After'' ''1'') (start_verdict\<lparr>vd_retry := second\<rparr>) (enter adm s)"
    obtain s1 v1 where r: "?r = (s1, v1)" by fastforce
    have "answered env (snd ?r)" by (rule refuse_answered) simp_all
    then have "answered env v1" by (simp only: r snd_conv)
    moreover have "v = v1" using assms(1) unfolding serve_http_unfold a Inl prod.case sum.case r by simp
    ultimately show ?thesis by simp
  next
    case (Inr tok)
    let ?r = "serve_admitted lib i next env (policies (route_of table req)) srv (route_of table req)
        (resolver_resolve resolver (gq_http req)) req (enter adm s)"
    obtain s1 v1 where r: "?r = (s1, v1)" by fastforce
    have "answered env (snd ?r)" by (rule serve_admitted_answered [OF assms(2)])
    then have "answered env v1" by (simp only: r snd_conv)
    moreover have "v = v1" using assms(1) unfolding serve_http_unfold a Inr prod.case sum.case r by simp
    ultimately show ?thesis by simp
  qed
  then show ?thesis by (simp add: answered_def)
qed

section \<open>Concrete runs\<close>

definition gate_demo_server :: server_config where
  "gate_demo_server = \<lparr>sv_mode = ''managed'', sv_listen_addr = '':8080'', sv_upstream_proxy_url = [],
     sv_read_header_timeout = second, sv_read_timeout = second, sv_write_timeout = second, sv_idle_timeout = second,
     sv_shutdown_timeout = second, sv_max_header_bytes = 4096, sv_max_request_body_bytes = 100,
     sv_max_concurrent_requests = 5, sv_max_concurrent_per_client = 2, sv_trusted_proxy_cidrs = [],
     sv_forwarded_for_header = ''X-Forwarded-For'', sv_preserve_host = True, sv_add_security_headers = True,
     sv_tls = \<lparr>tl_enabled = False, tl_cert_file = [], tl_key_file = []\<rparr>,
     sv_upstream_transport = \<lparr>tr_dial_timeout = 1, tr_tls_handshake_timeout = 1, tr_response_header_timeout = 1,
       tr_expect_continue_timeout = 1, tr_idle_conn_timeout = 1, tr_max_idle_conns = 1,
       tr_max_idle_conns_per_host = 1, tr_max_conns_per_host = 1, tr_max_response_header_bytes = 1\<rparr>\<rparr>"

definition gate_demo_env :: gate_env where
  "gate_demo_env = \<lparr>ge_request_id = ''id-1'', ge_now_ban = 1, ge_now_rate = 1, ge_now_violation = 1, ge_now_done = 2,
     ge_duration = 1, ge_security_duration = 1, ge_create_ok = True, ge_close_ok = True, ge_seek_ok = True,
     ge_canceled = False, ge_now_text = ''t'', ge_log_fails = (\<lambda>_. False)\<rparr>"

definition gate_demo_state :: gate_state where
  "gate_demo_state = \<lparr>gs_limiter = new_limiter, gs_bans = new_ban_manager, gs_admission = new_admission,
     gs_traffic = None, gs_metrics = new_registry 0, gs_log = None\<rparr>"

definition gate_demo_resolver :: gateway_resolver where
  "gate_demo_resolver = \<lparr>gr_trusted = [], gr_header = ''X-Forwarded-For''\<rparr>"

definition gate_demo_policies :: "string \<Rightarrow> policy" where
  "gate_demo_policies route = waf_demo_policy\<lparr>po_mode := ''off''\<rparr>"

text \<open>A protected handler that tries to forge the decision.\<close>

definition forging_handler :: "gate_request \<Rightarrow> dw_op list" where
  "forging_handler req = [Dw_Header (h_set ''X-Security-Action'' ''FORGED''), Dw_Write_Header 103, Dw_Write_Header 404, Dw_Write]"

definition gate_demo_run :: "gate_request \<Rightarrow> gate_state \<times> verdict" where
  "gate_demo_run req = serve_http waf_demo_lib \<lparr>ll_parse_time = (\<lambda>_. None), ll_marshal = (\<lambda>_. None)\<rparr> (\<lambda>v. v)
     waf_demo_inspector demo_routes gate_demo_policies gate_demo_server gate_demo_resolver forging_handler gate_demo_env
     req gate_demo_state"

theorem gateway_complete_mediation_witness:
  "vd_forwarded (snd (gate_demo_run (waf_demo_request ''/a''))) \<noteq> None"
proof -
  let ?req = "waf_demo_request ''/a''"
  let ?client = "resolver_resolve gate_demo_resolver (gq_http ?req)" and ?route = "route_of demo_routes ?req"
  have "slot_free gate_demo_server ?client (gs_admission gate_demo_state)
      \<and> mediated waf_demo_lib waf_demo_inspector gate_demo_env (gate_demo_policies ?route) gate_demo_server ?route ?client ?req
          gate_demo_state \<noteq> None"
    by code_simp
  then show ?thesis
    using gateway_complete_mediation [OF waf_demo_inspector_ok, of demo_routes ?req gate_demo_resolver waf_demo_lib _ "\<lambda>v. v"
        gate_demo_policies gate_demo_server forging_handler gate_demo_env gate_demo_state]
    by (simp add: gate_demo_run_def Let_def)
qed

theorem gateway_releases_and_records_witness:
  "\<exists>s' v. gate_demo_run (waf_demo_request ''/a'') = (s', v) \<and> am_global (gs_admission s') = 0 \<and>
     mr_inflight (gs_metrics s') = 0"
proof -
  obtain s' v where r: "gate_demo_run (waf_demo_request ''/a'') = (s', v)" by fastforce
  have "am_inv (gs_admission gate_demo_state)" by (simp add: gate_demo_state_def am_inv_def new_admission_def open_tokens_def open_of_def)
  from gateway_releases_and_records [OF this r [unfolded gate_demo_run_def]] r show ?thesis
    by (simp add: gate_demo_state_def new_admission_def new_registry_def)
qed

theorem decision_marks_authentic_witness:
  "\<exists>s' v. gate_demo_run (waf_demo_request ''/a'') = (s', v) \<and> length (final_lines (vd_response v)) \<le> 1 \<and>
     (\<forall>l \<in> set (rp_sent (vd_response v)). marked ''id-1'' (vd_score v) gate_actions l)"
proof -
  obtain s' v where r: "gate_demo_run (waf_demo_request ''/a'') = (s', v)" by fastforce
  have p: "list_all proper_op (forging_handler q)" for q by (simp add: forging_handler_def)
  show ?thesis using decision_marks_authentic [OF r [unfolded gate_demo_run_def] p] r
    by (simp add: gate_demo_env_def)
qed

end
