(* ===== verification/Edge_Response.thy ===== *)
theory Edge_Response
  imports Cache_Policy Upstream_Pool Url_Query
begin

text \<open>
  The pieces from which EdgeProxy's handler builds requests and responses, from
  \<^verbatim>\<open>apps/edgeproxy/internal/proxy/handler.go\<close> and \<^verbatim>\<open>capped_buffer.go\<close>: the request sent to an origin, the
  writer that records the client-facing outcome, copying a body, the bounded capture of a body for the
  cache, and serving a cached entry. The client connection is a parameter: \<open>out i p\<close> is what the
  \<open>i\<close>-th \<^verbatim>\<open>Write\<close> returns for the bytes \<open>p\<close>. The lemmas say what reaches the origin and when a
  captured body is complete.
\<close>

unbundle bit_operations_syntax

section \<open>Library functions and small helpers\<close>

text \<open>\<^verbatim>\<open>http.ParseTime\<close>, SHA-256, \<^verbatim>\<open>URL.String\<close> and the RFC 3339 parser of the access log.\<close>

record edge_lib =
  xl_parse_time :: "string \<Rightarrow> time option"
  xl_sha256 :: "string \<Rightarrow> string"
  xl_url_string :: "go_url \<Rightarrow> string"
  xl_parse_stamp :: "string \<Rightarrow> time option"

definition unsafe_method :: "string \<Rightarrow> bool" where
  "unsafe_method m \<longleftrightarrow> \<not> (m = ''GET'' \<or> m = ''HEAD'' \<or> m = ''OPTIONS'' \<or> m = ''TRACE'')"

definition retryable_status :: "int \<Rightarrow> bool" where
  "retryable_status st \<longleftrightarrow> st = 502 \<or> st = 503 \<or> st = 504"

definition max_int64_of :: "int \<Rightarrow> int \<Rightarrow> int" where
  "max_int64_of v minimum = (if v < minimum then minimum else v)"

definition saturating_add_uint64 :: "64 word \<Rightarrow> 64 word \<Rightarrow> 64 word" where
  "saturating_add_uint64 l r = (if NOT 0 - l < r then NOT 0 else l + r)"

definition duration_ms :: "duration \<Rightarrow> real" where
  "duration_ms d = (if d < 0 then 0 else real_of_int d / real_of_int millisecond)"

definition error_text :: "string option \<Rightarrow> string" where
  "error_text e = (case e of None \<Rightarrow> [] | Some t \<Rightarrow> t)"

text \<open>\<^verbatim>\<open>%.3f\<close> of the whole microseconds divided by 1000.\<close>

definition format_duration :: "duration \<Rightarrow> string" where
  "format_duration d =
     (let us = \<bar>d\<bar> div 1000; frac = us mod 1000
      in (if d < 0 \<and> us > 0 then ''-'' else []) @ itoa (us div 1000) @ ''.''
         @ (if frac < 10 then ''00'' else if frac < 100 then ''0'' else []) @ itoa frac @ ''ms'')"

definition sensitive_key :: "string \<Rightarrow> bool" where
  "sensitive_key key =
     list_ex (contains_str (to_lower key))
       [''token'', ''secret'', ''password'', ''passwd'', ''authorization'', ''api_key'', ''apikey'', ''signature'']"

definition sanitized_query :: "http_request \<Rightarrow> string" where
  "sanitized_query req =
     values_encode (gm_map (\<lambda>key vs. if sensitive_key key then [''[REDACTED]''] else vs) (url_query (rq_url req)))"

text \<open>An error of \<^verbatim>\<open>RoundTrip\<close>: its text, whether it is the deadline error, and \<^verbatim>\<open>net.Error.Timeout\<close>.\<close>

record transport_error =
  te_text :: string
  te_deadline :: bool
  te_net_timeout :: bool

definition is_timeout_error :: "transport_error option \<Rightarrow> bool" where
  "is_timeout_error e = (case e of None \<Rightarrow> False | Some t \<Rightarrow> te_deadline t \<or> te_net_timeout t)"

definition upgrade_error_text :: "upgrade_error \<Rightarrow> string" where
  "upgrade_error_text e =
     (case e of
        Upgrade_without_connection \<Rightarrow> ''Upgrade header requires Connection: upgrade''
      | Upgrade_count \<Rightarrow> ''protocol upgrade requires exactly one Upgrade header''
      | Upgrade_value \<Rightarrow> ''invalid protocol upgrade value'')"

section \<open>The request sent to an origin\<close>

datatype req_body = Nil_Body | No_Body | Body string

text \<open>\<^verbatim>\<open>GetBody\<close> is \<open>None\<close> when it is nil, otherwise its result.\<close>

record edge_request =
  eq_http :: http_request
  eq_tls :: bool
  eq_body :: req_body
  eq_get_body :: "(string + string) option"

record route_cfg =
  rc_pool :: pool_route
  rc_path_prefix :: string
  rc_strip_prefix :: bool
  rc_request_timeout :: duration
  rc_retry_count :: int
  rc_retry_backoff :: duration
  rc_cache :: cache_config
  rc_health_statuses :: "int list"

definition via_value :: string where "via_value = ''1.1 edgeproxy-go''"

definition outbound_headers :: "edge_request \<Rightarrow> string \<Rightarrow> string \<Rightarrow> string \<Rightarrow> header" where
  "outbound_headers req i ffh upgrade =
     (let http = eq_http req;
          h1 = remove_forwarding_identity_headers
                 (h_del internal_probe_header (remove_hop_by_hop (rq_header http))) ffh;
          h2 = h_set ''X-Forwarded-For'' (client_ip_of http) h1;
          h3 = h_set ''X-Forwarded-Proto'' (if eq_tls req then ''https'' else ''http'') h2;
          h4 = h_add ''Via'' via_value (h_set ''X-Request-ID'' i (h_set ''X-Forwarded-Host'' (rq_host http) h3))
      in if upgrade \<noteq> [] then h_set ''Upgrade'' upgrade (h_set ''Connection'' ''Upgrade'' h4) else h4)"

definition clone_request ::
  "edge_request \<Rightarrow> upstream \<Rightarrow> route_cfg \<Rightarrow> string \<Rightarrow> string \<Rightarrow> string + edge_request" where
  "clone_request req node cfg i ffh =
     (let http = eq_http req in
      case protocol_upgrade (rq_header http) of
        Inl e \<Rightarrow> Inl (upgrade_error_text e)
      | Inr upgrade \<Rightarrow>
          let out = req\<lparr>eq_http := http\<lparr>
                rq_url := rewrite_url (rq_url http) (us_url node) (rc_path_prefix cfg) (rc_strip_prefix cfg),
                rq_header := outbound_headers req i ffh upgrade,
                rq_host := (if pr_preserve_host (rc_pool cfg) then rq_host http else u_host (us_url node))\<rparr>\<rparr>
          in (case eq_get_body req of
                None \<Rightarrow> Inr out
              | Some gb \<Rightarrow>
                  if eq_body req = Nil_Body then Inr out
                  else (case gb of Inl e \<Rightarrow> Inl e | Inr b \<Rightarrow> Inr (out\<lparr>eq_body := Body b\<rparr>))))"

section \<open>The response writer\<close>

text \<open>
  \<^verbatim>\<open>responseCapture\<close> over the client connection: the header map, the status lines sent with their
  headers, the body bytes, the recorded status and byte count, the number of \<^verbatim>\<open>Write\<close> calls so far,
  and the header of a response written to a hijacked connection.
\<close>

record capture =
  cw_header :: header
  cw_sent :: "(int \<times> header) list"
  cw_body :: string
  cw_status :: int
  cw_bytes :: int
  cw_calls :: nat
  cw_raw :: "header option"

type_synonym client_out = "nat \<Rightarrow> string \<Rightarrow> nat \<times> string option"

definition new_capture :: "header \<Rightarrow> capture" where
  "new_capture h = \<lparr>cw_header = h, cw_sent = [], cw_body = [], cw_status = 0, cw_bytes = 0, cw_calls = 0,
     cw_raw = None\<rparr>"

definition capture_send :: "int \<Rightarrow> capture \<Rightarrow> capture" where
  "capture_send st w = w\<lparr>cw_sent := cw_sent w @ [(st, cw_header w)]\<rparr>"

definition capture_write_header :: "int \<Rightarrow> capture \<Rightarrow> capture" where
  "capture_write_header st w =
     (if st \<ge> 100 \<and> st < 200 \<and> st \<noteq> 101 then capture_send st w
      else if cw_status w \<noteq> 0 then w
      else capture_send st (w\<lparr>cw_status := st\<rparr>))"

text \<open>\<^verbatim>\<open>io.Copy\<close> and \<^verbatim>\<open>io.MultiWriter\<close> turn a short write into an error; a writer never reports more
  bytes than it was given.\<close>

definition capture_write :: "client_out \<Rightarrow> string \<Rightarrow> capture \<Rightarrow> string option \<times> capture" where
  "capture_write out p w0 =
     (let w = (if cw_status w0 = 0 then capture_write_header 200 w0 else w0);
          (n0, err) = out (cw_calls w) p;
          n = min n0 (length p)
      in (case err of Some e \<Rightarrow> Some e | None \<Rightarrow> if n < length p then Some ''short write'' else None,
          w\<lparr>cw_bytes := cw_bytes w + int n, cw_body := cw_body w @ take n p, cw_calls := Suc (cw_calls w)\<rparr>))"

definition capture_flush :: "capture \<Rightarrow> capture" where
  "capture_flush w = (if cw_status w = 0 then capture_write_header 200 w else w)"

definition mark_hijacked_status :: "int \<Rightarrow> capture \<Rightarrow> capture" where
  "mark_hijacked_status st w = (if cw_status w = 0 then w\<lparr>cw_status := st\<rparr> else w)"

definition upd_header :: "(header \<Rightarrow> header) \<Rightarrow> capture \<Rightarrow> capture" where
  "upd_header f w = w\<lparr>cw_header := f (cw_header w)\<rparr>"

text \<open>\<^verbatim>\<open>http.Error\<close>.\<close>

definition http_error :: "client_out \<Rightarrow> string \<Rightarrow> int \<Rightarrow> capture \<Rightarrow> capture" where
  "http_error out msg code w =
     snd (capture_write out (msg @ [CHR 0x0A])
       (capture_write_header code
         (upd_header (\<lambda>h. h_set ''X-Content-Type-Options'' ''nosniff''
            (h_set ''Content-Type'' ''text/plain; charset=utf-8'' (h_del ''Content-Length'' h))) w)))"

section \<open>Copying bodies\<close>

record capped_buffer =
  cb_buf :: string
  cb_max :: int
  cb_overflow :: bool

definition capped_write :: "string \<Rightarrow> capped_buffer \<Rightarrow> capped_buffer" where
  "capped_write p c =
     (if cb_overflow c then c
      else
        let remaining = cb_max c - int (length (cb_buf c)) in
        if remaining \<le> 0 then c\<lparr>cb_overflow := True\<rparr>
        else if int (length p) > remaining
          then c\<lparr>cb_buf := cb_buf c @ take (nat remaining) p, cb_overflow := True\<rparr>
        else c\<lparr>cb_buf := cb_buf c @ p\<rparr>)"

text \<open>
  \<^verbatim>\<open>io.Copy\<close>: the non-empty reads of the source in order, then its error (\<open>None\<close> at the end of the
  stream). It stops at the first write error.
\<close>

fun copy_body :: "(string \<Rightarrow> 'w \<Rightarrow> string option \<times> 'w) \<Rightarrow> string list \<Rightarrow> string option \<Rightarrow> 'w \<Rightarrow> string option \<times> 'w"
where
  "copy_body wr [] read_err w = (read_err, w)"
| "copy_body wr (p # ps) read_err w =
     (if p = [] then copy_body wr ps read_err w
      else (case wr p w of
              (Some e, w') \<Rightarrow> (Some e, w')
            | (None, w') \<Rightarrow> copy_body wr ps read_err w'))"

definition multi_write :: "client_out \<Rightarrow> string \<Rightarrow> capture \<times> capped_buffer \<Rightarrow> string option \<times> capture \<times> capped_buffer" where
  "multi_write out p wc =
     (case capture_write out p (fst wc) of
        (Some e, w) \<Rightarrow> (Some e, w, snd wc)
      | (None, w) \<Rightarrow> (None, w, capped_write p (snd wc)))"

section \<open>Cached responses\<close>

definition cached_headers :: "cache_entry \<Rightarrow> string \<Rightarrow> time \<Rightarrow> header \<Rightarrow> header" where
  "cached_headers entry st now h =
     (let age0 = time_sub now (ce_stored_at entry);
          age = (if age0 < 0 then 0 else age0 div second)
      in h_set ''Via'' via_value (h_set ''X-Cache'' st (h_set ''Age'' (itoa age)
           (copy_headers h (sanitize_origin_response_headers (remove_hop_by_hop (ce_header entry)))))))"

text \<open>\<open>client_err\<close> is the error of the request context when the entry is served.\<close>

definition serve_cache_entry ::
  "edge_lib \<Rightarrow> client_out \<Rightarrow> string option \<Rightarrow> http_request \<Rightarrow> cache_entry \<Rightarrow> string \<Rightarrow> time \<Rightarrow> capture
     \<Rightarrow> string option \<times> capture" where
  "serve_cache_entry lib out client_err req entry st now w0 =
     (case client_err of
        Some e \<Rightarrow> (Some e, w0)
      | None \<Rightarrow>
          let w = upd_header (cached_headers entry st now) w0 in
          if conditional_not_modified (xl_parse_time lib) req (ce_header entry) (ce_status entry)
          then (None, capture_write_header 304 (upd_header (h_del ''Content-Length'') w))
          else
            let w = capture_write_header (ce_status entry)
                      (upd_header (h_set ''Content-Length'' (itoa (int (length (ce_body entry))))) w)
            in if rq_method req \<noteq> ''HEAD'' then capture_write out (ce_body entry) w else (None, w))"

section \<open>Lemmas\<close>

text \<open>A captured body that did not overflow is everything that was written.\<close>

lemma capped_write_complete:
  "\<not> cb_overflow (capped_write p c) \<Longrightarrow> \<not> cb_overflow c \<and> cb_buf (capped_write p c) = cb_buf c @ p"
  by (auto simp: capped_write_def Let_def split: if_splits)

lemma multi_write_pair:
  "multi_write out p (w, c) =
     (case capture_write out p w of (Some e, w') \<Rightarrow> (Some e, w', c) | (None, w') \<Rightarrow> (None, w', capped_write p c))"
  by (simp add: multi_write_def split: prod.splits option.splits)

lemma copy_multi_complete:
  assumes "copy_body (multi_write out) ps re (w, c) = (None, w', c')" "\<not> cb_overflow c'"
  shows "re = None \<and> cb_buf c' = cb_buf c @ concat ps \<and> \<not> cb_overflow c"
  using assms(1)
proof (induction ps arbitrary: w c)
  case (Cons p ps)
  show ?case
  proof (cases "p = []")
    case True
    then show ?thesis using Cons by simp
  next
    case False
    with Cons.prems obtain w1 where w1: "capture_write out p w = (None, w1)"
      and run: "copy_body (multi_write out) ps re (w1, capped_write p c) = (None, w', c')"
      by (auto simp: multi_write_pair split: prod.splits option.splits)
    from Cons.IH [OF run] capped_write_complete [of p c] show ?thesis by simp
  qed
qed (use assms in auto)

lemma capped_write_max [simp]: "cb_max (capped_write p c) = cb_max c"
  by (simp add: capped_write_def Let_def)

lemma capped_write_bound:
  "int (length (cb_buf c)) \<le> max 0 (cb_max c) \<Longrightarrow> int (length (cb_buf (capped_write p c))) \<le> max 0 (cb_max c)"
  by (auto simp: capped_write_def Let_def)

lemma copy_multi_bound:
  assumes "copy_body (multi_write out) ps re (w, c) = (e, w', c')" "int (length (cb_buf c)) \<le> max 0 (cb_max c)"
  shows "int (length (cb_buf c')) \<le> max 0 (cb_max c)"
  using assms
proof (induction ps arbitrary: w c)
  case (Cons p ps)
  show ?case
  proof (cases "p = []")
    case True
    then show ?thesis using Cons by simp
  next
    case False
    show ?thesis
    proof (cases "capture_write out p w")
      case (Pair e1 w1)
      then show ?thesis
        using Cons.prems Cons.IH [of w1 "capped_write p c"] capped_write_bound [OF Cons.prems(2), of p] False
        by (auto simp: multi_write_pair split: option.splits)
    qed
  qed
qed simp

subsection \<open>Headers sent to an origin\<close>

definition canonical_names :: "header \<Rightarrow> bool" where
  "canonical_names h = list_all (\<lambda>kv. canonical_header_key (fst kv) = fst kv) h"

lemma canonical_names_del: "canonical_names h \<Longrightarrow> canonical_names (h_del k h)"
  by (auto simp: canonical_names_def list_all_iff h_del_def gm_del_def AList.delete_eq)

lemma canonical_names_del_all: "canonical_names h \<Longrightarrow> canonical_names (h_del_all ks h)"
  unfolding h_del_all_def by (induction ks arbitrary: h) (simp_all add: canonical_names_del)

text \<open>The names whose client-supplied values never reach an origin.\<close>

definition stripped_name :: "edge_request \<Rightarrow> string \<Rightarrow> string \<Rightarrow> bool" where
  "stripped_name req ffh k \<longleftrightarrow>
     k \<in> canonical_header_key ` (set hop_headers \<union> set (connection_tokens (rq_header (eq_http req)))) \<or>
     k = canonical_header_key internal_probe_header \<or> is_identity_header (trim_space ffh) k"

lemma outbound_headers_exact:
  assumes "canonical_names (rq_header (eq_http req))"
  shows "h_values (outbound_headers req i ffh up) k =
    (let ck = canonical_header_key k in
     if up \<noteq> [] \<and> ck = ''Upgrade'' then [up]
     else if up \<noteq> [] \<and> ck = ''Connection'' then [''Upgrade'']
     else if ck = ''X-Request-Id'' then [i]
     else if ck = ''X-Forwarded-Host'' then [rq_host (eq_http req)]
     else if ck = ''X-Forwarded-Proto'' then [if eq_tls req then ''https'' else ''http'']
     else if ck = ''X-Forwarded-For'' then [client_ip_of (eq_http req)]
     else (if stripped_name req ffh ck then [] else h_values (rq_header (eq_http req)) k)
          @ (if ck = ''Via'' then [via_value] else []))"
proof -
  have names: "canonical_header_key ''Upgrade'' = ''Upgrade''" "canonical_header_key ''Connection'' = ''Connection''"
    "canonical_header_key ''X-Request-ID'' = ''X-Request-Id''" "canonical_header_key ''X-Forwarded-Host'' = ''X-Forwarded-Host''"
    "canonical_header_key ''X-Forwarded-Proto'' = ''X-Forwarded-Proto''" "canonical_header_key ''X-Forwarded-For'' = ''X-Forwarded-For''"
    "canonical_header_key ''Via'' = ''Via''" by code_simp+
  let ?h0 = "h_del internal_probe_header (remove_hop_by_hop (rq_header (eq_http req)))"
  have "canonical_names ?h0"
    unfolding remove_hop_by_hop_def by (intro canonical_names_del canonical_names_del_all assms)
  then have kept: "h_values (remove_forwarding_identity_headers ?h0 ffh) j =
      (if stripped_name req ffh (canonical_header_key j) then [] else h_values (rq_header (eq_http req)) j)" for j
    using forwarding_identity_removed [of ?h0 ffh "canonical_header_key j"]
    by (auto simp: h_values_def h_del_def go_map_simps remove_hop_by_hop_def gm_get_del_all image_Un stripped_name_def
        canonical_names_def)
  show ?thesis
    unfolding outbound_headers_def Let_def by (simp add: header_simps names kept) (auto simp: h_values_def names)
qed

lemma clone_request_headers:
  assumes "clone_request req node cfg i ffh = Inr out"
  obtains up where "protocol_upgrade (rq_header (eq_http req)) = Inr up"
    "rq_header (eq_http out) = outbound_headers req i ffh up"
    "rq_url (eq_http out) = rewrite_url (rq_url (eq_http req)) (us_url node) (rc_path_prefix cfg) (rc_strip_prefix cfg)"
    "rq_method (eq_http out) = rq_method (eq_http req)"
  using assms that
  by (auto simp: clone_request_def Let_def split: sum.splits option.splits if_splits)

lemma identity_names_stripped:
  "list_all (\<lambda>k. is_identity_header (trim_space ffh) (canonical_header_key k) \<and>
     canonical_header_key k \<notin> set [''Upgrade'', ''Connection'', ''X-Request-Id'', ''X-Forwarded-Host'', ''X-Forwarded-Proto'',
       ''X-Forwarded-For'', ''Via'']) identity_headers"
proof -
  have "list_all (\<lambda>k. to_lower (canonical_header_key k) \<in> set identity_headers \<and>
     canonical_header_key k \<notin> set [''Upgrade'', ''Connection'', ''X-Request-Id'', ''X-Forwarded-Host'', ''X-Forwarded-Proto'',
       ''X-Forwarded-For'', ''Via'']) identity_headers" by code_simp
  then show ?thesis by (auto simp: list_all_iff is_identity_header_def)
qed

end
