(* ===== verification/Edge_Metrics.thy ===== *)
theory Edge_Metrics
  imports Gate_Metrics
begin

text \<open>
  The metrics registry of EdgeProxy, \<^verbatim>\<open>apps/edgeproxy/internal/metrics/metrics.go\<close>: counters in total,
  per route and per origin, latency histograms, and the snapshot of the admin interface. The helpers
  that the file shares word for word with the gateway's registry (\<open>metric_add\<close>, \<open>metric_method\<close>,
  \<open>update_max\<close>, \<open>bucket_index\<close>, \<open>percentile_loop\<close>) are those of \<open>Gate_Metrics\<close>. The callback that
  \<^verbatim>\<open>Begin\<close> returns is \<open>edge_finish\<close>. Each operation holds the snapshot lock in shared mode and only
  adds to atomic counters, so it is one step here; a \<^verbatim>\<open>compare-and-swap\<close> loop is its effect.
\<close>

section \<open>Histograms and counters\<close>

definition edge_latency_bounds :: "duration list" where
  "edge_latency_bounds = [1000000, 5000000, 10000000, 25000000, 50000000, 100000000, 250000000, 500000000,
     1000000000, 2500000000, 5000000000, 10000000000, 30000000000]"

record histogram =
  hg_count :: "64 word"
  hg_sum :: "64 word"
  hg_min :: "64 word"
  hg_max :: "64 word"
  hg_buckets :: "64 word list"

definition zero_histogram :: histogram where
  "zero_histogram = \<lparr>hg_count = 0, hg_sum = 0, hg_min = 0, hg_max = 0, hg_buckets = replicate 14 0\<rparr>"

text \<open>The minimum is stored plus one, so that zero means unset.\<close>

definition update_min :: "64 word \<Rightarrow> 64 word \<Rightarrow> 64 word" where
  "update_min old n = (if old \<noteq> 0 \<and> old \<le> n then old else n)"

definition hist_observe :: "duration \<Rightarrow> histogram \<Rightarrow> histogram" where
  "hist_observe d0 h =
     (let d = (if d0 < 0 then 0 else d0);
          ns = word_of_int d;
          i = bucket_index edge_latency_bounds d
      in h\<lparr>hg_count := hg_count h + 1, hg_sum := hg_sum h + ns, hg_min := update_min (hg_min h) (ns + 1),
           hg_max := update_max (hg_max h) ns, hg_buckets := (hg_buckets h)[i := hg_buckets h ! i + 1]\<rparr>)"

record edge_counters =
  ec_requests :: "64 word"
  ec_canceled :: "64 word"
  ec_success :: "64 word"
  ec_client_errors :: "64 word"
  ec_server_errors :: "64 word"
  ec_proxy_errors :: "64 word"
  ec_up_calls :: "64 word"
  ec_up_success :: "64 word"
  ec_up_failures :: "64 word"
  ec_up_canceled :: "64 word"
  ec_up_timeouts :: "64 word"
  ec_retries :: "64 word"
  ec_bytes_in :: "64 word"
  ec_bytes_out :: "64 word"
  ec_hits :: "64 word"
  ec_misses :: "64 word"
  ec_stale :: "64 word"
  ec_bypasses :: "64 word"
  ec_stores :: "64 word"
  ec_methods :: "(string, 64 word) gomap"
  ec_status_codes :: "(string, 64 word) gomap"
  ec_up_status_codes :: "(string, 64 word) gomap"
  ec_response_latency :: histogram
  ec_upstream_latency :: histogram

definition zero_edge_counters :: edge_counters where
  "zero_edge_counters = \<lparr>ec_requests = 0, ec_canceled = 0, ec_success = 0, ec_client_errors = 0,
     ec_server_errors = 0, ec_proxy_errors = 0, ec_up_calls = 0, ec_up_success = 0, ec_up_failures = 0,
     ec_up_canceled = 0, ec_up_timeouts = 0, ec_retries = 0, ec_bytes_in = 0, ec_bytes_out = 0, ec_hits = 0,
     ec_misses = 0, ec_stale = 0, ec_bypasses = 0, ec_stores = 0, ec_methods = [], ec_status_codes = [],
     ec_up_status_codes = [], ec_response_latency = zero_histogram, ec_upstream_latency = zero_histogram\<rparr>"

record upstream_counters =
  uc_calls :: "64 word"
  uc_success :: "64 word"
  uc_failures :: "64 word"
  uc_canceled :: "64 word"
  uc_timeouts :: "64 word"
  uc_retries :: "64 word"
  uc_status_codes :: "(string, 64 word) gomap"
  uc_latency :: histogram

definition zero_upstream_counters :: upstream_counters where
  "zero_upstream_counters = \<lparr>uc_calls = 0, uc_success = 0, uc_failures = 0, uc_canceled = 0, uc_timeouts = 0,
     uc_retries = 0, uc_status_codes = [], uc_latency = zero_histogram\<rparr>"

record route_metrics =
  rm_counters :: edge_counters
  rm_upstreams :: "(string, upstream_counters) gomap"

definition zero_route_metrics :: route_metrics where
  "zero_route_metrics = \<lparr>rm_counters = zero_edge_counters, rm_upstreams = []\<rparr>"

record edge_registry =
  em_started :: time
  em_inflight :: int
  em_total :: edge_counters
  em_routes :: "(string, route_metrics) gomap"
  em_upstreams :: "(string, upstream_counters) gomap"

definition new_edge_registry :: "time \<Rightarrow> edge_registry" where
  "new_edge_registry now = \<lparr>em_started = now, em_inflight = 0, em_total = zero_edge_counters,
     em_routes = [], em_upstreams = []\<rparr>"

record request_observation =
  ro_status :: int
  ro_canceled :: bool
  ro_bytes_in :: "64 word"
  ro_bytes_out :: "64 word"
  ro_duration :: duration
  ro_proxy_error :: bool
  ro_retries :: "64 word"
  ro_cache_status :: string

record upstream_observation =
  uo_status :: int
  uo_duration :: duration
  uo_failed :: bool
  uo_canceled :: bool
  uo_timeout :: bool
  uo_retry :: bool

section \<open>Operations\<close>

text \<open>\<^verbatim>\<open>Registry.route\<close> creates the entry of a new route; \<open>upd_route\<close> applies an update to it.\<close>

definition registry_route :: "string \<Rightarrow> edge_registry \<Rightarrow> route_metrics" where
  "registry_route name r = (case gm_get (em_routes r) name of None \<Rightarrow> zero_route_metrics | Some m \<Rightarrow> m)"

definition upd_route :: "string \<Rightarrow> (route_metrics \<Rightarrow> route_metrics) \<Rightarrow> edge_registry \<Rightarrow> edge_registry" where
  "upd_route name f r = r\<lparr>em_routes := gm_put name (f (registry_route name r)) (em_routes r)\<rparr>"

definition upd_both :: "string \<Rightarrow> (edge_counters \<Rightarrow> edge_counters) \<Rightarrow> edge_registry \<Rightarrow> edge_registry" where
  "upd_both route f r =
     upd_route route (\<lambda>m. m\<lparr>rm_counters := f (rm_counters m)\<rparr>) (r\<lparr>em_total := f (em_total r)\<rparr>)"

definition count_begin :: "string \<Rightarrow> edge_counters \<Rightarrow> edge_counters" where
  "count_begin method c =
     c\<lparr>ec_requests := ec_requests c + 1, ec_methods := metric_add (metric_method method) 1 (ec_methods c)\<rparr>"

definition edge_begin :: "string \<Rightarrow> string \<Rightarrow> edge_registry \<Rightarrow> edge_registry" where
  "edge_begin route method r =
     upd_both route (count_begin method) (r\<lparr>em_inflight := em_inflight r + 1\<rparr>)"

definition bump_if :: "bool \<Rightarrow> 64 word \<Rightarrow> 64 word" where
  "bump_if b w = (if b then w + 1 else w)"

definition count_finish :: "request_observation \<Rightarrow> edge_counters \<Rightarrow> edge_counters" where
  "count_finish ob c0 =
     (let cs = ro_cache_status ob;
          c = c0\<lparr>ec_bytes_in := ec_bytes_in c0 + ro_bytes_in ob,
                 ec_bytes_out := ec_bytes_out c0 + ro_bytes_out ob,
                 ec_retries := ec_retries c0 + ro_retries ob,
                 ec_hits := bump_if (cs = ''HIT'') (ec_hits c0),
                 ec_misses := bump_if (cs = ''MISS'') (ec_misses c0),
                 ec_stale := bump_if (cs = ''STALE'') (ec_stale c0),
                 ec_bypasses := bump_if (cs = ''BYPASS'') (ec_bypasses c0)\<rparr>;
          st = ro_status ob;
          ok = (st = 101 \<or> 200 \<le> st \<and> st < 400)
      in if ro_canceled ob then c\<lparr>ec_canceled := ec_canceled c + 1\<rparr>
         else c\<lparr>ec_response_latency := hist_observe (ro_duration ob) (ec_response_latency c),
                ec_proxy_errors := bump_if (ro_proxy_error ob) (ec_proxy_errors c),
                ec_status_codes := metric_add (itoa st) 1 (ec_status_codes c),
                ec_success := bump_if ok (ec_success c),
                ec_client_errors := bump_if (\<not> ok \<and> 400 \<le> st \<and> st < 500) (ec_client_errors c),
                ec_server_errors := bump_if (\<not> ok \<and> \<not> (400 \<le> st \<and> st < 500) \<and> st \<ge> 500) (ec_server_errors c)\<rparr>)"

definition edge_finish :: "string \<Rightarrow> request_observation \<Rightarrow> edge_registry \<Rightarrow> edge_registry" where
  "edge_finish route ob r =
     (let r' = upd_both route (count_finish ob) r in r'\<lparr>em_inflight := em_inflight r' - 1\<rparr>)"

definition count_upstream :: "upstream_observation \<Rightarrow> edge_counters \<Rightarrow> edge_counters" where
  "count_upstream ob c0 =
     (let c = c0\<lparr>ec_up_calls := ec_up_calls c0 + 1\<rparr> in
      if uo_canceled ob then c\<lparr>ec_up_canceled := ec_up_canceled c + 1\<rparr>
      else c\<lparr>ec_upstream_latency := hist_observe (uo_duration ob) (ec_upstream_latency c),
             ec_up_status_codes := (if uo_status ob > 0 then metric_add (itoa (uo_status ob)) 1 (ec_up_status_codes c)
                                    else ec_up_status_codes c),
             ec_up_failures := bump_if (uo_failed ob) (ec_up_failures c),
             ec_up_success := bump_if (\<not> uo_failed ob) (ec_up_success c),
             ec_up_timeouts := bump_if (uo_timeout ob) (ec_up_timeouts c)\<rparr>)"

definition count_origin :: "upstream_observation \<Rightarrow> upstream_counters \<Rightarrow> upstream_counters" where
  "count_origin ob c0 =
     (let c = c0\<lparr>uc_calls := uc_calls c0 + 1, uc_retries := bump_if (uo_retry ob) (uc_retries c0)\<rparr> in
      if uo_canceled ob then c\<lparr>uc_canceled := uc_canceled c + 1\<rparr>
      else c\<lparr>uc_latency := hist_observe (uo_duration ob) (uc_latency c),
             uc_status_codes := (if uo_status ob > 0 then metric_add (itoa (uo_status ob)) 1 (uc_status_codes c)
                                 else uc_status_codes c),
             uc_failures := bump_if (uo_failed ob) (uc_failures c),
             uc_success := bump_if (\<not> uo_failed ob) (uc_success c),
             uc_timeouts := bump_if (uo_timeout ob) (uc_timeouts c)\<rparr>)"

definition upd_origin ::
  "string \<Rightarrow> (upstream_counters \<Rightarrow> upstream_counters) \<Rightarrow> (string, upstream_counters) gomap
     \<Rightarrow> (string, upstream_counters) gomap" where
  "upd_origin name f m =
     gm_put name (f (case gm_get m name of None \<Rightarrow> zero_upstream_counters | Some c \<Rightarrow> c)) m"

definition record_upstream :: "string \<Rightarrow> string \<Rightarrow> upstream_observation \<Rightarrow> edge_registry \<Rightarrow> edge_registry" where
  "record_upstream route origin ob r =
     (let r1 = upd_both route (count_upstream ob) r;
          r2 = r1\<lparr>em_upstreams := upd_origin origin (count_origin ob) (em_upstreams r1)\<rparr>
      in upd_route route (\<lambda>m. m\<lparr>rm_upstreams := upd_origin origin (count_origin ob) (rm_upstreams m)\<rparr>) r2)"

definition record_cache_store :: "string \<Rightarrow> edge_registry \<Rightarrow> edge_registry" where
  "record_cache_store route r = upd_both route (\<lambda>c. c\<lparr>ec_stores := ec_stores c + 1\<rparr>) r"

section \<open>Snapshots\<close>

record edge_latency_snapshot =
  el_count :: "64 word"
  el_average :: real
  el_minimum :: real
  el_maximum :: real
  el_p50 :: real
  el_p95 :: real
  el_p99 :: real
  el_distribution :: "(real option \<times> 64 word \<times> 64 word) list"

fun distribution_from :: "duration list \<Rightarrow> 64 word \<Rightarrow> 64 word list \<Rightarrow> (real option \<times> 64 word \<times> 64 word) list" where
  "distribution_from bounds cumulative [] = []"
| "distribution_from bounds cumulative (b # bs) =
     ((case bounds of [] \<Rightarrow> None | d # _ \<Rightarrow> Some (in_ms d)), b, cumulative + b)
     # distribution_from (tl bounds) (cumulative + b) bs"

definition percentile_upper_bound :: "64 word list \<Rightarrow> 64 word \<Rightarrow> real \<Rightarrow> real \<Rightarrow> real" where
  "percentile_upper_bound buckets n q maximum =
     (if n = 0 then 0
      else let t = word_of_int \<lfloor>real_of_word n * q + 999999999 / 1000000000\<rfloor>
           in percentile_loop buckets edge_latency_bounds 0 (if t = 0 then 1 else t) maximum)"

definition hist_snapshot :: "histogram \<Rightarrow> edge_latency_snapshot" where
  "hist_snapshot h =
     (let n = hg_count h; mx = in_ms (uint (hg_max h)) in
      if n = 0 then \<lparr>el_count = 0, el_average = 0, el_minimum = 0, el_maximum = 0, el_p50 = 0, el_p95 = 0,
                     el_p99 = 0, el_distribution = []\<rparr>
      else \<lparr>el_count = n, el_average = in_ms (uint (hg_sum h div n)), el_minimum = in_ms (uint (hg_min h - 1)),
            el_maximum = mx, el_p50 = percentile_upper_bound (hg_buckets h) n (50 / 100) mx,
            el_p95 = percentile_upper_bound (hg_buckets h) n (95 / 100) mx,
            el_p99 = percentile_upper_bound (hg_buckets h) n (99 / 100) mx,
            el_distribution = distribution_from edge_latency_bounds 0 (hg_buckets h)\<rparr>)"

record edge_counter_snapshot =
  es_counters :: edge_counters
  es_success_rate :: real
  es_error_rate :: real
  es_hit_ratio :: real
  es_response_latency :: edge_latency_snapshot
  es_upstream_latency :: edge_latency_snapshot

record upstream_snapshot =
  ups_counters :: upstream_counters
  ups_success_rate :: real
  ups_error_rate :: real
  ups_latency :: edge_latency_snapshot

definition ratio_of :: "64 word \<Rightarrow> 64 word \<Rightarrow> real" where
  "ratio_of a n = (if n > 0 then real_of_word a / real_of_word n else 0)"

text \<open>The totals of a snapshot: the counters themselves (with sorted maps) and the derived values.\<close>

definition snapshot_counters :: "edge_counters \<Rightarrow> edge_counter_snapshot" where
  "snapshot_counters c =
     (let n = ec_success c + ec_client_errors c + ec_server_errors c in
      \<lparr>es_counters = c\<lparr>ec_methods := snapshot_map (ec_methods c),
                       ec_status_codes := snapshot_map (ec_status_codes c),
                       ec_up_status_codes := snapshot_map (ec_up_status_codes c)\<rparr>,
       es_success_rate = ratio_of (ec_success c) n,
       es_error_rate = ratio_of (ec_client_errors c + ec_server_errors c) n,
       es_hit_ratio = ratio_of (ec_hits c) (ec_hits c + ec_misses c),
       es_response_latency = hist_snapshot (ec_response_latency c),
       es_upstream_latency = hist_snapshot (ec_upstream_latency c)\<rparr>)"

definition snapshot_upstream :: "upstream_counters \<Rightarrow> upstream_snapshot" where
  "snapshot_upstream c =
     \<lparr>ups_counters = c\<lparr>uc_status_codes := snapshot_map (uc_status_codes c)\<rparr>,
      ups_success_rate = ratio_of (uc_success c) (uc_success c + uc_failures c),
      ups_error_rate = ratio_of (uc_failures c) (uc_success c + uc_failures c),
      ups_latency = hist_snapshot (uc_latency c)\<rparr>"

record edge_snapshot =
  sn_uptime_seconds :: int
  sn_inflight :: int
  sn_requests_per_second :: real
  sn_total :: edge_counter_snapshot
  sn_upstreams :: "(string, upstream_snapshot) gomap"
  sn_routes :: "(string, edge_counter_snapshot \<times> (string, upstream_snapshot) gomap) gomap"

definition snapshot_upstream_map :: "(string, upstream_counters) gomap \<Rightarrow> (string, upstream_snapshot) gomap" where
  "snapshot_upstream_map m = gm_map (\<lambda>_. snapshot_upstream) m"

definition edge_snapshot_of :: "time \<Rightarrow> edge_registry \<Rightarrow> edge_snapshot" where
  "edge_snapshot_of now r =
     (let up = time_sub now (em_started r) in
      \<lparr>sn_uptime_seconds = (if up < 0 then - (- up div second) else up div second),
       sn_inflight = em_inflight r,
       sn_requests_per_second =
         (if up > 0 then real_of_word (ec_requests (em_total r)) / (real_of_int up / real_of_int second) else 0),
       sn_total = snapshot_counters (em_total r),
       sn_upstreams = snapshot_upstream_map (em_upstreams r),
       sn_routes = gm_map (\<lambda>_ m. (snapshot_counters (rm_counters m), snapshot_upstream_map (rm_upstreams m)))
         (em_routes r)\<rparr>)"

section \<open>Accounting\<close>

text \<open>The calls the proxy makes on its registry, in the order of their effect.\<close>

datatype metric_event =
    Ev_Begin string string
  | Ev_Finish string request_observation
  | Ev_Upstream string string upstream_observation
  | Ev_Store string

fun metric_step :: "edge_registry \<Rightarrow> metric_event \<Rightarrow> edge_registry" where
  "metric_step r (Ev_Begin route method) = edge_begin route method r"
| "metric_step r (Ev_Finish route ob) = edge_finish route ob r"
| "metric_step r (Ev_Upstream route origin ob) = record_upstream route origin ob r"
| "metric_step r (Ev_Store route) = record_cache_store route r"

definition metric_run :: "time \<Rightarrow> metric_event list \<Rightarrow> edge_registry" where
  "metric_run t evs = foldl metric_step (new_edge_registry t) evs"

fun ev_route :: "metric_event \<Rightarrow> string" where
  "ev_route (Ev_Begin route _) = route"
| "ev_route (Ev_Finish route _) = route"
| "ev_route (Ev_Upstream route _ _) = route"
| "ev_route (Ev_Store route) = route"

fun ev_origin :: "string \<Rightarrow> metric_event \<Rightarrow> bool" where
  "ev_origin o' (Ev_Upstream _ origin _) = (origin = o')"
| "ev_origin o' _ = False"

text \<open>What one event means for a set of counters, and for the counters of an origin.\<close>

fun counter_step :: "edge_counters \<Rightarrow> metric_event \<Rightarrow> edge_counters" where
  "counter_step c (Ev_Begin _ method) = count_begin method c"
| "counter_step c (Ev_Finish _ ob) = count_finish ob c"
| "counter_step c (Ev_Upstream _ _ ob) = count_upstream ob c"
| "counter_step c (Ev_Store _) = c\<lparr>ec_stores := ec_stores c + 1\<rparr>"

fun origin_step :: "upstream_counters \<Rightarrow> metric_event \<Rightarrow> upstream_counters" where
  "origin_step c (Ev_Upstream _ _ ob) = count_origin ob c"
| "origin_step c _ = c"

definition origin_of :: "string \<Rightarrow> (string, upstream_counters) gomap \<Rightarrow> upstream_counters" where
  "origin_of name m = (case gm_get m name of None \<Rightarrow> zero_upstream_counters | Some c \<Rightarrow> c)"

lemmas registry_defs = edge_begin_def edge_finish_def record_upstream_def record_cache_store_def upd_both_def
  upd_route_def registry_route_def upd_origin_def origin_of_def Let_def go_map_simps

lemma metric_step_total: "em_total (metric_step r e) = counter_step (em_total r) e"
  by (cases e) (simp_all add: registry_defs)

lemma metric_step_route:
  "rm_counters (registry_route n (metric_step r e)) =
     (if ev_route e = n then counter_step (rm_counters (registry_route n r)) e
      else rm_counters (registry_route n r))"
  by (cases e) (simp_all add: registry_defs)

lemma metric_step_origin:
  "origin_of u (em_upstreams (metric_step r e)) =
     (if ev_origin u e then origin_step (origin_of u (em_upstreams r)) e else origin_of u (em_upstreams r))"
  by (cases e) (simp_all add: registry_defs)

lemma metric_step_route_origin:
  "origin_of u (rm_upstreams (registry_route n (metric_step r e))) =
     (if ev_route e = n \<and> ev_origin u e then origin_step (origin_of u (rm_upstreams (registry_route n r))) e
      else origin_of u (rm_upstreams (registry_route n r)))"
  by (cases e) (simp_all add: registry_defs zero_route_metrics_def)

text \<open>A projection of a run whose step depends on a selection of the events.\<close>

lemma foldl_select:
  assumes "\<And>r e. f (step r e) = (if P e then g (f r) e else f r)"
  shows "f (foldl step r es) = foldl g (f r) (filter P es)"
  by (induction es arbitrary: r) (simp_all add: assms)

lemma metric_run_projections:
  "em_total (metric_run t evs) = foldl counter_step zero_edge_counters evs"
  "rm_counters (registry_route n (metric_run t evs)) =
     foldl counter_step zero_edge_counters (filter (\<lambda>e. ev_route e = n) evs)"
  "origin_of u (em_upstreams (metric_run t evs)) =
     foldl origin_step zero_upstream_counters (filter (ev_origin u) evs)"
  "origin_of u (rm_upstreams (registry_route n (metric_run t evs))) =
     foldl origin_step zero_upstream_counters (filter (\<lambda>e. ev_route e = n \<and> ev_origin u e) evs)"
proof -
  show "em_total (metric_run t evs) = foldl counter_step zero_edge_counters evs"
    using foldl_select [of em_total metric_step "\<lambda>_. True" counter_step "new_edge_registry t" evs]
    by (simp add: metric_step_total metric_run_def new_edge_registry_def)
  show "rm_counters (registry_route n (metric_run t evs)) =
      foldl counter_step zero_edge_counters (filter (\<lambda>e. ev_route e = n) evs)"
    unfolding metric_run_def
    by (subst foldl_select [of "\<lambda>r. rm_counters (registry_route n r)", OF metric_step_route])
      (simp add: registry_route_def new_edge_registry_def zero_route_metrics_def gm_get_def)
  show "origin_of u (em_upstreams (metric_run t evs)) =
      foldl origin_step zero_upstream_counters (filter (ev_origin u) evs)"
    unfolding metric_run_def
    by (subst foldl_select [of "\<lambda>r. origin_of u (em_upstreams r)", OF metric_step_origin])
      (simp add: origin_of_def new_edge_registry_def gm_get_def)
  show "origin_of u (rm_upstreams (registry_route n (metric_run t evs))) =
      foldl origin_step zero_upstream_counters (filter (\<lambda>e. ev_route e = n \<and> ev_origin u e) evs)"
    unfolding metric_run_def
    by (subst foldl_select [of "\<lambda>r. origin_of u (rm_upstreams (registry_route n r))", OF metric_step_route_origin])
      (simp add: origin_of_def registry_route_def new_edge_registry_def zero_route_metrics_def gm_get_def)
qed

subsection \<open>Additive counters\<close>

lemmas count_defs = count_begin_def count_finish_def count_upstream_def count_origin_def bump_if_def Let_def

lemma sum_list_by_key:
  fixes w :: "'e \<Rightarrow> 64 word"
  assumes "distinct ks" "key ` set es \<subseteq> set ks"
  shows "(\<Sum>k \<leftarrow> ks. \<Sum>e \<leftarrow> filter (\<lambda>e. key e = k) es. w e) = (\<Sum>e \<leftarrow> es. w e)"
  using assms(2)
proof (induction es)
  case (Cons e es)
  have "(\<Sum>k \<leftarrow> ks. \<Sum>x \<leftarrow> filter (\<lambda>x. key x = k) (e # es). w x) =
      (\<Sum>k \<leftarrow> ks. (if key e = k then w e else 0) + (\<Sum>x \<leftarrow> filter (\<lambda>x. key x = k) es. w x))"
    by (intro arg_cong [of _ _ sum_list] map_cong) auto
  also have "\<dots> = (\<Sum>k \<leftarrow> ks. if key e = k then w e else 0) + (\<Sum>e \<leftarrow> es. w e)"
    using Cons by (simp add: sum_list_addf)
  also have "(\<Sum>k \<leftarrow> ks. if key e = k then w e else 0) = w e"
    using assms(1) Cons.prems by (simp add: sum_list_distinct_conv_sum_set sum.delta')
  finally show ?case by simp
qed simp

subsection \<open>Outcomes\<close>

fun finished_as :: "(request_observation \<Rightarrow> bool) \<Rightarrow> metric_event \<Rightarrow> bool" where
  "finished_as P (Ev_Finish _ ob) = P ob"
| "finished_as P _ = False"

fun is_begin :: "metric_event \<Rightarrow> bool" where
  "is_begin (Ev_Begin _ _) = True"
| "is_begin _ = False"

definition ended_ok :: "request_observation \<Rightarrow> bool" where
  "ended_ok ob \<longleftrightarrow> \<not> ro_canceled ob \<and> (ro_status ob = 101 \<or> 200 \<le> ro_status ob \<and> ro_status ob < 400)"

definition ended_between :: "int \<Rightarrow> int \<Rightarrow> request_observation \<Rightarrow> bool" where
  "ended_between a b ob \<longleftrightarrow> \<not> ro_canceled ob \<and> a \<le> ro_status ob \<and> ro_status ob < b"

lemma origin_balance:
  assumes "uc_calls c = uc_success c + uc_failures c + uc_canceled c"
  shows "uc_calls (foldl origin_step c es) = uc_success (foldl origin_step c es)
    + uc_failures (foldl origin_step c es) + uc_canceled (foldl origin_step c es)"
  using assms
proof (induction es arbitrary: c)
  case (Cons e es)
  have "uc_calls (origin_step c e) = uc_success (origin_step c e) + uc_failures (origin_step c e) + uc_canceled (origin_step c e)"
    using Cons.prems by (cases e) (simp_all add: count_defs)
  then show ?case using Cons.IH by simp
qed simp

lemma call_balance:
  assumes "ec_up_calls c = ec_up_success c + ec_up_failures c + ec_up_canceled c"
  shows "ec_up_calls (foldl counter_step c es) = ec_up_success (foldl counter_step c es)
    + ec_up_failures (foldl counter_step c es) + ec_up_canceled (foldl counter_step c es)"
  using assms
proof (induction es arbitrary: c)
  case (Cons e es)
  have "ec_up_calls (counter_step c e) = ec_up_success (counter_step c e) + ec_up_failures (counter_step c e) + ec_up_canceled (counter_step c e)"
    using Cons.prems by (cases e) (simp_all add: count_defs)
  then show ?case using Cons.IH by simp
qed simp

lemma inflight_run:
  "em_inflight (metric_run t evs) =
     int (length (filter is_begin evs)) - int (length (filter (finished_as (\<lambda>_. True)) evs))"
proof -
  have "em_inflight (foldl metric_step r evs) = em_inflight r
      + int (length (filter is_begin evs)) - int (length (filter (finished_as (\<lambda>_. True)) evs))" for r
  proof (induction evs arbitrary: r)
    case (Cons e evs)
    have "em_inflight (metric_step r e) = em_inflight r + (if is_begin e then 1 else 0)
        - (if finished_as (\<lambda>_. True) e then 1 else 0)"
      by (cases e) (simp_all add: registry_defs)
    then show ?case using Cons.IH by simp
  qed simp
  from this [of "new_edge_registry t"] show ?thesis by (simp add: metric_run_def new_edge_registry_def)
qed

subsection \<open>What each counter is meant to count\<close>

fun on_begin :: "metric_event \<Rightarrow> 64 word" where
  "on_begin (Ev_Begin _ _) = 1"
| "on_begin _ = 0"

fun on_finish :: "(request_observation \<Rightarrow> 64 word) \<Rightarrow> metric_event \<Rightarrow> 64 word" where
  "on_finish w (Ev_Finish _ ob) = w ob"
| "on_finish w _ = 0"

fun on_call :: "(upstream_observation \<Rightarrow> 64 word) \<Rightarrow> metric_event \<Rightarrow> 64 word" where
  "on_call w (Ev_Upstream _ _ ob) = w ob"
| "on_call w _ = 0"

fun on_store :: "metric_event \<Rightarrow> 64 word" where
  "on_store (Ev_Store _) = 1"
| "on_store _ = 0"

text \<open>A cancelled request keeps its bytes, retries and cache status but is no outcome; a cancelled call is a call and nothing else.\<close>

definition request_accounts :: "((edge_counters \<Rightarrow> 64 word) \<times> (metric_event \<Rightarrow> 64 word)) list" where
  "request_accounts =
     [(ec_requests, on_begin),
      (ec_bytes_in, on_finish ro_bytes_in),
      (ec_bytes_out, on_finish ro_bytes_out),
      (ec_retries, on_finish ro_retries),
      (ec_hits, on_finish (\<lambda>ob. of_bool (ro_cache_status ob = ''HIT''))),
      (ec_misses, on_finish (\<lambda>ob. of_bool (ro_cache_status ob = ''MISS''))),
      (ec_stale, on_finish (\<lambda>ob. of_bool (ro_cache_status ob = ''STALE''))),
      (ec_bypasses, on_finish (\<lambda>ob. of_bool (ro_cache_status ob = ''BYPASS''))),
      (ec_canceled, on_finish (\<lambda>ob. of_bool (ro_canceled ob))),
      (ec_success, on_finish (\<lambda>ob. of_bool (ended_ok ob))),
      (ec_client_errors, on_finish (\<lambda>ob. of_bool (ended_between 400 500 ob))),
      (ec_server_errors, on_finish (\<lambda>ob. of_bool (\<not> ro_canceled ob \<and> 500 \<le> ro_status ob))),
      (ec_proxy_errors, on_finish (\<lambda>ob. of_bool (\<not> ro_canceled ob \<and> ro_proxy_error ob))),
      (ec_up_calls, on_call (\<lambda>_. 1)),
      (ec_up_canceled, on_call (\<lambda>ob. of_bool (uo_canceled ob))),
      (ec_up_success, on_call (\<lambda>ob. of_bool (\<not> uo_canceled ob \<and> \<not> uo_failed ob))),
      (ec_up_failures, on_call (\<lambda>ob. of_bool (\<not> uo_canceled ob \<and> uo_failed ob))),
      (ec_up_timeouts, on_call (\<lambda>ob. of_bool (\<not> uo_canceled ob \<and> uo_timeout ob))),
      (ec_stores, on_store)]"

definition origin_accounts :: "((upstream_counters \<Rightarrow> 64 word) \<times> (upstream_observation \<Rightarrow> 64 word)) list" where
  "origin_accounts =
     [(uc_calls, \<lambda>_. 1),
      (uc_canceled, \<lambda>ob. of_bool (uo_canceled ob)),
      (uc_success, \<lambda>ob. of_bool (\<not> uo_canceled ob \<and> \<not> uo_failed ob)),
      (uc_failures, \<lambda>ob. of_bool (\<not> uo_canceled ob \<and> uo_failed ob)),
      (uc_timeouts, \<lambda>ob. of_bool (\<not> uo_canceled ob \<and> uo_timeout ob)),
      (uc_retries, \<lambda>ob. of_bool (uo_retry ob))]"

lemma foldl_account:
  fixes f :: "'c \<Rightarrow> 64 word"
  assumes "\<And>c e. f (step c e) = f c + w e"
  shows "f (foldl step c es) = f c + (\<Sum>e \<leftarrow> es. w e)"
  by (induction es arbitrary: c) (simp_all add: assms add.assoc)

lemma request_account_step:
  assumes "(f, w) \<in> set request_accounts"
  shows "f (counter_step c e) = f c + w e"
proof -
  have "list_all (\<lambda>(f, w). f (counter_step c e) = f c + w e) request_accounts"
    by (cases e) (simp_all add: request_accounts_def count_defs ended_ok_def ended_between_def)
  with assms show ?thesis unfolding list_all_iff by blast
qed

lemma origin_account_step:
  assumes "(f, w) \<in> set origin_accounts"
  shows "f (origin_step c e) = f c + on_call w e"
proof -
  have "list_all (\<lambda>(f, w). f (origin_step c e) = f c + on_call w e) origin_accounts"
    by (cases e) (simp_all add: origin_accounts_def count_defs)
  with assms show ?thesis unfolding list_all_iff by blast
qed

lemma accounts_start:
  "(f, w) \<in> set request_accounts \<Longrightarrow> f zero_edge_counters = 0"
  "(g, v) \<in> set origin_accounts \<Longrightarrow> g zero_upstream_counters = 0"
proof -
  have "list_all (\<lambda>(f, w). f zero_edge_counters = 0) request_accounts" "list_all (\<lambda>(g, v). g zero_upstream_counters = 0) origin_accounts"
    by (simp_all add: request_accounts_def origin_accounts_def zero_edge_counters_def zero_upstream_counters_def)
  then show "(f, w) \<in> set request_accounts \<Longrightarrow> f zero_edge_counters = 0"
    "(g, v) \<in> set origin_accounts \<Longrightarrow> g zero_upstream_counters = 0" unfolding list_all_iff by blast+
qed

lemma request_account:
  assumes "(f, w) \<in> set request_accounts"
  shows "f (em_total (metric_run t evs)) = (\<Sum>e \<leftarrow> evs. w e)"
    "f (rm_counters (registry_route n (metric_run t evs))) = (\<Sum>e \<leftarrow> filter (\<lambda>e. ev_route e = n) evs. w e)"
  unfolding metric_run_projections
  by (simp_all add: foldl_account [of f counter_step w, OF request_account_step [OF assms]] accounts_start(1) [OF assms])

lemma origin_account:
  assumes "(f, w) \<in> set origin_accounts"
  shows "f (origin_of u (em_upstreams (metric_run t evs))) = (\<Sum>e \<leftarrow> filter (ev_origin u) evs. on_call w e)"
    "f (origin_of u (rm_upstreams (registry_route n (metric_run t evs)))) =
       (\<Sum>e \<leftarrow> filter (\<lambda>e. ev_route e = n \<and> ev_origin u e) evs. on_call w e)"
  unfolding metric_run_projections
  by (simp_all add: foldl_account [of f origin_step "on_call w", OF origin_account_step [OF assms]] accounts_start(2) [OF assms])

lemma request_account_routes:
  assumes "(f, w) \<in> set request_accounts"
  shows "f (em_total (metric_run t evs)) =
    (\<Sum>n \<leftarrow> remdups (map ev_route evs). f (rm_counters (registry_route n (metric_run t evs))))"
  unfolding request_account [OF assms] by (rule sum_list_by_key [symmetric]) auto

text \<open>
  C40. The proxy's telemetry is exact, for every sequence of the registry's calls (a request begins, a request finishes, a call of an origin, a store
  into the cache). The in-flight gauge is the number of requests begun less the number finished. Each of the nineteen additive
  counters of the total, and of every route, is the sum (modulo \<open>2 ^ 64\<close>) of what each event of all events, or of those of the route, is
  meant to contribute (\<open>request_accounts\<close>): bytes in and out and retries as reported, one per begin, per cache status, per outcome, per cancelled
  request, per origin call and its outcome; no cancelled request or call counts as an outcome. Each of the six counters of an
  origin, over all routes and within each route, is the number of its calls of the kind meant (\<open>origin_accounts\<close>). The total of each
  counter is the sum over the routes, and origin calls are exactly the successes, failures and cancelled ones. The latency
  histograms and the maps by method and status are not part of this property.
\<close>

theorem edge_metrics_exact:
  fixes t :: time and evs :: "metric_event list"
  shows "let r = metric_run t evs; tot = em_total r; of_route = (\<lambda>n. rm_counters (registry_route n r)) in
    em_inflight r = int (length (filter is_begin evs)) - int (length (filter (finished_as (\<lambda>_. True)) evs))
    \<and> (\<forall>(f, w) \<in> set request_accounts. f tot = (\<Sum>e \<leftarrow> evs. w e) \<and> f tot = (\<Sum>n \<leftarrow> remdups (map ev_route evs). f (of_route n)))
    \<and> (\<forall>(f, w) \<in> set request_accounts. \<forall>n. f (of_route n) = (\<Sum>e \<leftarrow> filter (\<lambda>e. ev_route e = n) evs. w e))
    \<and> (\<forall>(f, w) \<in> set origin_accounts. \<forall>u. f (origin_of u (em_upstreams r)) = (\<Sum>e \<leftarrow> filter (ev_origin u) evs. on_call w e))
    \<and> (\<forall>(f, w) \<in> set origin_accounts. \<forall>u n. f (origin_of u (rm_upstreams (registry_route n r))) =
         (\<Sum>e \<leftarrow> filter (\<lambda>e. ev_route e = n \<and> ev_origin u e) evs. on_call w e))
    \<and> ec_up_calls tot = ec_up_success tot + ec_up_failures tot + ec_up_canceled tot
    \<and> (\<forall>n. ec_up_calls (of_route n) = ec_up_success (of_route n) + ec_up_failures (of_route n) + ec_up_canceled (of_route n))
    \<and> (\<forall>u. let o' = origin_of u (em_upstreams r) in uc_calls o' = uc_success o' + uc_failures o' + uc_canceled o')"
proof -
  have z: "ec_up_calls zero_edge_counters = ec_up_success zero_edge_counters + ec_up_failures zero_edge_counters
      + ec_up_canceled zero_edge_counters" "uc_calls zero_upstream_counters = uc_success zero_upstream_counters
      + uc_failures zero_upstream_counters + uc_canceled zero_upstream_counters"
    by (simp_all add: zero_edge_counters_def zero_upstream_counters_def)
  have balance: "ec_up_calls (em_total (metric_run t evs)) = ec_up_success (em_total (metric_run t evs))
      + ec_up_failures (em_total (metric_run t evs)) + ec_up_canceled (em_total (metric_run t evs))"
    "ec_up_calls (rm_counters (registry_route n (metric_run t evs))) = ec_up_success (rm_counters (registry_route n (metric_run t evs)))
      + ec_up_failures (rm_counters (registry_route n (metric_run t evs))) + ec_up_canceled (rm_counters (registry_route n (metric_run t evs)))"
    "uc_calls (origin_of u (em_upstreams (metric_run t evs))) = uc_success (origin_of u (em_upstreams (metric_run t evs)))
      + uc_failures (origin_of u (em_upstreams (metric_run t evs))) + uc_canceled (origin_of u (em_upstreams (metric_run t evs)))"
    for n u
    unfolding metric_run_projections by (rule call_balance [OF z(1)] origin_balance [OF z(2)])+
  show ?thesis
    unfolding Let_def
    by (intro conjI ballI allI inflight_run balance; clarify;
        intro conjI allI request_account request_account_routes origin_account; assumption)
qed

definition demo_finish :: request_observation where
  "demo_finish = \<lparr>ro_status = 200, ro_canceled = False, ro_bytes_in = 0, ro_bytes_out = 10, ro_duration = 5,
     ro_proxy_error = False, ro_retries = 0, ro_cache_status = ''MISS''\<rparr>"

theorem edge_metrics_exact_witness:
  "ec_bytes_out (em_total (metric_run 0 [Ev_Begin ''a'' ''GET'', Ev_Begin ''b'' ''GET'', Ev_Finish ''a'' demo_finish])) = 10"
proof -
  have "(ec_bytes_out, on_finish ro_bytes_out) \<in> set request_accounts" by (simp add: request_accounts_def)
  with edge_metrics_exact [of 0 "[Ev_Begin ''a'' ''GET'', Ev_Begin ''b'' ''GET'', Ev_Finish ''a'' demo_finish]"]
  have "ec_bytes_out (em_total (metric_run 0 [Ev_Begin ''a'' ''GET'', Ev_Begin ''b'' ''GET'', Ev_Finish ''a'' demo_finish])) =
      (\<Sum>e \<leftarrow> [Ev_Begin ''a'' ''GET'', Ev_Begin ''b'' ''GET'', Ev_Finish ''a'' demo_finish]. on_finish ro_bytes_out e)"
    unfolding Let_def by fast
  then show ?thesis by (simp add: demo_finish_def)
qed

end
