(* ===== verification/Edge_Handler.thy ===== *)
theory Edge_Handler
  imports Edge_Response Access_Log Edge_Metrics Route_Match
begin

text \<open>
  EdgeProxy's request handler, \<^verbatim>\<open>apps/edgeproxy/internal/proxy/handler.go\<close>: the retry loop over the
  origins of a route, cache lookup, fill and invalidation, protocol upgrades with their tunnel registry,
  the accounting of \<^verbatim>\<open>ServeHTTP\<close>, and building, reloading and closing the handler.

  A request runs on the state \<open>edge_state\<close> of its route: the origin pool, the cache, the metrics registry,
  the access log and the tunnel registry, each through the operations of its own theory. The record also
  keeps two observations that the code does not store: the calls made to origins (\<open>hs_calls\<close>)
  and the bytes read from the client's request body (\<open>hs_read\<close>). What the environment decides is the record
  \<open>edge_env\<close>: the answer of an origin to a request, elapsed times, the error of the request context at each
  point where the code reads it, and what other requests did to the state while this one waited for the
  fill lock. A panic is \<open>Crash\<close> or a missing result; \<open>None\<close> as the whole result is a cache eviction
  that does not end. Process log lines are not modelled.
\<close>

section \<open>Environment and state\<close>

text \<open>A response as \<^verbatim>\<open>RoundTrip\<close> returns it; by its contract there is a response iff there is no error.\<close>

record origin_reply =
  og_response :: origin_response
  og_status_line :: string
  og_chunks :: "string list"
  og_read_err :: "string option"
  og_bidirectional :: bool

text \<open>The points at which the request context or the route context is read.\<close>

datatype ctx_point =
    At_Hit | At_Second_Hit | After_Call nat | Before_Retry nat | In_Backoff nat | After_Loop | At_Stale | At_Copy_Error

record edge_env =
  ev_client :: "ctx_point \<Rightarrow> string option"
  ev_route_ctx :: "ctx_point \<Rightarrow> string option"
  ev_origin :: "nat \<Rightarrow> nat \<Rightarrow> edge_request \<Rightarrow> transport_error + origin_reply"
  ev_elapsed :: "nat \<Rightarrow> duration"
  ev_body_read :: "nat \<Rightarrow> nat"
  ev_out :: client_out
  ev_now_first :: time
  ev_now_second :: time
  ev_now_stale :: time
  ev_now_policy :: time
  ev_duration :: duration
  ev_stamp :: "nat \<Rightarrow> string"
  ev_hijack_err :: "string option"
  ev_deadline_err :: "string option"
  ev_raw_write_err :: "string option"
  ev_raw_flush_err :: "string option"
  ev_handshake :: duration
  ev_tunnel_in :: int
  ev_tunnel_out :: int
  ev_random :: "string option"
  ev_nano36 :: string

record tunnels =
  tn_open :: "nat list"
  tn_closed :: bool
  tn_fresh :: nat
  tn_wait :: int

record edge_state =
  hs_pool :: upstream_pool
  hs_cache :: "lru_cache option"
  hs_metrics :: edge_registry
  hs_log :: "log_store option"
  hs_tunnels :: tunnels
  hs_calls :: "(nat \<times> edge_request) list"
  hs_read :: nat

record request_result =
  rr_cache_status :: string
  rr_upstream :: string
  rr_upstream_status :: int
  rr_upstream_duration :: duration
  rr_upstream_calls :: "64 word"
  rr_retries :: "64 word"
  rr_tunnel_in :: "64 word"
  rr_tunnel_out :: "64 word"
  rr_response_duration :: duration
  rr_proxy_error :: bool
  rr_canceled :: bool
  rr_error :: string

definition new_result :: "string \<Rightarrow> request_result" where
  "new_result cs = \<lparr>rr_cache_status = cs, rr_upstream = [], rr_upstream_status = 0, rr_upstream_duration = 0,
     rr_upstream_calls = 0, rr_retries = 0, rr_tunnel_in = 0, rr_tunnel_out = 0, rr_response_duration = 0,
     rr_proxy_error = False, rr_canceled = False, rr_error = []\<rparr>"

definition rc_name :: "route_cfg \<Rightarrow> string" where "rc_name rc = pr_name (rc_pool rc)"

section \<open>Logging and health\<close>

definition append_log :: "edge_lib \<Rightarrow> edge_env \<Rightarrow> log_entry \<Rightarrow> edge_state \<Rightarrow> edge_state" where
  "append_log lib env e hs =
     (case hs_log hs of
        None \<Rightarrow> hs
      | Some s \<Rightarrow> hs\<lparr>hs_log := Some (snd (log_append (xl_parse_stamp lib) (ev_stamp env (ls_next_seq s)) e s))\<rparr>)"

definition record_upstream_attempt ::
  "edge_lib \<Rightarrow> edge_env \<Rightarrow> http_request \<Rightarrow> string \<Rightarrow> string \<Rightarrow> string \<Rightarrow> int \<Rightarrow> int \<Rightarrow> duration \<Rightarrow> bool \<Rightarrow> bool
     \<Rightarrow> string option \<Rightarrow> bool \<Rightarrow> bool \<Rightarrow> edge_state \<Rightarrow> edge_state" where
  "record_upstream_attempt lib env req route i url attempt st d retry timeout err failed canceled hs =
     (let level0 = (if failed then ''WARN'' else ''INFO'');
          lvl = (if err \<noteq> None \<and> \<not> canceled then ''ERROR'' else level0);
          message = (if canceled then ''origin request attempt canceled with client request''
                     else ''origin request attempt completed'')
      in append_log lib env
           (zero_log_entry\<lparr>le_level := lvl, le_event := ''upstream_attempt'', le_message := message,
              le_request_id := i, le_client_ip := client_ip_of req, le_method := rq_method req,
              le_host := rq_host req, le_path := escaped_path (rq_url req), le_query := sanitized_query req,
              le_route := route, le_upstream := url, le_upstream_status := st,
              le_upstream_duration_ms := duration_ms d, le_attempt := attempt, le_retry := retry,
              le_timeout := timeout, le_canceled := canceled, le_error := error_text err,
              le_tags := [''origin'', ''upstream'']\<rparr>) hs)"

definition record_health_change ::
  "edge_lib \<Rightarrow> edge_env \<Rightarrow> string \<Rightarrow> health_change \<Rightarrow> edge_state \<Rightarrow> edge_state" where
  "record_health_change lib env route ch hs =
     append_log lib env
       (zero_log_entry\<lparr>le_level := (if hc_healthy ch then ''INFO'' else ''WARN''),
          le_event := ''upstream_health_changed'',
          le_message := (if hc_healthy ch then ''origin recovered'' else ''origin became unhealthy''),
          le_route := route, le_upstream := xl_url_string lib (hc_upstream ch), le_upstream_status := hc_status ch,
          le_upstream_duration_ms := duration_ms (hc_duration ch), le_healthy := Some (hc_healthy ch),
          le_error := hc_error ch, le_tags := [''health'', ''origin'']\<rparr>) hs"

definition change_health ::
  "edge_lib \<Rightarrow> edge_env \<Rightarrow> string \<Rightarrow> nat \<Rightarrow> bool \<Rightarrow> int \<Rightarrow> duration \<Rightarrow> string \<Rightarrow> edge_state \<Rightarrow> edge_state" where
  "change_health lib env route node healthy st d err hs =
     (let u = up_nodes (hs_pool hs) ! node in
      case set_node_health healthy
             \<lparr>hc_upstream = us_url u, hc_healthy = healthy, hc_status = st, hc_duration = d, hc_error = err\<rparr> u of
        (u', ch) \<Rightarrow>
          let hs' = hs\<lparr>hs_pool := upd_node node (\<lambda>_. u') (hs_pool hs)\<rparr>
          in (case ch of None \<Rightarrow> hs' | Some c \<Rightarrow> record_health_change lib env route c hs'))"

definition record_response_copy_error :: "edge_env \<Rightarrow> string option \<Rightarrow> request_result \<Rightarrow> request_result" where
  "record_response_copy_error env err res =
     (case err of
        None \<Rightarrow> res
      | Some e \<Rightarrow>
          (case ev_client env At_Copy_Error of
             Some c \<Rightarrow> res\<lparr>rr_canceled := True, rr_proxy_error := False, rr_error := c\<rparr>
           | None \<Rightarrow> res\<lparr>rr_proxy_error := True, rr_error := e\<rparr>))"

section \<open>One attempt\<close>

record fetch =
  ft_state :: edge_state
  ft_result :: request_result
  ft_resp :: "origin_reply option"
  ft_err :: "string option"
  ft_active :: "nat option"
  ft_excluded :: "nat list"

datatype outcome = Retry fetch | Stop fetch | Crash fetch

text \<open>What is fixed for one call of \<^verbatim>\<open>fetchAndServe\<close>.\<close>

record fetch_cfg =
  fc_lib :: edge_lib
  fc_env :: edge_env
  fc_req :: edge_request
  fc_route :: route_cfg
  fc_id :: string
  fc_ffh :: string

definition fc_probe :: "fetch_cfg \<Rightarrow> bool" where
  "fc_probe c = is_operational_probe (Some (eq_http (fc_req c)))"

definition fc_attempts :: "fetch_cfg \<Rightarrow> int" where
  "fc_attempts c =
     1 + (if is_idempotent (rq_method (eq_http (fc_req c))) \<and>
             (eq_body (fc_req c) = Nil_Body \<or> eq_body (fc_req c) = No_Body \<or> eq_get_body (fc_req c) \<noteq> None)
          then rc_retry_count (fc_route c) else 0)"

text \<open>The route context is the request context unless the route has a timeout and this is no upgrade.\<close>

definition fc_ctx :: "fetch_cfg \<Rightarrow> ctx_point \<Rightarrow> string option" where
  "fc_ctx c p =
     (if rc_request_timeout (fc_route c) > 0 \<and> \<not> has_protocol_upgrade (rq_header (eq_http (fc_req c)))
      then ev_route_ctx (fc_env c) p else ev_client (fc_env c) p)"

definition upd_pool :: "(upstream_pool \<Rightarrow> upstream_pool) \<Rightarrow> edge_state \<Rightarrow> edge_state" where
  "upd_pool f hs = hs\<lparr>hs_pool := f (hs_pool hs)\<rparr>"

definition pick_node :: "fetch_cfg \<Rightarrow> nat list \<Rightarrow> upstream_pool \<Rightarrow> pick_result \<times> upstream_pool" where
  "pick_node c excluded p =
     (if fc_probe c then (case pick_probe p excluded of None \<Rightarrow> (No_node, p) | Some i \<Rightarrow> (Picked i, p))
      else pick p excluded)"

definition fc_release :: "fetch_cfg \<Rightarrow> nat option \<Rightarrow> edge_state \<Rightarrow> edge_state" where
  "fc_release c node hs = (if fc_probe c then hs else upd_pool (release_active node) hs)"

definition node_url :: "fetch_cfg \<Rightarrow> nat \<Rightarrow> edge_state \<Rightarrow> string" where
  "node_url c node hs = xl_url_string (fc_lib c) (us_url (up_nodes (hs_pool hs) ! node))"

definition reply_status :: "transport_error + origin_reply \<Rightarrow> int" where
  "reply_status r = (case r of Inl _ \<Rightarrow> 0 | Inr g \<Rightarrow> or_status (og_response g))"

definition retryable_reply :: "transport_error + origin_reply \<Rightarrow> bool" where
  "retryable_reply r = (case r of Inl _ \<Rightarrow> False | Inr g \<Rightarrow> retryable_status (or_status (og_response g)))"

definition attempt_error :: "transport_error + origin_reply \<Rightarrow> string option" where
  "attempt_error r =
     (case r of
        Inl e \<Rightarrow> Some (te_text e)
      | Inr g \<Rightarrow> if retryable_reply r then Some (''upstream returned '' @ og_status_line g) else None)"

definition call_canceled :: "fetch_cfg \<Rightarrow> nat \<Rightarrow> transport_error + origin_reply \<Rightarrow> bool" where
  "call_canceled c attempt r \<longleftrightarrow> isl r \<and> ev_client (fc_env c) (After_Call attempt) \<noteq> None"

text \<open>After \<^verbatim>\<open>RoundTrip\<close>: the bookkeeping of the attempt, before its outcome is judged.\<close>

definition note_result :: "string \<Rightarrow> duration \<Rightarrow> transport_error + origin_reply \<Rightarrow> request_result \<Rightarrow> request_result" where
  "note_result url elapsed r res =
     (let n = rr_upstream_calls res + 1
      in res\<lparr>rr_upstream_duration := rr_upstream_duration res + elapsed, rr_upstream_calls := n,
             rr_retries := (if n > 1 then n - 1 else rr_retries res), rr_upstream := url,
             rr_upstream_status := (if isl r then rr_upstream_status res else reply_status r)\<rparr>)"

definition count_call :: "fetch_cfg \<Rightarrow> nat \<Rightarrow> nat \<Rightarrow> edge_request \<Rightarrow> edge_state \<Rightarrow> edge_state" where
  "count_call c attempt node out hs =
     hs\<lparr>hs_calls := hs_calls hs @ [(node, out)],
        hs_read := hs_read hs + (case (eq_body (fc_req c), eq_get_body (fc_req c)) of
          (Body b, None) \<Rightarrow> min (ev_body_read (fc_env c) attempt) (length b - hs_read hs) | _ \<Rightarrow> 0)\<rparr>"

definition observe_call ::
  "fetch_cfg \<Rightarrow> nat \<Rightarrow> nat \<Rightarrow> transport_error + origin_reply \<Rightarrow> edge_state \<Rightarrow> edge_state" where
  "observe_call c attempt node r hs =
     (if \<not> fc_probe c \<and> \<not> call_canceled c attempt r
      then upd_pool (observe (Some node) (ev_elapsed (fc_env c) attempt)) hs else hs)"

definition call_observation :: "fetch_cfg \<Rightarrow> nat \<Rightarrow> transport_error + origin_reply \<Rightarrow> upstream_observation" where
  "call_observation c attempt r =
     (let canceled = call_canceled c attempt r
      in \<lparr>uo_status = reply_status r, uo_duration = ev_elapsed (fc_env c) attempt,
          uo_failed = (isl r \<or> reply_status r \<ge> 500) \<and> \<not> canceled, uo_canceled = canceled,
          uo_timeout = is_timeout_error (case r of Inl e \<Rightarrow> Some e | Inr _ \<Rightarrow> None) \<and> \<not> canceled,
          uo_retry = attempt > 0\<rparr>)"

definition report_call ::
  "fetch_cfg \<Rightarrow> nat \<Rightarrow> transport_error + origin_reply \<Rightarrow> string \<Rightarrow> edge_state \<Rightarrow> edge_state" where
  "report_call c attempt r url hs =
     (if fc_probe c then hs
      else let ob = call_observation c attempt r; route = rc_name (fc_route c) in
        record_upstream_attempt (fc_lib c) (fc_env c) (eq_http (fc_req c)) route (fc_id c) url
          (int attempt + 1) (uo_status ob) (uo_duration ob) (uo_retry ob) (uo_timeout ob) (attempt_error r)
          (uo_failed ob) (uo_canceled ob)
          (hs\<lparr>hs_metrics := record_upstream route url ob (hs_metrics hs)\<rparr>))"

definition note_call :: "fetch_cfg \<Rightarrow> nat \<Rightarrow> nat \<Rightarrow> edge_request \<Rightarrow> transport_error + origin_reply \<Rightarrow> fetch \<Rightarrow> fetch" where
  "note_call c attempt node out r f =
     (let url = node_url c node (ft_state f)
      in f\<lparr>ft_state := report_call c attempt r url (observe_call c attempt node r (count_call c attempt node out (ft_state f))),
           ft_result := note_result url (ev_elapsed (fc_env c) attempt) r (ft_result f),
           ft_resp := (case r of Inl _ \<Rightarrow> None | Inr g \<Rightarrow> Some g)\<rparr>)"

definition health_of :: "fetch_cfg \<Rightarrow> nat \<Rightarrow> nat \<Rightarrow> bool \<Rightarrow> int \<Rightarrow> string \<Rightarrow> edge_state \<Rightarrow> edge_state" where
  "health_of c attempt node healthy st err hs =
     (if fc_probe c then hs
      else change_health (fc_lib c) (fc_env c) (rc_name (fc_route c)) node healthy st (ev_elapsed (fc_env c) attempt) err hs)"

definition set_err :: "string option \<Rightarrow> fetch \<Rightarrow> fetch" where
  "set_err e f = f\<lparr>ft_err := e, ft_result := (ft_result f)\<lparr>rr_error := error_text e\<rparr>\<rparr>"

text \<open>The rest of a failed attempt, when the client is still there: keep the response or try again.\<close>

definition settle_failure :: "fetch_cfg \<Rightarrow> nat \<Rightarrow> nat \<Rightarrow> transport_error + origin_reply \<Rightarrow> fetch \<Rightarrow> outcome" where
  "settle_failure c attempt node r f0 =
     (let err = attempt_error r;
          f1 = set_err err (f0\<lparr>ft_excluded := node # ft_excluded f0\<rparr>);
          f = f1\<lparr>ft_state := health_of c attempt node False (reply_status r) (error_text err) (ft_state f1)\<rparr>;
          can_retry = int attempt + 1 < fc_attempts c
      in if retryable_reply r \<and> can_retry \<and> fc_probe c \<and> pick_probe (hs_pool (ft_state f)) (ft_excluded f) = None
         then Stop (set_err None (f\<lparr>ft_active := Some node\<rparr>))
         else if retryable_reply r \<and> \<not> can_retry then Stop (set_err None (f\<lparr>ft_active := Some node\<rparr>))
         else
           let f = f\<lparr>ft_resp := None, ft_state := fc_release c (Some node) (ft_state f)\<rparr> in
           case fc_ctx c (Before_Retry attempt) of
             Some e \<Rightarrow> Stop (set_err (Some e) f)
           | None \<Rightarrow>
               (case (if can_retry \<and> rc_retry_backoff (fc_route c) > 0 then fc_ctx c (In_Backoff attempt) else None) of
                  Some e \<Rightarrow>
                    let f = set_err (Some e) f
                    in Stop (if ev_client (fc_env c) (In_Backoff attempt) \<noteq> None
                             then f\<lparr>ft_result := (ft_result f)\<lparr>rr_canceled := True\<rparr>\<rparr> else f)
                | None \<Rightarrow> Retry f))"

definition settle :: "fetch_cfg \<Rightarrow> nat \<Rightarrow> nat \<Rightarrow> transport_error + origin_reply \<Rightarrow> fetch \<Rightarrow> outcome" where
  "settle c attempt node r f =
     (if \<not> (isl r \<or> retryable_reply r)
      then Stop ((set_err None (f\<lparr>ft_active := Some node\<rparr>))
                   \<lparr>ft_state := health_of c attempt node True (reply_status r) [] (ft_state f)\<rparr>)
      else if call_canceled c attempt r
      then let f = f\<lparr>ft_state := fc_release c (Some node) (ft_state f), ft_resp := None,
                     ft_result := (ft_result f)\<lparr>rr_canceled := True\<rparr>\<rparr>
           in Stop (set_err (ev_client (fc_env c) (After_Call attempt)) f)
      else settle_failure c attempt node r f)"

definition attempt_step :: "fetch_cfg \<Rightarrow> nat \<Rightarrow> fetch \<Rightarrow> outcome" where
  "attempt_step c attempt f =
     (case pick_node c (ft_excluded f) (hs_pool (ft_state f)) of (choice, pool) \<Rightarrow>
        let f = f\<lparr>ft_state := (ft_state f)\<lparr>hs_pool := pool\<rparr>\<rparr> in
        case choice of
          Panicked \<Rightarrow> Crash f
        | No_node \<Rightarrow>
            Stop (if ft_err f = None then f\<lparr>ft_err := Some ''no eligible upstream available''\<rparr> else f)
        | Picked node \<Rightarrow>
            (case clone_request (fc_req c) (up_nodes pool ! node) (fc_route c) (fc_id c) (fc_ffh c) of
               Inl e \<Rightarrow> Stop (f\<lparr>ft_err := Some e, ft_state := fc_release c (Some node) (ft_state f)\<rparr>)
             | Inr out \<Rightarrow>
                 let r = ev_origin (fc_env c) attempt node out
                 in settle c attempt node r (note_call c attempt node out r f)))"

text \<open>The loop; the first argument counts the iterations that are left.\<close>

fun fetch_loop :: "fetch_cfg \<Rightarrow> nat \<Rightarrow> nat \<Rightarrow> fetch \<Rightarrow> bool \<times> fetch" where
  "fetch_loop c 0 attempt f = (True, f)"
| "fetch_loop c (Suc k) attempt f =
     (case attempt_step c attempt f of
        Retry f' \<Rightarrow> fetch_loop c k (Suc attempt) f'
      | Stop f' \<Rightarrow> (True, f')
      | Crash f' \<Rightarrow> (False, f'))"

section \<open>Protocol upgrades\<close>

definition register_tunnel :: "tunnels \<Rightarrow> nat option \<times> tunnels" where
  "register_tunnel t =
     (if tn_closed t then (None, t)
      else (Some (tn_fresh t), t\<lparr>tn_open := tn_fresh t # tn_open t, tn_fresh := Suc (tn_fresh t),
                                 tn_wait := tn_wait t + 1\<rparr>))"

definition unregister_tunnel :: "nat option \<Rightarrow> tunnels \<Rightarrow> tunnels" where
  "unregister_tunnel tid t =
     (case tid of
        None \<Rightarrow> t
      | Some i \<Rightarrow> if i \<in> set (tn_open t) then t\<lparr>tn_open := removeAll i (tn_open t), tn_wait := tn_wait t - 1\<rparr>
                  else t)"

text \<open>
  \<^verbatim>\<open>closeProtocolTunnels\<close> up to its wait: the registry is closed and the tunnels to be closed are returned.
\<close>

definition close_tunnels :: "tunnels \<Rightarrow> nat list \<times> tunnels" where
  "close_tunnels t = (if tn_closed t then ([], t) else (tn_open t, t\<lparr>tn_closed := True\<rparr>))"

record tunnel_result =
  tr_in :: "64 word"
  tr_out :: "64 word"
  tr_handshake :: duration
  tr_hijacked :: bool

definition no_tunnel :: tunnel_result where
  "no_tunnel = \<lparr>tr_in = 0, tr_out = 0, tr_handshake = 0, tr_hijacked = False\<rparr>"

definition upgrade_headers :: "header \<Rightarrow> string \<Rightarrow> string \<Rightarrow> header" where
  "upgrade_headers h selected i =
     h_set ''X-Request-ID'' i (h_set ''Via'' via_value (h_set ''Upgrade'' selected (h_set ''Connection'' ''Upgrade''
       (sanitize_origin_response_headers (remove_hop_by_hop h)))))"

text \<open>After the hijack: deadline, registration, the response, and copying in both directions.\<close>

definition run_tunnel ::
  "fetch_cfg \<Rightarrow> origin_reply \<Rightarrow> string \<Rightarrow> capture \<Rightarrow> tunnels \<Rightarrow> string option \<times> tunnel_result \<times> capture \<times> tunnels" where
  "run_tunnel c g selected w t =
     (let env = fc_env c; res = no_tunnel\<lparr>tr_hijacked := True\<rparr> in
      case ev_deadline_err env of
        Some e \<Rightarrow> (Some (''clear hijacked client deadline: '' @ e), res, w, t)
      | None \<Rightarrow>
          (case register_tunnel t of
             (None, t) \<Rightarrow> (Some ''proxy is shutting down'', res, w, t)
           | (Some tid, t) \<Rightarrow>
               let w = (mark_hijacked_status 101 w)
                         \<lparr>cw_raw := Some (upgrade_headers (or_header (og_response g)) selected (fc_id c))\<rparr>;
                   t = unregister_tunnel (Some tid) t
               in case (ev_raw_write_err env, ev_raw_flush_err env) of
                    (Some e, _) \<Rightarrow> (Some (''write protocol upgrade response: '' @ e), res, w, t)
                  | (None, Some e) \<Rightarrow> (Some (''flush protocol upgrade response: '' @ e), res, w, t)
                  | (None, None) \<Rightarrow>
                      (None, res\<lparr>tr_handshake := ev_handshake env,
                                 tr_in := (if ev_tunnel_in env < 0 then 0 else word_of_int (ev_tunnel_in env)),
                                 tr_out := (if ev_tunnel_out env < 0 then 0 else word_of_int (ev_tunnel_out env))\<rparr>,
                       w, t)))"

text \<open>\<^verbatim>\<open>%q\<close> of a protocol name, which has no character that needs an escape.\<close>

definition quoted :: "string \<Rightarrow> string" where
  "quoted v = [CHR 0x22] @ v @ [CHR 0x22]"

definition proxy_protocol_upgrade ::
  "fetch_cfg \<Rightarrow> origin_reply \<Rightarrow> capture \<Rightarrow> tunnels \<Rightarrow> string option \<times> tunnel_result \<times> capture \<times> tunnels" where
  "proxy_protocol_upgrade c g w t =
     (case protocol_upgrade (rq_header (eq_http (fc_req c))) of
        Inl e \<Rightarrow> (Some (upgrade_error_text e), no_tunnel, w, t)
      | Inr requested \<Rightarrow>
          if requested = []
          then (Some ''origin switched protocols without a valid client upgrade request'', no_tunnel, w, t)
          else (case protocol_upgrade (or_header (og_response g)) of
                  Inl e \<Rightarrow> (Some (''invalid origin protocol upgrade response: '' @ upgrade_error_text e), no_tunnel, w, t)
                | Inr selected \<Rightarrow>
                    if selected = [] \<or> \<not> equal_fold requested selected
                    then (Some (''origin switched to protocol '' @ quoted selected @ '' while client requested '' @ quoted requested),
                          no_tunnel, w, t)
                    else if \<not> og_bidirectional g
                    then (Some ''origin protocol upgrade response is not bidirectional'', no_tunnel, w, t)
                    else (case ev_hijack_err (fc_env c) of
                            Some e \<Rightarrow> (Some (''hijack client connection: '' @ e), no_tunnel, w, t)
                          | None \<Rightarrow> run_tunnel c g selected w t)))"

section \<open>Answering the client\<close>

definition invalidate_unsafe_request :: "http_request \<Rightarrow> int \<Rightarrow> edge_state \<Rightarrow> edge_state" where
  "invalidate_unsafe_request req st hs =
     (case hs_cache hs of
        None \<Rightarrow> hs
      | Some cache \<Rightarrow>
          if \<not> unsafe_method (rq_method req) \<or> st < 200 \<or> st \<ge> 400 then hs
          else hs\<lparr>hs_cache := Some (snd (cache_purge_request (cache_host (rq_host req))
                    (canonical_request_uri (rq_url req)) cache_key_request cache))\<rparr>)"

definition forwarded_headers :: "header \<Rightarrow> header" where
  "forwarded_headers h = sanitize_origin_response_headers (remove_hop_by_hop h)"

definition answer_headers :: "header \<Rightarrow> string \<Rightarrow> duration \<Rightarrow> header \<Rightarrow> header" where
  "answer_headers origin_h cs d h =
     h_set ''X-Upstream-Response-Time'' (format_duration d) (h_set ''X-Cache'' cs (h_set ''Via'' via_value
       (copy_headers h origin_h)))"

type_synonym answer = "request_result \<times> capture \<times> edge_state"

text \<open>Serving the stale entry that was kept for this case.\<close>

definition serve_stale :: "fetch_cfg \<Rightarrow> cache_entry \<Rightarrow> request_result \<Rightarrow> capture \<Rightarrow> edge_state \<Rightarrow> answer" where
  "serve_stale c entry res w hs =
     (case serve_cache_entry (fc_lib c) (ev_out (fc_env c)) (ev_client (fc_env c) At_Stale) (eq_http (fc_req c)) entry
             ''STALE'' (ev_now_stale (fc_env c)) w of
        (err, w') \<Rightarrow> (record_response_copy_error (fc_env c) err (res\<lparr>rr_cache_status := ''STALE''\<rparr>), w', hs))"

definition store_entry ::
  "fetch_cfg \<Rightarrow> origin_response \<Rightarrow> string \<Rightarrow> time \<times> time \<times> duration \<Rightarrow> lru_cache \<Rightarrow> edge_state \<Rightarrow> edge_state option" where
  "store_entry c resp body policy cache hs =
     (case policy of (expires_at, stale_until, initial_age) \<Rightarrow>
        let entry = \<lparr>ce_status = or_status resp, ce_header = h_del ''Set-Cookie'' (or_header resp), ce_body = body,
                     ce_stored_at = ev_now_policy (fc_env c) - initial_age, ce_expires_at = expires_at,
                     ce_stale_until = stale_until\<rparr>
        in if fc_probe c then Some hs
           else (case cache_set (cache_key (xl_sha256 (fc_lib c)) (eq_http (fc_req c)) (rc_cache (fc_route c))) entry cache of
                   None \<Rightarrow> None
                 | Some (stored, cache') \<Rightarrow>
                     let hs = hs\<lparr>hs_cache := Some cache'\<rparr>
                     in Some (if stored then hs\<lparr>hs_metrics := record_cache_store (rc_name (fc_route c)) (hs_metrics hs)\<rparr>
                              else hs)))"

text \<open>The response of the origin goes to the client, and perhaps into the cache.\<close>

definition pass_through ::
  "edge_env \<Rightarrow> bool \<Rightarrow> origin_reply \<Rightarrow> request_result \<Rightarrow> capture \<Rightarrow> edge_state \<Rightarrow> answer" where
  "pass_through env cacheable g res0 w0 hs =
     (let res = (if cacheable then res0 else res0\<lparr>rr_cache_status := ''BYPASS''\<rparr>);
          w = (if cacheable then w0 else upd_header (h_set ''X-Cache'' ''BYPASS'') w0)
      in case copy_body (capture_write (ev_out env)) (og_chunks g) (og_read_err g)
                (capture_write_header (or_status (og_response g)) w) of
           (err, w') \<Rightarrow> (record_response_copy_error env err res, w', hs))"

definition forward_response ::
  "fetch_cfg \<Rightarrow> string \<Rightarrow> bool \<Rightarrow> origin_reply \<Rightarrow> request_result \<Rightarrow> capture \<Rightarrow> edge_state \<Rightarrow> answer option" where
  "forward_response c cs store g res w0 hs0 =
     (let env = fc_env c; req = eq_http (fc_req c); rc = fc_route c;
          st = or_status (og_response g);
          hs = invalidate_unsafe_request req st hs0;
          resp = (og_response g)\<lparr>or_header := forwarded_headers (or_header (og_response g))\<rparr>;
          w = upd_header (answer_headers (or_header resp) cs (rr_upstream_duration res)) w0;
          policy = response_cache_policy (xl_parse_time (fc_lib c)) resp (rc_cache rc) (ev_now_policy env);
          cacheable = (policy \<noteq> None \<and> store)
      in case (hs_cache hs, policy) of
           (Some cache, Some pol) \<Rightarrow>
             if \<not> cacheable \<or> rq_method req = ''HEAD'' then Some (pass_through env cacheable g res w hs)
             else (case copy_body (multi_write (ev_out env)) (og_chunks g) (og_read_err g)
                          (capture_write_header st w,
                           \<lparr>cb_buf = [], cb_max = cc_max_object_bytes (rc_cache rc), cb_overflow = False\<rparr>) of
                     (err, w', buf) \<Rightarrow>
                       let res' = record_response_copy_error env err res
                       in if err = None \<and> \<not> cb_overflow buf
                          then map_option (\<lambda>hs'. (res', w', hs')) (store_entry c resp (cb_buf buf) pol cache hs)
                          else Some (res', w', hs))
         | _ \<Rightarrow> Some (pass_through env cacheable g res w hs))"

definition serve_upgrade :: "fetch_cfg \<Rightarrow> origin_reply \<Rightarrow> request_result \<Rightarrow> capture \<Rightarrow> edge_state \<Rightarrow> answer" where
  "serve_upgrade c g res w hs =
     (case proxy_protocol_upgrade c g w (hs_tunnels hs) of
        (err, tr, w', t) \<Rightarrow>
          let res = res\<lparr>rr_cache_status := ''BYPASS'', rr_tunnel_in := tr_in tr, rr_tunnel_out := tr_out tr,
                        rr_response_duration := tr_handshake tr\<rparr>;
              hs = hs\<lparr>hs_tunnels := t\<rparr>
          in case err of
               None \<Rightarrow> (res, w', hs)
             | Some e \<Rightarrow>
                 (res\<lparr>rr_proxy_error := True, rr_error := e\<rparr>,
                  if tr_hijacked tr then w' else http_error (ev_out (fc_env c)) ''bad gateway'' 502 w', hs))"

text \<open>\<^verbatim>\<open>fetchAndServe\<close> after the loop; the active connection is released when it returns.\<close>

definition answer_client ::
  "fetch_cfg \<Rightarrow> cache_entry option \<Rightarrow> string \<Rightarrow> bool \<Rightarrow> fetch \<Rightarrow> capture \<Rightarrow> answer option" where
  "answer_client c stale cs store f w =
     (let env = fc_env c; res = ft_result f; hs = ft_state f in
      if rr_canceled res \<or> ev_client env After_Loop \<noteq> None
      then Some (res\<lparr>rr_canceled := True, rr_proxy_error := False,
                     rr_error := (if rr_error res = [] then error_text (ev_client env After_Loop) else rr_error res)\<rparr>,
                 w, hs)
      else (case (ft_err f, ft_resp f) of
              (None, Some g) \<Rightarrow>
                if or_status (og_response g) = 101 then Some (serve_upgrade c g res w hs)
                else (case stale of
                        Some entry \<Rightarrow>
                          if retryable_status (or_status (og_response g)) then Some (serve_stale c entry res w hs)
                          else forward_response c cs store g res w hs
                      | None \<Rightarrow> forward_response c cs store g res w hs)
            | (err, _) \<Rightarrow>
                (case stale of
                   Some entry \<Rightarrow> Some (serve_stale c entry res w hs)
                 | None \<Rightarrow>
                     Some (res\<lparr>rr_proxy_error := True, rr_error := error_text err\<rparr>,
                           http_error (ev_out env) ''bad gateway'' 502 w, hs))))"

definition start_fetch :: "string \<Rightarrow> edge_state \<Rightarrow> fetch" where
  "start_fetch cs hs = \<lparr>ft_state = hs, ft_result = new_result cs, ft_resp = None, ft_err = None, ft_active = None,
     ft_excluded = []\<rparr>"

text \<open>The result is \<open>None\<close> in the first component of the answer when the code panics.\<close>

type_synonym served = "request_result option \<times> capture \<times> edge_state"

definition fetch_and_serve ::
  "fetch_cfg \<Rightarrow> cache_entry option \<Rightarrow> string \<Rightarrow> bool \<Rightarrow> capture \<Rightarrow> edge_state \<Rightarrow> served option" where
  "fetch_and_serve c stale cs store w hs =
     (case fetch_loop c (nat (fc_attempts c)) 0 (start_fetch cs hs) of
        (False, f) \<Rightarrow> Some (None, w, ft_state f)
      | (True, f) \<Rightarrow>
          map_option (\<lambda>(res, w', hs'). (Some res, w', fc_release c (ft_active f) hs'))
            (answer_client c stale cs store f w))"

section \<open>A route\<close>

text \<open>One lookup: a fresh and allowed entry is a hit, a stale and allowed one is kept.\<close>

datatype lookup = Hit cache_entry | Kept "cache_entry option"

definition lookup_cache :: "http_request \<Rightarrow> string \<Rightarrow> time \<Rightarrow> lru_cache \<Rightarrow> lookup \<times> lru_cache" where
  "lookup_cache req key now cache =
     (case cache_get key now cache of ((entry, fresh, is_stale), cache') \<Rightarrow>
        let allowed = request_allows_cached_entry (Some req) entry now
        in (if fresh \<and> allowed then Hit entry
            else Kept (if is_stale \<and> allowed then Some entry else None), cache'))"

definition serve_hit ::
  "fetch_cfg \<Rightarrow> ctx_point \<Rightarrow> cache_entry \<Rightarrow> time \<Rightarrow> capture \<Rightarrow> edge_state \<Rightarrow> served" where
  "serve_hit c p entry now w hs =
     (case serve_cache_entry (fc_lib c) (ev_out (fc_env c)) (ev_client (fc_env c) p) (eq_http (fc_req c)) entry
             ''HIT'' now w of
        (err, w') \<Rightarrow> (Some (record_response_copy_error (fc_env c) err (new_result ''HIT'')), w', hs))"

text \<open>
  With the fill lock of the key held. \<open>wait\<close> is what other requests did to the shared state between the
  first lookup and the acquisition of the lock; the observations of this request are its own.
\<close>

definition fill :: "fetch_cfg \<Rightarrow> bool \<Rightarrow> bool \<Rightarrow> string \<Rightarrow> capture \<Rightarrow> edge_state \<Rightarrow> served option" where
  "fill c look store key w hs =
     (if \<not> look then fetch_and_serve c None ''MISS'' store w hs
      else (case hs_cache hs of
              None \<Rightarrow> Some (None, w, hs)
            | Some cache \<Rightarrow>
                (case lookup_cache (eq_http (fc_req c)) key (ev_now_second (fc_env c)) cache of
                   (Hit entry, cache') \<Rightarrow>
                     Some (serve_hit c At_Second_Hit entry (ev_now_second (fc_env c)) w (hs\<lparr>hs_cache := Some cache'\<rparr>))
                 | (Kept stale, cache') \<Rightarrow> fetch_and_serve c stale ''MISS'' store w (hs\<lparr>hs_cache := Some cache'\<rparr>))))"

definition after_wait :: "(edge_state \<Rightarrow> edge_state) \<Rightarrow> edge_state \<Rightarrow> edge_state" where
  "after_wait wait hs = (wait hs)\<lparr>hs_calls := hs_calls hs, hs_read := hs_read hs\<rparr>"

definition handle_route :: "fetch_cfg \<Rightarrow> (edge_state \<Rightarrow> edge_state) \<Rightarrow> capture \<Rightarrow> edge_state \<Rightarrow> served option" where
  "handle_route c wait w hs =
     (let req = eq_http (fc_req c) in
      case (if has_protocol_upgrade (rq_header req) then protocol_upgrade (rq_header req) else Inr []) of
        Inl e \<Rightarrow>
          Some (Some ((new_result ''BYPASS'')\<lparr>rr_error := upgrade_error_text e\<rparr>),
                http_error (ev_out (fc_env c)) ''bad request'' 400 w, hs)
      | Inr _ \<Rightarrow>
          if fc_probe c then fetch_and_serve c None ''BYPASS'' False w hs
          else (case request_cache_mode req (rc_cache (fc_route c)) of (look, store, _) \<Rightarrow>
                  if \<not> look \<and> \<not> store then fetch_and_serve c None ''BYPASS'' False w hs
                  else
                    let key = cache_key (xl_sha256 (fc_lib c)) req (rc_cache (fc_route c)) in
                    if \<not> look then fill c look store key w (after_wait wait hs)
                    else (case hs_cache hs of
                            None \<Rightarrow> Some (None, w, hs)
                          | Some cache \<Rightarrow>
                              (case lookup_cache req key (ev_now_first (fc_env c)) cache of
                                 (Hit entry, cache') \<Rightarrow>
                                   Some (serve_hit c At_Hit entry (ev_now_first (fc_env c)) w (hs\<lparr>hs_cache := Some cache'\<rparr>))
                               | (Kept _, cache') \<Rightarrow> fill c look store key w (after_wait wait (hs\<lparr>hs_cache := Some cache'\<rparr>))))))"

section \<open>The handler\<close>

record runtime =
  rn_cfg :: route_cfg
  rn_pool :: upstream_pool
  rn_cache :: "lru_cache option"
  rn_ffh :: string

record edge_handler =
  eh_table :: "route list"
  eh_routes :: "(string, runtime) gomap"
  eh_clients :: client_resolver
  eh_metrics :: edge_registry
  eh_log :: "log_store option"
  eh_tunnels :: tunnels

definition rc_route :: "route_cfg \<Rightarrow> route" where
  "rc_route rc = \<lparr>rt_name = rc_name rc, rt_hosts = pr_hosts (rc_pool rc), rt_path_prefix = rc_path_prefix rc\<rparr>"

definition runtime_state :: "runtime \<Rightarrow> edge_handler \<Rightarrow> edge_state" where
  "runtime_state rn h = \<lparr>hs_pool = rn_pool rn, hs_cache = rn_cache rn, hs_metrics = eh_metrics h, hs_log = eh_log h,
     hs_tunnels = eh_tunnels h, hs_calls = [], hs_read = 0\<rparr>"

definition put_state :: "string \<Rightarrow> runtime \<Rightarrow> edge_state \<Rightarrow> edge_handler \<Rightarrow> edge_handler" where
  "put_state name rn hs h =
     h\<lparr>eh_routes := gm_put name (rn\<lparr>rn_pool := hs_pool hs, rn_cache := hs_cache hs\<rparr>) (eh_routes h),
       eh_metrics := hs_metrics hs, eh_log := hs_log hs, eh_tunnels := hs_tunnels hs\<rparr>"

text \<open>The first steps of \<^verbatim>\<open>ServeHTTP\<close>: the probe marker is removed, and the client is resolved.\<close>

definition prepare_request :: "client_resolver \<Rightarrow> edge_request \<Rightarrow> bool \<times> edge_request" where
  "prepare_request clients req =
     (let http = eq_http req;
          probe = trusted_operational_probe (Some http) (Some clients);
          http1 = http\<lparr>rq_header := h_del internal_probe_header (rq_header http)\<rparr>;
          http2 = (if probe
                   then http1\<lparr>rq_header := h_set ''Pragma'' ''no-cache'' (h_set ''Cache-Control'' ''no-store'' (rq_header http1)),
                              rq_ctx_probe := True\<rparr>
                   else http1)
      in (probe, req\<lparr>eq_http := with_resolved_client_ip http2 (edge_resolve (Some clients) http2)\<rparr>))"

definition log_level :: "bool \<Rightarrow> int \<Rightarrow> bool \<Rightarrow> string" where
  "log_level canceled st proxy_error =
     (if canceled then ''INFO'' else if st \<ge> 500 \<or> proxy_error then ''ERROR'' else if st \<ge> 400 then ''WARN'' else ''INFO'')"

definition completed_entry ::
  "http_request \<Rightarrow> string \<Rightarrow> string \<Rightarrow> request_result \<Rightarrow> int \<Rightarrow> 64 word \<Rightarrow> 64 word \<Rightarrow> duration \<Rightarrow> log_entry" where
  "completed_entry req i route res st bytes_in bytes_out d =
     zero_log_entry\<lparr>le_level := log_level (rr_canceled res) st (rr_proxy_error res), le_event := ''request_completed'',
       le_message := (if rr_canceled res then ''client request canceled'' else ''client request completed''),
       le_request_id := i, le_client_ip := client_ip_of req, le_method := rq_method req, le_host := rq_host req,
       le_path := escaped_path (rq_url req), le_query := sanitized_query req, le_route := route, le_status := st,
       le_bytes_in := bytes_in, le_bytes_out := bytes_out, le_duration_ms := duration_ms d,
       le_cache_status := rr_cache_status res, le_upstream := rr_upstream res,
       le_upstream_status := rr_upstream_status res, le_upstream_duration_ms := duration_ms (rr_upstream_duration res),
       le_upstream_calls := rr_upstream_calls res, le_retries := rr_retries res, le_proxy_error := rr_proxy_error res,
       le_canceled := rr_canceled res, le_error := rr_error res, le_user_agent := user_agent req,
       le_tags := [''access'', ''proxy'']\<rparr>"

text \<open>The deferred function of \<^verbatim>\<open>ServeHTTP\<close>.\<close>

definition finish_request ::
  "edge_lib \<Rightarrow> edge_env \<Rightarrow> bool \<Rightarrow> string \<Rightarrow> string \<Rightarrow> edge_request \<Rightarrow> request_result \<Rightarrow> capture \<Rightarrow> edge_state \<Rightarrow> edge_state" where
  "finish_request lib env probe route i req res w hs =
     (let counted = (case eq_body req of Body _ \<Rightarrow> of_nat (hs_read hs) | _ \<Rightarrow> 0);
          bytes_in = saturating_add_uint64 counted (rr_tunnel_in res);
          bytes_out = saturating_add_uint64 (word_of_int (max_int64_of (cw_bytes w) 0)) (rr_tunnel_out res);
          st = (if cw_status w = 0 \<and> \<not> rr_canceled res then 200 else cw_status w);
          d = (if rr_response_duration res > 0 then rr_response_duration res else ev_duration env)
      in if probe then hs
         else append_log lib env (completed_entry (eq_http req) i route res st bytes_in bytes_out d)
                (hs\<lparr>hs_metrics := edge_finish route
                   \<lparr>ro_status = st, ro_canceled = rr_canceled res, ro_bytes_in = bytes_in, ro_bytes_out = bytes_out,
                    ro_duration = d, ro_proxy_error = rr_proxy_error res, ro_retries = rr_retries res,
                    ro_cache_status = rr_cache_status res\<rparr> (hs_metrics hs)\<rparr>))"

definition begin_metrics :: "bool \<Rightarrow> string \<Rightarrow> string \<Rightarrow> edge_state \<Rightarrow> edge_state" where
  "begin_metrics probe route method hs =
     (if probe then hs else hs\<lparr>hs_metrics := edge_begin route method (hs_metrics hs)\<rparr>)"

text \<open>
  \<^verbatim>\<open>ServeHTTP\<close>: the response, the handler afterwards and the calls made to origins. When the code
  panics after the deferred function is registered, that function still runs, on the initial result.
\<close>

definition serve_matched ::
  "edge_lib \<Rightarrow> edge_env \<Rightarrow> (edge_state \<Rightarrow> edge_state) \<Rightarrow> bool \<Rightarrow> string \<Rightarrow> edge_request \<Rightarrow> runtime \<Rightarrow> header \<Rightarrow> edge_handler
     \<Rightarrow> (capture \<times> edge_handler \<times> edge_state) option" where
  "serve_matched lib env wait probe i req rn hdr h =
     (let route = rc_name (rn_cfg rn);
          c = \<lparr>fc_lib = lib, fc_env = env, fc_req = req, fc_route = rn_cfg rn, fc_id = i, fc_ffh = rn_ffh rn\<rparr>;
          hs = begin_metrics probe route (rq_method (eq_http req)) (runtime_state rn h)
      in case handle_route c wait (new_capture hdr) hs of
           None \<Rightarrow> None
         | Some (res, w, hs') \<Rightarrow>
             let hs'' = finish_request lib env probe route i req
                          (case res of None \<Rightarrow> new_result ''BYPASS'' | Some r \<Rightarrow> r) w hs'
             in Some (w, put_state route rn hs'' h, hs''))"

text \<open>A request that no route matches touches no pool and no cache.\<close>

definition idle_state :: "edge_handler \<Rightarrow> edge_state" where
  "idle_state h = \<lparr>hs_pool = \<lparr>up_nodes = [], up_next = 0, up_random = 0, up_health_host = [], up_algorithm = [],
       up_sensitivity = 0, up_ewma_alpha = 0\<rparr>, hs_cache = None, hs_metrics = eh_metrics h, hs_log = eh_log h,
     hs_tunnels = eh_tunnels h, hs_calls = [], hs_read = 0\<rparr>"

definition serve_unmatched ::
  "edge_lib \<Rightarrow> edge_env \<Rightarrow> bool \<Rightarrow> string \<Rightarrow> edge_request \<Rightarrow> header \<Rightarrow> edge_handler \<Rightarrow> capture \<times> edge_handler" where
  "serve_unmatched lib env probe i req hdr h =
     (let route = ''__unmatched__'';
          hs = begin_metrics probe route (rq_method (eq_http req)) (idle_state h);
          w = http_error (ev_out env) ''no route configured for this host and path'' 404 (new_capture hdr);
          hs' = finish_request lib env probe route i req (new_result ''BYPASS'') w hs
      in (w, h\<lparr>eh_metrics := hs_metrics hs', eh_log := hs_log hs'\<rparr>))"

definition edge_serve_http ::
  "edge_lib \<Rightarrow> edge_env \<Rightarrow> (edge_state \<Rightarrow> edge_state) \<Rightarrow> edge_request \<Rightarrow> edge_handler
     \<Rightarrow> (capture \<times> edge_handler \<times> (nat \<times> edge_request) list) option" where
  "edge_serve_http lib env wait req0 h =
     (case prepare_request (eh_clients h) req0 of (probe, req) \<Rightarrow>
        let i = request_id (ev_random env) (ev_nano36 env) (eq_http req);
            with_id = h_set ''X-Request-ID'' i in
        case router_match (eh_table h) (eq_http req) of
          None \<Rightarrow>
            (case serve_unmatched lib env probe i req (with_id []) h of (w, h') \<Rightarrow> Some (w, h', []))
        | Some r \<Rightarrow>
            (case gm_get (eh_routes h) (rt_name r) of
               None \<Rightarrow> Some (new_capture [], h, [])
             | Some rn \<Rightarrow>
                 map_option (\<lambda>(w, h', hs). (w, h', hs_calls hs))
                   (serve_matched lib env wait probe i req rn
                      (with_id (if probe then h_set internal_probe_header ''matched-v1'' [] else [])) h)))"

section \<open>Generations\<close>

text \<open>
  \<^verbatim>\<open>buildState\<close>: \<open>None\<close> when the trusted networks or an origin URL do not parse. \<open>nano i\<close> is the clock
  when the pool of route \<open>i\<close> is created. Health-check goroutines are not started here: a round of
  checks is \<open>health_round\<close>.
\<close>

definition build_runtime :: "(string \<Rightarrow> go_url option) \<Rightarrow> int \<Rightarrow> string \<Rightarrow> route_cfg \<Rightarrow> runtime option" where
  "build_runtime parse_url nano ffh rc =
     map_option (\<lambda>pool. \<lparr>rn_cfg = rc, rn_pool = pool,
         rn_cache = (if cc_enabled (rc_cache rc) then Some (new_cache (cc_max_entries (rc_cache rc)) (cc_max_bytes (rc_cache rc)))
                     else None), rn_ffh = ffh\<rparr>)
       (new_upstream_pool parse_url nano (rc_pool rc))"

fun build_runtimes ::
  "(string \<Rightarrow> go_url option) \<Rightarrow> (nat \<Rightarrow> int) \<Rightarrow> string \<Rightarrow> nat \<Rightarrow> route_cfg list \<Rightarrow> (string, runtime) gomap
     \<Rightarrow> (string, runtime) gomap option" where
  "build_runtimes parse_url nano ffh n [] m = Some m"
| "build_runtimes parse_url nano ffh n (rc # rcs) m =
     (case build_runtime parse_url (nano n) ffh rc of
        None \<Rightarrow> None
      | Some rn \<Rightarrow> build_runtimes parse_url nano ffh (Suc n) rcs (gm_put (rc_name rc) rn m))"

record edge_config =
  xc_trusted :: "string list"
  xc_header :: string
  xc_routes :: "route_cfg list"

type_synonym generation = "route list \<times> (string, runtime) gomap \<times> client_resolver"

definition build_state :: "(string \<Rightarrow> go_url option) \<Rightarrow> (nat \<Rightarrow> int) \<Rightarrow> edge_config \<Rightarrow> generation option" where
  "build_state parse_url nano cfg =
     (case new_client_resolver (xc_trusted cfg) (xc_header cfg) of
        None \<Rightarrow> None
      | Some clients \<Rightarrow>
          map_option (\<lambda>m. (map rc_route (xc_routes cfg), m, clients))
            (build_runtimes parse_url nano (cr_header clients) 0 (xc_routes cfg) []))"

definition new_handler ::
  "(string \<Rightarrow> go_url option) \<Rightarrow> (nat \<Rightarrow> int) \<Rightarrow> edge_config \<Rightarrow> edge_registry \<Rightarrow> log_store option \<Rightarrow> edge_handler option" where
  "new_handler parse_url nano cfg reg logs =
     map_option (\<lambda>(table, m, clients).
       \<lparr>eh_table = table, eh_routes = m, eh_clients = clients, eh_metrics = reg, eh_log = logs,
        eh_tunnels = \<lparr>tn_open = [], tn_closed = False, tn_fresh = 0, tn_wait = 0\<rparr>\<rparr>)
       (build_state parse_url nano cfg)"

text \<open>\<^verbatim>\<open>Reload\<close> publishes a complete generation or changes nothing; the flag is \<^verbatim>\<open>err == nil\<close>.\<close>

definition handler_reload ::
  "(string \<Rightarrow> go_url option) \<Rightarrow> (nat \<Rightarrow> int) \<Rightarrow> edge_config \<Rightarrow> edge_handler \<Rightarrow> bool \<times> edge_handler" where
  "handler_reload parse_url nano cfg h =
     (case build_state parse_url nano cfg of
        None \<Rightarrow> (False, h)
      | Some (table, m, clients) \<Rightarrow> (True, h\<lparr>eh_table := table, eh_routes := m, eh_clients := clients\<rparr>))"

definition handler_close :: "edge_handler \<Rightarrow> nat list \<times> edge_handler" where
  "handler_close h =
     (case close_tunnels (eh_tunnels h) of (closing, t) \<Rightarrow> (closing, h\<lparr>eh_tunnels := t, eh_routes := []\<rparr>))"

text \<open>One round of health checks of a route, with the log entries of the changes.\<close>

definition health_round ::
  "edge_lib \<Rightarrow> edge_env \<Rightarrow> string \<Rightarrow> (duration \<times> (string + int)) list \<Rightarrow> edge_handler \<Rightarrow> edge_handler" where
  "health_round lib env name resps h =
     (case gm_get (eh_routes h) name of
        None \<Rightarrow> h
      | Some rn \<Rightarrow>
          if \<not> pr_health_enabled (rc_pool (rn_cfg rn)) then h
          else (case check_round (rc_health_statuses (rn_cfg rn)) resps (rn_pool rn) of
                  (pool, changes) \<Rightarrow>
                    put_state name rn
                      (foldl (\<lambda>hs ch. record_health_change lib env (rc_name (rn_cfg rn)) ch hs)
                         ((runtime_state rn h)\<lparr>hs_pool := pool\<rparr>) changes) h))"

section \<open>Administration\<close>

text \<open>\<^verbatim>\<open>apps/edgeproxy/internal/proxy/admin.go\<close>.\<close>

record route_status =
  rs_name :: string
  rs_ready :: bool
  rs_scheduler :: "string \<times> real \<times> real"
  rs_upstreams :: "upstream list"
  rs_cache :: "cache_stats option"

definition health_snapshot :: "edge_lib \<Rightarrow> upstream_pool \<Rightarrow> bool \<times> upstream list" where
  "health_snapshot lib p =
     (list_ex us_healthy (up_nodes p), sort_key (\<lambda>u. xl_url_string lib (us_url u)) (up_nodes p))"

definition scheduler_snapshot :: "upstream_pool \<Rightarrow> string \<times> real \<times> real" where
  "scheduler_snapshot p = (up_algorithm p, up_sensitivity p, up_ewma_alpha p)"

definition route_statuses :: "edge_lib \<Rightarrow> edge_handler \<Rightarrow> route_status list" where
  "route_statuses lib h =
     map (\<lambda>name. let rn = the (gm_get (eh_routes h) name) in
        case health_snapshot lib (rn_pool rn) of (ready, ups) \<Rightarrow>
          \<lparr>rs_name = rc_name (rn_cfg rn), rs_ready = ready, rs_scheduler = scheduler_snapshot (rn_pool rn),
           rs_upstreams = ups, rs_cache = map_option cache_stats_of (rn_cache rn)\<rparr>)
       (sort (map fst (eh_routes h)))"

definition readiness :: "edge_handler \<Rightarrow> bool \<times> string list" where
  "readiness h =
     (let bad = map fst (filter (\<lambda>(name, rn). \<not> has_healthy (rn_pool rn)) (eh_routes h)) in (bad = [], sort bad))"

definition normalize_purge_path_prefix :: "string \<Rightarrow> string + string" where
  "normalize_purge_path_prefix raw =
     (let v = trim_space raw in
      if v = [] then Inr []
      else if \<not> has_prefix v ''/'' then Inl ''path_prefix must start with /''
      else if contains_any v ''?#'' then Inl ''path_prefix must contain a path only''
      else (case path_unescape v of
              None \<Rightarrow> Inl ''path_prefix contains invalid escaping''
            | Some decoded \<Rightarrow>
                if decoded \<noteq> v then Inl ''path_prefix must not contain percent-encoded path bytes''
                else
                  let t = rev (dropWhile (\<lambda>c. c = CHR ''/'') (rev v)); t = (if t = [] then ''/'' else t) in
                  if path_clean t \<noteq> t
                  then Inl ''path_prefix must be canonical and must not contain dot-segments or repeated slashes''
                  else Inr t))"

definition find_runtime :: "string \<Rightarrow> edge_handler \<Rightarrow> (string \<times> runtime) option" where
  "find_runtime name h =
     (case gm_get (eh_routes h) name of
        Some rn \<Rightarrow> Some (name, rn)
      | None \<Rightarrow> find (\<lambda>(n, rn). equal_fold (trim_space n) (trim_space name)) (eh_routes h))"

text \<open>\<^verbatim>\<open>PurgeCache\<close>: the number of entries removed, whether there is a cache, and the error.\<close>

definition purge_cache ::
  "(string \<Rightarrow> string option) \<Rightarrow> string \<Rightarrow> string \<Rightarrow> string \<Rightarrow> edge_handler \<Rightarrow> (nat \<times> bool \<times> string option) \<times> edge_handler" where
  "purge_cache parse_request_uri name host path_prefix h =
     (case find_runtime name h of
        None \<Rightarrow> ((0, False, None), h)
      | Some (key, rn) \<Rightarrow>
          (case rn_cache rn of
             None \<Rightarrow> ((0, False, None), h)
           | Some cache \<Rightarrow>
               (case normalize_purge_path_prefix path_prefix of
                  Inl e \<Rightarrow> ((0, True, Some e), h)
                | Inr pre \<Rightarrow>
                    (case (if host = [] \<and> path_prefix = [] then cache_clear cache
                           else cache_purge parse_request_uri (if host \<noteq> [] then cache_host host else host) pre
                                  cache_key_request cache) of
                       (n, cache') \<Rightarrow>
                         ((n, True, None),
                          h\<lparr>eh_routes := gm_put key (rn\<lparr>rn_cache := Some cache'\<rparr>) (eh_routes h)\<rparr>)))))"

end
