(* ===== verification/Edge_Handler_Loop.thy ===== *)
theory Edge_Handler_Loop
  imports Edge_Handler
begin

text \<open>
  EdgeProxy's retry loop and the paths of a request: which parts of the state each step leaves alone, that
  every connection charged to an origin is given back on every path, and that each call is built for
  the request and counted once (\<open>handle_route_accounted\<close>).
\<close>

section \<open>The origin pool during a request\<close>

definition actives :: "upstream_pool \<Rightarrow> int list" where
  "actives p = map us_active (up_nodes p)"

definition urls :: "upstream_pool \<Rightarrow> go_url list" where
  "urls p = map us_url (up_nodes p)"

lemma length_actives [simp]: "length (actives p) = length (up_nodes p)"
  by (simp add: actives_def)

lemma upd_node_length [simp]: "length (up_nodes (upd_node i f p)) = length (up_nodes p)"
  by (simp add: upd_node_def)

lemma upd_node_actives:
  assumes "\<And>u. us_active (f u) = us_active u + d"
  shows "actives (upd_node i f p) = (actives p)[i := actives p ! i + d]"
proof (cases "i < length (up_nodes p)")
  case True
  then show ?thesis by (simp add: actives_def upd_node_def map_update assms)
next
  case False
  then show ?thesis by (simp add: actives_def upd_node_def list_update_beyond)
qed

lemma upd_node_same:
  assumes "us_active (f (up_nodes p ! i)) = us_active (up_nodes p ! i)"
  shows "actives (upd_node i f p) = actives p"
proof (cases "i < length (up_nodes p)")
  case True
  then have "(map us_active (up_nodes p))[i := us_active (up_nodes p ! i)] = map us_active (up_nodes p)"
    by (metis list_update_id nth_map)
  then show ?thesis by (simp add: actives_def upd_node_def map_update assms)
next
  case False
  then show ?thesis by (simp add: actives_def upd_node_def list_update_beyond)
qed

lemma upd_node_urls:
  assumes "us_url (f (up_nodes p ! i)) = us_url (up_nodes p ! i)"
  shows "urls (upd_node i f p) = urls p"
proof (cases "i < length (up_nodes p)")
  case True
  then have "(map us_url (up_nodes p))[i := us_url (up_nodes p ! i)] = map us_url (up_nodes p)"
    by (metis list_update_id nth_map)
  then show ?thesis by (simp add: urls_def upd_node_def map_update assms)
next
  case False
  then show ?thesis by (simp add: urls_def upd_node_def list_update_beyond)
qed

lemma observe_pool [simp]:
  "actives (observe n d p) = actives p" "urls (observe n d p) = urls p"
  by (cases n; simp add: observe_def upd_node_same upd_node_urls observe_latency_def Let_def)+

lemma release_actives:
  "actives (release_active (Some i) p) = (actives p)[i := actives p ! i - 1]"
  "actives (release_active None p) = actives p" "urls (release_active n p) = urls p"
proof -
  show "actives (release_active (Some i) p) = (actives p)[i := actives p ! i - 1]"
    by (simp add: release_active_def upd_node_actives [where d = "- 1"])
  show "actives (release_active None p) = actives p" by (simp add: release_active_def)
  show "urls (release_active n p) = urls p" by (cases n) (simp_all add: release_active_def upd_node_urls)
qed

lemma pool_frame_same:
  assumes "pool_frame p q" shows "actives q = actives p" "urls q = urls p"
proof -
  have n: "length (up_nodes q) = length (up_nodes p)"
    and e: "\<And>j. j < length (up_nodes p) \<Longrightarrow>
      up_nodes q ! j = (up_nodes p ! j)\<lparr>us_current := us_current (up_nodes q ! j)\<rparr>"
    using assms by (auto simp: pool_frame_def)
  have "us_active (up_nodes q ! j) = us_active (up_nodes p ! j) \<and> us_url (up_nodes q ! j) = us_url (up_nodes p ! j)"
    if "j < length (up_nodes p)" for j
    using e [OF that] by (metis upstream.select_convs(2,6) upstream.surjective upstream.update_convs(11))
  then show "actives q = actives p" "urls q = urls p"
    using n by (auto simp: actives_def urls_def intro!: nth_equalityI)
qed

text \<open>Every pick, also one that panics: who was picked is charged, nobody else.\<close>

lemma pick_charges:
  assumes "pick p ex = (r, p')"
  shows "urls p' = urls p \<and>
    (case r of Picked i \<Rightarrow> i < length (up_nodes p) \<and> actives p' = (actives p)[i := actives p ! i + 1]
     | _ \<Rightarrow> actives p' = actives p)"
proof (cases "up_nodes p = []")
  case True
  then show ?thesis using assms by (simp add: pick_def pick_candidates_def eligible_def)
next
  case False
  let ?c = "pick_candidates p ex"
  have u: "usable ?c p" by (rule pick_candidates_usable [OF False])
  then have c: "?c \<noteq> []" by (simp add: usable_def)
  obtain r' q where q: "pick_algorithm ?c p = (r', q)" by (cases "pick_algorithm ?c p")
  note frame = pool_frame_same [OF algorithm.sched_frame [OF u q]]
  show ?thesis
  proof (cases r')
    case (Picked i)
    have "i \<in> set ?c" using algorithm.sched_choice [OF u q] Picked by auto
    then have "i < length (up_nodes p)" using u by (auto simp: usable_def)
    moreover have "(r, p') = (Picked i, upd_node i (\<lambda>u. u\<lparr>us_selections := us_selections u + 1,
        us_active := us_active u + 1\<rparr>) q)" using assms c q Picked by (simp add: pick_def Let_def)
    ultimately show ?thesis using frame by (simp add: upd_node_actives [where d = 1] upd_node_urls)
  qed (use assms c q frame in \<open>auto simp: pick_def Let_def\<close>)
qed

lemma pick_probe_range: "pick_probe p ex = Some i \<Longrightarrow> i < length (up_nodes p)"
  using hd_in_set [of "eligible p ex True"] hd_in_set [of "eligible p ex False"]
  by (auto simp: pick_probe_def Let_def eligible_def split: if_splits)

lemma pick_node_charges:
  assumes "pick_node c ex p = (r, p')"
  shows "urls p' = urls p \<and>
    (case r of Picked i \<Rightarrow> i < length (up_nodes p) \<and>
        actives p' = (if fc_probe c then actives p else (actives p)[i := actives p ! i + 1])
     | _ \<Rightarrow> actives p' = actives p)"
  using assms pick_charges [of p ex r p'] pick_probe_range [of p ex]
  by (auto simp: pick_node_def split: if_splits option.splits pick_result.splits)

section \<open>One attempt\<close>

named_theorems handler_simps \<open>what a step of the handler leaves alone\<close>

lemma append_log_frame [handler_simps]:
  "hs_pool (append_log lib env e hs) = hs_pool hs" "hs_cache (append_log lib env e hs) = hs_cache hs"
  "hs_metrics (append_log lib env e hs) = hs_metrics hs" "hs_tunnels (append_log lib env e hs) = hs_tunnels hs"
  "hs_calls (append_log lib env e hs) = hs_calls hs" "hs_read (append_log lib env e hs) = hs_read hs"
  by (cases "hs_log hs"; simp add: append_log_def)+

lemma set_node_health_same:
  "us_active (fst (set_node_health b ch u)) = us_active u" "us_url (fst (set_node_health b ch u)) = us_url u"
  by (simp_all add: set_node_health_def Let_def)

lemma change_health_frame [handler_simps]:
  "actives (hs_pool (change_health lib env route i b st d e hs)) = actives (hs_pool hs)"
  "urls (hs_pool (change_health lib env route i b st d e hs)) = urls (hs_pool hs)"
  "hs_cache (change_health lib env route i b st d e hs) = hs_cache hs"
  "hs_metrics (change_health lib env route i b st d e hs) = hs_metrics hs"
  "hs_tunnels (change_health lib env route i b st d e hs) = hs_tunnels hs"
  "hs_calls (change_health lib env route i b st d e hs) = hs_calls hs"
proof -
  obtain u' ch where h: "set_node_health b \<lparr>hc_upstream = us_url (up_nodes (hs_pool hs) ! i), hc_healthy = b,
      hc_status = st, hc_duration = d, hc_error = e\<rparr> (up_nodes (hs_pool hs) ! i) = (u', ch)"
    by (meson surj_pair)
  have u: "us_active u' = us_active (up_nodes (hs_pool hs) ! i)" "us_url u' = us_url (up_nodes (hs_pool hs) ! i)"
    using set_node_health_same [of b _ "up_nodes (hs_pool hs) ! i"] h by (metis fst_conv)+
  note defs = change_health_def Let_def h prod.case record_health_change_def
  show "actives (hs_pool (change_health lib env route i b st d e hs)) = actives (hs_pool hs)"
    "urls (hs_pool (change_health lib env route i b st d e hs)) = urls (hs_pool hs)"
    "hs_cache (change_health lib env route i b st d e hs) = hs_cache hs"
    "hs_metrics (change_health lib env route i b st d e hs) = hs_metrics hs"
    "hs_tunnels (change_health lib env route i b st d e hs) = hs_tunnels hs"
    "hs_calls (change_health lib env route i b st d e hs) = hs_calls hs"
    unfolding defs by (cases ch; simp add: handler_simps upd_node_same upd_node_urls u)+
qed

lemma health_of_frame [handler_simps]:
  "actives (hs_pool (health_of c n i b st e hs)) = actives (hs_pool hs)"
  "urls (hs_pool (health_of c n i b st e hs)) = urls (hs_pool hs)"
  "hs_cache (health_of c n i b st e hs) = hs_cache hs"
  "hs_metrics (health_of c n i b st e hs) = hs_metrics hs"
  "hs_tunnels (health_of c n i b st e hs) = hs_tunnels hs"
  "hs_calls (health_of c n i b st e hs) = hs_calls hs"
  by (simp_all add: health_of_def handler_simps)

lemma fc_release_frame [handler_simps]:
  "urls (hs_pool (fc_release c n hs)) = urls (hs_pool hs)"
  "hs_cache (fc_release c n hs) = hs_cache hs" "hs_metrics (fc_release c n hs) = hs_metrics hs"
  "hs_tunnels (fc_release c n hs) = hs_tunnels hs" "hs_calls (fc_release c n hs) = hs_calls hs"
  by (simp_all add: fc_release_def upd_pool_def release_actives)

lemma set_err_frame [handler_simps]:
  "ft_state (set_err e f) = ft_state f" "ft_active (set_err e f) = ft_active f" "ft_resp (set_err e f) = ft_resp f"
  "ft_excluded (set_err e f) = ft_excluded f" "rr_upstream_calls (ft_result (set_err e f)) = rr_upstream_calls (ft_result f)"
  "rr_retries (ft_result (set_err e f)) = rr_retries (ft_result f)" "ft_err (set_err e f) = e"
  by (simp_all add: set_err_def)

text \<open>What the bookkeeping of a call does: one call, one count, and no change of connections.\<close>

lemma report_call_frame [handler_simps]:
  "hs_pool (report_call c n r u hs) = hs_pool hs" "hs_cache (report_call c n r u hs) = hs_cache hs"
  "hs_tunnels (report_call c n r u hs) = hs_tunnels hs" "hs_calls (report_call c n r u hs) = hs_calls hs"
  by (simp_all add: report_call_def Let_def record_upstream_attempt_def handler_simps)

lemma record_upstream_calls:
  "ec_up_calls (em_total (record_upstream route u ob m)) = ec_up_calls (em_total m) + 1"
  by (simp add: record_upstream_def upd_both_def upd_route_def Let_def count_upstream_def)

lemma report_call_metrics [handler_simps]:
  "ec_up_calls (em_total (hs_metrics (report_call c n r u hs))) =
     ec_up_calls (em_total (hs_metrics hs)) + (if fc_probe c then 0 else 1)"
  by (simp add: report_call_def Let_def record_upstream_attempt_def handler_simps record_upstream_calls)

lemma observe_call_frame [handler_simps]:
  "actives (hs_pool (observe_call c n i r hs)) = actives (hs_pool hs)"
  "urls (hs_pool (observe_call c n i r hs)) = urls (hs_pool hs)"
  "hs_cache (observe_call c n i r hs) = hs_cache hs" "hs_metrics (observe_call c n i r hs) = hs_metrics hs"
  "hs_tunnels (observe_call c n i r hs) = hs_tunnels hs" "hs_calls (observe_call c n i r hs) = hs_calls hs"
  by (simp_all add: observe_call_def upd_pool_def)

lemma count_call_frame [handler_simps]:
  "hs_pool (count_call c n i out hs) = hs_pool hs" "hs_cache (count_call c n i out hs) = hs_cache hs"
  "hs_metrics (count_call c n i out hs) = hs_metrics hs" "hs_tunnels (count_call c n i out hs) = hs_tunnels hs"
  "hs_calls (count_call c n i out hs) = hs_calls hs @ [(i, out)]"
  by (simp_all add: count_call_def)

lemma note_call_frame [handler_simps]:
  "actives (hs_pool (ft_state (note_call c n i out r f))) = actives (hs_pool (ft_state f))"
  "urls (hs_pool (ft_state (note_call c n i out r f))) = urls (hs_pool (ft_state f))"
  "hs_cache (ft_state (note_call c n i out r f)) = hs_cache (ft_state f)"
  "hs_tunnels (ft_state (note_call c n i out r f)) = hs_tunnels (ft_state f)"
  "hs_calls (ft_state (note_call c n i out r f)) = hs_calls (ft_state f) @ [(i, out)]"
  "ec_up_calls (em_total (hs_metrics (ft_state (note_call c n i out r f)))) =
     ec_up_calls (em_total (hs_metrics (ft_state f))) + (if fc_probe c then 0 else 1)"
  "ft_active (note_call c n i out r f) = ft_active f"
  "ft_resp (note_call c n i out r f) = (case r of Inl _ \<Rightarrow> None | Inr g \<Rightarrow> Some g)"
  "rr_upstream_calls (ft_result (note_call c n i out r f)) = rr_upstream_calls (ft_result f) + 1"
  by (simp_all add: note_call_def Let_def handler_simps note_result_def)

fun fetch_of :: "outcome \<Rightarrow> fetch" where
  "fetch_of (Retry f) = f"
| "fetch_of (Stop f) = f"
| "fetch_of (Crash f) = f"

text \<open>Connections held: one more at the active node, except for probes, which are not counted.\<close>

definition charged :: "fetch_cfg \<Rightarrow> int list \<Rightarrow> nat option \<Rightarrow> int list" where
  "charged c base a = (case a of None \<Rightarrow> base | Some i \<Rightarrow> if fc_probe c then base else base[i := base ! i + 1])"

lemma fc_release_charged:
  assumes "actives (hs_pool hs) = charged c base (Some i)" "i < length base"
  shows "actives (hs_pool (fc_release c (Some i) hs)) = base"
  using assms by (simp add: fc_release_def upd_pool_def charged_def release_actives split: if_splits)

text \<open>Judging an attempt keeps the connection or gives it back, and touches nothing else.\<close>

lemma settle_failure_frame [handler_simps]:
  "urls (hs_pool (ft_state (fetch_of (settle_failure c n i r f)))) = urls (hs_pool (ft_state f))"
  "hs_cache (ft_state (fetch_of (settle_failure c n i r f))) = hs_cache (ft_state f)"
  "hs_metrics (ft_state (fetch_of (settle_failure c n i r f))) = hs_metrics (ft_state f)"
  "hs_tunnels (ft_state (fetch_of (settle_failure c n i r f))) = hs_tunnels (ft_state f)"
  "hs_calls (ft_state (fetch_of (settle_failure c n i r f))) = hs_calls (ft_state f)"
  "rr_upstream_calls (ft_result (fetch_of (settle_failure c n i r f))) = rr_upstream_calls (ft_result f)"
  by (simp_all add: settle_failure_def Let_def handler_simps split: option.split)

lemma settle_frame [handler_simps]:
  "urls (hs_pool (ft_state (fetch_of (settle c n i r f)))) = urls (hs_pool (ft_state f))"
  "hs_cache (ft_state (fetch_of (settle c n i r f))) = hs_cache (ft_state f)"
  "hs_metrics (ft_state (fetch_of (settle c n i r f))) = hs_metrics (ft_state f)"
  "hs_tunnels (ft_state (fetch_of (settle c n i r f))) = hs_tunnels (ft_state f)"
  "hs_calls (ft_state (fetch_of (settle c n i r f))) = hs_calls (ft_state f)"
  "rr_upstream_calls (ft_result (fetch_of (settle c n i r f))) = rr_upstream_calls (ft_result f)"
  by (simp_all add: settle_def Let_def handler_simps)

lemma settle_failure_held:
  assumes "actives (hs_pool (ft_state f)) = charged c base (Some i)" "i < length base" "ft_active f = None"
  shows "actives (hs_pool (ft_state (fetch_of (settle_failure c n i r f)))) =
      charged c base (ft_active (fetch_of (settle_failure c n i r f)))"
    "ft_active (fetch_of (settle_failure c n i r f)) \<in> {None, Some i}"
    "settle_failure c n i r f = Retry f' \<Longrightarrow> ft_active f' = None"
    "settle_failure c n i r f \<noteq> Crash f'"
proof -
  let ?hs = "health_of c n i False (reply_status r) (error_text (attempt_error r))
      (ft_state (set_err (attempt_error r) (f\<lparr>ft_excluded := i # ft_excluded f\<rparr>)))"
  have "actives (hs_pool (fc_release c (Some i) ?hs)) = base"
    using assms by (intro fc_release_charged) (simp_all add: handler_simps)
  then show "actives (hs_pool (ft_state (fetch_of (settle_failure c n i r f)))) =
      charged c base (ft_active (fetch_of (settle_failure c n i r f)))"
    using assms by (simp add: settle_failure_def Let_def handler_simps charged_def split: option.split)
  show "ft_active (fetch_of (settle_failure c n i r f)) \<in> {None, Some i}"
    using assms(3) by (simp add: settle_failure_def Let_def handler_simps split: option.split)
  show "settle_failure c n i r f = Retry f' \<Longrightarrow> ft_active f' = None"
    using assms(3) by (auto simp: settle_failure_def Let_def handler_simps split: option.splits if_splits)
  show "settle_failure c n i r f \<noteq> Crash f'"
    by (simp add: settle_failure_def Let_def split: option.split)
qed

lemma settle_held:
  assumes "actives (hs_pool (ft_state f)) = charged c base (Some i)" "i < length base" "ft_active f = None"
  shows "actives (hs_pool (ft_state (fetch_of (settle c n i r f)))) =
      charged c base (ft_active (fetch_of (settle c n i r f)))"
    "ft_active (fetch_of (settle c n i r f)) \<in> {None, Some i}"
    "settle c n i r f = Retry f' \<Longrightarrow> ft_active f' = None"
    "settle c n i r f \<noteq> Crash f'"
proof -
  note failure = settle_failure_held [OF assms]
  have rel: "actives (hs_pool (fc_release c (Some i) (ft_state f))) = base"
    using assms by (intro fc_release_charged)
  show "actives (hs_pool (ft_state (fetch_of (settle c n i r f)))) =
      charged c base (ft_active (fetch_of (settle c n i r f)))"
    using assms failure(1) rel by (simp add: settle_def Let_def handler_simps charged_def)
  show "ft_active (fetch_of (settle c n i r f)) \<in> {None, Some i}"
    using assms(3) failure(2) by (simp add: settle_def Let_def handler_simps)
  show "settle c n i r f = Retry f' \<Longrightarrow> ft_active f' = None"
    using failure(3) by (simp add: settle_def Let_def split: if_splits)
  show "settle c n i r f \<noteq> Crash f'" using failure(4) by (simp add: settle_def Let_def)
qed

section \<open>The retry loop\<close>

text \<open>A request that \<^verbatim>\<open>cloneRequest\<close> built for the node with this index.\<close>

definition sent_to :: "fetch_cfg \<Rightarrow> go_url list \<Rightarrow> nat \<times> edge_request \<Rightarrow> bool" where
  "sent_to c us call \<longleftrightarrow> fst call < length us \<and>
     (\<exists>node. us_url node = us ! fst call \<and>
       clone_request (fc_req c) node (fc_route c) (fc_id c) (fc_ffh c) = Inr (snd call))"

text \<open>Everything but connections that at most \<open>k\<close> attempts may change.\<close>

definition progress :: "fetch_cfg \<Rightarrow> nat \<Rightarrow> fetch \<Rightarrow> fetch \<Rightarrow> bool" where
  "progress c k f f' \<longleftrightarrow>
     urls (hs_pool (ft_state f')) = urls (hs_pool (ft_state f)) \<and>
     hs_cache (ft_state f') = hs_cache (ft_state f) \<and> hs_tunnels (ft_state f') = hs_tunnels (ft_state f) \<and>
     (\<exists>calls. hs_calls (ft_state f') = hs_calls (ft_state f) @ calls \<and> length calls \<le> k \<and>
        rr_upstream_calls (ft_result f') = rr_upstream_calls (ft_result f) + of_nat (length calls) \<and>
        ec_up_calls (em_total (hs_metrics (ft_state f'))) = ec_up_calls (em_total (hs_metrics (ft_state f)))
          + (if fc_probe c then 0 else of_nat (length calls)) \<and>
        list_all (sent_to c (urls (hs_pool (ft_state f)))) calls)"

lemma progress_refl: "progress c k f f"
  by (auto simp: progress_def intro: exI [of _ "[]"])

lemma progress_trans:
  assumes "progress c k f g" "progress c l g h" shows "progress c (k + l) f h"
proof -
  from assms obtain xs ys where
    x: "hs_calls (ft_state g) = hs_calls (ft_state f) @ xs" "length xs \<le> k"
      "rr_upstream_calls (ft_result g) = rr_upstream_calls (ft_result f) + of_nat (length xs)"
      "ec_up_calls (em_total (hs_metrics (ft_state g))) = ec_up_calls (em_total (hs_metrics (ft_state f)))
          + (if fc_probe c then 0 else of_nat (length xs))"
      "list_all (sent_to c (urls (hs_pool (ft_state f)))) xs"
    and y: "hs_calls (ft_state h) = hs_calls (ft_state g) @ ys" "length ys \<le> l"
      "rr_upstream_calls (ft_result h) = rr_upstream_calls (ft_result g) + of_nat (length ys)"
      "ec_up_calls (em_total (hs_metrics (ft_state h))) = ec_up_calls (em_total (hs_metrics (ft_state g)))
          + (if fc_probe c then 0 else of_nat (length ys))"
      "list_all (sent_to c (urls (hs_pool (ft_state g)))) ys"
    unfolding progress_def by blast
  have u: "urls (hs_pool (ft_state g)) = urls (hs_pool (ft_state f))" using assms(1) by (simp add: progress_def)
  show ?thesis
    unfolding progress_def
    using assms x y u by (auto simp: progress_def intro!: exI [of _ "xs @ ys"])
qed

lemma attempt_step_progress: "progress c 1 f (fetch_of (attempt_step c n f))"
proof -
  obtain r p' where pk: "pick_node c (ft_excluded f) (hs_pool (ft_state f)) = (r, p')" by (meson surj_pair)
  note charges = pick_node_charges [OF pk]
  let ?f = "f\<lparr>ft_state := (ft_state f)\<lparr>hs_pool := p'\<rparr>\<rparr>"
  have same: "progress c 0 f ?f"
    using charges by (auto simp: progress_def intro: exI [of _ "[]"])
  have quiet: "progress c 1 f g" if "progress c 0 ?f g" for g
    using progress_trans [OF same that] by (auto simp: progress_def)
  show ?thesis
  proof (cases r)
    case (Picked i)
    show ?thesis
    proof (cases "clone_request (fc_req c) (up_nodes p' ! i) (fc_route c) (fc_id c) (fc_ffh c)")
      case (Inl e)
      have "progress c 0 ?f (?f\<lparr>ft_err := Some e, ft_state := fc_release c (Some i) (ft_state ?f)\<rparr>)"
        by (auto simp: progress_def handler_simps intro: exI [of _ "[]"])
      from quiet [OF this] show ?thesis
        unfolding attempt_step_def pk prod.case Let_def Picked pick_result.case Inl sum.case fetch_of.simps .
    next
      case (Inr out)
      let ?r = "ev_origin (fc_env c) n i out"
      have "length (up_nodes p') = length (up_nodes (hs_pool (ft_state f)))"
        using charges by (metis length_map urls_def)
      then have "i < length (up_nodes p')" using charges Picked by simp
      then have "sent_to c (urls p') (i, out)"
        using Inr by (auto simp: sent_to_def urls_def intro!: exI [of _ "up_nodes p' ! i"])
      then have "progress c 1 ?f (fetch_of (settle c n i ?r (note_call c n i out ?r ?f)))"
        by (auto simp: progress_def handler_simps intro!: exI [of _ "[(i, out)]"])
      from progress_trans [OF same this] show ?thesis
        unfolding attempt_step_def pk prod.case Let_def Picked pick_result.case Inr sum.case by simp
    qed
  next
    case No_node
    have "progress c 0 ?f (if ft_err ?f = None then ?f\<lparr>ft_err := Some ''no eligible upstream available''\<rparr> else ?f)"
      by (auto simp: progress_def intro: exI [of _ "[]"])
    from quiet [OF this] show ?thesis
      unfolding attempt_step_def pk prod.case Let_def No_node pick_result.case fetch_of.simps .
  next
    case Panicked
    from quiet [OF progress_refl] show ?thesis
      unfolding attempt_step_def pk prod.case Let_def Panicked pick_result.case fetch_of.simps .
  qed
qed

lemma attempt_step_held:
  assumes "ft_active f = None"
  shows "actives (hs_pool (ft_state (fetch_of (attempt_step c n f)))) =
      charged c (actives (hs_pool (ft_state f))) (ft_active (fetch_of (attempt_step c n f))) \<and>
    (\<forall>i. ft_active (fetch_of (attempt_step c n f)) = Some i \<longrightarrow> i < length (actives (hs_pool (ft_state f)))) \<and>
    (\<forall>f'. attempt_step c n f = Retry f' \<or> attempt_step c n f = Crash f' \<longrightarrow> ft_active f' = None)"
proof -
  let ?base = "actives (hs_pool (ft_state f))"
  obtain r p' where pk: "pick_node c (ft_excluded f) (hs_pool (ft_state f)) = (r, p')" by (meson surj_pair)
  note charges = pick_node_charges [OF pk]
  let ?f = "f\<lparr>ft_state := (ft_state f)\<lparr>hs_pool := p'\<rparr>\<rparr>"
  show ?thesis
  proof (cases r)
    case (Picked i)
    have i: "i < length ?base" and a: "actives p' = charged c ?base (Some i)"
      using charges Picked by (auto simp: charged_def)
    show ?thesis
    proof (cases "clone_request (fc_req c) (up_nodes p' ! i) (fc_route c) (fc_id c) (fc_ffh c)")
      case (Inl e)
      have "actives (hs_pool (fc_release c (Some i) (ft_state ?f))) = ?base"
        using a i by (intro fc_release_charged) simp_all
      then show ?thesis
        unfolding attempt_step_def pk prod.case Let_def Picked pick_result.case Inl sum.case fetch_of.simps
        using assms by (simp add: charged_def)
    next
      case (Inr out)
      let ?r = "ev_origin (fc_env c) n i out"
      have h: "actives (hs_pool (ft_state (note_call c n i out ?r ?f))) = charged c ?base (Some i)"
        "ft_active (note_call c n i out ?r ?f) = None" using a assms by (simp_all add: handler_simps)
      note held = settle_held [OF h(1) i h(2), where r = ?r and n = n]
      show ?thesis
        unfolding attempt_step_def pk prod.case Let_def Picked pick_result.case Inr sum.case
        using held i by auto
    qed
  next
    case No_node
    then have "actives p' = ?base" using charges by simp
    then show ?thesis
      unfolding attempt_step_def pk prod.case Let_def No_node pick_result.case fetch_of.simps
      using assms by (simp add: charged_def)
  next
    case Panicked
    then have "actives p' = ?base" using charges by simp
    then show ?thesis
      unfolding attempt_step_def pk prod.case Let_def Panicked pick_result.case fetch_of.simps
      using assms by (simp add: charged_def)
  qed
qed

lemma fetch_loop_progress: "fetch_loop c k n f = (ok, f') \<Longrightarrow> progress c k f f'"
proof (induction k arbitrary: n f)
  case 0
  then show ?case by (simp add: progress_refl)
next
  case (Suc k)
  note step = attempt_step_progress [of c f n]
  have weaken: "progress c (Suc k) f g" if "progress c 1 f g" for g
    using that by (auto simp: progress_def)
  show ?case
  proof (cases "attempt_step c n f")
    case (Retry g)
    then have "progress c k g f'" using Suc by simp
    from progress_trans [OF _ this, of 1] step Retry show ?thesis by simp
  qed (use Suc.prems step weaken in auto)
qed

lemma fetch_loop_held:
  assumes "fetch_loop c k n f = (ok, f')" "ft_active f = None"
  shows "actives (hs_pool (ft_state f')) = charged c (actives (hs_pool (ft_state f))) (ft_active f') \<and>
    (\<forall>i. ft_active f' = Some i \<longrightarrow> i < length (actives (hs_pool (ft_state f)))) \<and> (\<not> ok \<longrightarrow> ft_active f' = None)"
  using assms
proof (induction k arbitrary: n f)
  case 0
  then show ?case by (auto simp: charged_def)
next
  case (Suc k)
  note step = attempt_step_held [OF Suc.prems(2), of c n]
  show ?case
  proof (cases "attempt_step c n f")
    case (Retry g)
    then have g: "ft_active g = None" "actives (hs_pool (ft_state g)) = actives (hs_pool (ft_state f))"
      using step by (simp_all add: charged_def)
    show ?thesis using Suc.IH [OF _ g(1), of "Suc n"] Suc.prems(1) Retry g(2) by simp
  qed (use Suc.prems step in auto)
qed

section \<open>Answering the client\<close>

text \<open>What an answer keeps of the state the loop left: connections, calls and their counts.\<close>

definition settled :: "edge_state \<Rightarrow> request_result \<Rightarrow> edge_state \<Rightarrow> request_result \<Rightarrow> bool" where
  "settled hs res hs' res' \<longleftrightarrow> hs_pool hs' = hs_pool hs \<and> hs_calls hs' = hs_calls hs \<and>
     ec_up_calls (em_total (hs_metrics hs')) = ec_up_calls (em_total (hs_metrics hs)) \<and>
     rr_upstream_calls res' = rr_upstream_calls res"

lemma copy_error_calls [handler_simps]:
  "rr_upstream_calls (record_response_copy_error env err res) = rr_upstream_calls res"
  "rr_cache_status (record_response_copy_error env err res) = rr_cache_status res"
  by (simp_all add: record_response_copy_error_def split: option.split)

lemma invalidate_frame [handler_simps]:
  "hs_pool (invalidate_unsafe_request req st hs) = hs_pool hs"
  "hs_metrics (invalidate_unsafe_request req st hs) = hs_metrics hs"
  "hs_calls (invalidate_unsafe_request req st hs) = hs_calls hs"
  "hs_tunnels (invalidate_unsafe_request req st hs) = hs_tunnels hs"
  by (simp_all add: invalidate_unsafe_request_def split: option.split)

lemma store_entry_settled: "store_entry c resp body pol cache hs = Some hs' \<Longrightarrow> settled hs res hs' res"
  by (auto simp: store_entry_def Let_def settled_def record_cache_store_def upd_both_def upd_route_def
      split: prod.splits option.splits if_splits)

lemma serve_stale_settled: "serve_stale c entry res w hs = (res', w', hs') \<Longrightarrow> settled hs res hs' res'"
  by (auto simp: serve_stale_def settled_def handler_simps split: prod.splits)

lemma serve_upgrade_settled: "serve_upgrade c g res w hs = (res', w', hs') \<Longrightarrow> settled hs res hs' res'"
  by (auto simp: serve_upgrade_def settled_def Let_def split: prod.splits option.splits)

lemma pass_through_settled: "pass_through env b g res w hs = (res', w', hs') \<Longrightarrow> settled hs res hs' res' \<and> hs' = hs"
  by (auto simp: pass_through_def settled_def Let_def handler_simps split: prod.splits if_splits)

lemma settled_trans: "settled hs res hs1 res1 \<Longrightarrow> settled hs1 res1 hs2 res2 \<Longrightarrow> settled hs res hs2 res2"
  by (simp add: settled_def)

text \<open>The two ways a response is forwarded: without the cache, or stored after a complete copy.\<close>

lemma forward_response_cases:
  assumes "forward_response c cs store g res w hs = Some (res', w', hs')"
  defines "hs1 \<equiv> invalidate_unsafe_request (eq_http (fc_req c)) (or_status (og_response g)) hs"
  defines "resp \<equiv> (og_response g)\<lparr>or_header := forwarded_headers (or_header (og_response g))\<rparr>"
  defines "policy \<equiv> response_cache_policy (xl_parse_time (fc_lib c)) resp (rc_cache (fc_route c)) (ev_now_policy (fc_env c))"
  obtains (through) "hs' = hs1" "rr_upstream_calls res' = rr_upstream_calls res"
  | (stored) cache pol w0 buf where "hs_cache hs1 = Some cache" "policy = Some pol" "store"
      "rq_method (eq_http (fc_req c)) \<noteq> ''HEAD''"
      "copy_body (multi_write (ev_out (fc_env c))) (og_chunks g) (og_read_err g)
         (w0, \<lparr>cb_buf = [], cb_max = cc_max_object_bytes (rc_cache (fc_route c)), cb_overflow = False\<rparr>) = (None, w', buf)"
      "\<not> cb_overflow buf" "store_entry c resp (cb_buf buf) pol cache hs1 = Some hs'"
      "rr_upstream_calls res' = rr_upstream_calls res"
proof -
  let ?w = "upd_header (answer_headers (or_header resp) cs (rr_upstream_duration res)) w"
  have through': thesis if "Some (pass_through (fc_env c) b g res ?w hs1) = Some (res', w', hs')" for b
    using that pass_through_settled [of "fc_env c" b g res ?w hs1 res' w' hs'] through by (simp add: settled_def)
  let ?w0 = "capture_write_header (or_status (og_response g)) ?w"
  let ?buf0 = "\<lparr>cb_buf = [], cb_max = cc_max_object_bytes (rc_cache (fc_route c)), cb_overflow = False\<rparr>"
  obtain err w1 buf where copy: "copy_body (multi_write (ev_out (fc_env c))) (og_chunks g) (og_read_err g) (?w0, ?buf0) = (err, w1, buf)"
    by (metis surj_pair)
  note eq = assms(1) [unfolded forward_response_def Let_def, folded hs1_def, folded resp_def, folded policy_def]
  show thesis
  proof (cases "hs_cache hs1")
    case None
    with eq through' show thesis by (cases policy) auto
  next
    case (Some cache)
    show thesis
    proof (cases policy)
      case None
      with eq Some through' show thesis by auto
    next
      case pol: (Some pol)
      show thesis
      proof (cases "\<not> store \<or> rq_method (eq_http (fc_req c)) = ''HEAD''")
        case True
        with eq Some pol through' show thesis by (auto split: if_splits)
      next
        case False
        show thesis
        proof (cases "err = None \<and> \<not> cb_overflow buf")
          case True
          then show thesis
            using eq Some pol False copy stored [of cache pol ?w0 buf] by (auto simp: handler_simps)
        next
          case bad: False
          then show thesis using eq Some pol False copy through by (auto simp: handler_simps)
        qed
      qed
    qed
  qed
qed

lemma forward_response_settled:
  assumes "forward_response c cs store g res w hs = Some (res', w', hs')" shows "settled hs res hs' res'"
  using assms
proof (cases rule: forward_response_cases)
  case through
  then show ?thesis by (simp add: settled_def handler_simps)
next
  case (stored cache pol w0 buf)
  from store_entry_settled [OF stored(7), of res] stored(8) show ?thesis by (simp add: settled_def handler_simps)
qed

lemma answer_client_settled:
  assumes "answer_client c stale cs store f w = Some (res', w', hs')"
  shows "settled (ft_state f) (ft_result f) hs' res'"
proof (cases "rr_canceled (ft_result f) \<or> ev_client (fc_env c) After_Loop \<noteq> None")
  case True
  then show ?thesis using assms by (auto simp: answer_client_def Let_def settled_def)
next
  case False
  show ?thesis
    using assms False serve_stale_settled serve_upgrade_settled forward_response_settled
    by (auto simp: answer_client_def Let_def settled_def split: option.splits if_splits; blast)
qed

section \<open>A whole request\<close>

text \<open>Every connection is given back, and the calls made are counted and were built for this request.\<close>

definition accounted :: "fetch_cfg \<Rightarrow> edge_state \<Rightarrow> edge_state \<Rightarrow> request_result option \<Rightarrow> bool" where
  "accounted c hs hs' r \<longleftrightarrow> actives (hs_pool hs') = actives (hs_pool hs) \<and>
     (\<exists>calls. hs_calls hs' = hs_calls hs @ calls \<and> length calls \<le> nat (fc_attempts c) \<and>
        list_all (sent_to c (urls (hs_pool hs))) calls \<and>
        ec_up_calls (em_total (hs_metrics hs')) = ec_up_calls (em_total (hs_metrics hs))
          + (if fc_probe c then 0 else of_nat (length calls)) \<and>
        (\<forall>res. r = Some res \<longrightarrow> rr_upstream_calls res = of_nat (length calls)))"

lemma accounted_idle:
  assumes "hs_pool hs' = hs_pool hs" "hs_calls hs' = hs_calls hs" "hs_metrics hs' = hs_metrics hs"
    "\<And>res. r = Some res \<Longrightarrow> rr_upstream_calls res = 0"
  shows "accounted c hs hs' r"
  using assms by (auto simp: accounted_def intro!: exI [of _ "[]"])

lemma fetch_and_serve_accounted:
  assumes "fetch_and_serve c stale cs store w hs = Some (r, w', hs')"
  shows "accounted c hs hs' r"
proof -
  obtain ok f where run: "fetch_loop c (nat (fc_attempts c)) 0 (start_fetch cs hs) = (ok, f)" by (meson surj_pair)
  have start: "ft_state (start_fetch cs hs) = hs" "ft_active (start_fetch cs hs) = None"
    "rr_upstream_calls (ft_result (start_fetch cs hs)) = 0" by (simp_all add: start_fetch_def new_result_def)
  note held = fetch_loop_held [OF run start(2), unfolded start(1)]
  from fetch_loop_progress [OF run] obtain calls where
    calls: "hs_calls (ft_state f) = hs_calls hs @ calls" "length calls \<le> nat (fc_attempts c)"
      "rr_upstream_calls (ft_result f) = of_nat (length calls)"
      "ec_up_calls (em_total (hs_metrics (ft_state f))) = ec_up_calls (em_total (hs_metrics hs))
          + (if fc_probe c then 0 else of_nat (length calls))"
      "list_all (sent_to c (urls (hs_pool hs))) calls"
    unfolding progress_def start by auto
  show ?thesis
  proof (cases ok)
    case False
    then have "r = None" "hs' = ft_state f" using assms run by (auto simp: fetch_and_serve_def)
    then show ?thesis
      using held False calls by (auto simp: accounted_def charged_def intro!: exI [of _ calls])
  next
    case True
    then obtain res hs1 where a: "answer_client c stale cs store f w = Some (res, w', hs1)"
      and r: "r = Some res" "hs' = fc_release c (ft_active f) hs1"
      using assms run by (auto simp: fetch_and_serve_def)
    note s = answer_client_settled [OF a, unfolded settled_def]
    have "actives (hs_pool hs') = actives (hs_pool hs)"
    proof (cases "ft_active f")
      case None
      then show ?thesis using r s held by (simp add: charged_def fc_release_def upd_pool_def release_actives)
    next
      case (Some i)
      then show ?thesis unfolding r Some using s held Some by (intro fc_release_charged) simp_all
    qed
    then show ?thesis
      using s calls r by (auto simp: accounted_def handler_simps intro!: exI [of _ calls])
  qed
qed

lemma lookup_cache_cases:
  assumes "lookup_cache req key now cache = (l, cache')"
  shows "(\<forall>e. l = Hit e \<longrightarrow> fst (cache_get key now cache) = (e, True, False) \<and> request_allows_cached_entry (Some req) e now) \<and>
    (\<forall>e. l = Kept (Some e) \<longrightarrow> fst (cache_get key now cache) = (e, False, True) \<and> request_allows_cached_entry (Some req) e now) \<and>
    cache' = snd (cache_get key now cache)"
  using assms
  by (auto simp: lookup_cache_def cache_get_def Let_def split: option.splits if_splits)

lemma serve_hit_frame:
  "serve_hit c p e now w hs = (r, w', hs') \<Longrightarrow> hs' = hs \<and> (\<forall>res. r = Some res \<longrightarrow> rr_upstream_calls res = 0)"
  by (auto simp: serve_hit_def handler_simps new_result_def split: prod.splits)

lemma accounted_cache: "accounted c (hs\<lparr>hs_cache := x\<rparr>) hs' r = accounted c hs hs' r"
  by (simp add: accounted_def)

lemma fill_accounted:
  assumes "fill c look store key w hs = Some (r, w', hs')" shows "accounted c hs hs' r"
proof (cases "look \<and> hs_cache hs \<noteq> None")
  case False
  then show ?thesis
    using assms fetch_and_serve_accounted by (auto simp: fill_def intro: accounted_idle split: if_splits option.splits)
next
  case True
  then obtain cache where cache: "hs_cache hs = Some cache" by auto
  obtain l cache' where l: "lookup_cache (eq_http (fc_req c)) key (ev_now_second (fc_env c)) cache = (l, cache')"
    by (meson surj_pair)
  show ?thesis
  proof (cases l)
    case (Hit e)
    with assms True cache l have "serve_hit c At_Second_Hit e (ev_now_second (fc_env c)) w (hs\<lparr>hs_cache := Some cache'\<rparr>)
        = (r, w', hs')" by (simp add: fill_def)
    from serve_hit_frame [OF this] show ?thesis by (intro accounted_idle) auto
  next
    case (Kept stale)
    with assms True cache l have "fetch_and_serve c stale ''MISS'' store w (hs\<lparr>hs_cache := Some cache'\<rparr>) = Some (r, w', hs')"
      by (simp add: fill_def)
    from fetch_and_serve_accounted [OF this] show ?thesis by (simp add: accounted_cache)
  qed
qed

text \<open>
  A lookup updates the recency of its entry or drops an expired one. \<open>lock_state\<close> is the state in which a request holds the fill lock of its
  key: the first lookup, if the request looks at the cache, and then what other requests did while it waited. The
  own work of a request starts at once or there.
\<close>

definition touch_cache :: "fetch_cfg \<Rightarrow> time \<Rightarrow> edge_state \<Rightarrow> edge_state" where
  "touch_cache c now hs = hs\<lparr>hs_cache := map_option (\<lambda>cache. snd (cache_get
     (cache_key (xl_sha256 (fc_lib c)) (eq_http (fc_req c)) (rc_cache (fc_route c))) now cache)) (hs_cache hs)\<rparr>"

definition lock_state :: "fetch_cfg \<Rightarrow> (edge_state \<Rightarrow> edge_state) \<Rightarrow> edge_state \<Rightarrow> edge_state" where
  "lock_state c wait hs =
     after_wait wait (if fst (request_cache_mode (eq_http (fc_req c)) (rc_cache (fc_route c))) then touch_cache c (ev_now_first (fc_env c)) hs else hs)"

definition own_start :: "fetch_cfg \<Rightarrow> (edge_state \<Rightarrow> edge_state) \<Rightarrow> edge_state \<Rightarrow> edge_state \<Rightarrow> bool" where
  "own_start c wait hs s \<longleftrightarrow> s = hs \<or> s = lock_state c wait hs"

lemma touch_cache_frame [handler_simps]:
  "hs_pool (touch_cache c now hs) = hs_pool hs" "hs_calls (touch_cache c now hs) = hs_calls hs"
  "hs_read (touch_cache c now hs) = hs_read hs" "hs_metrics (touch_cache c now hs) = hs_metrics hs"
  "hs_log (touch_cache c now hs) = hs_log hs" "hs_tunnels (touch_cache c now hs) = hs_tunnels hs"
  by (simp_all add: touch_cache_def)

lemma lock_state_calls [handler_simps]: "hs_calls (lock_state c wait hs) = hs_calls hs"
  by (simp add: lock_state_def after_wait_def touch_cache_def)

lemma own_start_calls: "own_start c wait hs s \<Longrightarrow> hs_calls s = hs_calls hs"
  by (auto simp: own_start_def lock_state_calls)

lemma lookup_touches:
  assumes "hs_cache hs = Some cache"
    "lookup_cache (eq_http (fc_req c)) (cache_key (xl_sha256 (fc_lib c)) (eq_http (fc_req c)) (rc_cache (fc_route c))) now cache = (l, cache')"
  shows "hs\<lparr>hs_cache := Some cache'\<rparr> = touch_cache c now hs"
  using lookup_cache_cases [OF assms(2)] assms(1) by (simp add: touch_cache_def)

text \<open>The ways a request can go, once its upgrade headers are known to be valid.\<close>

lemma handle_route_cases:
  assumes "handle_route c wait w hs = Some (r, w', hs')"
  defines "req \<equiv> eq_http (fc_req c)"
  defines "key \<equiv> cache_key (xl_sha256 (fc_lib c)) req (rc_cache (fc_route c))"
  obtains (refused) e where "has_protocol_upgrade (rq_header req)" "protocol_upgrade (rq_header req) = Inl e"
      "r = Some ((new_result ''BYPASS'')\<lparr>rr_error := upgrade_error_text e\<rparr>)"
      "w' = http_error (ev_out (fc_env c)) ''bad request'' 400 w" "hs' = hs"
  | (bypass) "fetch_and_serve c None ''BYPASS'' False w hs = Some (r, w', hs')"
  | (crash) "r = None" "w' = w" "hs' = hs"
  | (hit) cache e cache' where "\<not> fc_probe c" "hs_cache hs = Some cache"
      "lookup_cache req key (ev_now_first (fc_env c)) cache = (Hit e, cache')"
      "serve_hit c At_Hit e (ev_now_first (fc_env c)) w (hs\<lparr>hs_cache := Some cache'\<rparr>) = (r, w', hs')"
      "fst (request_cache_mode req (rc_cache (fc_route c)))"
  | (fill) look store where "\<not> fc_probe c" "fst (request_cache_mode req (rc_cache (fc_route c))) = look"
      "fst (snd (request_cache_mode req (rc_cache (fc_route c)))) = store"
      "fill c look store key w (lock_state c wait hs) = Some (r, w', hs')"
proof -
  note eq = assms(1) [unfolded handle_route_def Let_def, folded req_def, folded key_def]
  show thesis
  proof (cases "if has_protocol_upgrade (rq_header req) then protocol_upgrade (rq_header req) else Inr []")
    case (Inl e)
    then show thesis using eq refused by (auto split: if_splits)
  next
    case (Inr v)
    note eq = eq [unfolded Inr sum.case]
    show thesis
    proof (cases "fc_probe c")
      case True
      with eq bypass show thesis by simp
    next
      case False
      obtain look store z where m: "request_cache_mode req (rc_cache (fc_route c)) = (look, store, z)" by (metis surj_pair)
      show thesis
      proof (cases "\<not> look \<and> \<not> store")
        case True
        with eq False m bypass show thesis by simp
      next
        case some: False
        show thesis
        proof (cases look)
          case False
          with eq \<open>\<not> fc_probe c\<close> m some have "fill c look store key w (lock_state c wait hs) = Some (r, w', hs')"
            by (simp add: lock_state_def req_def [symmetric])
          with \<open>\<not> fc_probe c\<close> m fill [of look store] show thesis by simp
        next
          case True
          show thesis
          proof (cases "hs_cache hs")
            case None
            with eq \<open>\<not> fc_probe c\<close> m True crash show thesis by simp
          next
            case (Some cache)
            obtain l cache' where l: "lookup_cache req key (ev_now_first (fc_env c)) cache = (l, cache')" by (meson surj_pair)
            show thesis
            proof (cases l)
              case (Hit e)
              with eq \<open>\<not> fc_probe c\<close> m True Some l hit show thesis by simp
            next
              case (Kept s)
              with eq \<open>\<not> fc_probe c\<close> m True Some l
              have "fill c look store key w (after_wait wait (hs\<lparr>hs_cache := Some cache'\<rparr>)) = Some (r, w', hs')" by simp
              then have "fill c look store key w (lock_state c wait hs) = Some (r, w', hs')"
                using lookup_touches [OF Some l [unfolded req_def key_def]] m True by (simp add: lock_state_def req_def [symmetric])
              with \<open>\<not> fc_probe c\<close> m fill [of look store] show thesis by simp
            qed
          qed
        qed
      qed
    qed
  qed
qed

lemma handle_route_accounted:
  assumes "handle_route c wait w hs = Some (r, w', hs')"
  shows "\<exists>s. own_start c wait hs s \<and> accounted c s hs' r"
  using assms
proof (cases rule: handle_route_cases)
  case (refused e)
  then show ?thesis by (intro exI [of _ hs]) (auto simp: own_start_def new_result_def intro!: accounted_idle)
next
  case bypass
  then show ?thesis using fetch_and_serve_accounted by (auto simp: own_start_def)
next
  case crash
  then show ?thesis by (intro exI [of _ hs]) (auto simp: own_start_def intro!: accounted_idle)
next
  case (hit cache e cache')
  from serve_hit_frame [OF hit(4)] show ?thesis
    by (intro exI [of _ hs]) (auto simp: own_start_def intro!: accounted_idle)
next
  case (fill look store)
  from fill_accounted [OF fill(4)] show ?thesis by (auto simp: own_start_def)
qed

end
