(* ===== verification/Edge_Handler_Cache.thy ===== *)
theory Edge_Handler_Cache
  imports Edge_Handler_Loop
begin

text \<open>
  The shared cache during one request of EdgeProxy: which entries a request may add, which it removes, and
  which entries it is answered from. Every path returns, because the cache operations do.
\<close>

section \<open>The cache during a request\<close>

definition state_ok :: "edge_state \<Rightarrow> bool" where
  "state_ok hs = (case hs_cache hs of None \<Rightarrow> True | Some c \<Rightarrow> cache_inv c)"

definition entries :: "edge_state \<Rightarrow> string \<Rightarrow> cache_entry option" where
  "entries hs k = (case hs_cache hs of None \<Rightarrow> None | Some c \<Rightarrow> map_of (lru_view c) k)"

lemma map_of_filter_key: "map_of (filter (\<lambda>x. \<not> sel (fst x)) xs) k = (if sel k then None else map_of xs k)"
  by (induction xs) auto

lemma cache_get_entries:
  assumes "cache_inv c"
  shows "cache_inv (snd (cache_get key now c))"
    "map_of (lru_view (snd (cache_get key now c))) k = Some e \<Longrightarrow> map_of (lru_view c) k = Some e"
proof -
  show "cache_inv (snd (cache_get key now c))" by (rule cache_get_inv [OF assms])
  have "lru_view (snd (cache_get key now c)) = snd (spec_get key now (lru_view c))"
    using cache_get_refines [of c key now] assms by (simp add: cache_inv_def)
  then show "map_of (lru_view (snd (cache_get key now c))) k = Some e \<Longrightarrow> map_of (lru_view c) k = Some e"
    by (auto simp: spec_get_def map_of_spec_remove split: option.splits if_splits)
qed

lemma cache_set_entries:
  assumes "cache_inv c"
  obtains ok c' where "cache_set key entry c = Some (ok, c')" "cache_inv c'"
    "\<And>k e. map_of (lru_view c') k = Some e \<Longrightarrow> k = key \<and> e = entry \<or> map_of (lru_view c) k = Some e"
proof -
  have inv: "index_inv c" "cache_bounded c" "0 \<le> lc_max_entries c"
    using assms by (auto simp: cache_inv_def cache_bounded_def)
  from cache_set_refines [OF inv(1,3), of key entry] inv(2) obtain ok c' where
    c': "cache_set key entry c = Some (ok, c')" "cache_inv c'"
      "lru_view c' = snd (spec_set (lc_max_entries c) (lc_max_bytes c) key entry (lru_view c))"
    by (metis cache_inv_def snd_conv)
  have "k = key \<and> e = entry \<or> map_of (lru_view c) k = Some e" if k: "map_of (lru_view c') k = Some e" for k e
  proof (cases "lru_view c' = lru_view c")
    case False
    let ?xs = "(key, entry) # spec_remove key (lru_view c)"
    have v: "lru_view c' = fit (lc_max_entries c) (lc_max_bytes c) ?xs"
      using c'(3) False by (simp add: spec_set_def Let_def split: if_splits)
    obtain ys where "?xs = lru_view c' @ ys" using fit_prefix [of ?xs] v by metis
    then have "map_of ?xs k = Some e" using k by (simp add: map_add_dom_app_simps(1) map_add_Some_iff)
    then show ?thesis by (auto simp: map_of_spec_remove split: if_splits)
  qed (use k in simp)
  with c' that show thesis by blast
qed

lemma invalidate_entries:
  assumes "state_ok hs"
  shows "state_ok (invalidate_unsafe_request req st hs)"
    "entries (invalidate_unsafe_request req st hs) k =
       (if unsafe_method (rq_method req) \<and> 200 \<le> st \<and> st < 400
           \<and> purge_request_selects (to_lower (trim_space (cache_host (rq_host req)))) (canonical_request_uri (rq_url req))
               cache_key_request k
        then None else entries hs k)"
proof -
  have "state_ok (invalidate_unsafe_request req st hs) \<and> entries (invalidate_unsafe_request req st hs) k =
       (if unsafe_method (rq_method req) \<and> 200 \<le> st \<and> st < 400
           \<and> purge_request_selects (to_lower (trim_space (cache_host (rq_host req)))) (canonical_request_uri (rq_url req))
               cache_key_request k
        then None else entries hs k)"
  proof (cases "hs_cache hs")
    case None
    then show ?thesis by (simp add: invalidate_unsafe_request_def entries_def state_ok_def)
  next
    case (Some c)
    have inv: "cache_inv c" using assms Some by (simp add: state_ok_def)
    let ?sel = "purge_request_selects (to_lower (trim_space (cache_host (rq_host req)))) (canonical_request_uri (rq_url req))
        cache_key_request"
    from cache_purge_view [of c ?sel] inv obtain c' where
      c': "purge_loop ?sel (lc_items c) (0, c) = (length (filter (\<lambda>x. ?sel (fst x)) (lru_view c)), c')" "cache_inv c'"
        "lru_view c' = filter (\<lambda>x. \<not> ?sel (fst x)) (lru_view c)" by (auto simp: cache_inv_def)
    then show ?thesis
      using Some inv
      by (auto simp: invalidate_unsafe_request_def cache_purge_request_def entries_def state_ok_def map_of_filter_key)
  qed
  then show "state_ok (invalidate_unsafe_request req st hs)"
    "entries (invalidate_unsafe_request req st hs) k =
       (if unsafe_method (rq_method req) \<and> 200 \<le> st \<and> st < 400
           \<and> purge_request_selects (to_lower (trim_space (cache_host (rq_host req)))) (canonical_request_uri (rq_url req))
               cache_key_request k
        then None else entries hs k)" by simp_all
qed

text \<open>An entry made of a response that the request and the response allow, and that was read to its end.\<close>

definition route_key :: "fetch_cfg \<Rightarrow> string" where
  "route_key c = cache_key (xl_sha256 (fc_lib c)) (eq_http (fc_req c)) (rc_cache (fc_route c))"

definition made_from :: "fetch_cfg \<Rightarrow> origin_reply \<Rightarrow> cache_entry \<Rightarrow> bool" where
  "made_from c g e \<longleftrightarrow>
     og_read_err g = None \<and> ce_body e = concat (og_chunks g) \<and> ce_status e = or_status (og_response g) \<and>
     int (length (ce_body e)) \<le> max 0 (cc_max_object_bytes (rc_cache (fc_route c))) \<and>
     ce_header e = h_del ''Set-Cookie'' (forwarded_headers (or_header (og_response g))) \<and>
     response_cache_policy (xl_parse_time (fc_lib c))
       ((og_response g)\<lparr>or_header := forwarded_headers (or_header (og_response g))\<rparr>) (rc_cache (fc_route c))
       (ev_now_policy (fc_env c)) =
       Some (ce_expires_at e, ce_stale_until e, ev_now_policy (fc_env c) - ce_stored_at e)"

definition filled :: "fetch_cfg \<Rightarrow> bool \<Rightarrow> origin_reply \<Rightarrow> string \<Rightarrow> cache_entry \<Rightarrow> bool" where
  "filled c store g k e \<longleftrightarrow> \<not> fc_probe c \<and> store \<and> rq_method (eq_http (fc_req c)) \<noteq> ''HEAD'' \<and> k = route_key c \<and>
     made_from c g e"

lemma store_entry_entries:
  assumes "cache_inv cache" "hs_cache hs = Some cache"
  obtains hs' where "store_entry c resp body (x, y, age) cache hs = Some hs'" "state_ok hs'"
    "\<And>k e. entries hs' k = Some e \<Longrightarrow> entries hs k = Some e \<or> \<not> fc_probe c \<and> k = route_key c \<and>
       e = \<lparr>ce_status = or_status resp, ce_header = h_del ''Set-Cookie'' (or_header resp), ce_body = body,
            ce_stored_at = ev_now_policy (fc_env c) - age, ce_expires_at = x, ce_stale_until = y\<rparr>"
proof (cases "fc_probe c")
  case True
  then show thesis using that [of hs] assms by (simp add: store_entry_def Let_def state_ok_def)
next
  case False
  let ?e = "\<lparr>ce_status = or_status resp, ce_header = h_del ''Set-Cookie'' (or_header resp), ce_body = body,
            ce_stored_at = ev_now_policy (fc_env c) - age, ce_expires_at = x, ce_stale_until = y\<rparr>"
  from cache_set_entries [OF assms(1), of "route_key c" ?e] obtain ok c' where
    c': "cache_set (route_key c) ?e cache = Some (ok, c')" "cache_inv c'"
      "\<And>k e. map_of (lru_view c') k = Some e \<Longrightarrow> k = route_key c \<and> e = ?e \<or> map_of (lru_view cache) k = Some e"
    by blast
  let ?hs = "hs\<lparr>hs_cache := Some c'\<rparr>"
  let ?hs' = "if ok then ?hs\<lparr>hs_metrics := record_cache_store (rc_name (fc_route c)) (hs_metrics ?hs)\<rparr> else ?hs"
  have "store_entry c resp body (x, y, age) cache hs = Some ?hs'"
    using False c'(1) by (simp add: store_entry_def Let_def route_key_def)
  moreover have "state_ok ?hs'" "\<And>k. entries ?hs' k = map_of (lru_view c') k"
    using c'(2) by (simp_all add: state_ok_def entries_def)
  ultimately show thesis using that [of ?hs'] c'(3) assms(2) False by (auto simp: entries_def)
qed

text \<open>A step that returns, keeps the cache well formed and adds only entries of the given kind.\<close>

definition extends :: "(string \<Rightarrow> cache_entry \<Rightarrow> bool) \<Rightarrow> edge_state \<Rightarrow> edge_state \<Rightarrow> bool" where
  "extends P hs hs' \<longleftrightarrow> state_ok hs' \<and> (\<forall>k e. entries hs' k = Some e \<longrightarrow> entries hs k = Some e \<or> P k e)"

lemma extends_same: "state_ok hs \<Longrightarrow> hs_cache hs' = hs_cache hs \<Longrightarrow> extends P hs hs'"
  by (simp add: extends_def state_ok_def entries_def)

lemma extends_trans: "extends P hs hs1 \<Longrightarrow> extends P hs1 hs2 \<Longrightarrow> extends P hs hs2"
  unfolding extends_def by blast

lemma extends_mono: "extends P hs hs' \<Longrightarrow> (\<And>k e. P k e \<Longrightarrow> Q k e) \<Longrightarrow> extends Q hs hs'"
  unfolding extends_def by blast

lemma invalidate_extends: "state_ok hs \<Longrightarrow> extends P hs (invalidate_unsafe_request req st hs)"
  by (auto simp: extends_def invalidate_entries split: if_splits)

lemma extends_cache_get:
  assumes "state_ok hs" "hs_cache hs = Some cache"
  shows "extends P hs (hs\<lparr>hs_cache := Some (snd (lookup_cache req key now cache))\<rparr>)"
proof -
  have "snd (lookup_cache req key now cache) = snd (cache_get key now cache)"
    using lookup_cache_cases [of req key now cache] by (metis surjective_pairing)
  then show ?thesis
    using assms cache_get_entries [of cache key now] by (auto simp: extends_def state_ok_def entries_def)
qed

lemma forward_response_extends:
  assumes ok: "state_ok hs" and run: "forward_response c cs store g res w hs = Some (res', w', hs')"
  shows "extends (filled c store g) hs hs'"
  using run
proof (cases rule: forward_response_cases)
  case through
  then show ?thesis using invalidate_extends [OF ok] by simp
next
  case (stored cache pol w0 buf)
  obtain x y age where pol: "pol = (x, y, age)" by (metis surj_pair)
  let ?hs1 = "invalidate_unsafe_request (eq_http (fc_req c)) (or_status (og_response g)) hs"
  let ?resp = "(og_response g)\<lparr>or_header := forwarded_headers (or_header (og_response g))\<rparr>"
  have inv: "cache_inv cache"
    using invalidate_entries(1) [OF ok, of "eq_http (fc_req c)" "or_status (og_response g)"] stored(1) by (simp add: state_ok_def)
  note body = copy_multi_complete [OF stored(5,6)] copy_multi_bound [OF stored(5)]
  from store_entry_entries [OF inv stored(1), of c ?resp "cb_buf buf" x y age] obtain hs2 where
    hs2: "store_entry c ?resp (cb_buf buf) (x, y, age) cache ?hs1 = Some hs2" "state_ok hs2"
      "\<And>k e. entries hs2 k = Some e \<Longrightarrow> entries ?hs1 k = Some e \<or> \<not> fc_probe c \<and> k = route_key c \<and>
         e = \<lparr>ce_status = or_status ?resp, ce_header = h_del ''Set-Cookie'' (or_header ?resp), ce_body = cb_buf buf,
              ce_stored_at = ev_now_policy (fc_env c) - age, ce_expires_at = x, ce_stale_until = y\<rparr>" by blast
  have "hs' = hs2" using stored(7) hs2(1) pol by simp
  moreover have "filled c store g (route_key c) \<lparr>ce_status = or_status ?resp,
      ce_header = h_del ''Set-Cookie'' (or_header ?resp), ce_body = cb_buf buf,
      ce_stored_at = ev_now_policy (fc_env c) - age, ce_expires_at = x, ce_stale_until = y\<rparr>" if "\<not> fc_probe c"
    using that stored(2,3,4) body pol by (simp add: filled_def made_from_def)
  ultimately have "extends (filled c store g) ?hs1 hs'"
    unfolding extends_def using hs2(2,3) by blast
  then show ?thesis using extends_trans [OF invalidate_extends [OF ok]] by blast
qed

lemma forward_response_returns:
  assumes "state_ok hs" shows "forward_response c cs store g res w hs \<noteq> None"
proof -
  let ?hs1 = "invalidate_unsafe_request (eq_http (fc_req c)) (or_status (og_response g)) hs"
  have "store_entry c resp body pol cache ?hs1 \<noteq> None" if "hs_cache ?hs1 = Some cache" for resp body pol cache
  proof -
    obtain x y age where pol: "pol = (x, y, age)" by (metis surj_pair)
    have "cache_inv cache"
      using invalidate_entries(1) [OF assms, of "eq_http (fc_req c)" "or_status (og_response g)"] that
      by (simp add: state_ok_def)
    from store_entry_entries [OF this that, of c resp body x y age] show ?thesis by (metis option.distinct(1) pol)
  qed
  then show ?thesis
    by (simp add: forward_response_def Let_def del: not_None_eq split: option.split prod.split)
qed

lemma serve_stale_cache: "serve_stale c entry res w hs = (res', w', hs') \<Longrightarrow> hs' = hs"
  by (auto simp: serve_stale_def split: prod.splits)

lemma serve_upgrade_cache: "serve_upgrade c g res w hs = (res', w', hs') \<Longrightarrow> hs_cache hs' = hs_cache hs"
  by (auto simp: serve_upgrade_def Let_def split: prod.splits option.splits)

lemma answer_client_extends:
  assumes ok: "state_ok (ft_state f)" and run: "answer_client c stale cs store f w = Some (res, w', hs')"
  shows "extends (\<lambda>k e. \<exists>g. ft_resp f = Some g \<and> filled c store g k e) (ft_state f) hs'"
proof -
  have fwd: "extends (\<lambda>k e. \<exists>g. ft_resp f = Some g \<and> filled c store g k e) (ft_state f) hs'"
    if "ft_resp f = Some g" "forward_response c cs store g (ft_result f) w (ft_state f) = Some (res, w', hs')" for g
    using forward_response_extends [OF ok that(2)] that(1) by (auto intro: extends_mono)
  have "hs' = ft_state f \<or> hs_cache hs' = hs_cache (ft_state f) \<or>
      (\<exists>g. ft_resp f = Some g \<and> forward_response c cs store g (ft_result f) w (ft_state f) = Some (res, w', hs'))"
    using run serve_stale_cache serve_upgrade_cache
    by (auto simp: answer_client_def Let_def split: option.splits if_splits; blast)
  then show ?thesis using fwd extends_same [OF ok] by auto
qed

lemma answer_client_returns:
  assumes "state_ok (ft_state f)" shows "answer_client c stale cs store f w \<noteq> None"
  using forward_response_returns [OF assms]
  by (simp add: answer_client_def Let_def del: not_None_eq split: option.split prod.split)

subsection \<open>Responses come from origins\<close>

text \<open>The response the loop keeps is the answer of an origin to one of the calls made.\<close>

definition answered :: "fetch_cfg \<Rightarrow> fetch \<Rightarrow> bool" where
  "answered c f \<longleftrightarrow> (\<forall>g. ft_resp f = Some g \<longrightarrow>
     (\<exists>n i out. (i, out) \<in> set (hs_calls (ft_state f)) \<and> ev_origin (fc_env c) n i out = Inr g))"

lemma settle_resp:
  "ft_resp (fetch_of (settle c n i r f)) = None \<or> ft_resp (fetch_of (settle c n i r f)) = ft_resp f"
  by (simp add: settle_def settle_failure_def Let_def handler_simps split: option.split)

lemma attempt_step_answered:
  assumes "answered c f" shows "answered c (fetch_of (attempt_step c n f))"
proof -
  obtain r p' where pk: "pick_node c (ft_excluded f) (hs_pool (ft_state f)) = (r, p')" by (meson surj_pair)
  let ?f = "f\<lparr>ft_state := (ft_state f)\<lparr>hs_pool := p'\<rparr>\<rparr>"
  show ?thesis
  proof (cases r)
    case (Picked i)
    show ?thesis
    proof (cases "clone_request (fc_req c) (up_nodes p' ! i) (fc_route c) (fc_id c) (fc_ffh c)")
      case (Inl e)
      show ?thesis
        unfolding attempt_step_def pk prod.case Let_def Picked pick_result.case Inl sum.case fetch_of.simps
        using assms by (simp add: answered_def handler_simps)
    next
      case (Inr out)
      let ?r = "ev_origin (fc_env c) n i out"
      let ?g = "fetch_of (settle c n i ?r (note_call c n i out ?r ?f))"
      have "answered c ?g"
        unfolding answered_def
      proof (intro allI impI)
        fix g assume "ft_resp ?g = Some g"
        with settle_resp [of c n i ?r "note_call c n i out ?r ?f"] have "?r = Inr g"
          by (auto simp: handler_simps split: sum.splits)
        moreover have "(i, out) \<in> set (hs_calls (ft_state ?g))" by (simp add: handler_simps)
        ultimately show "\<exists>n i out. (i, out) \<in> set (hs_calls (ft_state ?g)) \<and> ev_origin (fc_env c) n i out = Inr g" by blast
      qed
      then show ?thesis
        unfolding attempt_step_def pk prod.case Let_def Picked pick_result.case Inr sum.case .
    qed
  next
    case No_node
    then show ?thesis
      unfolding attempt_step_def pk prod.case Let_def No_node pick_result.case fetch_of.simps
      using assms by (simp add: answered_def)
  next
    case Panicked
    then show ?thesis
      unfolding attempt_step_def pk prod.case Let_def Panicked pick_result.case fetch_of.simps
      using assms by (simp add: answered_def)
  qed
qed

lemma fetch_loop_answered: "fetch_loop c k n f = (ok, f') \<Longrightarrow> answered c f \<Longrightarrow> answered c f'"
proof (induction k arbitrary: n f)
  case (Suc k)
  note step = attempt_step_answered [OF Suc.prems(2), of n]
  show ?case
    by (cases "attempt_step c n f") (use Suc step in auto)
qed simp

text \<open>The kind of entry that a request may add.\<close>

definition fresh_fill :: "fetch_cfg \<Rightarrow> bool \<Rightarrow> edge_state \<Rightarrow> string \<Rightarrow> cache_entry \<Rightarrow> bool" where
  "fresh_fill c store hs' k e \<longleftrightarrow>
     (\<exists>g n i out. (i, out) \<in> set (hs_calls hs') \<and> ev_origin (fc_env c) n i out = Inr g \<and> filled c store g k e)"

lemma fetch_and_serve_extends:
  assumes ok: "state_ok hs" and run: "fetch_and_serve c stale cs store w hs = Some (r, w', hs')"
  shows "extends (fresh_fill c store hs') hs hs'"
proof -
  obtain b f where loop: "fetch_loop c (nat (fc_attempts c)) 0 (start_fetch cs hs) = (b, f)" by (meson surj_pair)
  have cache: "hs_cache (ft_state f) = hs_cache hs"
    using fetch_loop_progress [OF loop] by (simp add: progress_def start_fetch_def)
  then have ok1: "state_ok (ft_state f)" using ok by (simp add: state_ok_def)
  have "answered c (start_fetch cs hs)" by (simp add: answered_def start_fetch_def)
  from fetch_loop_answered [OF loop this] have ans: "answered c f" .
  show ?thesis
  proof (cases b)
    case False
    then show ?thesis using run loop cache extends_same [OF ok] by (auto simp: fetch_and_serve_def)
  next
    case True
    then obtain res hs1 where a: "answer_client c stale cs store f w = Some (res, w', hs1)"
      and h: "hs' = fc_release c (ft_active f) hs1" using run loop by (auto simp: fetch_and_serve_def)
    have "hs_calls hs' = hs_calls (ft_state f)"
      using answer_client_settled [OF a] h by (simp add: settled_def handler_simps)
    then have "extends (fresh_fill c store hs') (ft_state f) hs1"
      using answer_client_extends [OF ok1 a] ans unfolding answered_def fresh_fill_def
      by (elim extends_mono) fastforce
    then show ?thesis
      using cache h by (simp add: extends_def entries_def state_ok_def handler_simps)
  qed
qed

lemma fetch_and_serve_returns:
  assumes "state_ok hs" shows "fetch_and_serve c stale cs store w hs \<noteq> None"
proof -
  obtain b f where loop: "fetch_loop c (nat (fc_attempts c)) 0 (start_fetch cs hs) = (b, f)" by (meson surj_pair)
  have "state_ok (ft_state f)"
    using fetch_loop_progress [OF loop] assms by (simp add: progress_def start_fetch_def state_ok_def)
  from answer_client_returns [OF this, of c stale cs store w] loop show ?thesis
    by (cases b) (simp_all add: fetch_and_serve_def del: not_None_eq)
qed

subsection \<open>Cache hits and stale answers\<close>

text \<open>An entry served as a hit, or kept for errors, at the instant of the lookup.\<close>

definition fresh_entry :: "fetch_cfg \<Rightarrow> edge_state \<Rightarrow> time \<Rightarrow> cache_entry \<Rightarrow> bool" where
  "fresh_entry c hs now e \<longleftrightarrow> entries hs (route_key c) = Some e \<and> now \<le> ce_expires_at e \<and> now \<le> ce_stale_until e \<and>
     request_allows_cached_entry (Some (eq_http (fc_req c))) e now"

definition stale_entry :: "fetch_cfg \<Rightarrow> edge_state \<Rightarrow> time \<Rightarrow> cache_entry \<Rightarrow> bool" where
  "stale_entry c hs now e \<longleftrightarrow> entries hs (route_key c) = Some e \<and> ce_expires_at e < now \<and> now \<le> ce_stale_until e \<and>
     request_allows_cached_entry (Some (eq_http (fc_req c))) e now"

lemma lookup_cache_entry:
  assumes "state_ok hs" "hs_cache hs = Some cache"
    "lookup_cache (eq_http (fc_req c)) (route_key c) now cache = (l, cache')"
  shows "l = Hit e \<Longrightarrow> fresh_entry c hs now e" "l = Kept (Some e) \<Longrightarrow> stale_entry c hs now e"
proof -
  have inv: "index_inv cache" using assms by (simp add: state_ok_def cache_inv_def)
  have get: "fst (cache_get (route_key c) now cache) = fst (spec_get (route_key c) now (lru_view cache))"
    using cache_get_refines [OF inv] by simp
  note cs = lookup_cache_cases [OF assms(3), unfolded get]
  show "l = Hit e \<Longrightarrow> fresh_entry c hs now e" "l = Kept (Some e) \<Longrightarrow> stale_entry c hs now e"
    using cs assms(2) by (auto simp: fresh_entry_def stale_entry_def entries_def spec_get_def split: option.splits if_splits)
qed

text \<open>The loop found no usable response of an origin.\<close>

definition origins_failed :: "fetch \<Rightarrow> bool" where
  "origins_failed f \<longleftrightarrow> ft_err f \<noteq> None \<or> ft_resp f = None \<or>
     (\<exists>g. ft_resp f = Some g \<and> retryable_status (or_status (og_response g)))"

lemma forward_response_status:
  assumes "forward_response c cs store g res w hs = Some (res', w', hs')"
    "rr_cache_status res = cs" "cs = ''MISS'' \<or> cs = ''BYPASS''"
  shows "rr_cache_status res' \<noteq> ''HIT'' \<and> rr_cache_status res' \<noteq> ''STALE''"
  using assms
  by (auto simp: forward_response_def pass_through_def Let_def handler_simps split: prod.splits option.splits if_splits)

lemma loop_cache_status:
  "rr_cache_status (ft_result (note_call c n i out r f)) = rr_cache_status (ft_result f)"
  "rr_cache_status (ft_result (set_err e f)) = rr_cache_status (ft_result f)"
  by (simp_all add: note_call_def note_result_def Let_def set_err_def)

lemma settle_status [handler_simps]:
  "rr_cache_status (ft_result (fetch_of (settle c n i r f))) = rr_cache_status (ft_result f)"
  by (simp add: settle_def settle_failure_def Let_def loop_cache_status split: option.split)

lemma attempt_step_status:
  "rr_cache_status (ft_result (fetch_of (attempt_step c n f))) = rr_cache_status (ft_result f)"
  by (simp add: attempt_step_def Let_def handler_simps loop_cache_status split: prod.split pick_result.split sum.split)

lemma fetch_loop_status: "fetch_loop c k n f = (ok, f') \<Longrightarrow> rr_cache_status (ft_result f') = rr_cache_status (ft_result f)"
proof (induction k arbitrary: n f)
  case (Suc k)
  note step = attempt_step_status [of c n f]
  show ?case by (cases "attempt_step c n f") (use Suc step in auto)
qed simp

text \<open>When the loop ends without a usable response, every call it made failed: no answer, or a status that is worth a retry.\<close>

definition failed_reply :: "transport_error + origin_reply \<Rightarrow> bool" where
  "failed_reply r \<longleftrightarrow> (case r of Inl _ \<Rightarrow> True | Inr g \<Rightarrow> or_status (og_response g) \<in> {502, 503, 504})"

lemma settle_ends:
  assumes "\<not> failed_reply r"
  shows "\<exists>f'. settle c n i r (note_call c n i out r f) = Stop f' \<and> \<not> origins_failed f'"
proof -
  obtain g where g: "r = Inr g" "\<not> retryable_status (or_status (og_response g))"
    using assms by (cases r) (auto simp: failed_reply_def retryable_status_def)
  then show ?thesis by (simp add: settle_def retryable_reply_def origins_failed_def set_err_def note_call_def Let_def)
qed

lemma attempt_step_failed:
  assumes "attempt_step c n f = o1" "o1 = Retry f' \<or> o1 = Stop f' \<and> origins_failed f'"
  shows "(\<exists>i out. hs_calls (ft_state f') = hs_calls (ft_state f) @ [(i, out)] \<and> failed_reply (ev_origin (fc_env c) n i out)) \<or>
    o1 = Stop f' \<and> hs_calls (ft_state f') = hs_calls (ft_state f)"
proof -
  obtain choice pool where p: "pick_node c (ft_excluded f) (hs_pool (ft_state f)) = (choice, pool)" by (meson surj_pair)
  let ?f = "f\<lparr>ft_state := (ft_state f)\<lparr>hs_pool := pool\<rparr>\<rparr>"
  note step = assms(1) [unfolded attempt_step_def p prod.case Let_def]
  show ?thesis
  proof (cases choice)
    case Panicked
    then show ?thesis using step assms(2) by auto
  next
    case No_node
    then show ?thesis using step assms(2) by (auto split: if_splits)
  next
    case (Picked i)
    show ?thesis
    proof (cases "clone_request (fc_req c) (up_nodes pool ! i) (fc_route c) (fc_id c) (fc_ffh c)")
      case (Inl e)
      then show ?thesis using step assms(2) Picked by (auto simp: handler_simps)
    next
      case (Inr out)
      let ?r = "ev_origin (fc_env c) n i out"
      have o1: "o1 = settle c n i ?r (note_call c n i out ?r ?f)" using step Picked Inr by simp
      have "failed_reply ?r"
      proof (rule ccontr)
        assume "\<not> failed_reply ?r"
        from settle_ends [OF this, of c n i out ?f] assms(2) show False unfolding o1 by auto
      qed
      moreover have "hs_calls (ft_state (fetch_of o1)) = hs_calls (ft_state f) @ [(i, out)]" unfolding o1 by (simp add: handler_simps)
      then have "hs_calls (ft_state f') = hs_calls (ft_state f) @ [(i, out)]" using assms(2) by auto
      ultimately show ?thesis by blast
    qed
  qed
qed

lemma fetch_loop_failed:
  assumes "fetch_loop c k n f = (True, f')" "origins_failed f'"
  shows "\<exists>calls. hs_calls (ft_state f') = hs_calls (ft_state f) @ calls \<and>
    (\<forall>j < length calls. failed_reply (ev_origin (fc_env c) (n + j) (fst (calls ! j)) (snd (calls ! j))))"
  using assms(1)
proof (induction k arbitrary: n f)
  case 0
  then show ?case by simp
next
  case (Suc k)
  show ?case
  proof (cases "attempt_step c n f")
    case (Retry g)
    obtain i out where step: "hs_calls (ft_state g) = hs_calls (ft_state f) @ [(i, out)]" "failed_reply (ev_origin (fc_env c) n i out)"
      using attempt_step_failed [OF Retry] by auto
    obtain calls where rest: "hs_calls (ft_state f') = hs_calls (ft_state g) @ calls"
      "\<forall>j < length calls. failed_reply (ev_origin (fc_env c) (Suc n + j) (fst (calls ! j)) (snd (calls ! j)))"
      using Suc.IH [of "Suc n" g] Suc.prems Retry by auto
    have "failed_reply (ev_origin (fc_env c) (n + j) (fst (((i, out) # calls) ! j)) (snd (((i, out) # calls) ! j)))"
      if "j < length ((i, out) # calls)" for j
      using that step(2) rest(2) by (cases j) auto
    then show ?thesis using step(1) rest(1) by (intro exI [of _ "(i, out) # calls"]) auto
  next
    case (Stop g)
    then have "g = f'" using Suc.prems by simp
    then show ?thesis using attempt_step_failed [OF Stop, of f'] assms(2) by (auto intro: exI [of _ "[]"] exI [of _ "[(_, _)]"])
  next
    case (Crash g)
    then show ?thesis using Suc.prems by simp
  qed
qed

text \<open>How a fetch labels its answer: only failing origins lead to a stale answer, with the given entry.\<close>

lemma fetch_and_serve_status:
  assumes run: "fetch_and_serve c stale cs store w hs = Some (Some res, w', hs')" and cs: "cs = ''MISS'' \<or> cs = ''BYPASS''"
  shows "rr_cache_status res \<noteq> ''HIT'' \<and> (rr_cache_status res = ''STALE'' \<longrightarrow>
    (\<exists>e f. stale = Some e \<and> fetch_loop c (nat (fc_attempts c)) 0 (start_fetch cs hs) = (True, f) \<and> origins_failed f \<and>
      hs_calls hs' = hs_calls (ft_state f) \<and>
      w' = snd (serve_cache_entry (fc_lib c) (ev_out (fc_env c)) (ev_client (fc_env c) At_Stale) (eq_http (fc_req c)) e
                  ''STALE'' (ev_now_stale (fc_env c)) w)))"
proof -
  obtain f where loop: "fetch_loop c (nat (fc_attempts c)) 0 (start_fetch cs hs) = (True, f)"
    and ans: "map_option (\<lambda>(res, w', hs'). (Some res, w', fc_release c (ft_active f) hs')) (answer_client c stale cs store f w)
      = Some (Some res, w', hs')"
    using run by (auto simp: fetch_and_serve_def split: prod.splits bool.splits)
  then obtain hs1 where a: "answer_client c stale cs store f w = Some (res, w', hs1)" and h: "hs' = fc_release c (ft_active f) hs1" by auto
  have calls: "hs_calls hs' = hs_calls (ft_state f)"
    using answer_client_settled [OF a] unfolding h by (simp add: settled_def handler_simps)
  have st: "rr_cache_status (ft_result f) = cs"
    using fetch_loop_status [OF loop] by (simp add: start_fetch_def new_result_def)
  have fwd: "rr_cache_status res \<noteq> ''HIT'' \<and> rr_cache_status res \<noteq> ''STALE''"
    if "forward_response c cs store g (ft_result f) w (ft_state f) = Some (res, w', hs1)" for g
    using forward_response_status [OF that st cs] .
  have old: "w' = snd (serve_cache_entry (fc_lib c) (ev_out (fc_env c)) (ev_client (fc_env c) At_Stale) (eq_http (fc_req c)) e
        ''STALE'' (ev_now_stale (fc_env c)) w) \<and> rr_cache_status res = ''STALE''"
    if "serve_stale c e (ft_result f) w (ft_state f) = (res, w', hs1)" for e
    using that by (auto simp: serve_stale_def handler_simps split: prod.splits)
  have up: "rr_cache_status res = ''BYPASS''" if "serve_upgrade c g (ft_result f) w (ft_state f) = (res, w', hs1)" for g
    using that by (auto simp: serve_upgrade_def Let_def split: prod.splits option.splits)
  have "rr_cache_status res \<noteq> ''HIT'' \<and> rr_cache_status res \<noteq> ''STALE'' \<or>
      (\<exists>e. stale = Some e \<and> origins_failed f \<and> serve_stale c e (ft_result f) w (ft_state f) = (res, w', hs1))"
    using a fwd up cs st
    by (auto simp: answer_client_def Let_def origins_failed_def split: option.splits if_splits)
  then show ?thesis using old loop calls by auto
qed

section \<open>Properties of the cache\<close>

text \<open>Other requests use the cache through its operations, which keep it well formed.\<close>

definition keeps_cache :: "(edge_state \<Rightarrow> edge_state) \<Rightarrow> bool" where
  "keeps_cache wait \<longleftrightarrow> (\<forall>s. state_ok s \<longrightarrow> state_ok (wait s))"

lemma state_ok_cache: "state_ok hs \<Longrightarrow> hs_cache hs' = hs_cache hs \<Longrightarrow> state_ok hs'"
  by (simp add: state_ok_def)

lemma after_wait_ok: "keeps_cache wait \<Longrightarrow> state_ok hs \<Longrightarrow> state_ok (after_wait wait hs)"
  by (simp add: keeps_cache_def after_wait_def) (metis (no_types, lifting) edge_state.surjective edge_state.update_convs(6,7) state_ok_def edge_state.select_convs(2))

lemma touched_ok:
  assumes "state_ok hs" "x = hs_cache hs \<or> (\<exists>cache. hs_cache hs = Some cache \<and> x = Some (snd (lookup_cache req key now cache)))"
  shows "state_ok (hs\<lparr>hs_cache := x\<rparr>)"
  using assms extends_cache_get [OF assms(1), of _ "\<lambda>_ _. True" req key now] by (auto simp: extends_def state_ok_def)

lemma touch_ok: "state_ok hs \<Longrightarrow> state_ok (touch_cache c now hs)"
  using touched_ok [of hs "map_option (\<lambda>cache. snd (cache_get (cache_key (xl_sha256 (fc_lib c)) (eq_http (fc_req c)) (rc_cache (fc_route c))) now cache)) (hs_cache hs)"
      "eq_http (fc_req c)" "cache_key (xl_sha256 (fc_lib c)) (eq_http (fc_req c)) (rc_cache (fc_route c))" now]
  by (cases "hs_cache hs") (auto simp: touch_cache_def lookup_cache_def Let_def split: prod.splits)

lemma lock_state_ok: "keeps_cache wait \<Longrightarrow> state_ok hs \<Longrightarrow> state_ok (lock_state c wait hs)"
  by (simp add: lock_state_def after_wait_ok touch_ok)

lemma fill_extends:
  assumes ok: "state_ok hs" and run: "fill c look store key w hs = Some (r, w', hs')"
  shows "extends (fresh_fill c store hs') hs hs'"
proof (cases "look \<and> hs_cache hs \<noteq> None")
  case False
  then show ?thesis
    using run fetch_and_serve_extends [OF ok] extends_same [OF ok]
    by (auto simp: fill_def split: if_splits option.splits)
next
  case True
  then obtain cache where cache: "hs_cache hs = Some cache" by auto
  obtain l cache' where l: "lookup_cache (eq_http (fc_req c)) key (ev_now_second (fc_env c)) cache = (l, cache')"
    by (meson surj_pair)
  have touch: "extends P hs (hs\<lparr>hs_cache := Some cache'\<rparr>)" for P
    using extends_cache_get [OF ok cache] l by (metis snd_conv)
  then have ok': "state_ok (hs\<lparr>hs_cache := Some cache'\<rparr>)" by (auto simp: extends_def)
  show ?thesis
  proof (cases l)
    case (Hit e)
    with run True cache l have "serve_hit c At_Second_Hit e (ev_now_second (fc_env c)) w (hs\<lparr>hs_cache := Some cache'\<rparr>)
        = (r, w', hs')" by (simp add: fill_def)
    from serve_hit_frame [OF this] touch show ?thesis by simp
  next
    case (Kept stale)
    with run True cache l have "fetch_and_serve c stale ''MISS'' store w (hs\<lparr>hs_cache := Some cache'\<rparr>) = Some (r, w', hs')"
      by (simp add: fill_def)
    from extends_trans [OF touch fetch_and_serve_extends [OF ok' this]] show ?thesis .
  qed
qed

lemma handle_route_extends:
  assumes ok: "state_ok hs" "keeps_cache wait" and run: "handle_route c wait w hs = Some (r, w', hs')"
  shows "\<exists>s. own_start c wait hs s \<and>
    extends (fresh_fill c (fst (snd (request_cache_mode (eq_http (fc_req c)) (rc_cache (fc_route c))))) hs') s hs'"
  using run
proof (cases rule: handle_route_cases)
  case (refused e)
  then show ?thesis using extends_same [OF ok(1)] by (auto simp: own_start_def)
next
  case bypass
  from fetch_and_serve_extends [OF ok(1) bypass] show ?thesis
    by (intro exI [of _ hs] conjI) (auto simp: own_start_def fresh_fill_def filled_def elim!: extends_mono)
next
  case crash
  then show ?thesis using extends_same [OF ok(1)] by (auto simp: own_start_def)
next
  case (hit cache e cache')
  have "hs' = hs\<lparr>hs_cache := Some cache'\<rparr>" using serve_hit_frame [OF hit(4)] by simp
  moreover have "extends P hs (hs\<lparr>hs_cache := Some cache'\<rparr>)" for P
    using extends_cache_get [OF ok(1) hit(2)] hit(3) by (metis snd_conv)
  ultimately show ?thesis by (auto simp: own_start_def)
next
  case (fill look store)
  from fill_extends [OF lock_state_ok [OF ok(2,1)] fill(4)] fill(3) show ?thesis
    by (intro exI [of _ "lock_state c wait hs"]) (auto simp: own_start_def)
qed

lemma handle_route_returns:
  assumes ok: "state_ok hs" "keeps_cache wait"
  shows "\<exists>r w' hs'. handle_route c wait w hs = Some (r, w', hs')"
proof -
  have fill: "fill c look store key w hs1 \<noteq> None" if "state_ok hs1" for look store key hs1
  proof -
    have "state_ok (hs1\<lparr>hs_cache := Some cache'\<rparr>)" if "hs_cache hs1 = Some cache"
      "lookup_cache (eq_http (fc_req c)) key now cache = (l, cache')" for cache l cache' now
      using touched_ok [OF \<open>state_ok hs1\<close>, of "Some cache'"] that by (metis snd_conv)
    with that show ?thesis
      using fetch_and_serve_returns
      by (simp add: fill_def del: not_None_eq split: option.split prod.split lookup.split)
  qed
  have fetch: "fetch_and_serve c stale cs store w hs \<noteq> None" for stale cs store by (rule fetch_and_serve_returns [OF ok(1)])
  have wait: "state_ok (after_wait wait (hs\<lparr>hs_cache := Some cache'\<rparr>))" if "hs_cache hs = Some cache"
      "lookup_cache (eq_http (fc_req c)) key now cache = (l, cache')" for cache l cache' key now
    using after_wait_ok [OF ok(2) touched_ok [OF ok(1), of "Some cache'"]] that by (metis snd_conv)
  have "handle_route c wait w hs \<noteq> None"
    using fill fetch wait after_wait_ok [OF ok(2,1)]
    by (simp add: handle_route_def Let_def del: not_None_eq split: option.split prod.split lookup.split sum.split)
  then show ?thesis by auto
qed

end
