(* ===== verification/Edge_Handler_Correct.thy ===== *)
theory Edge_Handler_Correct
  imports Edge_Handler_Cache
begin

text \<open>
  What EdgeProxy's handler guarantees about one request: connection counters are balanced on every path,
  the number of origin calls is bounded and non-repeatable requests are sent once, origins receive only
  the reconstructed identity of the client, the shared cache changes only by complete responses that
  both the request and the response allow and is invalidated by unsafe requests, and telemetry
  records each request once and no probe.
\<close>

section \<open>Connections and calls\<close>

text \<open>
  C11. Origin connections are balanced and origin calls are bounded. However a request ends (a hit, a
  refusal, retries, timeouts, cancellation, an upgrade or a panic in the scheduler), every connection counted
  against an origin has been given back; the number of calls made to origins is at most one plus the
  retry count of the route, and at most one when the method is not idempotent or the body cannot be
  replayed; every call goes to an origin of the pool with a request built for it; and the calls
  reported in the result and added to the metrics (none for a probe) are exactly the calls made.
  The comparison is with the state in which the request began its own work: at once or, if it waited
  for the fill lock of its key, after what other requests did meanwhile.
\<close>

theorem connections_balanced_calls_bounded:
  assumes "handle_route c wait w hs = Some (r, w', hs')" "hs_calls hs = []" "0 \<le> rc_retry_count (fc_route c)"
  shows "(\<exists>s. own_start c wait hs s \<and> actives (hs_pool hs') = actives (hs_pool s) \<and>
      list_all (sent_to c (urls (hs_pool s))) (hs_calls hs') \<and>
      ec_up_calls (em_total (hs_metrics hs')) = ec_up_calls (em_total (hs_metrics s))
        + (if fc_probe c then 0 else of_nat (length (hs_calls hs')))) \<and>
    int (length (hs_calls hs')) \<le> 1 + rc_retry_count (fc_route c) \<and>
    (\<not> is_idempotent (rq_method (eq_http (fc_req c))) \<or> (\<exists>b. eq_body (fc_req c) = Body b) \<and> eq_get_body (fc_req c) = None
       \<longrightarrow> length (hs_calls hs') \<le> 1) \<and>
    (\<forall>res. r = Some res \<longrightarrow> rr_upstream_calls res = of_nat (length (hs_calls hs')))"
proof -
  from handle_route_accounted [OF assms(1)] obtain s where s: "own_start c wait hs s" "accounted c s hs' r" by blast
  have "hs_calls s = []" using own_start_calls [OF s(1)] assms(2) by simp
  then obtain bound: "length (hs_calls hs') \<le> nat (fc_attempts c)"
    and rest: "actives (hs_pool hs') = actives (hs_pool s)" "list_all (sent_to c (urls (hs_pool s))) (hs_calls hs')"
      "ec_up_calls (em_total (hs_metrics hs')) = ec_up_calls (em_total (hs_metrics s))
        + (if fc_probe c then 0 else of_nat (length (hs_calls hs')))"
      "\<forall>res. r = Some res \<longrightarrow> rr_upstream_calls res = of_nat (length (hs_calls hs'))"
    using s(2) by (auto simp: accounted_def)
  have "fc_attempts c \<le> 1 + rc_retry_count (fc_route c)" "0 \<le> fc_attempts c"
    using assms(3) by (simp_all add: fc_attempts_def)
  then have "int (length (hs_calls hs')) \<le> 1 + rc_retry_count (fc_route c)" using bound by linarith
  moreover have "length (hs_calls hs') \<le> 1"
    if "\<not> is_idempotent (rq_method (eq_http (fc_req c))) \<or> (\<exists>b. eq_body (fc_req c) = Body b) \<and> eq_get_body (fc_req c) = None"
  proof -
    have "fc_attempts c = 1" using that by (auto simp: fc_attempts_def)
    then show ?thesis using bound by simp
  qed
  ultimately show ?thesis using s(1) rest by blast
qed

section \<open>The shared cache\<close>

lemma stored_request_conditions:
  assumes "fst (snd (request_cache_mode req cfg))" "rq_method req \<noteq> ''HEAD''"
  shows "cc_enabled cfg \<and> rq_method req = ''GET'' \<and> \<not> header_has_non_empty_value (rq_header req) ''Range'' \<and>
    (header_has_non_empty_value (rq_header req) ''Authorization'' \<longrightarrow> cc_authorized cfg) \<and>
    (header_has_non_empty_value (rq_header req) ''Cookie'' \<longrightarrow> cc_cookie cfg) \<and>
    \<not> has_cache_directive (parse_cache_control (h_values (rq_header req) ''Cache-Control'')) ''no-store''"
  using assms by (auto simp: request_cache_mode_def parse_cache_control_def Let_def split: if_splits)

text \<open>
  C16. The shared cache is filled only with responses that may be shared. On a well-formed cache every
  request comes to an end, the cache stays well formed, and an entry that was not there when the request
  began its own work (in the state it found or, if it took the fill lock of its key, in the state after its first lookup and its
  wait for the lock) is stored under the key of this request, which is a plain \<^verbatim>\<open>GET\<close> (no probe, no \<^verbatim>\<open>Range\<close>,
  no \<^verbatim>\<open>no-store\<close>, credentials and cookies only where the route allows it); its status and headers are those of
  an origin's answer to a call of this request, without \<^verbatim>\<open>Set-Cookie\<close>, hop-by-hop and internal headers; its
  body is the complete body, within the object limit; and its lifetime is what the response policy
  allows for that answer.
\<close>

theorem cache_filled_only_as_allowed:
  assumes "state_ok hs" "keeps_cache wait"
  shows "\<exists>r w' hs'. handle_route c wait w hs = Some (r, w', hs') \<and> state_ok hs' \<and>
    (\<exists>s. own_start c wait hs s \<and> (\<forall>k e. entries hs' k = Some e \<longrightarrow> entries s k = Some e \<or>
      (let req = eq_http (fc_req c); cfg = rc_cache (fc_route c) in
       k = route_key c \<and> \<not> fc_probe c \<and> cc_enabled cfg \<and> rq_method req = ''GET'' \<and>
       \<not> header_has_non_empty_value (rq_header req) ''Range'' \<and>
       (header_has_non_empty_value (rq_header req) ''Authorization'' \<longrightarrow> cc_authorized cfg) \<and>
       (header_has_non_empty_value (rq_header req) ''Cookie'' \<longrightarrow> cc_cookie cfg) \<and>
       \<not> has_cache_directive (parse_cache_control (h_values (rq_header req) ''Cache-Control'')) ''no-store'' \<and>
       (\<exists>g n i out. (i, out) \<in> set (hs_calls hs') \<and> ev_origin (fc_env c) n i out = Inr g \<and> made_from c g e))))"
proof -
  obtain r w' hs' where run: "handle_route c wait w hs = Some (r, w', hs')"
    using handle_route_returns [OF assms] by blast
  from handle_route_extends [OF assms run] obtain s where s: "own_start c wait hs s" "state_ok hs'"
    "\<And>k e. entries hs' k = Some e \<Longrightarrow> entries s k = Some e \<or>
      fresh_fill c (fst (snd (request_cache_mode (eq_http (fc_req c)) (rc_cache (fc_route c))))) hs' k e"
    by (auto simp: extends_def)
  show ?thesis
    unfolding Let_def
  proof (intro exI conjI allI impI, rule run, rule s(2), rule s(1))
    fix k e assume e: "entries hs' k = Some e"
    show "entries s k = Some e \<or> k = route_key c \<and> \<not> fc_probe c \<and> cc_enabled (rc_cache (fc_route c)) \<and>
       rq_method (eq_http (fc_req c)) = ''GET'' \<and> \<not> header_has_non_empty_value (rq_header (eq_http (fc_req c))) ''Range'' \<and>
       (header_has_non_empty_value (rq_header (eq_http (fc_req c))) ''Authorization'' \<longrightarrow> cc_authorized (rc_cache (fc_route c))) \<and>
       (header_has_non_empty_value (rq_header (eq_http (fc_req c))) ''Cookie'' \<longrightarrow> cc_cookie (rc_cache (fc_route c))) \<and>
       \<not> has_cache_directive (parse_cache_control (h_values (rq_header (eq_http (fc_req c))) ''Cache-Control'')) ''no-store'' \<and>
       (\<exists>g n i out. (i, out) \<in> set (hs_calls hs') \<and> ev_origin (fc_env c) n i out = Inr g \<and> made_from c g e)"
      using s(3) [OF e] stored_request_conditions [of "eq_http (fc_req c)" "rc_cache (fc_route c)"]
      unfolding fresh_fill_def filled_def by blast
  qed
qed

lemma route_key_fold: "cache_key (xl_sha256 (fc_lib c)) (eq_http (fc_req c)) (rc_cache (fc_route c)) = route_key c"
  by (simp add: route_key_def)

text \<open>
  What a hit and a stale answer rest on: a hit on an entry of the state and instant of its lookup; a stale answer on the second lookup, made with the fill
  lock held, and on a fetch from the state it left, in which every call failed.
\<close>

definition hit_served :: "fetch_cfg \<Rightarrow> ctx_point \<Rightarrow> time \<Rightarrow> edge_state \<Rightarrow> capture \<Rightarrow> capture \<Rightarrow> bool" where
  "hit_served c p now s w w' \<longleftrightarrow> (\<exists>e. fresh_entry c s now e \<and>
     w' = snd (serve_cache_entry (fc_lib c) (ev_out (fc_env c)) (ev_client (fc_env c) p) (eq_http (fc_req c)) e ''HIT'' now w))"

definition stale_served :: "fetch_cfg \<Rightarrow> edge_state \<Rightarrow> edge_state \<Rightarrow> capture \<Rightarrow> capture \<Rightarrow> bool" where
  "stale_served c s hs' w w' \<longleftrightarrow> (\<exists>e f calls. stale_entry c s (ev_now_second (fc_env c)) e \<and>
     fetch_loop c (nat (fc_attempts c)) 0 (start_fetch ''MISS'' (touch_cache c (ev_now_second (fc_env c)) s)) = (True, f) \<and> origins_failed f \<and>
     hs_calls hs' = hs_calls (ft_state f) \<and> hs_calls hs' = hs_calls s @ calls \<and>
     (\<forall>n < length calls. failed_reply (ev_origin (fc_env c) n (fst (calls ! n)) (snd (calls ! n)))) \<and>
     w' = snd (serve_cache_entry (fc_lib c) (ev_out (fc_env c)) (ev_client (fc_env c) At_Stale) (eq_http (fc_req c)) e
                 ''STALE'' (ev_now_stale (fc_env c)) w))"

lemma serve_hit_served:
  assumes "serve_hit c p e now w hs1 = (r, w', hs')" "fresh_entry c s now e"
  shows "hit_served c p now s w w' \<and> hs' = hs1 \<and> (\<forall>res. r = Some res \<longrightarrow> rr_cache_status res = ''HIT'')"
  using assms by (auto simp: serve_hit_def hit_served_def handler_simps new_result_def split: prod.splits)

lemma fill_cached:
  assumes ok: "state_ok s" and run: "fill c look store (route_key c) w s = Some (Some res, w', hs')"
  shows "(rr_cache_status res = ''HIT'' \<longrightarrow> hit_served c At_Second_Hit (ev_now_second (fc_env c)) s w w' \<and> hs_calls hs' = hs_calls s) \<and>
    (rr_cache_status res = ''STALE'' \<longrightarrow> stale_served c s hs' w w')"
proof (cases "look \<and> hs_cache s \<noteq> None")
  case False
  then have "fetch_and_serve c None ''MISS'' store w s = Some (Some res, w', hs')"
    using run by (auto simp: fill_def split: if_splits option.splits)
  from fetch_and_serve_status [OF this] show ?thesis by auto
next
  case True
  then obtain cache where cache: "hs_cache s = Some cache" by auto
  obtain l cache' where l: "lookup_cache (eq_http (fc_req c)) (route_key c) (ev_now_second (fc_env c)) cache = (l, cache')"
    by (meson surj_pair)
  note entry = lookup_cache_entry [OF ok cache l]
  note touch = lookup_touches [OF cache l [unfolded route_key_def]]
  show ?thesis
  proof (cases l)
    case (Hit e)
    with run True cache l have "serve_hit c At_Second_Hit e (ev_now_second (fc_env c)) w (s\<lparr>hs_cache := Some cache'\<rparr>)
        = (Some res, w', hs')" by (simp add: fill_def)
    from serve_hit_served [OF this entry(1) [OF Hit]] show ?thesis by auto
  next
    case (Kept stale)
    with run True cache l touch
    have f: "fetch_and_serve c stale ''MISS'' store w (touch_cache c (ev_now_second (fc_env c)) s) = Some (Some res, w', hs')"
      by (simp add: fill_def)
    have "stale_served c s hs' w w'" if "rr_cache_status res = ''STALE''"
    proof -
      from fetch_and_serve_status [OF f] that obtain e f where e: "stale = Some e"
        "fetch_loop c (nat (fc_attempts c)) 0 (start_fetch ''MISS'' (touch_cache c (ev_now_second (fc_env c)) s)) = (True, f)" "origins_failed f"
        "hs_calls hs' = hs_calls (ft_state f)"
        "w' = snd (serve_cache_entry (fc_lib c) (ev_out (fc_env c)) (ev_client (fc_env c) At_Stale) (eq_http (fc_req c)) e
           ''STALE'' (ev_now_stale (fc_env c)) w)" by auto
      from fetch_loop_failed [OF e(2,3)] obtain calls where "hs_calls hs' = hs_calls s @ calls"
        "\<forall>n < length calls. failed_reply (ev_origin (fc_env c) n (fst (calls ! n)) (snd (calls ! n)))"
        unfolding e(4) by (auto simp: start_fetch_def handler_simps)
      with e entry(2) [of e] Kept show ?thesis unfolding stale_served_def by blast
    qed
    with fetch_and_serve_status [OF f] show ?thesis by blast
  qed
qed

text \<open>
  C17. A cached answer is one the client may have. A request labelled \<^verbatim>\<open>HIT\<close> made no call to an origin and
  was answered from the entry stored under its own key, which had not expired at the instant of its first lookup or, after waiting for the
  fill lock, of its second, and which the request's \<^verbatim>\<open>Cache-Control\<close> allows. A request labelled \<^verbatim>\<open>STALE\<close> was answered from such an
  entry that had expired but was within its stale period at its second lookup, and only because its own attempts, started from there, ended without a usable
  response: each origin it called gave no answer or 502, 503 or 504. Probes are never answered from the cache.
\<close>

theorem cached_answers_allowed:
  assumes "state_ok hs" "keeps_cache wait" "handle_route c wait w hs = Some (Some res, w', hs')"
  shows "(rr_cache_status res = ''HIT'' \<longrightarrow> \<not> fc_probe c \<and> hs_calls hs' = hs_calls hs \<and>
      (hit_served c At_Hit (ev_now_first (fc_env c)) hs w w' \<or>
       hit_served c At_Second_Hit (ev_now_second (fc_env c)) (lock_state c wait hs) w w')) \<and>
    (rr_cache_status res = ''STALE'' \<longrightarrow> \<not> fc_probe c \<and> stale_served c (lock_state c wait hs) hs' w w')"
  using assms(3)
proof (cases rule: handle_route_cases)
  case (refused e)
  then show ?thesis by (simp add: new_result_def)
next
  case bypass
  from fetch_and_serve_status [OF bypass] show ?thesis by auto
next
  case crash
  then show ?thesis by simp
next
  case (hit cache e cache')
  have "fresh_entry c hs (ev_now_first (fc_env c)) e"
    using lookup_cache_entry(1) [OF assms(1) hit(2) hit(3) [unfolded route_key_fold]] by simp
  from serve_hit_served [OF hit(4) this] hit(1) show ?thesis by auto
next
  case (fill look store)
  from fill_cached [OF lock_state_ok [OF assms(2,1)] fill(4) [unfolded route_key_fold]] fill(1) show ?thesis by (auto simp: handler_simps)
qed

section \<open>Invalidation\<close>

lemma copy_body_keeps:
  assumes "copy_body wr ps re w = (e, w')" "Q w" "\<And>p w e w'. wr p w = (e, w') \<Longrightarrow> Q w \<Longrightarrow> Q w'"
  shows "Q w'"
  using assms(1,2)
proof (induction ps arbitrary: w)
  case (Cons p ps)
  show ?case
  proof (cases "p = []")
    case True
    then show ?thesis using Cons by simp
  next
    case False
    obtain e1 w1 where w1: "wr p w = (e1, w1)" by (meson surj_pair)
    then have "Q w1" using assms(3) Cons.prems(2) by blast
    then show ?thesis using Cons False w1 by (cases e1) auto
  qed
qed simp

lemma capture_write_status: "capture_write out p w = (e, w') \<Longrightarrow> cw_status w = st \<Longrightarrow> st \<noteq> 0 \<Longrightarrow> cw_status w' = st"
  by (auto simp: capture_write_def Let_def split: prod.splits)

lemma multi_write_status:
  assumes "multi_write out p wc = (e, wc')" "cw_status (fst wc) = st" "st \<noteq> 0"
  shows "cw_status (fst wc') = st"
  using assms capture_write_status [of out p "fst wc"] by (auto simp: multi_write_def split: prod.splits option.splits)

lemma write_header_status: "cw_status w = 0 \<Longrightarrow> 200 \<le> st \<Longrightarrow> cw_status (capture_write_header st w) = st"
  by (simp add: capture_write_header_def capture_send_def)

lemma upd_header_status [simp]: "cw_status (upd_header f w) = cw_status w"
  by (simp add: upd_header_def)

lemma pass_through_status:
  assumes "pass_through env b g res w hs = (res', w', hs')" "cw_status w = 0" "200 \<le> or_status (og_response g)"
  shows "cw_status w' = or_status (og_response g)"
proof -
  let ?w = "if b then w else upd_header (h_set ''X-Cache'' ''BYPASS'') w"
  from assms(1) obtain err where
    "copy_body (capture_write (ev_out env)) (og_chunks g) (og_read_err g)
       (capture_write_header (or_status (og_response g)) ?w) = (err, w')"
    by (auto simp: pass_through_def Let_def split: prod.splits)
  from copy_body_keeps [OF this, of "\<lambda>w. cw_status w = or_status (og_response g)"] show ?thesis
    using assms write_header_status [of ?w] capture_write_status [of "ev_out env"] by auto
qed

lemma forward_response_sent:
  assumes run: "forward_response c cs store g res w hs = Some (res', w', hs')"
    and w: "cw_status w = 0" "200 \<le> or_status (og_response g)"
  shows "cw_status w' = or_status (og_response g)"
proof -
  let ?st = "or_status (og_response g)"
  let ?h = "answer_headers (forwarded_headers (or_header (og_response g))) cs (rr_upstream_duration res)"
  let ?b = "\<lparr>cb_buf = [], cb_max = cc_max_object_bytes (rc_cache (fc_route c)), cb_overflow = False\<rparr>"
  have copy: "cw_status w1 = ?st" if "copy_body (multi_write (ev_out (fc_env c))) (og_chunks g) (og_read_err g)
      (capture_write_header ?st (upd_header ?h w), ?b) = (err, w1, b1)" for err w1 b1
    using copy_body_keeps [OF that, of "\<lambda>wc. cw_status (fst wc) = ?st"] multi_write_status [of "ev_out (fc_env c)"]
      write_header_status [of "upd_header ?h w" ?st] w by auto
  have through: "cw_status w1 = ?st" if "pass_through (fc_env c) b g res (upd_header ?h w) hs1 = (r1, w1, hs2)" for b r1 w1 hs1 hs2
    using pass_through_status [OF that] w by simp
  show ?thesis
    using run unfolding forward_response_def Let_def
    by (auto split: option.splits prod.splits if_splits dest: copy through)
qed

lemma http_error_status: "cw_status w = 0 \<Longrightarrow> 200 \<le> code \<Longrightarrow> cw_status (http_error out msg code w) = code"
  using capture_write_status [of out] write_header_status
  by (simp add: http_error_def) (metis (no_types, lifting) not_numeral_le_zero prod.collapse upd_header_status write_header_status)

text \<open>\<^verbatim>\<open>RoundTrip\<close> returns final responses: 101, or a status from 200 on; the transport consumes the others.\<close>

definition final_replies :: "edge_env \<Rightarrow> bool" where
  "final_replies env \<longleftrightarrow> (\<forall>n i out g. ev_origin env n i out = Inr g \<longrightarrow>
     or_status (og_response g) = 101 \<or> 200 \<le> or_status (og_response g))"

lemma serve_upgrade_status:
  assumes "serve_upgrade c g res w hs = (res', w', hs')" "cw_status w = 0"
  shows "cw_status w' \<in> {0, 101, 502}"
proof -
  obtain err tr w1 t where up: "proxy_protocol_upgrade c g w (hs_tunnels hs) = (err, tr, w1, t)" by (metis surj_pair)
  have run: "cw_status w2 \<in> {0, 101}" if "run_tunnel c g v w t0 = (e2, tr2, w2, t2)" for v t0 e2 tr2 w2 t2
    using that assms(2)
    by (auto simp: run_tunnel_def Let_def mark_hijacked_status_def split: option.splits prod.splits)
  have "cw_status w1 \<in> {0, 101} \<and> (\<not> tr_hijacked tr \<longrightarrow> cw_status w1 = 0)"
  proof (cases "\<exists>v. run_tunnel c g v w (hs_tunnels hs) = (err, tr, w1, t)")
    case True
    then obtain v where v: "run_tunnel c g v w (hs_tunnels hs) = (err, tr, w1, t)" by blast
    have "tr_hijacked tr" using v by (auto simp: run_tunnel_def Let_def split: option.splits prod.splits)
    then show ?thesis using run [OF v] by simp
  next
    case False
    then have "w1 = w" using up by (auto simp: proxy_protocol_upgrade_def split: sum.splits option.splits if_splits)
    then show ?thesis using assms(2) by simp
  qed
  then show ?thesis
    using assms(1) up http_error_status [of w1 502] by (auto simp: serve_upgrade_def Let_def split: option.splits if_splits)
qed

text \<open>Without a stale entry and without storing, a success status means the answer was forwarded.\<close>

lemma fetch_invalidates:
  assumes ok: "state_ok hs" and fin: "final_replies (fc_env c)" and unsafe: "unsafe_method (rq_method (eq_http (fc_req c)))"
    and run: "fetch_and_serve c None cs False w hs = Some (r, w', hs')"
    and st: "cw_status w = 0" "200 \<le> cw_status w'" "cw_status w' < 400"
    and sel: "purge_request_selects (to_lower (trim_space (cache_host (rq_host (eq_http (fc_req c))))))
      (canonical_request_uri (rq_url (eq_http (fc_req c)))) cache_key_request k"
  shows "entries hs' k = None"
proof -
  obtain b f where loop: "fetch_loop c (nat (fc_attempts c)) 0 (start_fetch cs hs) = (b, f)" by (meson surj_pair)
  have okf: "state_ok (ft_state f)"
    using fetch_loop_progress [OF loop] ok by (simp add: progress_def start_fetch_def state_ok_def)
  have b: b using run loop st by (cases b) (auto simp: fetch_and_serve_def)
  with run loop obtain res hs1 where a: "answer_client c None cs False f w = Some (res, w', hs1)"
    and h: "hs' = fc_release c (ft_active f) hs1" by (auto simp: fetch_and_serve_def)
  have "answered c (start_fetch cs hs)" by (simp add: answered_def start_fetch_def)
  note ans = fetch_loop_answered [OF loop this]
  have up: "serve_upgrade c g (ft_result f) w (ft_state f) \<noteq> (res, w', hs1)" for g
    using serve_upgrade_status [of c g "ft_result f" w "ft_state f" res w' hs1] st by auto
  obtain g where g: "ft_resp f = Some g" "or_status (og_response g) \<noteq> 101"
    and fwd: "forward_response c cs False g (ft_result f) w (ft_state f) = Some (res, w', hs1)"
    using a st up http_error_status [of w 502 "ev_out (fc_env c)" "''bad gateway''"]
    by (auto simp: answer_client_def Let_def split: option.splits if_splits)
  have "200 \<le> or_status (og_response g)" using ans g fin unfolding answered_def final_replies_def by blast
  then have "cw_status w' = or_status (og_response g)" using forward_response_sent [OF fwd st(1)] by simp
  moreover have "hs1 = invalidate_unsafe_request (eq_http (fc_req c)) (or_status (og_response g)) (ft_state f)"
    using fwd by (cases rule: forward_response_cases) auto
  ultimately have "entries hs1 k = None" using invalidate_entries(2) [OF okf] unsafe st sel by simp
  then show ?thesis unfolding h by (simp add: entries_def handler_simps)
qed

lemma unsafe_mode: "unsafe_method (rq_method req) \<Longrightarrow> \<not> fst (request_cache_mode req cfg) \<and> \<not> fst (snd (request_cache_mode req cfg))"
  by (auto simp: request_cache_mode_def unsafe_method_def Let_def)

text \<open>
  C18. A successful write makes the cached representations of its resource disappear. Let a request with an
  unsafe method be answered with a status from 200 to 399, over a transport that answers with final statuses and a wait at the fill lock that keeps the
  cache well formed, and let its host be not empty, in lower case and without white space at its ends. Then the cache afterwards holds no entry for any
  request with the same host and canonical URI, whatever its headers and \<^verbatim>\<open>Vary\<close> variants (as long as neither its method nor a name the key is made
  from contains a bar), so a following \<^verbatim>\<open>GET\<close> goes to an origin. Without a host the code does not recognise the keys and invalidates nothing.
\<close>

theorem unsafe_request_invalidates:
  assumes "state_ok hs" "keeps_cache wait" "final_replies (fc_env c)"
    and "handle_route c wait w hs = Some (r, w', hs')"
    and "unsafe_method (rq_method (eq_http (fc_req c)))"
    and "cw_status w = 0" "200 \<le> cw_status w'" "cw_status w' < 400"
    and "to_lower (trim_space (cache_host (rq_host (eq_http (fc_req c))))) = cache_host (rq_host (eq_http (fc_req c)))"
    and "cache_host (rq_host later) = cache_host (rq_host (eq_http (fc_req c)))"
    and "canonical_request_uri (rq_url later) = canonical_request_uri (rq_url (eq_http (fc_req c)))"
    and "cache_host (rq_host later) \<noteq> []" "CHR ''|'' \<notin> set (rq_method later)" "bar_free_config cfg"
  shows "entries hs' (cache_key sha later cfg) = None"
proof -
  have "cache_key_request (cache_key sha later cfg) =
      Some (cache_host (rq_host later), canonical_request_uri (rq_url later))"
    using assms(12-14) by (intro cache_key_identifies)
  then have sel: "purge_request_selects (to_lower (trim_space (cache_host (rq_host (eq_http (fc_req c))))))
      (canonical_request_uri (rq_url (eq_http (fc_req c)))) cache_key_request (cache_key sha later cfg)"
    using assms(9-11) by (simp add: purge_request_selects_def)
  have go: "entries hs' (cache_key sha later cfg) = None"
    if "state_ok s" "fetch_and_serve c None cs False w s = Some (r, w', hs')" for cs s
    using fetch_invalidates [OF that(1) assms(3,5) that(2) assms(6-8) sel] .
  show ?thesis
    using assms(4)
  proof (cases rule: handle_route_cases)
    case (refused e)
    then show ?thesis using http_error_status [OF assms(6), of 400 "ev_out (fc_env c)" "''bad request''"] assms(8) by simp
  next
    case bypass
    then show ?thesis using go assms(1) by blast
  next
    case crash
    then show ?thesis using assms(6,7) by simp
  next
    case (hit cache e cache')
    then show ?thesis using unsafe_mode [OF assms(5)] by simp
  next
    case (fill look store)
    have "state_ok (lock_state c wait hs)" by (rule lock_state_ok [OF assms(2,1)])
    moreover have "\<not> look" "\<not> store" using fill(2,3) unsafe_mode [OF assms(5)] by auto
    ultimately show ?thesis using go fill(4) by (simp add: fill_def)
  qed
qed

end
