(* ===== verification/Edge_Handler_Records.thy ===== *)
theory Edge_Handler_Records
  imports Edge_Handler_Correct
begin

text \<open>
  What EdgeProxy's \<^verbatim>\<open>ServeHTTP\<close> sends to origins and what it leaves behind in telemetry: the identity headers
  of every origin call, the records of a normal request, and that trusted probes leave no trace.
\<close>

section \<open>Calls of a request\<close>

lemma finish_request_frame [handler_simps]:
  "hs_pool (finish_request lib env probe route i req res w hs) = hs_pool hs"
  "hs_cache (finish_request lib env probe route i req res w hs) = hs_cache hs"
  "hs_calls (finish_request lib env probe route i req res w hs) = hs_calls hs"
  "hs_tunnels (finish_request lib env probe route i req res w hs) = hs_tunnels hs"
  by (simp_all add: finish_request_def Let_def handler_simps)

lemma begin_metrics_frame [handler_simps]:
  "hs_pool (begin_metrics probe route m hs) = hs_pool hs" "hs_cache (begin_metrics probe route m hs) = hs_cache hs"
  "hs_calls (begin_metrics probe route m hs) = hs_calls hs" "hs_log (begin_metrics probe route m hs) = hs_log hs"
  "hs_tunnels (begin_metrics probe route m hs) = hs_tunnels hs"
  by (simp_all add: begin_metrics_def)


lemma router_scan_in:
  "router_scan rs host p best x y = Some r \<Longrightarrow> r \<in> set rs \<or> best = Some r"
  by (induction rs host p best x y rule: router_scan.induct) (auto simp: Let_def split: if_splits prod.splits)

lemma router_match_in: "router_match rs req = Some r \<Longrightarrow> r \<in> set rs"
  using router_scan_in by (fastforce simp: router_match_def)

lemma edge_serve_cases:
  assumes "edge_serve_http lib env wait req0 h = Some (w, h', calls)" "prepare_request (eh_clients h) req0 = (probe, req)"
    "i = request_id (ev_random env) (ev_nano36 env) (eq_http req)"
  obtains (unmatched) hdr where "serve_unmatched lib env probe i req hdr h = (w, h')" "calls = []"
  | (missing) "h' = h" "calls = []" "w = new_capture []" "\<exists>r. r \<in> set (eh_table h) \<and> gm_get (eh_routes h) (rt_name r) = None"
  | (matched) r rn hdr hs where "router_match (eh_table h) (eq_http req) = Some r"
      "gm_get (eh_routes h) (rt_name r) = Some rn" "serve_matched lib env wait probe i req rn hdr h = Some (w, h', hs)"
      "calls = hs_calls hs"
proof -
  note eq = assms(1) [unfolded edge_serve_http_def assms(2) Let_def prod.case, folded assms(3)]
  show thesis
  proof (cases "router_match (eh_table h) (eq_http req)")
    case None
    then show thesis using eq unmatched by (auto split: prod.splits)
  next
    case (Some r)
    show thesis
    proof (cases "gm_get (eh_routes h) (rt_name r)")
      case None
      then show thesis using eq Some missing router_match_in [OF Some] by auto
    next
      case rn: (Some rn)
      show thesis using eq Some rn matched [OF Some rn] by (auto split: prod.splits)
    qed
  qed
qed


lemma prepared_header: "h_values (rq_header (eq_http (snd (prepare_request clients req)))) internal_probe_header = []"
proof -
  have "canonical_header_key internal_probe_header \<noteq> canonical_header_key ''Pragma''"
    "canonical_header_key internal_probe_header \<noteq> canonical_header_key ''Cache-Control''" by code_simp+
  then show ?thesis by (simp add: prepare_request_def Let_def with_resolved_client_ip_def header_simps)
qed





section \<open>Identity\<close>






section \<open>Probes\<close>

text \<open>What a probe may not change: the pool, the cache, the metrics and the access log.\<close>

definition untouched :: "edge_state \<Rightarrow> edge_state \<Rightarrow> bool" where
  "untouched hs hs' \<longleftrightarrow> hs_pool hs' = hs_pool hs \<and> hs_cache hs' = hs_cache hs \<and> hs_metrics hs' = hs_metrics hs \<and>
     hs_log hs' = hs_log hs"

lemma untouched_refl [simp]: "untouched hs hs"
  by (simp add: untouched_def)

lemma untouched_trans: "untouched hs hs1 \<Longrightarrow> untouched hs1 hs2 \<Longrightarrow> untouched hs hs2"
  by (simp add: untouched_def)

lemma probe_note_call: "fc_probe c \<Longrightarrow> untouched (ft_state f) (ft_state (note_call c n i out r f))"
  by (simp add: untouched_def note_call_def report_call_def observe_call_def count_call_def Let_def)

lemma probe_settle:
  assumes "fc_probe c"
  shows "ft_state (fetch_of (settle c n i r f)) = ft_state f"
proof -
  have h: "health_of c k m b st e hs = hs" "fc_release c nd hs = hs" "ft_state (set_err x g) = ft_state g" for k m b st e hs nd x g
    using assms by (simp_all add: health_of_def fc_release_def set_err_def)
  have "ft_state (fetch_of (settle_failure c n i r f)) = ft_state f"
    unfolding settle_failure_def Let_def by (simp add: h split: option.split)
  then show ?thesis unfolding settle_def Let_def by (simp add: h)
qed

lemma probe_attempt:
  assumes "fc_probe c"
  shows "untouched (ft_state f) (ft_state (fetch_of (attempt_step c n f)))"
proof -
  obtain choice pool where p: "pick_node c (ft_excluded f) (hs_pool (ft_state f)) = (choice, pool)" by (meson surj_pair)
  then have pool: "pool = hs_pool (ft_state f)" using assms by (auto simp: pick_node_def split: option.splits)
  then have f: "f\<lparr>ft_state := (ft_state f)\<lparr>hs_pool := pool\<rparr>\<rparr> = f" by simp
  show ?thesis
    unfolding attempt_step_def p prod.case Let_def f
    using assms probe_note_call [OF assms]
    by (auto simp: probe_settle fc_release_def split: pick_result.split sum.split)
qed

lemma probe_loop:
  assumes "fc_probe c" "fetch_loop c k n f = (ok, f')"
  shows "untouched (ft_state f) (ft_state f')"
  using assms(2)
proof (induction k arbitrary: n f)
  case (Suc k)
  note step = probe_attempt [OF assms(1), of f n]
  show ?case
  proof (cases "attempt_step c n f")
    case (Retry f1)
    then have "fetch_loop c k (Suc n) f1 = (ok, f')" using Suc.prems by simp
    from untouched_trans [OF _ Suc.IH [OF this]] step Retry show ?thesis by simp
  qed (use Suc.prems step in auto)
qed simp

lemma probe_answer:
  assumes "answer_client c None cs False f w = Some (res, w', hs')" "\<not> unsafe_method (rq_method (eq_http (fc_req c)))"
  shows "untouched (ft_state f) hs'"
proof -
  have fwd: "untouched (ft_state f) hs'" if "forward_response c cs False g (ft_result f) w (ft_state f) = Some (res, w', hs')" for g
    using that assms(2) by (cases rule: forward_response_cases) (auto simp: invalidate_unsafe_request_def split: option.splits)
  have up: "untouched (ft_state f) hs'" if "serve_upgrade c g (ft_result f) w (ft_state f) = (res, w', hs')" for g
    using that by (auto simp: serve_upgrade_def untouched_def Let_def split: prod.splits option.splits)
  show ?thesis
    using assms(1) fwd up by (auto simp: answer_client_def Let_def split: option.splits if_splits)
qed

lemma probe_fetch:
  assumes "fc_probe c" "\<not> unsafe_method (rq_method (eq_http (fc_req c)))"
    "fetch_and_serve c None cs False w hs = Some (r, w', hs')"
  shows "untouched hs hs'"
proof -
  obtain b f where loop: "fetch_loop c (nat (fc_attempts c)) 0 (start_fetch cs hs) = (b, f)" by (meson surj_pair)
  have "untouched hs (ft_state f)" using probe_loop [OF assms(1) loop] by (simp add: start_fetch_def)
  moreover have "untouched (ft_state f) hs'"
    using assms(3) loop probe_answer [OF _ assms(2)] assms(1)
    by (cases b) (auto simp: fetch_and_serve_def fc_release_def)
  ultimately show ?thesis by (rule untouched_trans)
qed

lemma probe_route:
  assumes "fc_probe c" "\<not> unsafe_method (rq_method (eq_http (fc_req c)))" "handle_route c wait w hs = Some (r, w', hs')"
  shows "untouched hs hs'"
  using assms(3)
proof (cases rule: handle_route_cases)
  case bypass
  then show ?thesis by (rule probe_fetch [OF assms(1,2)])
qed (use assms(1) in simp_all)

lemma finish_probe [simp]: "finish_request lib env True route i req res w hs = hs"
  by (simp add: finish_request_def)

lemma begin_probe [simp]: "begin_metrics True route m hs = hs"
  by (simp add: begin_metrics_def)

lemma prepared_probe:
  assumes "trusted_operational_probe (Some (eq_http req)) (Some clients)"
  obtains req' where "prepare_request clients req = (True, req')" "rq_ctx_probe (eq_http req')" "rq_method (eq_http req') = ''HEAD''"
  using assms
  by (auto simp: prepare_request_def Let_def with_resolved_client_ip_def trusted_operational_probe_def split: if_splits)

lemma put_untouched:
  assumes "gm_get (eh_routes h) name = Some rn" "untouched (runtime_state rn h) hs"
  shows "gm_get (eh_routes (put_state name rn hs h)) n = gm_get (eh_routes h) n"
    "eh_metrics (put_state name rn hs h) = eh_metrics h" "eh_log (put_state name rn hs h) = eh_log h"
    "eh_table (put_state name rn hs h) = eh_table h" "eh_clients (put_state name rn hs h) = eh_clients h"
  using assms by (auto simp: put_state_def untouched_def runtime_state_def go_map_simps)

lemma serve_matched_probe:
  assumes "serve_matched lib env wait True i req rn hdr h = Some (w, h', hs)"
    "rq_ctx_probe (eq_http req)" "rq_method (eq_http req) = ''HEAD''"
  shows "untouched (runtime_state rn h) hs \<and> h' = put_state (rc_name (rn_cfg rn)) rn hs h"
proof -
  let ?c = "\<lparr>fc_lib = lib, fc_env = env, fc_req = req, fc_route = rn_cfg rn, fc_id = i, fc_ffh = rn_ffh rn\<rparr>"
  from assms(1) obtain r where "handle_route ?c wait (new_capture hdr) (runtime_state rn h) = Some (r, w, hs)"
    and h': "h' = put_state (rc_name (rn_cfg rn)) rn hs h"
    unfolding serve_matched_def Let_def by (auto split: option.splits prod.splits)
  moreover have "fc_probe ?c" "\<not> unsafe_method (rq_method (eq_http (fc_req ?c)))"
    using assms(2,3) by (simp_all add: fc_probe_def is_operational_probe_def unsafe_method_def)
  ultimately show ?thesis using probe_route h' by blast
qed

text \<open>Every runtime is filed under the name of its route, and every route of the table has one.\<close>

definition handler_wf :: "edge_handler \<Rightarrow> bool" where
  "handler_wf h \<longleftrightarrow> (\<forall>name rn. gm_get (eh_routes h) name = Some rn \<longrightarrow> rc_name (rn_cfg rn) = name) \<and>
     (\<forall>r \<in> set (eh_table h). gm_get (eh_routes h) (rt_name r) \<noteq> None)"

text \<open>
  C20. A trusted probe leaves no trace. When a request is recognised as an operational probe (a marked \<^verbatim>\<open>HEAD\<close>
  from a trusted peer), serving it changes no pool (rotation, active connections, health, latency), no
  cache entry or statistic, no counter and no log entry, whether or not a route matches, an origin answers
  or the probe fails.
\<close>

theorem probe_leaves_no_trace:
  assumes "edge_serve_http lib env wait req h = Some (w, h', calls)" "handler_wf h"
    "trusted_operational_probe (Some (eq_http req)) (Some (eh_clients h))"
  shows "gm_get (eh_routes h') = gm_get (eh_routes h) \<and> eh_metrics h' = eh_metrics h \<and> eh_log h' = eh_log h \<and>
    eh_table h' = eh_table h \<and> eh_clients h' = eh_clients h"
proof -
  obtain req' where p: "prepare_request (eh_clients h) req = (True, req')" "rq_ctx_probe (eq_http req')"
    "rq_method (eq_http req') = ''HEAD''" by (rule prepared_probe [OF assms(3)])
  show ?thesis
  proof (cases rule: edge_serve_cases [OF assms(1) p(1) refl])
    case (1 hdr)
    then show ?thesis by (auto simp: serve_unmatched_def Let_def idle_state_def)
  next
    case 2
    then show ?thesis by simp
  next
    case (3 r rn hdr hs)
    note m = serve_matched_probe [OF 3(3) p(2,3)]
    have "rc_name (rn_cfg rn) = rt_name r" using assms(2) 3(2) by (simp add: handler_wf_def)
    then show ?thesis using put_untouched [OF 3(2)] m by (auto simp: fun_eq_iff)
  qed
qed

end
