(* ===== verification/Edge_Handler_Telemetry.thy ===== *)
theory Edge_Handler_Telemetry
  imports Edge_Handler_Records
begin

text \<open>
  How EdgeProxy's handler drives the metrics registry: each request that is not a probe is one beginning,
  its origin calls and perhaps one stored response, and one end; and what building a handler establishes.
\<close>

section \<open>Events of a request\<close>

fun is_call :: "metric_event \<Rightarrow> bool" where
  "is_call (Ev_Upstream _ _ _) = True"
| "is_call _ = False"

text \<open>An event that a request causes between its beginning and its end.\<close>

fun inner_event :: "string \<Rightarrow> metric_event \<Rightarrow> bool" where
  "inner_event route (Ev_Upstream r _ _) = (r = route)"
| "inner_event route (Ev_Store r) = (r = route)"
| "inner_event route _ = False"

definition metered :: "fetch_cfg \<Rightarrow> edge_state \<Rightarrow> edge_state \<Rightarrow> bool" where
  "metered c hs hs' \<longleftrightarrow> (\<exists>evs. hs_metrics hs' = foldl metric_step (hs_metrics hs) evs \<and>
     list_all (inner_event (rc_name (fc_route c))) evs \<and>
     length (hs_calls hs') = length (hs_calls hs) + length (filter is_call evs))"

lemma metered_same: "hs_metrics hs' = hs_metrics hs \<Longrightarrow> hs_calls hs' = hs_calls hs \<Longrightarrow> metered c hs hs'"
  by (auto simp: metered_def intro!: exI [of _ "[]"])

lemma metered_trans:
  assumes "metered c hs hs1" "metered c hs1 hs2"
  shows "metered c hs hs2"
proof -
  from assms obtain xs ys where
    "hs_metrics hs1 = foldl metric_step (hs_metrics hs) xs" "list_all (inner_event (rc_name (fc_route c))) xs"
    "length (hs_calls hs1) = length (hs_calls hs) + length (filter is_call xs)"
    "hs_metrics hs2 = foldl metric_step (hs_metrics hs1) ys" "list_all (inner_event (rc_name (fc_route c))) ys"
    "length (hs_calls hs2) = length (hs_calls hs1) + length (filter is_call ys)"
    unfolding metered_def by blast
  then show ?thesis unfolding metered_def by (intro exI [of _ "xs @ ys"]) simp
qed

lemma note_call_metered:
  assumes "\<not> fc_probe c"
  shows "metered c (ft_state f) (ft_state (note_call c n i out r f))"
  unfolding metered_def
  by (rule exI [of _ "[Ev_Upstream (rc_name (fc_route c)) (node_url c i (ft_state f)) (call_observation c n r)]"])
    (simp add: note_call_def report_call_def assms Let_def record_upstream_attempt_def handler_simps)

lemma attempt_step_metered:
  assumes "\<not> fc_probe c"
  shows "metered c (ft_state f) (ft_state (fetch_of (attempt_step c n f)))"
proof -
  obtain choice pool where p: "pick_node c (ft_excluded f) (hs_pool (ft_state f)) = (choice, pool)" by (meson surj_pair)
  let ?f = "f\<lparr>ft_state := (ft_state f)\<lparr>hs_pool := pool\<rparr>\<rparr>"
  have same: "metered c (ft_state f) (ft_state ?f)" by (intro metered_same) simp_all
  show ?thesis
  proof (cases choice)
    case (Picked i)
    show ?thesis
    proof (cases "clone_request (fc_req c) (up_nodes pool ! i) (fc_route c) (fc_id c) (fc_ffh c)")
      case (Inl e)
      then show ?thesis
        unfolding attempt_step_def p prod.case Let_def Picked pick_result.case by (intro metered_same) (simp_all add: handler_simps)
    next
      case (Inr out)
      let ?r = "ev_origin (fc_env c) n i out"
      have "metered c (ft_state (note_call c n i out ?r ?f)) (ft_state (fetch_of (settle c n i ?r (note_call c n i out ?r ?f))))"
        by (intro metered_same) (simp_all add: handler_simps)
      from metered_trans [OF metered_trans [OF same note_call_metered [OF assms]] this] show ?thesis
        unfolding attempt_step_def p prod.case Let_def Picked pick_result.case Inr sum.case .
    qed
  next
    case No_node
    show ?thesis
      unfolding attempt_step_def p prod.case Let_def No_node pick_result.case by (intro metered_same) simp_all
  next
    case Panicked
    show ?thesis
      unfolding attempt_step_def p prod.case Let_def Panicked pick_result.case using same by simp
  qed
qed

lemma fetch_loop_metered:
  assumes "\<not> fc_probe c" "fetch_loop c k n f = (ok, f')"
  shows "metered c (ft_state f) (ft_state f')"
  using assms(2)
proof (induction k arbitrary: n f)
  case 0
  then show ?case by (intro metered_same) simp_all
next
  case (Suc k)
  note step = attempt_step_metered [OF assms(1), of f n]
  show ?case
  proof (cases "attempt_step c n f")
    case (Retry f1)
    then have "fetch_loop c k (Suc n) f1 = (ok, f')" using Suc.prems by simp
    from metered_trans [OF _ Suc.IH [OF this]] step Retry show ?thesis by simp
  qed (use Suc.prems step in auto)
qed

lemma store_entry_metered:
  assumes "store_entry c resp body pol cache hs = Some hs'"
  shows "metered c hs hs'"
proof -
  have "hs_calls hs' = hs_calls hs"
    using store_entry_settled [OF assms] by (simp add: settled_def)
  moreover have "hs_metrics hs' = hs_metrics hs \<or> hs_metrics hs' = metric_step (hs_metrics hs) (Ev_Store (rc_name (fc_route c)))"
    using assms by (auto simp: store_entry_def Let_def split: prod.splits option.splits if_splits)
  ultimately show ?thesis
    unfolding metered_def
    by (metis (no_types, lifting) add_0_right filter.simps foldl_Cons foldl_Nil inner_event.simps(2) is_call.simps(4)
        list.pred_inject list.size(3))
qed

lemma answer_client_metered:
  assumes "answer_client c stale cs store f w = Some (res, w', hs')"
  shows "metered c (ft_state f) hs'"
proof -
  have fwd: "metered c (ft_state f) hs'" if run: "forward_response c cs store g (ft_result f) w (ft_state f) = Some (res, w', hs')" for g
    using run
  proof (cases rule: forward_response_cases)
    case through
    then show ?thesis by (intro metered_same) (simp_all add: handler_simps)
  next
    case (stored cache pol w0 buf)
    from store_entry_metered [OF stored(7)] show ?thesis by (simp add: metered_def handler_simps)
  qed
  have up: "metered c (ft_state f) hs'" if "serve_upgrade c g (ft_result f) w (ft_state f) = (res, w', hs')" for g
    using that by (intro metered_same) (auto simp: serve_upgrade_def Let_def split: prod.splits option.splits)
  have st: "metered c (ft_state f) hs'" if "serve_stale c e (ft_result f) w (ft_state f) = (res, w', hs')" for e
    using serve_stale_cache [OF that] by (intro metered_same) simp_all
  show ?thesis
    using assms fwd up st
    by (auto simp: answer_client_def Let_def metered_same split: option.splits if_splits; metis)
qed

lemma fetch_and_serve_metered:
  assumes "\<not> fc_probe c" "fetch_and_serve c stale cs store w hs = Some (r, w', hs')"
  shows "metered c hs hs'"
proof -
  obtain b f where loop: "fetch_loop c (nat (fc_attempts c)) 0 (start_fetch cs hs) = (b, f)" by (meson surj_pair)
  have "metered c hs (ft_state f)" using fetch_loop_metered [OF assms(1) loop] by (simp add: start_fetch_def)
  moreover have "metered c (ft_state f) hs'"
  proof (cases b)
    case False
    then show ?thesis using assms(2) loop by (auto simp: fetch_and_serve_def intro: metered_same)
  next
    case True
    with assms(2) loop obtain res hs1 where "answer_client c stale cs store f w = Some (res, w', hs1)"
      "hs' = fc_release c (ft_active f) hs1" by (auto simp: fetch_and_serve_def)
    then show ?thesis using answer_client_metered by (fastforce simp: metered_def handler_simps)
  qed
  ultimately show ?thesis by (rule metered_trans)
qed

lemma fill_metered:
  assumes "\<not> fc_probe c" "fill c look store key w hs = Some (r, w', hs')"
  shows "metered c hs hs'"
proof (cases "look \<and> hs_cache hs \<noteq> None")
  case False
  then show ?thesis
    using assms fetch_and_serve_metered [OF assms(1)]
    by (auto simp: fill_def intro: metered_same split: if_splits option.splits)
next
  case True
  then obtain cache where cache: "hs_cache hs = Some cache" by auto
  obtain l cache' where l: "lookup_cache (eq_http (fc_req c)) key (ev_now_second (fc_env c)) cache = (l, cache')"
    by (meson surj_pair)
  show ?thesis
  proof (cases l)
    case (Hit e)
    with assms True cache l have "serve_hit c At_Second_Hit e (ev_now_second (fc_env c)) w (hs\<lparr>hs_cache := Some cache'\<rparr>)
        = (r, w', hs')" by (simp add: fill_def)
    from serve_hit_frame [OF this] show ?thesis by (intro metered_same) simp_all
  next
    case (Kept stale)
    with assms True cache l have "fetch_and_serve c stale ''MISS'' store w (hs\<lparr>hs_cache := Some cache'\<rparr>) = Some (r, w', hs')"
      by (simp add: fill_def)
    from fetch_and_serve_metered [OF assms(1) this] show ?thesis by (simp add: metered_def)
  qed
qed

lemma handle_route_metered:
  assumes "\<not> fc_probe c" "handle_route c wait w hs = Some (r, w', hs')" "\<And>s. hs_metrics (wait s) = hs_metrics s"
  shows "metered c hs hs'"
  using assms(2)
proof (cases rule: handle_route_cases)
  case bypass
  then show ?thesis by (rule fetch_and_serve_metered [OF assms(1)])
next
  case (hit cache e cache')
  from serve_hit_frame [OF hit(4)] show ?thesis by (intro metered_same) simp_all
next
  case (fill look store)
  from fill_metered [OF assms(1) fill(4)] show ?thesis by (cases "fst (request_cache_mode (eq_http (fc_req c)) (rc_cache (fc_route c)))") (simp_all add: metered_def lock_state_def after_wait_def handler_simps assms(3))
qed (auto intro: metered_same)

section \<open>Records\<close>

lemma finish_request_metrics:
  "\<exists>ob. hs_metrics (finish_request lib env False route i req res w hs) = metric_step (hs_metrics hs) (Ev_Finish route ob) \<and>
     (ro_canceled ob \<or> ro_status ob = (if cw_status w = 0 then 200 else cw_status w))"
  unfolding finish_request_def Let_def append_log_frame
  by (simp add: handler_simps) (fastforce intro: exI [of _ "\<lparr>ro_status = _, ro_canceled = _, ro_bytes_in = _, ro_bytes_out = _,
    ro_duration = _, ro_proxy_error = _, ro_retries = _, ro_cache_status = _\<rparr>"])

lemma serve_matched_metered:
  assumes "serve_matched lib env wait False i req rn hdr h = Some (w, h', hs)" "\<not> rq_ctx_probe (eq_http req)"
    "\<And>s. hs_metrics (wait s) = hs_metrics s"
  shows "\<exists>evs ob. eh_metrics h' = foldl metric_step (eh_metrics h)
      (Ev_Begin (rc_name (rn_cfg rn)) (rq_method (eq_http req)) # evs @ [Ev_Finish (rc_name (rn_cfg rn)) ob]) \<and>
    list_all (inner_event (rc_name (rn_cfg rn))) evs \<and> length (filter is_call evs) = length (hs_calls hs) \<and>
    (ro_canceled ob \<or> ro_status ob = (if cw_status w = 0 then 200 else cw_status w))"
proof -
  let ?route = "rc_name (rn_cfg rn)"
  let ?c = "\<lparr>fc_lib = lib, fc_env = env, fc_req = req, fc_route = rn_cfg rn, fc_id = i, fc_ffh = rn_ffh rn\<rparr>"
  let ?hs = "begin_metrics False ?route (rq_method (eq_http req)) (runtime_state rn h)"
  from assms(1) obtain r hs1 where run: "handle_route ?c wait (new_capture hdr) ?hs = Some (r, w, hs1)"
    and hs: "hs = finish_request lib env False ?route i req (case r of None \<Rightarrow> new_result ''BYPASS'' | Some r \<Rightarrow> r) w hs1"
    and h': "h' = put_state ?route rn hs h"
    unfolding serve_matched_def Let_def by (auto split: option.splits prod.splits)
  have "\<not> fc_probe ?c" using assms(2) by (simp add: fc_probe_def is_operational_probe_def)
  from handle_route_metered [OF this run assms(3)] obtain evs where
    evs: "hs_metrics hs1 = foldl metric_step (hs_metrics ?hs) evs" "list_all (inner_event ?route) evs"
      "length (hs_calls hs1) = length (hs_calls ?hs) + length (filter is_call evs)"
    by (auto simp: metered_def)
  have start: "hs_metrics ?hs = metric_step (eh_metrics h) (Ev_Begin ?route (rq_method (eq_http req)))" "hs_calls ?hs = []"
    by (simp_all add: begin_metrics_def runtime_state_def)
  obtain ob where ob: "hs_metrics hs = metric_step (hs_metrics hs1) (Ev_Finish ?route ob)"
    "ro_canceled ob \<or> ro_status ob = (if cw_status w = 0 then 200 else cw_status w)"
    using finish_request_metrics [of lib env ?route i req _ w hs1] unfolding hs by blast
  show ?thesis
  proof (intro exI conjI)
    show "eh_metrics h' = foldl metric_step (eh_metrics h)
        (Ev_Begin ?route (rq_method (eq_http req)) # evs @ [Ev_Finish ?route ob])"
      unfolding h' put_state_def using ob(1) evs(1) start(1) by simp
    show "length (filter is_call evs) = length (hs_calls hs)" using evs(3) start(2) unfolding hs by (simp add: handler_simps)
  qed (fact evs(2) ob(2))+
qed

lemma serve_unmatched_metered:
  assumes "serve_unmatched lib env False i req hdr h = (w, h')"
  shows "\<exists>ob. eh_metrics h' = foldl metric_step (eh_metrics h)
      [Ev_Begin ''__unmatched__'' (rq_method (eq_http req)), Ev_Finish ''__unmatched__'' ob] \<and>
    (ro_canceled ob \<or> ro_status ob = (if cw_status w = 0 then 200 else cw_status w))"
proof -
  let ?hs = "begin_metrics False ''__unmatched__'' (rq_method (eq_http req)) (idle_state h)"
  have w: "w = http_error (ev_out env) ''no route configured for this host and path'' 404 (new_capture hdr)"
    and h': "eh_metrics h' = hs_metrics (finish_request lib env False ''__unmatched__'' i req (new_result ''BYPASS'') w ?hs)"
    using assms by (auto simp: serve_unmatched_def Let_def)
  show ?thesis
    using finish_request_metrics [of lib env "''__unmatched__''" i req "new_result ''BYPASS''" w ?hs]
    unfolding h' by (simp add: begin_metrics_def idle_state_def)
qed

text \<open>
  C21. Each request is counted once, with its outcome. Unless it is a probe, serving a request changes the
  metrics registry by exactly these operations: a beginning, for the route and the method; one record per
  call made to an origin and at most stores in between, all for the same route; and one end, whose status is the
  one sent to the client unless the request was cancelled. So the in-flight gauge returns to its value, also
  when the code panics. Other requests are silent meanwhile.
\<close>

theorem request_counted_once:
  assumes "edge_serve_http lib env wait req h = Some (w, h', calls)" "handler_wf h"
    "\<not> trusted_operational_probe (Some (eq_http req)) (Some (eh_clients h))" "\<not> rq_ctx_probe (eq_http req)"
    "\<And>s. hs_metrics (wait s) = hs_metrics s"
  shows "\<exists>route evs ob. eh_metrics h' = foldl metric_step (eh_metrics h)
      (Ev_Begin route (rq_method (eq_http req)) # evs @ [Ev_Finish route ob]) \<and>
    list_all (inner_event route) evs \<and> length (filter is_call evs) = length calls \<and>
    (ro_canceled ob \<or> ro_status ob = (if cw_status w = 0 then 200 else cw_status w)) \<and>
    em_inflight (eh_metrics h') = em_inflight (eh_metrics h)"
proof -
  obtain req' where p: "prepare_request (eh_clients h) req = (False, req')" "\<not> rq_ctx_probe (eq_http req')"
    "rq_method (eq_http req') = rq_method (eq_http req)"
    using assms(3,4) by (simp add: prepare_request_def Let_def with_resolved_client_ip_def)
  have flat: "em_inflight (foldl metric_step m evs) = em_inflight m" if "list_all (inner_event route) evs" for route m evs
    using that
  proof (induction evs arbitrary: m)
    case (Cons e evs)
    then show ?case by (cases e) (simp_all add: registry_defs)
  qed simp
  have "\<exists>route evs ob. eh_metrics h' = foldl metric_step (eh_metrics h)
      (Ev_Begin route (rq_method (eq_http req)) # evs @ [Ev_Finish route ob]) \<and>
    list_all (inner_event route) evs \<and> length (filter is_call evs) = length calls \<and>
    (ro_canceled ob \<or> ro_status ob = (if cw_status w = 0 then 200 else cw_status w))"
  proof (cases rule: edge_serve_cases [OF assms(1) p(1) refl])
    case (1 hdr)
    from serve_unmatched_metered [OF 1(1)] obtain ob where
      "eh_metrics h' = foldl metric_step (eh_metrics h)
        (Ev_Begin ''__unmatched__'' (rq_method (eq_http req)) # [] @ [Ev_Finish ''__unmatched__'' ob])"
      "ro_canceled ob \<or> ro_status ob = (if cw_status w = 0 then 200 else cw_status w)"
      unfolding p(3) append_Nil by blast
    then show ?thesis unfolding 1(2) by (intro exI [of _ "''__unmatched__''"] exI [of _ "[]"] exI [of _ ob]) simp
  next
    case 2
    then show ?thesis using assms(2) by (auto simp: handler_wf_def)
  next
    case (3 r rn hdr hs)
    from serve_matched_metered [OF 3(3) p(2) assms(5)] show ?thesis unfolding 3(4) p(3) by blast
  qed
  then obtain route evs ob where m: "eh_metrics h' = foldl metric_step (eh_metrics h)
      (Ev_Begin route (rq_method (eq_http req)) # evs @ [Ev_Finish route ob])" "list_all (inner_event route) evs"
    and rest: "length (filter is_call evs) = length calls"
      "ro_canceled ob \<or> ro_status ob = (if cw_status w = 0 then 200 else cw_status w)" by blast
  have "em_inflight (eh_metrics h') = em_inflight (eh_metrics h)"
    using flat [OF m(2)] unfolding m(1) by (simp add: registry_defs)
  with m rest show ?thesis by blast
qed

end
