(* ===== verification/Edge_Handler_Life.thy ===== *)
theory Edge_Handler_Life
  imports Edge_Handler_Telemetry
begin

text \<open>
  The life of EdgeProxy's handler: it is built, serves requests, runs health checks, is purged and
  reloaded. In every handler that can arise this way the route table and the runtimes fit, the caches
  are well formed, and so every request comes to an end without a missing runtime.
\<close>

section \<open>Invariant\<close>

definition runtime_ok :: "string \<Rightarrow> runtime \<Rightarrow> bool" where
  "runtime_ok name rn \<longleftrightarrow> rc_name (rn_cfg rn) = name \<and> (case rn_cache rn of None \<Rightarrow> True | Some c \<Rightarrow> cache_inv c)"

definition routes_ok :: "(string, runtime) gomap \<Rightarrow> bool" where
  "routes_ok m \<longleftrightarrow> gm_inv m \<and> (\<forall>name rn. gm_get m name = Some rn \<longrightarrow> runtime_ok name rn)"

definition handler_ok :: "edge_handler \<Rightarrow> bool" where
  "handler_ok h \<longleftrightarrow> routes_ok (eh_routes h) \<and> (\<forall>r \<in> set (eh_table h). gm_get (eh_routes h) (rt_name r) \<noteq> None)"

lemma handler_ok_wf: "handler_ok h \<Longrightarrow> handler_wf h"
  by (simp add: handler_ok_def handler_wf_def routes_ok_def runtime_ok_def)

text \<open>What configuration validation promises of the cache limits.\<close>

definition limits_ok :: "edge_config \<Rightarrow> bool" where
  "limits_ok cfg = list_all (\<lambda>rc. cc_enabled (rc_cache rc) \<longrightarrow>
     0 \<le> cc_max_entries (rc_cache rc) \<and> 0 \<le> cc_max_bytes (rc_cache rc)) (xc_routes cfg)"

lemma routes_ok_put: "routes_ok m \<Longrightarrow> runtime_ok name rn \<Longrightarrow> routes_ok (gm_put name rn m)"
  by (simp add: routes_ok_def go_map_simps)

lemma build_runtime_ok:
  assumes "build_runtime parse_url n ffh rc = Some rn"
    "cc_enabled (rc_cache rc) \<longrightarrow> 0 \<le> cc_max_entries (rc_cache rc) \<and> 0 \<le> cc_max_bytes (rc_cache rc)"
  shows "runtime_ok (rc_name rc) rn"
  using assms by (auto simp: build_runtime_def runtime_ok_def new_cache_inv)

lemma build_runtimes_ok:
  assumes "build_runtimes parse_url nano ffh n rcs m = Some m'" "routes_ok m"
    "list_all (\<lambda>rc. cc_enabled (rc_cache rc) \<longrightarrow> 0 \<le> cc_max_entries (rc_cache rc) \<and> 0 \<le> cc_max_bytes (rc_cache rc)) rcs"
  shows "routes_ok m' \<and> dom (gm_get m') = dom (gm_get m) \<union> rc_name ` set rcs"
  using assms
proof (induction parse_url nano ffh n rcs m rule: build_runtimes.induct)
  case (2 parse_url nano ffh n rc rcs m)
  from 2(2) obtain rn where rn: "build_runtime parse_url (nano n) ffh rc = Some rn"
    "build_runtimes parse_url nano ffh (Suc n) rcs (gm_put (rc_name rc) rn m) = Some m'"
    by (auto split: option.splits)
  have "routes_ok (gm_put (rc_name rc) rn m)" using routes_ok_put [OF 2(3) build_runtime_ok [OF rn(1)]] 2(4) by simp
  from 2(1) [OF rn(1,2) this] 2(4) show ?case by (auto simp: go_map_simps)
qed simp

lemma build_state_ok:
  assumes "build_state parse_url nano cfg = Some (table, m, clients)" "limits_ok cfg"
  shows "routes_ok m \<and> (\<forall>r \<in> set table. gm_get m (rt_name r) \<noteq> None)"
proof -
  from assms(1) have t: "table = map rc_route (xc_routes cfg)"
    and b: "build_runtimes parse_url nano (cr_header clients) 0 (xc_routes cfg) [] = Some m"
    by (auto simp: build_state_def split: option.splits)
  have "routes_ok []" by (simp add: routes_ok_def)
  from build_runtimes_ok [OF b this] assms(2) show ?thesis
    unfolding t limits_ok_def by (auto simp: rc_route_def dom_def)
qed

lemma handler_ok_put:
  assumes "handler_ok h" "gm_get (eh_routes h) name = Some rn" "state_ok hs"
  shows "handler_ok (put_state name rn hs h)"
proof -
  have "runtime_ok name (rn\<lparr>rn_pool := hs_pool hs, rn_cache := hs_cache hs\<rparr>)"
    using assms by (auto simp: handler_ok_def routes_ok_def runtime_ok_def state_ok_def)
  then show ?thesis using assms(1) routes_ok_put by (auto simp: handler_ok_def put_state_def go_map_simps)
qed

lemma runtime_state_ok: "handler_ok h \<Longrightarrow> gm_get (eh_routes h) name = Some rn \<Longrightarrow> state_ok (runtime_state rn h)"
  by (auto simp: handler_ok_def routes_ok_def runtime_ok_def state_ok_def runtime_state_def)

section \<open>Serving\<close>

lemma serve_matched_ok:
  assumes "handler_ok h" "gm_get (eh_routes h) name = Some rn" "keeps_cache wait"
  shows "\<exists>w h' hs. serve_matched lib env wait probe i req rn hdr h = Some (w, h', hs) \<and> handler_ok h'"
proof -
  let ?c = "\<lparr>fc_lib = lib, fc_env = env, fc_req = req, fc_route = rn_cfg rn, fc_id = i, fc_ffh = rn_ffh rn\<rparr>"
  let ?hs = "begin_metrics probe (rc_name (rn_cfg rn)) (rq_method (eq_http req)) (runtime_state rn h)"
  have ok: "state_ok ?hs" using runtime_state_ok [OF assms(1,2)] by (rule state_ok_cache) (simp add: handler_simps)
  obtain r w hs1 where run: "handle_route ?c wait (new_capture hdr) ?hs = Some (r, w, hs1)"
    using handle_route_returns [OF ok assms(3)] by blast
  have "state_ok hs1" using handle_route_extends [OF ok assms(3) run] by (auto simp: extends_def)
  then have "state_ok (finish_request lib env probe (rc_name (rn_cfg rn)) i req res w hs1)" for res
    by (rule state_ok_cache) (simp add: handler_simps)
  moreover have "rc_name (rn_cfg rn) = name" using assms(1,2) by (simp add: handler_ok_def routes_ok_def runtime_ok_def)
  ultimately show ?thesis
    using run assms(1,2) by (auto simp: serve_matched_def Let_def handler_ok_put)
qed

lemma edge_serve_ok:
  assumes "handler_ok h" "keeps_cache wait"
  shows "\<exists>w h' calls. edge_serve_http lib env wait req h = Some (w, h', calls) \<and> handler_ok h'"
proof -
  obtain probe req' where p: "prepare_request (eh_clients h) req = (probe, req')" by (meson surj_pair)
  have table: "gm_get (eh_routes h) (rt_name r) \<noteq> None" if "router_match (eh_table h) (eq_http req') = Some r" for r
    using router_match_in [OF that] assms(1) by (simp add: handler_ok_def)
  have unmatched: "handler_ok (snd (serve_unmatched lib env probe i req' hdr h))" for i hdr
    using assms(1) by (simp add: serve_unmatched_def Let_def handler_ok_def)
  show ?thesis
  proof (cases "router_match (eh_table h) (eq_http req')")
    case None
    let ?i = "request_id (ev_random env) (ev_nano36 env) (eq_http req')"
    obtain w h' where u: "serve_unmatched lib env probe ?i req' (h_set ''X-Request-ID'' ?i []) h = (w, h')" by (meson surj_pair)
    have "handler_ok h'" using unmatched [of ?i "h_set ''X-Request-ID'' ?i []"] unfolding u by simp
    then show ?thesis unfolding edge_serve_http_def p prod.case Let_def None option.case u by simp
  next
    case (Some r)
    then obtain rn where rn: "gm_get (eh_routes h) (rt_name r) = Some rn" using table by blast
    let ?i = "request_id (ev_random env) (ev_nano36 env) (eq_http req')"
    let ?hdr = "h_set ''X-Request-ID'' ?i (if probe then h_set internal_probe_header ''matched-v1'' [] else [])"
    obtain w h' hs where m: "serve_matched lib env wait probe ?i req' rn ?hdr h = Some (w, h', hs)" "handler_ok h'"
      using serve_matched_ok [OF assms(1) rn assms(2)] by blast
    show ?thesis unfolding edge_serve_http_def p prod.case Let_def Some option.case rn m(1) using m(2) by simp
  qed
qed

section \<open>Reachable handlers\<close>

inductive handler_reachable :: "edge_handler \<Rightarrow> bool" where
  built: "new_handler parse_url nano cfg reg logs = Some h \<Longrightarrow> limits_ok cfg \<Longrightarrow> handler_reachable h"
| served: "handler_reachable h \<Longrightarrow> keeps_cache wait \<Longrightarrow> edge_serve_http lib env wait req h = Some (w, h', calls)
    \<Longrightarrow> handler_reachable h'"
| reloaded: "handler_reachable h \<Longrightarrow> limits_ok cfg \<Longrightarrow> handler_reachable (snd (handler_reload parse_url nano cfg h))"
| checked: "handler_reachable h \<Longrightarrow> handler_reachable (health_round lib env name resps h)"
| purged: "handler_reachable h \<Longrightarrow> handler_reachable (snd (purge_cache parse_request_uri name host pre h))"

lemma new_handler_ok: "new_handler parse_url nano cfg reg logs = Some h \<Longrightarrow> limits_ok cfg \<Longrightarrow> handler_ok h"
  using build_state_ok [of parse_url nano cfg] by (auto simp: new_handler_def handler_ok_def)

lemma reload_ok: "handler_ok h \<Longrightarrow> limits_ok cfg \<Longrightarrow> handler_ok (snd (handler_reload parse_url nano cfg h))"
  using build_state_ok [of parse_url nano cfg] by (auto simp: handler_reload_def handler_ok_def split: option.splits)

lemma health_round_ok:
  assumes "handler_ok h"
  shows "handler_ok (health_round lib env name resps h)"
proof (cases "gm_get (eh_routes h) name")
  case None
  then show ?thesis using assms by (simp add: health_round_def)
next
  case (Some rn)
  have fold: "hs_cache (foldl (\<lambda>hs ch. record_health_change lib env route ch hs) hs changes) = hs_cache hs" for route hs changes
    by (induction changes arbitrary: hs) (simp_all add: record_health_change_def handler_simps)
  have "state_ok (foldl (\<lambda>hs ch. record_health_change lib env route ch hs) ((runtime_state rn h)\<lparr>hs_pool := pool\<rparr>) changes)"
    for route pool changes
    using runtime_state_ok [OF assms Some] by (rule state_ok_cache) (simp add: fold)
  then show ?thesis
    using assms Some by (simp add: health_round_def handler_ok_put split: prod.split)
qed

lemma find_runtime_in:
  assumes "handler_ok h" "find_runtime name h = Some (key, rn)"
  shows "gm_get (eh_routes h) key = Some rn"
proof (cases "gm_get (eh_routes h) name")
  case None
  then have "find (\<lambda>(n, rn). equal_fold (trim_space n) (trim_space name)) (eh_routes h) = Some (key, rn)"
    using assms(2) by (simp add: find_runtime_def)
  then have "(key, rn) \<in> set (eh_routes h)" unfolding find_Some_iff by (metis nth_mem)
  then show ?thesis using assms(1) by (simp add: handler_ok_def routes_ok_def gm_get_iff_in)
next
  case (Some rn')
  then show ?thesis using assms(2) by (simp add: find_runtime_def)
qed

lemma purge_inv:
  assumes "cache_inv c"
  shows "cache_inv (snd (cache_clear c))" "cache_inv (snd (cache_purge pr host pre kr c))"
proof -
  have "0 \<le> lc_max_entries c" "0 \<le> lc_max_bytes c"
    using assms index_inv_sizes [of c] view_bytes_nonneg [of "lru_view c"] by (auto simp: cache_inv_def cache_bounded_def)
  then show "cache_inv (snd (cache_clear c))" by (rule cache_clear_inv [OF assms])
  show "cache_inv (snd (cache_purge pr host pre kr c))"
    using cache_purge_view [of c] assms unfolding cache_purge_def cache_inv_def by (metis snd_conv)
qed

lemma purge_cache_ok:
  assumes "handler_ok h"
  shows "handler_ok (snd (purge_cache pr name host pre h))"
proof -
  have put: "handler_ok (h\<lparr>eh_routes := gm_put key (rn\<lparr>rn_cache := Some c'\<rparr>) (eh_routes h)\<rparr>)"
    if "find_runtime name h = Some (key, rn)" "cache_inv c'" for key rn c'
  proof -
    have "runtime_ok key (rn\<lparr>rn_cache := Some c'\<rparr>)"
      using find_runtime_in [OF assms that(1)] assms that(2) by (simp add: handler_ok_def routes_ok_def runtime_ok_def)
    then show ?thesis using assms routes_ok_put by (auto simp: handler_ok_def go_map_simps)
  qed
  show ?thesis
  proof (cases "find_runtime name h")
    case None
    then show ?thesis using assms by (simp add: purge_cache_def)
  next
    case (Some kr)
    obtain key rn where kr: "kr = (key, rn)" by (meson surj_pair)
    have "cache_inv c" if "rn_cache rn = Some c" for c
      using find_runtime_in [OF assms Some [unfolded kr]] assms that
      unfolding handler_ok_def routes_ok_def runtime_ok_def by fastforce
    then show ?thesis
      unfolding purge_cache_def Some kr
      using assms put [OF Some [unfolded kr]] purge_inv by (auto split: option.split sum.split prod.split) (metis snd_conv)+
  qed
qed

lemma reachable_ok: "handler_reachable h \<Longrightarrow> handler_ok h"
proof (induction rule: handler_reachable.induct)
  case (served h wait lib env req w h' calls)
  from edge_serve_ok [OF served(4,2), of lib env req] served(3) show ?case by auto
qed (simp_all add: new_handler_ok reload_ok health_round_ok purge_cache_ok)

text \<open>
  C22. Every request comes to an end. Whatever requests a handler has served, whatever health checks, purges
  and reloads it went through, serving one more request returns (in particular the eviction loop of the cache
  terminates), the route that matches has its runtime, every cache still respects its limits, and an
  unsuccessful reload changes nothing.
\<close>

theorem every_request_ends:
  assumes "handler_reachable h" "keeps_cache wait"
  shows "\<exists>w h' calls. edge_serve_http lib env wait req h = Some (w, h', calls) \<and> handler_reachable h' \<and> handler_ok h' \<and>
    (\<forall>r. router_match (eh_table h) req2 = Some r \<longrightarrow>
       (\<exists>rn. gm_get (eh_routes h) (rt_name r) = Some rn \<and> rc_name (rn_cfg rn) = rt_name r)) \<and>
    (\<not> fst (handler_reload parse_url nano cfg h) \<longrightarrow> snd (handler_reload parse_url nano cfg h) = h)"
proof -
  note ok = reachable_ok [OF assms(1)]
  obtain w h' calls where run: "edge_serve_http lib env wait req h = Some (w, h', calls)" "handler_ok h'"
    using edge_serve_ok [OF ok assms(2)] by blast
  moreover have "handler_reachable h'" by (rule handler_reachable.served [OF assms run(1)])
  moreover have "\<exists>rn. gm_get (eh_routes h) (rt_name r) = Some rn \<and> rc_name (rn_cfg rn) = rt_name r"
    if "router_match (eh_table h) req2 = Some r" for r
    using router_match_in [OF that] ok unfolding handler_ok_def routes_ok_def runtime_ok_def by blast
  moreover have "snd (handler_reload parse_url nano cfg h) = h" if "\<not> fst (handler_reload parse_url nano cfg h)"
    using that by (auto simp: handler_reload_def split: option.splits prod.splits)
  ultimately show ?thesis by blast
qed

text \<open>
  After \<^verbatim>\<open>Close\<close> the router still answers, but the runtimes are gone: a request that matches a route finds
  none, which is the nil dereference of \<^verbatim>\<open>ServeHTTP\<close>.
\<close>

lemma closed_handler_panics:
  assumes "router_match (eh_table h) (eq_http (snd (prepare_request (eh_clients h) req))) = Some r"
  shows "edge_serve_http lib env wait req (snd (handler_close h)) = Some (new_capture [], snd (handler_close h), [])"
proof -
  obtain probe req' where p: "prepare_request (eh_clients h) req = (probe, req')" by (meson surj_pair)
  obtain ts t where t: "close_tunnels (eh_tunnels h) = (ts, t)" by (meson surj_pair)
  show ?thesis using assms by (simp add: edge_serve_http_def handler_close_def Let_def p t)
qed

end
