(* ===== verification/Edge_Handler_Witness.thy ===== *)
theory Edge_Handler_Witness
  imports Edge_Handler_Life
begin

text \<open>
  Concrete runs of EdgeProxy's handler: a handler with one route, one origin and a cached page, and the
  theorems about the handler applied to requests that it serves.
\<close>

section \<open>A healthy first answer\<close>

text \<open>When the first origin gives a final answer, it is forwarded after exactly this call.\<close>

lemma first_answer_loop:
  assumes "pick_node c [] (hs_pool hs) = (Picked i, pool)"
    "clone_request (fc_req c) (up_nodes pool ! i) (fc_route c) (fc_id c) (fc_ffh c) = Inr out"
    "ev_origin (fc_env c) 0 i out = Inr g" "\<not> retryable_status (or_status (og_response g))" "1 \<le> fc_attempts c"
  obtains f where "fetch_loop c (nat (fc_attempts c)) 0 (start_fetch cs hs) = (True, f)" "ft_resp f = Some g" "ft_err f = None"
    "\<not> rr_canceled (ft_result f)" "hs_calls (ft_state f) = hs_calls hs @ [(i, out)]" "hs_cache (ft_state f) = hs_cache hs"
proof -
  obtain k where k: "nat (fc_attempts c) = Suc k" using assms(5) by (cases "nat (fc_attempts c)") auto
  let ?f0 = "(start_fetch cs hs)\<lparr>ft_state := hs\<lparr>hs_pool := pool\<rparr>\<rparr>"
  let ?f = "(set_err None ((note_call c 0 i out (Inr g) ?f0)\<lparr>ft_active := Some i\<rparr>))
    \<lparr>ft_state := health_of c 0 i True (reply_status (Inr g)) [] (ft_state (note_call c 0 i out (Inr g) ?f0))\<rparr>"
  have "attempt_step c 0 (start_fetch cs hs) = Stop ?f"
    using assms by (simp add: attempt_step_def start_fetch_def Let_def settle_def retryable_reply_def)
  then have "fetch_loop c (nat (fc_attempts c)) 0 (start_fetch cs hs) = (True, ?f)" unfolding k by simp
  moreover have "\<not> rr_canceled (ft_result ?f)"
    by (simp add: set_err_def note_call_def note_result_def Let_def start_fetch_def new_result_def)
  ultimately show thesis using that by (simp add: handler_simps start_fetch_def)
qed

section \<open>The example\<close>

definition demo_lib :: edge_lib where
  "demo_lib = \<lparr>xl_parse_time = (\<lambda>_. None), xl_sha256 = (\<lambda>s. s), xl_url_string = u_host, xl_parse_stamp = (\<lambda>_. None)\<rparr>"

definition demo_reply :: "int \<Rightarrow> origin_reply" where
  "demo_reply st = \<lparr>og_response = \<lparr>or_status = st, or_header = [(''Server'', [''o''])]\<rparr>, og_status_line = ''204 No Content'',
     og_chunks = [], og_read_err = None, og_bidirectional = False\<rparr>"

definition demo_env :: edge_env where
  "demo_env = \<lparr>ev_client = (\<lambda>_. None), ev_route_ctx = (\<lambda>_. None), ev_origin = (\<lambda>_ _ _. Inr (demo_reply 204)),
     ev_elapsed = (\<lambda>_. millisecond), ev_body_read = (\<lambda>_. 0), ev_out = (\<lambda>_ p. (length p, None)), ev_now_first = 5,
     ev_now_second = 6, ev_now_stale = 7, ev_now_policy = 8, ev_duration = 9, ev_stamp = (\<lambda>_. []), ev_hijack_err = None,
     ev_deadline_err = None, ev_raw_write_err = None, ev_raw_flush_err = None, ev_handshake = 0, ev_tunnel_in = 0,
     ev_tunnel_out = 0, ev_random = Some ''abcdefgh'', ev_nano36 = []\<rparr>"

definition demo_route :: route_cfg where
  "demo_route = \<lparr>rc_pool = \<lparr>pr_name = ''r'', pr_hosts = [''h''], pr_preserve_host = False, pr_health_enabled = False,
       pr_algorithm = ''least_connections'', pr_sensitivity = 1, pr_ewma_alpha = 1, pr_upstreams = []\<rparr>,
     rc_path_prefix = ''/'', rc_strip_prefix = False, rc_request_timeout = 0, rc_retry_count = 2, rc_retry_backoff = 0,
     rc_cache = demo_cache_config, rc_health_statuses = [200]\<rparr>"

definition demo_method_request :: "string \<Rightarrow> edge_request" where
  "demo_method_request m = \<lparr>eq_http = demo_request\<lparr>rq_method := m\<rparr>, eq_tls = False, eq_body = Nil_Body, eq_get_body = None\<rparr>"

definition demo_fetch :: "string \<Rightarrow> fetch_cfg" where
  "demo_fetch m = \<lparr>fc_lib = demo_lib, fc_env = demo_env, fc_req = demo_method_request m, fc_route = demo_route, fc_id = ''i'',
     fc_ffh = ''X-Forwarded-For''\<rparr>"

definition demo_key :: string where
  "demo_key = cache_key (\<lambda>s. s) demo_request demo_cache_config"

definition demo_page_cache :: "lru_cache option" where
  "demo_page_cache = cache_run [OpSet demo_key (demo_entry ''one'')] (new_cache 10 1000)"

definition demo_edge_state :: edge_state where
  "demo_edge_state = \<lparr>hs_pool = demo_pool ''least_connections'' [demo_node 1 True], hs_cache = demo_page_cache,
     hs_metrics = new_edge_registry 0, hs_log = None,
     hs_tunnels = \<lparr>tn_open = [], tn_closed = False, tn_fresh = 0, tn_wait = 0\<rparr>, hs_calls = [], hs_read = 0\<rparr>"

lemma demo_cache_view:
  obtains c where "demo_page_cache = Some c" "cache_inv c" "lru_view c = [(demo_key, demo_entry ''one'')]"
proof -
  have "map_option lru_view demo_page_cache = Some [(demo_key, demo_entry ''one'')]" by code_simp
  moreover have "cache_inv c" if "demo_page_cache = Some c" for c
    using cache_run_inv [OF new_cache_inv [of 10 1000], of "[OpSet demo_key (demo_entry ''one'')]"] that
    by (auto simp: demo_page_cache_def new_cache_def)
  ultimately show thesis using that by auto
qed

lemma demo_state_ok: "state_ok demo_edge_state" "entries demo_edge_state demo_key = Some (demo_entry ''one'')"
proof -
  obtain c where c: "demo_page_cache = Some c" and ok: "cache_inv c" "lru_view c = [(demo_key, demo_entry ''one'')]"
    by (rule demo_cache_view)
  have "hs_cache demo_edge_state = Some c" by (simp add: demo_edge_state_def c)
  then show "state_ok demo_edge_state" "entries demo_edge_state demo_key = Some (demo_entry ''one'')"
    by (simp_all add: state_ok_def entries_def ok)
qed

lemma demo_headers: "protocol_upgrade (rq_header demo_request) = Inr []" "\<not> has_protocol_upgrade (rq_header demo_request)"
  by code_simp+

text \<open>A write that the first origin answers: one call, and its status goes to the client.\<close>

lemma demo_write:
  assumes c: "fc_env c = demo_env" "fc_route c = demo_route" "rq_header (eq_http (fc_req c)) = rq_header demo_request"
      "rq_method (eq_http (fc_req c)) = ''POST''" "eq_get_body (fc_req c) = None" "\<not> fc_probe c"
    and hs: "hs_pool hs = demo_pool ''least_connections'' [demo_node 1 True]" "state_ok hs" "hs_calls hs = []"
  obtains res w hs' out where "handle_route c wait (new_capture hdr) hs = Some (Some res, w, hs')"
    "cw_status w = 204" "hs_calls hs' = [(0, out)]"
proof -
  have "fst (pick (hs_pool hs) []) = Picked 0" unfolding hs(1) by code_simp
  then obtain pool where pick: "pick_node c [] (hs_pool hs) = (Picked 0, pool)"
    using c(6) by (cases "pick (hs_pool hs) []") (simp add: pick_node_def)
  obtain out where out: "clone_request (fc_req c) (up_nodes pool ! 0) (fc_route c) (fc_id c) (fc_ffh c) = Inr out"
    by (simp add: clone_request_def Let_def c(3,5) demo_headers)
  have env: "ev_origin (fc_env c) 0 0 out = Inr (demo_reply 204)" "ev_client (fc_env c) After_Loop = None"
    by (simp_all add: c(1) demo_env_def)
  have st: "\<not> retryable_status (or_status (og_response (demo_reply 204)))" "or_status (og_response (demo_reply 204)) = 204"
    by (simp_all add: retryable_status_def demo_reply_def)
  have one: "1 \<le> fc_attempts c" by (simp add: fc_attempts_def c(2) demo_route_def)
  obtain f where f: "fetch_loop c (nat (fc_attempts c)) 0 (start_fetch ''BYPASS'' hs) = (True, f)" "ft_resp f = Some (demo_reply 204)"
    "ft_err f = None" "\<not> rr_canceled (ft_result f)" "hs_calls (ft_state f) = hs_calls hs @ [(0, out)]" "hs_cache (ft_state f) = hs_cache hs"
    by (rule first_answer_loop [OF pick out env(1) st(1) one, where cs = "''BYPASS''"])
  have ok: "state_ok (ft_state f)" using hs(2) f(6) by (rule state_ok_cache)
  obtain res w hs1 where fwd: "forward_response c ''BYPASS'' False (demo_reply 204) (ft_result f) (new_capture hdr) (ft_state f)
      = Some (res, w, hs1)" using forward_response_returns [OF ok] by (metis not_None_eq prod_cases3)
  have "cw_status w = 204" using forward_response_sent [OF fwd] st(2) by (simp add: new_capture_def)
  moreover have "hs_calls (fc_release c (ft_active f) hs1) = [(0, out)]"
    using forward_response_settled [OF fwd] f(5) hs(3) by (simp add: settled_def handler_simps)
  moreover have "fetch_and_serve c None ''BYPASS'' False (new_capture hdr) hs = Some (Some res, w, fc_release c (ft_active f) hs1)"
    unfolding fetch_and_serve_def f(1) prod.case by (simp add: answer_client_def Let_def f(2-4) env(2) st(2) fwd)
  moreover have "handle_route c wait (new_capture hdr) hs = fetch_and_serve c None ''BYPASS'' False (new_capture hdr) hs"
    using unsafe_mode [of "eq_http (fc_req c)" "rc_cache (fc_route c)"] c(4)
    by (cases "request_cache_mode (eq_http (fc_req c)) (rc_cache (fc_route c))")
      (simp add: handle_route_def Let_def c(3,6) demo_headers unsafe_method_def)
  ultimately show thesis using that by simp
qed

lemma demo_post:
  obtains res w hs out where
    "handle_route (demo_fetch ''POST'') (\<lambda>s. s) (new_capture []) demo_edge_state = Some (Some res, w, hs)"
    "cw_status w = 204" "hs_calls hs = [(0, out)]"
proof -
  have "fc_env (demo_fetch ''POST'') = demo_env" "fc_route (demo_fetch ''POST'') = demo_route"
    "rq_header (eq_http (fc_req (demo_fetch ''POST''))) = rq_header demo_request"
    "rq_method (eq_http (fc_req (demo_fetch ''POST''))) = ''POST''" "eq_get_body (fc_req (demo_fetch ''POST'')) = None"
    "\<not> fc_probe (demo_fetch ''POST'')"
    by (simp_all add: demo_fetch_def demo_method_request_def fc_probe_def is_operational_probe_def demo_request_def)
  moreover have "hs_pool demo_edge_state = demo_pool ''least_connections'' [demo_node 1 True]" "hs_calls demo_edge_state = []"
    by (simp_all add: demo_edge_state_def)
  ultimately show thesis by (rule demo_write [OF _ _ _ _ _ _ _ demo_state_ok(1)]) (rule that)
qed

lemma keeps_cache_id: "keeps_cache (\<lambda>s. s)"
  by (simp add: keeps_cache_def)

section \<open>Witnesses\<close>

theorem connections_balanced_calls_bounded_witness:
  "\<exists>r w hs. handle_route (demo_fetch ''POST'') (\<lambda>s. s) (new_capture []) demo_edge_state = Some (r, w, hs) \<and>
     length (hs_calls hs) = 1 \<and> actives (hs_pool hs) = [0]"
proof -
  obtain res w hs out where run: "handle_route (demo_fetch ''POST'') (\<lambda>s. s) (new_capture []) demo_edge_state = Some (Some res, w, hs)"
    "hs_calls hs = [(0, out)]" by (rule demo_post)
  have start: "hs_calls demo_edge_state = []" "0 \<le> rc_retry_count (fc_route (demo_fetch ''POST''))"
    by (simp_all add: demo_edge_state_def demo_fetch_def demo_route_def)
  have own: "actives (hs_pool s) = [0]" if "own_start (demo_fetch ''POST'') (\<lambda>s. s) demo_edge_state s" for s
    using that by (auto simp: own_start_def lock_state_def touch_cache_def after_wait_def demo_edge_state_def actives_def demo_pool_def demo_node_def)
  from connections_balanced_calls_bounded [OF run(1) start] own have "actives (hs_pool hs) = [0]" by auto
  with run show ?thesis by simp
qed

theorem cache_filled_only_as_allowed_witness:
  "\<exists>r w' hs'. handle_route (demo_fetch ''GET'') (\<lambda>s. s) (new_capture []) demo_edge_state = Some (r, w', hs') \<and> state_ok hs'"
  using cache_filled_only_as_allowed [OF demo_state_ok(1) keeps_cache_id, of "demo_fetch ''GET''" "new_capture []"] by blast

theorem unsafe_request_invalidates_witness:
  "entries demo_edge_state demo_key \<noteq> None \<and>
   (\<exists>r w hs. handle_route (demo_fetch ''POST'') (\<lambda>s. s) (new_capture []) demo_edge_state = Some (r, w, hs) \<and>
      entries hs demo_key = None)"
proof -
  obtain res w hs out where run: "handle_route (demo_fetch ''POST'') (\<lambda>s. s) (new_capture []) demo_edge_state = Some (Some res, w, hs)"
    "cw_status w = 204" "hs_calls hs = [(0, out)]" by (rule demo_post)
  let ?req = "eq_http (fc_req (demo_fetch ''POST''))"
  have fin: "final_replies (fc_env (demo_fetch ''POST''))"
    by (simp add: final_replies_def demo_fetch_def demo_env_def demo_reply_def)
  have req: "unsafe_method (rq_method ?req)" "cache_host (rq_host ?req) = ''h''" "cache_host (rq_host demo_request) = ''h''"
    "canonical_request_uri (rq_url demo_request) = canonical_request_uri (rq_url ?req)" "to_lower (trim_space ''h'') = ''h''"
    "CHR ''|'' \<notin> set (rq_method demo_request)" by code_simp+
  have w: "cw_status (new_capture []) = 0" "200 \<le> cw_status w" "cw_status w < 400" using run(2) by (simp_all add: new_capture_def)
  have "entries hs (cache_key (\<lambda>s. s) demo_request demo_cache_config) = None"
    by (rule unsafe_request_invalidates [OF demo_state_ok(1) keeps_cache_id fin run(1) req(1) w])
      (simp_all add: req demo_bar_free)
  then show ?thesis using run(1) demo_state_ok(2) by (simp add: demo_key_def)
qed

theorem cached_answers_allowed_witness:
  "\<exists>res w hs. handle_route (demo_fetch ''GET'') (\<lambda>s. s) (new_capture []) demo_edge_state = Some (Some res, w, hs) \<and>
     rr_cache_status res = ''HIT'' \<and> hs_calls hs = [] \<and>
     (hit_served (demo_fetch ''GET'') At_Hit (ev_now_first demo_env) demo_edge_state (new_capture []) w \<or>
      hit_served (demo_fetch ''GET'') At_Second_Hit (ev_now_second demo_env) (lock_state (demo_fetch ''GET'') (\<lambda>s. s) demo_edge_state) (new_capture []) w)"
proof -
  let ?c = "demo_fetch ''GET''" and ?req = "eq_http (demo_method_request ''GET'')"
  have "map_option (\<lambda>c. fst (lookup_cache ?req (cache_key (xl_sha256 demo_lib) ?req demo_cache_config) 5 c)) demo_page_cache
      = Some (Hit (demo_entry ''one''))" by code_simp
  then obtain cache cache' where cache: "demo_page_cache = Some cache" and
    l: "lookup_cache ?req (cache_key (xl_sha256 demo_lib) ?req demo_cache_config) 5 cache = (Hit (demo_entry ''one''), cache')"
    by (auto simp: prod_eq_iff)
  have mode: "fst (request_cache_mode ?req demo_cache_config)" by code_simp
  have c: "fc_req ?c = demo_method_request ''GET''" "fc_lib ?c = demo_lib" "fc_env ?c = demo_env" "fc_route ?c = demo_route"
    "ev_now_first demo_env = 5" "rc_cache demo_route = demo_cache_config" "hs_cache demo_edge_state = Some cache"
    "rq_header ?req = rq_header demo_request" "\<not> fc_probe ?c"
    by (simp_all add: demo_fetch_def demo_env_def demo_route_def demo_edge_state_def cache demo_method_request_def fc_probe_def
        is_operational_probe_def demo_request_def)
  obtain r w hs where hit: "serve_hit ?c At_Hit (demo_entry ''one'') 5 (new_capture []) (demo_edge_state\<lparr>hs_cache := Some cache'\<rparr>)
      = (r, w, hs)" by (metis prod_cases3)
  obtain res where res: "r = Some res" "rr_cache_status res = ''HIT''"
    using hit by (auto simp: serve_hit_def handler_simps new_result_def split: prod.splits)
  have run: "handle_route ?c (\<lambda>s. s) (new_capture []) demo_edge_state = Some (Some res, w, hs)"
    using mode l hit res(1)
    by (cases "request_cache_mode ?req demo_cache_config") (simp add: handle_route_def Let_def c demo_headers)
  have "hs_calls demo_edge_state = []" by (simp add: demo_edge_state_def)
  with cached_answers_allowed [OF demo_state_ok(1) keeps_cache_id run] run res(2) show ?thesis unfolding c(3) by auto
qed

section \<open>A whole handler\<close>

definition demo_runtime :: runtime where
  "demo_runtime = \<lparr>rn_cfg = demo_route, rn_pool = demo_pool ''least_connections'' [demo_node 1 True],
     rn_cache = demo_page_cache, rn_ffh = ''X-Forwarded-For''\<rparr>"

definition demo_handler :: edge_handler where
  "demo_handler = \<lparr>eh_table = [rc_route demo_route], eh_routes = [(''r'', demo_runtime)], eh_clients = demo_resolver,
     eh_metrics = new_edge_registry 0, eh_log = None,
     eh_tunnels = \<lparr>tn_open = [], tn_closed = False, tn_fresh = 0, tn_wait = 0\<rparr>\<rparr>"

lemma demo_handler_ok: "handler_ok demo_handler"
proof -
  obtain c where c: "demo_page_cache = Some c" "cache_inv c" by (rule demo_cache_view)
  have "rc_name demo_route = ''r''" by code_simp
  then show ?thesis
    using c(2)
    by (simp add: handler_ok_def routes_ok_def runtime_ok_def demo_handler_def demo_runtime_def rc_route_def gm_get_def gm_inv_def c(1))
qed

lemma demo_serve:
  obtains w h' out where
    "edge_serve_http demo_lib demo_env (\<lambda>s. s) (demo_method_request ''POST'') demo_handler = Some (w, h', [(0, out)])"
    "cw_status w = 204"
proof -
  obtain req where p: "prepare_request demo_resolver (demo_method_request ''POST'') = (False, req)"
    "rq_header (eq_http req) = rq_header demo_request" "rq_method (eq_http req) = ''POST''" "eq_get_body req = None"
    "\<not> rq_ctx_probe (eq_http req)" "router_match [rc_route demo_route] (eq_http req) = Some (rc_route demo_route)"
  proof -
    let ?p = "prepare_request demo_resolver (demo_method_request ''POST'')"
    have "\<not> fst ?p \<and> rq_header (eq_http (snd ?p)) = rq_header demo_request \<and> rq_method (eq_http (snd ?p)) = ''POST'' \<and>
      eq_get_body (snd ?p) = None \<and> \<not> rq_ctx_probe (eq_http (snd ?p)) \<and>
      router_match [rc_route demo_route] (eq_http (snd ?p)) = Some (rc_route demo_route)" by code_simp
    then show thesis using that [of "snd ?p"] by (simp add: prod_eq_iff)
  qed
  let ?i = "request_id (ev_random demo_env) (ev_nano36 demo_env) (eq_http req)"
  let ?c = "\<lparr>fc_lib = demo_lib, fc_env = demo_env, fc_req = req, fc_route = demo_route, fc_id = ?i, fc_ffh = ''X-Forwarded-For''\<rparr>"
  let ?hs = "begin_metrics False ''r'' ''POST'' (runtime_state demo_runtime demo_handler)"
  have name: "rc_name demo_route = ''r''" by code_simp
  have rn: "gm_get (eh_routes demo_handler) ''r'' = Some demo_runtime" by (simp add: demo_handler_def gm_get_def)
  have hs: "hs_pool ?hs = demo_pool ''least_connections'' [demo_node 1 True]" "hs_calls ?hs = []"
    by (simp_all add: handler_simps runtime_state_def demo_runtime_def)
  have ok: "state_ok ?hs"
    using runtime_state_ok [OF demo_handler_ok rn] by (rule state_ok_cache) (simp add: handler_simps)
  have c: "fc_env ?c = demo_env" "fc_route ?c = demo_route" "rq_header (eq_http (fc_req ?c)) = rq_header demo_request"
    "rq_method (eq_http (fc_req ?c)) = ''POST''" "eq_get_body (fc_req ?c) = None" "\<not> fc_probe ?c"
    using p by (simp_all add: fc_probe_def is_operational_probe_def)
  obtain res w hs' out where run: "handle_route ?c (\<lambda>s. s) (new_capture (h_set ''X-Request-ID'' ?i [])) ?hs = Some (Some res, w, hs')"
    "cw_status w = 204" "hs_calls hs' = [(0, out)]" by (rule demo_write [OF c hs(1) ok hs(2)])
  have "eh_clients demo_handler = demo_resolver" "eh_table demo_handler = [rc_route demo_route]" "rt_name (rc_route demo_route) = ''r''"
    "rn_cfg demo_runtime = demo_route" "rn_ffh demo_runtime = ''X-Forwarded-For''"
    by (simp_all add: demo_handler_def demo_runtime_def rc_route_def name)
  then have "\<exists>h'. edge_serve_http demo_lib demo_env (\<lambda>s. s) (demo_method_request ''POST'') demo_handler = Some (w, h', [(0, out)])"
    using run(1,3) p by (simp add: edge_serve_http_def serve_matched_def Let_def rn name handler_simps)
  then show thesis using that run(2) by blast
qed


definition demo_probe :: edge_request where
  "demo_probe = (demo_method_request ''HEAD'')\<lparr>eq_http := demo_request\<lparr>rq_method := ''HEAD'',
     rq_header := [(canonical_header_key internal_probe_header, [internal_probe_value]), (''User-Agent'', [internal_probe_user_agent])]\<rparr>\<rparr>"

theorem probe_leaves_no_trace_witness:
  "\<exists>w h' calls. edge_serve_http demo_lib demo_env (\<lambda>s. s) demo_probe demo_handler = Some (w, h', calls) \<and>
     gm_get (eh_routes h') = gm_get (eh_routes demo_handler) \<and> eh_metrics h' = new_edge_registry 0"
proof -
  obtain w h' calls where run: "edge_serve_http demo_lib demo_env (\<lambda>s. s) demo_probe demo_handler = Some (w, h', calls)"
    using edge_serve_ok [OF demo_handler_ok keeps_cache_id] by blast
  have clients: "eh_clients demo_handler = demo_resolver" by (simp add: demo_handler_def)
  have "trusted_operational_probe (Some (eq_http demo_probe)) (Some demo_resolver)" by code_simp
  then have probe: "trusted_operational_probe (Some (eq_http demo_probe)) (Some (eh_clients demo_handler))" unfolding clients .
  have "eh_metrics demo_handler = new_edge_registry 0" by (simp add: demo_handler_def)
  with probe_leaves_no_trace [OF run handler_ok_wf [OF demo_handler_ok] probe] run show ?thesis by auto
qed

theorem request_counted_once_witness:
  "\<exists>w h' calls route evs ob.
     edge_serve_http demo_lib demo_env (\<lambda>s. s) (demo_method_request ''POST'') demo_handler = Some (w, h', calls) \<and>
     eh_metrics h' = foldl metric_step (new_edge_registry 0) (Ev_Begin route ''POST'' # evs @ [Ev_Finish route ob]) \<and>
     length (filter is_call evs) = 1 \<and> (ro_canceled ob \<or> ro_status ob = 204)"
proof -
  obtain w h' out where run: "edge_serve_http demo_lib demo_env (\<lambda>s. s) (demo_method_request ''POST'') demo_handler
      = Some (w, h', [(0, out)])" "cw_status w = 204" by (rule demo_serve)
  have clients: "eh_clients demo_handler = demo_resolver" "eh_metrics demo_handler = new_edge_registry 0"
    by (simp_all add: demo_handler_def)
  have "\<not> trusted_operational_probe (Some (eq_http (demo_method_request ''POST''))) (Some demo_resolver)" by code_simp
  then have probe: "\<not> trusted_operational_probe (Some (eq_http (demo_method_request ''POST''))) (Some (eh_clients demo_handler))"
    unfolding clients .
  have req: "\<not> rq_ctx_probe (eq_http (demo_method_request ''POST''))" "rq_method (eq_http (demo_method_request ''POST'')) = ''POST''"
    by code_simp+
  from request_counted_once [OF run(1) handler_ok_wf [OF demo_handler_ok] probe req(1) refl] run show ?thesis
    unfolding clients req(2) by auto
qed

definition demo_edge_config :: edge_config where
  "demo_edge_config = \<lparr>xc_trusted = [''10.0.0.0/8''], xc_header = ''X-Forwarded-For'', xc_routes = [demo_route]\<rparr>"

theorem every_request_ends_witness:
  "\<exists>h w h' calls. new_handler (\<lambda>_. None) (\<lambda>_. 0) demo_edge_config (new_edge_registry 0) None = Some h \<and>
     edge_serve_http demo_lib demo_env (\<lambda>s. s) (demo_method_request ''GET'') h = Some (w, h', calls) \<and> handler_ok h'"
proof -
  have "new_handler (\<lambda>_. None) (\<lambda>_. 0) demo_edge_config (new_edge_registry 0) None \<noteq> None" by code_simp
  then obtain h where h: "new_handler (\<lambda>_. None) (\<lambda>_. 0) demo_edge_config (new_edge_registry 0) None = Some h" by blast
  have "limits_ok demo_edge_config" by code_simp
  then have "handler_reachable h" by (rule handler_reachable.built [OF h])
  from every_request_ends [OF this keeps_cache_id, of demo_lib demo_env "demo_method_request ''GET''"] h show ?thesis by blast
qed

end
