(* ===== verification/Config_Rules.thy ===== *)
theory Config_Rules
  imports Http_Helpers Net_IP Utf8
begin

text \<open>
  The rules that the configurations of both programs share, as their \<^verbatim>\<open>config.go\<close> files have them: listeners and
  ports, bearer credentials, reserved header names, trusted networks, overrides from the environment.
  An error is its format string with the arguments; the text of a wrapped library error is left out.
  \<^verbatim>\<open>url.Parse\<close>, \<^verbatim>\<open>net.LookupPort\<close> and the environment are parameters.
\<close>

section \<open>Parameters and errors\<close>

text \<open>A parsed URL: the fields of \<^verbatim>\<open>url.URL\<close>, whether it has user information, and its text.\<close>

record parsed_url =
  pu_url :: go_url
  pu_user :: bool
  pu_string :: string

record config_lib =
  cl_parse_url :: "string \<Rightarrow> parsed_url option"
  cl_lookup_port :: "string \<Rightarrow> int option"

datatype cfg_error = Cfg string "string list" | Wrap string "string list" cfg_error

section \<open>Listeners and ports\<close>

definition trim_set :: "string \<Rightarrow> string \<Rightarrow> string" where
  "trim_set cs s = rev (dropWhile (\<lambda>c. c \<in> set cs) (rev (dropWhile (\<lambda>c. c \<in> set cs) s)))"

definition is_loopback_host :: "string \<Rightarrow> bool" where
  "is_loopback_host host0 =
     (let host = trim_set ''[]'' (trim_space host0) in
      equal_fold host ''localhost'' \<or> (case parse_ip host of None \<Rightarrow> False | Some ip \<Rightarrow> is_loopback ip))"

definition any_listener_host :: "string \<Rightarrow> bool" where
  "any_listener_host host0 =
     (let host = trim_space host0 in
      host = [] \<or> host = ''*'' \<or> (case parse_ip host of None \<Rightarrow> False | Some ip \<Rightarrow> is_unspecified ip))"

definition listener_hosts_overlap :: "string \<Rightarrow> string \<Rightarrow> bool" where
  "listener_hosts_overlap a0 b0 =
     (let a = trim_set ''[]'' (trim_space a0); b = trim_set ''[]'' (trim_space b0) in
      equal_fold a b \<or> any_listener_host a \<or> any_listener_host b \<or> is_loopback_host a \<and> is_loopback_host b \<or>
      (case (parse_ip a, parse_ip b) of (Some x, Some y) \<Rightarrow> x = y | _ \<Rightarrow> False))"

definition normalized_listener_port :: "config_lib \<Rightarrow> string \<Rightarrow> int option" where
  "normalized_listener_port lib raw =
     (case parse_int64 (trim_space raw) of
        Some p \<Rightarrow> Some p
      | None \<Rightarrow> cl_lookup_port lib (trim_space raw))"

definition listener_endpoints_overlap :: "config_lib \<Rightarrow> string \<Rightarrow> string \<Rightarrow> bool" where
  "listener_endpoints_overlap lib a b =
     (case (split_host_port (trim_space a), split_host_port (trim_space b)) of
        (Some (ah, ap), Some (bh, bp)) \<Rightarrow>
          (case (normalized_listener_port lib ap, normalized_listener_port lib bp) of
             (Some p, Some q) \<Rightarrow> p \<noteq> 0 \<and> q \<noteq> 0 \<and> p = q \<and> listener_hosts_overlap ah bh
           | _ \<Rightarrow> False)
      | _ \<Rightarrow> False)"

definition validate_numeric_port :: "config_lib \<Rightarrow> string \<Rightarrow> string \<Rightarrow> bool \<Rightarrow> cfg_error list" where
  "validate_numeric_port lib name raw0 allow_zero =
     (let raw = trim_space raw0 in
      if raw = [] then [Cfg ''%s port is required'' [name]]
      else (case parse_int64 raw of
              None \<Rightarrow>
                if cl_lookup_port lib raw = None
                then [Cfg ''%s port %q is neither numeric nor a registered TCP service'' [name, raw]] else []
            | Some port \<Rightarrow>
                let minimum = (if allow_zero then 0 else 1) in
                if port < minimum \<or> port > 65535
                then [Cfg ''%s port must be between %d and 65535'' [name, itoa minimum]] else []))"

definition validate_host_port :: "config_lib \<Rightarrow> string \<Rightarrow> string \<Rightarrow> bool \<Rightarrow> cfg_error list" where
  "validate_host_port lib name addr allow_zero =
     (case split_host_port (trim_space addr) of
        None \<Rightarrow> [Cfg ''invalid %s'' [name]]
      | Some (_, port) \<Rightarrow> validate_numeric_port lib name port allow_zero)"

text \<open>\<^verbatim>\<open>URL.Hostname\<close> and \<^verbatim>\<open>URL.Port\<close>.\<close>

definition url_host_port :: "string \<Rightarrow> string \<times> string" where
  "url_host_port hp =
     (let (host, port) = (case last_index_byte hp (CHR '':'') of
            None \<Rightarrow> (hp, [])
          | Some i \<Rightarrow> if list_all is_digit (drop (i + 1) hp) then (take i hp, drop (i + 1) hp) else (hp, []))
      in (if has_prefix host ''['' \<and> has_suffix host '']'' then butlast (tl host) else host, port))"

definition validate_url_port :: "config_lib \<Rightarrow> string \<Rightarrow> go_url \<Rightarrow> cfg_error list" where
  "validate_url_port lib name u =
     (if has_suffix (u_host u) '':'' then [Cfg (''%s port is required after ':'' @ [CHR 0x27]) [name]]
      else let port = snd (url_host_port (u_host u)) in
           if port = [] then [] else validate_numeric_port lib name port False)"

section \<open>Credentials and header names\<close>

definition reserved_client_ip_source_header :: "string \<Rightarrow> bool" where
  "reserved_client_ip_source_header v =
     (to_lower (trim_space v) \<in> set [''authorization'', ''connection'', ''content-length'', ''content-type'', ''cookie'',
        ''forwarded'', ''host'', ''keep-alive'', ''proxy-authorization'', ''proxy-connection'', ''set-cookie'', ''te'', ''trailer'',
        ''transfer-encoding'', ''upgrade'', ''via'', ''x-forwarded-host'', ''x-forwarded-port'', ''x-forwarded-proto'',
        ''x-forwarded-server'', ''x-request-id'', ''x-secureedge-internal-probe''])"

text \<open>
  A rune is white space or a control character if its bytes are one of \<open>space_seqs\<close>, or one of the control
  characters up to \<^verbatim>\<open>U+009F\<close>. Splitting into runes is only asked of valid UTF-8.
\<close>

definition space_or_control :: "string \<Rightarrow> bool" where
  "space_or_control r \<longleftrightarrow> r \<in> set space_seqs \<or> list_all (\<lambda>c. of_char c < (32::nat) \<or> of_char c = (127::nat)) r \<and> r \<noteq> [] \<or>
     (case r of [a, b] \<Rightarrow> a = CHR 0xC2 \<and> byte_in 0x80 0x9F b | _ \<Rightarrow> False)"

function runes_of :: "string \<Rightarrow> string list" where
  "runes_of s =
     (if s = [] then []
      else let w = max 1 (rune_width s) in take w s # runes_of (drop w s))"
  by pat_completeness auto
termination
  by (relation "measure length") (auto simp: max_def)

declare runes_of.simps [simp del]

definition validate_bearer_credential :: "string \<Rightarrow> string \<Rightarrow> cfg_error list" where
  "validate_bearer_credential field v =
     (if \<not> valid_utf8 v then [Cfg ''%s must be valid UTF-8'' [field]]
      else if v = ''[REDACTED]'' then [Cfg ''%s cannot use the reserved [REDACTED] secret marker'' [field]]
      else if length v > 8 * 1024 then [Cfg ''%s cannot exceed %d UTF-8 bytes'' [field, itoa (8 * 1024)]]
      else if list_ex space_or_control (runes_of v)
      then [Cfg ''%s cannot contain whitespace or control characters'' [field]]
      else if list_ex (\<lambda>r. case r of [c] \<Rightarrow> \<not> byte_in 0x21 0x7E c | _ \<Rightarrow> True) (runes_of v)
      then [Cfg ''%s must contain only printable ASCII characters'' [field]]
      else [])"

section \<open>Errors and networks\<close>

definition check :: "bool \<Rightarrow> string \<Rightarrow> string list \<Rightarrow> cfg_error list" where
  "check bad msg args = (if bad then [Cfg msg args] else [])"

declare check_def [code_unfold]

definition net_string :: "ip_net \<Rightarrow> string" where
  "net_string n = ip_string (net_ip n) @ ''/'' @ itoa (int (net_bits n) - (if is_v4 (net_ip n) then 96 else 0))"

fun validate_trusted :: "string list \<Rightarrow> string list \<Rightarrow> cfg_error list \<times> string list" where
  "validate_trusted [] trusted = ([], trusted)"
| "validate_trusted (raw # raws) trusted =
     (case parse_cidr (trim_space raw) of
        None \<Rightarrow> (case validate_trusted raws trusted of
                   (errs, t) \<Rightarrow> (Cfg ''invalid server.trusted_proxy_cidrs entry %q'' [raw] # errs, t))
      | Some n \<Rightarrow>
          validate_trusted raws (if net_string n \<in> set trusted then trusted else trusted @ [net_string n]))"

section \<open>The environment\<close>

type_synonym environment = "string \<Rightarrow> string option"

definition non_empty_environment :: "environment \<Rightarrow> string \<Rightarrow> string option" where
  "non_empty_environment env key =
     (case env key of None \<Rightarrow> None | Some v \<Rightarrow> let t = trim_space v in if t = [] then None else Some t)"

definition apply_string_env :: "environment \<Rightarrow> string \<Rightarrow> string \<Rightarrow> string" where
  "apply_string_env env key v = (case non_empty_environment env key of None \<Rightarrow> v | Some t \<Rightarrow> t)"

definition split_environment_list :: "string \<Rightarrow> string list" where
  "split_environment_list v = filter (\<lambda>p. p \<noteq> []) (map trim_space (split_on (CHR '','') v))"

text \<open>\<^verbatim>\<open>strconv.ParseBool\<close>\<close>

definition parse_bool :: "string \<Rightarrow> bool option" where
  "parse_bool s =
     (if s \<in> set [''1'', ''t'', ''T'', ''TRUE'', ''true'', ''True''] then Some True
      else if s \<in> set [''0'', ''f'', ''F'', ''FALSE'', ''false'', ''False''] then Some False else None)"

end
