(* ===== verification/Edge_Config.thy ===== *)
theory Edge_Config
  imports Edge_Handler Config_Rules
begin

text \<open>
  EdgeProxy's configuration, \<^verbatim>\<open>apps/edgeproxy/internal/config/config.go\<close>: the structures, \<^verbatim>\<open>Default\<close>, overrides
  from the environment and \<^verbatim>\<open>Validate\<close>, which normalises a configuration in place and collects every error.
  An error is its format string with the arguments; a wrapped error of a library function is left out.
  \<^verbatim>\<open>url.Parse\<close>, \<^verbatim>\<open>net.LookupPort\<close> and the environment are parameters; a nil list and an empty list are the same.
\<close>

section \<open>Structures\<close>

record tls_config =
  tl_enabled :: bool
  tl_cert :: string
  tl_key :: string

record server_config =
  sv_listen :: string
  sv_trusted :: "string list"
  sv_header :: string
  sv_read_header_timeout :: duration
  sv_read_timeout :: duration
  sv_write_timeout :: duration
  sv_idle_timeout :: duration
  sv_shutdown_timeout :: duration
  sv_max_header_bytes :: int
  sv_tls :: tls_config

record admin_log_config =
  al_enabled :: bool
  al_capacity :: int
  al_default_page :: int
  al_max_page :: int

record admin_config =
  ad_enabled :: bool
  ad_listen :: string
  ad_token :: string
  ad_log :: admin_log_config

record origin_config =
  oc_name :: string
  oc_url :: string
  oc_insecure :: bool
  oc_weight :: int
  oc_priority :: int

record balancing_config =
  lb_algorithm :: string
  lb_sensitivity :: real
  lb_alpha :: real

record proxy_config =
  px_request_timeout :: duration
  px_dial_timeout :: duration
  px_header_timeout :: duration
  px_idle_timeout :: duration
  px_retry_count :: int
  px_retry_backoff :: duration
  px_max_idle :: int
  px_max_idle_host :: int
  px_max_header_bytes :: int

record health_config =
  hk_enabled :: bool
  hk_path :: string
  hk_interval :: duration
  hk_timeout :: duration
  hk_statuses :: "int list"

record route_config =
  rf_name :: string
  rf_hosts :: "string list"
  rf_prefix :: string
  rf_strip_prefix :: bool
  rf_preserve_host :: bool
  rf_upstreams :: "origin_config list"
  rf_balancing :: balancing_config
  rf_proxy :: proxy_config
  rf_cache :: cache_config
  rf_health :: health_config

record proxy_file =
  pf_server :: server_config
  pf_admin :: admin_config
  pf_routes :: "route_config list"

definition default_config :: proxy_file where
  "default_config =
     \<lparr>pf_server = \<lparr>sv_listen = '':8080'', sv_trusted = [], sv_header = ''X-Forwarded-For'',
        sv_read_header_timeout = 5 * second, sv_read_timeout = 30 * second, sv_write_timeout = 60 * second,
        sv_idle_timeout = 90 * second, sv_shutdown_timeout = 10 * second, sv_max_header_bytes = 2 ^ 20,
        sv_tls = \<lparr>tl_enabled = False, tl_cert = [], tl_key = []\<rparr>\<rparr>,
      pf_admin = \<lparr>ad_enabled = True, ad_listen = ''127.0.0.1:9090'', ad_token = [],
        ad_log = \<lparr>al_enabled = True, al_capacity = 5000, al_default_page = 100, al_max_page = 500\<rparr>\<rparr>,
      pf_routes = []\<rparr>"

section \<open>Hosts, paths and ports\<close>

text \<open>The host and path rules of \<^verbatim>\<open>config.go\<close>, with their errors.\<close>

definition host_label_error :: "string \<Rightarrow> cfg_error option" where
  "host_label_error label =
     (if label = [] \<or> length label > 63 then Some (Cfg ''hostname contains an empty or overlong label'' [])
      else (case find (\<lambda>i. \<not> label_char (label ! i) \<and> label ! i \<noteq> CHR ''-'' \<or>
                           (i = 0 \<or> i = length label - 1) \<and> \<not> label_char (label ! i)) [0..<length label] of
              None \<Rightarrow> None
            | Some i \<Rightarrow>
                if \<not> label_char (label ! i) \<and> label ! i \<noteq> CHR ''-''
                then Some (Cfg ''hostname labels may contain only letters, digits, and hyphens'' [])
                else Some (Cfg ''hostname labels must start and end with a letter or digit'' [])))"

definition config_exact_host :: "string \<Rightarrow> cfg_error + string" where
  "config_exact_host v =
     (if has_prefix v ''['' \<and> has_suffix v '']'' then
        (case parse_ip (trim_suffix (trim_prefix v ''['') '']'') of
           None \<Rightarrow> Inl (Cfg ''contains an invalid bracketed IP address'' [])
         | Some ip \<Rightarrow> Inr (to_lower (ip_string ip)))
      else (case parse_ip v of
              Some ip \<Rightarrow> Inr (to_lower (ip_string ip))
            | None \<Rightarrow>
                if contains_str v '':'' then Inl (Cfg ''must not include a port'' [])
                else if length v > 253 then Inl (Cfg ''hostname is longer than 253 characters'' [])
                else (case find (\<lambda>l. host_label_error l \<noteq> None) (split_on (CHR ''.'') v) of
                        None \<Rightarrow> Inr v
                      | Some l \<Rightarrow> Inl (the (host_label_error l)))))"

definition config_host_pattern :: "string \<Rightarrow> cfg_error + string" where
  "config_host_pattern raw =
     (let v = trim_suffix (to_lower (trim_space raw)) ''.'' in
      if v = [] then Inl (Cfg ''cannot be empty'' [])
      else if v = ''*'' then Inr v
      else if contains_any v ([CHR '' '', CHR 0x09, CHR 0x0D, CHR 0x0A] @ ''/'' @ [CHR 0x5C] @ ''?#@'')
      then Inl (Cfg ''must contain only a hostname, IP address, or leading wildcard'' [])
      else if has_prefix v ''*.'' then
        if length (filter (\<lambda>c. c = CHR ''*'') v) \<noteq> 1
        then Inl (Cfg (''wildcard is only allowed as a single leading '*.'' @ [CHR 0x27]) [])
        else (case config_exact_host (trim_prefix v ''*.'') of
                Inl e \<Rightarrow> Inl (Wrap ''invalid wildcard suffix: %w'' [] e)
              | Inr sfx \<Rightarrow>
                  if parse_ip sfx \<noteq> None then Inl (Cfg ''wildcard suffix cannot be an IP address'' [])
                  else Inr (''*.'' @ sfx))
      else if contains_str v ''*'' then Inl (Cfg (''wildcard is only allowed as a single leading '*.'' @ [CHR 0x27]) [])
      else config_exact_host v)"

definition normalize_absolute_path :: "string \<Rightarrow> cfg_error + string" where
  "normalize_absolute_path raw =
     (let v = trim_space raw in
      if v = [] then Inr ''/''
      else if \<not> has_prefix v ''/'' then Inl (Cfg ''must start with /'' [])
      else if contains_any v ''?#'' then Inl (Cfg ''must contain a path only'' [])
      else (case path_unescape v of
              None \<Rightarrow> Inl (Cfg ''contains invalid escaping'' [])
            | Some decoded \<Rightarrow>
                if decoded \<noteq> v then Inl (Cfg ''must not contain percent-encoded path bytes'' [])
                else
                  let trailing = has_suffix v ''/''; cleaned = path_clean v in
                  if cleaned \<noteq> v \<and> \<not> (trailing \<and> cleaned @ ''/'' = v)
                  then Inl (Cfg ''must be canonical and must not contain dot-segments or repeated slashes'' [])
                  else Inr (if trailing \<and> cleaned \<noteq> ''/'' then cleaned @ ''/'' else cleaned)))"

definition config_path_prefix :: "string \<Rightarrow> cfg_error + string" where
  "config_path_prefix raw =
     map_sum id (\<lambda>v. if v \<noteq> ''/'' then trim_suffix v ''/'' else v) (normalize_absolute_path raw)"

section \<open>Validation\<close>

text \<open>
  Each part returns its errors in the order of the code, and the normalised value. \<^verbatim>\<open>validationLimit\<close> bounds
  how much of an overlong list is examined; the rest stays as it is.
\<close>

text \<open>The first lines of \<^verbatim>\<open>Validate\<close>.\<close>

definition normalize_server :: "server_config \<Rightarrow> server_config" where
  "normalize_server s =
     s\<lparr>sv_listen := trim_space (sv_listen s),
       sv_header := (let h = trim_space (sv_header s) in if h = [] then ''X-Forwarded-For'' else h),
       sv_tls := (sv_tls s)\<lparr>tl_cert := trim_space (tl_cert (sv_tls s)), tl_key := trim_space (tl_key (sv_tls s))\<rparr>\<rparr>"

definition normalize_admin :: "admin_config \<Rightarrow> admin_config" where
  "normalize_admin a = a\<lparr>ad_listen := trim_space (ad_listen a), ad_token := trim_space (ad_token a)\<rparr>"

definition server_errors :: "config_lib \<Rightarrow> server_config \<Rightarrow> cfg_error list" where
  "server_errors lib s =
     (if trim_space (sv_listen s) = [] then [Cfg ''server.listen_addr is required'' []]
      else validate_host_port lib ''server.listen_addr'' (sv_listen s) True) @
     check (sv_read_header_timeout s \<le> 0) ''server.read_header_timeout must be positive'' [] @
     check (sv_read_timeout s < 0 \<or> sv_write_timeout s < 0 \<or> sv_idle_timeout s < 0)
       ''server read/write/idle timeouts cannot be negative'' [] @
     check (sv_shutdown_timeout s \<le> 0) ''server.shutdown_timeout must be positive'' [] @
     check (sv_max_header_bytes s \<le> 0 \<or> sv_max_header_bytes s > 16 * 2 ^ 20)
       ''server.max_header_bytes must be between 1 and %d'' [itoa (16 * 2 ^ 20)] @
     (if \<not> valid_http_token (sv_header s)
      then [Cfg ''server.forwarded_for_header must be a valid HTTP header field name'' []]
      else check (reserved_client_ip_source_header (sv_header s))
             ''server.forwarded_for_header %q is reserved and cannot be used as a client IP source'' [sv_header s]) @
     check (length (sv_trusted s) > 4096) ''server.trusted_proxy_cidrs cannot contain more than %d entries'' [itoa 4096]"

definition log_store_errors :: "admin_log_config \<Rightarrow> cfg_error list" where
  "log_store_errors l =
     (if \<not> al_enabled l then []
      else check (al_capacity l \<le> 0 \<or> al_capacity l > 100000)
             ''admin.log_store.capacity must be between 1 and %d'' [itoa 100000] @
           check (al_default_page l \<le> 0) ''admin.log_store.default_page_size must be positive'' [] @
           check (al_max_page l \<le> 0) ''admin.log_store.max_page_size must be positive'' [] @
           check (al_default_page l > al_max_page l) ''admin.log_store.default_page_size cannot exceed max_page_size'' [] @
           check (al_max_page l > al_capacity l) ''admin.log_store.max_page_size cannot exceed capacity'' [])"

definition admin_errors :: "config_lib \<Rightarrow> string \<Rightarrow> admin_config \<Rightarrow> cfg_error list" where
  "admin_errors lib listen a =
     (if \<not> ad_enabled a then []
      else check (listener_endpoints_overlap lib listen (ad_listen a))
             ''server.listen_addr %q and admin.listen_addr %q overlap'' [listen, ad_listen a] @
           (case split_host_port (ad_listen a) of
              None \<Rightarrow> [Cfg ''invalid admin.listen_addr'' []]
            | Some (host, _) \<Rightarrow>
                let port = validate_host_port lib ''admin.listen_addr'' (ad_listen a) True in
                if port \<noteq> [] then port
                else check (trim_space (ad_token a) = [] \<and> \<not> is_loopback_host host)
                       ''admin.auth_token is required when admin.listen_addr is not loopback'' []) @
           log_store_errors (ad_log a))"

subsection \<open>Routes\<close>

definition route_name_errors :: "nat \<Rightarrow> string \<Rightarrow> string list \<Rightarrow> cfg_error list \<times> string list" where
  "route_name_errors i name names =
     (if name = [] then ([Cfg ''routes[%d].name is required'' [itoa (int i)]], names)
      else if is_admin_path_dot_segment name
      then ([Cfg ''routes[%d].name cannot be %q because route names are Admin API path segments'' [itoa (int i), name]], names)
      else if length name > 256 then ([Cfg ''routes[%d].name cannot exceed 256 bytes'' [itoa (int i)]], names)
      else if equal_fold name ''__unmatched__''
      then ([Cfg ''routes[%d].name %q is reserved for internal unmatched-request telemetry'' [itoa (int i), name]], names)
      else if to_lower name \<in> set names
      then ([Cfg ''duplicate route name %q (route names are case-insensitive)'' [name]], names)
      else ([], to_lower name # names))"

text \<open>The loop over the hosts that are examined: errors, normalised hosts.\<close>

fun validate_hosts :: "string \<Rightarrow> nat \<Rightarrow> string list \<Rightarrow> string list \<Rightarrow> cfg_error list \<times> string list" where
  "validate_hosts name j seen [] = ([], [])"
| "validate_hosts name j seen (raw # raws) =
     (case config_host_pattern raw of
        Inl e \<Rightarrow> (case validate_hosts name (Suc j) seen raws of
                    (errs, hs) \<Rightarrow> (Wrap ''route %q hosts[%d]: %w'' [name, itoa (int j)] e # errs, raw # hs))
      | Inr host \<Rightarrow>
          (case validate_hosts name (Suc j) (host # seen) raws of
             (errs, hs) \<Rightarrow>
               (check (host \<in> set seen) ''route %q contains duplicate host pattern %q'' [name, host] @ errs, host # hs)))"

definition balancing_algorithms :: "string list" where
  "balancing_algorithms = [''round_robin'', ''weighted_round_robin'', ''least_connections'', ''priority_failover'',
     ''adaptive_latency'', ''random_weighted'']"

definition normalize_balancing :: "balancing_config \<Rightarrow> balancing_config" where
  "normalize_balancing b =
     (let alg = to_lower (trim_space (lb_algorithm b)) in
      b\<lparr>lb_algorithm := (if alg = [] then ''round_robin'' else alg),
        lb_sensitivity := (if lb_sensitivity b = 0 then 1 else lb_sensitivity b),
        lb_alpha := (if lb_alpha b = 0 then 1 / 4 else lb_alpha b)\<rparr>)"

definition balancing_errors :: "string \<Rightarrow> balancing_config \<Rightarrow> cfg_error list" where
  "balancing_errors name b =
     check (lb_algorithm b \<notin> set balancing_algorithms) ''route %q load_balancing.algorithm %q is not supported''
       [name, lb_algorithm b] @
     check (lb_sensitivity b < 1 / 10 \<or> lb_sensitivity b > 8)
       ''route %q load_balancing.latency_sensitivity must be between 0.1 and 8'' [name] @
     check (lb_alpha b \<le> 0 \<or> lb_alpha b > 1)
       ''route %q load_balancing.ewma_alpha must be greater than 0 and no greater than 1'' [name]"

text \<open>The owners of host and path selectors, keyed by host, NUL and path.\<close>

definition selector_key :: "string \<Rightarrow> string \<Rightarrow> string" where
  "selector_key host pre = host @ [CHR 0x00] @ pre"

fun claim_selectors ::
  "string \<Rightarrow> string \<Rightarrow> string list \<Rightarrow> (string, string) gomap \<Rightarrow> cfg_error list \<times> (string, string) gomap" where
  "claim_selectors name pre [] owners = ([], owners)"
| "claim_selectors name pre (host # hosts) owners =
     (if host = [] then claim_selectors name pre hosts owners
      else (case gm_get owners (selector_key host pre) of
              Some owner \<Rightarrow>
                if owner \<noteq> name
                then (case claim_selectors name pre hosts owners of
                        (errs, o') \<Rightarrow>
                          (Cfg ''routes %q and %q have the same host/path selector %q %q'' [owner, name, host, pre] # errs, o'))
                else claim_selectors name pre hosts (gm_put (selector_key host pre) name owners)
            | None \<Rightarrow> claim_selectors name pre hosts (gm_put (selector_key host pre) name owners)))"

definition normalize_origin :: "nat \<Rightarrow> origin_config \<Rightarrow> origin_config" where
  "normalize_origin j u =
     (let name = trim_space (oc_name u) in
      u\<lparr>oc_name := (if name = [] then ''origin-'' @ itoa (int j + 1) else name), oc_url := trim_space (oc_url u),
        oc_weight := (if oc_weight u = 0 then 1 else oc_weight u),
        oc_priority := (if oc_priority u = 0 then int j + 1 else oc_priority u)\<rparr>)"

definition origin_url_errors :: "config_lib \<Rightarrow> string \<Rightarrow> nat \<Rightarrow> origin_config \<Rightarrow> (string, string) gomap \<Rightarrow> parsed_url
    \<Rightarrow> cfg_error list" where
  "origin_url_errors lib name j u urls parsed =
     check (u_scheme (pu_url parsed) \<noteq> ''http'' \<and> u_scheme (pu_url parsed) \<noteq> ''https'')
       ''route %q upstream[%d] scheme must be http or https'' [name, itoa (int j)] @
     check (pu_user parsed) ''route %q upstream[%d] must not contain URL credentials'' [name, itoa (int j)] @
     check (u_fragment (pu_url parsed) \<noteq> []) ''route %q upstream[%d] must not contain a URL fragment'' [name, itoa (int j)] @
     (case gm_get urls (pu_string parsed) of
        Some owner \<Rightarrow> [Cfg ''route %q upstream %q duplicates URL %q already used by upstream %q'' [name, oc_name u, oc_url u, owner]]
      | None \<Rightarrow> []) @
     validate_url_port lib (''route '' @ quoted name @ '' upstream['' @ itoa (int j) @ '']'') (pu_url parsed) @
     check (oc_insecure u \<and> u_scheme (pu_url parsed) \<noteq> ''https'')
       ''route %q upstream[%d] insecure_skip_verify is only valid for https'' [name, itoa (int j)]"

definition bad_origin_url :: "parsed_url option \<Rightarrow> bool" where
  "bad_origin_url p =
     (case p of
        None \<Rightarrow> True
      | Some u \<Rightarrow> u_scheme (pu_url u) = [] \<or> u_host (pu_url u) = [] \<or> fst (url_host_port (u_host (pu_url u))) = [])"

fun validate_origins ::
  "config_lib \<Rightarrow> string \<Rightarrow> nat \<Rightarrow> string list \<Rightarrow> (string, string) gomap \<Rightarrow> origin_config list
     \<Rightarrow> cfg_error list \<times> origin_config list" where
  "validate_origins lib name j names urls [] = ([], [])"
| "validate_origins lib name j names urls (u0 # us) =
     (let u = normalize_origin j u0; parsed = cl_parse_url lib (oc_url u); bad = bad_origin_url parsed;
          urls' = (if bad \<or> gm_get urls (pu_string (the parsed)) \<noteq> None then urls
                   else gm_put (pu_string (the parsed)) (oc_name u) urls)
      in case validate_origins lib name (Suc j) (to_lower (oc_name u) # names) urls' us of
           (errs, rest) \<Rightarrow>
             (check (is_admin_path_dot_segment (oc_name u))
                ''route %q upstream[%d] name cannot be %q because Origin names are Admin API path segments''
                [name, itoa (int j), oc_name u] @
              check (length (oc_name u) > 256) ''route %q upstream[%d] name cannot exceed 256 bytes'' [name, itoa (int j)] @
              check (to_lower (oc_name u) \<in> set names) ''route %q contains duplicate upstream name %q'' [name, oc_name u] @
              check (oc_weight u < 1 \<or> oc_weight u > 10000)
                ''route %q upstream[%d] weight must be between 1 and 10000'' [name, itoa (int j)] @
              check (oc_priority u < 1 \<or> oc_priority u > 10000)
                ''route %q upstream[%d] priority must be between 1 and 10000'' [name, itoa (int j)] @
              (if bad then [Cfg ''route %q upstream[%d] has invalid URL %q'' [name, itoa (int j), oc_url u]]
               else origin_url_errors lib name j u urls (the parsed)) @ errs,
              u # rest))"

definition proxy_errors :: "string \<Rightarrow> proxy_config \<Rightarrow> cfg_error list" where
  "proxy_errors name p =
     check (px_request_timeout p \<le> 0 \<or> px_dial_timeout p \<le> 0 \<or> px_header_timeout p \<le> 0)
       ''route %q proxy request/dial/response-header timeouts must be positive'' [name] @
     check (px_idle_timeout p < 0 \<or> px_retry_backoff p < 0)
       ''route %q proxy idle timeout and retry backoff cannot be negative'' [name] @
     check (px_retry_count p < 0 \<or> px_retry_count p > 10) ''route %q retry_count must be between 0 and %d'' [name, itoa 10] @
     check (px_max_idle p \<le> 0 \<or> px_max_idle p > 1000000 \<or> px_max_idle_host p \<le> 0 \<or> px_max_idle_host p > 1000000)
       ''route %q proxy connection limits must be between 1 and %d'' [name, itoa 1000000] @
     check (px_max_header_bytes p \<le> 0 \<or> px_max_header_bytes p > 16 * 2 ^ 20)
       ''route %q proxy.max_response_header_bytes must be between 1 and %d'' [name, itoa (16 * 2 ^ 20)]"

subsection \<open>Cache and health checks\<close>

text \<open>\<^verbatim>\<open>addVary\<close>: the accepted headers, whether the overflow was reported, the errors so far.\<close>

definition add_vary :: "string \<Rightarrow> string \<Rightarrow> string list \<times> bool \<times> cfg_error list \<Rightarrow> string list \<times> bool \<times> cfg_error list" where
  "add_vary route raw st =
     (case st of (varied, overflow, errs) \<Rightarrow>
        let name = canonical_header_key (trim_space raw) in
        if \<not> valid_http_token name
        then (varied, overflow, errs @ [Cfg ''route %q cache.vary_request_headers contains invalid header %q'' [route, raw]])
        else if to_lower name \<in> set (map to_lower varied) then st
        else if length varied \<ge> 128
        then (varied, True, if overflow then errs
               else errs @ [Cfg ''route %q effective cache.vary_request_headers cannot contain more than %d entries'' [route, itoa 128]])
        else (varied @ [name], overflow, errs))"

definition vary_inputs :: "cache_config \<Rightarrow> string list" where
  "vary_inputs cc = take 128 (cc_vary cc) @ (if cc_authorized cc then [''Authorization''] else []) @
     (if cc_cookie cc then [''Cookie''] else [])"

definition validate_vary :: "string \<Rightarrow> cache_config \<Rightarrow> cfg_error list \<times> string list" where
  "validate_vary route cc =
     (case fold (add_vary route) (vary_inputs cc) ([], False, []) of (varied, _, errs) \<Rightarrow>
        (check (length (cc_vary cc) > 128) ''route %q cache.vary_request_headers cannot contain more than %d entries''
           [route, itoa 128] @ errs, varied))"

definition status_errors :: "string \<Rightarrow> string \<Rightarrow> int list \<Rightarrow> cfg_error list" where
  "status_errors msg route statuses =
     concat (map (\<lambda>st. check (st < 100 \<or> st > 599) msg [route, itoa st]) (take 128 statuses))"

definition cache_limit_errors :: "string \<Rightarrow> cache_config \<Rightarrow> cfg_error list" where
  "cache_limit_errors route cc =
     check (cc_default_ttl cc \<le> 0) ''route %q cache.default_ttl must be positive'' [route] @
     check (cc_stale_if_error cc < 0) ''route %q cache.stale_if_error cannot be negative'' [route] @
     check (cc_max_entries cc \<le> 0 \<or> cc_max_entries cc > 1000000)
       ''route %q cache.max_entries must be between 1 and %d'' [route, itoa 1000000] @
     check (cc_max_bytes cc \<le> 0 \<or> cc_max_bytes cc > 64 * 2 ^ 30)
       ''route %q cache.max_bytes must be between 1 and %d'' [route, itoa (64 * 2 ^ 30)] @
     check (cc_max_object_bytes cc \<le> 0 \<or> cc_max_object_bytes cc > 2 ^ 30)
       ''route %q cache.max_object_bytes must be between 1 and %d'' [route, itoa (2 ^ 30)] @
     check (cc_max_object_bytes cc > cc_max_bytes cc) ''route %q max_object_bytes cannot exceed max_bytes'' [route] @
     (if cc_statuses cc = [] then [Cfg ''route %q cache.cacheable_status_codes cannot be empty'' [route]]
      else check (length (cc_statuses cc) > 128) ''route %q cache.cacheable_status_codes cannot contain more than %d entries''
             [route, itoa 128]) @
     status_errors ''route %q has invalid cacheable status %d'' route (cc_statuses cc)"

definition validate_cache :: "string \<Rightarrow> cache_config \<Rightarrow> cfg_error list \<times> cache_config" where
  "validate_cache route cc =
     (if \<not> cc_enabled cc then ([], cc)
      else (case validate_vary route cc of (errs, varied) \<Rightarrow>
              (errs @ cache_limit_errors route cc, cc\<lparr>cc_vary := varied\<rparr>)))"

definition validate_health :: "string \<Rightarrow> health_config \<Rightarrow> cfg_error list \<times> health_config" where
  "validate_health route hk =
     (if \<not> hk_enabled hk then ([], hk)
      else
        let p = normalize_absolute_path (hk_path hk) in
        ((case p of Inl e \<Rightarrow> [Wrap ''route %q health_check.path: %w'' [route] e] | Inr _ \<Rightarrow> []) @
         (if hk_interval hk \<le> 0 \<or> hk_timeout hk \<le> 0
          then [Cfg ''route %q health-check durations must be positive'' [route]]
          else check (hk_timeout hk > hk_interval hk) ''route %q health_check.timeout cannot exceed interval'' [route]) @
         (if hk_statuses hk = []
          then [Cfg ''route %q health_check.healthy_statuses cannot be empty when health checks are enabled'' [route]]
          else check (length (hk_statuses hk) > 128) ''route %q health_check.healthy_statuses cannot contain more than %d entries''
                 [route, itoa 128]) @
         status_errors ''route %q has invalid healthy status %d'' route (hk_statuses hk),
         hk\<lparr>hk_path := (case p of Inl _ \<Rightarrow> hk_path hk | Inr v \<Rightarrow> v)\<rparr>))"

subsection \<open>A route and the whole configuration\<close>

definition validate_route ::
  "config_lib \<Rightarrow> nat \<Rightarrow> route_config \<Rightarrow> string list \<Rightarrow> (string, string) gomap
     \<Rightarrow> cfg_error list \<times> route_config \<times> string list \<times> (string, string) gomap" where
  "validate_route lib i r names owners =
     (let name = trim_space (rf_name r);
          (name_errs, names') = route_name_errors i name names;
          (host_errs, hosts) = validate_hosts name 0 [] (take 256 (rf_hosts r));
          prefix_result = config_path_prefix (rf_prefix r);
          pre = (case prefix_result of Inl _ \<Rightarrow> rf_prefix r | Inr v \<Rightarrow> v);
          balancing = normalize_balancing (rf_balancing r);
          (selector_errs, owners') = claim_selectors name pre hosts owners;
          (origin_errs, origins) = validate_origins lib name 0 [] [] (take 256 (rf_upstreams r));
          (cache_errs, cache) = validate_cache name (rf_cache r);
          (health_errs, health) = validate_health name (rf_health r)
      in (name_errs @
          (if rf_hosts r = [] then [Cfg ''route %q requires at least one host'' [name]]
           else check (length (rf_hosts r) > 256) ''route %q cannot contain more than %d hosts'' [name, itoa 256]) @
          host_errs @
          (case prefix_result of Inl e \<Rightarrow> [Wrap ''route %q path_prefix: %w'' [name] e] | Inr _ \<Rightarrow> []) @
          (if rf_upstreams r = [] then [Cfg ''route %q requires at least one upstream'' [name]]
           else check (length (rf_upstreams r) > 256) ''route %q cannot contain more than %d upstreams'' [name, itoa 256]) @
          balancing_errors name balancing @ selector_errs @ origin_errs @ proxy_errors name (rf_proxy r) @ cache_errs @
          health_errs,
          r\<lparr>rf_name := name, rf_hosts := hosts @ drop 256 (rf_hosts r), rf_prefix := pre, rf_balancing := balancing,
            rf_upstreams := origins @ drop 256 (rf_upstreams r), rf_cache := cache, rf_health := health\<rparr>,
          names', owners'))"

fun validate_routes ::
  "config_lib \<Rightarrow> nat \<Rightarrow> route_config list \<Rightarrow> string list \<Rightarrow> (string, string) gomap
     \<Rightarrow> cfg_error list \<times> route_config list" where
  "validate_routes lib i [] names owners = ([], [])"
| "validate_routes lib i (r # rs) names owners =
     (case validate_route lib i r names owners of (errs, r', names', owners') \<Rightarrow>
        case validate_routes lib (Suc i) rs names' owners' of (errs', rs') \<Rightarrow> (errs @ errs', r' # rs'))"

definition validate_config :: "config_lib \<Rightarrow> proxy_file \<Rightarrow> cfg_error list \<times> proxy_file" where
  "validate_config lib c =
     (let s = normalize_server (pf_server c); a = normalize_admin (pf_admin c);
          (trusted_errs, trusted) = validate_trusted (take 4096 (sv_trusted s)) [];
          (route_errs, routes) = validate_routes lib 0 (take 2048 (pf_routes c)) [] []
      in ((if ad_token a \<noteq> [] then validate_bearer_credential ''admin.auth_token'' (ad_token a) else []) @
          server_errors lib s @ trusted_errs @
          check (tl_enabled (sv_tls s) \<and> (tl_cert (sv_tls s) = [] \<or> tl_key (sv_tls s) = []))
            ''server.tls.cert_file and key_file are required when TLS is enabled'' [] @
          admin_errors lib (sv_listen s) a @
          (if pf_routes c = [] then [Cfg ''at least one route is required'' []]
           else check (length (pf_routes c) > 2048) ''routes cannot contain more than %d entries'' [itoa 2048]) @
          route_errs,
          c\<lparr>pf_server := s\<lparr>sv_trusted := trusted\<rparr>, pf_admin := a, pf_routes := routes @ drop 2048 (pf_routes c)\<rparr>))"

section \<open>The environment\<close>

text \<open>
  \<^verbatim>\<open>environmentRouteSuffix\<close>: every run of other characters becomes one underscore. A rune outside ASCII is
  several bytes here, all of them other characters, so the result is the same.
\<close>

fun suffix_walk :: "bool \<Rightarrow> bool \<Rightarrow> string \<Rightarrow> string" where
  "suffix_walk started underscore [] = []"
| "suffix_walk started underscore (c # s) =
     (if is_lower_letter c then upper_char c # suffix_walk True False s
      else if is_upper_letter c \<or> is_digit c then c # suffix_walk True False s
      else if started \<and> \<not> underscore then CHR ''_'' # suffix_walk True True s
      else suffix_walk started underscore s)"

definition environment_route_suffix :: "string \<Rightarrow> string" where
  "environment_route_suffix name = trim_set ''_'' (suffix_walk False False (trim_space name))"

definition route_env_key :: "string \<Rightarrow> string \<Rightarrow> string" where
  "route_env_key sfx field = ''EDGEPROXY_ROUTE_'' @ sfx @ field"

definition zero_origin :: origin_config where
  "zero_origin = \<lparr>oc_name = [], oc_url = [], oc_insecure = False, oc_weight = 0, oc_priority = 0\<rparr>"

fun replace_urls :: "string list \<Rightarrow> origin_config list \<Rightarrow> origin_config list" where
  "replace_urls [] us = []"
| "replace_urls (url # urls) [] = zero_origin\<lparr>oc_url := url\<rparr> # replace_urls urls []"
| "replace_urls (url # urls) (u # us) = u\<lparr>oc_url := url\<rparr> # replace_urls urls us"

definition override_upstreams :: "string \<Rightarrow> string option \<Rightarrow> route_config \<Rightarrow> cfg_error + route_config" where
  "override_upstreams key v r =
     (case v of
        None \<Rightarrow> Inr r
      | Some text \<Rightarrow>
          let urls = split_environment_list text in
          if urls = [] then Inl (Cfg ''%s must contain at least one URL'' [key])
          else if length urls > 256 then Inl (Cfg ''%s cannot contain more than %d URLs'' [key, itoa 256])
          else Inr (r\<lparr>rf_upstreams := replace_urls urls (rf_upstreams r)\<rparr>))"

fun override_routes ::
  "environment \<Rightarrow> (string, string) gomap \<Rightarrow> route_config list \<Rightarrow> cfg_error + route_config list" where
  "override_routes env seen [] = Inr []"
| "override_routes env seen (r # rs) =
     (let sfx = environment_route_suffix (rf_name r); hosts_key = route_env_key sfx ''_HOSTS'';
          upstreams_key = route_env_key sfx ''_UPSTREAM_URLS'';
          upstreams = non_empty_environment env upstreams_key in
      if sfx = [] then map_sum id (Cons r) (override_routes env seen rs)
      else if non_empty_environment env hosts_key \<noteq> None
      then Inl (Cfg ''%s is not supported; define route hosts in the shared JSON profile'' [hosts_key])
      else if gm_get seen sfx \<noteq> None \<and> gm_get seen sfx \<noteq> Some (rf_name r)
      then if upstreams \<noteq> None
           then Inl (Cfg ''route names %q and %q map to the same environment suffix %q'' [the (gm_get seen sfx), rf_name r, sfx])
           else map_sum id (Cons r) (override_routes env seen rs)
      else (case override_upstreams upstreams_key upstreams r of
              Inl e \<Rightarrow> Inl e
            | Inr r' \<Rightarrow> map_sum id (Cons r') (override_routes env (gm_put sfx (rf_name r) seen) rs)))"

definition override_server :: "environment \<Rightarrow> server_config \<Rightarrow> server_config" where
  "override_server env s =
     s\<lparr>sv_listen := apply_string_env env ''EDGEPROXY_SERVER_LISTEN_ADDR'' (sv_listen s),
       sv_header := apply_string_env env ''EDGEPROXY_FORWARDED_FOR_HEADER'' (sv_header s),
       sv_trusted := (case non_empty_environment env ''EDGEPROXY_TRUSTED_PROXY_CIDRS'' of
                        None \<Rightarrow> sv_trusted s | Some v \<Rightarrow> split_environment_list v),
       sv_tls := (sv_tls s)\<lparr>tl_cert := apply_string_env env ''EDGEPROXY_TLS_CERT_FILE'' (tl_cert (sv_tls s)),
                            tl_key := apply_string_env env ''EDGEPROXY_TLS_KEY_FILE'' (tl_key (sv_tls s))\<rparr>\<rparr>"

definition override_admin :: "environment \<Rightarrow> admin_config \<Rightarrow> admin_config" where
  "override_admin env a =
     a\<lparr>ad_listen := apply_string_env env ''EDGEPROXY_ADMIN_LISTEN_ADDR'' (ad_listen a),
       ad_token := apply_string_env env ''EDGEPROXY_ADMIN_TOKEN'' (ad_token a)\<rparr>"

definition override_tls_enabled :: "environment \<Rightarrow> server_config \<Rightarrow> cfg_error + server_config" where
  "override_tls_enabled env s =
     (case non_empty_environment env ''EDGEPROXY_TLS_ENABLED'' of
        None \<Rightarrow> Inr s
      | Some v \<Rightarrow>
          (case parse_bool v of
             None \<Rightarrow> Inl (Cfg ''EDGEPROXY_TLS_ENABLED must be a boolean'' [])
           | Some b \<Rightarrow> Inr (s\<lparr>sv_tls := (sv_tls s)\<lparr>tl_enabled := b\<rparr>\<rparr>)))"

definition apply_environment_overrides :: "environment \<Rightarrow> proxy_file \<Rightarrow> cfg_error + proxy_file" where
  "apply_environment_overrides env c =
     (case override_tls_enabled env (override_server env (pf_server c)) of
        Inl e \<Rightarrow> Inl e
      | Inr s \<Rightarrow>
          map_sum id (\<lambda>rs. c\<lparr>pf_server := s, pf_admin := override_admin env (pf_admin c), pf_routes := rs\<rparr>)
            (override_routes env [] (pf_routes c)))"

text \<open>\<^verbatim>\<open>LoadFile\<close> after the document has been read and decoded, and \<^verbatim>\<open>Load\<close>, which overrides fields and validates again.\<close>

definition accept :: "config_lib \<Rightarrow> proxy_file \<Rightarrow> cfg_error list + proxy_file" where
  "accept lib c = (case validate_config lib c of (errs, c') \<Rightarrow> if errs = [] then Inr c' else Inl errs)"

definition load_file :: "config_lib \<Rightarrow> cfg_error + proxy_file \<Rightarrow> cfg_error list + proxy_file" where
  "load_file lib doc = (case doc of Inl e \<Rightarrow> Inl [e] | Inr c \<Rightarrow> accept lib c)"

definition load_config :: "config_lib \<Rightarrow> environment \<Rightarrow> cfg_error + proxy_file \<Rightarrow> cfg_error list + proxy_file" where
  "load_config lib env doc =
     (case load_file lib doc of
        Inl errs \<Rightarrow> Inl errs
      | Inr c \<Rightarrow> (case apply_environment_overrides env c of Inl e \<Rightarrow> Inl [e] | Inr c' \<Rightarrow> accept lib c'))"

subsection \<open>Changes of managed fields\<close>

definition route_by_name :: "route_config list \<Rightarrow> string \<Rightarrow> route_config option" where
  "route_by_name routes name = find (\<lambda>r. equal_fold (trim_space (rf_name r)) (trim_space name)) routes"

definition upstream_urls :: "origin_config list \<Rightarrow> string list" where
  "upstream_urls us = map (\<lambda>u. trim_space (oc_url u)) us"

definition managed_fields :: "proxy_file \<Rightarrow> proxy_file \<Rightarrow> (string \<times> string \<times> bool) list" where
  "managed_fields a b =
     (let s = pf_server a; s' = pf_server b in
      [(''EDGEPROXY_SERVER_LISTEN_ADDR'', ''server.listen_addr'', sv_listen s \<noteq> sv_listen s'),
       (''EDGEPROXY_ADMIN_LISTEN_ADDR'', ''admin.listen_addr'', ad_listen (pf_admin a) \<noteq> ad_listen (pf_admin b)),
       (''EDGEPROXY_ADMIN_TOKEN'', ''admin.auth_token'', ad_token (pf_admin a) \<noteq> ad_token (pf_admin b)),
       (''EDGEPROXY_FORWARDED_FOR_HEADER'', ''server.forwarded_for_header'', sv_header s \<noteq> sv_header s'),
       (''EDGEPROXY_TRUSTED_PROXY_CIDRS'', ''server.trusted_proxy_cidrs'', sv_trusted s \<noteq> sv_trusted s'),
       (''EDGEPROXY_TLS_ENABLED'', ''server.tls.enabled'', tl_enabled (sv_tls s) \<noteq> tl_enabled (sv_tls s')),
       (''EDGEPROXY_TLS_CERT_FILE'', ''server.tls.cert_file'', tl_cert (sv_tls s) \<noteq> tl_cert (sv_tls s')),
       (''EDGEPROXY_TLS_KEY_FILE'', ''server.tls.key_file'', tl_key (sv_tls s) \<noteq> tl_key (sv_tls s'))])"

definition upstreams_changed :: "proxy_file \<Rightarrow> proxy_file \<Rightarrow> string \<Rightarrow> bool" where
  "upstreams_changed a b name =
     (case (route_by_name (pf_routes a) name, route_by_name (pf_routes b) name) of
        (Some x, Some y) \<Rightarrow> upstream_urls (rf_upstreams x) \<noteq> upstream_urls (rf_upstreams y)
      | (None, None) \<Rightarrow> False
      | _ \<Rightarrow> True)"

fun locked_routes :: "environment \<Rightarrow> proxy_file \<Rightarrow> proxy_file \<Rightarrow> string list \<Rightarrow> route_config list \<Rightarrow> string list" where
  "locked_routes env a b seen [] = []"
| "locked_routes env a b seen (r # rs) =
     (let name = trim_space (rf_name r); key = route_env_key (environment_route_suffix name) ''_UPSTREAM_URLS'' in
      if non_empty_environment env key = None \<or> to_lower name \<in> set seen then locked_routes env a b seen rs
      else (if upstreams_changed a b name then [''routes['' @ name @ ''].upstream URLs ('' @ key @ '')''] else []) @
           locked_routes env a b (to_lower name # seen) rs)"

definition locked_changes :: "environment \<Rightarrow> proxy_file \<Rightarrow> proxy_file \<Rightarrow> string list" where
  "locked_changes env a b =
     map (\<lambda>(key, field, _). field @ '' ('' @ key @ '')'')
       (filter (\<lambda>(key, _, changed). non_empty_environment env key \<noteq> None \<and> changed) (managed_fields a b)) @
     locked_routes env a b [] (pf_routes a @ pf_routes b)"

definition validate_environment_managed_changes :: "environment \<Rightarrow> proxy_file \<Rightarrow> proxy_file \<Rightarrow> cfg_error option" where
  "validate_environment_managed_changes env a b =
     (let locked = locked_changes env a b in
      if locked = [] then None
      else Some (Cfg ''configuration fields are managed by environment overrides and cannot be changed through the file/API: %s''
             [join_with '', '' locked]))"

end
