(* ===== verification/Ip_Text.thy ===== *)
theory Ip_Text
  imports Net_IP
begin

text \<open>
  Printing an address and parsing it again: \<open>parse_ip\<close> reads back what \<open>ip_string\<close> prints, for IPv4 addresses
  and for IPv6 addresses with and without a compressed run of zero groups, and \<open>parse_cidr\<close> reads back a
  network.
\<close>

section \<open>Numbers\<close>

lemma decimal_value_snoc: "decimal_value (s @ [c]) = decimal_value s * 10 + digit_value c"
  by (simp add: decimal_value_def)

lemma digit_char_decimal:
  assumes "0 \<le> d" "d < 10"
  shows "digit_value (digit_char d) = d \<and> is_digit (digit_char d)"
proof -
  have "list_all (\<lambda>d. digit_value (digit_char d) = d \<and> is_digit (digit_char d)) [0..9]" by code_simp
  moreover have "d \<in> set [0..9]" using assms by simp
  ultimately show ?thesis unfolding list_all_iff by blast
qed

lemma digit_char_hexadecimal:
  assumes "0 \<le> d" "d < 16"
  shows "hex_value (digit_char d) = Some d"
proof -
  have "list_all (\<lambda>d. hex_value (digit_char d) = Some d) [0..15]" by code_simp
  moreover have "d \<in> set [0..15]" using assms by simp
  ultimately show ?thesis unfolding list_all_iff by blast
qed

lemma decimal_digits:
  assumes "0 \<le> n"
  shows "decimal_value (digits_of 10 n) = n \<and> list_all is_digit (digits_of 10 n) \<and> digits_of 10 n \<noteq> []"
  using assms
proof (induction "10 :: int" n rule: digits_of.induct)
  case (1 n)
  show ?case
  proof (cases "n < 10")
    case True
    then show ?thesis using 1(2) digit_char_decimal [of n] by (subst (1 2 3) digits_of.simps) (simp add: decimal_value_def)
  next
    case False
    then have "0 \<le> n div 10" "\<not> (10 < (2::int) \<or> n < 10)" using 1(2) by auto
    with 1(1) have "decimal_value (digits_of 10 (n div 10)) = n div 10 \<and> list_all is_digit (digits_of 10 (n div 10))" by blast
    moreover have "digit_value (digit_char (n mod 10)) = n mod 10 \<and> is_digit (digit_char (n mod 10))"
      by (intro digit_char_decimal) auto
    ultimately show ?thesis using False by (subst (1 2 3) digits_of.simps) (simp add: decimal_value_snoc)
  qed
qed

lemma digit_char_zero: "0 < d \<Longrightarrow> d < 10 \<Longrightarrow> digit_char d \<noteq> CHR ''0''"
proof
  assume "0 < d" "d < 10" "digit_char d = CHR ''0''"
  moreover have "digit_value (CHR ''0'') = 0" by code_simp
  ultimately show False using digit_char_decimal [of d] by simp
qed

lemma octet_digits:
  assumes "10 \<le> v" "v < 256"
  shows "length (digits_of 10 v) \<le> 3 \<and> hd (digits_of 10 v) \<noteq> CHR ''0''"
proof (cases "v < 100")
  case True
  then have "digits_of 10 v = [digit_char (v div 10), digit_char (v mod 10)]"
    using assms by (simp add: digits_of.simps [of 10 v] digits_of.simps [of 10 "v div 10"])
  then show ?thesis using True assms digit_char_zero [of "v div 10"] by simp
next
  case False
  have "v div 10 div 10 = v div 100" by (simp add: zdiv_zmult2_eq [symmetric])
  moreover have "10 \<le> v div 10" "v div 100 < 10" using False assms by linarith+
  ultimately have "digits_of 10 v = [digit_char (v div 100), digit_char (v div 10 mod 10), digit_char (v mod 10)]"
    using False assms by (simp add: digits_of.simps [of 10 v] digits_of.simps [of 10 "v div 10"] digits_of.simps [of 10 "v div 100"])
  then show ?thesis using False assms digit_char_zero [of "v div 100"] by simp
qed

lemma octet_roundtrip:
  assumes "0 \<le> v" "v < 256"
  shows "parse_octet (digits_of 10 v) = Some v \<and> CHR ''.'' \<notin> set (digits_of 10 v)"
proof -
  note d = decimal_digits [OF assms(1)]
  have "\<not> is_digit (CHR ''.'')" by code_simp
  then have "CHR ''.'' \<notin> set (digits_of 10 v)" using d by (auto simp: list_all_iff)
  moreover have "parse_octet (digits_of 10 v) = Some v"
  proof (cases "v < 10")
    case True
    then have "length (digits_of 10 v) = 1" by (subst digits_of.simps) simp
    then show ?thesis using d assms(2) by (simp add: parse_octet_def)
  next
    case False
    then show ?thesis using d assms(2) octet_digits [of v] by (simp add: parse_octet_def)
  qed
  ultimately show ?thesis by blast
qed

section \<open>IPv4\<close>

lemma find_unique:
  assumes "c \<in> set s" "P c" "\<And>x. x \<in> set s \<Longrightarrow> P x \<Longrightarrow> x = c"
  shows "find P s = Some c"
  using assms(1,3)
proof (induction s)
  case (Cons a s)
  show ?case
  proof (cases "P a")
    case True
    then show ?thesis using Cons.prems(2) [of a] by simp
  next
    case False
    then have "c \<in> set s" using Cons.prems(1) assms(2) by auto
    then show ?thesis using Cons.IH Cons.prems(2) False by simp
  qed
qed simp

lemma join_with_sep_in: "length ws \<ge> 2 \<Longrightarrow> set sep \<subseteq> set (join_with sep ws)"
  by (induction sep ws rule: join_with.induct) auto

lemma bytes_of_int:
  fixes x :: int
  shows "(((x div 16777216 mod 256) * 256 + x div 65536 mod 256) * 256 + x div 256 mod 256) * 256 + x mod 256 = x mod 4294967296"
proof -
  have e: "(256 * 256 :: int) = 65536" "(65536 * 256 :: int) = 16777216" "(16777216 * 256 :: int) = 4294967296" by simp_all
  have p: "0 \<le> (256 :: int)" by simp
  note m = zmod_zmult2_eq [OF p, of x 256, unfolded e] zmod_zmult2_eq [OF p, of x 65536, unfolded e]
    zmod_zmult2_eq [OF p, of x 16777216, unfolded e]
  show ?thesis unfolding m by algebra
qed

lemma v4_parts:
  assumes "is_v4 ip"
  shows "v4_prefix + ip mod 4294967296 = ip"
proof -
  have e: "(2::int) ^ 32 = 4294967296" by simp
  have "ip div 4294967296 = 65535" using assms unfolding is_v4_def e by simp
  with div_mult_mod_eq [of ip 4294967296] show ?thesis unfolding v4_prefix_def e by presburger
qed

lemma parse_ipv4_roundtrip:
  assumes "is_v4 ip"
  shows "parse_ip (ip_string ip) = Some ip"
proof -
  let ?o = "\<lambda>k. ip div k mod 256"
  let ?ws = "map (\<lambda>k. digits_of 10 (?o k)) [16777216, 65536, 256, 1]"
  have o: "parse_octet (digits_of 10 (?o k)) = Some (?o k)" "CHR ''.'' \<notin> set (digits_of 10 (?o k))" for k
    using octet_roundtrip [of "?o k"] by simp_all
  have s: "ip_string ip = join_with ''.'' ?ws" using assms by (simp add: ip_string_def)
  have split: "split_on (CHR ''.'') (ip_string ip) = ?ws" unfolding s using o(2) o(2) [of 1] by (intro split_join) auto
  let ?x = "ip mod 4294967296"
  have ip: "v4_prefix + ?x = ip" using v4_parts [OF assms] .
  have "?o 1 = ip mod 256" by simp
  then have x: "((?o 16777216 * 256 + ?o 65536) * 256 + ?o 256) * 256 + ?o 1 = ?x" using bytes_of_int [of ip] by presburger
  have m: "map parse_octet ?ws = [Some (?o 16777216), Some (?o 65536), Some (?o 256), Some (?o 1)]"
    unfolding list.map o(1) ..
  have "parse_ipv4_fields (ip_string ip) = Some ?x" unfolding parse_ipv4_fields_def split m list.case option.case x ..
  moreover have "find (\<lambda>c. c = CHR ''.'' \<or> c = CHR '':'' \<or> c = CHR ''%'') (ip_string ip) = Some (CHR ''.'')"
  proof (rule find_unique)
    show "CHR ''.'' \<in> set (ip_string ip)" unfolding s using join_with_sep_in [of ?ws "''.''"] by simp
    have "list_all (\<lambda>c. c \<noteq> CHR '':'' \<and> c \<noteq> CHR ''%'') (hex_digits @ ''.'')" by code_simp
    then show "x = CHR ''.''" if "x \<in> set (ip_string ip)" "x = CHR ''.'' \<or> x = CHR '':'' \<or> x = CHR ''%''" for x
      using that ip_string_v4(1) [OF assms] unfolding list_all_iff by blast
  qed simp
  ultimately show ?thesis unfolding parse_ip_def using ip by simp
qed

section \<open>IPv6\<close>

text \<open>Reading a group: its hexadecimal digits are read up to the next separator.\<close>

definition hex_number :: "string \<Rightarrow> int" where
  "hex_number s = foldl (\<lambda>acc c. acc * 16 + the (hex_value c)) 0 s"

lemma hex_run_stop: "rest = [] \<or> hex_value (hd rest) = None \<Longrightarrow> hex_run acc n rest = (acc, n, rest)"
  by (cases rest) auto

lemma hex_run_append:
  assumes "list_all (\<lambda>c. hex_value c \<noteq> None) ds" "rest = [] \<or> hex_value (hd rest) = None"
  shows "hex_run acc n (ds @ rest) = (foldl (\<lambda>acc c. acc * 16 + the (hex_value c)) acc ds, n + length ds, rest)"
  using assms(1) by (induction ds arbitrary: acc n) (auto simp: hex_run_stop [OF assms(2)])

lemma hex_digits_of:
  assumes "0 \<le> g"
  shows "hex_number (digits_of 16 g) = g \<and> list_all (\<lambda>c. hex_value c \<noteq> None) (digits_of 16 g) \<and> digits_of 16 g \<noteq> []"
  using assms
proof (induction "16 :: int" g rule: digits_of.induct)
  case (1 g)
  show ?case
  proof (cases "g < 16")
    case True
    then have "digits_of 16 g = [digit_char g]" by (subst digits_of.simps) simp
    then show ?thesis using digit_char_hexadecimal [OF 1(2) True] by (simp add: hex_number_def)
  next
    case False
    then have d: "digits_of 16 g = digits_of 16 (g div 16) @ [digit_char (g mod 16)]" by (subst digits_of.simps) simp
    have h: "hex_value (digit_char (g mod 16)) = Some (g mod 16)" by (intro digit_char_hexadecimal) auto
    have "0 \<le> g div 16" "\<not> (16 < (2::int) \<or> g < 16)" using False 1(2) by auto
    with 1(1) show ?thesis unfolding d by (simp add: hex_number_def h)
  qed
qed

lemma div_lt_power:
  fixes g :: int
  assumes "g < 16 ^ Suc n"
  shows "g div 16 < 16 ^ n"
proof (rule ccontr)
  assume "\<not> g div 16 < 16 ^ n"
  then have "16 ^ n * 16 \<le> g div 16 * 16" by simp
  also have "\<dots> \<le> g" using div_mult_mod_eq [of g 16] pos_mod_sign [of 16 g] by linarith
  finally show False using assms by simp
qed

lemma length_digits_of: "0 \<le> g \<Longrightarrow> g < 16 ^ Suc k \<Longrightarrow> length (digits_of 16 g) \<le> Suc k"
proof (induction k arbitrary: g)
  case 0
  then show ?case by (subst digits_of.simps) simp
next
  case (Suc k)
  show ?case
  proof (cases "g < 16")
    case True
    then show ?thesis by (subst digits_of.simps) simp
  next
    case False
    have "g div 16 < 16 ^ Suc k" using Suc.prems by (intro div_lt_power) simp
    then have "length (digits_of 16 (g div 16)) \<le> Suc k" using Suc.prems by (intro Suc.IH) simp_all
    then show ?thesis using False by (subst digits_of.simps) simp
  qed
qed

lemma group_read:
  assumes "0 \<le> g" "g < 65536" "rest = [] \<or> hex_value (hd rest) = None"
  shows "\<exists>n. 0 < n \<and> n \<le> 4 \<and> hex_run 0 0 (digits_of 16 g @ rest) = (g, n, rest)"
  using hex_digits_of [OF assms(1)] length_digits_of [of g 3] assms hex_run_append [of "digits_of 16 g" rest 0 0]
  by (auto simp: hex_number_def)

lemma hex_value_sep: "hex_value (CHR '':'') = None"
  by code_simp

lemma hex_join_Cons: "gs \<noteq> [] \<Longrightarrow> hex_join (g # gs) = digits_of 16 g @ CHR '':'' # hex_join gs"
  by (cases gs) (simp_all add: hex_join_def)

lemma hex_join_head:
  assumes "0 \<le> g"
  shows "\<exists>c s. hex_join (g # gs) = c # s \<and> c \<noteq> CHR '':''"
proof -
  obtain c s where d: "digits_of 16 g = c # s" using hex_digits_of [OF assms] by (cases "digits_of 16 g") auto
  then have "c \<noteq> CHR '':''" using hex_digits_of [OF assms] hex_value_sep by auto
  then show ?thesis using d by (cases gs) (simp_all add: hex_join_def)
qed

definition group_ok :: "int \<Rightarrow> bool" where "group_ok g \<longleftrightarrow> 0 \<le> g \<and> g < 65536"

lemma ipv6_groups_last:
  assumes "group_ok g" "length groups < 8"
  shows "ipv6_groups groups ell (hex_join [g]) = Some (groups @ [g], ell, [])"
proof -
  obtain n where n: "0 < n" "n \<le> 4" "hex_run 0 0 (digits_of 16 g @ []) = (g, n, [])"
    using group_read [of g "[]"] assms(1) by (auto simp: group_ok_def)
  then show ?thesis using assms(2) by (subst ipv6_groups.simps) (simp add: hex_join_def Let_def)
qed

lemma ipv6_groups_step:
  assumes "group_ok g" "length groups < 8" "rest \<noteq> []" "hd rest \<noteq> CHR '':''"
  shows "ipv6_groups groups ell (digits_of 16 g @ CHR '':'' # rest) = ipv6_groups (groups @ [g]) ell rest"
proof -
  obtain n where n: "0 < n" "n \<le> 4" "hex_run 0 0 (digits_of 16 g @ CHR '':'' # rest) = (g, n, CHR '':'' # rest)"
    using group_read [of g "CHR '':'' # rest"] assms(1) by (auto simp: group_ok_def hex_value_sep)
  then show ?thesis using assms(2-4) by (subst ipv6_groups.simps) (simp add: Let_def)
qed

lemma ipv6_groups_join:
  assumes "gs \<noteq> []" "list_all group_ok gs" "length groups + length gs \<le> 8"
  shows "ipv6_groups groups ell (hex_join gs) = Some (groups @ gs, ell, [])"
  using assms
proof (induction gs arbitrary: groups)
  case (Cons g gs)
  show ?case
  proof (cases gs)
    case Nil
    then show ?thesis using Cons.prems ipv6_groups_last by simp
  next
    case (Cons h t)
    then obtain c s where "hex_join gs = c # s" "c \<noteq> CHR '':''"
      using hex_join_head [of h t] \<open>list_all group_ok (g # gs)\<close> by (auto simp: group_ok_def)
    then show ?thesis
      using Cons Cons.prems ipv6_groups_step [of g groups "hex_join gs"] Cons.IH [of "groups @ [g]"] by (simp add: hex_join_Cons)
  qed
qed simp

lemma ipv6_groups_ellipsis:
  assumes "gs \<noteq> []" "list_all group_ok (gs @ hs)" "length groups + length gs + length hs < 8"
  shows "ipv6_groups groups None (hex_join gs @ ''::'' @ hex_join hs) =
    Some (groups @ gs @ hs, Some (length groups + length gs), [])"
  using assms
proof (induction gs arbitrary: groups)
  case (Cons g gs)
  show ?case
  proof (cases gs)
    case Nil
    have g: "group_ok g" and hs: "list_all group_ok hs" using Cons.prems by auto
    let ?more = "CHR '':'' # hex_join hs"
    obtain n where n: "0 < n" "n \<le> 4" "hex_run 0 0 (digits_of 16 g @ CHR '':'' # ?more) = (g, n, CHR '':'' # ?more)"
      using group_read [of g "CHR '':'' # ?more"] g by (auto simp: group_ok_def hex_value_sep)
    have step: "ipv6_groups groups None (digits_of 16 g @ CHR '':'' # ?more) =
      (if hex_join hs = [] then Some (groups @ [g], Some (Suc (length groups)), [])
       else ipv6_groups (groups @ [g]) (Some (Suc (length groups))) (hex_join hs))"
      using n Cons.prems(3) by (subst ipv6_groups.simps) (simp add: Let_def)
    show ?thesis
    proof (cases hs)
      case (Cons h t)
      then have "hex_join hs \<noteq> []" using hex_join_head [of h t] hs by (auto simp: group_ok_def)
      then show ?thesis
        using step Nil Cons hs \<open>length groups + length (g # gs) + length hs < 8\<close> ipv6_groups_join [of hs "groups @ [g]"]
        by (simp add: hex_join_def)
    qed (use step Nil in \<open>simp add: hex_join_def\<close>)
  next
    case (Cons h t)
    then obtain c s where "hex_join gs = c # s" "c \<noteq> CHR '':''"
      using hex_join_head [of h t] \<open>list_all group_ok ((g # gs) @ hs)\<close> by (auto simp: group_ok_def)
    then show ?thesis
      using Cons Cons.prems ipv6_groups_step [of g groups "hex_join gs @ ''::'' @ hex_join hs"] Cons.IH [of "groups @ [g]"]
      by (simp add: hex_join_Cons)
  qed
qed simp

subsection \<open>The run of zeros\<close>

lemma zero_run_from_take: "zero_run_from gs \<le> length gs \<and> take (zero_run_from gs) gs = replicate (zero_run_from gs) 0"
  by (induction gs) auto

lemma zero_run_ok:
  assumes "length gs = 8" "zero_run gs = (st, len)"
  shows "len = 0 \<or> 2 \<le> len \<and> st + len \<le> 8 \<and> gs = take st gs @ replicate len 0 @ drop (st + len) gs"
proof -
  let ?ok = "\<lambda>(st, len). len = 0 \<or> 2 \<le> len \<and> st + len \<le> 8 \<and> take len (drop st gs) = replicate len 0"
  let ?f = "\<lambda>(st, len) i. let l = zero_run_from (drop i gs) in if l \<ge> 2 \<and> l > len then (i, l) else (st, len)"
  have step: "?ok (?f acc i)" if "?ok acc" "i < 8" for acc i
    using that assms(1) zero_run_from_take [of "drop i gs"] by (cases acc) (auto simp: Let_def)
  have "?ok (foldl ?f acc is)" if "?ok acc" "\<forall>i \<in> set is. i < 8" for acc "is"
    using that
  proof (induction "is" arbitrary: acc)
    case (Cons i "is")
    then have "?ok (?f acc i)" using step by simp
    from Cons.IH [OF this] Cons.prems(2) show ?case by (simp del: split_paired_All)
  qed simp
  from this [of "(8, 0)" "[0..<8]"] have "?ok (zero_run gs)" unfolding zero_run_def by simp
  then have ok: "len = 0 \<or> 2 \<le> len \<and> st + len \<le> 8 \<and> take len (drop st gs) = replicate len 0" unfolding assms(2) by simp
  have "gs = take st gs @ take len (drop st gs) @ drop (st + len) gs" by (simp add: add.commute flip: drop_drop)
  with ok show ?thesis by metis
qed

subsection \<open>Round trip\<close>

definition ip_range :: "ip_addr \<Rightarrow> bool" where
  "ip_range ip \<longleftrightarrow> 0 \<le> ip \<and> ip < 65536 ^ 8"

lemma groups_prefix:
  assumes "ip_range ip" "n \<le> 8"
  shows "groups_value (map (group_at ip) [0..<n]) = ip div 65536 ^ (8 - n)"
  using assms(2)
proof (induction n)
  case 0
  have "ip div 65536 ^ 8 = 0" using assms(1) unfolding ip_range_def by (intro div_pos_pos_trivial) auto
  then show ?case by (simp add: groups_value_def)
next
  case (Suc n)
  let ?x = "ip div 65536 ^ (7 - n)"
  have "8 - n = Suc (7 - n)" using Suc.prems by simp
  then have e: "(65536 :: int) ^ (8 - n) = 65536 ^ (7 - n) * 65536" by (simp only: power_Suc2)
  have "groups_value (map (group_at ip) [0..<Suc n]) = groups_value (map (group_at ip) [0..<n]) * 65536 + group_at ip n"
    by (simp add: groups_value_def)
  also have "\<dots> = ip div 65536 ^ (8 - n) * 65536 + ?x mod 65536" using Suc by (simp add: group_at_def [of ip n])
  also have "ip div 65536 ^ (8 - n) = ?x div 65536" unfolding e by (rule zdiv_zmult2_eq) simp
  finally show ?case using div_mult_mod_eq [of ?x 65536] by simp
qed

lemma groups_value_groups: "ip_range ip \<Longrightarrow> groups_value (map (group_at ip) [0..<8]) = ip"
  using groups_prefix [of ip 8] by simp

lemma ip_groups_ok: "list_all group_ok (map (group_at ip) ns)"
  by (auto simp: list_all_iff group_ok_def group_at_def)

lemma find_colon:
  assumes "CHR '':'' \<in> set s" "set s \<subseteq> set (hex_digits @ '':'')"
  shows "find (\<lambda>c. c = CHR ''.'' \<or> c = CHR '':'' \<or> c = CHR ''%'') s = Some (CHR '':'') \<and> CHR ''%'' \<notin> set s"
proof -
  have "list_all (\<lambda>c. c \<noteq> CHR ''.'' \<and> c \<noteq> CHR ''%'') (hex_digits @ '':'')" by code_simp
  then have no: "c \<noteq> CHR ''.'' \<and> c \<noteq> CHR ''%''" if "c \<in> set s" for c using that assms(2) unfolding list_all_iff by blast
  then have "find (\<lambda>c. c = CHR ''.'' \<or> c = CHR '':'' \<or> c = CHR ''%'') s = Some (CHR '':'')"
    using assms(1) by (intro find_unique) auto
  then show ?thesis using no by blast
qed

lemma not_lead: "0 \<le> g \<Longrightarrow> \<not> has_prefix (hex_join (g # gs) @ s) ''::''"
  using hex_join_head [of g gs] by (auto simp: has_prefix_def)

lemma parse_ipv6_join:
  assumes "length gs = 8" "list_all group_ok gs" "CHR ''%'' \<notin> set (hex_join gs)"
  shows "parse_ipv6 (hex_join gs) = Some (groups_value gs)"
proof -
  obtain g t where g: "gs = g # t" using assms(1) by (cases gs) auto
  have "\<not> has_prefix (hex_join gs) ''::''" using not_lead [of g t "[]"] assms(2) g by (simp add: group_ok_def)
  then show ?thesis
    using ipv6_groups_join [of gs "[]" None] assms g unfolding parse_ipv6_def by (simp add: Let_def)
qed

lemma parse_ipv6_ellipsis:
  assumes "length gs + length hs < 8" "list_all group_ok (gs @ hs)" "CHR ''%'' \<notin> set (hex_join gs @ ''::'' @ hex_join hs)"
  shows "parse_ipv6 (hex_join gs @ ''::'' @ hex_join hs) =
    Some (groups_value (gs @ replicate (8 - length (gs @ hs)) 0 @ hs))"
proof (cases gs)
  case Nil
  let ?s = "''::'' @ hex_join hs"
  have lead: "has_prefix ?s ''::''" "drop 2 ?s = hex_join hs" by (simp_all add: has_prefix_def)
  have run: "hs \<noteq> [] \<Longrightarrow> ipv6_groups [] (Some 0) (hex_join hs) = Some (hs, Some 0, [])"
    using ipv6_groups_join [of hs "[]" "Some 0"] assms by simp
  have join: "hex_join hs = [] \<longleftrightarrow> hs = []"
    using hex_join_head [of "hd hs" "tl hs"] assms(2) by (cases hs) (auto simp: hex_join_def group_ok_def)
  have "parse_ipv6 ?s = Some (groups_value (replicate (8 - length hs) 0 @ hs))"
  proof (cases hs)
    case Nil
    have "groups_value (replicate 8 0) = 0" by code_simp
    moreover have "parse_ipv6 ''::'' = Some 0" by code_simp
    ultimately show ?thesis using Nil by (simp add: hex_join_def)
  next
    case (Cons h t)
    then show ?thesis
      using run join lead assms \<open>gs = []\<close> unfolding parse_ipv6_def Let_def by (simp add: hex_join_def [of "[]"])
  qed
  then show ?thesis using Nil by (simp add: hex_join_def [of "[]"])
next
  case (Cons g t)
  then have "\<not> has_prefix (hex_join gs @ ''::'' @ hex_join hs) ''::''" using not_lead [of g t] assms(2) by (simp add: group_ok_def)
  then show ?thesis
    using ipv6_groups_ellipsis [of gs hs "[]"] assms Cons unfolding parse_ipv6_def by (simp add: Let_def)
qed

lemma v6_colon:
  assumes "\<not> is_v4 ip"
  shows "CHR '':'' \<in> set (ip_string ip)"
proof -
  let ?gs = "map (group_at ip) [0..<8]"
  obtain st n where z: "zero_run ?gs = (st, n)" by (cases "zero_run ?gs")
  have "CHR '':'' \<in> set (hex_join ?gs)" unfolding hex_join_def
    using join_with_sep_in [of "map (digits_of 16) ?gs" "'':''"] by (simp del: upt_Suc)
  then show ?thesis using assms z by (simp add: ip_string_def Let_def)
qed

lemma parse_ipv6_roundtrip:
  assumes "\<not> is_v4 ip" "ip_range ip"
  shows "parse_ip (ip_string ip) = Some ip"
proof -
  let ?gs = "map (group_at ip) [0..<8]"
  have len: "length ?gs = 8" by simp
  have gs: "list_all group_ok ?gs" by (rule ip_groups_ok)
  obtain st n where z: "zero_run ?gs = (st, n)" by (cases "zero_run ?gs")
  let ?a = "take st ?gs" and ?b = "drop (st + n) ?gs"
  have s: "ip_string ip = (if n = 0 then hex_join ?gs else hex_join ?a @ ''::'' @ hex_join ?b)"
    using assms(1) z by (simp add: ip_string_def Let_def)
  note colon = v6_colon [OF assms(1)]
  note f = find_colon [OF colon ip_string_v6(1) [OF assms(1)]]
  have "parse_ipv6 (ip_string ip) = Some (groups_value ?gs)"
  proof (cases "n = 0")
    case True
    then show ?thesis using f gs s parse_ipv6_join [OF len gs] by simp
  next
    case False
    with zero_run_ok [OF len z] have n: "2 \<le> n" "st + n \<le> 8" "?gs = ?a @ replicate n 0 @ ?b" by auto
    have la: "length ?a = st" "length ?b = 8 - (st + n)" using n(2) unfolding length_take length_drop len by simp_all
    have ok: "list_all group_ok (?a @ ?b)" using gs unfolding list_all_append
      by (meson in_set_dropD in_set_takeD list_all_iff)
    have k: "8 - length (?a @ ?b) = n" using n(2) la unfolding length_append by simp
    have lt: "length ?a + length ?b < 8" using la n by simp
    have s': "ip_string ip = hex_join ?a @ ''::'' @ hex_join ?b" using False s by simp
    have "CHR ''%'' \<notin> set (hex_join ?a @ ''::'' @ hex_join ?b)" using f unfolding s' by blast
    from parse_ipv6_ellipsis [OF lt ok this] show ?thesis unfolding s' k n(3) [symmetric] .
  qed
  then show ?thesis using f groups_value_groups [OF assms(2)] by (simp add: parse_ip_def)
qed

lemma parse_ip_string: "ip_range ip \<Longrightarrow> parse_ip (ip_string ip) = Some ip"
  using parse_ipv4_roundtrip parse_ipv6_roundtrip by blast

section \<open>Parsed addresses and networks\<close>

lemma digit_value_bounds: "is_digit c \<Longrightarrow> 0 \<le> digit_value c \<and> digit_value c \<le> 9"
proof -
  assume "is_digit c"
  then have "48 \<le> int (of_char c) \<and> int (of_char c) \<le> 57" unfolding is_digit_def Let_def by linarith
  then show ?thesis unfolding digit_value_def of_nat_of_char by simp
qed

lemma decimal_value_nonneg: "list_all is_digit s \<Longrightarrow> 0 \<le> decimal_value s"
  by (induction s rule: rev_induct) (use digit_value_bounds in \<open>auto simp: decimal_value_snoc decimal_value_def [of "[]"]\<close>)

lemma parse_octet_bounds: "parse_octet s = Some v \<Longrightarrow> 0 \<le> v \<and> v \<le> 255"
  using decimal_value_nonneg [of s] by (auto simp: parse_octet_def Let_def split: if_splits)

lemma parse_ipv4_fields_bounds:
  assumes "parse_ipv4_fields s = Some v"
  shows "0 \<le> v \<and> v < 4294967296"
proof -
  obtain a b c d where ws: "map parse_octet (split_on (CHR ''.'') s) = [Some a, Some b, Some c, Some d]"
    and v: "v = ((a * 256 + b) * 256 + c) * 256 + d"
    using assms by (auto simp: parse_ipv4_fields_def split: list.splits option.splits)
  have "Some x \<in> set (map parse_octet (split_on (CHR ''.'') s)) \<Longrightarrow> 0 \<le> x \<and> x \<le> 255" for x
    using parse_octet_bounds by (metis (no_types, lifting) ex_map_conv)
  from this [unfolded ws] have "0 \<le> x \<and> x \<le> 255" if "x \<in> {a, b, c, d}" for x using that by auto
  from this [of a] this [of b] this [of c] this [of d] show ?thesis unfolding v by simp
qed

lemma hex_value_bounds: "hex_value c = Some v \<Longrightarrow> 0 \<le> v \<and> v < 16"
  by (auto simp: hex_value_def Let_def split: if_splits)

lemma hex_run_bounds: "hex_run acc n s = (v, k, rest) \<Longrightarrow> 0 \<le> acc \<Longrightarrow> acc < 16 ^ n \<Longrightarrow> 0 \<le> v \<and> v < 16 ^ k"
proof (induction acc n s rule: hex_run.induct)
  case (2 acc n c s)
  show ?case
  proof (cases "hex_value c")
    case (Some x)
    then have "0 \<le> acc * 16 + x" "acc * 16 + x < 16 ^ Suc n" using hex_value_bounds [OF Some] 2(3,4) by simp_all
    with 2(1) [OF Some] 2(2) Some show ?thesis by simp
  qed (use 2 in simp)
qed simp

lemma ipv6_groups_ok:
  "ipv6_groups groups ell s = Some (gs, e, rest) \<Longrightarrow> list_all group_ok groups \<Longrightarrow> length groups \<le> 8
     \<Longrightarrow> list_all group_ok gs \<and> length gs \<le> 8"
proof (induction groups ell s rule: ipv6_groups.induct)
  case (1 groups ell s)
  obtain acc off r where run: "hex_run 0 0 s = (acc, off, r)" by (metis prod_cases3)
  show ?case
  proof (cases "length groups \<ge> 8 \<or> off = 0 \<or> off > 4")
    case True
    then show ?thesis using 1(3-5) run by (auto simp: ipv6_groups.simps [of groups] split: if_splits)
  next
    case False
    have "acc < 16 ^ off" "0 \<le> acc" using hex_run_bounds [OF run] by auto
    moreover have "(16 :: int) ^ off \<le> 16 ^ 4" using False by (intro power_increasing) auto
    ultimately have acc: "group_ok acc" by (simp add: group_ok_def)
    have v4: "group_ok (v div 65536) \<and> group_ok (v mod 65536)" if "parse_ipv4_fields s = Some v" for v
      using parse_ipv4_fields_bounds [OF that] by (auto simp: group_ok_def)
    note step = 1(3) [unfolded ipv6_groups.simps [of groups]]
    show ?thesis
    proof (cases "r \<noteq> [] \<and> hd r = CHR ''.''")
      case True
      then show ?thesis using step False run 1(4) v4 by (auto simp: Let_def split: if_splits option.splits)
    next
      case dot: False
      show ?thesis
      proof (cases r)
        case Nil
        then show ?thesis using step False run 1(4) acc by (auto simp: Let_def)
      next
        case (Cons c m)
        note ih = 1(1,2) [OF _ run [symmetric] refl refl _ dot refl Cons]
        show ?thesis using step False run 1(4) acc dot Cons ih by (auto simp: Let_def split: if_splits)
      qed
    qed
  qed
qed

lemma groups_value_bounds: "list_all group_ok gs \<Longrightarrow> 0 \<le> groups_value gs \<and> groups_value gs < 65536 ^ length gs"
proof (induction gs rule: rev_induct)
  case (snoc g gs)
  then have ih: "0 \<le> groups_value gs" "groups_value gs + 1 \<le> 65536 ^ length gs" and g: "0 \<le> g" "g < 65536"
    by (auto simp: group_ok_def)
  have v: "groups_value (gs @ [g]) = groups_value gs * 65536 + g" by (simp add: groups_value_def)
  have "(groups_value gs + 1) * 65536 \<le> 65536 ^ length gs * 65536" using ih(2) by (intro mult_right_mono) auto
  then show ?case unfolding v using ih g by (simp add: mult.commute)
qed (simp add: groups_value_def)

lemma parse_ip_range:
  assumes "parse_ip s = Some ip"
  shows "ip_range ip"
proof -
  have v4: "ip_range (v4_prefix + v)" if "parse_ipv4_fields s = Some v" for v
    using parse_ipv4_fields_bounds [OF that] by (simp add: ip_range_def v4_prefix_def)
  have v6: "ip_range ip" if p: "parse_ipv6 s = Some ip"
  proof (cases "has_prefix s ''::'' \<and> drop 2 s = []")
    case True
    with p show ?thesis by (auto simp: parse_ipv6_def ip_range_def split: if_splits)
  next
    case False
    with p obtain ell t gs e where run: "ipv6_groups [] ell t = Some (gs, e, [])"
      and ip: "ip = groups_value gs \<and> length gs = 8 \<or>
        (\<exists>k. ip = groups_value (take k gs @ replicate (8 - length gs) 0 @ drop k gs) \<and> length gs < 8)"
      using ipv6_groups_ok [of "[]"]
      by (auto simp: parse_ipv6_def Let_def split: if_splits option.splits) (metis le_antisym not_less)+
    have gs: "list_all group_ok gs" using ipv6_groups_ok [OF run] by simp
    have z: "list_all group_ok (take k gs @ replicate (8 - length gs) 0 @ drop k gs)" for k
      using gs unfolding list_all_append
      by (auto simp: list_all_iff group_ok_def dest: in_set_takeD in_set_dropD)
    have l: "length (take k gs @ replicate (8 - length gs) 0 @ drop k gs) = 8" if "length gs < 8" for k using that by auto
    show ?thesis
      using ip groups_value_bounds [OF gs] groups_value_bounds [OF z] l unfolding ip_range_def by metis
  qed
  show ?thesis using assms v4 v6 by (auto simp: parse_ip_def split: option.splits if_splits)
qed

text \<open>Masking keeps the range and the family.\<close>

lemma mask_ip_range: "ip_range ip \<Longrightarrow> ip_range (mask_ip b ip)"
proof -
  assume r: "ip_range ip"
  let ?k = "2 ^ (128 - b) :: int"
  have "0 \<le> ip mod ?k" by (rule pos_mod_sign) simp
  then have "mask_ip b ip \<le> ip" using div_mult_mod_eq [of ip ?k] unfolding mask_ip_def by linarith
  moreover have "0 \<le> mask_ip b ip" using r unfolding mask_ip_def ip_range_def
    by (intro mult_nonneg_nonneg) (simp_all add: pos_imp_zdiv_nonneg_iff)
  ultimately show ?thesis using r unfolding ip_range_def by linarith
qed

lemma mask_ip_v4:
  assumes "96 \<le> b" "b \<le> 128"
  shows "is_v4 (mask_ip b ip) = is_v4 ip"
proof -
  have e: "(2 :: int) ^ 32 = 2 ^ (128 - b) * 2 ^ (32 - (128 - b))" using assms by (simp flip: power_add)
  have "mask_ip b ip div 2 ^ 32 = ip div 2 ^ (128 - b) div 2 ^ (32 - (128 - b))"
    unfolding mask_ip_def e by (simp add: mult.commute)
  also have "\<dots> = ip div 2 ^ 32" unfolding e by (rule zdiv_zmult2_eq [symmetric]) simp
  finally show ?thesis unfolding is_v4_def by simp
qed

lemma mask_ip_short:
  assumes "b < 96"
  shows "\<not> is_v4 (mask_ip b ip)"
proof -
  have "128 - b = Suc (95 - b) + 32" using assms by simp
  then have e: "(2 :: int) ^ (128 - b) = 2 * 2 ^ (95 - b) * 2 ^ 32" by (simp only: power_add power_Suc)
  have "mask_ip b ip = 2 * (ip div 2 ^ (128 - b) * 2 ^ (95 - b)) * 2 ^ 32" unfolding mask_ip_def by (simp add: e)
  then have "mask_ip b ip div 2 ^ 32 = 2 * (ip div 2 ^ (128 - b) * 2 ^ (95 - b))" by simp
  then have "even (mask_ip b ip div 2 ^ 32)" by simp
  then show ?thesis unfolding is_v4_def by (metis odd_numeral)
qed

lemma ip_string_colon: "CHR '':'' \<in> set (ip_string ip) \<longleftrightarrow> \<not> is_v4 ip"
proof
  assume c: "CHR '':'' \<in> set (ip_string ip)"
  have "list_all (\<lambda>c. c \<noteq> CHR '':'') (hex_digits @ ''.'')" by code_simp
  then show "\<not> is_v4 ip" using c ip_string_v4(1) [of ip] unfolding list_all_iff by blast
next
  assume "\<not> is_v4 ip"
  then show "CHR '':'' \<in> set (ip_string ip)" by (rule v6_colon)
qed

lemma div_eq: "(q::int) * d \<le> x \<Longrightarrow> x < (q + 1) * d \<Longrightarrow> x div d = q"
  by (rule int_div_pos_eq [where r = "x - q * d"]) (simp_all add: algebra_simps)

lemma parse_ip_no_colon:
  assumes "parse_ip s = Some ip" "CHR '':'' \<notin> set s"
  shows "is_v4 ip"
proof -
  obtain v where v: "parse_ipv4_fields s = Some v" "ip = v4_prefix + v"
    using assms by (auto simp: parse_ip_def find_Some_iff split: option.splits if_splits) (metis nth_mem)
  have "(v4_prefix + v) div 4294967296 = 65535" using parse_ipv4_fields_bounds [OF v(1)]
    unfolding v4_prefix_def by (intro div_eq) simp_all
  then show ?thesis unfolding is_v4_def v(2) by simp
qed

lemma cut_append: "c \<notin> set a \<Longrightarrow> cut c (a @ c # b) = (a, Some b)"
  by (induction a) auto

lemma parse_cidr_print:
  assumes "ip_range ip" "0 \<le> k" "k \<le> (if is_v4 ip then 32 else 128)"
  shows "parse_cidr (ip_string ip @ ''/'' @ itoa k) =
    (let b = (if is_v4 ip then 96 + nat k else nat k) in Some \<lparr>net_ip = mask_ip b ip, net_bits = b\<rparr>)"
proof -
  have "list_all (\<lambda>c. c \<noteq> CHR ''/'') (hex_digits @ ''.:'')" by code_simp
  moreover have "set (ip_string ip) \<subseteq> set (hex_digits @ ''.:'')"
    using ip_string_v4(1) [of ip] ip_string_v6(1) [of ip] unfolding set_append by (cases "is_v4 ip") auto
  ultimately have "CHR ''/'' \<notin> set (ip_string ip)" unfolding list_all_iff by blast
  then have c: "cut (CHR ''/'') (ip_string ip @ ''/'' @ s) = (ip_string ip, Some s)" for s by (simp add: cut_append)
  have d: "itoa k = digits_of 10 k" using assms(2) by (simp add: itoa_def)
  show ?thesis
    unfolding parse_cidr_def c prod.case option.case parse_ip_string [OF assms(1)] d ip_string_colon
    using decimal_digits [OF assms(2)] assms(3) by (auto simp: Let_def)
qed

end
