(* ===== verification/Config_Rules_Correct.thy ===== *)
theory Config_Rules_Correct
  imports Config_Rules Ip_Text Client_IP
begin

text \<open>
  What the shared rules guarantee: an accepted credential is printable, accepted networks are stored as canonical
  text that is read back unchanged, and tokens have no white space.
\<close>

section \<open>Errors, tokens and credentials\<close>

lemma check_Nil [simp]: "check b m as = [] \<longleftrightarrow> \<not> b" "[] = check b m as \<longleftrightarrow> \<not> b"
  by (auto simp: check_def)

lemma token_plain: "is_token_char c \<Longrightarrow> plain_char c"
proof -
  have "list_all plain_char (''!#$%&*+-.^_|~'' @ [CHR 0x27, CHR 0x60])" by code_simp
  then have "c \<in> set ''!#$%&*+-.^_|~'' \<or> c = CHR 0x27 \<or> c = CHR 0x60 \<Longrightarrow> plain_char c" unfolding list_all_iff set_append by auto
  then show "is_token_char c \<Longrightarrow> ?thesis" using letter_plain [of c] unfolding is_token_char_def by blast
qed

lemma token_trim: "valid_http_token s \<Longrightarrow> trim_space s = s"
  using token_plain by (intro trim_space_plain) (auto simp: valid_http_token_def list_all_iff)

lemma concat_runes: "concat (runes_of s) = s"
proof (induction s rule: runes_of.induct)
  case (1 s)
  show ?case
  proof (cases "s = []")
    case False
    then have "runes_of s = take (max 1 (rune_width s)) s # runes_of (drop (max 1 (rune_width s)) s)"
      by (subst runes_of.simps) (simp add: Let_def)
    with 1 False show ?thesis by simp
  qed (simp add: runes_of.simps [of "[]"])
qed

lemma credential_printable:
  assumes "validate_bearer_credential f v = []"
  shows "list_all (byte_in 0x21 0x7E) v \<and> length v \<le> 8192 \<and> v \<noteq> ''[REDACTED]''"
proof -
  have all: "\<not> list_ex (\<lambda>r. case r of [c] \<Rightarrow> \<not> byte_in 0x21 0x7E c | _ \<Rightarrow> True) (runes_of v)"
    using assms unfolding validate_bearer_credential_def by (simp split: if_split_asm)
  have "list_all (byte_in 0x21 0x7E) r" if "r \<in> set (runes_of v)" for r
  proof -
    have "\<not> (case r of [c] \<Rightarrow> \<not> byte_in 0x21 0x7E c | _ \<Rightarrow> True)" using all that unfolding list_ex_iff by blast
    then show ?thesis by (cases r rule: remdups_adj.cases) simp_all
  qed
  then have "list_all (byte_in 0x21 0x7E) (concat (runes_of v))" by (auto simp: list_all_iff)
  moreover have "length v \<le> 8192" "v \<noteq> ''[REDACTED]''"
    using assms unfolding validate_bearer_credential_def by (simp_all split: if_split_asm)
  ultimately show ?thesis unfolding concat_runes by blast
qed

section \<open>Trusted networks\<close>

lemma parse_cidr_bits:
  assumes "parse_cidr s = Some n"
  obtains ip where "net_ip n = mask_ip (net_bits n) ip" "ip_range ip" "net_bits n \<le> 128"
    "is_v4 (net_ip n) \<longleftrightarrow> 96 \<le> net_bits n \<and> is_v4 ip" "n = \<lparr>net_ip = net_ip n, net_bits = net_bits n\<rparr>"
proof -
  obtain addr bits where c: "cut (CHR ''/'') s = (addr, Some bits)" using assms
    by (auto simp: parse_cidr_def split: prod.splits option.splits)
  then obtain ip where ip: "parse_ip addr = Some ip" "list_all is_digit bits" using assms
    by (auto simp: parse_cidr_def split: option.splits if_splits)
  let ?b = "if CHR '':'' \<notin> set addr then 96 + nat (decimal_value bits) else nat (decimal_value bits)"
  have n: "n = \<lparr>net_ip = mask_ip ?b ip, net_bits = ?b\<rparr>" and b: "?b \<le> 128"
    using assms c ip by (auto simp: parse_cidr_def Let_def split: if_splits)
  have v4: "is_v4 (mask_ip b ip) \<longleftrightarrow> 96 \<le> b \<and> is_v4 ip" if "b \<le> 128" for b
    using mask_ip_v4 [of b ip] mask_ip_short [of b ip] that by (cases "96 \<le> b") auto
  show thesis by (rule that [of ip]) (use n b v4 [OF b] parse_ip_range [OF ip(1)] in \<open>simp_all\<close>)
qed

lemma net_string_parse:
  assumes "parse_cidr s = Some n"
  shows "parse_cidr (net_string n) = Some n"
proof -
  obtain ip where ip: "net_ip n = mask_ip (net_bits n) ip" "ip_range ip" "net_bits n \<le> 128"
    "is_v4 (net_ip n) \<longleftrightarrow> 96 \<le> net_bits n \<and> is_v4 ip" "n = \<lparr>net_ip = net_ip n, net_bits = net_bits n\<rparr>"
    by (rule parse_cidr_bits [OF assms])
  let ?k = "int (net_bits n) - (if is_v4 (net_ip n) then 96 else 0)"
  have r: "ip_range (net_ip n)" unfolding ip(1) by (rule mask_ip_range [OF ip(2)])
  have k: "0 \<le> ?k" "?k \<le> (if is_v4 (net_ip n) then 32 else 128)" using ip(3,4) by auto
  have b: "(if is_v4 (net_ip n) then 96 + nat ?k else nat ?k) = net_bits n" using ip(4) by auto
  have "mask_ip (net_bits n) (net_ip n) = net_ip n" unfolding ip(1) by (rule mask_ip_idem)
  then show ?thesis unfolding net_string_def parse_cidr_print [OF r k] b Let_def using ip(5) by simp
qed

lemma net_string_plain: "trim_space (net_string n) = net_string n"
proof -
  have dec: "set (itoa k) \<subseteq> set (hex_digits @ ''-'') \<and> itoa k \<noteq> []" for k
    using digits_of_chars [of "\<bar>k\<bar>" 10] unfolding set_append by (auto simp: itoa_def)
  have ip: "set (ip_string (net_ip n)) \<subseteq> set (hex_digits @ ''.:'') \<and> ip_string (net_ip n) \<noteq> []"
    using ip_string_v4(1,2) [of "net_ip n"] ip_string_v6(1,2) [of "net_ip n"] unfolding set_append by (cases "is_v4 (net_ip n)") auto
  have all: "list_all plain_char (hex_digits @ ''.:-'')" by code_simp
  have p: "plain_char c" if "c \<in> set (hex_digits @ ''.:'') \<union> set (hex_digits @ ''-'')" for c
  proof -
    have "c \<in> set (hex_digits @ ''.:-'')" using that by auto
    with all show ?thesis unfolding list_all_iff by blast
  qed
  define k where "k = itoa (int (net_bits n) - (if is_v4 (net_ip n) then 96 else 0))"
  have k: "set k \<subseteq> set (hex_digits @ ''-'')" "k \<noteq> []" using dec unfolding k_def by blast+
  have s: "net_string n = ip_string (net_ip n) @ ''/'' @ k" by (simp add: net_string_def k_def)
  have "last (net_string n) = last k" "hd (net_string n) = hd (ip_string (net_ip n))" "net_string n \<noteq> []"
    using k(2) ip unfolding s by simp_all
  moreover have "plain_char (last k)" using k last_in_set [OF k(2)] by (intro p) blast
  moreover have "plain_char (hd (ip_string (net_ip n)))" using ip hd_in_set [of "ip_string (net_ip n)"] by (intro p) blast
  ultimately show ?thesis by (intro trim_space_plain) simp_all
qed

lemma validate_trusted_canonical:
  assumes "validate_trusted raws acc = ([], trusted)" "parse_networks acc = Some ns" "map net_string ns = acc" "distinct acc"
  shows "\<exists>ns'. parse_networks trusted = Some ns' \<and> map net_string ns' = trusted \<and> distinct trusted \<and>
    length trusted \<le> length acc + length raws \<and> set acc \<subseteq> set trusted \<and>
    (\<forall>raw \<in> set raws. \<exists>n \<in> set ns'. parse_cidr (trim_space raw) = Some n)"
  using assms
proof (induction raws arbitrary: acc ns)
  case (Cons raw raws)
  obtain n where n: "parse_cidr (trim_space raw) = Some n" using Cons.prems(1) by (auto split: option.splits prod.splits)
  have inj: "m = m'" if "parse_cidr s = Some m" "parse_cidr s' = Some m'" "net_string m = net_string m'" for m m' s s'
    using net_string_parse [OF that(1)] net_string_parse [OF that(2)] unfolding that(3) by simp
  have app: "parse_networks (xs @ ys) = (case (parse_networks xs, parse_networks ys) of (Some a, Some b) \<Rightarrow> Some (a @ b) | _ \<Rightarrow> None)"
    for xs ys by (induction xs) (auto split: option.splits)
  have parsed: "\<exists>s. parse_cidr s = Some m" if "m \<in> set ms" "parse_networks xs = Some ms" for m ms xs
    using that by (induction xs arbitrary: ms) (auto split: option.splits)
  show ?case
  proof (cases "net_string n \<in> set acc")
    case True
    then have "validate_trusted raws acc = ([], trusted)" using Cons.prems(1) n by simp
    from Cons.IH [OF this Cons.prems(2-4)] obtain ns' where ih: "parse_networks trusted = Some ns'" "map net_string ns' = trusted"
      "distinct trusted" "length trusted \<le> length acc + length raws" "set acc \<subseteq> set trusted"
      "\<forall>raw \<in> set raws. \<exists>n \<in> set ns'. parse_cidr (trim_space raw) = Some n" by blast
    have "net_string n \<in> set (map net_string ns')" using True ih(2,5) by auto
    then obtain m where m: "m \<in> set ns'" "net_string m = net_string n" by auto
    from parsed [OF m(1) ih(1)] inj [OF n] m have "n \<in> set ns'" by metis
    then show ?thesis using ih n by auto
  next
    case False
    then have v: "validate_trusted raws (acc @ [net_string n]) = ([], trusted)" using Cons.prems(1) n by simp
    have "parse_networks (acc @ [net_string n]) = Some (ns @ [n])"
      using Cons.prems(2) net_string_parse [OF n] by (simp add: app net_string_plain)
    from Cons.IH [OF v this] Cons.prems(3,4) False obtain ns' where ih: "parse_networks trusted = Some ns'"
      "map net_string ns' = trusted" "distinct trusted" "length trusted \<le> Suc (length acc + length raws)"
      "set acc \<subseteq> set trusted" "net_string n \<in> set trusted" "\<forall>raw \<in> set raws. \<exists>n \<in> set ns'. parse_cidr (trim_space raw) = Some n" by auto
    have "net_string n \<in> set (map net_string ns')" using ih(2,6) by simp
    then obtain m where m: "m \<in> set ns'" "net_string m = net_string n" by auto
    from parsed [OF m(1) ih(1)] inj [OF n] m have "n \<in> set ns'" by metis
    then show ?thesis using ih n by auto
  qed
qed simp

lemma validate_trusted_fixed:
  "parse_networks ts = Some ns \<Longrightarrow> map net_string ns = ts \<Longrightarrow> distinct (acc @ ts) \<Longrightarrow> validate_trusted ts acc = ([], acc @ ts)"
proof (induction ts arbitrary: acc ns)
  case (Cons t ts)
  then obtain n ns' where n: "parse_cidr (trim_space t) = Some n" "parse_networks ts = Some ns'" "ns = n # ns'"
    by (auto split: option.splits)
  then show ?case using Cons.IH [of ns' "acc @ [t]"] Cons.prems by simp
qed simp

section \<open>Addresses have no slash\<close>

lemma split_on_mem: "c \<in> set s \<Longrightarrow> c \<noteq> sep \<Longrightarrow> \<exists>w \<in> set (split_on sep s). c \<in> set w"
  by (induction sep s rule: split_on.induct) (auto split: list.splits)

lemma parse_ipv4_no_slash: "parse_ipv4_fields s = Some v \<Longrightarrow> CHR ''/'' \<notin> set s"
proof
  assume "CHR ''/'' \<in> set s"
  then obtain w where w: "w \<in> set (split_on (CHR ''.'') s)" "CHR ''/'' \<in> set w" using split_on_mem [of _ s "CHR ''.''"] by auto
  then have "\<not> list_all is_digit w" by (force simp: list_all_iff is_digit_def Let_def)
  then have "None \<in> set (map parse_octet (split_on (CHR ''.'') s))" using w(1) by (force simp: parse_octet_def)
  moreover assume "parse_ipv4_fields s = Some v"
  ultimately show False by (auto simp: parse_ipv4_fields_def split: list.splits option.splits)
qed

lemma hex_run_slash: "hex_run acc n s = (v, k, rest) \<Longrightarrow> CHR ''/'' \<in> set s \<Longrightarrow> CHR ''/'' \<in> set rest"
  by (induction acc n s rule: hex_run.induct) (auto simp: hex_value_def split: option.splits if_split_asm)

lemma ipv6_groups_slash:
  "ipv6_groups groups ell s = Some (gs, e, rest) \<Longrightarrow> CHR ''/'' \<in> set s \<Longrightarrow> CHR ''/'' \<in> set rest"
proof (induction groups ell s rule: ipv6_groups.induct)
  case (1 groups ell s)
  obtain acc off r where run: "hex_run 0 0 s = (acc, off, r)" by (metis prod_cases3)
  have r: "CHR ''/'' \<in> set r" by (rule hex_run_slash [OF run "1.prems"(2)])
  show ?case
  proof (cases "length groups \<ge> 8 \<or> off = 0 \<or> off > 4 \<or> hd r = CHR ''.''")
    case True
    then show ?thesis using "1.prems" run r parse_ipv4_no_slash [of s]
      by (auto simp: ipv6_groups.simps [of groups] split: if_split_asm option.splits)
  next
    case False
    then obtain rest' where c: "r = CHR '':'' # rest'" "rest' \<noteq> []" using "1.prems" run r
      by (cases r) (auto simp: ipv6_groups.simps [of groups] Let_def split: if_split_asm)
    then have m: "CHR ''/'' \<in> set rest'" using r by auto
    show ?thesis
    proof (cases "hd rest' = CHR '':''")
      case True
      then have m2: "CHR ''/'' \<in> set (tl rest')" using m c(2) by (cases rest') auto
      then have "tl rest' \<noteq> []" by auto
      then show ?thesis using "1.IH"(1) [of "(acc, off, r)" acc "(off, r)" off r "groups @ [acc]"] "1.prems"(1) run c False True m2
        by (auto simp: ipv6_groups.simps [of groups] Let_def split: if_split_asm)
    next
      case False
      then show ?thesis using "1.IH"(2) [of "(acc, off, r)" acc "(off, r)" off r "groups @ [acc]"] "1.prems"(1) run c m
          \<open>\<not> (length groups \<ge> 8 \<or> off = 0 \<or> off > 4 \<or> hd r = CHR ''.'')\<close>
        by (auto simp: ipv6_groups.simps [of groups] Let_def)
    qed
  qed
qed

lemma parse_ip_no_slash: "parse_ip s = Some ip \<Longrightarrow> CHR ''/'' \<notin> set s"
proof
  assume p: "parse_ip s = Some ip" and m: "CHR ''/'' \<in> set s"
  have "parse_ipv4_fields s = None" using parse_ipv4_no_slash m by (cases "parse_ipv4_fields s") auto
  then have v6: "parse_ipv6 s = Some ip" using p by (auto simp: parse_ip_def split: option.splits if_split_asm)
  have "CHR ''/'' \<in> set (drop 2 s)" if "has_prefix s ''::''"
    using that m by (cases s rule: remdups_adj.cases) (auto simp: has_prefix_def)
  then show False using v6 m ipv6_groups_slash
    by (fastforce simp: parse_ipv6_def Let_def split: if_split_asm option.splits)
qed

lemma parse_ip_network: "parse_ip (net_string n) = None"
  using parse_ip_no_slash [of "net_string n"] by (cases "parse_ip (net_string n)") (auto simp: net_string_def)

end
