(* ===== verification/Edge_Config_Correct.thy ===== *)
theory Edge_Config_Correct
  imports Edge_Config Edge_Handler_Life Config_Rules_Correct
begin

text \<open>
  What an accepted EdgeProxy configuration guarantees: SecurityEdge loads the same route table from the same file,
  every limit the running proxy relies on holds, and accepted changes are not masked by the environment.
\<close>

section \<open>The same rules in both programs\<close>

lemma find_upt_None: "find P [0..<n] = None \<longleftrightarrow> (\<forall>i < n. \<not> P i)"
  by (auto simp: find_None_iff)

lemma host_label_ok: "host_label_error l = None \<longleftrightarrow> valid_label l"
proof (cases "l = [] \<or> length l > 63")
  case True
  then show ?thesis by (auto simp: host_label_error_def valid_label_def)
next
  case False
  then have l: "l \<noteq> []" "0 < length l" "length l \<le> 63" by auto
  let ?bad = "\<lambda>i. \<not> label_char (l ! i) \<and> l ! i \<noteq> CHR ''-'' \<or> (i = 0 \<or> i = length l - 1) \<and> \<not> label_char (l ! i)"
  have "host_label_error l = None \<longleftrightarrow> find ?bad [0..<length l] = None"
    using False by (simp add: host_label_error_def split: option.split)
  also have "\<dots> \<longleftrightarrow> (\<forall>i < length l. \<not> ?bad i)" by (rule find_upt_None)
  also have "\<dots> \<longleftrightarrow> valid_label l"
  proof
    assume ok: "\<forall>i < length l. \<not> ?bad i"
    have "length l - 1 < length l" using l(2) by simp
    then have "label_char (l ! (length l - 1))" "label_char (l ! 0)" using ok l(2) by blast+
    then show "valid_label l" using ok l by (auto simp: valid_label_def list_all_length hd_conv_nth last_conv_nth)
  next
    assume "valid_label l"
    then show "\<forall>i < length l. \<not> ?bad i"
      using l by (auto simp: valid_label_def list_all_length hd_conv_nth last_conv_nth intro: gr0I)
  qed
  finally show ?thesis .
qed

text \<open>The value of a result, if it is not an error.\<close>

fun ok_part :: "'e + 'a \<Rightarrow> 'a option" where
  "ok_part (Inl _) = None"
| "ok_part (Inr a) = Some a"

lemma ok_part_Some: "ok_part x = Some a \<longleftrightarrow> x = Inr a"
  by (cases x) auto

lemma config_exact_host_ok: "ok_part (config_exact_host v) = normalize_exact_route_host v"
proof (cases "find (\<lambda>l. host_label_error l \<noteq> None) (split_on (CHR ''.'') v)")
  case None
  then have "list_all valid_label (split_on (CHR ''.'') v)" by (auto simp: find_None_iff host_label_ok list_all_iff)
  with None show ?thesis
    by (simp add: config_exact_host_def normalize_exact_route_host_def split: option.split)
next
  case (Some l)
  then have "\<not> list_all valid_label (split_on (CHR ''.'') v)"
    by (auto simp: find_Some_iff list_all_length host_label_ok [symmetric])
  with Some show ?thesis
    by (simp add: config_exact_host_def normalize_exact_route_host_def split: option.split)
qed

lemma config_host_pattern_ok: "ok_part (config_host_pattern raw) = normalize_route_host_pattern raw"
proof -
  let ?v = "trim_suffix (to_lower (trim_space raw)) ''.''"
  show ?thesis
    unfolding config_host_pattern_def normalize_route_host_pattern_def Let_def config_exact_host_ok [symmetric]
    by (cases "config_exact_host (trim_prefix ?v ''*.'')") auto
qed

lemma config_path_prefix_ok: "ok_part (config_path_prefix raw) = normalize_path_prefix raw"
  by (auto simp: config_path_prefix_def normalize_absolute_path_def normalize_path_prefix_def Let_def
      split: option.splits)

lemma config_host_pattern_iff: "config_host_pattern raw = Inr h \<longleftrightarrow> normalize_route_host_pattern raw = Some h"
  by (simp add: config_host_pattern_ok [symmetric] ok_part_Some)

lemma config_path_prefix_iff: "config_path_prefix raw = Inr h \<longleftrightarrow> normalize_path_prefix raw = Some h"
  by (simp add: config_path_prefix_ok [symmetric] ok_part_Some)

section \<open>The route table\<close>

definition route_view :: "route_config \<Rightarrow> route" where
  "route_view r = \<lparr>rt_name = rf_name r, rt_hosts = rf_hosts r, rt_path_prefix = rf_prefix r\<rparr>"

lemma validate_hosts_load:
  assumes "validate_hosts name j seen raws = ([], hs)" "set seen = set acc"
  shows "load_hosts acc raws = Inr (acc @ hs) \<and> distinct hs \<and> set hs \<inter> set acc = {} \<and> list_all normal_host hs"
  using assms
proof (induction raws arbitrary: j seen hs acc)
  case (Cons raw raws)
  obtain host where host: "config_host_pattern raw = Inr host"
    using Cons.prems(1) by (cases "config_host_pattern raw") (auto split: prod.splits)
  with Cons.prems(1) obtain hs' where hs': "validate_hosts name (Suc j) (host # seen) raws = ([], hs')"
    "host \<notin> set seen" "hs = host # hs'" by (auto split: prod.splits)
  have n: "normalize_route_host_pattern raw = Some host" using host by (simp add: config_host_pattern_iff)
  have "set (host # seen) = set (acc @ [host])" using Cons.prems(2) by auto
  from Cons.IH [OF hs'(1) this] show ?case
    using n hs' Cons.prems(2) normalize_pattern_normal [OF n] by auto
qed simp

text \<open>The keys of the two selector maps correspond, because a normalised host has no NUL.\<close>

lemma selector_key_inj:
  assumes "CHR 0x00 \<notin> set h" "CHR 0x00 \<notin> set h'" "selector_key h p = selector_key h' p'"
  shows "h = h' \<and> p = p'"
  using assms unfolding selector_key_def by (metis append_sep_eq append_Cons append_Nil)

lemma exact_host_no_nul:
  assumes "normalize_exact_route_host v = Some h"
  shows "CHR 0x00 \<notin> set h"
proof -
  have ip: "CHR 0x00 \<notin> set (to_lower (ip_string ip))" for ip
  proof -
    have sub: "set (ip_string ip) \<subseteq> set (hex_digits @ '':.'')"
    proof (cases "is_v4 ip")
      case True
      from ip_string_v4(1) [OF this] show ?thesis unfolding set_append by auto
    next
      case False
      from ip_string_v6(1) [OF this] show ?thesis unfolding set_append by auto
    qed
    have "list_all (\<lambda>c. lower_char c \<noteq> CHR 0x00) (hex_digits @ '':.'')" by code_simp
    then have "\<forall>c \<in> set (ip_string ip). lower_char c \<noteq> CHR 0x00" using sub unfolding list_all_iff by blast
    then show ?thesis unfolding to_lower_def set_map by auto
  qed
  have labels: "CHR 0x00 \<notin> set v" if "list_all valid_label (split_on (CHR ''.'') v)"
  proof -
    have "CHR 0x00 \<notin> set l" if "valid_label l" for l
      using that by (auto simp: valid_label_def list_all_iff label_char_def is_lower_letter_def is_digit_def Let_def)
    then have "CHR 0x00 \<notin> (\<Union>w \<in> set (split_on (CHR ''.'') v). set w)" using that by (auto simp: list_all_iff)
    then show ?thesis using set_join_with [of "[CHR ''.'']" "split_on (CHR ''.'') v"] by (auto simp: join_split)
  qed
  show ?thesis using assms ip labels by (auto simp: normalize_exact_route_host_def split: if_splits option.splits)
qed

lemma host_no_nul:
  assumes "normalize_route_host_pattern raw = Some h"
  shows "CHR 0x00 \<notin> set h"
proof -
  let ?v = "trim_suffix (to_lower (trim_space raw)) ''.''"
  have "CHR 0x00 \<notin> set h" if "?v = ''*''" using assms that by (auto simp: normalize_route_host_pattern_def Let_def)
  then show ?thesis
    using assms exact_host_no_nul
    by (cases "?v = ''*''") (auto simp: normalize_route_host_pattern_def Let_def split: if_splits option.splits)
qed

lemma validate_hosts_no_nul: "validate_hosts name j seen raws = ([], hs) \<Longrightarrow> list_all (\<lambda>h. CHR 0x00 \<notin> set h) hs"
proof (induction raws arbitrary: j seen hs)
  case (Cons raw raws)
  then obtain host where host: "config_host_pattern raw = Inr host"
    by (cases "config_host_pattern raw") (auto split: prod.splits)
  then have "CHR 0x00 \<notin> set host" by (intro host_no_nul) (simp add: config_host_pattern_iff)
  then show ?case using Cons host by (auto split: prod.splits)
qed simp

definition owners_match :: "(string, string) gomap \<Rightarrow> (string \<times> string) list \<Rightarrow> bool" where
  "owners_match owners sel \<longleftrightarrow> (\<forall>h p. CHR 0x00 \<notin> set h \<longrightarrow> (gm_get owners (selector_key h p) \<noteq> None \<longleftrightarrow> (h, p) \<in> set sel))"

lemma claim_selectors_add:
  assumes "claim_selectors name pre hosts owners = ([], owners')" "owners_match owners sel" "distinct hosts"
    "list_all (\<lambda>h. CHR 0x00 \<notin> set h) hosts" "list_all normal_host hosts"
    "\<And>h. h \<in> set hosts \<Longrightarrow> gm_get owners (selector_key h pre) \<noteq> Some name"
  shows "\<exists>sel'. add_selectors hosts pre sel = Inr sel' \<and> owners_match owners' sel'"
  using assms
proof (induction hosts arbitrary: owners sel)
  case (Cons h hosts)
  have ne: "h \<noteq> []" and nul: "CHR 0x00 \<notin> set h" using Cons.prems by (auto simp: normal_host_def)
  have new: "gm_get owners (selector_key h pre) = None"
    using Cons.prems(1,6) ne by (fastforce split: option.splits if_splits prod.splits)
  then have notin: "(h, pre) \<notin> set sel" using Cons.prems(2) nul unfolding owners_match_def by blast
  let ?o = "gm_put (selector_key h pre) name owners"
  have run: "claim_selectors name pre hosts ?o = ([], owners')" using Cons.prems(1) ne new by simp
  have key: "selector_key x p = selector_key h pre \<longleftrightarrow> x = h \<and> p = pre" if "CHR 0x00 \<notin> set x" for x p
    using selector_key_inj [OF that nul] by auto
  have m: "owners_match ?o ((h, pre) # sel)"
    using Cons.prems(2) key by (auto simp: owners_match_def go_map_simps)
  have "gm_get ?o (selector_key x pre) \<noteq> Some name" if "x \<in> set hosts" for x
    using that Cons.prems(3,4,6) key by (auto simp: go_map_simps list_all_iff)
  from Cons.IH [OF run m _ _ _ this] Cons.prems(3-5) notin show ?case by simp
qed simp

text \<open>Owners are names of earlier routes, so a route of a new name never meets its own selector.\<close>

definition owned_by :: "(string, string) gomap \<Rightarrow> string list \<Rightarrow> bool" where
  "owned_by owners names \<longleftrightarrow> (\<forall>k n. gm_get owners k = Some n \<longrightarrow> to_lower n \<in> set names)"

lemma claim_selectors_owned:
  assumes "claim_selectors name pre hosts owners = (errs, owners')" "owned_by owners names" "to_lower name \<in> set names"
  shows "owned_by owners' names"
  using assms(1,2)
proof (induction hosts arbitrary: owners errs)
  case (Cons h hosts)
  have put: "owned_by (gm_put k name owners) names" for k
    using Cons.prems(2) assms(3) by (simp add: owned_by_def go_map_simps)
  obtain errs' where "claim_selectors name pre hosts owners = (errs', owners') \<or>
      claim_selectors name pre hosts (gm_put (selector_key h pre) name owners) = (errs', owners')"
    using Cons.prems(1) by (simp split: if_splits option.splits prod.splits) blast+
  then show ?case using Cons.IH Cons.prems(2) put by blast
qed simp

lemma route_name_ok:
  assumes "route_name_errors i name names = ([], names')"
  shows "name \<noteq> [] \<and> \<not> is_admin_path_dot_segment name \<and> length name \<le> 256 \<and> \<not> equal_fold name ''__unmatched__'' \<and>
    to_lower name \<notin> set names \<and> names' = to_lower name # names"
  using assms by (auto simp: route_name_errors_def split: if_splits)

text \<open>What an accepted route is, part by part.\<close>

lemma validate_route_ok:
  assumes "validate_route lib i r names owners = ([], r', names', owners')"
  obtains pre hosts origins cache health where "route_name_errors i (trim_space (rf_name r)) names = ([], names')"
    "rf_hosts r \<noteq> []" "length (rf_hosts r) \<le> 256" "validate_hosts (trim_space (rf_name r)) 0 [] (rf_hosts r) = ([], hosts)"
    "config_path_prefix (rf_prefix r) = Inr pre" "rf_upstreams r \<noteq> []" "length (rf_upstreams r) \<le> 256"
    "balancing_errors (trim_space (rf_name r)) (normalize_balancing (rf_balancing r)) = []"
    "claim_selectors (trim_space (rf_name r)) pre hosts owners = ([], owners')"
    "validate_origins lib (trim_space (rf_name r)) 0 [] [] (rf_upstreams r) = ([], origins)"
    "proxy_errors (trim_space (rf_name r)) (rf_proxy r) = []"
    "validate_cache (trim_space (rf_name r)) (rf_cache r) = ([], cache)"
    "validate_health (trim_space (rf_name r)) (rf_health r) = ([], health)"
    "r' = r\<lparr>rf_name := trim_space (rf_name r), rf_hosts := hosts, rf_prefix := pre,
       rf_balancing := normalize_balancing (rf_balancing r), rf_upstreams := origins, rf_cache := cache, rf_health := health\<rparr>"
proof -
  let ?name = "trim_space (rf_name r)"
  obtain e1 n1 e2 hosts e3 o1 e4 origins e5 cache e6 health where p:
    "route_name_errors i ?name names = (e1, n1)" "validate_hosts ?name 0 [] (take 256 (rf_hosts r)) = (e2, hosts)"
    "claim_selectors ?name (case config_path_prefix (rf_prefix r) of Inl _ \<Rightarrow> rf_prefix r | Inr v \<Rightarrow> v) hosts owners = (e3, o1)"
    "validate_origins lib ?name 0 [] [] (take 256 (rf_upstreams r)) = (e4, origins)"
    "validate_cache ?name (rf_cache r) = (e5, cache)" "validate_health ?name (rf_health r) = (e6, health)"
    by (meson surj_pair)
  note eq = assms [unfolded validate_route_def Let_def p prod.case]
  have len: "length (rf_hosts r) \<le> 256" "rf_hosts r \<noteq> []" "length (rf_upstreams r) \<le> 256" "rf_upstreams r \<noteq> []"
    using eq by (auto split: if_splits)
  obtain pre where pre: "config_path_prefix (rf_prefix r) = Inr pre"
    using eq by (cases "config_path_prefix (rf_prefix r)") auto
  show thesis
    by (rule that [of hosts pre origins cache health]) (use eq p pre len in auto)
qed

lemma validate_routes_load:
  assumes "validate_routes lib i rs names owners = ([], rs')" "owners_match owners sel" "owned_by owners names"
  shows "load_routes (map route_view rs) names sel acc = Inr (acc @ map route_view rs')"
  using assms
proof (induction rs arbitrary: i names owners rs' sel acc)
  case (Cons r rs)
  obtain e r' names' owners' where v: "validate_route lib i r names owners = (e, r', names', owners')" by (metis prod_cases4)
  obtain e' rs1 where vs: "validate_routes lib (Suc i) rs names' owners' = (e', rs1)" by (meson surj_pair)
  have e: "e = []" "e' = []" "rs' = r' # rs1" using Cons.prems(1) v vs by auto
  let ?name = "trim_space (rf_name r)"
  obtain pre hosts where ok: "route_name_errors i ?name names = ([], names')" "rf_hosts r \<noteq> []" "length (rf_hosts r) \<le> 256"
    "validate_hosts ?name 0 [] (rf_hosts r) = ([], hosts)" "config_path_prefix (rf_prefix r) = Inr pre"
    "claim_selectors ?name pre hosts owners = ([], owners')" "rf_name r' = ?name" "rf_hosts r' = hosts" "rf_prefix r' = pre"
    by (rule validate_route_ok [OF v [unfolded e(1)]]) (rule that; simp)
  note name = route_name_ok [OF ok(1)]
  have hosts: "load_hosts [] (rf_hosts r) = Inr hosts" "distinct hosts" "list_all normal_host hosts"
    using validate_hosts_load [OF ok(4), of "[]"] by simp_all
  have fresh: "gm_get owners (selector_key h pre) \<noteq> Some ?name" for h
    using Cons.prems(3) name by (auto simp: owned_by_def)
  obtain sel' where sel': "add_selectors hosts pre sel = Inr sel'" "owners_match owners' sel'"
    using claim_selectors_add [OF ok(6) Cons.prems(2) hosts(2) validate_hosts_no_nul [OF ok(4)] hosts(3) fresh] by blast
  have "owned_by owners names'" using Cons.prems(3) name by (auto simp: owned_by_def)
  from claim_selectors_owned [OF ok(6) this] have "owned_by owners' names'" using name by simp
  from Cons.IH [OF vs [unfolded e(2)] sel'(2) this, of "acc @ [route_view r']"]
  show ?case
    using name hosts(1) sel'(1) ok e(3)
    by (simp add: route_view_def Let_def config_path_prefix_iff)
qed simp

end
