(* ===== verification/Edge_Config_Safe.thy ===== *)
theory Edge_Config_Safe
  imports Edge_Config_Correct
begin

text \<open>
  What EdgeProxy may rely on once a configuration has been accepted, stated without reference to how it is
  checked, and that the handler can always be built from it. The trusted networks are stored as canonical
  text and read again, so the round trip of \<open>Ip_Text\<close> is needed here.
\<close>

section \<open>The parts of an accepted configuration\<close>

lemma validate_config_ok:
  assumes "validate_config lib c = ([], c')"
  obtains trusted rs where
    "ad_token (normalize_admin (pf_admin c)) \<noteq> [] \<Longrightarrow>
       validate_bearer_credential ''admin.auth_token'' (ad_token (normalize_admin (pf_admin c))) = []"
    "server_errors lib (normalize_server (pf_server c)) = []"
    "validate_trusted (sv_trusted (pf_server c)) [] = ([], trusted)" "length (sv_trusted (pf_server c)) \<le> 4096"
    "tl_enabled (sv_tls (pf_server c)) \<Longrightarrow> tl_cert (sv_tls (normalize_server (pf_server c))) \<noteq> [] \<and>
       tl_key (sv_tls (normalize_server (pf_server c))) \<noteq> []"
    "admin_errors lib (sv_listen (normalize_server (pf_server c))) (normalize_admin (pf_admin c)) = []"
    "pf_routes c \<noteq> []" "length (pf_routes c) \<le> 2048" "validate_routes lib 0 (pf_routes c) [] [] = ([], rs)"
    "c' = c\<lparr>pf_server := (normalize_server (pf_server c))\<lparr>sv_trusted := trusted\<rparr>, pf_admin := normalize_admin (pf_admin c),
       pf_routes := rs\<rparr>"
proof -
  let ?s = "normalize_server (pf_server c)" and ?a = "normalize_admin (pf_admin c)"
  have t: "sv_trusted ?s = sv_trusted (pf_server c)" "tl_enabled (sv_tls ?s) = tl_enabled (sv_tls (pf_server c))"
    by (simp_all add: normalize_server_def)
  obtain e1 trusted e2 rs where p: "validate_trusted (take 4096 (sv_trusted ?s)) [] = (e1, trusted)"
    "validate_routes lib 0 (take 2048 (pf_routes c)) [] [] = (e2, rs)" by (meson surj_pair)
  note eq = assms [unfolded validate_config_def Let_def p prod.case]
  have serr: "server_errors lib ?s = []" using eq by simp
  then have l1: "length (sv_trusted (pf_server c)) \<le> 4096" by (simp add: server_errors_def t)
  have l2: "pf_routes c \<noteq> []" "length (pf_routes c) \<le> 2048" using eq by (auto split: if_splits)
  show thesis
    by (rule that [of trusted rs]) (use eq serr l1 l2 p t in \<open>auto split: if_splits\<close>)
qed

section \<open>Servers and administration\<close>

definition server_safe :: "server_config \<Rightarrow> bool" where
  "server_safe s \<longleftrightarrow> sv_read_header_timeout s > 0 \<and> sv_read_timeout s \<ge> 0 \<and> sv_write_timeout s \<ge> 0 \<and> sv_idle_timeout s \<ge> 0 \<and>
     sv_shutdown_timeout s > 0 \<and> sv_max_header_bytes s \<in> {1..16 * 2 ^ 20} \<and>
     valid_http_token (sv_header s) \<and> \<not> reserved_client_ip_source_header (sv_header s) \<and>
     (\<exists>ns. parse_networks (sv_trusted s) = Some ns \<and> map net_string ns = sv_trusted s) \<and> distinct (sv_trusted s) \<and>
     length (sv_trusted s) \<le> 4096 \<and> (tl_enabled (sv_tls s) \<longrightarrow> tl_cert (sv_tls s) \<noteq> [] \<and> tl_key (sv_tls s) \<noteq> [])"

text \<open>Administration is open without a token only on a loopback address, and never shares the proxy's listener.\<close>

definition admin_safe :: "config_lib \<Rightarrow> string \<Rightarrow> admin_config \<Rightarrow> bool" where
  "admin_safe lib listen a \<longleftrightarrow>
     (ad_token a \<noteq> [] \<longrightarrow> list_all (byte_in 0x21 0x7E) (ad_token a) \<and> length (ad_token a) \<le> 8192 \<and> ad_token a \<noteq> ''[REDACTED]'') \<and>
     (ad_enabled a \<longrightarrow> \<not> listener_endpoints_overlap lib listen (ad_listen a) \<and>
        (\<exists>host port. split_host_port (ad_listen a) = Some (host, port) \<and> (is_loopback_host host \<or> ad_token a \<noteq> [])) \<and>
        (al_enabled (ad_log a) \<longrightarrow> 1 \<le> al_default_page (ad_log a) \<and> al_default_page (ad_log a) \<le> al_max_page (ad_log a) \<and>
           al_max_page (ad_log a) \<le> al_capacity (ad_log a) \<and> al_capacity (ad_log a) \<le> 100000))"

lemma server_errors_safe:
  assumes "server_errors lib s = []" "validate_trusted (sv_trusted s) [] = ([], trusted)"
    "tl_enabled (sv_tls s) \<longrightarrow> tl_cert (sv_tls s) \<noteq> [] \<and> tl_key (sv_tls s) \<noteq> []"
  shows "server_safe (s\<lparr>sv_trusted := trusted\<rparr>)"
proof -
  have "\<exists>ns. parse_networks trusted = Some ns \<and> map net_string ns = trusted \<and> distinct trusted \<and> length trusted \<le> length (sv_trusted s)"
    using validate_trusted_canonical [OF assms(2), of "[]"] by auto
  then show ?thesis
    using assms(1,3) by (auto simp: server_errors_def server_safe_def split: if_splits)
qed

lemma admin_errors_safe:
  assumes "admin_errors lib listen a = []" "ad_token a \<noteq> [] \<longrightarrow> validate_bearer_credential f (ad_token a) = []"
  shows "admin_safe lib listen a"
proof -
  have "\<exists>host port. split_host_port (ad_listen a) = Some (host, port)" if "ad_enabled a"
    using assms(1) that by (cases "split_host_port (ad_listen a)") (auto simp: admin_errors_def)
  moreover have "is_loopback_host host \<or> ad_token a \<noteq> []" if "ad_enabled a" "split_host_port (ad_listen a) = Some (host, port)" for host port
    using assms(1) that by (auto simp: admin_errors_def Let_def split: if_splits)
  moreover have "al_enabled (ad_log a) \<longrightarrow> 1 \<le> al_default_page (ad_log a) \<and> al_default_page (ad_log a) \<le> al_max_page (ad_log a) \<and>
       al_max_page (ad_log a) \<le> al_capacity (ad_log a) \<and> al_capacity (ad_log a) \<le> 100000" if "ad_enabled a"
    using assms(1) that by (auto simp: admin_errors_def log_store_errors_def split: if_splits)
  moreover have no_overlap: "\<not> listener_endpoints_overlap lib listen (ad_listen a)" if "ad_enabled a"
    using assms(1) that by (simp add: admin_errors_def)
  ultimately show ?thesis
    using assms(2) credential_printable [of f "ad_token a"] no_overlap unfolding admin_safe_def by blast
qed

section \<open>Routes\<close>

definition origin_safe :: "config_lib \<Rightarrow> origin_config \<Rightarrow> bool" where
  "origin_safe lib u \<longleftrightarrow> oc_name u \<noteq> [] \<and> \<not> is_admin_path_dot_segment (oc_name u) \<and> length (oc_name u) \<le> 256 \<and>
     oc_weight u \<in> {1..10000} \<and> oc_priority u \<in> {1..10000} \<and>
     (\<exists>p. cl_parse_url lib (oc_url u) = Some p \<and> u_scheme (pu_url p) \<in> {''http'', ''https''} \<and> \<not> pu_user p \<and>
        u_fragment (pu_url p) = [] \<and> u_host (pu_url p) \<noteq> [] \<and> (oc_insecure u \<longrightarrow> u_scheme (pu_url p) = ''https''))"

definition cache_safe :: "cache_config \<Rightarrow> bool" where
  "cache_safe cc \<longleftrightarrow> (cc_enabled cc \<longrightarrow> cc_default_ttl cc > 0 \<and> cc_stale_if_error cc \<ge> 0 \<and> cc_max_entries cc \<in> {1..1000000} \<and>
     0 < cc_max_object_bytes cc \<and> cc_max_object_bytes cc \<le> cc_max_bytes cc \<and> cc_max_bytes cc \<le> 64 * 2 ^ 30 \<and>
     cc_statuses cc \<noteq> [] \<and> (\<forall>st \<in> set (cc_statuses cc). 100 \<le> st \<and> st \<le> 599) \<and>
     length (cc_vary cc) \<le> 128 \<and> distinct (map to_lower (cc_vary cc)) \<and> list_all valid_http_token (cc_vary cc) \<and>
     (cc_authorized cc \<longrightarrow> ''authorization'' \<in> set (map to_lower (cc_vary cc))) \<and>
     (cc_cookie cc \<longrightarrow> ''cookie'' \<in> set (map to_lower (cc_vary cc))))"

definition health_safe :: "health_config \<Rightarrow> bool" where
  "health_safe hk \<longleftrightarrow> (hk_enabled hk \<longrightarrow> 0 < hk_timeout hk \<and> hk_timeout hk \<le> hk_interval hk \<and> hk_statuses hk \<noteq> [] \<and>
     (\<forall>st \<in> set (hk_statuses hk). 100 \<le> st \<and> st \<le> 599))"

definition proxy_safe :: "proxy_config \<Rightarrow> bool" where
  "proxy_safe p \<longleftrightarrow> px_request_timeout p > 0 \<and> px_dial_timeout p > 0 \<and> px_header_timeout p > 0 \<and> px_idle_timeout p \<ge> 0 \<and>
     px_retry_backoff p \<ge> 0 \<and> px_retry_count p \<in> {0..10} \<and> px_max_idle p \<in> {1..1000000} \<and>
     px_max_idle_host p \<in> {1..1000000} \<and> px_max_header_bytes p \<in> {1..16 * 2 ^ 20}"

definition balancing_safe :: "balancing_config \<Rightarrow> bool" where
  "balancing_safe b \<longleftrightarrow> lb_algorithm b \<in> set balancing_algorithms \<and> 1 / 10 \<le> lb_sensitivity b \<and> lb_sensitivity b \<le> 8 \<and>
     0 < lb_alpha b \<and> lb_alpha b \<le> 1"

definition route_safe :: "config_lib \<Rightarrow> route_config \<Rightarrow> bool" where
  "route_safe lib r \<longleftrightarrow> \<not> is_admin_path_dot_segment (rf_name r) \<and> length (rf_name r) \<le> 256 \<and>
     \<not> equal_fold (rf_name r) ''__unmatched__'' \<and> length (rf_hosts r) \<le> 256 \<and>
     rf_upstreams r \<noteq> [] \<and> length (rf_upstreams r) \<le> 256 \<and> list_all (origin_safe lib) (rf_upstreams r) \<and>
     distinct (map (to_lower \<circ> oc_name) (rf_upstreams r)) \<and>
     balancing_safe (rf_balancing r) \<and> proxy_safe (rf_proxy r) \<and> cache_safe (rf_cache r) \<and> health_safe (rf_health r)"

lemma status_errors_Nil: "length xs \<le> 128 \<Longrightarrow> status_errors m r xs = [] \<Longrightarrow> \<forall>st \<in> set xs. 100 \<le> st \<and> st \<le> 599"
  by (auto simp: status_errors_def not_less)

lemma validate_health_safe:
  assumes "validate_health r hk = ([], hk')"
  shows "health_safe hk'"
proof (cases "hk_enabled hk")
  case True
  with assms have "hk_statuses hk \<noteq> []" "length (hk_statuses hk) \<le> 128" "status_errors ''route %q has invalid healthy status %d'' r (hk_statuses hk) = []"
    "0 < hk_timeout hk" "hk_timeout hk \<le> hk_interval hk" "hk_statuses hk' = hk_statuses hk" "hk_timeout hk' = hk_timeout hk"
    "hk_interval hk' = hk_interval hk"
    by (auto simp: validate_health_def Let_def split: if_splits)
  with status_errors_Nil show ?thesis by (simp add: health_safe_def)
qed (use assms in \<open>auto simp: validate_health_def health_safe_def\<close>)

lemma proxy_errors_safe: "proxy_errors r p = [] \<Longrightarrow> proxy_safe p"
  by (auto simp: proxy_errors_def proxy_safe_def)

lemma balancing_errors_safe: "balancing_errors r b = [] \<Longrightarrow> balancing_safe b"
  by (auto simp: balancing_errors_def balancing_safe_def)

text \<open>The vary list: an error is never taken back, so in an accepted list every input has its header.\<close>

definition vary_ok :: "string list \<Rightarrow> bool" where
  "vary_ok vs \<longleftrightarrow> length vs \<le> 128 \<and> distinct (map to_lower vs) \<and> list_all valid_http_token vs"

lemma add_vary_errors: "snd (snd (add_vary r raw (v, ov, errs))) = [] \<Longrightarrow> errs = []"
  by (auto simp: add_vary_def Let_def split: if_splits)

lemma fold_vary_errors: "snd (snd (fold (add_vary r) raws st)) = [] \<Longrightarrow> snd (snd st) = []"
proof (induction raws arbitrary: st)
  case (Cons raw raws)
  have "snd (snd (fold (add_vary r) raws (add_vary r raw st))) = []" using Cons.prems by simp
  from Cons.IH [OF this] show ?case
    using add_vary_errors [of r raw "fst st" "fst (snd st)" "snd (snd st)"] unfolding prod.collapse by blast
qed simp

lemma add_vary_step:
  assumes "add_vary r raw (v, False, []) = (v', ov, [])" "vary_ok v"
  shows "vary_ok v' \<and> \<not> ov \<and> set v \<subseteq> set v' \<and> to_lower (canonical_header_key (trim_space raw)) \<in> set (map to_lower v')"
proof -
  let ?n = "canonical_header_key (trim_space raw)"
  have tok: "valid_http_token ?n" using assms(1) by (simp add: add_vary_def Let_def split: if_split_asm)
  show ?thesis
  proof (cases "to_lower ?n \<in> set (map to_lower v)")
    case True
    then show ?thesis using assms tok by (simp add: add_vary_def Let_def)
  next
    case False
    then have "length v < 128" "v' = v @ [?n]" "\<not> ov" using assms(1) tok by (simp_all add: add_vary_def Let_def split: if_split_asm)
    then show ?thesis using assms(2) False tok unfolding vary_ok_def by (simp add: subset_insertI)
  qed
qed

lemma fold_vary:
  assumes "fold (add_vary r) raws (v, False, []) = (v', ov, [])" "vary_ok v"
  shows "vary_ok v' \<and> set v \<subseteq> set v' \<and> (\<forall>raw \<in> set raws. to_lower (canonical_header_key (trim_space raw)) \<in> set (map to_lower v'))"
  using assms
proof (induction raws arbitrary: v)
  case (Cons raw raws)
  obtain v1 ov1 e1 where a: "add_vary r raw (v, False, []) = (v1, ov1, e1)" by (metis prod_cases3)
  have f: "fold (add_vary r) raws (v1, ov1, e1) = (v', ov, [])" using Cons.prems(1) a by simp
  have e1: "e1 = []" using fold_vary_errors [of r raws "(v1, ov1, e1)"] f by simp
  note step = add_vary_step [OF a [unfolded e1] Cons.prems(2)]
  have "fold (add_vary r) raws (v1, False, []) = (v', ov, [])" using f e1 step by simp
  from Cons.IH [OF this] step have ih: "vary_ok v'" "set v1 \<subseteq> set v'"
    "\<forall>raw \<in> set raws. to_lower (canonical_header_key (trim_space raw)) \<in> set (map to_lower v')" by auto
  moreover have "set (map to_lower v1) \<subseteq> set (map to_lower v')" using ih(2) by auto
  ultimately show ?case using step by auto
qed simp

lemma validate_cache_safe:
  assumes "validate_cache r cc = ([], cc')"
  shows "cache_safe cc'"
proof (cases "cc_enabled cc")
  case True
  obtain v ov e where f: "fold (add_vary r) (vary_inputs cc) ([], False, []) = (v, ov, e)" by (metis prod_cases3)
  have p: "cache_limit_errors r cc = []" "e = []" "cc' = cc\<lparr>cc_vary := v\<rparr>"
    using assms True by (auto simp: validate_cache_def validate_vary_def f)
  have "vary_ok []" by (simp add: vary_ok_def)
  note v = fold_vary [OF f [unfolded p(2)] this]
  have names: "to_lower (canonical_header_key (trim_space ''Authorization'')) = ''authorization''"
    "to_lower (canonical_header_key (trim_space ''Cookie'')) = ''cookie''" by code_simp+
  have auth: "''authorization'' \<in> set (map to_lower v)" if "cc_authorized cc"
    using v names(1) that by (auto simp: vary_inputs_def)
  have cookie: "''cookie'' \<in> set (map to_lower v)" if "cc_cookie cc"
    using v names(2) that by (auto simp: vary_inputs_def)
  have st: "cc_statuses cc \<noteq> []" "length (cc_statuses cc) \<le> 128"
    "status_errors ''route %q has invalid cacheable status %d'' r (cc_statuses cc) = []"
    using p(1) by (auto simp: cache_limit_errors_def split: if_splits)
  have lim: "cc_default_ttl cc > 0" "cc_stale_if_error cc \<ge> 0" "cc_max_entries cc \<in> {1..1000000}" "0 < cc_max_object_bytes cc"
    "cc_max_object_bytes cc \<le> cc_max_bytes cc" "cc_max_bytes cc \<le> 64 * 2 ^ 30"
    using p(1) by (auto simp: cache_limit_errors_def)
  show ?thesis
    unfolding cache_safe_def p(3) using v st(1) lim auth cookie status_errors_Nil [OF st(2,3)] by (simp add: vary_ok_def)
qed (use assms in \<open>auto simp: validate_cache_def cache_safe_def\<close>)

lemma validate_origins_safe:
  assumes "validate_origins lib r j names known us = ([], us')"
  shows "list_all (origin_safe lib) us' \<and> length us' = length us \<and> distinct (map (to_lower \<circ> oc_name) us') \<and>
    set (map (to_lower \<circ> oc_name) us') \<inter> set names = {}"
  using assms
proof (induction us arbitrary: j names known us')
  case (Cons u0 us)
  define u where "u = normalize_origin j u0"
  let ?p = "cl_parse_url lib (oc_url u)"
  obtain known' e rest where v: "validate_origins lib r (Suc j) (to_lower (oc_name u) # names) known' us = (e, rest)"
    and eq: "([], us') = (check (is_admin_path_dot_segment (oc_name u))
        ''route %q upstream[%d] name cannot be %q because Origin names are Admin API path segments'' [r, itoa (int j), oc_name u] @
      check (length (oc_name u) > 256) ''route %q upstream[%d] name cannot exceed 256 bytes'' [r, itoa (int j)] @
      check (to_lower (oc_name u) \<in> set names) ''route %q contains duplicate upstream name %q'' [r, oc_name u] @
      check (oc_weight u < 1 \<or> oc_weight u > 10000) ''route %q upstream[%d] weight must be between 1 and 10000'' [r, itoa (int j)] @
      check (oc_priority u < 1 \<or> oc_priority u > 10000) ''route %q upstream[%d] priority must be between 1 and 10000'' [r, itoa (int j)] @
      (if bad_origin_url ?p then [Cfg ''route %q upstream[%d] has invalid URL %q'' [r, itoa (int j), oc_url u]]
       else origin_url_errors lib r j u known (the ?p)) @ e, u # rest)"
    using Cons.prems unfolding validate_origins.simps Let_def u_def [symmetric] by (auto split: prod.splits)
  have ok: "\<not> is_admin_path_dot_segment (oc_name u)" "length (oc_name u) \<le> 256" "to_lower (oc_name u) \<notin> set names"
    "oc_weight u \<in> {1..10000}" "oc_priority u \<in> {1..10000}" "\<not> bad_origin_url ?p" "origin_url_errors lib r j u known (the ?p) = []"
    "e = []" "us' = u # rest"
    using eq by (auto split: if_splits)
  have name: "oc_name u \<noteq> []" by (simp add: u_def normalize_origin_def Let_def)
  obtain p where p: "?p = Some p" "u_host (pu_url p) \<noteq> []" using ok(6) by (auto simp: bad_origin_url_def split: option.splits)
  have "origin_safe lib u"
    unfolding origin_safe_def using ok(1,2,4,5,7) name p by (auto simp: origin_url_errors_def)
  with Cons.IH [OF v [unfolded ok(8)]] ok(3,9) show ?case by auto
qed simp

lemma validate_route_safe:
  assumes "validate_route lib i r names owners = ([], r', names', owners')"
  shows "route_safe lib r'"
proof (rule validate_route_ok [OF assms])
  fix pre hosts origins cache health
  let ?name = "trim_space (rf_name r)"
  assume a: "route_name_errors i ?name names = ([], names')" "length (rf_hosts r) \<le> 256" "rf_upstreams r \<noteq> []"
    "validate_hosts ?name 0 [] (rf_hosts r) = ([], hosts)" "length (rf_upstreams r) \<le> 256"
    "balancing_errors ?name (normalize_balancing (rf_balancing r)) = []"
    "validate_origins lib ?name 0 [] [] (rf_upstreams r) = ([], origins)" "proxy_errors ?name (rf_proxy r) = []"
    "validate_cache ?name (rf_cache r) = ([], cache)" "validate_health ?name (rf_health r) = ([], health)"
    and r': "r' = r\<lparr>rf_name := ?name, rf_hosts := hosts, rf_prefix := pre,
       rf_balancing := normalize_balancing (rf_balancing r), rf_upstreams := origins, rf_cache := cache, rf_health := health\<rparr>"
  have "length hosts = length (rf_hosts r)"
    using validate_hosts_load [OF a(4), of "[]"] load_hosts_normal [of "[]" "rf_hosts r" hosts] by simp
  then show ?thesis
    unfolding r' route_safe_def
    using a(2,3,5) route_name_ok [OF a(1)] validate_origins_safe [OF a(7)] balancing_errors_safe [OF a(6)]
      proxy_errors_safe [OF a(8)] validate_cache_safe [OF a(9)] validate_health_safe [OF a(10)] by auto
qed

lemma validate_routes_safe: "validate_routes lib i rs names owners = ([], rs') \<Longrightarrow> list_all (route_safe lib) rs' \<and> length rs' = length rs"
proof (induction rs arbitrary: i names owners rs')
  case (Cons r rs)
  obtain e r' names' owners' where v: "validate_route lib i r names owners = (e, r', names', owners')" by (metis prod_cases4)
  obtain e' rs1 where vs: "validate_routes lib (Suc i) rs names' owners' = (e', rs1)" by (meson surj_pair)
  have e: "e = []" "e' = []" "rs' = r' # rs1" using Cons.prems v vs by auto
  show ?case unfolding e(3) using Cons.IH [OF vs [unfolded e(2)]] validate_route_safe [OF v [unfolded e(1)]] by simp
qed simp

section \<open>Loading\<close>

lemma accept_ok: "accept lib c = Inr c' \<longleftrightarrow> validate_config lib c = ([], c')"
  by (auto simp: accept_def split: prod.splits)

lemma load_config_ok:
  assumes "load_config lib env doc = Inr c'"
  obtains c0 c c1 where "doc = Inr c0" "validate_config lib c0 = ([], c)" "apply_environment_overrides env c = Inr c1"
    "validate_config lib c1 = ([], c')"
  using assms by (auto simp: load_config_def load_file_def accept_ok split: sum.splits)

text \<open>What the handler is built from.\<close>

definition handler_origin :: "origin_config \<Rightarrow> upstream_config" where
  "handler_origin u = \<lparr>uc_name = oc_name u, uc_url = oc_url u, uc_weight = oc_weight u, uc_priority = oc_priority u\<rparr>"

definition handler_route :: "route_config \<Rightarrow> route_cfg" where
  "handler_route r =
     \<lparr>rc_pool = \<lparr>pr_name = rf_name r, pr_hosts = rf_hosts r, pr_preserve_host = rf_preserve_host r,
        pr_health_enabled = hk_enabled (rf_health r), pr_algorithm = lb_algorithm (rf_balancing r),
        pr_sensitivity = lb_sensitivity (rf_balancing r), pr_ewma_alpha = lb_alpha (rf_balancing r),
        pr_upstreams = map handler_origin (rf_upstreams r)\<rparr>,
      rc_path_prefix = rf_prefix r, rc_strip_prefix = rf_strip_prefix r, rc_request_timeout = px_request_timeout (rf_proxy r),
      rc_retry_count = px_retry_count (rf_proxy r), rc_retry_backoff = px_retry_backoff (rf_proxy r), rc_cache = rf_cache r,
      rc_health_statuses = hk_statuses (rf_health r)\<rparr>"

definition handler_config :: "proxy_file \<Rightarrow> edge_config" where
  "handler_config c = \<lparr>xc_trusted = sv_trusted (pf_server c), xc_header = sv_header (pf_server c),
     xc_routes = map handler_route (pf_routes c)\<rparr>"

lemma rc_route_view: "rc_route (handler_route r) = route_view r"
  by (simp add: rc_route_def handler_route_def route_view_def rc_name_def)

lemma validated_parts:
  assumes "validate_config lib c = ([], c')"
  shows "server_safe (pf_server c')" "admin_safe lib (sv_listen (pf_server c')) (pf_admin c')"
    "list_all (route_safe lib) (pf_routes c')" "length (pf_routes c') = length (pf_routes c)"
    "pf_routes c \<noteq> []" "length (pf_routes c) \<le> 2048"
    "load_routes (map route_view (pf_routes c)) [] [] [] = Inr (map route_view (pf_routes c'))"
proof -
  obtain trusted rs where p:
    "ad_token (normalize_admin (pf_admin c)) \<noteq> [] \<longrightarrow>
       validate_bearer_credential ''admin.auth_token'' (ad_token (normalize_admin (pf_admin c))) = []"
    "server_errors lib (normalize_server (pf_server c)) = []"
    "validate_trusted (sv_trusted (pf_server c)) [] = ([], trusted)"
    "tl_enabled (sv_tls (pf_server c)) \<longrightarrow> tl_cert (sv_tls (normalize_server (pf_server c))) \<noteq> [] \<and>
       tl_key (sv_tls (normalize_server (pf_server c))) \<noteq> []"
    "admin_errors lib (sv_listen (normalize_server (pf_server c))) (normalize_admin (pf_admin c)) = []"
    "pf_routes c \<noteq> []" "length (pf_routes c) \<le> 2048" "validate_routes lib 0 (pf_routes c) [] [] = ([], rs)"
    and c': "c' = c\<lparr>pf_server := (normalize_server (pf_server c))\<lparr>sv_trusted := trusted\<rparr>, pf_admin := normalize_admin (pf_admin c),
       pf_routes := rs\<rparr>"
    by (rule validate_config_ok [OF assms]) blast
  have t: "sv_trusted (normalize_server (pf_server c)) = sv_trusted (pf_server c)"
    "tl_enabled (sv_tls (normalize_server (pf_server c))) = tl_enabled (sv_tls (pf_server c))"
    by (simp_all add: normalize_server_def)
  show "server_safe (pf_server c')" unfolding c' using server_errors_safe [OF p(2), of trusted] p(3,4) t by simp
  show "admin_safe lib (sv_listen (pf_server c')) (pf_admin c')" unfolding c' using admin_errors_safe [OF p(5) p(1)] by simp
  show "list_all (route_safe lib) (pf_routes c')" "length (pf_routes c') = length (pf_routes c)"
    unfolding c' using validate_routes_safe [OF p(8)] by simp_all
  show "pf_routes c \<noteq> []" "length (pf_routes c) \<le> 2048" using p(6,7) .
  have "owners_match [] []" "owned_by [] []" by (simp_all add: owners_match_def owned_by_def)
  from validate_routes_load [OF p(8) this, of "[]"] show "load_routes (map route_view (pf_routes c)) [] [] [] = Inr (map route_view (pf_routes c'))"
    unfolding c' by simp
qed

text \<open>The environment does not change what decides the routing.\<close>

lemma override_routes_view: "override_routes env seen rs = Inr rs' \<Longrightarrow> map route_view rs' = map route_view rs"
proof (induction rs arbitrary: seen rs')
  case (Cons r rs)
  have up: "route_view r' = route_view r" if "override_upstreams k v r = Inr r'" for k v r'
    using that by (auto simp: override_upstreams_def route_view_def Let_def split: option.splits if_splits)
  obtain seen' r' rs1 where o: "override_routes env seen' rs = Inr rs1" "rs' = r' # rs1" "route_view r' = route_view r"
    using Cons.prems up by (auto simp: Let_def map_sum_def split: if_splits sum.splits)
  show ?case using Cons.IH [OF o(1)] o(2,3) by simp
qed simp

lemma overrides_view: "apply_environment_overrides env c = Inr c' \<Longrightarrow> map route_view (pf_routes c') = map route_view (pf_routes c)"
  using override_routes_view by (auto simp: apply_environment_overrides_def map_sum_def split: sum.splits)

lemma safe_limits: "list_all (route_safe lib) (pf_routes c) \<Longrightarrow> limits_ok (handler_config c)"
  by (auto simp: limits_ok_def handler_config_def handler_route_def list_all_iff route_safe_def cache_safe_def)

lemma those_Some: "\<forall>x \<in> set xs. f x \<noteq> None \<Longrightarrow> \<exists>ys. those (map f xs) = Some ys"
  by (induction xs) auto

lemma safe_runtime:
  assumes "route_safe lib r"
  shows "\<exists>rn. build_runtime (\<lambda>s. map_option pu_url (cl_parse_url lib s)) nano ffh (handler_route r) = Some rn"
proof -
  have "cl_parse_url lib (uc_url u) \<noteq> None" if "u \<in> set (map handler_origin (rf_upstreams r))" for u
    using assms that by (auto simp: route_safe_def list_all_iff origin_safe_def handler_origin_def)
  then show ?thesis
    unfolding build_runtime_def new_upstream_pool_def
    by (auto simp: handler_route_def intro!: those_Some)
qed

lemma safe_runtimes:
  "list_all (route_safe lib) rs \<Longrightarrow>
     \<exists>m'. build_runtimes (\<lambda>s. map_option pu_url (cl_parse_url lib s)) nano ffh n (map handler_route rs) m = Some m'"
proof (induction rs arbitrary: n m)
  case (Cons r rs)
  obtain rn where "build_runtime (\<lambda>s. map_option pu_url (cl_parse_url lib s)) (nano n) ffh (handler_route r) = Some rn"
    using safe_runtime [of lib r "nano n" ffh] Cons.prems by auto
  with Cons show ?case by simp
qed simp

lemma safe_handler:
  assumes "list_all (route_safe lib) (pf_routes c)" "server_safe (pf_server c)"
  obtains h where "new_handler (\<lambda>s. map_option pu_url (cl_parse_url lib s)) nano (handler_config c) reg logs = Some h"
    "eh_table h = map route_view (pf_routes c)" "handler_reachable h"
proof -
  let ?parse = "\<lambda>s. map_option pu_url (cl_parse_url lib s)"
  obtain ns where "parse_networks (sv_trusted (pf_server c)) = Some ns" using assms(2) by (auto simp: server_safe_def)
  then obtain clients where cl: "new_client_resolver (xc_trusted (handler_config c)) (xc_header (handler_config c)) = Some clients"
    by (simp add: new_client_resolver_def handler_config_def)
  obtain m where m: "build_runtimes ?parse nano (cr_header clients) 0 (map handler_route (pf_routes c)) [] = Some m"
    using safe_runtimes [OF assms(1)] by blast
  have "build_state ?parse nano (handler_config c) = Some (map route_view (pf_routes c), m, clients)"
    unfolding build_state_def cl option.case using m by (simp add: handler_config_def rc_route_view)
  then obtain h where h: "new_handler ?parse nano (handler_config c) reg logs = Some h" "eh_table h = map route_view (pf_routes c)"
    by (auto simp: new_handler_def)
  show thesis
    by (rule that [OF h]) (rule handler_reachable.built [OF h(1) safe_limits [OF assms(1)]])
qed

end
