(* ===== verification/Edge_Config_Stable.thy ===== *)
theory Edge_Config_Stable
  imports Edge_Config_Safe
begin

text \<open>
  Validating an accepted configuration again changes nothing, so what the control plane saves is what it loads.
  The one exception is a path prefix that ends in white space once its trailing slash is removed: the first
  validation keeps the white space, the second one removes it.
\<close>

section \<open>Hosts\<close>

lemma normalized_pattern_fixed:
  assumes "normal_host h" "h \<noteq> ''*''"
  shows "trim_suffix (to_lower (trim_space h)) ''.'' = h"
  using assms by (simp add: normal_host_def trim_space_plain trim_suffix_def has_suffix_single)

definition host_char :: "char \<Rightarrow> bool" where
  "host_char c \<longleftrightarrow> label_char c \<or> c = CHR ''-'' \<or> c = CHR ''.'' \<or> c = CHR '':''"

lemma host_char_special: "host_char c \<Longrightarrow> c \<notin> set ([CHR '' '', CHR 0x09, CHR 0x0D, CHR 0x0A] @ ''/'' @ [CHR 0x5C] @ ''?#@'' @ ''*['')"
proof -
  have "list_all (\<lambda>c. \<not> host_char c) ([CHR '' '', CHR 0x09, CHR 0x0D, CHR 0x0A] @ ''/'' @ [CHR 0x5C] @ ''?#@'' @ ''*['')" by code_simp
  then show "host_char c \<Longrightarrow> ?thesis" unfolding list_all_iff by blast
qed

lemma valid_labels_chars:
  assumes "list_all valid_label (split_on (CHR ''.'') v)"
  shows "list_all host_char v"
proof -
  have "\<forall>c \<in> set l. host_char c" if "valid_label l" for l
    using that by (auto simp: valid_label_def list_all_iff host_char_def)
  moreover have "set v \<subseteq> {CHR ''.''} \<union> (\<Union>w \<in> set (split_on (CHR ''.'') v). set w)"
    using set_join_with [of "[CHR ''.'']" "split_on (CHR ''.'') v"] by (simp add: join_split)
  moreover have "host_char (CHR ''.'')" by (simp add: host_char_def)
  ultimately show ?thesis using assms unfolding list_all_iff by blast
qed

lemma ip_host_chars: "to_lower (ip_string ip) = ip_string ip \<and> list_all host_char (ip_string ip)"
proof -
  have all: "list_all (\<lambda>c. lower_char c = c \<and> host_char c) (hex_digits @ '':.'')" by code_simp
  have "set (ip_string ip) \<subseteq> set (hex_digits @ '':.'')"
    using ip_string_v4(1) [of ip] ip_string_v6(1) [of ip] unfolding set_append by (cases "is_v4 ip") auto
  then have "\<forall>c \<in> set (ip_string ip). lower_char c = c \<and> host_char c" using all unfolding list_all_iff by blast
  then show ?thesis unfolding to_lower_def list_all_iff by (simp add: map_idI)
qed

text \<open>An exact host is accepted again as it is.\<close>

lemma exact_host_fixed:
  assumes "normalize_exact_route_host v = Some h"
  shows "normalize_exact_route_host h = Some h \<and> list_all host_char h"
proof -
  have ip: "normalize_exact_route_host (to_lower (ip_string ip)) = Some (to_lower (ip_string ip))" if "parse_ip s = Some ip" for s ip
  proof -
    have "\<not> has_prefix (ip_string ip) ''[''"
      using ip_host_chars [of ip] host_char_special by (cases "ip_string ip") (auto simp: has_prefix_def)
    then show ?thesis using ip_host_chars [of ip] parse_ip_string [OF parse_ip_range [OF that]]
      by (simp add: normalize_exact_route_host_def)
  qed
  consider s ip where "parse_ip s = Some ip" "h = to_lower (ip_string ip)" | "h = v" "list_all valid_label (split_on (CHR ''.'') v)"
    using assms by (auto simp: normalize_exact_route_host_def split: if_splits option.splits)
  then show ?thesis
  proof cases
    case (1 s ip)
    then show ?thesis using ip [OF 1(1)] ip_host_chars [of ip] by simp
  next
    case 2
    then show ?thesis using assms valid_labels_chars by simp
  qed
qed

lemma contains_none:
  assumes "list_all host_char h" "set cs \<subseteq> set ([CHR '' '', CHR 0x09, CHR 0x0D, CHR 0x0A] @ ''/'' @ [CHR 0x5C] @ ''?#@'' @ ''*['')"
  shows "\<not> contains_any h cs"
  using assms host_char_special unfolding list_all_iff contains_any_def list_ex_iff by blast

lemma host_pattern_fixed:
  assumes "normalize_route_host_pattern raw = Some h"
  shows "normalize_route_host_pattern h = Some h"
proof (cases "h = ''*''")
  case True
  have "normalize_route_host_pattern ''*'' = Some ''*''" by code_simp
  then show ?thesis using True by simp
next
  case False
  have n: "normal_host h" by (rule normalize_pattern_normal [OF assms])
  note v = normalized_pattern_fixed [OF n False]
  have ne: "h \<noteq> []" using n by (simp add: normal_host_def)
  let ?w = "trim_suffix (to_lower (trim_space raw)) ''.''"
  let ?bad = "[CHR '' '', CHR 0x09, CHR 0x0D, CHR 0x0A] @ ''/'' @ [CHR 0x5C] @ ''?#@''"
  consider (wild) sfx where "normalize_exact_route_host (trim_prefix ?w ''*.'') = Some sfx" "parse_ip sfx = None" "h = ''*.'' @ sfx"
    | (exact) "normalize_exact_route_host ?w = Some h"
    using assms False by (auto simp: normalize_route_host_pattern_def Let_def split: if_splits option.splits)
  then show ?thesis
  proof cases
    case wild
    note s = exact_host_fixed [OF wild(1)]
    have "\<not> contains_any sfx ?bad" by (rule contains_none) (use s in auto)
    then have c: "\<not> contains_any h ?bad" unfolding wild(3) by (simp add: contains_any_def)
    have "CHR ''*'' \<notin> set sfx" using s host_char_special unfolding list_all_iff by auto
    then have "filter (\<lambda>c. c = CHR ''*'') sfx = []" by (auto simp: filter_empty_conv)
    then show ?thesis
      unfolding normalize_route_host_pattern_def Let_def v using wild s c False by (simp add: has_prefix_def trim_prefix_def)
  next
    case exact
    note s = exact_host_fixed [OF exact]
    have c: "\<not> contains_any h ?bad" by (rule contains_none) (use s in auto)
    have star: "CHR ''*'' \<notin> set h" using s host_char_special unfolding list_all_iff by auto
    then have "\<not> has_prefix h ''*.''" by (cases h) (auto simp: has_prefix_def)
    moreover have "\<not> contains_str h ''*''" using star by (induction h) (auto simp: has_prefix_def)
    ultimately show ?thesis unfolding normalize_route_host_pattern_def Let_def v using s c ne False by simp
  qed
qed

section \<open>Paths\<close>

lemma path_unescape_length: "path_unescape s = Some t \<Longrightarrow> length t \<le> length s \<and> (CHR ''%'' \<in> set s \<longrightarrow> length t < length s)"
proof (induction s arbitrary: t rule: length_induct)
  case (1 s)
  show ?case
  proof (cases s)
    case (Cons c s')
    show ?thesis
    proof (cases "c = CHR ''%''")
      case True
      then obtain a b u d r where s': "s' = a # b # u" "path_unescape u = Some r" "t = d # r"
        using 1(2) Cons by (auto split: list.splits option.splits)
      then have "length r \<le> length u" using 1(1) Cons by simp
      then show ?thesis using s' Cons by simp
    next
      case False
      then obtain r where "path_unescape s' = Some r" "t = c # r" using 1(2) Cons by auto
      with 1(1) Cons False show ?thesis by auto
    qed
  qed (use 1(2) in simp)
qed

lemma path_unescape_plain: "CHR ''%'' \<notin> set s \<Longrightarrow> path_unescape s = Some s"
  by (induction s) auto

lemma path_unescape_same: "path_unescape s = Some s \<longleftrightarrow> CHR ''%'' \<notin> set s"
  using path_unescape_length [of s s] path_unescape_plain [of s] by auto

text \<open>A canonical path is \<^verbatim>\<open>/\<close>, or good segments, perhaps with a trailing slash.\<close>

lemma absolute_path_cases:
  assumes "normalize_absolute_path raw = Inr p"
  obtains ws where "\<And>w. w \<in> set ws \<Longrightarrow> good_seg w" "p = CHR ''/'' # join_with ''/'' ws \<or> ws \<noteq> [] \<and> p = CHR ''/'' # join_with ''/'' ws @ ''/''"
    "p = trim_space raw \<or> p = ''/''" "CHR ''%'' \<notin> set p" "\<not> contains_any p ''?#''"
proof (cases "trim_space raw = []")
  case True
  then have "p = ''/''" using assms by (simp add: normalize_absolute_path_def)
  then show thesis using that [of "[]"] True by (simp add: contains_any_def)
next
  case False
  let ?v = "trim_space raw"
  have ok: "has_prefix ?v ''/''" "\<not> contains_any ?v ''?#''" "path_unescape ?v = Some ?v"
    "path_clean ?v = ?v \<or> has_suffix ?v ''/'' \<and> path_clean ?v @ ''/'' = ?v"
    and p: "p = (if has_suffix ?v ''/'' \<and> path_clean ?v \<noteq> ''/'' then path_clean ?v @ ''/'' else path_clean ?v)"
    using assms False by (auto simp: normalize_absolute_path_def Let_def split: if_splits option.splits)
  obtain t where t: "?v = CHR ''/'' # t" using ok(1) False by (cases ?v) (auto simp: has_prefix_def)
  obtain ws where ws: "path_clean ?v = CHR ''/'' # join_with ''/'' ws" "\<And>w. w \<in> set ws \<Longrightarrow> good_seg w"
    using path_clean_rooted_segs [of t] unfolding t by blast
  have nz: "ws = [] \<longleftrightarrow> path_clean ?v = ''/''"
    unfolding ws(1) using ws(2) join_with_eq_Nil [of ws "''/''"] by (auto simp: good_seg_def)
  have tail: "\<not> has_suffix (path_clean ?v) ''/''" if "ws \<noteq> []"
  proof -
    have "last ws \<in> set ws" using that by simp
    then have "last ws \<noteq> [] \<and> CHR ''/'' \<notin> set (last ws)" using ws(2) by (auto simp: good_seg_def)
    moreover have "last (join_with ''/'' ws) = last (last ws)" using that ws(2) by (intro last_join_with) (auto simp: good_seg_def)
    moreover have "join_with ''/'' ws \<noteq> []" using that nz ws(1) by auto
    ultimately show ?thesis unfolding ws(1) by (auto simp: has_suffix_single) (metis last_in_set)
  qed
  have pv: "p = ?v \<or> p = ''/''"
  proof (cases "ws = []")
    case True
    then show ?thesis using p nz by simp
  next
    case False
    then show ?thesis using ok(4) p nz tail by auto
  qed
  have "set p \<subseteq> set ?v" using pv t by auto
  then have "CHR ''%'' \<notin> set p" "\<not> contains_any p ''?#''"
    using ok(2) ok(3) [unfolded path_unescape_same] unfolding contains_any_def list_ex_iff by blast+
  then show thesis
    by (intro that [of ws]) (use ws pv nz p in \<open>auto split: if_splits\<close>)
qed

lemma absolute_path_fixed:
  assumes "normalize_absolute_path raw = Inr p"
  shows "normalize_absolute_path p = Inr p"
proof -
  have root: "normalize_absolute_path ''/'' = Inr ''/''" by code_simp
  have "p = trim_space raw \<or> p = ''/''" by (rule absolute_path_cases [OF assms])
  then show ?thesis
  proof
    assume "p = trim_space raw"
    then show ?thesis using assms by (simp add: normalize_absolute_path_def)
  qed (simp add: root)
qed


lemma path_prefix_fixed:
  assumes "config_path_prefix raw = Inr p" "trim_space p = p"
  shows "config_path_prefix p = Inr p"
proof (cases "p = ''/''")
  case True
  have "config_path_prefix ''/'' = Inr ''/''" by code_simp
  then show ?thesis using True by simp
next
  case False
  obtain q where q: "normalize_absolute_path raw = Inr q" "p = (if q \<noteq> ''/'' then trim_suffix q ''/'' else q)"
    using assms(1) by (auto simp: config_path_prefix_def map_sum_def split: sum.splits)
  obtain ws where ws: "\<And>w. w \<in> set ws \<Longrightarrow> good_seg w"
    "q = CHR ''/'' # join_with ''/'' ws \<or> ws \<noteq> [] \<and> q = CHR ''/'' # join_with ''/'' ws @ ''/''"
    "CHR ''%'' \<notin> set q" "\<not> contains_any q ''?#''"
    by (rule absolute_path_cases [OF q(1)]) blast
  have ne: "ws \<noteq> []" using ws(2) q(2) False by auto
  have "last ws \<in> set ws" using ne by simp
  then have l: "last ws \<noteq> []" "CHR ''/'' \<notin> set (last ws)" using ws(1) by (auto simp: good_seg_def)
  have j: "join_with ''/'' ws \<noteq> []" using ne ws(1) join_with_eq_Nil [of ws "''/''"] by (auto simp: good_seg_def)
  have "last (join_with ''/'' ws) = last (last ws)" using ne ws(1) by (intro last_join_with) (auto simp: good_seg_def)
  then have tail: "\<not> has_suffix (CHR ''/'' # join_with ''/'' ws) ''/''"
    using j l last_in_set [OF l(1)] by (auto simp: has_suffix_single) (metis last_in_set)
  have p: "p = CHR ''/'' # join_with ''/'' ws"
    using ws(2) q(2) tail j by (auto simp: trim_suffix_def has_suffix_single)
  have "set p \<subseteq> set q" using p ws(2) by auto
  then have "path_unescape p = Some p" "\<not> contains_any p ''?#''"
    using ws(3,4) unfolding path_unescape_same contains_any_def list_ex_iff by blast+
  moreover have "path_clean p = p" unfolding p path_clean_rooted using ws(1) by (simp add: clean_split_join)
  moreover have "has_prefix p ''/''" "p \<noteq> []" unfolding p by (simp_all add: has_prefix_def)
  ultimately have "normalize_absolute_path p = Inr p"
    using assms(2) tail unfolding normalize_absolute_path_def p [symmetric] by (simp add: Let_def)
  then show ?thesis using tail unfolding config_path_prefix_def p [symmetric] by (simp add: trim_suffix_def)
qed

section \<open>The parts of a route\<close>

lemma validate_hosts_fixed:
  assumes "validate_hosts name j seen raws = ([], hs)"
  shows "validate_hosts name' j' seen hs = ([], hs)"
  using assms
proof (induction raws arbitrary: j seen hs j')
  case (Cons raw raws)
  obtain host where host: "config_host_pattern raw = Inr host"
    using Cons.prems by (cases "config_host_pattern raw") (auto split: prod.splits)
  with Cons.prems obtain hs' where hs': "validate_hosts name (Suc j) (host # seen) raws = ([], hs')"
    "host \<notin> set seen" "hs = host # hs'" by (auto split: prod.splits)
  have "config_host_pattern host = Inr host"
    using host_pattern_fixed [of raw host] host by (simp add: config_host_pattern_iff)
  then show ?case using Cons.IH [OF hs'(1)] hs'(2,3) by simp
qed simp

lemma balancing_fixed: "normalize_balancing (normalize_balancing b) = normalize_balancing b"
  if "lb_algorithm (normalize_balancing b) \<in> set balancing_algorithms"
proof -
  have "list_all (\<lambda>a. to_lower (trim_space a) = a \<and> a \<noteq> []) balancing_algorithms" by code_simp
  then have "to_lower (trim_space (lb_algorithm (normalize_balancing b))) = lb_algorithm (normalize_balancing b)"
    "lb_algorithm (normalize_balancing b) \<noteq> []" using that unfolding list_all_iff by blast+
  moreover have "lb_sensitivity (normalize_balancing b) \<noteq> 0" "lb_alpha (normalize_balancing b) \<noteq> 0"
    by (simp_all add: normalize_balancing_def Let_def)
  ultimately show ?thesis unfolding normalize_balancing_def [of "normalize_balancing b"] by (simp add: Let_def)
qed

lemma origin_name_plain: "trim_space (''origin-'' @ itoa (int j + 1)) = ''origin-'' @ itoa (int j + 1)"
proof -
  have d: "itoa (int j + 1) = digits_of 10 (int j + 1)" by (simp add: itoa_def)
  have c: "set (digits_of 10 (int j + 1)) \<subseteq> set hex_digits" "digits_of 10 (int j + 1) \<noteq> []"
    using digits_of_chars [of "int j + 1" 10] by auto
  have "list_all plain_char (''o'' @ hex_digits)" by code_simp
  then have "plain_char (last (digits_of 10 (int j + 1)))"
    using c(1) last_in_set [OF c(2)] unfolding list_all_iff set_append by blast
  moreover have "plain_char (CHR ''o'')" by code_simp
  ultimately show ?thesis using c(2) by (intro trim_space_plain) (simp_all add: d)
qed

lemma normalize_origin_fixed: "normalize_origin j (normalize_origin j u) = normalize_origin j u"
proof -
  have "trim_space (oc_name (normalize_origin j u)) = oc_name (normalize_origin j u)" "oc_name (normalize_origin j u) \<noteq> []"
    "trim_space (oc_url (normalize_origin j u)) = oc_url (normalize_origin j u)" "oc_weight (normalize_origin j u) \<noteq> 0"
    "oc_priority (normalize_origin j u) \<noteq> 0"
    using origin_name_plain [of j] by (simp_all add: normalize_origin_def Let_def)
  then show ?thesis unfolding normalize_origin_def [of j "normalize_origin j u"] by (simp add: Let_def)
qed

lemma validate_origins_fixed: "validate_origins lib r j names known us = ([], us') \<Longrightarrow> validate_origins lib r j names known us' = ([], us')"
proof (induction us arbitrary: j names known us')
  case (Cons u us)
  define w where "w = normalize_origin j u"
  note simps = validate_origins.simps(2) Let_def
  obtain known' e rest where v: "validate_origins lib r (Suc j) (to_lower (oc_name w) # names) known' us = (e, rest)"
    "known' = (if bad_origin_url (cl_parse_url lib (oc_url w)) \<or> gm_get known (pu_string (the (cl_parse_url lib (oc_url w)))) \<noteq> None then known
       else gm_put (pu_string (the (cl_parse_url lib (oc_url w)))) (oc_name w) known)"
    by (metis surj_pair)
  have us': "us' = w # rest" and e: "e = []"
    using Cons.prems v unfolding simps w_def [symmetric] by (auto split: prod.splits)
  have ih: "validate_origins lib r (Suc j) (to_lower (oc_name w) # names) known' rest = ([], rest)" using Cons.IH v(1) e by blast
  have n: "normalize_origin j w = w" unfolding w_def by (rule normalize_origin_fixed)
  show ?case
    using Cons.prems v(1) ih unfolding us' simps n w_def [symmetric] v(2) [symmetric] e by simp
qed simp

definition canonical_vary :: "string list \<Rightarrow> bool" where
  "canonical_vary vs = list_all (\<lambda>v. canonical_header_key (trim_space v) = v) vs"

lemma add_vary_canonical:
  assumes "add_vary r raw (v, ov, e) = (v', ov', e')" "canonical_vary v"
  shows "canonical_vary v'"
proof -
  have "canonical_header_key (trim_space (canonical_header_key (trim_space raw))) = canonical_header_key (trim_space raw)"
    if "valid_http_token (canonical_header_key (trim_space raw))"
    using token_trim [OF that] canonical_header_fixed by simp
  then show ?thesis
    using assms by (auto simp: add_vary_def Let_def canonical_vary_def split: if_split_asm)
qed

lemma fold_vary_canonical: "fold (add_vary r) raws (v, ov, e) = (v', ov', e') \<Longrightarrow> canonical_vary v \<Longrightarrow> canonical_vary v'"
proof (induction raws arbitrary: v ov e)
  case (Cons raw raws)
  obtain v1 ov1 e1 where a: "add_vary r raw (v, ov, e) = (v1, ov1, e1)" by (metis prod_cases3)
  have f: "fold (add_vary r) raws (v1, ov1, e1) = (v', ov', e')" using Cons.prems(1) a by simp
  show ?case by (rule Cons.IH [OF f add_vary_canonical [OF a Cons.prems(2)]])
qed simp

text \<open>Adding an accepted list again rebuilds it; adding a header that is there changes nothing.\<close>

lemma fold_vary_rebuild:
  "canonical_vary vs \<Longrightarrow> vary_ok (acc @ vs) \<Longrightarrow> fold (add_vary r) vs (acc, False, []) = (acc @ vs, False, [])"
proof (induction vs arbitrary: acc)
  case (Cons v vs)
  have "canonical_header_key (trim_space v) = v" "valid_http_token v" "to_lower v \<notin> set (map to_lower acc)" "length acc < 128"
    using Cons.prems by (auto simp: canonical_vary_def vary_ok_def)
  then have "add_vary r v (acc, False, []) = (acc @ [v], False, [])" by (simp add: add_vary_def Let_def)
  then show ?case using Cons.IH [of "acc @ [v]"] Cons.prems by (simp add: canonical_vary_def)
qed simp

lemma fold_vary_known:
  assumes "\<forall>raw \<in> set raws. valid_http_token (canonical_header_key (trim_space raw)) \<and>
      to_lower (canonical_header_key (trim_space raw)) \<in> set (map to_lower vs)"
  shows "fold (add_vary r) raws (vs, ov, e) = (vs, ov, e)"
  using assms
proof (induction raws)
  case (Cons raw raws)
  then have "add_vary r raw (vs, ov, e) = (vs, ov, e)" by (simp add: add_vary_def Let_def)
  then show ?case using Cons by simp
qed simp

lemma validate_cache_fixed:
  assumes "validate_cache r cc = ([], cc')"
  shows "validate_cache r cc' = ([], cc')"
proof (cases "cc_enabled cc")
  case True
  obtain v ov e where f: "fold (add_vary r) (vary_inputs cc) ([], False, []) = (v, ov, e)" by (metis prod_cases3)
  have p: "cache_limit_errors r cc = []" "e = []" "cc' = cc\<lparr>cc_vary := v\<rparr>"
    using assms True by (auto simp: validate_cache_def validate_vary_def f)
  have "vary_ok []" "canonical_vary []" by (simp_all add: vary_ok_def canonical_vary_def)
  note v = fold_vary [OF f [unfolded p(2)] this(1)] and c = fold_vary_canonical [OF f this(2)]
  let ?extra = "(if cc_authorized cc then [''Authorization''] else []) @ (if cc_cookie cc then [''Cookie''] else [])"
  have "length v \<le> 128" using v by (simp add: vary_ok_def)
  then have "vary_inputs cc' = v @ ?extra" unfolding p(3) vary_inputs_def by simp
  moreover have "fold (add_vary r) v ([], False, []) = (v, False, [])" using fold_vary_rebuild [OF c, of "[]"] v by simp
  moreover have "fold (add_vary r) ?extra (v, False, []) = (v, False, [])"
  proof (rule fold_vary_known)
    have t: "valid_http_token (canonical_header_key (trim_space ''Authorization''))" "valid_http_token (canonical_header_key (trim_space ''Cookie''))"
      by code_simp+
    have "set ?extra \<subseteq> set (vary_inputs cc)" by (auto simp: vary_inputs_def)
    then show "\<forall>raw \<in> set ?extra. valid_http_token (canonical_header_key (trim_space raw)) \<and>
        to_lower (canonical_header_key (trim_space raw)) \<in> set (map to_lower v)"
      using v t by (auto split: if_splits)
  qed
  ultimately have "fold (add_vary r) (vary_inputs cc') ([], False, []) = (v, False, [])" by (simp del: fold_append add: fold_append)
  then have "validate_vary r cc' = ([], v)" using \<open>length v \<le> 128\<close> unfolding validate_vary_def p(3) by simp
  moreover have "cache_limit_errors r cc' = []" using p(1) unfolding p(3) cache_limit_errors_def by (simp split: if_split_asm)
  ultimately show ?thesis using True unfolding validate_cache_def p(3) by simp
qed (use assms in \<open>auto simp: validate_cache_def\<close>)

lemma validate_health_fixed:
  assumes "validate_health r hk = ([], hk')"
  shows "validate_health r hk' = ([], hk')"
proof (cases "hk_enabled hk")
  case True
  obtain p where p: "normalize_absolute_path (hk_path hk) = Inr p" "hk' = hk\<lparr>hk_path := p\<rparr>"
    using assms True by (cases "normalize_absolute_path (hk_path hk)") (auto simp: validate_health_def Let_def)
  show ?thesis using assms True absolute_path_fixed [OF p(1)] p by (simp add: validate_health_def Let_def split: if_split_asm)
qed (use assms in \<open>auto simp: validate_health_def\<close>)

section \<open>Routes and the whole configuration\<close>

lemma validate_route_fixed:
  assumes "validate_route lib i r names owners = ([], r', names', owners')" "trim_space (rf_prefix r') = rf_prefix r'"
  shows "validate_route lib i r' names owners = ([], r', names', owners')"
proof (rule validate_route_ok [OF assms(1)])
  fix pre hosts origins cache health
  let ?name = "trim_space (rf_name r)"
  assume a: "route_name_errors i ?name names = ([], names')" "rf_hosts r \<noteq> []" "length (rf_hosts r) \<le> 256"
    "validate_hosts ?name 0 [] (rf_hosts r) = ([], hosts)" "config_path_prefix (rf_prefix r) = Inr pre"
    "rf_upstreams r \<noteq> []" "length (rf_upstreams r) \<le> 256"
    "balancing_errors ?name (normalize_balancing (rf_balancing r)) = []"
    "claim_selectors ?name pre hosts owners = ([], owners')"
    "validate_origins lib ?name 0 [] [] (rf_upstreams r) = ([], origins)" "proxy_errors ?name (rf_proxy r) = []"
    "validate_cache ?name (rf_cache r) = ([], cache)" "validate_health ?name (rf_health r) = ([], health)"
    and r': "r' = r\<lparr>rf_name := ?name, rf_hosts := hosts, rf_prefix := pre,
       rf_balancing := normalize_balancing (rf_balancing r), rf_upstreams := origins, rf_cache := cache, rf_health := health\<rparr>"
  have len: "length hosts = length (rf_hosts r)" "length origins = length (rf_upstreams r)"
    using validate_hosts_load [OF a(4), of "[]"] load_hosts_normal [of "[]" "rf_hosts r" hosts] validate_origins_safe [OF a(10)] by simp_all
  have ne: "hosts \<noteq> []" "origins \<noteq> []" "length hosts \<le> 256" "length origins \<le> 256" using len a(2,3,6,7) by auto
  have b: "normalize_balancing (normalize_balancing (rf_balancing r)) = normalize_balancing (rf_balancing r)"
    using a(8) by (intro balancing_fixed) (simp add: balancing_errors_def)
  have pre: "config_path_prefix pre = Inr pre" using path_prefix_fixed [OF a(5)] assms(2) unfolding r' by simp
  show ?thesis
    unfolding validate_route_def Let_def
    using a(1,8,9,11) ne b pre validate_hosts_fixed [OF a(4)] validate_origins_fixed [OF a(10)] validate_cache_fixed [OF a(12)]
      validate_health_fixed [OF a(13)] unfolding r' by (simp add: check_def)
qed

lemma validate_routes_fixed:
  "validate_routes lib i rs names owners = ([], rs') \<Longrightarrow> list_all (\<lambda>r. trim_space (rf_prefix r) = rf_prefix r) rs' \<Longrightarrow>
     validate_routes lib i rs' names owners = ([], rs')"
proof (induction rs arbitrary: i names owners rs')
  case (Cons r rs)
  obtain e r' names' owners' where v: "validate_route lib i r names owners = (e, r', names', owners')" by (metis prod_cases4)
  obtain e' rs1 where vs: "validate_routes lib (Suc i) rs names' owners' = (e', rs1)" by (meson surj_pair)
  have e: "e = []" "e' = []" "rs' = r' # rs1" using Cons.prems v vs by auto
  have t: "trim_space (rf_prefix r') = rf_prefix r'" "list_all (\<lambda>r. trim_space (rf_prefix r) = rf_prefix r) rs1"
    using Cons.prems(2) e(3) by simp_all
  show ?case unfolding e(3)
    using Cons.IH [OF vs [unfolded e(2)] t(2)] validate_route_fixed [OF v [unfolded e(1)] t(1)] by simp
qed simp

lemma server_fixed: "normalize_server (normalize_server s) = normalize_server s"
proof -
  have "trim_space ''X-Forwarded-For'' = ''X-Forwarded-For''" by code_simp
  then show ?thesis by (simp add: normalize_server_def Let_def)
qed

lemma normalize_server_trusted: "normalize_server (s\<lparr>sv_trusted := t\<rparr>) = (normalize_server s)\<lparr>sv_trusted := t\<rparr>"
  by (simp add: normalize_server_def)

lemma validate_config_fixed:
  assumes "validate_config lib c = ([], c')" "list_all (\<lambda>r. trim_space (rf_prefix r) = rf_prefix r) (pf_routes c')"
  shows "validate_config lib c' = ([], c')"
proof -
  let ?s = "normalize_server (pf_server c)" and ?a = "normalize_admin (pf_admin c)"
  obtain trusted rs where p:
    "ad_token ?a \<noteq> [] \<longrightarrow> validate_bearer_credential ''admin.auth_token'' (ad_token ?a) = []"
    "server_errors lib ?s = []" "validate_trusted (sv_trusted (pf_server c)) [] = ([], trusted)" "length (sv_trusted (pf_server c)) \<le> 4096"
    "tl_enabled (sv_tls (pf_server c)) \<longrightarrow> tl_cert (sv_tls ?s) \<noteq> [] \<and> tl_key (sv_tls ?s) \<noteq> []"
    "admin_errors lib (sv_listen ?s) ?a = []"
    "pf_routes c \<noteq> []" "length (pf_routes c) \<le> 2048" "validate_routes lib 0 (pf_routes c) [] [] = ([], rs)"
    and c': "c' = c\<lparr>pf_server := ?s\<lparr>sv_trusted := trusted\<rparr>, pf_admin := ?a, pf_routes := rs\<rparr>"
    by (rule validate_config_ok [OF assms(1)]) blast
  obtain ns where ns: "parse_networks trusted = Some ns" "map net_string ns = trusted" "distinct trusted" "length trusted \<le> 4096"
    using validate_trusted_canonical [OF p(3), of "[]"] p(4) by auto
  have t: "validate_trusted trusted [] = ([], trusted)" using validate_trusted_fixed [OF ns(1,2), of "[]"] ns(3) by simp
  have s: "normalize_server (?s\<lparr>sv_trusted := trusted\<rparr>) = ?s\<lparr>sv_trusted := trusted\<rparr>"
    unfolding normalize_server_trusted server_fixed ..
  have se: "server_errors lib (?s\<lparr>sv_trusted := trusted\<rparr>) = []" using p(2) ns(4) by (simp add: server_errors_def split: if_split_asm)
  have ad: "normalize_admin ?a = ?a" by (simp add: normalize_admin_def)
  have rs: "validate_routes lib 0 rs [] [] = ([], rs)" "length rs = length (pf_routes c)"
    using validate_routes_fixed [OF p(9)] validate_routes_safe [OF p(9)] assms(2) unfolding c' by simp_all
  have en: "tl_enabled (sv_tls ?s) = tl_enabled (sv_tls (pf_server c))" by (simp add: normalize_server_def)
  show ?thesis
    unfolding validate_config_def Let_def c'
    using t s se ad rs p(1,5,6,7,8) ns(4) en by (auto simp: check_def)
qed

end
