(* ===== verification/Edge_Config_Accept.thy ===== *)
theory Edge_Config_Accept
  imports Edge_Config_Stable
begin

text \<open>
  The properties of EdgeProxy's configuration: what an accepted configuration guarantees, that both programs
  load the same routes from it, and that accepted changes take effect although the environment overrides fields.
\<close>

section \<open>Accepted configurations\<close>

text \<open>
  C7. An accepted configuration is safe to run. Whatever the file and the environment say, a configuration that
  \<^verbatim>\<open>Load\<close> returns has positive timeouts, a client address header that is a token and not reserved, canonical
  distinct trusted networks, an administration listener that is loopback or protected by a printable token and that
  does not share the proxy's listener; every route has a legal name, normalised hosts, at least one upstream with an
  HTTP(S) URL without credentials, bounded retries, weights and connection limits, cache limits in range, and varies
  on \<^verbatim>\<open>Authorization\<close> and \<^verbatim>\<open>Cookie\<close> whenever it may cache requests that carry them; no two routes share a name or
  a host and path; and the cache limits are those that the handler's invariants need.
\<close>

theorem accepted_config_safe:
  assumes "load_config lib env file = Inr c"
  shows "server_safe (pf_server c) \<and> admin_safe lib (sv_listen (pf_server c)) (pf_admin c) \<and>
    list_all (route_safe lib) (pf_routes c) \<and> pf_routes c \<noteq> [] \<and> length (pf_routes c) \<le> 2048 \<and>
    table_wf (map route_view (pf_routes c)) \<and> limits_ok (handler_config c)"
proof -
  obtain c1 where v: "validate_config lib c1 = ([], c)" by (rule load_config_ok [OF assms])
  note p = validated_parts [OF v]
  have "table_wf (map route_view (pf_routes c))"
    using load_routes_wf [OF p(7)] by (simp add: table_wf_def)
  with p safe_limits [OF p(3)] show ?thesis by auto
qed

text \<open>A prefix that normalisation keeps has no white space at its ends.\<close>

lemma trim_left_suffix: "\<exists>p. s = p @ trim_left_seqs seqs s"
proof (induction seqs s rule: trim_left_seqs.induct)
  case (1 seqs s)
  show ?case
  proof (cases "strip_seq seqs s")
    case None
    then show ?thesis by (simp add: trim_left_seqs.simps [of seqs s])
  next
    case (Some r)
    have t: "trim_left_seqs seqs s = trim_left_seqs seqs r" using Some by (simp add: trim_left_seqs.simps [of seqs s])
    obtain p q where "s = p @ r" "r = q @ trim_left_seqs seqs r" using strip_seq_Some [OF Some] 1 [OF Some] by blast
    then have "s = (p @ q) @ trim_left_seqs seqs r" by (metis append.assoc)
    then show ?thesis unfolding t by blast
  qed
qed

lemma trim_space_shorter: "length (trim_space s) < length s \<or> trim_space s = s"
proof -
  let ?t = "trim_left_seqs space_seqs s"
  obtain p where p: "s = p @ ?t" using trim_left_suffix by blast
  obtain q where q: "rev ?t = q @ trim_left_seqs (map rev space_seqs) (rev ?t)" using trim_left_suffix by blast
  then have "?t = trim_space s @ rev q" unfolding trim_space_def by (metis rev_append rev_rev_ident)
  with p have eq: "s = p @ trim_space s @ rev q" by metis
  show ?thesis
  proof (cases "p = [] \<and> q = []")
    case True
    then show ?thesis using eq by simp
  next
    case False
    from eq have "length s = length p + (length (trim_space s) + length q)" by (metis length_append length_rev)
    then show ?thesis using False by auto
  qed
qed

lemma unslashed:
  assumes "v = c \<or> v = c @ ''/''"
    "p = (let c1 = (if has_suffix v ''/'' \<and> c \<noteq> ''/'' then c @ ''/'' else c) in if c1 \<noteq> ''/'' then trim_suffix c1 ''/'' else c1)"
  shows "p = v \<or> length p < length v"
proof -
  have cut: "trim_suffix x ''/'' = x \<or> length (trim_suffix x ''/'') < length x" for x
    by (cases x) (simp_all add: trim_suffix_def has_suffix_single)
  have slash: "trim_suffix (c @ ''/'') ''/'' = c" by (simp add: trim_suffix_def has_suffix_single)
  from assms(1) show ?thesis
  proof
    assume "v = c"
    then show ?thesis using assms(2) cut [of c] slash by (auto simp: Let_def has_suffix_single split: if_split_asm)
  next
    assume "v = c @ ''/''"
    then show ?thesis using assms(2) slash by (auto simp: Let_def has_suffix_single split: if_split_asm)
  qed
qed

lemma fixed_path_prefix_trimmed:
  assumes "normalize_path_prefix raw = Some raw"
  shows "trim_space raw = raw"
proof (cases "trim_space raw = []")
  case True
  moreover from this have "raw = ''/''" using assms by (simp add: normalize_path_prefix_def)
  moreover have "trim_space ''/'' = ''/''" by code_simp
  ultimately show ?thesis by simp
next
  case False
  let ?v = "trim_space raw" and ?c = "path_clean (trim_space raw)"
  have "?v = ?c \<or> ?v = ?c @ ''/''" "raw = (let c1 = (if has_suffix ?v ''/'' \<and> ?c \<noteq> ''/'' then ?c @ ''/'' else ?c) in if c1 \<noteq> ''/'' then trim_suffix c1 ''/'' else c1)"
    using assms [unfolded normalize_path_prefix_def Let_def if_not_P [OF False]]
    by (simp_all add: Let_def split: if_split_asm option.split_asm) metis+
  from unslashed [OF this] show ?thesis using trim_space_shorter [of raw] by auto
qed

lemma load_routes_prefixes:
  "load_routes rs seen sel pre = Inr t \<Longrightarrow>
     \<exists>ts. t = pre @ ts \<and> list_all2 (\<lambda>r r'. normalize_path_prefix (rt_path_prefix r) = Some (rt_path_prefix r')) rs ts"
proof (induction rs arbitrary: seen sel pre)
  case (Cons r rs)
  from Cons.prems obtain p hosts seen' sel' where n: "normalize_path_prefix (rt_path_prefix r) = Some p"
    and l: "load_routes rs seen' sel' (pre @ [\<lparr>rt_name = trim_space (rt_name r), rt_hosts = hosts, rt_path_prefix = p\<rparr>]) = Inr t"
    by (auto simp: Let_def split: option.splits if_split_asm sum.splits)
  from Cons.IH [OF l] n show ?case by auto
qed simp

lemma trimmed_iff_fixed:
  assumes "validate_config lib c0 = ([], c)"
  shows "list_all (\<lambda>r. trim_space (rf_prefix r) = rf_prefix r) (pf_routes c) \<longleftrightarrow>
    load_routes (map route_view (pf_routes c)) [] [] [] = Inr (map route_view (pf_routes c))"
proof
  assume "list_all (\<lambda>r. trim_space (rf_prefix r) = rf_prefix r) (pf_routes c)"
  from validate_config_fixed [OF assms this] show "load_routes (map route_view (pf_routes c)) [] [] [] = Inr (map route_view (pf_routes c))"
    by (rule validated_parts(7))
next
  assume "load_routes (map route_view (pf_routes c)) [] [] [] = Inr (map route_view (pf_routes c))"
  from load_routes_prefixes [OF this] have "list_all (\<lambda>r. normalize_path_prefix (rf_prefix r) = Some (rf_prefix r)) (pf_routes c)"
    by (auto simp: list_all2_conv_all_nth list_all_length route_view_def)
  then show "list_all (\<lambda>r. trim_space (rf_prefix r) = rf_prefix r) (pf_routes c)"
    by (auto simp: list_all_iff dest: fixed_path_prefix_trimmed)
qed

text \<open>
  C8. When the two programs load the same route table. EdgeProxy loads a document: it validates the decoded configuration \<open>c0\<close> to \<open>c\<close>, applies
  the overrides of any environment and validates again. Then EdgeProxy's handler can be built from the result and SecurityEdge loads a
  table from the same document. The two tables are equal exactly if no path prefix of \<open>c\<close> has white space at its ends; a prefix has
  when the document writes white space before its trailing slash, which EdgeProxy's second validation removes and SecurityEdge's only one does not.
  On one table the selections of both programs agree for every request.
\<close>

theorem both_programs_load_same_table:
  assumes "load_config lib env (Inr c0) = Inr c'" "load_file lib (Inr c0) = Inr c"
    "cf_opens f" "cf_regular f" "cf_size f \<le> max_edge_proxy_config_bytes" "cf_data f = Some bytes"
    "int (length bytes) \<le> max_edge_proxy_config_bytes" "utf8_valid bytes"
    "decode bytes = Some (map route_view (pf_routes c0), True)"
  shows "\<exists>h t. new_handler (\<lambda>s. map_option pu_url (cl_parse_url lib s)) nano (handler_config c') reg logs = Some h \<and>
    handler_reachable h \<and> load_table utf8_valid decode f = Inr t \<and>
    (t = eh_table h \<longleftrightarrow> (\<forall>r \<in> set (pf_routes c). trim_space (rf_prefix r) = rf_prefix r)) \<and>
    (\<forall>req. table_match (eh_table h) req = router_match (eh_table h) req)"
proof -
  obtain c1 where c1: "apply_environment_overrides env c = Inr c1" "validate_config lib c1 = ([], c')"
    using assms(1,2) by (auto simp: load_config_def accept_ok split: sum.splits)
  have c: "validate_config lib c0 = ([], c)" using assms(2) by (simp add: load_file_def accept_ok)
  note p0 = validated_parts [OF c] and p = validated_parts [OF c1(2)]
  have view: "map route_view (pf_routes c1) = map route_view (pf_routes c)" by (rule overrides_view [OF c1(1)])
  obtain h where h: "new_handler (\<lambda>s. map_option pu_url (cl_parse_url lib s)) nano (handler_config c') reg logs = Some h"
    "eh_table h = map route_view (pf_routes c')" "handler_reachable h"
    by (rule safe_handler [OF p(3,1)])
  have "load_table utf8_valid decode f = Inr (map route_view (pf_routes c))"
    using assms(3-9) p0(5-7) unfolding load_table_def by simp
  moreover have "map route_view (pf_routes c) = eh_table h \<longleftrightarrow> (\<forall>r \<in> set (pf_routes c). trim_space (rf_prefix r) = rf_prefix r)"
    using trimmed_iff_fixed [OF c] p(7) unfolding h(2) view by (auto simp: list_all_iff)
  moreover have "table_match (eh_table h) req = router_match (eh_table h) req" for req
    by (simp add: gate_routes.select_first_best edge_routes.select_first_best)
  ultimately show ?thesis using h(1,3) by blast
qed

text \<open>
  C9. A configuration that \<^verbatim>\<open>LoadFile\<close> accepted is a fixed point of validation exactly if no path prefix in it has white space at its
  ends: validation of everything else, hosts, names, networks, upstreams, cache and health settings, is idempotent.
\<close>

theorem accepted_config_stable:
  assumes "load_file lib doc = Inr c"
  shows "load_file lib (Inr c) = Inr c \<longleftrightarrow> (\<forall>r \<in> set (pf_routes c). trim_space (rf_prefix r) = rf_prefix r)"
proof -
  obtain c0 where v: "validate_config lib c0 = ([], c)" using assms by (auto simp: load_file_def accept_ok split: sum.splits)
  have "load_file lib (Inr c) = Inr c \<longleftrightarrow> validate_config lib c = ([], c)" by (simp add: load_file_def accept_ok)
  also have "\<dots> \<longleftrightarrow> list_all (\<lambda>r. trim_space (rf_prefix r) = rf_prefix r) (pf_routes c)"
    using trimmed_iff_fixed [OF v] validate_config_fixed [OF v] validated_parts(7) [of lib c c] by blast
  finally show ?thesis by (simp add: list_all_iff)
qed

section \<open>Changes under an environment\<close>

lemma apply_string_env_unset: "non_empty_environment env key = None \<Longrightarrow> apply_string_env env key v = v"
  by (simp add: apply_string_env_def)

text \<open>A route whose upstreams the environment does not set keeps them.\<close>

lemma override_routes_keeps:
  assumes "override_routes env seen rs = Inr rs'" "i < length rs"
    "non_empty_environment env (route_env_key (environment_route_suffix (rf_name (rs ! i))) ''_UPSTREAM_URLS'') = None"
  shows "i < length rs' \<and> rs' ! i = rs ! i"
  using assms
proof (induction rs arbitrary: seen rs' i)
  case (Cons r rs)
  obtain seen' r' rs1 where o: "override_routes env seen' rs = Inr rs1" "rs' = r' # rs1"
    "non_empty_environment env (route_env_key (environment_route_suffix (rf_name r)) ''_UPSTREAM_URLS'') = None \<longrightarrow> r' = r"
    using Cons.prems(1) by (auto simp: Let_def map_sum_def override_upstreams_def split: if_splits sum.splits option.splits)
  show ?case
  proof (cases i)
    case 0
    then show ?thesis using o(2,3) Cons.prems(3) by simp
  next
    case (Suc k)
    then show ?thesis using Cons.IH [OF o(1), of k] Cons.prems(2,3) o(2) by simp
  qed
qed simp

lemma upstreams_changed_cong:
  assumes "to_lower (trim_space n) = to_lower (trim_space m)"
  shows "upstreams_changed a b n = upstreams_changed a b m"
  using assms by (simp add: upstreams_changed_def route_by_name_def equal_fold_def)

lemma locked_routes_Nil:
  assumes "locked_routes env a b seen rs = []" "\<And>n. to_lower (trim_space n) \<in> set seen \<Longrightarrow> \<not> upstreams_changed a b (trim_space n)"
    "r \<in> set rs" "non_empty_environment env (route_env_key (environment_route_suffix (trim_space (rf_name r))) ''_UPSTREAM_URLS'') \<noteq> None"
  shows "\<not> upstreams_changed a b (trim_space (rf_name r))"
  using assms
proof (induction rs arbitrary: seen)
  case (Cons x rs)
  let ?n = "trim_space (rf_name x)"
  let ?set = "non_empty_environment env (route_env_key (environment_route_suffix ?n) ''_UPSTREAM_URLS'') \<noteq> None"
  show ?case
  proof (cases "?set \<and> to_lower ?n \<notin> set seen")
    case True
    then have un: "\<not> upstreams_changed a b ?n" and rest: "locked_routes env a b (to_lower ?n # seen) rs = []"
      using Cons.prems(1) by (auto simp: Let_def split: if_splits)
    have "\<not> upstreams_changed a b (trim_space n)" if "to_lower (trim_space n) \<in> set (to_lower ?n # seen)" for n
      using that Cons.prems(2) un upstreams_changed_cong [of "trim_space n" ?n a b] by auto
    from Cons.IH [OF rest this] Cons.prems(3,4) un show ?thesis by auto
  next
    case False
    then have rest: "locked_routes env a b seen rs = []" using Cons.prems(1) by (auto simp: Let_def)
    show ?thesis
    proof (cases "r = x")
      case True
      then show ?thesis using False Cons.prems(2,4) by auto
    next
      case False
      then show ?thesis using Cons.IH [OF rest Cons.prems(2)] Cons.prems(3,4) by auto
    qed
  qed
qed simp

lemma changed_unmanaged:
  assumes "validate_environment_managed_changes env a b = None"
  shows "sv_listen (pf_server a) \<noteq> sv_listen (pf_server b) \<Longrightarrow> non_empty_environment env ''EDGEPROXY_SERVER_LISTEN_ADDR'' = None"
    "ad_listen (pf_admin a) \<noteq> ad_listen (pf_admin b) \<Longrightarrow> non_empty_environment env ''EDGEPROXY_ADMIN_LISTEN_ADDR'' = None"
    "ad_token (pf_admin a) \<noteq> ad_token (pf_admin b) \<Longrightarrow> non_empty_environment env ''EDGEPROXY_ADMIN_TOKEN'' = None"
    "sv_header (pf_server a) \<noteq> sv_header (pf_server b) \<Longrightarrow> non_empty_environment env ''EDGEPROXY_FORWARDED_FOR_HEADER'' = None"
    "sv_trusted (pf_server a) \<noteq> sv_trusted (pf_server b) \<Longrightarrow> non_empty_environment env ''EDGEPROXY_TRUSTED_PROXY_CIDRS'' = None"
    "tl_enabled (sv_tls (pf_server a)) \<noteq> tl_enabled (sv_tls (pf_server b)) \<Longrightarrow> non_empty_environment env ''EDGEPROXY_TLS_ENABLED'' = None"
    "tl_cert (sv_tls (pf_server a)) \<noteq> tl_cert (sv_tls (pf_server b)) \<Longrightarrow> non_empty_environment env ''EDGEPROXY_TLS_CERT_FILE'' = None"
    "tl_key (sv_tls (pf_server a)) \<noteq> tl_key (sv_tls (pf_server b)) \<Longrightarrow> non_empty_environment env ''EDGEPROXY_TLS_KEY_FILE'' = None"
proof -
  have l: "locked_changes env a b = []"
    using assms by (simp add: validate_environment_managed_changes_def Let_def split: if_split_asm)
  have "filter (\<lambda>(key, _, changed). non_empty_environment env key \<noteq> None \<and> changed) (managed_fields a b) = []"
    using l unfolding locked_changes_def append_is_Nil_conv map_is_Nil_conv by blast
  then have "\<forall>t \<in> set (managed_fields a b). \<not> (case t of (key, _, changed) \<Rightarrow> non_empty_environment env key \<noteq> None \<and> changed)"
    unfolding filter_empty_conv .
  note all = this [unfolded managed_fields_def Let_def list.set ball_simps prod.case]
  show "sv_listen (pf_server a) \<noteq> sv_listen (pf_server b) \<Longrightarrow> non_empty_environment env ''EDGEPROXY_SERVER_LISTEN_ADDR'' = None"
    "ad_listen (pf_admin a) \<noteq> ad_listen (pf_admin b) \<Longrightarrow> non_empty_environment env ''EDGEPROXY_ADMIN_LISTEN_ADDR'' = None"
    "ad_token (pf_admin a) \<noteq> ad_token (pf_admin b) \<Longrightarrow> non_empty_environment env ''EDGEPROXY_ADMIN_TOKEN'' = None"
    "sv_header (pf_server a) \<noteq> sv_header (pf_server b) \<Longrightarrow> non_empty_environment env ''EDGEPROXY_FORWARDED_FOR_HEADER'' = None"
    "sv_trusted (pf_server a) \<noteq> sv_trusted (pf_server b) \<Longrightarrow> non_empty_environment env ''EDGEPROXY_TRUSTED_PROXY_CIDRS'' = None"
    "tl_enabled (sv_tls (pf_server a)) \<noteq> tl_enabled (sv_tls (pf_server b)) \<Longrightarrow> non_empty_environment env ''EDGEPROXY_TLS_ENABLED'' = None"
    "tl_cert (sv_tls (pf_server a)) \<noteq> tl_cert (sv_tls (pf_server b)) \<Longrightarrow> non_empty_environment env ''EDGEPROXY_TLS_CERT_FILE'' = None"
    "tl_key (sv_tls (pf_server a)) \<noteq> tl_key (sv_tls (pf_server b)) \<Longrightarrow> non_empty_environment env ''EDGEPROXY_TLS_KEY_FILE'' = None"
    using all by blast+
qed

lemma replace_urls_meta:
  "j < length (replace_urls new us) \<Longrightarrow> j < length us \<Longrightarrow> replace_urls new us ! j = (us ! j)\<lparr>oc_url := new ! j\<rparr>"
proof (induction new us arbitrary: j rule: replace_urls.induct)
  case (3 url new u us)
  then show ?case by (cases j) simp_all
qed simp_all

lemma length_replace_urls [simp]: "length (replace_urls new us) = length new"
  by (induction new us rule: replace_urls.induct) simp_all

text \<open>An override of the upstreams of a route replaces URLs only and keeps everything else at its position.\<close>

lemma override_routes_meta:
  assumes "override_routes env seen rs = Inr rs'" "i < length rs"
    "j < length (rf_upstreams (rs' ! i))" "j < length (rf_upstreams (rs ! i))"
  shows "\<exists>url. rf_upstreams (rs' ! i) ! j = (rf_upstreams (rs ! i) ! j)\<lparr>oc_url := url\<rparr>"
  using assms
proof (induction rs arbitrary: seen rs' i)
  case (Cons r rs)
  obtain seen' r' rs1 where o: "override_routes env seen' rs = Inr rs1" "rs' = r' # rs1"
    "r' = r \<or> (\<exists>new. r' = r\<lparr>rf_upstreams := replace_urls new (rf_upstreams r)\<rparr>)"
    using Cons.prems(1) by (auto simp: Let_def map_sum_def override_upstreams_def split: if_splits sum.splits option.splits)
  show ?case
  proof (cases i)
    case 0
    have "\<exists>url. us ! j = (us ! j)\<lparr>oc_url := url\<rparr>" for us :: "origin_config list" by (intro exI [of _ "oc_url (us ! j)"]) simp
    then show ?thesis using o(2,3) Cons.prems(3,4) 0 by (auto simp: replace_urls_meta)
  next
    case (Suc k)
    then show ?thesis using Cons.IH [OF o(1), of k] Cons.prems(2-4) o(2) by simp
  qed
qed simp

lemma route_by_name_Some: "route_by_name rs name = Some r \<Longrightarrow> r \<in> set rs \<and> equal_fold (trim_space (rf_name r)) (trim_space name)"
  by (auto simp: route_by_name_def find_Some_iff)

lemma new_urls_changed:
  assumes "i < length (pf_routes b)" "\<forall>j < i. \<not> equal_fold (trim_space (rf_name (pf_routes b ! j))) (trim_space (rf_name (pf_routes b ! i)))"
    "\<forall>r \<in> set (pf_routes a). equal_fold (trim_space (rf_name r)) (trim_space (rf_name (pf_routes b ! i))) \<longrightarrow>
       map (\<lambda>u. trim_space (oc_url u)) (rf_upstreams r) \<noteq> map (\<lambda>u. trim_space (oc_url u)) (rf_upstreams (pf_routes b ! i))"
  shows "upstreams_changed a b (trim_space (rf_name (pf_routes b ! i)))"
proof -
  have "route_by_name (pf_routes b) (trim_space (rf_name (pf_routes b ! i))) = Some (pf_routes b ! i)"
    using assms(1,2) by (auto simp: route_by_name_def find_Some_iff equal_fold_def intro!: exI [of _ i])
  then show ?thesis using assms(3)
    by (auto simp: upstreams_changed_def upstream_urls_def dest!: route_by_name_Some split: option.splits)
qed

text \<open>
  C10. Accepted changes of managed fields take effect. When a change of the persisted configuration from \<open>a\<close> to \<open>b\<close> passes
  \<^verbatim>\<open>ValidateEnvironmentManagedChanges\<close> and the overrides of the same environment are then applied to \<open>b\<close>, every one of the eight
  listener, token, header, network and TLS fields that was changed has its new value, and a route that is new or whose list of upstream
  URLs was changed keeps all its upstreams. For every route, an upstream of the effective list that has a
  counterpart in \<open>b\<close> has everything but its URL from there. (Upstreams behind the end of an overriding list are dropped, whatever
  was changed in them.)
\<close>

theorem accepted_changes_take_effect:
  assumes "validate_environment_managed_changes env a b = None" "apply_environment_overrides env b = Inr e"
  shows "(sv_listen (pf_server a) \<noteq> sv_listen (pf_server b) \<longrightarrow> sv_listen (pf_server e) = sv_listen (pf_server b)) \<and>
    (ad_listen (pf_admin a) \<noteq> ad_listen (pf_admin b) \<longrightarrow> ad_listen (pf_admin e) = ad_listen (pf_admin b)) \<and>
    (ad_token (pf_admin a) \<noteq> ad_token (pf_admin b) \<longrightarrow> ad_token (pf_admin e) = ad_token (pf_admin b)) \<and>
    (sv_header (pf_server a) \<noteq> sv_header (pf_server b) \<longrightarrow> sv_header (pf_server e) = sv_header (pf_server b)) \<and>
    (sv_trusted (pf_server a) \<noteq> sv_trusted (pf_server b) \<longrightarrow> sv_trusted (pf_server e) = sv_trusted (pf_server b)) \<and>
    (tl_enabled (sv_tls (pf_server a)) \<noteq> tl_enabled (sv_tls (pf_server b)) \<longrightarrow>
       tl_enabled (sv_tls (pf_server e)) = tl_enabled (sv_tls (pf_server b))) \<and>
    (tl_cert (sv_tls (pf_server a)) \<noteq> tl_cert (sv_tls (pf_server b)) \<longrightarrow> tl_cert (sv_tls (pf_server e)) = tl_cert (sv_tls (pf_server b))) \<and>
    (tl_key (sv_tls (pf_server a)) \<noteq> tl_key (sv_tls (pf_server b)) \<longrightarrow> tl_key (sv_tls (pf_server e)) = tl_key (sv_tls (pf_server b))) \<and>
    (\<forall>i < length (pf_routes b).
       (\<forall>j < i. \<not> equal_fold (trim_space (rf_name (pf_routes b ! j))) (trim_space (rf_name (pf_routes b ! i)))) \<and>
       (\<forall>r \<in> set (pf_routes a). equal_fold (trim_space (rf_name r)) (trim_space (rf_name (pf_routes b ! i))) \<longrightarrow>
          map (\<lambda>u. trim_space (oc_url u)) (rf_upstreams r) \<noteq> map (\<lambda>u. trim_space (oc_url u)) (rf_upstreams (pf_routes b ! i))) \<longrightarrow>
       rf_upstreams (pf_routes e ! i) = rf_upstreams (pf_routes b ! i)) \<and>
    (\<forall>i < length (pf_routes b). \<forall>j < min (length (rf_upstreams (pf_routes e ! i))) (length (rf_upstreams (pf_routes b ! i))).
       \<exists>url. rf_upstreams (pf_routes e ! i) ! j = (rf_upstreams (pf_routes b ! i) ! j)\<lparr>oc_url := url\<rparr>)"
proof -
  obtain s rs where p: "override_tls_enabled env (override_server env (pf_server b)) = Inr s" "override_routes env [] (pf_routes b) = Inr rs"
    and e: "e = b\<lparr>pf_server := s, pf_admin := override_admin env (pf_admin b), pf_routes := rs\<rparr>"
    using assms(2) by (auto simp: apply_environment_overrides_def map_sum_def split: sum.splits)
  have tls: "s = override_server env (pf_server b) \<and> non_empty_environment env ''EDGEPROXY_TLS_ENABLED'' = None \<or>
      (\<exists>v. s = (override_server env (pf_server b))\<lparr>sv_tls := (sv_tls (override_server env (pf_server b)))\<lparr>tl_enabled := v\<rparr>\<rparr>) \<and>
      non_empty_environment env ''EDGEPROXY_TLS_ENABLED'' \<noteq> None"
    using p(1) by (auto simp: override_tls_enabled_def split: option.splits)
  note m = changed_unmanaged [OF assms(1)]
  have s: "sv_listen s = sv_listen (override_server env (pf_server b))" "sv_header s = sv_header (override_server env (pf_server b))"
    "sv_trusted s = sv_trusted (override_server env (pf_server b))" "tl_cert (sv_tls s) = tl_cert (sv_tls (override_server env (pf_server b)))"
    "tl_key (sv_tls s) = tl_key (sv_tls (override_server env (pf_server b)))"
    using tls by auto
  have en: "tl_enabled (sv_tls s) = tl_enabled (sv_tls (pf_server b))" if "tl_enabled (sv_tls (pf_server a)) \<noteq> tl_enabled (sv_tls (pf_server b))"
    using m(6) [OF that] tls by (auto simp: override_server_def)
  have up: "rf_upstreams (rs ! i) = rf_upstreams (pf_routes b ! i)"
    if i: "i < length (pf_routes b)" "upstreams_changed a b (trim_space (rf_name (pf_routes b ! i)))" for i
  proof -
    have "locked_routes env a b [] (pf_routes a @ pf_routes b) = []"
      using assms(1) by (simp add: validate_environment_managed_changes_def locked_changes_def Let_def split: if_split_asm)
    from locked_routes_Nil [OF this, of "pf_routes b ! i"] i
    have "non_empty_environment env (route_env_key (environment_route_suffix (trim_space (rf_name (pf_routes b ! i)))) ''_UPSTREAM_URLS'') = None"
      by force
    then show ?thesis using override_routes_keeps [OF p(2) i(1)] by (simp add: environment_route_suffix_def)
  qed
  have pe: "pf_routes e = rs" unfolding e by simp
  have routes: "\<forall>i < length (pf_routes b).
       (\<forall>j < i. \<not> equal_fold (trim_space (rf_name (pf_routes b ! j))) (trim_space (rf_name (pf_routes b ! i)))) \<and>
       (\<forall>r \<in> set (pf_routes a). equal_fold (trim_space (rf_name r)) (trim_space (rf_name (pf_routes b ! i))) \<longrightarrow>
          map (\<lambda>u. trim_space (oc_url u)) (rf_upstreams r) \<noteq> map (\<lambda>u. trim_space (oc_url u)) (rf_upstreams (pf_routes b ! i))) \<longrightarrow>
       rf_upstreams (pf_routes e ! i) = rf_upstreams (pf_routes b ! i)"
    unfolding pe using up new_urls_changed [of _ b a] by blast
  have meta: "\<forall>i < length (pf_routes b). \<forall>j < min (length (rf_upstreams (pf_routes e ! i))) (length (rf_upstreams (pf_routes b ! i))).
       \<exists>url. rf_upstreams (pf_routes e ! i) ! j = (rf_upstreams (pf_routes b ! i) ! j)\<lparr>oc_url := url\<rparr>"
    unfolding pe using override_routes_meta [OF p(2)] by simp
  show ?thesis
    using routes meta m en unfolding e by (simp add: s override_server_def override_admin_def apply_string_env_unset)
qed

section \<open>An example\<close>

definition demo_url_lib :: config_lib where
  "demo_url_lib = \<lparr>cl_parse_url = (\<lambda>s. if has_prefix s ''http://'' then
       Some \<lparr>pu_url = \<lparr>u_scheme = ''http'', u_opaque = [], u_host = drop 7 s, u_path = [], u_raw_path = [],
               u_force_query = False, u_raw_query = [], u_fragment = []\<rparr>,
             pu_user = False, pu_string = s\<rparr> else None),
     cl_lookup_port = (\<lambda>_. None)\<rparr>"

definition demo_route_config :: route_config where
  "demo_route_config = \<lparr>rf_name = '' web '', rf_hosts = [''Example.COM.''], rf_prefix = ''/api/'', rf_strip_prefix = False,
     rf_preserve_host = False,
     rf_upstreams = [\<lparr>oc_name = [], oc_url = ''http://10.0.0.1:80'', oc_insecure = False, oc_weight = 0, oc_priority = 0\<rparr>],
     rf_balancing = \<lparr>lb_algorithm = [], lb_sensitivity = 0, lb_alpha = 0\<rparr>,
     rf_proxy = \<lparr>px_request_timeout = 1, px_dial_timeout = 1, px_header_timeout = 1, px_idle_timeout = 0, px_retry_count = 1,
       px_retry_backoff = 0, px_max_idle = 1, px_max_idle_host = 1, px_max_header_bytes = 1\<rparr>,
     rf_cache = demo_cache_config, rf_health = \<lparr>hk_enabled = False, hk_path = [], hk_interval = 0, hk_timeout = 0, hk_statuses = []\<rparr>\<rparr>"

definition demo_file :: proxy_file where
  "demo_file = default_config\<lparr>pf_routes := [demo_route_config],
     pf_server := (pf_server default_config)\<lparr>sv_trusted := [''10.1.2.3/8'']\<rparr>,
     pf_admin := (pf_admin default_config)\<lparr>ad_enabled := False\<rparr>\<rparr>"

definition demo_environment :: environment where
  "demo_environment = [''EDGEPROXY_ADMIN_TOKEN'' \<mapsto> '' t0ken '']"

lemma demo_loads:
  obtains c0 c where "load_file demo_url_lib (Inr demo_file) = Inr c0"
    "load_config demo_url_lib demo_environment (Inr demo_file) = Inr c" "sv_trusted (pf_server c) = [''10.0.0.0/8'']"
    "ad_token (pf_admin c) = ''t0ken''"
    "map route_view (pf_routes c0) = [\<lparr>rt_name = ''web'', rt_hosts = [''example.com''], rt_path_prefix = ''/api''\<rparr>]"
    "list_all (\<lambda>r. trim_space (rf_prefix r) = rf_prefix r) (pf_routes c0)"
proof -
  have "(case load_file demo_url_lib (Inr demo_file) of Inl _ \<Rightarrow> False
     | Inr c0 \<Rightarrow> map route_view (pf_routes c0) = [\<lparr>rt_name = ''web'', rt_hosts = [''example.com''], rt_path_prefix = ''/api''\<rparr>] \<and>
         list_all (\<lambda>r. trim_space (rf_prefix r) = rf_prefix r) (pf_routes c0) \<and>
         (case apply_environment_overrides demo_environment c0 of Inl _ \<Rightarrow> False
          | Inr c1 \<Rightarrow> (case accept demo_url_lib c1 of Inl _ \<Rightarrow> False
             | Inr c \<Rightarrow> sv_trusted (pf_server c) = [''10.0.0.0/8''] \<and> ad_token (pf_admin c) = ''t0ken'')))" by code_simp
  then show thesis using that
    by (cases "load_file demo_url_lib (Inr demo_file)") (auto simp: load_config_def split: sum.splits)
qed

theorem accepted_config_safe_witness:
  "\<exists>c. load_config demo_url_lib demo_environment (Inr demo_file) = Inr c \<and> ad_token (pf_admin c) = ''t0ken'' \<and>
     sv_trusted (pf_server c) = [''10.0.0.0/8''] \<and> list_all (route_safe demo_url_lib) (pf_routes c) \<and>
     table_wf (map route_view (pf_routes c))"
proof -
  obtain c where "load_config demo_url_lib demo_environment (Inr demo_file) = Inr c" "sv_trusted (pf_server c) = [''10.0.0.0/8'']"
    "ad_token (pf_admin c) = ''t0ken''" by (rule demo_loads) (rule that; assumption)
  with accepted_config_safe [OF this(1)] show ?thesis by blast
qed

theorem accepted_config_stable_witness:
  "\<exists>c. load_file demo_url_lib (Inr demo_file) = Inr c \<and> load_file demo_url_lib (Inr c) = Inr c \<and> c \<noteq> demo_file"
proof -
  obtain c where c: "load_file demo_url_lib (Inr demo_file) = Inr c"
    "map route_view (pf_routes c) = [\<lparr>rt_name = ''web'', rt_hosts = [''example.com''], rt_path_prefix = ''/api''\<rparr>]"
    "list_all (\<lambda>r. trim_space (rf_prefix r) = rf_prefix r) (pf_routes c)" by (rule demo_loads) (rule that; assumption)
  have "map route_view (pf_routes demo_file) \<noteq> [\<lparr>rt_name = ''web'', rt_hosts = [''example.com''], rt_path_prefix = ''/api''\<rparr>]" by code_simp
  then have "c \<noteq> demo_file" using c(2) by auto
  with accepted_config_stable [OF c(1)] c(1,3) show ?thesis by (auto simp: list_all_iff)
qed

text \<open>A document with \<^verbatim>\<open>/api /\<close> as a path prefix makes the programs disagree.\<close>

definition space_file :: proxy_file where
  "space_file = demo_file\<lparr>pf_routes := [demo_route_config\<lparr>rf_prefix := ''/api /''\<rparr>]\<rparr>"

lemma space_loads:
  obtains c0 c where "load_file demo_url_lib (Inr space_file) = Inr c0" "load_config demo_url_lib demo_environment (Inr space_file) = Inr c"
    "map rf_prefix (pf_routes c0) = [''/api '']" "map rf_prefix (pf_routes c) = [''/api'']"
proof -
  have "(case load_file demo_url_lib (Inr space_file) of Inl _ \<Rightarrow> False
     | Inr c0 \<Rightarrow> map rf_prefix (pf_routes c0) = [''/api ''] \<and>
         (case apply_environment_overrides demo_environment c0 of Inl _ \<Rightarrow> False
          | Inr c1 \<Rightarrow> (case accept demo_url_lib c1 of Inl _ \<Rightarrow> False | Inr c \<Rightarrow> map rf_prefix (pf_routes c) = [''/api''])))" by code_simp
  then show thesis using that
    by (cases "load_file demo_url_lib (Inr space_file)") (auto simp: load_config_def split: sum.splits)
qed

theorem both_programs_load_same_table_witness:
  "(\<exists>c h. load_config demo_url_lib demo_environment (Inr demo_file) = Inr c \<and>
     new_handler (\<lambda>s. map_option pu_url (cl_parse_url demo_url_lib s)) (\<lambda>_. 0) (handler_config c) (new_edge_registry 0) None = Some h \<and>
     load_table (\<lambda>_. True) (\<lambda>_. Some (map route_view (pf_routes demo_file), True))
       \<lparr>cf_opens = True, cf_regular = True, cf_size = 2, cf_data = Some ''{}''\<rparr> = Inr (eh_table h)) \<and>
   (\<exists>c h. load_config demo_url_lib demo_environment (Inr space_file) = Inr c \<and>
     new_handler (\<lambda>s. map_option pu_url (cl_parse_url demo_url_lib s)) (\<lambda>_. 0) (handler_config c) (new_edge_registry 0) None = Some h \<and>
     load_table (\<lambda>_. True) (\<lambda>_. Some (map route_view (pf_routes space_file), True))
       \<lparr>cf_opens = True, cf_regular = True, cf_size = 2, cf_data = Some ''{}''\<rparr> \<noteq> Inr (eh_table h))"
proof
  let ?f = "\<lparr>cf_opens = True, cf_regular = True, cf_size = 2, cf_data = Some ''{}''\<rparr>"
  have f: "cf_opens ?f" "cf_regular ?f" "cf_size ?f \<le> max_edge_proxy_config_bytes" "cf_data ?f = Some ''{}''"
    "int (length ''{}'') \<le> max_edge_proxy_config_bytes" "True" by (simp_all add: max_edge_proxy_config_bytes_def)
  obtain c1 c where c: "load_config demo_url_lib demo_environment (Inr demo_file) = Inr c" and c1: "load_file demo_url_lib (Inr demo_file) = Inr c1"
    "list_all (\<lambda>r. trim_space (rf_prefix r) = rf_prefix r) (pf_routes c1)" by (rule demo_loads)
  from both_programs_load_same_table [OF c c1(1) f refl, of "\<lambda>_. 0" "new_edge_registry 0" None] c c1(2)
  show "\<exists>c h. load_config demo_url_lib demo_environment (Inr demo_file) = Inr c \<and>
     new_handler (\<lambda>s. map_option pu_url (cl_parse_url demo_url_lib s)) (\<lambda>_. 0) (handler_config c) (new_edge_registry 0) None = Some h \<and>
     load_table (\<lambda>_. True) (\<lambda>_. Some (map route_view (pf_routes demo_file), True)) ?f = Inr (eh_table h)"
    by (auto simp: list_all_iff)
  obtain c2 c3 where d: "load_file demo_url_lib (Inr space_file) = Inr c2" "load_config demo_url_lib demo_environment (Inr space_file) = Inr c3"
    "map rf_prefix (pf_routes c2) = [''/api '']" by (rule space_loads)
  have "\<not> (\<forall>r \<in> set (pf_routes c2). trim_space (rf_prefix r) = rf_prefix r)"
  proof
    assume "\<forall>r \<in> set (pf_routes c2). trim_space (rf_prefix r) = rf_prefix r"
    then have "\<forall>p \<in> set (map rf_prefix (pf_routes c2)). trim_space p = p" by simp
    moreover have "trim_space ''/api '' \<noteq> ''/api ''" by code_simp
    ultimately show False unfolding d(3) by simp
  qed
  with both_programs_load_same_table [OF d(2,1) f refl, of "\<lambda>_. 0" "new_edge_registry 0" None] d(2)
  show "\<exists>c h. load_config demo_url_lib demo_environment (Inr space_file) = Inr c \<and>
     new_handler (\<lambda>s. map_option pu_url (cl_parse_url demo_url_lib s)) (\<lambda>_. 0) (handler_config c) (new_edge_registry 0) None = Some h \<and>
     load_table (\<lambda>_. True) (\<lambda>_. Some (map route_view (pf_routes space_file), True)) ?f \<noteq> Inr (eh_table h)"
    by auto
qed

theorem accepted_changes_take_effect_witness:
  "validate_environment_managed_changes demo_environment demo_file
     (demo_file\<lparr>pf_server := (pf_server demo_file)\<lparr>sv_listen := '':81''\<rparr>\<rparr>) = None \<and>
   (\<exists>e. apply_environment_overrides demo_environment (demo_file\<lparr>pf_server := (pf_server demo_file)\<lparr>sv_listen := '':81''\<rparr>\<rparr>) = Inr e \<and>
     sv_listen (pf_server e) = '':81'')"
proof -
  let ?b = "demo_file\<lparr>pf_server := (pf_server demo_file)\<lparr>sv_listen := '':81''\<rparr>\<rparr>"
  have v: "validate_environment_managed_changes demo_environment demo_file ?b = None" by code_simp
  have "(case apply_environment_overrides demo_environment ?b of Inl _ \<Rightarrow> False | Inr _ \<Rightarrow> True)" by code_simp
  then obtain e where e: "apply_environment_overrides demo_environment ?b = Inr e"
    by (cases "apply_environment_overrides demo_environment ?b") auto
  have "sv_listen (pf_server demo_file) \<noteq> sv_listen (pf_server ?b)" by code_simp
  with accepted_changes_take_effect [OF v e] v e show ?thesis by simp
qed

end
