(* ===== verification/Gate_Config.thy ===== *)
theory Gate_Config
  imports Config_Rules Security_Policy
begin

text \<open>
  SecurityEdge's configuration, \<^verbatim>\<open>apps/securityedge/internal/config/config.go\<close>: the remaining structures, \<^verbatim>\<open>Default\<close>,
  overrides from the environment, the check of managed fields and \<^verbatim>\<open>Validate\<close>, which normalises a configuration in
  place and collects every error. Nested \<^verbatim>\<open>errors.Join\<close> is flattened, which leaves the text as it is; the five
  timeouts of the transport, which the code checks in the order of a map, are checked in a fixed order.
  \<^verbatim>\<open>regexp.Compile\<close> and \<^verbatim>\<open>mime.ParseMediaType\<close> (the type and the number of parameters) are parameters too.
  The two DNS lists are slices that may be nil, since \<^verbatim>\<open>reflect.DeepEqual\<close> compares them; for the other lists nil and
  empty are the same. Rates are finite.
\<close>

section \<open>Structures\<close>

record gate_lib =
  gl_net :: config_lib
  gl_compiles :: "string \<Rightarrow> bool"
  gl_media :: "string \<Rightarrow> (string \<times> nat) option"

text \<open>\<^verbatim>\<open>[]string\<close>, where \<open>None\<close> is nil; equality is \<^verbatim>\<open>reflect.DeepEqual\<close>.\<close>

type_synonym slice = "string list option"

definition items :: "slice \<Rightarrow> string list" where
  "items s = (case s of None \<Rightarrow> [] | Some xs \<Rightarrow> xs)"

record telemetry_config =
  th_enabled :: bool
  th_capacity :: int
  th_interval :: duration
  th_file :: string

record dns_config =
  dn_enabled :: bool
  dn_critical :: bool
  dn_server :: string
  dn_names :: slice
  dn_expected :: slice

record connectivity_config =
  cn_enabled :: bool
  cn_interval :: duration
  cn_timeout :: duration
  cn_stale :: duration
  cn_history :: int
  cn_dns :: dns_config

record log_file_config =
  lf_capacity :: int
  lf_default_page :: int
  lf_max_page :: int
  lf_file :: string
  lf_max_bytes :: int
  lf_backups :: int

record gate_admin =
  ga_enabled :: bool
  ga_listen :: string
  ga_token :: string
  ga_log :: log_file_config
  ga_connectivity :: connectivity_config
  ga_telemetry :: telemetry_config
  ga_poll_timeout :: duration
  ga_max_body :: int
  ga_auth_failures :: int
  ga_lockout :: duration

record edge_link =
  el_path :: string
  el_url :: string
  el_token :: string
  el_timeout :: duration

record waf_config =
  wf_max_matches :: int
  wf_rules :: "custom_rule_config list"

record gate_file =
  gf_server :: server_config
  gf_admin :: gate_admin
  gf_edge :: edge_link
  gf_waf :: waf_config
  gf_policy :: policy
  gf_routes :: "(string, policy) gomap"

definition default_policy :: policy where
  "default_policy =
     \<lparr>po_enabled = True, po_mode = ''block'', po_threshold = 5, po_inspect_body = True, po_max_inspection = 2 ^ 20,
      po_body_types = [''application/json'', ''application/x-www-form-urlencoded'', ''multipart/form-data'', ''text/plain'',
        ''text/xml'', ''application/xml''],
      po_methods = [''GET'', ''HEAD'', ''POST'', ''PUT'', ''PATCH'', ''DELETE'', ''OPTIONS''],
      po_excluded = [], po_disabled = [], po_allowlist = [], po_denylist = [],
      po_max_path = 4096, po_max_query = 8192, po_max_headers = 100, po_max_header_value = 8192,
      po_reject_encoded = True, po_reject_types = False, po_block_on_limit = True,
      po_rate_limit = \<lparr>rl_enabled = True, rl_rate = 20, rl_burst = 40, rl_global_rate = 500, rl_global_burst = 1000,
        rl_cleanup_interval = minute, rl_idle_ttl = 10 * minute, rl_max_buckets = 100000\<rparr>,
      po_auto_ban = \<lparr>ab_enabled = True, ab_threshold = 20, ab_window = minute, ab_duration = 10 * minute,
        ab_max_tracked = 100000\<rparr>\<rparr>"

definition default_gate_server :: server_config where
  "default_gate_server =
     \<lparr>sv_mode = ''gateway'', sv_listen_addr = ''0.0.0.0:8081'', sv_upstream_proxy_url = ''http://127.0.0.1:8080'',
      sv_read_header_timeout = 5 * second, sv_read_timeout = 30 * second, sv_write_timeout = 60 * second,
      sv_idle_timeout = 90 * second, sv_shutdown_timeout = 10 * second, sv_max_header_bytes = 64 * 2 ^ 10,
      sv_max_request_body_bytes = 8 * 2 ^ 20, sv_max_concurrent_requests = 512, sv_max_concurrent_per_client = 32,
      sv_trusted_proxy_cidrs = [], sv_forwarded_for_header = ''X-Forwarded-For'', sv_preserve_host = True,
      sv_add_security_headers = True, sv_tls = \<lparr>tl_enabled = False, tl_cert_file = [], tl_key_file = []\<rparr>,
      sv_upstream_transport =
        \<lparr>tr_dial_timeout = 5 * second, tr_tls_handshake_timeout = 5 * second, tr_response_header_timeout = 30 * second,
         tr_expect_continue_timeout = second, tr_idle_conn_timeout = 90 * second, tr_max_idle_conns = 256,
         tr_max_idle_conns_per_host = 128, tr_max_conns_per_host = 0, tr_max_response_header_bytes = 2 ^ 20\<rparr>\<rparr>"

definition default_gate_admin :: gate_admin where
  "default_gate_admin =
     \<lparr>ga_enabled = True, ga_listen = ''127.0.0.1:9191'', ga_token = [],
      ga_log = \<lparr>lf_capacity = 10000, lf_default_page = 100, lf_max_page = 500, lf_file = [], lf_max_bytes = 20 * 2 ^ 20,
        lf_backups = 3\<rparr>,
      ga_connectivity = \<lparr>cn_enabled = True, cn_interval = 5 * second, cn_timeout = 3 * second, cn_stale = 15 * second,
        cn_history = 50, cn_dns = \<lparr>dn_enabled = False, dn_critical = False, dn_server = [], dn_names = None, dn_expected = None\<rparr>\<rparr>,
      ga_telemetry = \<lparr>th_enabled = True, th_capacity = 720, th_interval = 5 * second, th_file = []\<rparr>,
      ga_poll_timeout = 5 * second, ga_max_body = 2 ^ 20, ga_auth_failures = 10, ga_lockout = 5 * minute\<rparr>"

definition default_gate_config :: gate_file where
  "default_gate_config =
     \<lparr>gf_server = default_gate_server, gf_admin = default_gate_admin,
      gf_edge = \<lparr>el_path = [], el_url = ''http://127.0.0.1:9090'', el_token = [], el_timeout = 5 * second\<rparr>,
      gf_waf = \<lparr>wf_max_matches = 32, wf_rules = []\<rparr>, gf_policy = default_policy, gf_routes = []\<rparr>"

section \<open>Listeners\<close>

definition gate_is_loopback :: "string \<Rightarrow> bool" where
  "gate_is_loopback host \<longleftrightarrow>
     equal_fold host ''localhost'' \<or> (case parse_ip host of None \<Rightarrow> False | Some ip \<Rightarrow> is_loopback ip)"

definition gate_listener_hosts_overlap :: "string \<Rightarrow> string \<Rightarrow> bool" where
  "gate_listener_hosts_overlap a0 b0 =
     (let a = trim_set ''[]'' (trim_space a0); b = trim_set ''[]'' (trim_space b0) in
      equal_fold a b \<or> any_listener_host a \<or> any_listener_host b \<or> gate_is_loopback a \<and> gate_is_loopback b \<or>
      (case (parse_ip a, parse_ip b) of (Some x, Some y) \<Rightarrow> x = y | _ \<Rightarrow> False))"

definition gate_listeners_overlap :: "config_lib \<Rightarrow> string \<Rightarrow> string \<Rightarrow> bool" where
  "gate_listeners_overlap lib a b =
     (case (split_host_port (trim_space a), split_host_port (trim_space b)) of
        (Some (ah, ap), Some (bh, bp)) \<Rightarrow>
          (case (normalized_listener_port lib ap, normalized_listener_port lib bp) of
             (Some p, Some q) \<Rightarrow> p \<noteq> 0 \<and> q \<noteq> 0 \<and> p = q \<and> gate_listener_hosts_overlap ah bh
           | _ \<Rightarrow> False)
      | _ \<Rightarrow> False)"

definition validate_listen :: "config_lib \<Rightarrow> string \<Rightarrow> string \<Rightarrow> cfg_error list" where
  "validate_listen lib name addr = validate_host_port lib name addr True"

section \<open>Lists of normalised entries\<close>

text \<open>\<^verbatim>\<open>validationLimit\<close>: how much of an overlong list is examined.\<close>

definition too_many :: "int \<Rightarrow> 'a list \<Rightarrow> bool" where
  "too_many m xs \<longleftrightarrow> int (length xs) > m"

definition validation_limit :: "int \<Rightarrow> 'a list \<Rightarrow> 'a list" where
  "validation_limit m xs = (if too_many m xs then take (nat m) xs else xs)"

text \<open>
  Every list is normalised by a loop of the same shape: an entry is reported, skipped, or normalised and kept unless
  it has been seen.
\<close>

fun collect :: "(string \<Rightarrow> cfg_error + string option) \<Rightarrow> string list \<Rightarrow> string list \<Rightarrow> cfg_error list \<times> string list" where
  "collect f [] out = ([], out)"
| "collect f (raw # raws) out =
     (case f raw of
        Inl e \<Rightarrow> (case collect f raws out of (errs, out') \<Rightarrow> (e # errs, out'))
      | Inr None \<Rightarrow> collect f raws out
      | Inr (Some v) \<Rightarrow> collect f raws (if v \<in> set out then out else out @ [v]))"

definition normalize_dns_probe_name :: "string \<Rightarrow> cfg_error + string" where
  "normalize_dns_probe_name raw =
     (let v = to_lower (trim_space raw) in
      if v = [] then Inl (Cfg ''empty domain is not allowed'' [])
      else (case parse_ip v of
              Some ip \<Rightarrow> Inr (ip_string ip)
            | None \<Rightarrow>
                if contains_any v ([CHR '' '', CHR 0x09, CHR 0x0D, CHR 0x0A, CHR 0x00] @ ''/'' @ [CHR 0x5C] @ ''?#@*:'')
                then Inl (Cfg ''must be a hostname or IP address without whitespace, wildcards, ports, or URL syntax'' [])
                else
                  let core = trim_suffix v ''.'' in
                  if core = [] \<or> length core > 253 then Inl (Cfg ''hostname must contain between 1 and 253 characters'' [])
                  else (case find (\<lambda>l. l = [] \<or> length l > 63 \<or>
                                \<not> list_all (\<lambda>b. is_lower_letter b \<or> is_digit b \<or> b = CHR ''-'' \<or> b = CHR ''_'') l)
                               (split_on (CHR ''.'') core) of
                          Some l \<Rightarrow>
                            if l = [] \<or> length l > 63 then Inl (Cfg ''hostname contains an empty or overlong label'' [])
                            else Inl (Cfg ''hostname labels may contain only ASCII letters, digits, hyphens, and underscores'' [])
                        | None \<Rightarrow> Inr (if has_suffix v ''.'' then core @ ''.'' else core))))"

definition dns_name :: "string \<Rightarrow> cfg_error + string option" where
  "dns_name raw =
     (case normalize_dns_probe_name raw of
        Inl e \<Rightarrow> Inl (Wrap ''invalid admin.connectivity.dns.names entry %q: %w'' [raw] e)
      | Inr v \<Rightarrow> Inr (Some v))"

definition dns_address :: "string \<Rightarrow> cfg_error + string option" where
  "dns_address raw =
     (case parse_ip (trim_space raw) of
        None \<Rightarrow> Inl (Cfg ''invalid admin.connectivity.dns.expected_addresses entry %q'' [raw])
      | Some ip \<Rightarrow> Inr (Some (ip_string ip)))"

definition rule_target :: "nat \<Rightarrow> string \<Rightarrow> cfg_error + string option" where
  "rule_target i raw =
     (let t = to_lower (trim_space raw) in
      if t \<in> set [''path'', ''query'', ''body'', ''headers'', ''cookies''] then Inr (Some t)
      else Inl (Cfg ''waf.custom_rules[%d] has unsupported target %q'' [itoa (int i), t]))"

definition body_type :: "gate_lib \<Rightarrow> string \<Rightarrow> string \<Rightarrow> cfg_error + string option" where
  "body_type lib name raw =
     (case gl_media lib (trim_space raw) of
        None \<Rightarrow> Inl (Cfg ''%s.body_content_types contains invalid media type %q'' [name, raw])
      | Some (m, params) \<Rightarrow>
          let media = to_lower (trim_space m) in
          if media = [] \<or> params \<noteq> 0 then Inl (Cfg ''%s.body_content_types contains invalid media type %q'' [name, raw])
          else Inr (Some media))"

definition policy_method :: "string \<Rightarrow> string \<Rightarrow> cfg_error + string option" where
  "policy_method name raw =
     (let m = to_upper (trim_space raw) in
      if m = [] then Inr None
      else if \<not> valid_http_token m then Inl (Cfg ''%s.allowed_methods contains invalid method %q'' [name, m])
      else Inr (Some m))"

text \<open>\<^verbatim>\<open>strings.TrimRight(value, "/")\<close> is the \<open>rev (dropWhile \<dots>)\<close> here.\<close>

definition normalize_policy_path_prefix :: "string \<Rightarrow> cfg_error + string" where
  "normalize_policy_path_prefix raw =
     (let v = trim_space raw in
      if v = [] then Inr []
      else if \<not> has_prefix v ''/'' then Inl (Cfg ''must start with /'' [])
      else if contains_any v ''?#'' then Inl (Cfg ''must contain a path only'' [])
      else (case url_path_unescape v of
              None \<Rightarrow> Inl (Cfg ''contains invalid escaping'' [])
            | Some decoded \<Rightarrow>
                if decoded \<noteq> v then Inl (Cfg ''must not contain percent-encoded path bytes'' [])
                else
                  let t = rev (dropWhile (\<lambda>c. c = CHR ''/'') (rev v)); p = (if t = [] then ''/'' else t) in
                  if path_clean p \<noteq> p
                  then Inl (Cfg ''must be canonical and must not contain dot-segments or repeated slashes'' [])
                  else Inr p))"

definition excluded_prefix :: "string \<Rightarrow> string \<Rightarrow> cfg_error + string option" where
  "excluded_prefix name raw =
     (case normalize_policy_path_prefix raw of
        Inl e \<Rightarrow> Inl (Wrap ''%s.excluded_path_prefixes contains invalid path %q: %w'' [name, raw] e)
      | Inr p \<Rightarrow> Inr (if p = [] then None else Some p))"

definition disabled_rule :: "string \<Rightarrow> cfg_error + string option" where
  "disabled_rule raw = (let i = to_upper (trim_space raw) in Inr (if i = [] then None else Some i))"

definition ip_entry :: "string \<Rightarrow> string \<Rightarrow> cfg_error + string option" where
  "ip_entry name raw =
     (let v = trim_space raw in
      case parse_ip v of
        Some ip \<Rightarrow> Inr (Some (ip_string ip))
      | None \<Rightarrow> (case parse_cidr v of
                   Some n \<Rightarrow> Inr (Some (net_string n))
                 | None \<Rightarrow> Inl (Cfg ''%s contains invalid IP/CIDR %q'' [name, raw])))"

definition normalize_ip_list :: "string \<Rightarrow> string list \<Rightarrow> cfg_error list \<times> string list" where
  "normalize_ip_list name raws = collect (ip_entry name) raws []"

section \<open>Server and administration\<close>

definition normalize_gate_server :: "server_config \<Rightarrow> server_config" where
  "normalize_gate_server s =
     s\<lparr>sv_mode := to_lower (trim_space (sv_mode s)), sv_listen_addr := trim_space (sv_listen_addr s),
       sv_upstream_proxy_url := trim_space (sv_upstream_proxy_url s),
       sv_forwarded_for_header := (let h = trim_space (sv_forwarded_for_header s) in if h = [] then ''X-Forwarded-For'' else h),
       sv_tls := (sv_tls s)\<lparr>tl_cert_file := trim_space (tl_cert_file (sv_tls s)), tl_key_file := trim_space (tl_key_file (sv_tls s))\<rparr>\<rparr>"

definition normalize_gate_admin :: "gate_admin \<Rightarrow> gate_admin" where
  "normalize_gate_admin a =
     a\<lparr>ga_listen := trim_space (ga_listen a), ga_token := trim_space (ga_token a),
       ga_log := (ga_log a)\<lparr>lf_file := trim_space (lf_file (ga_log a))\<rparr>,
       ga_telemetry := (ga_telemetry a)\<lparr>th_file := trim_space (th_file (ga_telemetry a))\<rparr>,
       ga_connectivity := (ga_connectivity a)\<lparr>cn_dns := (cn_dns (ga_connectivity a))
         \<lparr>dn_server := trim_space (dn_server (cn_dns (ga_connectivity a)))\<rparr>\<rparr>\<rparr>"

definition normalize_edge_link :: "edge_link \<Rightarrow> edge_link" where
  "normalize_edge_link e =
     e\<lparr>el_path := trim_space (el_path e), el_url := trim_space (el_url e), el_token := trim_space (el_token e)\<rparr>"

definition credential_errors :: "string \<Rightarrow> string \<Rightarrow> cfg_error list" where
  "credential_errors field v = (if v \<noteq> [] then validate_bearer_credential field v else [])"

definition http_scheme :: "string \<Rightarrow> bool" where
  "http_scheme s \<longleftrightarrow> s = ''http'' \<or> s = ''https''"

definition upstream_url_errors :: "config_lib \<Rightarrow> string \<Rightarrow> cfg_error list" where
  "upstream_url_errors lib raw =
     (case cl_parse_url lib raw of
        Some p \<Rightarrow>
          if \<not> http_scheme (u_scheme (pu_url p)) \<or> u_host (pu_url p) = [] \<or> pu_user p \<or>
             u_path (pu_url p) \<noteq> [] \<and> u_path (pu_url p) \<noteq> ''/'' \<or> u_raw_query (pu_url p) \<noteq> [] \<or> u_fragment (pu_url p) \<noteq> []
          then [Cfg ''server.upstream_proxy_url must be an absolute http(s) origin URL without credentials, non-root paths, queries, or fragments'' []]
          else validate_url_port lib ''server.upstream_proxy_url'' (pu_url p)
      | None \<Rightarrow> [Cfg ''server.upstream_proxy_url must be an absolute http(s) origin URL without credentials, non-root paths, queries, or fragments'' []])"

definition gate_mode_errors :: "config_lib \<Rightarrow> server_config \<Rightarrow> cfg_error list" where
  "gate_mode_errors lib s =
     check (sv_mode s \<noteq> ''gateway'' \<and> sv_mode s \<noteq> ''embedded'') ''server.mode must be gateway or embedded'' [] @
     (if sv_mode s = ''gateway''
      then validate_listen lib ''server.listen_addr'' (sv_listen_addr s) @ upstream_url_errors lib (sv_upstream_proxy_url s)
      else [])"

definition gate_server_errors :: "server_config \<Rightarrow> cfg_error list" where
  "gate_server_errors s =
     check (sv_read_header_timeout s \<le> 0 \<or> sv_shutdown_timeout s \<le> 0)
       ''server read_header_timeout and shutdown_timeout must be positive'' [] @
     check (sv_read_timeout s < 0 \<or> sv_write_timeout s < 0 \<or> sv_idle_timeout s < 0)
       ''server read/write/idle timeouts cannot be negative'' [] @
     check (sv_max_header_bytes s \<le> 0 \<or> sv_max_header_bytes s > 16 * 2 ^ 20)
       ''server.max_header_bytes must be between 1 and 16777216'' [] @
     check (sv_max_request_body_bytes s \<le> 0 \<or> sv_max_request_body_bytes s > 2 ^ 30)
       ''server.max_request_body_bytes must be between 1 and 1073741824'' [] @
     check (sv_max_concurrent_requests s \<le> 0 \<or> sv_max_concurrent_requests s > 1000000 \<or>
            sv_max_concurrent_per_client s \<le> 0 \<or> sv_max_concurrent_per_client s > sv_max_concurrent_requests s)
       ''server concurrency limits must be positive, max_concurrent_requests cannot exceed %d, and per-client cannot exceed global''
       [itoa 1000000] @
     (if \<not> valid_http_token (sv_forwarded_for_header s)
      then [Cfg ''server.forwarded_for_header must be a valid HTTP header field name'' []]
      else check (reserved_client_ip_source_header (sv_forwarded_for_header s))
             ''server.forwarded_for_header %q is reserved and cannot be used as a client IP source'' [sv_forwarded_for_header s]) @
     check (too_many 4096 (sv_trusted_proxy_cidrs s))
       ''server.trusted_proxy_cidrs cannot contain more than %d entries'' [itoa 4096]"

definition gate_tls_errors :: "server_config \<Rightarrow> cfg_error list" where
  "gate_tls_errors s =
     check (tl_enabled (sv_tls s) \<and> sv_mode s \<noteq> ''gateway'') ''server.tls.enabled requires server.mode gateway'' [] @
     check (tl_enabled (sv_tls s) \<and> (tl_cert_file (sv_tls s) = [] \<or> tl_key_file (sv_tls s) = []))
       ''server.tls.cert_file and key_file are required when TLS is enabled'' []"

definition validate_transport :: "transport_config \<Rightarrow> cfg_error list" where
  "validate_transport t =
     concat (map (\<lambda>(name, d). check (d \<le> 0) ''server.upstream_transport.%s must be positive'' [name])
       [(''dial_timeout'', tr_dial_timeout t), (''tls_handshake_timeout'', tr_tls_handshake_timeout t),
        (''response_header_timeout'', tr_response_header_timeout t),
        (''expect_continue_timeout'', tr_expect_continue_timeout t), (''idle_conn_timeout'', tr_idle_conn_timeout t)]) @
     check (tr_max_idle_conns t \<le> 0 \<or> tr_max_idle_conns t > 1000000 \<or>
            tr_max_idle_conns_per_host t \<le> 0 \<or> tr_max_idle_conns_per_host t > 1000000 \<or>
            tr_max_conns_per_host t < 0 \<or> tr_max_conns_per_host t > 1000000)
       ''server upstream connection limits must be between 0 or 1 (as applicable) and %d'' [itoa 1000000] @
     check (tr_max_response_header_bytes t \<le> 0 \<or> tr_max_response_header_bytes t > 16 * 2 ^ 20)
       ''server.upstream_transport.max_response_header_bytes must be between 1 and %d'' [itoa (16 * 2 ^ 20)]"

text \<open>The bounds of the event store hold whether or not administration is enabled.\<close>

definition log_file_errors :: "log_file_config \<Rightarrow> cfg_error list" where
  "log_file_errors l =
     check (lf_capacity l \<le> 0 \<or> lf_capacity l > 100000) ''admin.log_store.capacity must be between 1 and %d'' [itoa 100000] @
     (if lf_file l \<noteq> []
      then check (lf_max_bytes l \<le> 0 \<or> lf_max_bytes l > 2 ^ 30)
             ''admin.log_store.max_file_bytes must be between 1 and %d when file logging is enabled'' [itoa (2 ^ 30)] @
           check (lf_backups l < 0 \<or> lf_backups l > 100)
             ''admin.log_store.max_backups must be between 0 and %d when file logging is enabled'' [itoa 100]
      else [])"

definition log_page_errors :: "log_file_config \<Rightarrow> cfg_error list" where
  "log_page_errors l =
     check (lf_default_page l \<le> 0 \<or> lf_max_page l \<le> 0) ''admin.log_store page sizes must be positive'' [] @
     check (lf_default_page l > lf_max_page l \<or> lf_max_page l > lf_capacity l)
       ''admin.log_store requires default_page_size <= max_page_size <= capacity'' []"

definition telemetry_errors :: "telemetry_config \<Rightarrow> cfg_error list" where
  "telemetry_errors t =
     (if \<not> th_enabled t then []
      else check (th_capacity t < 2 \<or> th_capacity t > 10000)
             ''admin.telemetry_history.capacity must be between 2 and 10000'' [] @
           check (th_interval t < second \<or> th_interval t > 60 * minute)
             ''admin.telemetry_history.sample_interval must be between 1s and 1h'' [])"

definition validate_dns :: "config_lib \<Rightarrow> dns_config \<Rightarrow> cfg_error list \<times> dns_config" where
  "validate_dns lib d =
     (if \<not> dn_enabled d then ([], d)
      else let (name_errs, names) = collect dns_name (validation_limit 256 (items (dn_names d))) [];
               (address_errs, expected) = collect dns_address (validation_limit 256 (items (dn_expected d))) []
           in (check (too_many 256 (items (dn_names d))) ''admin.connectivity.dns.names cannot contain more than %d entries'' [itoa 256] @
               check (too_many 256 (items (dn_expected d)))
                 ''admin.connectivity.dns.expected_addresses cannot contain more than %d entries'' [itoa 256] @
               validate_host_port lib ''admin.connectivity.dns.server'' (dn_server d) False @ name_errs @
               check (names = []) ''admin.connectivity.dns.names must contain at least one domain when DNS probing is enabled'' [] @
               address_errs,
               d\<lparr>dn_names := Some names, dn_expected := Some expected\<rparr>))"

definition validate_connectivity :: "config_lib \<Rightarrow> connectivity_config \<Rightarrow> cfg_error list \<times> connectivity_config" where
  "validate_connectivity lib c =
     (if \<not> cn_enabled c then ([], c)
      else let (dns_errs, dns) = validate_dns lib (cn_dns c)
           in (check (cn_interval c < second \<or> cn_interval c > 60 * minute)
                 ''admin.connectivity.check_interval must be between 1s and 1h'' [] @
               check (cn_timeout c \<le> 0 \<or> cn_timeout c > cn_interval c)
                 ''admin.connectivity.timeout must be positive and cannot exceed check_interval'' [] @
               check (cn_stale c < cn_interval c) ''admin.connectivity.stale_after cannot be shorter than check_interval'' [] @
               check (cn_history c < 1 \<or> cn_history c > 10000)
                 ''admin.connectivity.history_capacity must be between 1 and 10000'' [] @ dns_errs,
               c\<lparr>cn_dns := dns\<rparr>))"

definition validate_gate_admin :: "config_lib \<Rightarrow> server_config \<Rightarrow> gate_admin \<Rightarrow> cfg_error list \<times> gate_admin" where
  "validate_gate_admin lib s a =
     (if \<not> ga_enabled a then ([], a)
      else let (conn_errs, conn) = validate_connectivity lib (ga_connectivity a);
               host = (case split_host_port (ga_listen a) of None \<Rightarrow> [] | Some (h, _) \<Rightarrow> h)
           in (check (sv_mode s = ''gateway'' \<and> gate_listeners_overlap lib (sv_listen_addr s) (ga_listen a))
                 ''server.listen_addr %q and admin.listen_addr %q overlap'' [sv_listen_addr s, ga_listen a] @
               validate_listen lib ''admin.listen_addr'' (ga_listen a) @
               check (trim_space (ga_token a) = [] \<and> \<not> gate_is_loopback host)
                 ''admin.auth_token is required when admin is not loopback'' [] @
               log_page_errors (ga_log a) @ telemetry_errors (ga_telemetry a) @ conn_errs @
               check (ga_max_body a \<le> 0 \<or> ga_max_body a > 16 * 2 ^ 20)
                 ''admin.max_request_body_bytes must be between 1 and 16777216'' [] @
               check (ga_poll_timeout a \<le> 0 \<or> ga_poll_timeout a > 5 * minute)
                 ''admin.poll_timeout must be positive and no greater than 5m'' [] @
               check (ga_auth_failures a \<le> 0 \<or> ga_lockout a \<le> 0)
                 ''admin auth failure and lockout settings must be positive'' [],
               a\<lparr>ga_connectivity := conn\<rparr>))"

definition edge_link_errors :: "config_lib \<Rightarrow> edge_link \<Rightarrow> cfg_error list" where
  "edge_link_errors lib e =
     check (el_path e = []) ''edgeproxy.config_path is required'' [] @
     (if el_url e = [] then [Cfg ''edgeproxy.admin_url is required'' []]
      else (case cl_parse_url lib (el_url e) of
              Some p \<Rightarrow>
                if \<not> http_scheme (u_scheme (pu_url p)) \<or> u_host (pu_url p) = [] \<or> pu_user p \<or>
                   u_raw_query (pu_url p) \<noteq> [] \<or> u_fragment (pu_url p) \<noteq> []
                then [Cfg ''edgeproxy.admin_url must be an absolute http(s) URL without credentials, queries, or fragments'' []]
                else validate_url_port lib ''edgeproxy.admin_url'' (pu_url p)
            | None \<Rightarrow>
                [Cfg ''edgeproxy.admin_url must be an absolute http(s) URL without credentials, queries, or fragments'' []])) @
     check (el_timeout e \<le> 0 \<or> el_timeout e > 5 * minute) ''edgeproxy.timeout must be positive and no greater than 5m'' []"

section \<open>Custom rules\<close>

definition normalize_rule :: "custom_rule_config \<Rightarrow> custom_rule_config" where
  "normalize_rule r =
     r\<lparr>cu_id := to_upper (trim_space (cu_id r)), cu_name := trim_space (cu_name r),
       cu_category := to_lower (trim_space (cu_category r))\<rparr>"

definition rule_limit_errors :: "string \<Rightarrow> custom_rule_config \<Rightarrow> cfg_error list" where
  "rule_limit_errors i r =
     check (cu_name r = [] \<or> cu_category r = [] \<or> cu_description r = [] \<or> cu_targets r = [] \<or> cu_pattern r = [])
       ''waf.custom_rules[%d] is incomplete'' [i] @
     check (length (cu_id r) > 128 \<or> length (cu_name r) > 256 \<or> length (cu_category r) > 128 \<or> length (cu_description r) > 2048)
       ''waf.custom_rules[%d] contains an overlong id, name, category, or description'' [i] @
     check (length (cu_pattern r) > 4 * 2 ^ 10) ''waf.custom_rules[%d].pattern cannot exceed %d bytes'' [i, itoa (4 * 2 ^ 10)] @
     check (cu_score r \<le> 0 \<or> cu_score r > max_custom_rule_score)
       ''waf.custom_rules[%d].score must be between 1 and %d'' [i, itoa max_custom_rule_score] @
     check (too_many 5 (cu_targets r)) ''waf.custom_rules[%d].targets cannot contain more than %d entries'' [i, itoa 5]"

fun validate_rule_list ::
  "gate_lib \<Rightarrow> nat \<Rightarrow> string list \<Rightarrow> custom_rule_config list \<Rightarrow> cfg_error list \<times> custom_rule_config list" where
  "validate_rule_list lib i seen [] = ([], [])"
| "validate_rule_list lib i seen (r0 # rs) =
     (let r = normalize_rule r0; (target_errs, targets) = collect (rule_target i) (cu_targets r) [];
          (errs, rs') = validate_rule_list lib (Suc i) (cu_id r # seen) rs
      in (check (cu_id r = [] \<or> cu_id r \<in> set seen) ''waf.custom_rules[%d].id is empty or duplicated'' [itoa (int i)] @
          rule_limit_errors (itoa (int i)) r @ target_errs @
          check (length (cu_pattern r) \<le> 4 * 2 ^ 10 \<and> \<not> gl_compiles lib (cu_pattern r))
            ''waf.custom_rules[%d].pattern'' [itoa (int i)] @ errs,
          r\<lparr>cu_targets := targets\<rparr> # rs'))"

definition validate_custom_rules :: "gate_lib \<Rightarrow> custom_rule_config list \<Rightarrow> cfg_error list \<times> custom_rule_config list" where
  "validate_custom_rules lib rules =
     (case validate_rule_list lib 0 [] (validation_limit 256 rules) of (errs, rs) \<Rightarrow>
        (check (too_many 256 rules) ''waf.custom_rules cannot contain more than %d entries'' [itoa 256] @ errs, rs @ drop 256 rules))"

section \<open>Policies\<close>

definition policy_limit_errors :: "string \<Rightarrow> policy \<Rightarrow> cfg_error list" where
  "policy_limit_errors name p =
     check (po_mode p \<notin> set [''block'', ''log'', ''off'']) ''%s.mode must be block, log, or off'' [name] @
     check (po_threshold p \<le> 0 \<or> po_threshold p > 1000) ''%s.anomaly_threshold must be between 1 and 1000'' [name] @
     check (po_max_inspection p < 0 \<or> po_max_inspection p > 16 * 2 ^ 20)
       ''%s.max_inspection_body_bytes must be between 0 and 16777216'' [name] @
     check (po_inspect_body p \<and> po_max_inspection p \<le> 0)
       ''%s.max_inspection_body_bytes must be positive when request-body inspection is enabled'' [name] @
     check (too_many 128 (po_body_types p)) ''%s.body_content_types cannot contain more than %d entries'' [name, itoa 128] @
     check (too_many 128 (po_methods p)) ''%s.allowed_methods cannot contain more than %d entries'' [name, itoa 128] @
     check (too_many 4096 (po_excluded p)) ''%s.excluded_path_prefixes cannot contain more than %d entries'' [name, itoa 4096] @
     check (too_many 4096 (po_disabled p)) ''%s.disabled_rules cannot contain more than %d entries'' [name, itoa 4096] @
     check (too_many 4096 (po_allowlist p) \<or> too_many 4096 (po_denylist p))
       ''%s IP allow/deny lists cannot contain more than %d entries each'' [name, itoa 4096]"

definition shape_errors :: "string \<Rightarrow> policy \<Rightarrow> cfg_error list" where
  "shape_errors name p =
     check (po_max_path p \<le> 0 \<or> po_max_path p > 2 ^ 20 \<or> po_max_query p \<le> 0 \<or> po_max_query p > 16 * 2 ^ 20)
       ''%s path/query limits are invalid'' [name] @
     check (po_max_headers p \<le> 0 \<or> po_max_headers p > 10000 \<or> po_max_header_value p \<le> 0 \<or> po_max_header_value p > 16 * 2 ^ 20)
       ''%s header limits are invalid'' [name]"

definition rate_errors :: "string \<Rightarrow> rate_limit_config \<Rightarrow> cfg_error list" where
  "rate_errors name r =
     (if \<not> rl_enabled r then []
      else check (rl_rate r \<le> 0 \<or> rl_rate r > 1000000 \<or> rl_global_rate r \<le> 0 \<or> rl_global_rate r > 1000000 \<or>
                  rl_burst r \<le> 0 \<or> rl_burst r > 1000000 \<or> rl_global_burst r \<le> 0 \<or> rl_global_burst r > 1000000)
             ''%s rate_limit rates and bursts must be positive and cannot exceed %.0f requests/s or %d burst tokens''
             [name, itoa 1000000, itoa 1000000] @
           check (rl_cleanup_interval r \<le> 0 \<or> rl_idle_ttl r \<le> 0 \<or> rl_max_buckets r < 2 \<or> rl_max_buckets r > 1000000)
             ''%s rate_limit lifecycle settings must be positive and max_buckets must be between 2 and %d'' [name, itoa 1000000])"

definition auto_ban_errors :: "string \<Rightarrow> auto_ban_config \<Rightarrow> cfg_error list" where
  "auto_ban_errors name b =
     (if \<not> ab_enabled b then []
      else check (ab_threshold b \<le> 0 \<or> ab_threshold b > 10000 \<or> ab_window b \<le> 0 \<or> ab_duration b \<le> 0 \<or>
                  ab_max_tracked b \<le> 0 \<or> ab_max_tracked b > 1000000)
             ''%s auto_ban settings must be positive, violation_threshold cannot exceed %d, and max_tracked_clients cannot exceed %d''
             [name, itoa 10000, itoa 1000000])"

definition validate_policy :: "gate_lib \<Rightarrow> string \<Rightarrow> policy \<Rightarrow> cfg_error list \<times> policy" where
  "validate_policy lib name p0 =
     (let p = p0\<lparr>po_mode := to_lower (trim_space (po_mode p0))\<rparr>;
          (type_errs, types) = collect (body_type lib name) (validation_limit 128 (po_body_types p)) [];
          (method_errs, methods) = collect (policy_method name) (validation_limit 128 (po_methods p)) [];
          (excluded_errs, excluded) = collect (excluded_prefix name) (validation_limit 4096 (po_excluded p)) [];
          (_, disabled) = collect disabled_rule (validation_limit 4096 (po_disabled p)) [];
          (allow_errs, allow) = normalize_ip_list (name @ ''.ip_allowlist'') (validation_limit 4096 (po_allowlist p));
          (deny_errs, deny) = normalize_ip_list (name @ ''.ip_denylist'') (validation_limit 4096 (po_denylist p))
      in (policy_limit_errors name p @ type_errs @
          check (po_inspect_body p \<and> types = [])
            ''%s.body_content_types cannot be empty when request-body inspection is enabled'' [name] @
          shape_errors name p @ method_errs @ excluded_errs @ rate_errors name (po_rate_limit p) @
          auto_ban_errors name (po_auto_ban p) @ allow_errs @ deny_errs @
          map (\<lambda>item. Cfg ''%s contains %q in both allowlist and denylist'' [name, item]) (filter (\<lambda>item. item \<in> set deny) allow),
          p\<lparr>po_body_types := types, po_methods := methods, po_excluded := excluded, po_disabled := disabled,
            po_allowlist := allow, po_denylist := deny\<rparr>))"

text \<open>A policy of a route shares the storage of limiter and bans with the default policy \<open>d\<close>.\<close>

definition shared_storage_errors :: "string \<Rightarrow> policy \<Rightarrow> policy \<Rightarrow> cfg_error list" where
  "shared_storage_errors name d p =
     check (rl_cleanup_interval (po_rate_limit p) \<noteq> rl_cleanup_interval (po_rate_limit d) \<or>
            rl_idle_ttl (po_rate_limit p) \<noteq> rl_idle_ttl (po_rate_limit d) \<or>
            rl_max_buckets (po_rate_limit p) \<noteq> rl_max_buckets (po_rate_limit d))
       ''route_policies.%s rate_limit cleanup_interval, idle_ttl, and max_buckets must match default_policy because limiter storage is process-wide''
       [name] @
     check (ab_max_tracked (po_auto_ban p) \<noteq> ab_max_tracked (po_auto_ban d))
       ''route_policies.%s auto_ban.max_tracked_clients must match default_policy because ban tracking is process-wide'' [name]"

definition validate_route_policy ::
  "gate_lib \<Rightarrow> server_config \<Rightarrow> policy \<Rightarrow> string \<Rightarrow> policy \<Rightarrow> cfg_error list \<times> policy" where
  "validate_route_policy lib s d name p0 =
     (let trimmed = trim_space name in
      if trimmed = [] then ([Cfg ''route policy name cannot be empty'' []], p0)
      else (case validate_policy lib (''route_policies.'' @ name) p0 of (errs, p) \<Rightarrow>
              (check (trimmed \<noteq> name) ''route policy name %q must not contain surrounding whitespace'' [name] @
               check (equal_fold trimmed ''__unmatched__'')
                 ''route policy name %q is reserved for internal unmatched-request telemetry'' [name] @
               errs @
               check (po_max_inspection p > sv_max_request_body_bytes s)
                 ''route_policies.%s.max_inspection_body_bytes cannot exceed server.max_request_body_bytes'' [name] @
               shared_storage_errors name d p, p)))"

fun validate_route_policies ::
  "gate_lib \<Rightarrow> server_config \<Rightarrow> policy \<Rightarrow> string list \<Rightarrow> (string, policy) gomap \<Rightarrow> cfg_error list \<times> (string, policy) gomap" where
  "validate_route_policies lib s d [] m = ([], m)"
| "validate_route_policies lib s d (name # names) m =
     (case gm_get m name of
        None \<Rightarrow> validate_route_policies lib s d names m
      | Some p0 \<Rightarrow>
          (case validate_route_policy lib s d name p0 of (errs, p) \<Rightarrow>
           case validate_route_policies lib s d names (gm_put name p m) of (errs', m') \<Rightarrow> (errs @ errs', m')))"

section \<open>The whole configuration\<close>

definition validate_gate_config :: "gate_lib \<Rightarrow> gate_file \<Rightarrow> cfg_error list \<times> gate_file" where
  "validate_gate_config lib c =
     (let s = normalize_gate_server (gf_server c); a = normalize_gate_admin (gf_admin c); e = normalize_edge_link (gf_edge c);
          (trusted_errs, trusted) = validate_trusted (validation_limit 4096 (sv_trusted_proxy_cidrs s)) [];
          (admin_errs, admin) = validate_gate_admin (gl_net lib) s a;
          (rule_errs, rules) = validate_custom_rules lib (wf_rules (gf_waf c));
          (policy_errs, d) = validate_policy lib ''default_policy'' (gf_policy c);
          names = (if too_many 2048 (gf_routes c) then [] else sort (map fst (gf_routes c)));
          (route_errs, routes) = validate_route_policies lib s d names (gf_routes c)
      in (credential_errors ''admin.auth_token'' (ga_token a) @ credential_errors ''edgeproxy.admin_token'' (el_token e) @
          gate_mode_errors (gl_net lib) s @ gate_server_errors s @ trusted_errs @ gate_tls_errors s @
          validate_transport (sv_upstream_transport s) @ log_file_errors (ga_log a) @ admin_errs @
          edge_link_errors (gl_net lib) e @
          check (wf_max_matches (gf_waf c) \<le> 0 \<or> wf_max_matches (gf_waf c) > 256)
            ''waf.maximum_matches_per_request must be between 1 and 256'' [] @
          rule_errs @ policy_errs @
          check (po_max_inspection d > sv_max_request_body_bytes s)
            ''default_policy.max_inspection_body_bytes cannot exceed server.max_request_body_bytes'' [] @
          check (too_many 2048 (gf_routes c)) ''route_policies cannot contain more than %d entries'' [itoa 2048] @ route_errs,
          c\<lparr>gf_server := s\<lparr>sv_trusted_proxy_cidrs := trusted\<rparr>, gf_admin := admin, gf_edge := e,
            gf_waf := (gf_waf c)\<lparr>wf_rules := rules\<rparr>, gf_policy := d, gf_routes := routes\<rparr>))"

section \<open>The environment\<close>

definition env_list :: "environment \<Rightarrow> string \<Rightarrow> string list \<Rightarrow> string list" where
  "env_list env key vs = (case non_empty_environment env key of None \<Rightarrow> vs | Some t \<Rightarrow> split_environment_list t)"

definition env_slice :: "environment \<Rightarrow> string \<Rightarrow> slice \<Rightarrow> slice" where
  "env_slice env key vs = (case non_empty_environment env key of None \<Rightarrow> vs | Some t \<Rightarrow> Some (split_environment_list t))"

definition env_flag :: "environment \<Rightarrow> string \<Rightarrow> bool \<Rightarrow> cfg_error + bool" where
  "env_flag env key v =
     (case non_empty_environment env key of
        None \<Rightarrow> Inr v
      | Some t \<Rightarrow> (case parse_bool t of None \<Rightarrow> Inl (Cfg (key @ '' must be a boolean'') []) | Some b \<Rightarrow> Inr b))"

definition override_gate_server :: "environment \<Rightarrow> bool \<Rightarrow> server_config \<Rightarrow> server_config" where
  "override_gate_server env tls s =
     s\<lparr>sv_listen_addr := apply_string_env env ''SECURITYEDGE_SERVER_LISTEN_ADDR'' (sv_listen_addr s),
       sv_upstream_proxy_url := apply_string_env env ''SECURITYEDGE_UPSTREAM_PROXY_URL'' (sv_upstream_proxy_url s),
       sv_forwarded_for_header := apply_string_env env ''SECURITYEDGE_FORWARDED_FOR_HEADER'' (sv_forwarded_for_header s),
       sv_trusted_proxy_cidrs := env_list env ''SECURITYEDGE_TRUSTED_PROXY_CIDRS'' (sv_trusted_proxy_cidrs s),
       sv_tls := (sv_tls s)\<lparr>tl_enabled := tls,
         tl_cert_file := apply_string_env env ''SECURITYEDGE_TLS_CERT_FILE'' (tl_cert_file (sv_tls s)),
         tl_key_file := apply_string_env env ''SECURITYEDGE_TLS_KEY_FILE'' (tl_key_file (sv_tls s))\<rparr>\<rparr>"

definition override_dns :: "environment \<Rightarrow> bool \<Rightarrow> bool \<Rightarrow> dns_config \<Rightarrow> dns_config" where
  "override_dns env enabled critical d =
     d\<lparr>dn_server := apply_string_env env ''SECURITYEDGE_DNS_SERVER'' (dn_server d),
       dn_names := env_slice env ''SECURITYEDGE_DNS_NAMES'' (dn_names d),
       dn_expected := env_slice env ''SECURITYEDGE_DNS_EXPECTED_ADDRESSES'' (dn_expected d),
       dn_enabled := enabled, dn_critical := critical\<rparr>"

definition override_gate_admin :: "environment \<Rightarrow> bool \<Rightarrow> bool \<Rightarrow> gate_admin \<Rightarrow> gate_admin" where
  "override_gate_admin env enabled critical a =
     a\<lparr>ga_listen := apply_string_env env ''SECURITYEDGE_ADMIN_LISTEN_ADDR'' (ga_listen a),
       ga_token := apply_string_env env ''SECURITYEDGE_ADMIN_TOKEN'' (ga_token a),
       ga_log := (ga_log a)\<lparr>lf_file := apply_string_env env ''SECURITYEDGE_LOG_FILE_PATH'' (lf_file (ga_log a))\<rparr>,
       ga_telemetry := (ga_telemetry a)
         \<lparr>th_file := apply_string_env env ''SECURITYEDGE_TELEMETRY_HISTORY_FILE'' (th_file (ga_telemetry a))\<rparr>,
       ga_connectivity := (ga_connectivity a)\<lparr>cn_dns := override_dns env enabled critical (cn_dns (ga_connectivity a))\<rparr>\<rparr>"

definition override_edge_link :: "environment \<Rightarrow> edge_link \<Rightarrow> edge_link" where
  "override_edge_link env e =
     e\<lparr>el_path := apply_string_env env ''SECURITYEDGE_EDGEPROXY_CONFIG_PATH'' (el_path e),
       el_url := apply_string_env env ''SECURITYEDGE_EDGEPROXY_ADMIN_URL'' (el_url e),
       el_token := apply_string_env env ''EDGEPROXY_ADMIN_TOKEN'' (el_token e)\<rparr>"

definition apply_gate_overrides :: "environment \<Rightarrow> gate_file \<Rightarrow> cfg_error + gate_file" where
  "apply_gate_overrides env c =
     (let dns = cn_dns (ga_connectivity (gf_admin c)) in
      case env_flag env ''SECURITYEDGE_TLS_ENABLED'' (tl_enabled (sv_tls (gf_server c))) of
        Inl e \<Rightarrow> Inl e
      | Inr tls \<Rightarrow>
          (case env_flag env ''SECURITYEDGE_DNS_ENABLED'' (dn_enabled dns) of
             Inl e \<Rightarrow> Inl e
           | Inr enabled \<Rightarrow>
               (case env_flag env ''SECURITYEDGE_DNS_CRITICAL'' (dn_critical dns) of
                  Inl e \<Rightarrow> Inl e
                | Inr critical \<Rightarrow>
                    Inr (c\<lparr>gf_server := override_gate_server env tls (gf_server c),
                           gf_admin := override_gate_admin env enabled critical (gf_admin c),
                           gf_edge := override_edge_link env (gf_edge c)\<rparr>))))"

definition gate_managed_fields :: "gate_file \<Rightarrow> gate_file \<Rightarrow> (string \<times> string \<times> bool) list" where
  "gate_managed_fields a b =
     (let s = gf_server a; s' = gf_server b; m = gf_admin a; m' = gf_admin b; e = gf_edge a; e' = gf_edge b;
          d = cn_dns (ga_connectivity m); d' = cn_dns (ga_connectivity m') in
      [(''SECURITYEDGE_SERVER_LISTEN_ADDR'', ''server.listen_addr'', sv_listen_addr s \<noteq> sv_listen_addr s'),
       (''SECURITYEDGE_UPSTREAM_PROXY_URL'', ''server.upstream_proxy_url'', sv_upstream_proxy_url s \<noteq> sv_upstream_proxy_url s'),
       (''SECURITYEDGE_FORWARDED_FOR_HEADER'', ''server.forwarded_for_header'', sv_forwarded_for_header s \<noteq> sv_forwarded_for_header s'),
       (''SECURITYEDGE_TRUSTED_PROXY_CIDRS'', ''server.trusted_proxy_cidrs'', sv_trusted_proxy_cidrs s \<noteq> sv_trusted_proxy_cidrs s'),
       (''SECURITYEDGE_TLS_ENABLED'', ''server.tls.enabled'', tl_enabled (sv_tls s) \<noteq> tl_enabled (sv_tls s')),
       (''SECURITYEDGE_TLS_CERT_FILE'', ''server.tls.cert_file'', tl_cert_file (sv_tls s) \<noteq> tl_cert_file (sv_tls s')),
       (''SECURITYEDGE_TLS_KEY_FILE'', ''server.tls.key_file'', tl_key_file (sv_tls s) \<noteq> tl_key_file (sv_tls s')),
       (''SECURITYEDGE_ADMIN_LISTEN_ADDR'', ''admin.listen_addr'', ga_listen m \<noteq> ga_listen m'),
       (''SECURITYEDGE_ADMIN_TOKEN'', ''admin.auth_token'', ga_token m \<noteq> ga_token m'),
       (''SECURITYEDGE_LOG_FILE_PATH'', ''admin.log_store.file_path'', lf_file (ga_log m) \<noteq> lf_file (ga_log m')),
       (''SECURITYEDGE_TELEMETRY_HISTORY_FILE'', ''admin.telemetry_history.file_path'',
          th_file (ga_telemetry m) \<noteq> th_file (ga_telemetry m')),
       (''SECURITYEDGE_DNS_SERVER'', ''admin.connectivity.dns.server'', dn_server d \<noteq> dn_server d'),
       (''SECURITYEDGE_DNS_NAMES'', ''admin.connectivity.dns.names'', dn_names d \<noteq> dn_names d'),
       (''SECURITYEDGE_DNS_EXPECTED_ADDRESSES'', ''admin.connectivity.dns.expected_addresses'', dn_expected d \<noteq> dn_expected d'),
       (''SECURITYEDGE_DNS_ENABLED'', ''admin.connectivity.dns.enabled'', dn_enabled d \<noteq> dn_enabled d'),
       (''SECURITYEDGE_DNS_CRITICAL'', ''admin.connectivity.dns.critical'', dn_critical d \<noteq> dn_critical d'),
       (''SECURITYEDGE_EDGEPROXY_CONFIG_PATH'', ''edgeproxy.config_path'', el_path e \<noteq> el_path e'),
       (''SECURITYEDGE_EDGEPROXY_ADMIN_URL'', ''edgeproxy.admin_url'', el_url e \<noteq> el_url e'),
       (''EDGEPROXY_ADMIN_TOKEN'', ''edgeproxy.admin_token'', el_token e \<noteq> el_token e')])"

definition gate_managed_changes :: "environment \<Rightarrow> gate_file \<Rightarrow> gate_file \<Rightarrow> cfg_error option" where
  "gate_managed_changes env a b =
     (let locked = map (\<lambda>(key, field, _). field @ '' ('' @ key @ '')'')
            (filter (\<lambda>(key, _, changed). non_empty_environment env key \<noteq> None \<and> changed) (gate_managed_fields a b)) in
      if locked = [] then None
      else Some (Cfg ''configuration fields are managed by environment overrides and cannot be changed through the file/API: %s''
             [join_with '', '' locked]))"

text \<open>\<^verbatim>\<open>LoadFile\<close> after the document has been read and decoded, and \<^verbatim>\<open>Load\<close>.\<close>

definition gate_accept :: "gate_lib \<Rightarrow> gate_file \<Rightarrow> cfg_error list + gate_file" where
  "gate_accept lib c = (case validate_gate_config lib c of (errs, c') \<Rightarrow> if errs = [] then Inr c' else Inl errs)"

definition gate_load_file :: "gate_lib \<Rightarrow> cfg_error + gate_file \<Rightarrow> cfg_error list + gate_file" where
  "gate_load_file lib doc = (case doc of Inl e \<Rightarrow> Inl [e] | Inr c \<Rightarrow> gate_accept lib c)"

definition gate_load_config :: "gate_lib \<Rightarrow> environment \<Rightarrow> cfg_error + gate_file \<Rightarrow> cfg_error list + gate_file" where
  "gate_load_config lib env doc =
     (case gate_load_file lib doc of
        Inl errs \<Rightarrow> Inl errs
      | Inr c \<Rightarrow> (case apply_gate_overrides env c of Inl e \<Rightarrow> Inl [e] | Inr c' \<Rightarrow> gate_accept lib c'))"

end
