(* ===== verification/Gate_Config_Correct.thy ===== *)
theory Gate_Config_Correct
  imports Gate_Config Config_Rules_Correct Gateway Waf_Correct
begin

text \<open>
  What SecurityEdge may rely on once a configuration has been accepted: the loops that normalise lists, what each
  part of \<^verbatim>\<open>Validate\<close> guarantees, and how the normalised values relate to the gateway that uses them.
\<close>

section \<open>Trimming and letter case\<close>

text \<open>A change of letter case leaves every byte of a white space rune as it is and makes none.\<close>

definition keeps_space :: "(char \<Rightarrow> char) \<Rightarrow> bool" where
  "keeps_space f \<longleftrightarrow> (\<forall>c. f c \<noteq> c \<longrightarrow> plain_char c \<and> plain_char (f c))"

lemma keeps_space_case: "keeps_space upper_char" "keeps_space lower_char"
proof -
  have "upper_char c \<noteq> c \<Longrightarrow> is_upper_letter (upper_char c) \<and> is_lower_letter c"
    "lower_char c \<noteq> c \<Longrightarrow> is_lower_letter (lower_char c) \<and> is_upper_letter c" for c
    by (auto simp: upper_char_def lower_char_def is_upper_letter_def is_lower_letter_def Let_def)
  then show "keeps_space upper_char" "keeps_space lower_char" using letter_plain unfolding keeps_space_def by blast+
qed

lemma keeps_space_eq: "keeps_space f \<Longrightarrow> \<not> plain_char d \<Longrightarrow> f c = d \<longleftrightarrow> c = d"
  unfolding keeps_space_def by metis

lemma has_prefix_map:
  assumes "keeps_space f" "list_all (\<lambda>c. \<not> plain_char c) p"
  shows "has_prefix (map f s) p = has_prefix s p"
  using assms(2)
proof (induction p arbitrary: s)
  case (Cons c p)
  then show ?case using keeps_space_eq [OF assms(1)] by (cases s) (simp_all add: has_prefix_def)
qed (simp add: has_prefix_def)

lemma trim_left_seqs_map:
  assumes "keeps_space f" "\<forall>p \<in> set seqs. list_all (\<lambda>c. \<not> plain_char c) p"
  shows "trim_left_seqs seqs (map f s) = map f (trim_left_seqs seqs s)"
proof (induction s rule: length_induct)
  case (1 s)
  have "find (\<lambda>p. p \<noteq> [] \<and> has_prefix (map f s) p) seqs = find (\<lambda>p. p \<noteq> [] \<and> has_prefix s p) seqs"
    using assms has_prefix_map [OF assms(1)] by (intro find_cong) auto
  then have strip: "strip_seq seqs (map f s) = map_option (map f) (strip_seq seqs s)"
    by (simp add: strip_seq_def option.map_comp comp_def drop_map)
  show ?case
  proof (cases "strip_seq seqs s")
    case (Some r)
    then have "length r < length s" by (auto dest!: strip_seq_Some)
    with 1 Some strip show ?thesis by (simp add: trim_left_seqs.simps [of seqs "map f s"] trim_left_seqs.simps [of seqs s])
  qed (use strip in \<open>simp add: trim_left_seqs.simps\<close>)
qed

lemma trim_space_map:
  assumes "keeps_space f"
  shows "trim_space (map f s) = map f (trim_space s)"
proof -
  have a: "\<forall>p \<in> set space_seqs. list_all (\<lambda>c. \<not> plain_char c) p" by (auto simp: plain_char_def list_all_iff)
  then have b: "\<forall>p \<in> set (map rev space_seqs). list_all (\<lambda>c. \<not> plain_char c) p" by (auto simp: list_all_iff)
  show ?thesis unfolding trim_space_def trim_left_seqs_map [OF assms a] rev_map trim_left_seqs_map [OF assms b] ..
qed

lemma trim_space_case [simp]:
  "trim_space (to_upper s) = to_upper (trim_space s)" "trim_space (to_lower s) = to_lower (trim_space s)"
  unfolding to_upper_def to_lower_def by (rule trim_space_map, rule keeps_space_case)+

lemma to_upper_idem [simp]: "to_upper (to_upper s) = to_upper s"
  by (auto simp: to_upper_def upper_char_def Let_def)

section \<open>Normalised lists\<close>

lemma validation_limit_all [simp]: "\<not> too_many m xs \<Longrightarrow> validation_limit m xs = xs"
  by (simp add: validation_limit_def)

lemma collect_spec:
  "collect f raws out = ([], out') \<Longrightarrow> distinct out \<Longrightarrow>
     distinct out' \<and> (\<forall>raw \<in> set raws. \<exists>v. f raw = Inr v) \<and>
     set out' = set out \<union> {v. \<exists>raw \<in> set raws. f raw = Inr (Some v)} \<and> length out' \<le> length out + length raws"
proof (induction raws arbitrary: out)
  case (Cons raw raws)
  consider e where "f raw = Inl e" | "f raw = Inr None" | v where "f raw = Inr (Some v)"
    by (metis not_Some_eq sum.exhaust)
  then show ?case
  proof cases
    case 1
    then show ?thesis using Cons.prems by (simp split: prod.splits)
  next
    case 2
    then show ?thesis using Cons.IH [of out] Cons.prems by simp
  next
    case (3 v)
    let ?o = "if v \<in> set out then out else out @ [v]"
    have c: "collect f raws ?o = ([], out')" "distinct ?o" using 3 Cons.prems by simp_all
    have o: "set ?o = insert v (set out)" "length ?o \<le> Suc (length out)" by auto
    from Cons.IH [OF c] 3 show ?thesis unfolding o(1) using o(2) by auto
  qed
qed auto

lemma collect_fixed:
  "(\<And>v. v \<in> set vs \<Longrightarrow> f v = Inr (Some v)) \<Longrightarrow> distinct (out @ vs) \<Longrightarrow> collect f vs out = ([], out @ vs)"
  by (induction vs arbitrary: out) auto

text \<open>
  The contract of a normaliser: what it returns, it keeps. Then the loop does not change a list that it
  has normalised.
\<close>

locale normalizer =
  fixes f :: "string \<Rightarrow> cfg_error + string option"
  assumes keeps: "f raw = Inr (Some v) \<Longrightarrow> f v = Inr (Some v)"
begin

lemma collect_again:
  assumes "collect f raws [] = ([], out)"
  shows "collect f out [] = ([], out)"
  using collect_spec [OF assms] keeps by (auto intro!: collect_fixed [of out f "[]", simplified])

end

lemma ip_string_plain: "trim_space (ip_string ip) = ip_string ip"
proof -
  have "list_all plain_char (hex_digits @ ''.:'')" by code_simp
  moreover have "set (ip_string ip) \<subseteq> set (hex_digits @ ''.:'') \<and> ip_string ip \<noteq> []"
    using ip_string_v4(1,2) [of ip] ip_string_v6(1,2) [of ip] unfolding set_append by (cases "is_v4 ip") auto
  ultimately have "\<forall>c \<in> set (ip_string ip). plain_char c" "ip_string ip \<noteq> []" unfolding list_all_iff by blast+
  then show ?thesis by (intro trim_space_plain) auto
qed

lemma parse_ip_print: "parse_ip s = Some ip \<Longrightarrow> parse_ip (ip_string ip) = Some ip"
  using parse_ip_range parse_ip_string by blast

interpretation ip_entries: normalizer "ip_entry name" for name
proof
  fix raw v assume r: "ip_entry name raw = Inr (Some v)"
  show "ip_entry name v = Inr (Some v)"
  proof (cases "parse_ip (trim_space raw)")
    case (Some ip)
    then have "v = ip_string ip" using r by (simp add: ip_entry_def Let_def)
    then show ?thesis using parse_ip_print [OF Some] by (simp add: ip_entry_def Let_def ip_string_plain)
  next
    case None
    then obtain n where n: "parse_cidr (trim_space raw) = Some n" "v = net_string n" using r by (auto simp: ip_entry_def split: option.splits)
    then show ?thesis by (simp add: ip_entry_def Let_def net_string_plain net_string_parse [OF n(1)] parse_ip_network)
  qed
qed

interpretation dns_addresses: normalizer dns_address
  by unfold_locales (auto simp: dns_address_def ip_string_plain parse_ip_print split: option.splits)

interpretation rule_targets: normalizer "rule_target i" for i
proof
  fix raw v assume r: "rule_target i raw = Inr (Some v)"
  then have "v = to_lower (trim_space raw)" unfolding rule_target_def Let_def by (metis Inl_Inr_False option.inject sum.inject(2))
  then have "to_lower (trim_space v) = to_lower (trim_space raw)" by simp
  with r show "rule_target i v = Inr (Some v)" unfolding rule_target_def Let_def by (metis Inl_Inr_False)
qed

interpretation methods: normalizer "policy_method name" for name
  by unfold_locales (auto simp: policy_method_def Let_def split: if_split_asm)

interpretation disabled_rules: normalizer disabled_rule
  by unfold_locales (auto simp: disabled_rule_def Let_def split: if_split_asm)

section \<open>Lists keep their meaning\<close>

lemma parse_cidr_address: "parse_ip s = Some ip \<Longrightarrow> parse_cidr s = None"
proof -
  assume "parse_ip s = Some ip"
  then have "CHR ''/'' \<notin> set s" by (rule parse_ip_no_slash)
  then have "cut (CHR ''/'') s = (s, None)" by (induction s) auto
  then show ?thesis by (simp add: parse_cidr_def)
qed

text \<open>An address or network list matches the same clients before and after it is normalised.\<close>

lemma ip_entry_matches_same:
  assumes "ip_entry name raw = Inr (Some v)"
  shows "ip_entry_matches ip v = ip_entry_matches ip raw"
proof (cases "parse_ip (trim_space raw)")
  case (Some a)
  then have "v = ip_string a" "parse_ip (ip_string a) = Some a" "trim_space raw \<noteq> []"
    using assms parse_ip_print by (auto simp: ip_entry_def Let_def parse_ip_Nil)
  moreover from this(2) have "ip_string a \<noteq> []" by (auto simp: parse_ip_Nil)
  ultimately show ?thesis using Some parse_cidr_address by (simp add: ip_entry_matches_def ip_string_plain)
next
  case None
  then obtain n where n: "parse_cidr (trim_space raw) = Some n" "v = net_string n"
    using assms by (auto simp: ip_entry_def split: option.splits)
  then have "trim_space raw \<noteq> []" by (auto simp: parse_cidr_def)
  moreover have "net_string n \<noteq> []" by (simp add: net_string_def)
  ultimately show ?thesis using None n
    by (simp add: ip_entry_matches_def net_string_plain net_string_parse [OF n(1)] parse_ip_network)
qed

lemma ip_entry_Some: "ip_entry name raw = Inr w \<Longrightarrow> \<exists>v. w = Some v"
  by (auto simp: ip_entry_def Let_def split: option.splits)

lemma ip_list_matches_same:
  assumes "normalize_ip_list name raws = ([], out)"
  shows "ip_matches ip out = ip_matches ip raws"
proof -
  have s: "set out = {v. \<exists>raw \<in> set raws. ip_entry name raw = Inr (Some v)}" and all: "\<forall>raw \<in> set raws. \<exists>w. ip_entry name raw = Inr w"
    using collect_spec [OF assms [unfolded normalize_ip_list_def]] by auto
  have "\<exists>v \<in> set out. ip_entry_matches a v" if "raw \<in> set raws" "ip_entry_matches a raw" for a raw
  proof -
    have "\<exists>w. ip_entry name raw = Inr w" using all that(1) by blast
    then obtain w where w: "ip_entry name raw = Inr w" by blast
    obtain v where "w = Some v" using ip_entry_Some [OF w] by auto
    with w have v: "ip_entry name raw = Inr (Some v)" by simp
    then have "v \<in> set out" using s that(1) by auto
    with ip_entry_matches_same [OF v] that(2) show ?thesis by blast
  qed
  moreover have "\<exists>raw \<in> set raws. ip_entry_matches a raw" if "v \<in> set out" "ip_entry_matches a v" for a v
    using that s ip_entry_matches_same by blast
  ultimately have "list_ex (ip_entry_matches a) out = list_ex (ip_entry_matches a) raws" for a unfolding list_ex_iff by blast
  then show ?thesis by (simp add: ip_matches_def split: option.split)
qed

section \<open>Custom rules\<close>

text \<open>A rule that the inspector can use as it stands.\<close>

definition rule_safe :: "gate_lib \<Rightarrow> custom_rule_config \<Rightarrow> bool" where
  "rule_safe lib r \<longleftrightarrow> to_upper (trim_space (cu_id r)) = cu_id r \<and> cu_id r \<noteq> [] \<and> length (cu_id r) \<le> 128 \<and>
     cu_name r \<noteq> [] \<and> cu_category r \<noteq> [] \<and> cu_pattern r \<noteq> [] \<and> length (cu_pattern r) \<le> 4096 \<and>
     0 < cu_score r \<and> cu_score r \<le> max_custom_rule_score \<and> gl_compiles lib (cu_pattern r) \<and>
     cu_targets r \<noteq> [] \<and> distinct (cu_targets r) \<and> set (cu_targets r) \<subseteq> {''path'', ''query'', ''body'', ''headers'', ''cookies''}"

lemma rule_target_ok: "rule_target i raw = Inr v \<Longrightarrow> \<exists>t. v = Some t \<and> t \<in> {''path'', ''query'', ''body'', ''headers'', ''cookies''}"
  unfolding rule_target_def Let_def by (auto split: if_split_asm)

lemma validate_rule_list_safe:
  "validate_rule_list lib i seen rs = ([], rs') \<Longrightarrow>
     list_all (rule_safe lib) rs' \<and> distinct (map cu_id rs') \<and> set (map cu_id rs') \<inter> set seen = {} \<and> length rs' = length rs"
proof (induction lib i seen rs arbitrary: rs' rule: validate_rule_list.induct)
  case (2 lib i seen r0 rs)
  let ?r = "normalize_rule r0"
  obtain te targets where t: "collect (rule_target i) (cu_targets ?r) [] = (te, targets)" by force
  obtain e rest where v: "validate_rule_list lib (Suc i) (cu_id ?r # seen) rs = (e, rest)" by force
  note eq = "2.prems" [unfolded validate_rule_list.simps Let_def t v prod.case, simplified]
  have rest: "list_all (rule_safe lib) rest \<and> distinct (map cu_id rest) \<and> set (map cu_id rest) \<inter> set (cu_id ?r # seen) = {} \<and> length rest = length rs"
    using "2.IH" [OF refl t [symmetric] refl, of rest] v eq by simp
  have c: "distinct targets" "\<forall>raw \<in> set (cu_targets ?r). \<exists>v. rule_target i raw = Inr v"
    "set targets = {v. \<exists>raw \<in> set (cu_targets ?r). rule_target i raw = Inr (Some v)}"
    using collect_spec [of "rule_target i" "cu_targets ?r" "[]" targets] t eq by auto
  have "targets \<noteq> []" using c(2,3) rule_target_ok eq by (cases "cu_targets ?r") (force simp: rule_limit_errors_def)+
  moreover have "set targets \<subseteq> {''path'', ''query'', ''body'', ''headers'', ''cookies''}" using c(3) rule_target_ok by blast
  moreover have "to_upper (trim_space (cu_id ?r)) = cu_id ?r" by (simp add: normalize_rule_def)
  ultimately have "rule_safe lib (?r\<lparr>cu_targets := targets\<rparr>)"
    using eq c(1) unfolding rule_safe_def rule_limit_errors_def by simp
  moreover have rs': "rs' = ?r\<lparr>cu_targets := targets\<rparr> # rest" "cu_id ?r \<notin> set seen" using eq by simp_all
  ultimately show ?case using rest unfolding rs'(1) by auto
qed simp

lemma compile_custom_step:
  assumes "rule_safe lib r" "lib_compiles wl = gl_compiles lib" "cu_id r \<notin> set seen"
  obtains w where "ru_id w = cu_id r" "compile_custom wl (r # rs) seen out = compile_custom wl rs (cu_id r # seen) (out @ [w])"
proof
  let ?w = "\<lparr>ru_id = cu_id r, ru_name = cu_name r, ru_category = to_lower (cu_category r), ru_description = cu_description r,
    ru_score = cu_score r, ru_targets = map (\<lambda>t. to_lower (trim_space t)) (cu_targets r), ru_source = ''custom'',
    ru_pattern = Custom_Pattern (cu_pattern r)\<rparr>"
  show "ru_id ?w = cu_id r" by simp
  show "compile_custom wl (r # rs) seen out = compile_custom wl rs (cu_id r # seen) (out @ [?w])"
    using assms by (simp add: Let_def rule_safe_def)
qed

lemma compile_custom_clean:
  "list_all (rule_safe lib) rs \<Longrightarrow> distinct (map cu_id rs) \<Longrightarrow> lib_compiles wl = gl_compiles lib \<Longrightarrow>
   set (map cu_id rs) \<inter> set seen = {} \<Longrightarrow>
   \<exists>ws. compile_custom wl rs seen out = Inr (out @ ws) \<and> map ru_id ws = map cu_id rs"
proof (induction rs arbitrary: seen out)
  case (Cons r rs)
  obtain w where w: "ru_id w = cu_id r" "compile_custom wl (r # rs) seen out = compile_custom wl rs (cu_id r # seen) (out @ [w])"
    by (rule compile_custom_step [of lib r wl seen]) (use Cons.prems in auto)
  have "\<exists>ws. compile_custom wl rs (cu_id r # seen) (out @ [w]) = Inr ((out @ [w]) @ ws) \<and> map ru_id ws = map cu_id rs"
    using Cons.prems by (intro Cons.IH) auto
  then obtain ws where ws: "compile_custom wl rs (cu_id r # seen) (out @ [w]) = Inr ((out @ [w]) @ ws)" "map ru_id ws = map cu_id rs" by blast
  have "compile_custom wl (r # rs) seen out = Inr (out @ w # ws)" unfolding w(2) ws(1) by simp
  moreover have "map ru_id (w # ws) = map cu_id (r # rs)" using w(1) ws(2) by simp
  ultimately show ?case by blast
qed simp

lemma compile_custom_clash:
  "list_all (rule_safe lib) rs \<Longrightarrow> distinct (map cu_id rs) \<Longrightarrow> lib_compiles wl = gl_compiles lib \<Longrightarrow>
   set (map cu_id rs) \<inter> set seen \<noteq> {} \<Longrightarrow>
   \<exists>r \<in> set rs. cu_id r \<in> set seen \<and> compile_custom wl rs seen out = Inl (Duplicate_Rule (cu_id r))"
proof (induction rs arbitrary: seen out)
  case (Cons r rs)
  show ?case
  proof (cases "cu_id r \<in> set seen")
    case True
    moreover have "to_upper (trim_space (cu_id r)) = cu_id r" using Cons.prems(1) by (simp add: rule_safe_def)
    ultimately show ?thesis by (simp add: Let_def)
  next
    case False
    obtain w where w: "compile_custom wl (r # rs) seen out = compile_custom wl rs (cu_id r # seen) (out @ [w])"
      by (rule compile_custom_step [of lib r wl seen]) (use Cons.prems False in auto)
    have "set (map cu_id rs) \<inter> set (cu_id r # seen) \<noteq> {}" using Cons.prems(4) False by auto
    then obtain x where x: "x \<in> set rs" "cu_id x \<in> set (cu_id r # seen)"
      "compile_custom wl rs (cu_id r # seen) (out @ [w]) = Inl (Duplicate_Rule (cu_id x))"
      using Cons.IH [of "cu_id r # seen" "out @ [w]"] Cons.prems by auto
    moreover have "cu_id x \<noteq> cu_id r" using x(1) Cons.prems(2) by (simp add: image_iff) metis
    ultimately have "cu_id x \<in> set seen" "x \<in> set (r # rs)" by auto
    with x(3) w show ?thesis by metis
  qed
qed simp

end
