(* ===== verification/Gate_Config_Safe.thy ===== *)
theory Gate_Config_Safe
  imports Gate_Config_Correct
begin

text \<open>
  What a configuration that SecurityEdge has accepted guarantees, stated without reference to how it is checked,
  and that the gateway's components can be built from it.
\<close>

section \<open>Server\<close>

definition gate_server_safe :: "config_lib \<Rightarrow> server_config \<Rightarrow> bool" where
  "gate_server_safe lib s \<longleftrightarrow> sv_mode s \<in> {''gateway'', ''embedded''} \<and> sv_read_header_timeout s > 0 \<and> sv_shutdown_timeout s > 0 \<and>
     sv_read_timeout s \<ge> 0 \<and> sv_write_timeout s \<ge> 0 \<and> sv_idle_timeout s \<ge> 0 \<and> sv_max_header_bytes s \<in> {1..16 * 2 ^ 20} \<and>
     sv_max_request_body_bytes s \<in> {1..2 ^ 30} \<and> 0 < sv_max_concurrent_per_client s \<and>
     sv_max_concurrent_per_client s \<le> sv_max_concurrent_requests s \<and> sv_max_concurrent_requests s \<le> 1000000 \<and>
     valid_http_token (sv_forwarded_for_header s) \<and> \<not> reserved_client_ip_source_header (sv_forwarded_for_header s) \<and>
     (\<exists>ns. parse_networks (sv_trusted_proxy_cidrs s) = Some ns \<and> map net_string ns = sv_trusted_proxy_cidrs s) \<and>
     distinct (sv_trusted_proxy_cidrs s) \<and>
     (tl_enabled (sv_tls s) \<longrightarrow> sv_mode s = ''gateway'' \<and> tl_cert_file (sv_tls s) \<noteq> [] \<and> tl_key_file (sv_tls s) \<noteq> []) \<and>
     (sv_mode s = ''gateway'' \<longrightarrow> (\<exists>p. cl_parse_url lib (sv_upstream_proxy_url s) = Some p \<and> http_scheme (u_scheme (pu_url p)) \<and>
        u_host (pu_url p) \<noteq> [] \<and> \<not> pu_user p \<and> u_path (pu_url p) \<in> {[], ''/''} \<and> u_raw_query (pu_url p) = [] \<and> u_fragment (pu_url p) = []))"

definition transport_safe :: "transport_config \<Rightarrow> bool" where
  "transport_safe t \<longleftrightarrow> 0 < tr_dial_timeout t \<and> 0 < tr_tls_handshake_timeout t \<and> 0 < tr_response_header_timeout t \<and>
     0 < tr_expect_continue_timeout t \<and> 0 < tr_idle_conn_timeout t \<and> tr_max_idle_conns t \<in> {1..1000000} \<and>
     tr_max_idle_conns_per_host t \<in> {1..1000000} \<and> tr_max_conns_per_host t \<in> {0..1000000} \<and>
     tr_max_response_header_bytes t \<in> {1..16 * 2 ^ 20}"

lemma transport_errors_safe: "validate_transport t = [] \<Longrightarrow> transport_safe t"
  by (simp add: validate_transport_def transport_safe_def)

lemma gate_mode_errors_safe:
  assumes "gate_mode_errors lib s = []" "sv_mode s = ''gateway''"
  shows "\<exists>p. cl_parse_url lib (sv_upstream_proxy_url s) = Some p \<and> http_scheme (u_scheme (pu_url p)) \<and>
    u_host (pu_url p) \<noteq> [] \<and> \<not> pu_user p \<and> u_path (pu_url p) \<in> {[], ''/''} \<and> u_raw_query (pu_url p) = [] \<and> u_fragment (pu_url p) = []"
proof -
  have "upstream_url_errors lib (sv_upstream_proxy_url s) = []" using assms by (simp add: gate_mode_errors_def)
  then show ?thesis unfolding upstream_url_errors_def by (auto split: option.splits if_split_asm)
qed

lemma gate_server_errors_safe:
  assumes "gate_mode_errors lib s = []" "gate_server_errors s = []" "gate_tls_errors s = []"
    "validate_trusted (sv_trusted_proxy_cidrs s) [] = ([], trusted)"
  shows "gate_server_safe lib (s\<lparr>sv_trusted_proxy_cidrs := trusted\<rparr>)"
proof -
  have t: "\<exists>ns. parse_networks trusted = Some ns \<and> map net_string ns = trusted" "distinct trusted"
    using validate_trusted_canonical [OF assms(4), of "[]"] by auto
  have m: "sv_mode s \<in> {''gateway'', ''embedded''}" using assms(1) by (auto simp: gate_mode_errors_def)
  have tls: "tl_enabled (sv_tls s) \<longrightarrow> sv_mode s = ''gateway'' \<and> tl_cert_file (sv_tls s) \<noteq> [] \<and> tl_key_file (sv_tls s) \<noteq> []"
    using assms(3) by (auto simp: gate_tls_errors_def)
  show ?thesis
    using t m tls assms(2) gate_mode_errors_safe [OF assms(1)] unfolding gate_server_safe_def gate_server_errors_def
    by (simp split: if_split_asm)
qed

section \<open>Administration\<close>

definition connectivity_safe :: "connectivity_config \<Rightarrow> bool" where
  "connectivity_safe c \<longleftrightarrow> (cn_enabled c \<longrightarrow> second \<le> cn_interval c \<and> 0 < cn_timeout c \<and> cn_timeout c \<le> cn_interval c \<and>
     cn_interval c \<le> cn_stale c \<and> cn_history c \<in> {1..10000} \<and>
     (dn_enabled (cn_dns c) \<longrightarrow> items (dn_names (cn_dns c)) \<noteq> [] \<and> distinct (items (dn_names (cn_dns c))) \<and>
        (\<exists>ips. list_all2 (\<lambda>t ip. parse_ip t = Some ip \<and> t = ip_string ip) (items (dn_expected (cn_dns c))) ips)))"

definition gate_admin_safe :: "config_lib \<Rightarrow> server_config \<Rightarrow> gate_admin \<Rightarrow> bool" where
  "gate_admin_safe lib s a \<longleftrightarrow>
     (ga_token a \<noteq> [] \<longrightarrow> list_all (byte_in 0x21 0x7E) (ga_token a) \<and> length (ga_token a) \<le> 8192 \<and> ga_token a \<noteq> ''[REDACTED]'') \<and>
     lf_capacity (ga_log a) \<in> {1..100000} \<and>
     (lf_file (ga_log a) \<noteq> [] \<longrightarrow> lf_max_bytes (ga_log a) \<in> {1..2 ^ 30} \<and> lf_backups (ga_log a) \<in> {0..100}) \<and>
     (ga_enabled a \<longrightarrow> (sv_mode s = ''gateway'' \<longrightarrow> \<not> gate_listeners_overlap lib (sv_listen_addr s) (ga_listen a)) \<and>
        (\<exists>host port. split_host_port (ga_listen a) = Some (host, port) \<and> (gate_is_loopback host \<or> ga_token a \<noteq> [])) \<and>
        1 \<le> lf_default_page (ga_log a) \<and> lf_default_page (ga_log a) \<le> lf_max_page (ga_log a) \<and> lf_max_page (ga_log a) \<le> lf_capacity (ga_log a) \<and>
        (th_enabled (ga_telemetry a) \<longrightarrow> th_capacity (ga_telemetry a) \<in> {2..10000} \<and> second \<le> th_interval (ga_telemetry a)) \<and>
        connectivity_safe (ga_connectivity a) \<and> ga_max_body a \<in> {1..16 * 2 ^ 20} \<and> 0 < ga_poll_timeout a \<and>
        0 < ga_auth_failures a \<and> 0 < ga_lockout a)"

lemma validate_dns_safe:
  assumes "validate_dns lib d = ([], d')" "dn_enabled d"
  shows "dn_enabled d' \<and> items (dn_names d') \<noteq> [] \<and> distinct (items (dn_names d')) \<and>
    (\<exists>ips. list_all2 (\<lambda>t ip. parse_ip t = Some ip \<and> t = ip_string ip) (items (dn_expected d')) ips)"
proof -
  obtain e1 names e2 expected where c: "collect dns_name (validation_limit 256 (items (dn_names d))) [] = (e1, names)"
    "collect dns_address (validation_limit 256 (items (dn_expected d))) [] = (e2, expected)" by force
  note eq = assms(1) [unfolded validate_dns_def Let_def c prod.case, simplified assms(2), simplified]
  have n: "distinct names" using collect_spec [of dns_name "validation_limit 256 (items (dn_names d))" "[]" names] c(1) eq by simp
  have "\<exists>ip. parse_ip t = Some ip \<and> t = ip_string ip" if "t \<in> set expected" for t
  proof -
    have "set expected = {v. \<exists>raw \<in> set (validation_limit 256 (items (dn_expected d))). dns_address raw = Inr (Some v)}"
      using collect_spec [of dns_address "validation_limit 256 (items (dn_expected d))" "[]" expected] c(2) eq by simp
    then have "\<exists>raw. dns_address raw = Inr (Some t)" using that by blast
    then show ?thesis using parse_ip_print by (auto simp: dns_address_def split: option.splits)
  qed
  then have "\<exists>ips. list_all2 (\<lambda>t ip. parse_ip t = Some ip \<and> t = ip_string ip) expected ips"
    by (intro exI [of _ "map (\<lambda>t. the (parse_ip t)) expected"]) (force simp: list_all2_map2 list_all2_same)
  with n eq assms(2) show ?thesis by (auto simp: items_def)
qed

lemma validate_connectivity_safe:
  assumes "validate_connectivity lib c = ([], c')"
  shows "connectivity_safe c'"
proof (cases "cn_enabled c")
  case True
  obtain e d where d: "validate_dns lib (cn_dns c) = (e, d)" by force
  note eq = assms [unfolded validate_connectivity_def Let_def d prod.case, simplified True, simplified]
  have "dn_enabled d = dn_enabled (cn_dns c)" using d by (auto simp: validate_dns_def split: if_split_asm prod.splits)
  then show ?thesis using eq d validate_dns_safe [of lib "cn_dns c" d] True by (auto simp: connectivity_safe_def)
qed (use assms in \<open>auto simp: validate_connectivity_def connectivity_safe_def\<close>)

lemma listen_parses: "validate_listen lib name addr = [] \<Longrightarrow> split_host_port (trim_space addr) \<noteq> None"
  by (auto simp: validate_listen_def validate_host_port_def split: option.splits)

lemma validate_gate_admin_safe:
  assumes "validate_gate_admin lib s a = ([], a')" "credential_errors f (ga_token a) = []" "log_file_errors (ga_log a) = []"
    "trim_space (ga_listen a) = ga_listen a" "trim_space (ga_token a) = ga_token a"
  shows "gate_admin_safe lib s a'"
proof -
  have cred: "ga_token a \<noteq> [] \<longrightarrow> list_all (byte_in 0x21 0x7E) (ga_token a) \<and> length (ga_token a) \<le> 8192 \<and> ga_token a \<noteq> ''[REDACTED]''"
    using credential_printable [of f "ga_token a"] assms(2) by (auto simp: credential_errors_def)
  have log: "lf_capacity (ga_log a) \<in> {1..100000}"
    "lf_file (ga_log a) \<noteq> [] \<longrightarrow> lf_max_bytes (ga_log a) \<in> {1..2 ^ 30} \<and> lf_backups (ga_log a) \<in> {0..100}"
    using assms(3) by (auto simp: log_file_errors_def split: if_split_asm)
  show ?thesis
  proof (cases "ga_enabled a")
    case True
    obtain e c where c: "validate_connectivity lib (ga_connectivity a) = (e, c)" by force
    note eq = assms(1) [unfolded validate_gate_admin_def Let_def c prod.case, simplified True, simplified]
    then obtain host port where h: "split_host_port (ga_listen a) = Some (host, port)" using listen_parses [of lib _ "ga_listen a"] assms(4) by fastforce
    have conn: "connectivity_safe c" using validate_connectivity_safe [of lib "ga_connectivity a" c] c eq by simp
    have tel: "th_enabled (ga_telemetry a) \<longrightarrow> th_capacity (ga_telemetry a) \<in> {2..10000} \<and> second \<le> th_interval (ga_telemetry a)"
      using eq by (auto simp: telemetry_errors_def)
    have page: "1 \<le> lf_default_page (ga_log a)" "lf_default_page (ga_log a) \<le> lf_max_page (ga_log a)" "lf_max_page (ga_log a) \<le> lf_capacity (ga_log a)"
      using eq by (auto simp: log_page_errors_def)
    have token: "gate_is_loopback host \<or> ga_token a \<noteq> []" using eq h assms(5) by auto
    have a': "a' = a\<lparr>ga_connectivity := c\<rparr>" using eq by simp
    show ?thesis using eq cred log conn tel page h token unfolding gate_admin_safe_def a' by simp
  qed (use assms(1) cred log in \<open>simp add: validate_gate_admin_def gate_admin_safe_def\<close>)
qed

section \<open>Policies\<close>

definition policy_safe :: "policy \<Rightarrow> bool" where
  "policy_safe p \<longleftrightarrow> po_mode p \<in> {''block'', ''log'', ''off''} \<and> po_threshold p \<in> {1..1000} \<and> po_max_inspection p \<in> {0..16 * 2 ^ 20} \<and>
     (po_inspect_body p \<longrightarrow> 0 < po_max_inspection p \<and> po_body_types p \<noteq> []) \<and>
     po_max_path p \<in> {1..2 ^ 20} \<and> po_max_query p \<in> {1..16 * 2 ^ 20} \<and> po_max_headers p \<in> {1..10000} \<and>
     po_max_header_value p \<in> {1..16 * 2 ^ 20} \<and>
     list_all valid_http_token (po_methods p) \<and> list_all (\<lambda>x. has_prefix x ''/'' \<and> path_clean x = x) (po_excluded p) \<and>
     set (po_allowlist p) \<inter> set (po_denylist p) = {} \<and>
     (rl_enabled (po_rate_limit p) \<longrightarrow> 0 < rl_rate (po_rate_limit p) \<and> 0 < rl_global_rate (po_rate_limit p) \<and>
        0 < rl_burst (po_rate_limit p) \<and> 0 < rl_global_burst (po_rate_limit p) \<and> 0 < rl_cleanup_interval (po_rate_limit p) \<and>
        0 < rl_idle_ttl (po_rate_limit p) \<and> rl_max_buckets (po_rate_limit p) \<in> {2..1000000}) \<and>
     (ab_enabled (po_auto_ban p) \<longrightarrow> ab_threshold (po_auto_ban p) \<in> {1..10000} \<and> 0 < ab_window (po_auto_ban p) \<and>
        0 < ab_duration (po_auto_ban p) \<and> ab_max_tracked (po_auto_ban p) \<in> {1..1000000})"

lemma collect_total: "(\<And>raw. raw \<in> set raws \<Longrightarrow> \<exists>v. f raw = Inr v) \<Longrightarrow> fst (collect f raws out) = []"
proof (induction raws arbitrary: out)
  case (Cons raw raws)
  then obtain v where "f raw = Inr v" by auto
  with Cons show ?case by (cases v) auto
qed simp

lemma policy_method_ok: "policy_method name raw = Inr (Some v) \<Longrightarrow> valid_http_token v"
  by (auto simp: policy_method_def Let_def split: if_split_asm)

lemma excluded_prefix_ok:
  assumes "excluded_prefix name raw = Inr (Some v)"
  shows "has_prefix v ''/'' \<and> path_clean v = v"
proof -
  let ?s = "trim_space raw"
  let ?t = "rev (dropWhile (\<lambda>c. c = CHR ''/'') (rev ?s))"
  have p: "has_prefix ?s ''/''" "v = (if ?t = [] then ''/'' else ?t)" "path_clean v = v"
    using assms by (auto simp: excluded_prefix_def normalize_policy_path_prefix_def Let_def split: if_split_asm option.splits)
  obtain x where "rev ?s = x @ dropWhile (\<lambda>c. c = CHR ''/'') (rev ?s)" using takeWhile_dropWhile_id by metis
  then have "?s = ?t @ rev x" by (metis rev_append rev_rev_ident)
  then have "?t \<noteq> [] \<longrightarrow> hd ?t = CHR ''/''" using p(1) by (metis has_prefix_single hd_append2 append_is_Nil_conv)
  then show ?thesis using p(2,3) by (simp add: has_prefix_single split: if_splits)
qed

text \<open>The parts of an accepted policy, and that its address lists and disabled rules mean what the document says.\<close>

lemma validate_policy_safe:
  assumes "validate_policy lib name p = ([], p')"
  shows "policy_safe p'" "ip_matches ip (po_allowlist p') = ip_matches ip (po_allowlist p)"
    "ip_matches ip (po_denylist p') = ip_matches ip (po_denylist p)" "po_rate_limit p' = po_rate_limit p" "po_auto_ban p' = po_auto_ban p"
    "set (po_disabled p') = (\<lambda>d. to_upper (trim_space d)) ` set (po_disabled p) - {[]}"
proof -
  let ?p = "p\<lparr>po_mode := to_lower (trim_space (po_mode p))\<rparr>"
  obtain e1 types e2 methods e3 excluded e4 disabled e5 allow e6 deny where c:
    "collect (body_type lib name) (validation_limit 128 (po_body_types ?p)) [] = (e1, types)"
    "collect (policy_method name) (validation_limit 128 (po_methods ?p)) [] = (e2, methods)"
    "collect (excluded_prefix name) (validation_limit 4096 (po_excluded ?p)) [] = (e3, excluded)"
    "collect disabled_rule (validation_limit 4096 (po_disabled ?p)) [] = (e4, disabled)"
    "normalize_ip_list (name @ ''.ip_allowlist'') (validation_limit 4096 (po_allowlist ?p)) = (e5, allow)"
    "normalize_ip_list (name @ ''.ip_denylist'') (validation_limit 4096 (po_denylist ?p)) = (e6, deny)" by (metis surj_pair)
  note all = assms [unfolded validate_policy_def Let_def c prod.case]
  have errs: "policy_limit_errors name ?p = []" "e1 = []" "po_inspect_body p \<longrightarrow> types \<noteq> []" "shape_errors name ?p = []" "e2 = []" "e3 = []"
    "rate_errors name (po_rate_limit p) = []" "auto_ban_errors name (po_auto_ban p) = []" "e5 = []" "e6 = []" "set allow \<inter> set deny = {}"
    using all by (auto simp: filter_empty_conv)
  have p': "p' = ?p\<lparr>po_body_types := types, po_methods := methods, po_excluded := excluded, po_disabled := disabled, po_allowlist := allow,
    po_denylist := deny\<rparr>" using all by simp
  have m: "list_all valid_http_token methods"
    using collect_spec [of "policy_method name" "validation_limit 128 (po_methods ?p)" "[]" methods] c(2) errs(5) policy_method_ok
    by (fastforce simp: list_all_iff)
  have x: "list_all (\<lambda>x. has_prefix x ''/'' \<and> path_clean x = x) excluded"
    using collect_spec [of "excluded_prefix name" "validation_limit 4096 (po_excluded ?p)" "[]" excluded] c(3) errs(6) excluded_prefix_ok
    by (fastforce simp: list_all_iff)
  have rate: "rl_enabled (po_rate_limit p) \<longrightarrow> 0 < rl_rate (po_rate_limit p) \<and> 0 < rl_global_rate (po_rate_limit p) \<and>
      0 < rl_burst (po_rate_limit p) \<and> 0 < rl_global_burst (po_rate_limit p) \<and> 0 < rl_cleanup_interval (po_rate_limit p) \<and>
      0 < rl_idle_ttl (po_rate_limit p) \<and> rl_max_buckets (po_rate_limit p) \<in> {2..1000000}"
    using errs(7) by (auto simp: rate_errors_def)
  have ban: "ab_enabled (po_auto_ban p) \<longrightarrow> ab_threshold (po_auto_ban p) \<in> {1..10000} \<and> 0 < ab_window (po_auto_ban p) \<and>
      0 < ab_duration (po_auto_ban p) \<and> ab_max_tracked (po_auto_ban p) \<in> {1..1000000}"
    using errs(8) by (auto simp: auto_ban_errors_def)
  show "policy_safe p'"
    using errs(1,3,4,11) m x rate ban unfolding policy_safe_def p' policy_limit_errors_def shape_errors_def by auto
  have len: "\<not> too_many 4096 (po_allowlist p)" "\<not> too_many 4096 (po_denylist p)" "\<not> too_many 4096 (po_disabled p)"
    using errs(1) by (auto simp: policy_limit_errors_def)
  show "ip_matches ip (po_allowlist p') = ip_matches ip (po_allowlist p)"
    using ip_list_matches_same [of _ "po_allowlist p" allow ip] c(5) errs(9) len(1) by (simp add: p')
  show "ip_matches ip (po_denylist p') = ip_matches ip (po_denylist p)"
    using ip_list_matches_same [of _ "po_denylist p" deny ip] c(6) errs(10) len(2) by (simp add: p')
  have "e4 = []" using collect_total [of "validation_limit 4096 (po_disabled ?p)" disabled_rule "[]"] c(4) by (auto simp: disabled_rule_def Let_def)
  then have "set disabled = {v. \<exists>raw \<in> set (po_disabled p). disabled_rule raw = Inr (Some v)}"
    using collect_spec [of disabled_rule "validation_limit 4096 (po_disabled ?p)" "[]" disabled] c(4) len(3) by simp
  also have "\<dots> = (\<lambda>d. to_upper (trim_space d)) ` set (po_disabled p) - {[]}"
    by (auto simp: disabled_rule_def Let_def split: if_split_asm)
  finally show "set (po_disabled p') = (\<lambda>d. to_upper (trim_space d)) ` set (po_disabled p) - {[]}" by (simp add: p')
qed (use assms in \<open>auto simp: validate_policy_def Let_def split: prod.splits\<close>)

section \<open>Policies of routes\<close>

text \<open>The storage of limiter and bans is one for the process, so all policies agree on its settings.\<close>

definition shares_storage :: "policy \<Rightarrow> policy \<Rightarrow> bool" where
  "shares_storage d p \<longleftrightarrow> rl_cleanup_interval (po_rate_limit p) = rl_cleanup_interval (po_rate_limit d) \<and>
     rl_idle_ttl (po_rate_limit p) = rl_idle_ttl (po_rate_limit d) \<and> rl_max_buckets (po_rate_limit p) = rl_max_buckets (po_rate_limit d) \<and>
     ab_max_tracked (po_auto_ban p) = ab_max_tracked (po_auto_ban d)"

definition route_policy_safe :: "server_config \<Rightarrow> policy \<Rightarrow> string \<Rightarrow> policy \<Rightarrow> bool" where
  "route_policy_safe s d name p \<longleftrightarrow> policy_safe p \<and> trim_space name = name \<and> name \<noteq> [] \<and> \<not> equal_fold name ''__unmatched__'' \<and>
     po_max_inspection p \<le> sv_max_request_body_bytes s \<and> shares_storage d p"

lemma validate_route_policy_safe:
  assumes "validate_route_policy lib s d name p0 = ([], p)"
  shows "route_policy_safe s d name p" "\<exists>f. validate_policy lib f p0 = ([], p)"
proof -
  have n: "trim_space name \<noteq> []" using assms by (auto simp: validate_route_policy_def Let_def)
  obtain errs p1 where v: "validate_policy lib (''route_policies.'' @ name) p0 = (errs, p1)" by force
  note eq = assms [unfolded validate_route_policy_def Let_def if_not_P [OF n] v prod.case]
  have e: "errs = []" "p1 = p" "trim_space name = name" "\<not> equal_fold (trim_space name) ''__unmatched__''"
    "po_max_inspection p1 \<le> sv_max_request_body_bytes s" "shared_storage_errors name d p1 = []"
    using eq by auto
  then show "\<exists>f. validate_policy lib f p0 = ([], p)" using v by blast
  have "policy_safe p" using validate_policy_safe(1) v e(1,2) by blast
  then show "route_policy_safe s d name p"
    using e n unfolding route_policy_safe_def shares_storage_def shared_storage_errors_def by simp
qed

lemma validate_route_policies_spec:
  "validate_route_policies lib s d names m = ([], m') \<Longrightarrow> distinct names \<Longrightarrow>
     (gm_inv m \<longrightarrow> gm_inv m') \<and> dom (gm_get m') = dom (gm_get m) \<and>
     (\<forall>n. n \<notin> set names \<longrightarrow> gm_get m' n = gm_get m n) \<and>
     (\<forall>n \<in> set names. \<forall>p0. gm_get m n = Some p0 \<longrightarrow>
        (\<exists>p. gm_get m' n = Some p \<and> validate_route_policy lib s d n p0 = ([], p)))"
proof (induction names arbitrary: m m')
  case (Cons name names)
  show ?case
  proof (cases "gm_get m name")
    case None
    then have "validate_route_policies lib s d names m = ([], m')" "distinct names" using Cons.prems by simp_all
    from Cons.IH [OF this] None show ?thesis by simp
  next
    case (Some p0)
    obtain e p where v: "validate_route_policy lib s d name p0 = (e, p)" by force
    obtain e' where r: "validate_route_policies lib s d names (gm_put name p m) = (e', m')" and "e = []" "e' = []"
      using Cons.prems(1) Some v by (auto split: prod.splits)
    then have ih: "(gm_inv (gm_put name p m) \<longrightarrow> gm_inv m') \<and> dom (gm_get m') = dom (gm_get (gm_put name p m)) \<and>
        (\<forall>n. n \<notin> set names \<longrightarrow> gm_get m' n = gm_get (gm_put name p m) n) \<and>
        (\<forall>n \<in> set names. \<forall>p0. gm_get (gm_put name p m) n = Some p0 \<longrightarrow>
           (\<exists>p. gm_get m' n = Some p \<and> validate_route_policy lib s d n p0 = ([], p)))"
      using Cons.IH [of "gm_put name p m" m'] Cons.prems(2) by simp
    have "gm_get m' name = Some p" using ih Cons.prems(2) by (simp add: gm_get_put)
    moreover have "\<exists>p. gm_get m' n = Some p \<and> validate_route_policy lib s d n q = ([], p)" if "n \<in> set names" "gm_get m n = Some q" for n q
    proof -
      have "gm_get (gm_put name p m) n = Some q" using that Cons.prems(2) by (auto simp: gm_get_put)
      with ih that(1) show ?thesis by blast
    qed
    ultimately show ?thesis using ih v \<open>e = []\<close> Some by (auto simp: gm_get_put)
  qed
qed simp

section \<open>The whole configuration\<close>

definition edge_link_safe :: "config_lib \<Rightarrow> edge_link \<Rightarrow> bool" where
  "edge_link_safe lib e \<longleftrightarrow> el_path e \<noteq> [] \<and> 0 < el_timeout e \<and>
     (el_token e \<noteq> [] \<longrightarrow> list_all (byte_in 0x21 0x7E) (el_token e) \<and> length (el_token e) \<le> 8192) \<and>
     (\<exists>p. cl_parse_url lib (el_url e) = Some p \<and> http_scheme (u_scheme (pu_url p)) \<and> u_host (pu_url p) \<noteq> [] \<and> \<not> pu_user p \<and>
        u_raw_query (pu_url p) = [] \<and> u_fragment (pu_url p) = [])"

definition gate_config_safe :: "gate_lib \<Rightarrow> gate_file \<Rightarrow> bool" where
  "gate_config_safe lib c \<longleftrightarrow> gate_server_safe (gl_net lib) (gf_server c) \<and> transport_safe (sv_upstream_transport (gf_server c)) \<and>
     gate_admin_safe (gl_net lib) (gf_server c) (gf_admin c) \<and> edge_link_safe (gl_net lib) (gf_edge c) \<and>
     wf_max_matches (gf_waf c) \<in> {1..256} \<and> list_all (rule_safe lib) (wf_rules (gf_waf c)) \<and>
     distinct (map cu_id (wf_rules (gf_waf c))) \<and> length (wf_rules (gf_waf c)) \<le> 256 \<and>
     policy_safe (gf_policy c) \<and> po_max_inspection (gf_policy c) \<le> sv_max_request_body_bytes (gf_server c) \<and>
     \<not> too_many 2048 (gf_routes c) \<and>
     (\<forall>(name, p) \<in> set (gf_routes c). route_policy_safe (gf_server c) (gf_policy c) name p)"

lemma edge_link_errors_safe:
  assumes "edge_link_errors lib e = []" "credential_errors f (el_token e) = []"
  shows "edge_link_safe lib e"
proof -
  have "el_token e \<noteq> [] \<longrightarrow> list_all (byte_in 0x21 0x7E) (el_token e) \<and> length (el_token e) \<le> 8192"
    using credential_printable [of f "el_token e"] assms(2) by (auto simp: credential_errors_def)
  moreover have "\<exists>p. cl_parse_url lib (el_url e) = Some p \<and> http_scheme (u_scheme (pu_url p)) \<and> u_host (pu_url p) \<noteq> [] \<and> \<not> pu_user p \<and>
      u_raw_query (pu_url p) = [] \<and> u_fragment (pu_url p) = []"
    using assms(1) by (auto simp: edge_link_errors_def split: if_split_asm option.splits)
  ultimately show ?thesis using assms(1) by (simp add: edge_link_errors_def edge_link_safe_def)
qed

lemma validate_gate_config_safe:
  assumes "validate_gate_config lib c = ([], c')" "gm_inv (gf_routes c)"
  shows "gate_config_safe lib c' \<and> gm_inv (gf_routes c')"
proof -
  let ?s = "normalize_gate_server (gf_server c)" and ?a = "normalize_gate_admin (gf_admin c)" and ?e = "normalize_edge_link (gf_edge c)"
  let ?names = "if too_many 2048 (gf_routes c) then [] else sort (map fst (gf_routes c))"
  obtain e1 trusted e2 admin e3 rules e4 d e5 routes where v:
    "validate_trusted (validation_limit 4096 (sv_trusted_proxy_cidrs ?s)) [] = (e1, trusted)" "validate_gate_admin (gl_net lib) ?s ?a = (e2, admin)"
    "validate_custom_rules lib (wf_rules (gf_waf c)) = (e3, rules)" "validate_policy lib ''default_policy'' (gf_policy c) = (e4, d)"
    "validate_route_policies lib ?s d ?names (gf_routes c) = (e5, routes)" by (metis surj_pair)
  note all = assms(1) [unfolded validate_gate_config_def Let_def v prod.case]
  have errs: "credential_errors ''admin.auth_token'' (ga_token ?a) = []" "credential_errors ''edgeproxy.admin_token'' (el_token ?e) = []"
    "gate_mode_errors (gl_net lib) ?s = []" "gate_server_errors ?s = []" "e1 = []" "gate_tls_errors ?s = []"
    "validate_transport (sv_upstream_transport ?s) = []" "log_file_errors (ga_log ?a) = []" "e2 = []" "edge_link_errors (gl_net lib) ?e = []"
    "wf_max_matches (gf_waf c) \<in> {1..256}" "e3 = []" "e4 = []" "po_max_inspection d \<le> sv_max_request_body_bytes ?s"
    "\<not> too_many 2048 (gf_routes c)" "e5 = []"
    using all by auto
  have c': "c' = c\<lparr>gf_server := ?s\<lparr>sv_trusted_proxy_cidrs := trusted\<rparr>, gf_admin := admin, gf_edge := ?e,
      gf_waf := (gf_waf c)\<lparr>wf_rules := rules\<rparr>, gf_policy := d, gf_routes := routes\<rparr>" using all by simp
  have "\<not> too_many 4096 (sv_trusted_proxy_cidrs ?s)" using errs(4) by (simp add: gate_server_errors_def)
  then have server: "gate_server_safe (gl_net lib) (?s\<lparr>sv_trusted_proxy_cidrs := trusted\<rparr>)"
    using gate_server_errors_safe [OF errs(3,4,6)] v(1) errs(5) by simp
  have admin: "gate_admin_safe (gl_net lib) ?s admin"
    using validate_gate_admin_safe [of "gl_net lib" ?s ?a admin] v(2) errs(1,8,9) by (simp add: normalize_gate_admin_def)
  then have admin': "gate_admin_safe (gl_net lib) (?s\<lparr>sv_trusted_proxy_cidrs := trusted\<rparr>) admin" by (simp add: gate_admin_safe_def)
  have "\<exists>rs. validate_rule_list lib 0 [] (wf_rules (gf_waf c)) = ([], rs) \<and> rs = rules \<and> length (wf_rules (gf_waf c)) \<le> 256"
    using v(3) errs(12) by (auto simp: validate_custom_rules_def too_many_def validation_limit_def split: prod.splits)
  then have rules: "list_all (rule_safe lib) rules" "distinct (map cu_id rules)" "length rules \<le> 256" using validate_rule_list_safe by fastforce+
  have policy: "policy_safe d" using validate_policy_safe(1) v(4) errs(13) by blast
  have names: "?names = sort (map fst (gf_routes c))" using errs(15) by simp
  have spec: "gm_inv routes" "dom (gm_get routes) = dom (gm_get (gf_routes c))"
    "\<forall>n \<in> fst ` set (gf_routes c). \<forall>p0. gm_get (gf_routes c) n = Some p0 \<longrightarrow>
       (\<exists>p. gm_get routes n = Some p \<and> validate_route_policy lib ?s d n p0 = ([], p))"
    using validate_route_policies_spec [OF v(5) [unfolded names errs(16)]] assms(2) by (auto simp: gm_inv_def)
  have "route_policy_safe ?s d name p" if "(name, p) \<in> set routes" for name p
  proof -
    have g: "gm_get routes name = Some p" using that spec(1) by (simp add: gm_get_iff_in)
    then obtain p0 where p0: "gm_get (gf_routes c) name = Some p0" using spec(2) by blast
    then have "name \<in> fst ` set (gf_routes c)" by (metis dom_gm_get domI)
    with spec(3) p0 g have "validate_route_policy lib ?s d name p0 = ([], p)" by fastforce
    then show ?thesis by (rule validate_route_policy_safe(1))
  qed
  moreover have "length routes = length (gf_routes c)" using spec(1,2) assms(2) by (simp add: length_gm_card)
  ultimately show ?thesis
    using server admin' rules policy errs(7,11,14,15) spec(1) transport_errors_safe edge_link_errors_safe [OF errs(10,2)]
    unfolding gate_config_safe_def c' by (auto simp: route_policy_safe_def too_many_def)
qed

lemma gate_accept_ok: "gate_accept lib c = Inr c' \<longleftrightarrow> validate_gate_config lib c = ([], c')"
  by (auto simp: gate_accept_def split: prod.splits)

lemma apply_gate_overrides_routes: "apply_gate_overrides env c = Inr c' \<Longrightarrow> gf_routes c' = gf_routes c \<and> gf_policy c' = gf_policy c \<and> gf_waf c' = gf_waf c"
  by (auto simp: apply_gate_overrides_def Let_def split: sum.splits)

lemma gate_load_config_ok:
  assumes "gate_load_config lib env (Inr c0) = Inr c" "gm_inv (gf_routes c0)"
  shows "gate_config_safe lib c" "gm_inv (gf_routes c)"
proof -
  obtain c1 c2 where p: "validate_gate_config lib c0 = ([], c1)" "apply_gate_overrides env c1 = Inr c2" "validate_gate_config lib c2 = ([], c)"
    using assms(1) by (auto simp: gate_load_config_def gate_load_file_def gate_accept_ok split: sum.splits)
  have "gm_inv (gf_routes c2)" using validate_gate_config_safe [OF p(1) assms(2)] apply_gate_overrides_routes [OF p(2)] by simp
  from validate_gate_config_safe [OF p(3) this] show "gate_config_safe lib c" "gm_inv (gf_routes c)" by blast+
qed

end
