(* ===== verification/Gate_Config_Accept.thy ===== *)
theory Gate_Config_Accept
  imports Gate_Config_Safe
begin

text \<open>
  The properties of SecurityEdge's configuration: what an accepted configuration guarantees, that its lists mean what
  the document says, when its rules compile, and that accepted changes take effect.
\<close>

section \<open>Accepted configurations\<close>

text \<open>
  C12. A configuration that SecurityEdge loads is safe to run, whatever the document and the environment say: timeouts,
  sizes and connection limits are in range, the client address header is a token that is not reserved, TLS is used
  only with its files, the administration listener is on a loopback address or protected by a printable token and does not share
  the gateway's socket, every policy has a mode, thresholds, limits and rates in range and no address on
  both lists, every custom rule has an upper case identifier of its own, a score in range, known targets and a pattern that
  compiles, and no policy of a route inspects more than a body may have or disagrees with the default policy about
  the storage that is shared. The client resolver can be built from it.
\<close>

theorem accepted_gate_config_safe:
  assumes "gate_load_config lib env (Inr c0) = Inr c" "gm_inv (gf_routes c0)"
  shows "gate_config_safe lib c \<and> gm_inv (gf_routes c) \<and>
    (\<exists>r. resolver_new (sv_trusted_proxy_cidrs (gf_server c)) (sv_forwarded_for_header (gf_server c)) = Some r \<and>
       gr_header r = sv_forwarded_for_header (gf_server c))"
proof -
  note safe = gate_load_config_ok [OF assms]
  then have s: "gate_server_safe (gl_net lib) (gf_server c)" by (simp add: gate_config_safe_def)
  then obtain ns where "parse_networks (sv_trusted_proxy_cidrs (gf_server c)) = Some ns" by (auto simp: gate_server_safe_def)
  moreover have t: "valid_http_token (sv_forwarded_for_header (gf_server c))" using s by (simp add: gate_server_safe_def)
  then have "sv_forwarded_for_header (gf_server c) \<noteq> []" by (auto simp: valid_http_token_def)
  ultimately have "\<exists>r. resolver_new (sv_trusted_proxy_cidrs (gf_server c)) (sv_forwarded_for_header (gf_server c)) = Some r \<and>
      gr_header r = sv_forwarded_for_header (gf_server c)"
    using token_trim [OF t] by (simp add: resolver_new_def resolver_replace_def)
  with safe show ?thesis by blast
qed

text \<open>
  C13. Validating a policy keeps its meaning: the canonical allow and deny lists match exactly the client addresses that the lists of
  the document match, no entry is on both, the rules that are disabled are those named in any letter case, and the settings of
  rate limit and bans are unchanged.
\<close>

theorem policy_lists_keep_meaning:
  assumes "validate_policy lib name p = ([], p')"
  shows "ip_matches ip (po_allowlist p') = ip_matches ip (po_allowlist p) \<and>
    ip_matches ip (po_denylist p') = ip_matches ip (po_denylist p) \<and> set (po_allowlist p') \<inter> set (po_denylist p') = {} \<and>
    set (po_disabled p') = (\<lambda>d. to_upper (trim_space d)) ` set (po_disabled p) - {[]} \<and>
    po_rate_limit p' = po_rate_limit p \<and> po_auto_ban p' = po_auto_ban p"
  using validate_policy_safe [OF assms] by (simp add: policy_safe_def)

text \<open>
  C14. The custom rules of an accepted configuration compile: the inspector built from them has the built-in rules followed by
  the custom rules in the order of the document. The only failure that validation leaves is the identifier of a built-in rule,
  which is reported as a duplicate.
\<close>

theorem accepted_rules_compile:
  assumes "gate_load_config lib env (Inr c0) = Inr c" "gm_inv (gf_routes c0)" "lib_compiles wl = gl_compiles lib"
  shows "if set (map cu_id (wf_rules (gf_waf c))) \<inter> set (map ru_id builtin_rules) = {}
    then \<exists>i. new_inspector wl (wf_rules (gf_waf c)) (wf_max_matches (gf_waf c)) = Inr i \<and> inspector_ok i \<and>
      map ru_id (in_rules i) = map ru_id builtin_rules @ map cu_id (wf_rules (gf_waf c)) \<and>
      int (in_max_matches i) = wf_max_matches (gf_waf c)
    else \<exists>r \<in> set (wf_rules (gf_waf c)). cu_id r \<in> set (map ru_id builtin_rules) \<and>
      new_inspector wl (wf_rules (gf_waf c)) (wf_max_matches (gf_waf c)) = Inl (Duplicate_Rule (cu_id r))"
proof -
  let ?rs = "wf_rules (gf_waf c)" and ?seen = "map ru_id builtin_rules"
  have safe: "list_all (rule_safe lib) ?rs" "distinct (map cu_id ?rs)" "wf_max_matches (gf_waf c) \<in> {1..256}"
    using gate_load_config_ok(1) [OF assms(1,2)] by (simp_all add: gate_config_safe_def)
  show ?thesis
  proof (cases "set (map cu_id ?rs) \<inter> set ?seen = {}")
    case True
    then obtain ws where ws: "compile_rules wl ?rs = Inr (builtin_rules @ ws)" "map ru_id ws = map cu_id ?rs"
      using compile_custom_clean [OF safe(1,2) assms(3), of ?seen builtin_rules] by (auto simp: compile_rules_def)
    then have "new_inspector wl ?rs (wf_max_matches (gf_waf c)) =
        Inr \<lparr>in_rules = builtin_rules @ ws, in_max_matches = nat (wf_max_matches (gf_waf c))\<rparr>" (is "_ = Inr ?i")
      using safe(3) by (simp add: new_inspector_def)
    moreover from this have "inspector_ok ?i" by (rule new_inspector_ok)
    moreover have "map ru_id (in_rules ?i) = ?seen @ map cu_id ?rs" "int (in_max_matches ?i) = wf_max_matches (gf_waf c)"
      using ws(2) safe(3) by simp_all
    ultimately show ?thesis unfolding if_P [OF True] by blast
  next
    case False
    then obtain r where "r \<in> set ?rs" "cu_id r \<in> set ?seen" "compile_rules wl ?rs = Inl (Duplicate_Rule (cu_id r))"
      using compile_custom_clash [OF safe(1,2) assms(3), of ?seen builtin_rules] by (auto simp: compile_rules_def)
    then show ?thesis unfolding if_not_P [OF False] by (auto simp: new_inspector_def)
  qed
qed

section \<open>Changes under an environment\<close>

text \<open>A field that differs between the old and the new configuration has its new value at run time.\<close>

definition takes_effect :: "gate_file \<Rightarrow> gate_file \<Rightarrow> gate_file \<Rightarrow> (gate_file \<Rightarrow> 'v) \<Rightarrow> bool" where
  "takes_effect a b e sel \<longleftrightarrow> (sel a \<noteq> sel b \<longrightarrow> sel e = sel b)"

lemma unmanaged_values:
  "\<not> (non_empty_environment env key \<noteq> None \<and> x \<noteq> y) \<Longrightarrow> x \<noteq> y \<Longrightarrow> apply_string_env env key y = y"
  "\<not> (non_empty_environment env key \<noteq> None \<and> xs \<noteq> ys) \<Longrightarrow> xs \<noteq> ys \<Longrightarrow> env_list env key ys = ys"
  "\<not> (non_empty_environment env key \<noteq> None \<and> s \<noteq> t) \<Longrightarrow> s \<noteq> t \<Longrightarrow> env_slice env key t = t"
  "\<not> (non_empty_environment env key \<noteq> None \<and> p \<noteq> q) \<Longrightarrow> p \<noteq> q \<Longrightarrow> env_flag env key q = Inr r \<Longrightarrow> r = q"
  by (auto simp: apply_string_env_def env_list_def env_slice_def env_flag_def)

lemma gate_changed_unmanaged:
  assumes "gate_managed_changes env a b = None"
  shows "\<forall>t \<in> set (gate_managed_fields a b). \<not> (case t of (key, _, changed) \<Rightarrow> non_empty_environment env key \<noteq> None \<and> changed)"
  using assms unfolding gate_managed_changes_def Let_def filter_empty_conv [symmetric] by (simp split: if_split_asm)

text \<open>
  C15. Accepted changes take effect in the gateway. When a change of the persisted configuration from \<open>a\<close> to \<open>b\<close> passes
  \<^verbatim>\<open>ValidateEnvironmentManagedChanges\<close> and the overrides of the same environment are applied to \<open>b\<close>, each of the nineteen fields that
  the environment can set has its new value if it was changed: no accepted change is masked by an override.
\<close>

theorem accepted_gate_changes_take_effect:
  assumes "gate_managed_changes env a b = None" "apply_gate_overrides env b = Inr e"
  shows "takes_effect a b e (\<lambda>c. sv_listen_addr (gf_server c)) \<and> takes_effect a b e (\<lambda>c. sv_upstream_proxy_url (gf_server c)) \<and>
    takes_effect a b e (\<lambda>c. sv_forwarded_for_header (gf_server c)) \<and> takes_effect a b e (\<lambda>c. sv_trusted_proxy_cidrs (gf_server c)) \<and>
    takes_effect a b e (\<lambda>c. tl_enabled (sv_tls (gf_server c))) \<and> takes_effect a b e (\<lambda>c. tl_cert_file (sv_tls (gf_server c))) \<and>
    takes_effect a b e (\<lambda>c. tl_key_file (sv_tls (gf_server c))) \<and> takes_effect a b e (\<lambda>c. ga_listen (gf_admin c)) \<and>
    takes_effect a b e (\<lambda>c. ga_token (gf_admin c)) \<and> takes_effect a b e (\<lambda>c. lf_file (ga_log (gf_admin c))) \<and>
    takes_effect a b e (\<lambda>c. th_file (ga_telemetry (gf_admin c))) \<and>
    takes_effect a b e (\<lambda>c. dn_server (cn_dns (ga_connectivity (gf_admin c)))) \<and>
    takes_effect a b e (\<lambda>c. dn_names (cn_dns (ga_connectivity (gf_admin c)))) \<and>
    takes_effect a b e (\<lambda>c. dn_expected (cn_dns (ga_connectivity (gf_admin c)))) \<and>
    takes_effect a b e (\<lambda>c. dn_enabled (cn_dns (ga_connectivity (gf_admin c)))) \<and>
    takes_effect a b e (\<lambda>c. dn_critical (cn_dns (ga_connectivity (gf_admin c)))) \<and>
    takes_effect a b e (\<lambda>c. el_path (gf_edge c)) \<and> takes_effect a b e (\<lambda>c. el_url (gf_edge c)) \<and> takes_effect a b e (\<lambda>c. el_token (gf_edge c))"
proof -
  let ?d = "cn_dns (ga_connectivity (gf_admin b))"
  obtain tls enabled critical where f: "env_flag env ''SECURITYEDGE_TLS_ENABLED'' (tl_enabled (sv_tls (gf_server b))) = Inr tls"
    "env_flag env ''SECURITYEDGE_DNS_ENABLED'' (dn_enabled ?d) = Inr enabled" "env_flag env ''SECURITYEDGE_DNS_CRITICAL'' (dn_critical ?d) = Inr critical"
    and e: "e = b\<lparr>gf_server := override_gate_server env tls (gf_server b), gf_admin := override_gate_admin env enabled critical (gf_admin b),
      gf_edge := override_edge_link env (gf_edge b)\<rparr>"
    using assms(2) unfolding apply_gate_overrides_def Let_def by (auto split: sum.splits)
  note m = gate_changed_unmanaged [OF assms(1), unfolded gate_managed_fields_def Let_def list.set ball_simps prod.case]
  have sel: "sv_listen_addr (gf_server e) = apply_string_env env ''SECURITYEDGE_SERVER_LISTEN_ADDR'' (sv_listen_addr (gf_server b))"
    "sv_upstream_proxy_url (gf_server e) = apply_string_env env ''SECURITYEDGE_UPSTREAM_PROXY_URL'' (sv_upstream_proxy_url (gf_server b))"
    "sv_forwarded_for_header (gf_server e) = apply_string_env env ''SECURITYEDGE_FORWARDED_FOR_HEADER'' (sv_forwarded_for_header (gf_server b))"
    "sv_trusted_proxy_cidrs (gf_server e) = env_list env ''SECURITYEDGE_TRUSTED_PROXY_CIDRS'' (sv_trusted_proxy_cidrs (gf_server b))"
    "tl_enabled (sv_tls (gf_server e)) = tls"
    "tl_cert_file (sv_tls (gf_server e)) = apply_string_env env ''SECURITYEDGE_TLS_CERT_FILE'' (tl_cert_file (sv_tls (gf_server b)))"
    "tl_key_file (sv_tls (gf_server e)) = apply_string_env env ''SECURITYEDGE_TLS_KEY_FILE'' (tl_key_file (sv_tls (gf_server b)))"
    "ga_listen (gf_admin e) = apply_string_env env ''SECURITYEDGE_ADMIN_LISTEN_ADDR'' (ga_listen (gf_admin b))"
    "ga_token (gf_admin e) = apply_string_env env ''SECURITYEDGE_ADMIN_TOKEN'' (ga_token (gf_admin b))"
    "lf_file (ga_log (gf_admin e)) = apply_string_env env ''SECURITYEDGE_LOG_FILE_PATH'' (lf_file (ga_log (gf_admin b)))"
    "th_file (ga_telemetry (gf_admin e)) = apply_string_env env ''SECURITYEDGE_TELEMETRY_HISTORY_FILE'' (th_file (ga_telemetry (gf_admin b)))"
    "dn_server (cn_dns (ga_connectivity (gf_admin e))) = apply_string_env env ''SECURITYEDGE_DNS_SERVER'' (dn_server ?d)"
    "dn_names (cn_dns (ga_connectivity (gf_admin e))) = env_slice env ''SECURITYEDGE_DNS_NAMES'' (dn_names ?d)"
    "dn_expected (cn_dns (ga_connectivity (gf_admin e))) = env_slice env ''SECURITYEDGE_DNS_EXPECTED_ADDRESSES'' (dn_expected ?d)"
    "dn_enabled (cn_dns (ga_connectivity (gf_admin e))) = enabled" "dn_critical (cn_dns (ga_connectivity (gf_admin e))) = critical"
    "el_path (gf_edge e) = apply_string_env env ''SECURITYEDGE_EDGEPROXY_CONFIG_PATH'' (el_path (gf_edge b))"
    "el_url (gf_edge e) = apply_string_env env ''SECURITYEDGE_EDGEPROXY_ADMIN_URL'' (el_url (gf_edge b))"
    "el_token (gf_edge e) = apply_string_env env ''EDGEPROXY_ADMIN_TOKEN'' (el_token (gf_edge b))"
    unfolding e by (simp_all add: override_gate_server_def override_gate_admin_def override_edge_link_def override_dns_def)
  show ?thesis unfolding takes_effect_def sel using m f by (elim conjE) (intro conjI impI; rule unmanaged_values; assumption)
qed

section \<open>An example\<close>

definition demo_gate_lib :: gate_lib where
  "demo_gate_lib = \<lparr>gl_net = \<lparr>cl_parse_url = (\<lambda>s. if has_prefix s ''http://'' then
       Some \<lparr>pu_url = \<lparr>u_scheme = ''http'', u_opaque = [], u_host = drop 7 s, u_path = [], u_raw_path = [],
               u_force_query = False, u_raw_query = [], u_fragment = []\<rparr>,
             pu_user = False, pu_string = s\<rparr> else None),
     cl_lookup_port = (\<lambda>_. None)\<rparr>, gl_compiles = (\<lambda>p. p \<noteq> ''(''), gl_media = (\<lambda>s. Some (s, 0))\<rparr>"

definition demo_rule :: custom_rule_config where
  "demo_rule = \<lparr>cu_id = '' my-1'', cu_name = ''Mine'', cu_category = ''Custom'', cu_description = ''A rule'', cu_score = 5,
     cu_targets = [''Path'', ''path''], cu_pattern = ''x''\<rparr>"

definition light_policy :: policy where
  "light_policy = default_policy\<lparr>po_methods := [''get''], po_body_types := [''text/plain'']\<rparr>"

definition demo_policy :: policy where
  "demo_policy = light_policy\<lparr>po_allowlist := [''10.1.2.3/8'', ''192.168.0.1''], po_denylist := ['' 192.0.2.7 ''], po_disabled := [''sqli-001'']\<rparr>"

definition demo_gate_file :: gate_file where
  "demo_gate_file = default_gate_config\<lparr>gf_edge := (gf_edge default_gate_config)\<lparr>el_path := ''edge.json''\<rparr>,
     gf_admin := default_gate_admin\<lparr>ga_enabled := False\<rparr>, gf_waf := \<lparr>wf_max_matches = 32, wf_rules = [demo_rule]\<rparr>,
     gf_policy := light_policy, gf_routes := [(''web'', light_policy\<lparr>po_mode := '' Log''\<rparr>)]\<rparr>"

definition demo_gate_environment :: environment where
  "demo_gate_environment = [''SECURITYEDGE_ADMIN_TOKEN'' \<mapsto> '' t0ken '']"

lemma demo_gate_loads:
  obtains c where "gate_load_config demo_gate_lib demo_gate_environment (Inr demo_gate_file) = Inr c"
    "map cu_id (wf_rules (gf_waf c)) = [''MY-1'']" "ga_token (gf_admin c) = ''t0ken''" "map (po_mode \<circ> snd) (gf_routes c) = [''log'']"
proof -
  have "(case gate_load_config demo_gate_lib demo_gate_environment (Inr demo_gate_file) of Inl _ \<Rightarrow> False
     | Inr c \<Rightarrow> map cu_id (wf_rules (gf_waf c)) = [''MY-1''] \<and> ga_token (gf_admin c) = ''t0ken'' \<and> map (po_mode \<circ> snd) (gf_routes c) = [''log''])"
    by code_simp
  then show thesis using that by (cases "gate_load_config demo_gate_lib demo_gate_environment (Inr demo_gate_file)") auto
qed

lemma demo_gate_inv: "gm_inv (gf_routes demo_gate_file)"
  by (simp add: gm_inv_def demo_gate_file_def)

theorem accepted_gate_config_safe_witness:
  "\<exists>c. gate_load_config demo_gate_lib demo_gate_environment (Inr demo_gate_file) = Inr c \<and> ga_token (gf_admin c) = ''t0ken'' \<and>
     map (po_mode \<circ> snd) (gf_routes c) = [''log''] \<and> gate_config_safe demo_gate_lib c"
proof -
  obtain c where c: "gate_load_config demo_gate_lib demo_gate_environment (Inr demo_gate_file) = Inr c" "ga_token (gf_admin c) = ''t0ken''"
    "map (po_mode \<circ> snd) (gf_routes c) = [''log'']" by (rule demo_gate_loads) (rule that; assumption)
  show ?thesis using c accepted_gate_config_safe [OF c(1) demo_gate_inv] by (intro exI [of _ c] conjI) simp_all
qed

theorem accepted_rules_compile_witness:
  "\<exists>c i. gate_load_config demo_gate_lib demo_gate_environment (Inr demo_gate_file) = Inr c \<and>
     new_inspector (waf_demo_lib\<lparr>lib_compiles := gl_compiles demo_gate_lib\<rparr>) (wf_rules (gf_waf c)) (wf_max_matches (gf_waf c)) = Inr i \<and>
     map ru_id (in_rules i) = map ru_id builtin_rules @ [''MY-1'']"
proof -
  obtain c where c: "gate_load_config demo_gate_lib demo_gate_environment (Inr demo_gate_file) = Inr c"
    "map cu_id (wf_rules (gf_waf c)) = [''MY-1'']" by (rule demo_gate_loads) (rule that; assumption)
  have "set [''MY-1''] \<inter> set (map ru_id builtin_rules) = {}" by code_simp
  with accepted_rules_compile [OF c(1) demo_gate_inv, of "waf_demo_lib\<lparr>lib_compiles := gl_compiles demo_gate_lib\<rparr>"] c show ?thesis by auto
qed

theorem policy_lists_keep_meaning_witness:
  "\<exists>p'. validate_policy demo_gate_lib ''default_policy'' demo_policy = ([], p') \<and>
     po_allowlist p' = [''10.0.0.0/8'', ''192.168.0.1''] \<and> ip_matches ''192.0.2.7'' (po_denylist p') = ip_matches ''192.0.2.7'' (po_denylist demo_policy)"
proof -
  have "(case validate_policy demo_gate_lib ''default_policy'' demo_policy of
     (errs, p') \<Rightarrow> errs = [] \<and> po_allowlist p' = [''10.0.0.0/8'', ''192.168.0.1''])" by code_simp
  then obtain p' where "validate_policy demo_gate_lib ''default_policy'' demo_policy = ([], p')" "po_allowlist p' = [''10.0.0.0/8'', ''192.168.0.1'']"
    by (auto split: prod.splits)
  with policy_lists_keep_meaning [OF this(1), of "''192.0.2.7''"] show ?thesis by blast
qed

theorem accepted_gate_changes_take_effect_witness:
  "gate_managed_changes demo_gate_environment demo_gate_file
     (demo_gate_file\<lparr>gf_server := (gf_server demo_gate_file)\<lparr>sv_listen_addr := '':81''\<rparr>\<rparr>) = None \<and>
   (\<exists>e. apply_gate_overrides demo_gate_environment (demo_gate_file\<lparr>gf_server := (gf_server demo_gate_file)\<lparr>sv_listen_addr := '':81''\<rparr>\<rparr>) = Inr e \<and>
     sv_listen_addr (gf_server e) = '':81'')"
proof -
  let ?b = "demo_gate_file\<lparr>gf_server := (gf_server demo_gate_file)\<lparr>sv_listen_addr := '':81''\<rparr>\<rparr>"
  have v: "gate_managed_changes demo_gate_environment demo_gate_file ?b = None" by code_simp
  have "(case apply_gate_overrides demo_gate_environment ?b of Inl _ \<Rightarrow> False | Inr _ \<Rightarrow> True)" by code_simp
  then obtain e where e: "apply_gate_overrides demo_gate_environment ?b = Inr e"
    by (cases "apply_gate_overrides demo_gate_environment ?b") auto
  have "sv_listen_addr (gf_server demo_gate_file) \<noteq> sv_listen_addr (gf_server ?b)" by code_simp
  with accepted_gate_changes_take_effect [OF v e] v e show ?thesis unfolding takes_effect_def by simp
qed

end
