(* ===== verification/Spec2Isabelle.thy ===== *)
theory Spec2Isabelle
  imports Go_Prelude Http_Header Request_Path Net_IP Lru_Cache Client_IP Http_Helpers Cache_Policy Route_Match
    Upstream_Pool Key_Lock Access_Log Rate_Limit Ban_Manager Admission Traffic
    Waf_Correct Gate_Metrics Security_Log_Restart Gateway_Correct Edge_Handler_Witness Edge_Config_Accept Gate_Config_Accept
begin

text \<open>
  A verification of SecureEdge: two Go programs that protect and serve an origin.
  \<^bold>\<open>SecurityEdge\<close> (\<^verbatim>\<open>apps/securityedge\<close>) is a security gateway: it resolves the client address,
  selects the policy of the route, limits concurrency and rates, bans repeat offenders, checks
  the shape of a request, inspects it with a rule-based firewall, and hands it on, marking the
  response with its decision and recording it in metrics, an event log and a traffic tracker.
  \<^bold>\<open>EdgeProxy\<close> (\<^verbatim>\<open>apps/edgeproxy\<close>) is the caching reverse proxy behind it: it routes by host and path,
  answers from an LRU cache by the rules of HTTP caching, and selects an upstream server.

  \<^bold>\<open>Conventions.\<close> Strings are byte strings, letter case is mapped on ASCII letters, an instant is the number
  of nanoseconds since Go's zero time, a Go map is an association list with distinct keys, machine
  integers are words or integers with the wrap-around written out where it matters, \<open>float64\<close> values are
  exact reals. Every operation is a function from the state before to the result and the state after; a
  mutex makes an operation one step, and where a lock is released in between (the per-key lock, an
  export, requests in flight) the interleavings are part of the model. Code that is not in the
  repository (regular expressions, JSON, SHA-256, time parsing, media types) and what the environment
  decides (clocks, identifiers, failing files, cancellation) are parameters; hypotheses about them
  state documented behaviour.

  \<^bold>\<open>Shared theories.\<close>
  \<^item> \<open>Go_Prelude\<close>: strings, time, maps (locale \<open>finite_map\<close>), \<^verbatim>\<open>path.Clean\<close>; \<open>Utf8\<close>: runes, validity,
    truncation; \<open>Net_IP\<close> and \<open>Ip_Text\<close>: addresses and networks, their parsing and printing; \<open>Url_Query\<close>: the
    parts of \<^verbatim>\<open>net/url\<close> in use; \<open>Http_Header\<close>: header fields and requests; \<open>Ring_Buffer\<close>: ring buffers and
    the locale \<open>bounded_log\<close>, which both log stores interpret.
  \<^item> \<open>Config_Rules\<close>: what both configuration packages share: route tables, listeners, environment
    variables and fields managed by them; \<open>Config_Rules_Correct\<close>: its lemmas.

  \<^bold>\<open>EdgeProxy.\<close>
  \<^item> \<open>Lru_Cache\<close> (\<^verbatim>\<open>cache/cache.go\<close>): the cache with its index, recency list and byte count; every run
    returns, keeps its limits and refines an abstract LRU list; purging is exact.
  \<^item> \<open>Key_Lock\<close> (\<^verbatim>\<open>cache/keylock.go\<close>): the per-key lock as a step relation; mutual exclusion, exact
    reference counts and no deadlock under every interleaving.
  \<^item> \<open>Request_Path\<close>, \<open>Route_Match\<close> (\<^verbatim>\<open>router/router.go\<close>, and SecurityEdge's \<^verbatim>\<open>routes/routes.go\<close>): canonical paths
    and route selection; both programs select the same, most specific route.
  \<^item> \<open>Client_IP\<close> (\<^verbatim>\<open>proxy/net.go\<close>, SecurityEdge's \<^verbatim>\<open>clientip/resolver.go\<close>): client address resolution, in which case
    which address is answered; the same in both programs.
  \<^item> \<open>Http_Helpers\<close> (\<^verbatim>\<open>proxy/helpers.go\<close>) and \<open>Cache_Policy\<close> (\<^verbatim>\<open>proxy/cache_policy.go\<close>): header hygiene, upstream URLs,
    cache keys and what may be stored for how long; \<open>Edge_Response\<close>: the rest of both files, the
    request sent to the origin and the response released to the client.
  \<^item> \<open>Upstream_Pool\<close> (\<^verbatim>\<open>proxy/upstream.go\<close>): selection by every algorithm, health and fairness.
  \<^item> \<open>Access_Log\<close> (\<^verbatim>\<open>accesslog/store.go\<close>): the ring of access log entries and cursor pagination; \<open>Edge_Metrics\<close>
    (\<^verbatim>\<open>metrics/metrics.go\<close>): counters that are exact, histograms and snapshots.
  \<^item> \<open>Edge_Handler\<close> (\<^verbatim>\<open>proxy/handler.go\<close>, \<^verbatim>\<open>proxy/admin.go\<close>): the request handler that composes all of these, with retries,
    revalidation, stale answers and tunnels. \<open>Edge_Handler_Loop\<close>: the retry loop ends, balances its connections and
    bounds its calls; \<open>Edge_Handler_Cache\<close>, \<open>Edge_Handler_Correct\<close>: what is stored, answered and invalidated is what HTTP
    caching allows; \<open>Edge_Handler_Records\<close>, \<open>Edge_Handler_Telemetry\<close>: each request is logged and counted once, a probe not
    at all; \<open>Edge_Handler_Life\<close>: runs of many requests; \<open>Edge_Handler_Witness\<close>: concrete requests.
  \<^item> \<open>Edge_Config\<close> (\<^verbatim>\<open>config/config.go\<close>): defaults, normalization, validation, environment overrides and the
    check of environment-managed changes. \<open>Edge_Config_Correct\<close>, \<open>Edge_Config_Safe\<close>, \<open>Edge_Config_Stable\<close>, \<open>Edge_Config_Accept\<close>: an
    accepted configuration is safe to run, accepted changes of managed fields take effect, and exactly when (no path prefix with white space
    at its ends) validating it again changes nothing and both programs read the same route table from it.

  \<^bold>\<open>SecurityEdge.\<close>
  \<^item> \<open>Rate_Limit\<close>, \<open>Ban_Manager\<close> (\<^verbatim>\<open>ratelimit/limiter.go\<close>): token buckets per route and client with bounds on
    what is admitted; automatic bans with exact thresholds and exactly how long they last; how one can be
    shortened.
  \<^item> \<open>Admission\<close> (\<^verbatim>\<open>admission/limiter.go\<close>): concurrency slots; \<open>Traffic\<close> (\<^verbatim>\<open>traffic/tracker.go\<close>): recent requests.
  \<^item> \<open>Security_Policy\<close> (policies of \<^verbatim>\<open>config/config.go\<close>), \<open>Waf\<close> (\<^verbatim>\<open>waf/types.go\<close>,
    \<^verbatim>\<open>rules.go\<close>, \<^verbatim>\<open>inspect.go\<close>): rules, samples, decoding and inspection; \<open>Waf_Correct\<close>: exact results, bounded
    work, untouched requests, exclusions that cannot be abused by dot segments.
  \<^item> \<open>Gate_Metrics\<close> (\<^verbatim>\<open>metrics/metrics.go\<close>): counters of which none is lost, percentiles that are upper
    estimates.
  \<^item> \<open>Security_Log\<close> (\<^verbatim>\<open>securitylog/store.go\<close>): events in memory and in rotated files; \<open>Security_Log_Correct\<close>: exports
    consistent under concurrent changes; \<open>Security_Log_Restart\<close>: what the files hold, and restoring it after a restart.
  \<^item> \<open>Gateway\<close> (\<^verbatim>\<open>gateway/handler.go\<close>, \<^verbatim>\<open>EffectivePolicy\<close> of \<^verbatim>\<open>securityedge.go\<close>): the pipeline that composes all of these;
    \<open>Gateway_Correct\<close>: complete mediation, no leaked slots, exact records, unforgeable decisions.
  \<^item> \<open>Gate_Config\<close> (\<^verbatim>\<open>config/config.go\<close>): all of SecurityEdge's configuration. \<open>Gate_Config_Correct\<close> (locale \<open>normalizer\<close>, with
    an interpretation per list), \<open>Gate_Config_Safe\<close>, \<open>Gate_Config_Accept\<close>: accepted configurations are safe, canonical
    lists mean what was written, accepted rules compile, accepted changes are not undone by the environment.

  \<^bold>\<open>Loops.\<close> All loops are total functions except the eviction loop of the cache, a
  \<open>partial_function\<close> that is shown to return on every reachable state. Decoding is iterated
  three times and JSON is flattened to a fixed depth, as in the code. \<open>query_all\<close> of \<open>Access_Log\<close> takes
  fuel, and the theorem says how much is enough.

  \<^bold>\<open>Limits of the model.\<close> A request of EdgeProxy runs alone except for its wait at the fill lock, where other requests may change the
  state (a parameter of the definitions); what others do during a round trip is not interleaved. Lines written to the process log are not modelled. A panic of the
  proxy is a missing result; panics of the handler behind the gateway are not modelled, nor the raw bytes after a connection was hijacked.
  Letter case is that of ASCII where Go's \<^verbatim>\<open>strings.ToLower\<close> and \<^verbatim>\<open>EqualFold\<close> are Unicode. Sequence numbers of events are unbounded where Go has
  \<^verbatim>\<open>uint64\<close>, and so are sums like the inspection limit plus one, whose terms the configuration bounds. Tokens and averages are exact reals. The comparison of upstream lists
  identifies a nil and an empty slice. \<^verbatim>\<open>RawPath\<close> of a URL is ignored where it is cleared before use.

  \<^bold>\<open>Not modelled.\<close> The HTTP and JSON administration interfaces, process start-up, listeners and
  signals, network probes and their timers, the bytes of a tunnel and of error responses are glue or
  I/O; the transport, URL parsing, port lookup and media types are parameters of the definitions that
  use them. The environment file parser, EdgeProxy's control manager, the connectivity monitor and
  the telemetry history are left out, as is the runtime's reloading of configuration.
\<close>

end
